(* ===== verification/Prelude.thy ===== *)
theory Prelude
  imports Main "HOL-Library.Word" "HOL-Library.Monad_Syntax"
begin

text \<open>
  Prelude of the development: the machine types of the Go sources, the conventions for
  panics and errors, and the generic facts that the component theories share.

  \<^item> \<open>byte\<close>, \<open>u16\<close>, \<open>u32\<close>, \<open>u64\<close>, \<open>u256\<close> are Go's fixed-width unsigned integers (and
    \<open>uint256.Int\<close>); their arithmetic wraps. \<open>big.Int\<close> is \<^typ>\<open>int\<close>.
  \<^item> \<open>address\<close> is \<open>common.Address\<close> (20 bytes), written as a 160-bit word.
  \<^item> A Go panic is \<^const>\<open>None\<close>; a computation that may panic has type \<open>'a option\<close> and is
    sequenced with the option monad's do-notation. A Go \<open>error\<close> is a value and is returned
    beside the state, because the code does not undo storage writes when it returns one.
\<close>

type_synonym byte = "8 word"
type_synonym bytes = "byte list"
type_synonym u16 = "16 word"
type_synonym u32 = "32 word"
type_synonym u64 = "64 word"
type_synonym u256 = "256 word"
type_synonym address = "160 word"
type_synonym blocknum = u64

named_theorems panic_simps \<open>unfolding rules for computations that may panic\<close>
named_theorems codec_simps \<open>round trips of the byte encodings\<close>
named_theorems imap_simps \<open>laws of the iterable maps\<close>

section \<open>Panics\<close>

definition assertm :: "bool \<Rightarrow> unit option" where
  "assertm b = (if b then Some () else None)"

lemma assertm_simps [simp, panic_simps]:
  "assertm True = Some ()" "assertm False = None"
  by (simp_all add: assertm_def)

lemma assertm_eq_Some [simp, panic_simps]: "assertm b = Some u \<longleftrightarrow> b"
  by (simp add: assertm_def)

lemma bind_eq_SomeE:
  assumes "Option.bind m f = Some y"
  obtains x where "m = Some x" "f x = Some y"
  using assms by (cases m) auto

declare bind_eq_Some_conv [panic_simps]

section \<open>Arithmetic of \<open>math/big\<close>\<close>

text \<open>
  \<open>big.Int.Div\<close> is Euclidean division and panics on a zero divisor; for a positive divisor
  it is HOL's \<open>div\<close>.
\<close>

definition big_Div :: "int \<Rightarrow> int \<Rightarrow> int option" where
  "big_Div x y = (if y = 0 then None else if y < 0 then Some (- (x div (- y))) else Some (x div y))"

lemma big_Div_pos [simp]: "0 < y \<Longrightarrow> big_Div x y = Some (x div y)"
  by (simp add: big_Div_def)

lemma big_Div_zero [simp]: "big_Div x 0 = None"
  by (simp add: big_Div_def)

lemma big_Div_euclid:
  assumes "big_Div x y = Some q"
  shows "\<exists>r. x = q * y + r \<and> 0 \<le> r \<and> r < \<bar>y\<bar>"
proof (cases "0 < y")
  case True
  with assms have q: "q = x div y" by simp
  have "x = q * y + x mod y" "0 \<le> x mod y" "x mod y < \<bar>y\<bar>"
    using True by (simp_all add: q)
  then show ?thesis by blast
next
  case False
  with assms have y: "y < 0" and q: "q = - (x div (- y))"
    by (auto simp: big_Div_def split: if_splits)
  have "x = (x div (- y)) * (- y) + x mod (- y)" by (simp only: div_mult_mod_eq)
  then have "x = q * y + x mod (- y)" by (simp add: q)
  moreover have "0 \<le> x mod (- y)" "x mod (- y) < \<bar>y\<bar>" using y by simp_all
  ultimately show ?thesis by blast
qed

section \<open>Lists\<close>

lemma distinct_butlast_last_notin:
  "distinct xs \<Longrightarrow> xs \<noteq> [] \<Longrightarrow> last xs \<notin> set (butlast xs)"
  by (metis append_butlast_last_id distinct_append not_distinct_conv_prefix)

lemma take_drop_append: "take n xs @ take m (drop n xs) = take (n + m) xs"
  by (simp add: take_add)

end
