(* ===== verification/Bin_Codec.thy ===== *)
theory Bin_Codec
  imports Prelude
begin

unbundle bit_operations_syntax

text \<open>
  Byte encodings of integers: \<open>ebla/util/bin/index.go\<close> (big-endian, fixed and compact), the
  little-endian encodings of \<open>contracts/storage\<close> (\<open>ids_imap.go\<close>, \<open>iterable_map.go\<close>) and
  \<open>big.Int.Bytes\<close>/\<open>SetBytes\<close>. The locale \<open>codec\<close> states what a client of an encoding relies
  on, and every encoding used by the contracts' storage is an interpretation of it.
\<close>

section \<open>The codec interface\<close>

locale codec =
  fixes enc :: "'a \<Rightarrow> bytes" and dec :: "bytes \<Rightarrow> 'a option"
  assumes dec_enc: "dec (enc x) = Some x"
begin

lemma enc_inj: "enc x = enc y \<longleftrightarrow> x = y"
  by (metis dec_enc option.inject)

lemma inj_enc: "inj enc"
  by (simp add: inj_def enc_inj)

lemma dec_image: "bs \<in> range enc \<Longrightarrow> \<exists>x. dec bs = Some x \<and> enc x = bs"
  by (auto simp: dec_enc)

end

section \<open>Bytes of a word\<close>

definition byte_of :: "nat \<Rightarrow> 'a::len word \<Rightarrow> byte" where
  "byte_of k v = ucast (drop_bit (8 * k) v)"

definition at_byte :: "nat \<Rightarrow> byte \<Rightarrow> 'a::len word" where
  "at_byte k b = push_bit (8 * k) (ucast b)"

lemma bit_at_byte_of:
  "bit (at_byte k (byte_of k (v :: 'a::len word)) :: 'a word) n \<longleftrightarrow>
     8 * k \<le> n \<and> n < 8 * k + 8 \<and> bit v n"
  by (auto simp: at_byte_def byte_of_def bit_simps less_diff_conv2 dest: bit_imp_le_length)

lemma at_byte_OR_take_bit:
  "at_byte k (byte_of k v) OR take_bit (8 * k) v = take_bit (8 * Suc k) (v :: 'a::len word)"
  by (rule bit_word_eqI) (auto simp: bit_or_iff bit_take_bit_iff bit_at_byte_of)

lemma take_bit_all: "LENGTH('a) \<le> n \<Longrightarrow> take_bit n (v :: 'a::len word) = v"
  by (rule bit_word_eqI) (auto simp: bit_take_bit_iff dest: bit_imp_le_length)

lemma take_bit_less:
  fixes v :: "'a::len word"
  assumes "v < 2 ^ n" and "n < LENGTH('a)"
  shows "take_bit n v = v"
proof -
  have "uint v < 2 ^ n" using assms by (simp add: word_2p_lem word_size)
  then show ?thesis by (simp add: mask_eq_iff [symmetric] take_bit_eq_mask)
qed

section \<open>Little-endian encodings\<close>

text \<open>
  \<open>Uint64ToBytes\<close>/\<open>uint32ToBytes\<close> fill byte \<open>i\<close> with \<open>(val >> 8*i) & 0xff\<close>; the decoders OR the
  bytes back and panic (index out of range) on a slice that is too short.
\<close>

definition Uint64ToBytes :: "u64 \<Rightarrow> bytes" where
  "Uint64ToBytes val = map (\<lambda>i. ucast (drop_bit (8 * i) val AND 0xff)) [0..<8]"

definition BytesToUint64 :: "bytes \<Rightarrow> u64 option" where
  "BytesToUint64 val =
     (if length val < 8 then None
      else Some (foldl (\<lambda>r i. r OR push_bit (8 * i) (ucast (val ! i))) 0 [0..<8]))"

definition uint32ToBytes :: "u32 \<Rightarrow> bytes" where
  "uint32ToBytes val = map (\<lambda>i. ucast (drop_bit (8 * i) val AND 0xff)) [0..<4]"

definition bytesToUint32 :: "bytes \<Rightarrow> u32 option" where
  "bytesToUint32 val =
     (if length val < 4 then None
      else Some (foldl (\<lambda>r i. r OR push_bit (8 * i) (ucast (val ! i))) 0 [0..<4]))"

lemma ucast_and_ff: "ucast (v AND 0xff :: 'a::len word) = (ucast v :: byte)"
proof -
  have m: "(0xff :: 'a word) = mask 8" by (simp add: mask_eq_exp_minus_1)
  show ?thesis unfolding m
    by (intro bit_word_eqI) (auto simp: bit_simps dest: bit_imp_le_length)
qed

lemma Uint64ToBytes_unfold:
  "Uint64ToBytes v = [byte_of 0 v, byte_of 1 v, byte_of 2 v, byte_of 3 v,
     byte_of 4 v, byte_of 5 v, byte_of 6 v, byte_of 7 v]"
  by (simp add: Uint64ToBytes_def upt_rec ucast_and_ff byte_of_def)

lemma uint32ToBytes_unfold:
  "uint32ToBytes v = [byte_of 0 v, byte_of 1 v, byte_of 2 v, byte_of 3 v]"
  by (simp add: uint32ToBytes_def upt_rec ucast_and_ff byte_of_def)

lemma length_Uint64ToBytes [simp]: "length (Uint64ToBytes v) = 8"
  by (simp add: Uint64ToBytes_def)

lemma length_uint32ToBytes [simp]: "length (uint32ToBytes v) = 4"
  by (simp add: uint32ToBytes_def)

lemma take_bit_chain:
  fixes v :: "'a::len word"
  shows "at_byte 0 (byte_of 0 v) = take_bit 8 v"
    and "take_bit 8 v OR at_byte 1 (byte_of 1 v) = take_bit 16 v"
    and "take_bit 16 v OR at_byte 2 (byte_of 2 v) = take_bit 24 v"
    and "take_bit 24 v OR at_byte 3 (byte_of 3 v) = take_bit 32 v"
    and "take_bit 32 v OR at_byte 4 (byte_of 4 v) = take_bit 40 v"
    and "take_bit 40 v OR at_byte 5 (byte_of 5 v) = take_bit 48 v"
    and "take_bit 48 v OR at_byte 6 (byte_of 6 v) = take_bit 56 v"
    and "take_bit 56 v OR at_byte 7 (byte_of 7 v) = take_bit 64 v"
  using at_byte_OR_take_bit [of 0 v] at_byte_OR_take_bit [of 1 v] at_byte_OR_take_bit [of 2 v]
    at_byte_OR_take_bit [of 3 v] at_byte_OR_take_bit [of 4 v] at_byte_OR_take_bit [of 5 v]
    at_byte_OR_take_bit [of 6 v] at_byte_OR_take_bit [of 7 v]
  by (simp_all add: ac_simps)

lemma BytesToUint64_Uint64ToBytes [simp, codec_simps]:
  "BytesToUint64 (Uint64ToBytes v) = Some v"
proof -
  have "BytesToUint64 (Uint64ToBytes v) = Some (((((((at_byte 0 (byte_of 0 v)
      OR at_byte 1 (byte_of 1 v)) OR at_byte 2 (byte_of 2 v)) OR at_byte 3 (byte_of 3 v))
      OR at_byte 4 (byte_of 4 v)) OR at_byte 5 (byte_of 5 v)) OR at_byte 6 (byte_of 6 v))
      OR at_byte 7 (byte_of 7 v))"
    by (simp add: BytesToUint64_def Uint64ToBytes_unfold upt_rec at_byte_def)
  then show ?thesis by (simp only: take_bit_chain) (simp add: take_bit_all)
qed

lemma bytesToUint32_uint32ToBytes [simp, codec_simps]:
  "bytesToUint32 (uint32ToBytes v) = Some v"
proof -
  have "bytesToUint32 (uint32ToBytes v) = Some (((at_byte 0 (byte_of 0 v)
      OR at_byte 1 (byte_of 1 v)) OR at_byte 2 (byte_of 2 v)) OR at_byte 3 (byte_of 3 v))"
    by (simp add: bytesToUint32_def uint32ToBytes_unfold upt_rec at_byte_def)
  then show ?thesis by (simp only: take_bit_chain) (simp add: take_bit_all)
qed

interpretation u64_le: codec Uint64ToBytes BytesToUint64
  by unfold_locales (rule BytesToUint64_Uint64ToBytes)

interpretation u32_le: codec uint32ToBytes bytesToUint32
  by unfold_locales (rule bytesToUint32_uint32ToBytes)

section \<open>Big-endian encodings of \<open>ebla/util/bin\<close>\<close>

definition ENC_b_endian_64 :: "u64 \<Rightarrow> bytes" where
  "ENC_b_endian_64 v = [byte_of 7 v, byte_of 6 v, byte_of 5 v, byte_of 4 v,
     byte_of 3 v, byte_of 2 v, byte_of 1 v, byte_of 0 v]"

fun DEC_b_endian_64 :: "bytes \<Rightarrow> u64 option" where
  "DEC_b_endian_64 [b0, b1, b2, b3, b4, b5, b6, b7] =
     Some (at_byte 7 b0 OR at_byte 6 b1 OR at_byte 5 b2 OR at_byte 4 b3 OR
       at_byte 3 b4 OR at_byte 2 b5 OR at_byte 1 b6 OR at_byte 0 b7)"
| "DEC_b_endian_64 _ = None"

definition ENC_b_endian_compact_64_1 :: "u64 \<Rightarrow> bytes" where
  "ENC_b_endian_compact_64_1 i =
     (if i < 2 ^ 8 then [byte_of 0 i]
      else if i < 2 ^ 16 then [byte_of 1 i, byte_of 0 i]
      else if i < 2 ^ 24 then [byte_of 2 i, byte_of 1 i, byte_of 0 i]
      else if i < 2 ^ 32 then [byte_of 3 i, byte_of 2 i, byte_of 1 i, byte_of 0 i]
      else if i < 2 ^ 40 then [byte_of 4 i, byte_of 3 i, byte_of 2 i, byte_of 1 i, byte_of 0 i]
      else if i < 2 ^ 48 then [byte_of 5 i, byte_of 4 i, byte_of 3 i, byte_of 2 i, byte_of 1 i,
        byte_of 0 i]
      else if i < 2 ^ 56 then [byte_of 6 i, byte_of 5 i, byte_of 4 i, byte_of 3 i, byte_of 2 i,
        byte_of 1 i, byte_of 0 i]
      else [byte_of 7 i, byte_of 6 i, byte_of 5 i, byte_of 4 i, byte_of 3 i, byte_of 2 i,
        byte_of 1 i, byte_of 0 i])"

fun DEC_b_endian_compact_64 :: "bytes \<Rightarrow> u64 option" where
  "DEC_b_endian_compact_64 [] = Some 0"
| "DEC_b_endian_compact_64 [b0] = Some (at_byte 0 b0)"
| "DEC_b_endian_compact_64 [b0, b1] = Some (at_byte 1 b0 OR at_byte 0 b1)"
| "DEC_b_endian_compact_64 [b0, b1, b2] = Some (at_byte 2 b0 OR at_byte 1 b1 OR at_byte 0 b2)"
| "DEC_b_endian_compact_64 [b0, b1, b2, b3] =
     Some (at_byte 3 b0 OR at_byte 2 b1 OR at_byte 1 b2 OR at_byte 0 b3)"
| "DEC_b_endian_compact_64 [b0, b1, b2, b3, b4] =
     Some (at_byte 4 b0 OR at_byte 3 b1 OR at_byte 2 b2 OR at_byte 1 b3 OR at_byte 0 b4)"
| "DEC_b_endian_compact_64 [b0, b1, b2, b3, b4, b5] =
     Some (at_byte 5 b0 OR at_byte 4 b1 OR at_byte 3 b2 OR at_byte 2 b3 OR at_byte 1 b4 OR
       at_byte 0 b5)"
| "DEC_b_endian_compact_64 [b0, b1, b2, b3, b4, b5, b6] =
     Some (at_byte 6 b0 OR at_byte 5 b1 OR at_byte 4 b2 OR at_byte 3 b3 OR at_byte 2 b4 OR
       at_byte 1 b5 OR at_byte 0 b6)"
| "DEC_b_endian_compact_64 [b0, b1, b2, b3, b4, b5, b6, b7] =
     Some (at_byte 7 b0 OR at_byte 6 b1 OR at_byte 5 b2 OR at_byte 4 b3 OR at_byte 3 b4 OR
       at_byte 2 b5 OR at_byte 1 b6 OR at_byte 0 b7)"
| "DEC_b_endian_compact_64 (_ # _ # _ # _ # _ # _ # _ # _ # _ # _) = None"

definition SizeInBytes :: "u64 \<Rightarrow> byte" where
  "SizeInBytes i =
     (if i < 2 ^ 8 then 1 else if i < 2 ^ 16 then 2 else if i < 2 ^ 24 then 3
      else if i < 2 ^ 32 then 4 else if i < 2 ^ 40 then 5 else if i < 2 ^ 48 then 6
      else if i < 2 ^ 56 then 7 else 8)"

lemma be_chain:
  fixes v :: "'a::len word"
  shows "at_byte 0 (byte_of 0 v) = take_bit 8 v"
    and "at_byte 1 (byte_of 1 v) OR take_bit 8 v = take_bit 16 v"
    and "at_byte 2 (byte_of 2 v) OR take_bit 16 v = take_bit 24 v"
    and "at_byte 3 (byte_of 3 v) OR take_bit 24 v = take_bit 32 v"
    and "at_byte 4 (byte_of 4 v) OR take_bit 32 v = take_bit 40 v"
    and "at_byte 5 (byte_of 5 v) OR take_bit 40 v = take_bit 48 v"
    and "at_byte 6 (byte_of 6 v) OR take_bit 48 v = take_bit 56 v"
    and "at_byte 7 (byte_of 7 v) OR take_bit 56 v = take_bit 64 v"
  using take_bit_chain [of v] by (simp_all only: or.commute)

lemma DEC_ENC_b_endian_64 [codec_simps]: "DEC_b_endian_64 (ENC_b_endian_64 v) = Some v"
  unfolding ENC_b_endian_64_def DEC_b_endian_64.simps be_chain by (simp add: take_bit_all)

lemma DEC_ENC_b_endian_compact_64 [codec_simps]:
  "DEC_b_endian_compact_64 (ENC_b_endian_compact_64_1 i) = Some i"
proof -
  note dec = DEC_b_endian_compact_64.simps be_chain
  have all: "take_bit 64 i = i" by (simp add: take_bit_all)
  have less: "i < 2 ^ 8 \<Longrightarrow> take_bit 8 i = i" "i < 2 ^ 16 \<Longrightarrow> take_bit 16 i = i"
    "i < 2 ^ 24 \<Longrightarrow> take_bit 24 i = i" "i < 2 ^ 32 \<Longrightarrow> take_bit 32 i = i"
    "i < 2 ^ 40 \<Longrightarrow> take_bit 40 i = i" "i < 2 ^ 48 \<Longrightarrow> take_bit 48 i = i"
    "i < 2 ^ 56 \<Longrightarrow> take_bit 56 i = i"
    by (erule take_bit_less, simp)+
  show ?thesis
    unfolding ENC_b_endian_compact_64_1_def if_distrib [of DEC_b_endian_compact_64] dec
    by (simp only: less all if_cancel cong: if_cong)
qed

interpretation u64_be: codec ENC_b_endian_64 DEC_b_endian_64
  by unfold_locales (rule DEC_ENC_b_endian_64)

interpretation u64_compact: codec ENC_b_endian_compact_64_1 DEC_b_endian_compact_64
  by unfold_locales (rule DEC_ENC_b_endian_compact_64)

section \<open>\<open>big.Int.Bytes\<close> and \<open>SetBytes\<close>\<close>

text \<open>
  The absolute value as a minimal big-endian byte string (empty for zero), as \<open>big.Int.Bytes\<close>
  and \<open>uint256.Int.Bytes\<close> return it, and the decoder \<open>SetBytes\<close>. \<open>BlockToBytes\<close> of
  \<open>dpos_contract.go\<close> is the encoding of a block number in the keys of the reward states.
\<close>

fun big_Bytes :: "nat \<Rightarrow> bytes" where
  "big_Bytes n = (if n = 0 then [] else big_Bytes (n div 256) @ [word_of_nat (n mod 256)])"

declare big_Bytes.simps [simp del]

definition big_SetBytes :: "bytes \<Rightarrow> nat" where
  "big_SetBytes bs = foldl (\<lambda>r b. 256 * r + unat b) 0 bs"

lemma big_SetBytes_snoc: "big_SetBytes (bs @ [b]) = 256 * big_SetBytes bs + unat b"
  by (simp add: big_SetBytes_def)

lemma big_SetBytes_Bytes [simp, codec_simps]: "big_SetBytes (big_Bytes n) = n"
proof (induction n rule: big_Bytes.induct)
  case (1 n)
  show ?case
  proof (cases "n = 0")
    case True
    then show ?thesis by (simp add: big_Bytes.simps [of 0] big_SetBytes_def)
  next
    case False
    have "unat (word_of_nat (n mod 256) :: byte) = n mod 256"
      by (simp add: unat_of_nat)
    with False "1.IH" show ?thesis
      by (simp add: big_Bytes.simps [of n] big_SetBytes_snoc)
  qed
qed

interpretation big_bytes: codec big_Bytes "\<lambda>bs. Some (big_SetBytes bs)"
  by unfold_locales simp

lemma hd_big_Bytes: "n \<noteq> 0 \<Longrightarrow> big_Bytes n \<noteq> [] \<and> hd (big_Bytes n) \<noteq> 0"
proof (induction n rule: big_Bytes.induct)
  case (1 n)
  show ?case
  proof (cases "n div 256 = 0")
    case True
    with "1.prems" have "0 < n" "n < 256" by simp_all
    then have "unat (word_of_nat n :: byte) = n" by (simp add: unat_of_nat)
    with True \<open>0 < n\<close> have "(word_of_nat n :: byte) \<noteq> 0" by auto
    with True \<open>n < 256\<close> "1.prems" show ?thesis
      by (simp add: big_Bytes.simps [of n] big_Bytes.simps [of 0])
  next
    case False
    with "1.IH" "1.prems" show ?thesis by (simp add: big_Bytes.simps [of n])
  qed
qed

definition BlockToBytes :: "blocknum \<Rightarrow> bytes" where
  "BlockToBytes number = big_Bytes (unat number)"

lemma BlockToBytes_inj: "BlockToBytes a = BlockToBytes b \<longleftrightarrow> a = b"
  by (simp add: BlockToBytes_def big_bytes.enc_inj word_unat_eq_iff)

end
