(* ===== verification/Evm_Types.thy ===== *)
theory Evm_Types
  imports Bin_Codec
begin

text \<open>
  What the precompiled contracts see of the EVM: log records (\<open>core/vm\<close>, \<open>LogRecord\<close>), the call
  frame, and the cryptographic functions, which are parameters of the model.
\<close>

text \<open>
  A log record: the address of the contract, the event (which stands for the topic of its
  signature), the indexed arguments and the data. The flags of the ABI decide which arguments
  are indexed; each event has at most one that is not, as \<open>MakeLog\<close> requires.
\<close>

datatype topic = TAddress address | TUint64 u64
datatype log_data = NoData | DUint256 int | DUint16 u16 | DUint64 u64 | DUint8 byte

record LogRecord =
  L_Address :: address
  L_Event :: string
  L_Topics :: "topic list"
  L_Data :: log_data

record CallFrame =
  CallerAccount :: address
  Account :: address
  Value :: int
  Input :: bytes

text \<open>The hash and the signature recovery are parameters.\<close>

record crypto =
  keccak256_Hash :: "bytes \<Rightarrow> bytes"
  Ecrecover :: "bytes \<Rightarrow> bytes \<Rightarrow> bytes option"

end
