(* ===== verification/Chain_Config.thy ===== *)
theory Chain_Config
  imports Bin_Codec
begin

text \<open>
  Configuration and input records: \<open>ebla/state/chain_config/chain_config.go\<close>,
  \<open>ebla/state/rewards_stats/rewards_stats.go\<close>, the conversions of \<open>uint256\<close> that the contracts
  use, and the argument checks of the DPoS API (\<open>dpos/precompiled/api.go\<close>).

  A Go map is an association list in the order in which \<open>range\<close> visits it; Go leaves that order
  open, so results that must not depend on it are stated for permutations of the list.
\<close>

record SlashingConfig =
  JailTime :: u64

record SupplyConfig =
  MaxSupply :: int
  GeneratedRewards :: int

record ProtocolConfig =
  RewardsDistributionFrequency :: "(u64 \<times> u32) list"
  Slashing :: SlashingConfig
  Supply :: SupplyConfig

record GenesisValidator =
  GV_Address :: address
  GV_Owner :: address
  GV_VrfKey :: bytes
  GV_Commission :: u16
  GV_Endpoint :: string
  GV_Description :: string
  GV_Delegations :: "(address \<times> int) list"

record DPOSConfig =
  EligibilityBalanceThreshold :: int
  VoteEligibilityBalanceStep :: int
  ValidatorMaximumStake :: int
  MinimumDeposit :: int
  MaxBlockAuthorReward :: u16
  DagProposersReward :: u16
  CommissionChangeDelta :: u16
  CommissionChangeFrequency :: u32
  DelegationDelay :: u32
  DelegationLockingPeriod :: u32
  BlocksPerYear :: u32
  TrxMinGasPrice :: u64
  TrxMaxGasLimit :: u64
  InitialValidators :: "GenesisValidator list"

record ChainConfig =
  GenesisBalances :: "(address \<times> int) list"
  DPOS :: DPOSConfig
  Protocol :: ProtocolConfig

definition GenesisBalancesSum :: "ChainConfig \<Rightarrow> int" where
  "GenesisBalancesSum self = foldl (\<lambda>sum (_, balance). sum + balance) 0 (GenesisBalances self)"

record ValidatorStats =
  DagBlocksCount :: u32
  VoteWeight :: u64
  FeesRewards :: "int option"

record RewardsStats =
  BlockAuthor :: address
  ValidatorsStats :: "(address \<times> ValidatorStats) list"
  TotalDagBlocksCount :: u32
  TotalVotesWeight :: u64
  MaxVotesWeight :: u64

text \<open>
  \<open>uint256.FromBig\<close>: the low 256 bits (two's complement of a negative number) and whether the
  absolute value needed more; \<open>ToBig\<close> and \<open>NewInt\<close> are the unsigned readings.
\<close>

definition FromBig :: "int \<Rightarrow> u256 \<times> bool" where
  "FromBig x = (word_of_int x, 2 ^ 256 \<le> \<bar>x\<bar>)"

abbreviation ToBig :: "u256 \<Rightarrow> int" where
  "ToBig x \<equiv> uint x"

text \<open>
  The checks of \<open>API.Init\<close> on a configuration (nil checks apart, as the fields are values).
  \<open>10^38\<close> is the hexadecimal constant of the source.
\<close>

definition API_Init_checks :: "ChainConfig \<Rightarrow> bool" where
  "API_Init_checks cfg \<longleftrightarrow>
     DelegationDelay (DPOS cfg) \<le> DelegationLockingPeriod (DPOS cfg) \<and>
     MinimumDeposit (DPOS cfg) \<le> ValidatorMaximumStake (DPOS cfg) \<and>
     0 < ValidatorMaximumStake (DPOS cfg) \<and>
     ValidatorMaximumStake (DPOS cfg) < 0x4B3B4CA85A86C47A098A224000000000 \<and>
     MaxBlockAuthorReward (DPOS cfg) \<le> 100 \<and>
     GenesisBalancesSum cfg + GeneratedRewards (Supply (Protocol cfg)) \<le> MaxSupply (Supply (Protocol cfg)) \<and>
     \<not> snd (FromBig (GenesisBalancesSum cfg + GeneratedRewards (Supply (Protocol cfg)))) \<and>
     \<not> snd (FromBig (MaxSupply (Supply (Protocol cfg)))) \<and>
     0 < BlocksPerYear (DPOS cfg)"

lemma max_stake_constant: "(0x4B3B4CA85A86C47A098A224000000000 :: int) = 10 ^ 38"
  by simp

lemma GenesisBalancesSum_sum: "GenesisBalancesSum cfg = (\<Sum>(_, b)\<leftarrow>GenesisBalances cfg. b)"
proof -
  have "foldl (\<lambda>sum (_, balance). sum + balance) a xs = a + (\<Sum>(_, b)\<leftarrow>xs. b)"
    for a :: int and xs :: "(address \<times> int) list"
    by (induction xs arbitrary: a) auto
  then show ?thesis by (simp add: GenesisBalancesSum_def)
qed

end
