(* ===== verification/Yield_Curve.thy ===== *)
theory Yield_Curve
  imports Chain_Config
begin

text \<open>
  The block reward schedule of \<open>dpos/precompiled/yield_curve.go\<close>: the table of yields per epoch,
  the block reward, and the total supply at the first block.
\<close>

definition YieldFractionDecimalPrecision :: u256 where "YieldFractionDecimalPrecision = 1000000"
definition MinYieldValue :: u64 where "MinYieldValue = 10000"
definition EpochLength :: u64 where "EpochLength = 10000000"
definition MaxEpoch :: u64 where "MaxEpoch = 37"

definition EblaYieldTable :: "u64 list" where
  "EblaYieldTable =
     [70000, 66500, 63175, 60016, 57015, 54164, 51456, 48883, 46439, 44117,
      41911, 39816, 37825, 35933, 34137, 32430, 30808, 29268, 27805, 26414,
      25094, 23839, 22647, 21514, 20439, 19417, 18446, 17524, 16647, 15815,
      15024, 14273, 13559, 12881, 12237, 11625, 11044, 10492]"

record YieldCurve =
  yc_cfg :: ChainConfig
  max_supply :: u256

definition YieldCurve_Init :: "ChainConfig \<Rightarrow> YieldCurve option" where
  "YieldCurve_Init cfg = do {
     let (max_supply, overflow) = FromBig (MaxSupply (Supply (Protocol cfg)));
     assertm (\<not> overflow);
     assertm (0 < BlocksPerYear (DPOS cfg));
     Some \<lparr>yc_cfg = cfg, max_supply = max_supply\<rparr>
   }"

definition GetMaxSupply :: "YieldCurve \<Rightarrow> u256" where
  "GetMaxSupply self = max_supply self"

definition calculateCurrentYield :: "blocknum \<Rightarrow> u256" where
  "calculateCurrentYield block_num =
     (let epoch = block_num div EpochLength
      in if epoch > MaxEpoch then ucast MinYieldValue
         else ucast (EblaYieldTable ! unat epoch))"

definition CalculateBlockReward :: "YieldCurve \<Rightarrow> u256 \<Rightarrow> u256 \<Rightarrow> blocknum \<Rightarrow> u256 \<times> u256" where
  "CalculateBlockReward self current_total_delegation current_total_ebla_supply block_num =
     (let yield = calculateCurrentYield block_num;
          blocks_per_year = ucast (BlocksPerYear (DPOS (yc_cfg self)));
          block_reward = (current_total_delegation * yield) div (YieldFractionDecimalPrecision * blocks_per_year)
      in (block_reward, yield))"

definition CalculateTotalSupply :: "YieldCurve \<Rightarrow> u256 \<Rightarrow> u256 option" where
  "CalculateTotalSupply self minted_tokens =
     (let total_supply = GenesisBalancesSum (yc_cfg self) + ToBig minted_tokens;
          total_supply = total_supply + GeneratedRewards (Supply (Protocol (yc_cfg self)));
          (total_supply_uint256, overflow) = FromBig total_supply
      in do { assertm (\<not> overflow); Some total_supply_uint256 })"

section \<open>The table is the decay formula\<close>

text \<open>The documented schedule: 7\<open>%\<close> decaying by 5\<open>%\<close> per epoch, rounded down once, with a floor of 1\<open>%\<close>.\<close>

definition yield_formula :: "nat \<Rightarrow> nat" where
  "yield_formula e = 70000 * 95 ^ e div 100 ^ e"

lemma EblaYieldTable_formula: "map unat EblaYieldTable = map yield_formula [0..<38]"
proof -
  have "[0..<38] = [0, 1, 2, 3, 4, 5, 6, 7, 8, 9, 10, 11, 12, 13, 14, 15, 16, 17, 18, 19, 20, 21, 22,
      23, 24, 25, 26, 27, 28, 29, 30, 31, 32, 33, 34, 35, 36, 37 :: nat]"
    by (simp only: upt_conv_Cons upt_rec_numeral) (simp add: upt_rec_numeral upt_conv_Cons)
  then show ?thesis by (simp add: EblaYieldTable_def yield_formula_def)
qed

lemma length_EblaYieldTable [simp]: "length EblaYieldTable = 38"
  by (simp add: EblaYieldTable_def)

lemma yield_formula_Suc: "yield_formula (Suc n) \<le> yield_formula n"
proof -
  have "70000 * 95 ^ Suc n \<le> (70000 * 95 ^ n) * (100 :: nat)" by (simp only: power_Suc)
  then have "70000 * 95 ^ Suc n div (100 ^ n * 100) \<le> (70000 * 95 ^ n * 100) div ((100 :: nat) ^ n * 100)"
    by (rule div_le_mono)
  also have "\<dots> = 70000 * 95 ^ n div 100 ^ n" by (rule div_mult_mult2) simp
  finally show ?thesis by (simp only: yield_formula_def power_Suc2 [of 100])
qed

lemma yield_formula_antimono: "e \<le> e' \<Longrightarrow> yield_formula e' \<le> yield_formula e"
  by (induction e' rule: dec_induct) (auto intro: order_trans [OF yield_formula_Suc])

lemma nth_EblaYieldTable: "e < 38 \<Longrightarrow> unat (EblaYieldTable ! e) = yield_formula e"
  using arg_cong [OF EblaYieldTable_formula, of "\<lambda>xs. xs ! e"] by simp

lemma unat_block_epoch: "unat (block_num div EpochLength) = unat block_num div 10000000"
  by (simp add: EpochLength_def unat_div)

lemma epoch_gt_iff: "block_num div EpochLength > MaxEpoch \<longleftrightarrow> 37 < unat block_num div 10000000"
  by (simp add: word_less_nat_alt unat_block_epoch MaxEpoch_def)

lemma unat_ucast_64_256: "unat (ucast (v :: u64) :: u256) = unat v"
  by (simp add: unsigned_ucast_eq take_bit_nat_eq_self order_less_le_trans [OF unsigned_less])

lemma calculateCurrentYield_eq:
  "unat (calculateCurrentYield block_num) =
     (let e = unat block_num div 10000000 in if 37 < e then 10000 else yield_formula e)"
  by (auto simp: calculateCurrentYield_def Let_def epoch_gt_iff unat_ucast_64_256 MinYieldValue_def
      unat_block_epoch nth_EblaYieldTable)

end
