(* ===== verification/Contract_Storage.thy ===== *)
theory Contract_Storage
  imports Bin_Codec
begin

text \<open>
  The storage of a precompiled contract: \<open>contracts/storage/storage.go\<close> (\<open>StorageReaderWrapper\<close>,
  \<open>StorageWrapper\<close>) over the adapter of \<open>evm_state_storage_adapter.go\<close>.

  A wrapper keeps a read and write cache in front of two layers of the EVM state: \<open>db\<close>, what
  \<open>GetAccountStorage\<close> reads (\<open>TransitionState.GetAccountStorage\<close> goes to the database and not to
  the writes of the running block), and \<open>pending\<close>, the raw writes of
  \<open>SetStateRawIrreversibly\<close> that reach the database when the block is committed. The
  theorems show that the three layers behave as one map as long as the cache is cleared only
  together with the commit, which is what \<open>CommitCall\<close> does.
\<close>

type_synonym hash = bytes

record storage_wrapper =
  cache :: "hash \<rightharpoonup> bytes"
  db :: "hash \<rightharpoonup> bytes"
  pending :: "hash \<rightharpoonup> bytes"

section \<open>Operations\<close>

definition ClearCache :: "storage_wrapper \<Rightarrow> storage_wrapper" where
  "ClearCache s = s\<lparr>cache := Map.empty\<rparr>"

text \<open>
  \<open>Get\<close> calls its callback with the value or does not call it; the model returns the value as
  an option, together with the wrapper, since a read that reaches the database is cached.
\<close>

definition Get :: "storage_wrapper \<Rightarrow> hash \<Rightarrow> bytes option \<times> storage_wrapper" where
  "Get s k =
     (case cache s k of
        Some val \<Rightarrow> (if length val \<noteq> 0 then Some val else None, s)
      | None \<Rightarrow>
          (case db s k of
             Some bs \<Rightarrow> (Some bs, s\<lparr>cache := (cache s)(k \<mapsto> bs)\<rparr>)
           | None \<Rightarrow> (None, s)))"

definition Put :: "storage_wrapper \<Rightarrow> hash \<Rightarrow> bytes \<Rightarrow> storage_wrapper" where
  "Put s k v = s\<lparr>cache := (cache s)(k \<mapsto> v), pending := (pending s)(k \<mapsto> v)\<rparr>"

text \<open>
  The commit of a block: the pending writes reach the database (an empty value deletes the
  slot), and \<open>CommitCall\<close> clears the cache.
\<close>

definition overlay :: "(hash \<rightharpoonup> bytes) \<Rightarrow> (hash \<rightharpoonup> bytes) \<Rightarrow> (hash \<rightharpoonup> bytes)" where
  "overlay d p = (\<lambda>k. case p k of Some v \<Rightarrow> if v = [] then None else Some v | None \<Rightarrow> d k)"

definition commit :: "storage_wrapper \<Rightarrow> storage_wrapper" where
  "commit s = ClearCache (s\<lparr>db := overlay (db s) (pending s), pending := Map.empty\<rparr>)"

text \<open>Storage keys are hashes of concatenated parts; the hash function is a parameter.\<close>

definition Stor_k_1 :: "(bytes \<Rightarrow> hash) \<Rightarrow> bytes list \<Rightarrow> hash" where
  "Stor_k_1 keccak parts = keccak (concat parts)"

section \<open>Lists stored under a prefix\<close>

definition length_part :: bytes where
  "length_part = map (\<lambda>c. word_of_nat (of_char c)) ''length''"

definition ListLength :: "(bytes \<Rightarrow> hash) \<Rightarrow> storage_wrapper \<Rightarrow> bytes \<Rightarrow> (u64 \<times> storage_wrapper) option" where
  "ListLength keccak s prefix =
     (case Get s (Stor_k_1 keccak [prefix, length_part]) of
        (None, s) \<Rightarrow> Some (0, s)
      | (Some bs, s) \<Rightarrow> do { l \<leftarrow> DEC_b_endian_compact_64 bs; Some (l, s) })"

definition ListAppend ::
    "(bytes \<Rightarrow> hash) \<Rightarrow> storage_wrapper \<Rightarrow> bytes \<Rightarrow> bytes \<Rightarrow> (u64 \<times> storage_wrapper) option" where
  "ListAppend keccak s prefix val = do {
     (pos, s) \<leftarrow> ListLength keccak s prefix;
     let s = Put s (Stor_k_1 keccak [prefix, ENC_b_endian_64 pos]) val;
     let s = Put s (Stor_k_1 keccak [prefix, length_part]) (ENC_b_endian_compact_64_1 (pos + 1));
     Some (pos, s)
   }"

definition ListRemove ::
    "(bytes \<Rightarrow> hash) \<Rightarrow> storage_wrapper \<Rightarrow> bytes \<Rightarrow> u64 \<Rightarrow> (bytes \<times> storage_wrapper) option" where
  "ListRemove keccak s prefix pos = do {
     (len, s) \<leftarrow> ListLength keccak s prefix;
     assertm (0 < len);
     let (last_element, s) =
       (if len \<noteq> 1 then
          let lastpos_k = Stor_k_1 keccak [prefix, ENC_b_endian_64 (len - 1)];
              (r, s) = Get s lastpos_k
          in (case r of None \<Rightarrow> [] | Some bs \<Rightarrow> bs, Put s lastpos_k [])
        else ([], s));
     let s = Put s (Stor_k_1 keccak [prefix, ENC_b_endian_64 pos]) last_element;
     let s = Put s (Stor_k_1 keccak [prefix, length_part]) (ENC_b_endian_compact_64_1 (len - 1));
     Some (last_element, s)
   }"

section \<open>The cache is transparent\<close>

text \<open>The map the layers stand for, and the agreement between them.\<close>

definition view :: "storage_wrapper \<Rightarrow> hash \<Rightarrow> bytes option" where
  "view s = overlay (db s) (pending s)"

definition coherent :: "storage_wrapper \<Rightarrow> bool" where
  "coherent s \<longleftrightarrow>
     (\<forall>k v. pending s k = Some v \<longrightarrow> cache s k = Some v) \<and>
     (\<forall>k v. cache s k = Some v \<longrightarrow> pending s k = None \<longrightarrow> db s k = Some v) \<and>
     (\<forall>k. db s k \<noteq> Some [])"

text \<open>What a client of a storage relies on.\<close>

locale kv_store =
  fixes get :: "'s \<Rightarrow> 'k \<Rightarrow> bytes option \<times> 's"
    and put :: "'s \<Rightarrow> 'k \<Rightarrow> bytes \<Rightarrow> 's"
    and lookup :: "'s \<Rightarrow> 'k \<Rightarrow> bytes option"
    and invar :: "'s \<Rightarrow> bool"
  assumes get_value: "invar s \<Longrightarrow> fst (get s k) = lookup s k"
    and get_lookup: "invar s \<Longrightarrow> lookup (snd (get s k)) = lookup s"
    and get_invar: "invar s \<Longrightarrow> invar (snd (get s k))"
    and put_lookup: "invar s \<Longrightarrow>
      lookup (put s k v) = (lookup s)(k := if v = [] then None else Some v)"
    and put_invar: "invar s \<Longrightarrow> invar (put s k v)"
begin

lemma getE:
  assumes "invar s" "get s k = (r, s')"
  shows "r = lookup s k" "lookup s' = lookup s" "invar s'"
  using get_value [OF assms(1), of k] get_lookup [OF assms(1), of k] get_invar [OF assms(1), of k]
    assms(2) by simp_all

lemma get_put_same: "invar s \<Longrightarrow> v \<noteq> [] \<Longrightarrow> fst (get (put s k v) k) = Some v"
  by (simp add: get_value put_invar put_lookup)

lemma get_put_nil: "invar s \<Longrightarrow> fst (get (put s k []) k) = None"
  by (simp add: get_value put_invar put_lookup)

lemma get_put_other: "invar s \<Longrightarrow> k \<noteq> k' \<Longrightarrow> fst (get (put s k v) k') = fst (get s k')"
  by (simp add: get_value put_invar put_lookup)

end

interpretation wrapper: kv_store Get Put view coherent
proof (unfold_locales, goal_cases)
  case (1 s k)
  then show ?case
    by (cases "pending s k"; cases "cache s k"; cases "db s k")
      (simp_all add: Get_def view_def overlay_def coherent_def, fastforce+)
next
  case (2 s k)
  then show ?case
    by (auto simp: Get_def view_def split: option.splits)
next
  case (3 s k)
  then show ?case
    by (auto simp: Get_def coherent_def split: option.splits)
next
  case (4 s k v)
  show ?case by (auto simp: Put_def view_def overlay_def)
next
  case (5 s k v)
  then show ?case by (auto simp: Put_def coherent_def)
qed

lemma commit_view: "view (commit s) = view s"
  by (auto simp: commit_def ClearCache_def view_def overlay_def fun_eq_iff split: option.splits)

lemma commit_coherent: "coherent s \<Longrightarrow> coherent (commit s)"
  by (auto simp: commit_def ClearCache_def coherent_def overlay_def split: option.splits)

text \<open>
  Clearing the cache without the commit is not transparent: a write of the running block is
  then read back as the value it replaced.
\<close>

lemma ClearCache_stale_read:
  assumes "cache s = Map.empty" "v \<noteq> []" "db s k \<noteq> Some v"
  shows "fst (Get (ClearCache (Put s k v)) k) \<noteq> view (Put s k v) k"
  using assms by (auto simp: Get_def ClearCache_def Put_def view_def overlay_def split: option.splits)

end
