(* ===== verification/Iterable_Map.thy ===== *)
theory Iterable_Map
  imports Contract_Storage "HOL-Library.Multiset"
begin

text \<open>
  The iterable map of \<open>contracts/storage/iterable_map.go\<close>: a set of byte strings that can be
  enumerated, kept in the contract storage as an array of items (position 1 to count), a
  position per item, and a count. The theory models the code on the storage wrapper, and
  shows that it implements a duplicate-free list (\<open>create\<close> appends, \<open>remove\<close> moves the last
  item into the hole), for an injective hash function and items of a fixed length other than
  the 4 bytes of a position.

  \<open>Init\<close> computes the two key prefixes with \<open>append(prefix, ...)\<close> on the same slice. When that
  slice has spare capacity, the second \<open>append\<close> writes into the same backing array and turns
  the items prefix into the positions prefix. The flag \<open>spare\<close> of \<open>IterableMap_Init\<close> says
  whether this happens; all results hold for both values.
\<close>

section \<open>The abstract list operations\<close>

fun index_of :: "'a \<Rightarrow> 'a list \<Rightarrow> nat" where
  "index_of x [] = 0"
| "index_of x (y # ys) = (if x = y then 0 else Suc (index_of x ys))"

lemma index_of_less: "x \<in> set xs \<Longrightarrow> index_of x xs < length xs"
  by (induction xs) auto

lemma nth_index_of: "x \<in> set xs \<Longrightarrow> xs ! index_of x xs = x"
  by (induction xs) auto

lemma index_of_nth: "distinct xs \<Longrightarrow> i < length xs \<Longrightarrow> index_of (xs ! i) xs = i"
  by (metis index_of_less nth_index_of nth_eq_iff_index_eq nth_mem)

definition swap_del :: "nat \<Rightarrow> 'a list \<Rightarrow> 'a list" where
  "swap_del i xs = (if Suc i = length xs then butlast xs else (butlast xs)[i := last xs])"

definition remove_item :: "'a \<Rightarrow> 'a list \<Rightarrow> 'a list" where
  "remove_item x xs = swap_del (index_of x xs) xs"

definition slice :: "nat \<Rightarrow> nat \<Rightarrow> 'a list \<Rightarrow> 'a list" where
  "slice start n xs = take n (drop start xs)"

lemma length_swap_del [simp]: "length (swap_del i xs) = length xs - 1"
  by (simp add: swap_del_def)

lemma mset_swap_del:
  assumes "i < length xs"
  shows "mset xs = add_mset (xs ! i) (mset (swap_del i xs))"
proof -
  from assms have ne: "xs \<noteq> []" by auto
  show ?thesis
  proof (cases "Suc i = length xs")
    case True
    then have "xs ! i = last xs" using ne by (simp add: last_conv_nth flip: True)
    moreover have "mset xs = mset (butlast xs @ [last xs])" using ne by simp
    ultimately show ?thesis using True by (simp add: swap_del_def)
  next
    case False
    with assms have i: "i < length (butlast xs)" by simp
    then have nth: "butlast xs ! i = xs ! i" by (rule nth_butlast)
    have mem: "xs ! i \<in># mset (butlast xs)" using nth_mem [OF i] nth by simp
    have "mset xs = mset (butlast xs @ [last xs])" using ne by simp
    also have "\<dots> = add_mset (last xs) (mset (butlast xs))" by simp
    also have "\<dots> = add_mset (xs ! i) (mset ((butlast xs)[i := last xs]))"
      using mem by (simp add: mset_update [OF i] nth add_mset_commute [of "xs ! i"])
    finally show ?thesis using False by (simp add: swap_del_def)
  qed
qed

lemma mset_remove_item:
  "x \<in> set xs \<Longrightarrow> mset xs = add_mset x (mset (remove_item x xs))"
  unfolding remove_item_def using mset_swap_del [OF index_of_less] by (metis nth_index_of)

lemma distinct_remove_item: "distinct xs \<Longrightarrow> x \<in> set xs \<Longrightarrow> distinct (remove_item x xs)"
  by (metis mset_remove_item distinct_count_atmost_1 mset_eq_imp_distinct_iff distinct.simps(2) mset.simps(2))

lemma set_remove_item: "distinct xs \<Longrightarrow> x \<in> set xs \<Longrightarrow> set (remove_item x xs) = set xs - {x}"
proof -
  assume d: "distinct xs" and x: "x \<in> set xs"
  have "mset xs = mset (x # remove_item x xs)" using mset_remove_item [OF x] by simp
  then have "distinct (x # remove_item x xs)" "set xs = set (x # remove_item x xs)"
    using d by (metis mset_eq_imp_distinct_iff, metis mset_eq_setD)
  then show ?thesis by auto
qed

lemma length_remove_item [simp]: "length (remove_item x xs) = length xs - 1"
  by (simp add: remove_item_def)

section \<open>The code\<close>

definition field_items :: bytes where "field_items = [0]"
definition field_items_count :: bytes where "field_items_count = [1]"
definition field_items_pos :: bytes where "field_items_pos = [2]"

record IterableMap =
  keccak :: "bytes \<Rightarrow> hash"
  items_storage_prefix :: bytes
  items_count_storage_key :: hash
  items_pos_storage_prefix :: bytes

definition IterableMap_Init :: "(bytes \<Rightarrow> hash) \<Rightarrow> bool \<Rightarrow> bytes \<Rightarrow> IterableMap" where
  "IterableMap_Init h spare prefix =
     \<lparr>keccak = h,
      items_storage_prefix = prefix @ (if spare then field_items_pos else field_items),
      items_count_storage_key = Stor_k_1 h [prefix, field_items_count],
      items_pos_storage_prefix = prefix @ field_items_pos\<rparr>"

definition item_key :: "IterableMap \<Rightarrow> u32 \<Rightarrow> hash" where
  "item_key m idx = Stor_k_1 (keccak m) [items_storage_prefix m, uint32ToBytes idx]"

definition pos_key :: "IterableMap \<Rightarrow> bytes \<Rightarrow> hash" where
  "pos_key m item = Stor_k_1 (keccak m) [items_pos_storage_prefix m, item]"

definition GetCount :: "IterableMap \<Rightarrow> storage_wrapper \<Rightarrow> (u32 \<times> storage_wrapper) option" where
  "GetCount m s =
     (case Get s (items_count_storage_key m) of
        (None, s) \<Rightarrow> Some (0, s)
      | (Some bs, s) \<Rightarrow> do { c \<leftarrow> bytesToUint32 bs; Some (c, s) })"

definition itemExists ::
    "IterableMap \<Rightarrow> storage_wrapper \<Rightarrow> bytes \<Rightarrow> ((bool \<times> u32) \<times> storage_wrapper) option" where
  "itemExists m s item =
     (case Get s (pos_key m item) of
        (None, s) \<Rightarrow> Some ((False, 0), s)
      | (Some bs, s) \<Rightarrow> do { p \<leftarrow> bytesToUint32 bs; Some ((p \<noteq> 0, p), s) })"

definition ItemExists ::
    "IterableMap \<Rightarrow> storage_wrapper \<Rightarrow> bytes \<Rightarrow> (bool \<times> storage_wrapper) option" where
  "ItemExists m s item = do { ((e, _), s) \<leftarrow> itemExists m s item; Some (e, s) }"

text \<open>
  The loop of \<open>GetItems\<close>, from \<open>idx\<close> while \<open>idx <= end_idx && idx <= items_count\<close>: it stores
  \<open>result[idx - start_idx - 1]\<close> and panics on a missing item or an index out of range. The fuel
  is the number of iterations left, at most the length of the result.
\<close>

fun GetItems_loop ::
    "nat \<Rightarrow> IterableMap \<Rightarrow> u32 \<Rightarrow> u32 \<Rightarrow> u32 \<Rightarrow> u32 \<Rightarrow> bytes list \<Rightarrow> storage_wrapper
      \<Rightarrow> (bytes list \<times> storage_wrapper) option" where
  "GetItems_loop fuel m start_idx end_idx items_count idx result s =
     (if idx \<le> end_idx \<and> idx \<le> items_count then
        (case fuel of
           0 \<Rightarrow> None
         | Suc fuel' \<Rightarrow>
             (case Get s (item_key m idx) of
                (None, s) \<Rightarrow> None
              | (Some item, s) \<Rightarrow>
                  if length item = 0 \<or> length result \<le> unat (idx - start_idx - 1) then None
                  else GetItems_loop fuel' m start_idx end_idx items_count (idx + 1)
                         (result[unat (idx - start_idx - 1) := item]) s))
      else Some (result, s))"

declare GetItems_loop.simps [simp del]

definition GetItems ::
    "IterableMap \<Rightarrow> storage_wrapper \<Rightarrow> u32 \<Rightarrow> u32 \<Rightarrow> ((bytes list \<times> bool) \<times> storage_wrapper) option" where
  "GetItems m s start_idx cnt = do {
     (items_count, s) \<leftarrow> GetCount m s;
     if items_count = 0 then Some (([], True), s)
     else
       let end_idx = start_idx + cnt in
       if start_idx \<ge> items_count then Some (([], True), s)
       else
         let (n, end) = (if items_count \<le> end_idx then (items_count - start_idx, True) else (cnt, False))
         in do {
           (result, s) \<leftarrow> GetItems_loop (unat n) m start_idx end_idx items_count (start_idx + 1)
                            (replicate (unat n) []) s;
           Some ((result, end), s)
         }
   }"

definition CreateItem :: "IterableMap \<Rightarrow> storage_wrapper \<Rightarrow> bytes \<Rightarrow> (u32 \<times> storage_wrapper) option" where
  "CreateItem m s item = do {
     ((item_exists, _), s) \<leftarrow> itemExists m s item;
     assertm (\<not> item_exists);
     (items_count, s) \<leftarrow> GetCount m s;
     let new_item_pos = items_count + 1;
     let s = Put s (item_key m new_item_pos) item;
     let s = Put s (pos_key m item) (uint32ToBytes new_item_pos);
     let s = Put s (items_count_storage_key m) (uint32ToBytes new_item_pos);
     Some (new_item_pos, s)
   }"

definition RemoveItem :: "IterableMap \<Rightarrow> storage_wrapper \<Rightarrow> bytes \<Rightarrow> (u32 \<times> storage_wrapper) option" where
  "RemoveItem m s item = do {
     (items_count, s) \<leftarrow> GetCount m s;
     assertm (items_count \<noteq> 0);
     ((item_exists, delete_item_pos), s) \<leftarrow> itemExists m s item;
     assertm item_exists;
     if delete_item_pos = items_count then
       let s = Put s (item_key m delete_item_pos) [];
           s = Put s (pos_key m item) [];
           s = Put s (items_count_storage_key m) (uint32ToBytes (items_count - 1))
       in Some (items_count - 1, s)
     else
       (case Get s (item_key m items_count) of
          (None, s) \<Rightarrow> None
        | (Some last_item, s) \<Rightarrow>
            if length last_item = 0 then None
            else
              let s = Put s (pos_key m last_item) (uint32ToBytes delete_item_pos);
                  s = Put s (item_key m delete_item_pos) last_item;
                  s = Put s (pos_key m item) [];
                  s = Put s (item_key m items_count) [];
                  s = Put s (items_count_storage_key m) (uint32ToBytes (items_count - 1))
              in Some (items_count - 1, s))
   }"

section \<open>Representation of a list\<close>

text \<open>The keys of a map are apart, for items of length \<open>k\<close>.\<close>

definition keys_apart :: "nat \<Rightarrow> IterableMap \<Rightarrow> bool" where
  "keys_apart k m \<longleftrightarrow>
     inj (item_key m) \<and> inj (pos_key m) \<and>
     (\<forall>i x. length x = k \<longrightarrow> item_key m i \<noteq> pos_key m x) \<and>
     (\<forall>i. items_count_storage_key m \<noteq> item_key m i) \<and>
     (\<forall>x. items_count_storage_key m \<noteq> pos_key m x)"

lemma keys_apart_Init:
  assumes "inj h" "k \<noteq> 4"
  shows "keys_apart k (IterableMap_Init h spare prefix)"
proof -
  have h: "h x = h y \<longleftrightarrow> x = y" for x y using assms(1) by (auto dest: injD)
  have "length x = k \<Longrightarrow> uint32ToBytes i \<noteq> x" for i x using assms(2) by auto
  then show ?thesis
    by (auto simp: keys_apart_def item_key_def pos_key_def IterableMap_Init_def Stor_k_1_def
        field_items_def field_items_pos_def field_items_count_def h inj_def u32_le.enc_inj)
qed

definition im_rep :: "nat \<Rightarrow> IterableMap \<Rightarrow> (hash \<Rightarrow> bytes option) \<Rightarrow> bytes list \<Rightarrow> bool" where
  "im_rep k m V xs \<longleftrightarrow>
     distinct xs \<and> length xs < 2 ^ 32 \<and> (\<forall>x\<in>set xs. length x = k) \<and>
     (V (items_count_storage_key m) = Some (uint32ToBytes (word_of_nat (length xs))) \<or>
       xs = [] \<and> V (items_count_storage_key m) = None) \<and>
     (\<forall>i<length xs. V (item_key m (word_of_nat (Suc i))) = Some (xs ! i)) \<and>
     (\<forall>i<length xs. V (pos_key m (xs ! i)) = Some (uint32ToBytes (word_of_nat (Suc i)))) \<and>
     (\<forall>x. length x = k \<longrightarrow> x \<notin> set xs \<longrightarrow> V (pos_key m x) = None)"

lemma unat_Suc_u32: "Suc i < 2 ^ 32 \<Longrightarrow> unat (word_of_nat (Suc i) :: u32) = Suc i"
  by (simp only: unat_of_nat) simp

lemma u32_eq_iff: "i < 2 ^ 32 \<Longrightarrow> j < 2 ^ 32 \<Longrightarrow> (word_of_nat i :: u32) = word_of_nat j \<longleftrightarrow> i = j"
  by (simp add: word_unat_eq_iff unat_of_nat)

lemma u32_Suc: "(word_of_nat (Suc n) :: u32) = word_of_nat n + 1"
  by simp

lemma im_rep_count:
  assumes "im_rep k m (view s) xs" "coherent s"
  obtains s' where "GetCount m s = Some (word_of_nat (length xs), s')" "view s' = view s" "coherent s'"
proof -
  obtain r s' where g: "Get s (items_count_storage_key m) = (r, s')" by fastforce
  note e = wrapper.getE [OF assms(2) g]
  from assms(1) e(1) have "GetCount m s = Some (word_of_nat (length xs), s')"
    by (auto simp: GetCount_def g im_rep_def)
  from this e(2,3) show thesis by (rule that)
qed

lemma im_rep_exists:
  assumes "im_rep k m (view s) xs" "coherent s" "length x = k"
  obtains s' where "itemExists m s x = Some ((x \<in> set xs, if x \<in> set xs then word_of_nat (Suc (index_of x xs)) else 0), s')"
    "view s' = view s" "coherent s'"
proof -
  obtain r s' where g: "Get s (pos_key m x) = (r, s')" by fastforce
  note e = wrapper.getE [OF assms(2) g]
  have len: "length xs < 2 ^ 32" using assms(1) by (simp add: im_rep_def)
  have "itemExists m s x = Some ((x \<in> set xs, if x \<in> set xs then word_of_nat (Suc (index_of x xs)) else 0), s')"
  proof (cases "x \<in> set xs")
    case True
    then have i: "index_of x xs < length xs" by (rule index_of_less)
    with assms(1) e(1) nth_index_of [OF True]
    have r: "r = Some (uint32ToBytes (word_of_nat (Suc (index_of x xs))))"
      unfolding im_rep_def by metis
    have "unat (word_of_nat (Suc (index_of x xs)) :: u32) \<noteq> 0"
      using i len by (subst unat_Suc_u32) auto
    then have "(word_of_nat (Suc (index_of x xs)) :: u32) \<noteq> 0" by auto
    with True r show ?thesis by (simp add: itemExists_def g)
  next
    case False
    with assms(1,3) e(1) have "r = None" by (simp add: im_rep_def)
    with False show ?thesis by (simp add: itemExists_def g)
  qed
  from this e(2,3) show thesis by (rule that)
qed

lemma keys_apartD:
  assumes "keys_apart k m"
  shows "item_key m a = item_key m b \<longleftrightarrow> a = b"
    and "pos_key m x = pos_key m y \<longleftrightarrow> x = y"
    and "length x = k \<Longrightarrow> item_key m a \<noteq> pos_key m x"
    and "length x = k \<Longrightarrow> pos_key m x \<noteq> item_key m a"
    and "item_key m a \<noteq> items_count_storage_key m" "items_count_storage_key m \<noteq> item_key m a"
    and "pos_key m x \<noteq> items_count_storage_key m" "items_count_storage_key m \<noteq> pos_key m x"
  using assms unfolding keys_apart_def by (auto dest: injD) metis+

lemma uint32ToBytes_nonempty [simp]: "uint32ToBytes v \<noteq> []"
  by (metis length_uint32ToBytes list.size(3) zero_neq_numeral)

text \<open>The key set of a map, for stating that an operation leaves other slots alone.\<close>

definition im_keys :: "nat \<Rightarrow> IterableMap \<Rightarrow> hash set" where
  "im_keys k m = insert (items_count_storage_key m) (range (item_key m) \<union> pos_key m ` {x. length x = k})"

lemma im_rep_append:
  assumes rep: "im_rep k m V xs" and ka: "keys_apart k m" and x: "length x = k" "x \<notin> set xs"
    and len: "Suc (length xs) < 2 ^ 32"
  shows "im_rep k m
    (V(item_key m (word_of_nat (Suc (length xs))) := Some x,
       pos_key m x := Some (uint32ToBytes (word_of_nat (Suc (length xs)))),
       items_count_storage_key m := Some (uint32ToBytes (word_of_nat (Suc (length xs))))))
    (xs @ [x])"
proof -
  note ks = keys_apartD [OF ka]
  have idx: "(word_of_nat (Suc i) :: u32) = word_of_nat (Suc (length xs)) \<longleftrightarrow> i = length xs"
    if "i \<le> length xs" for i
    using that len by (subst u32_eq_iff) auto
  have el: "length (xs ! i) = k \<and> xs ! i \<noteq> x" if "i < length xs" for i
    using that rep x(2) nth_mem [OF that] by (auto simp: im_rep_def)
  have lt: "i < length (xs @ [x]) \<Longrightarrow> i < length xs \<or> i = length xs" for i by auto
  show ?thesis
    unfolding im_rep_def
  proof (intro conjI allI impI)
    show "distinct (xs @ [x])" "length (xs @ [x]) < 2 ^ 32" "\<forall>y\<in>set (xs @ [x]). length y = k"
      using rep x len by (auto simp: im_rep_def)
  next
    fix i assume "i < length (xs @ [x])"
    from lt [OF this] show "(V(item_key m (word_of_nat (Suc (length xs))) := Some x,
       pos_key m x := Some (uint32ToBytes (word_of_nat (Suc (length xs)))),
       items_count_storage_key m := Some (uint32ToBytes (word_of_nat (Suc (length xs))))))
       (item_key m (word_of_nat (Suc i))) = Some ((xs @ [x]) ! i)"
      using rep x(1) idx [of i] by (auto simp: ks im_rep_def nth_append simp del: of_nat_Suc)
  next
    fix i assume "i < length (xs @ [x])"
    from lt [OF this] show "(V(item_key m (word_of_nat (Suc (length xs))) := Some x,
       pos_key m x := Some (uint32ToBytes (word_of_nat (Suc (length xs)))),
       items_count_storage_key m := Some (uint32ToBytes (word_of_nat (Suc (length xs))))))
       (pos_key m ((xs @ [x]) ! i)) = Some (uint32ToBytes (word_of_nat (Suc i)))"
      using rep x(1) el [of i] by (auto simp: ks im_rep_def nth_append simp del: of_nat_Suc)
  qed (use rep x in \<open>auto simp: ks im_rep_def simp del: of_nat_Suc\<close>)
qed

lemma CreateItem_refines:
  assumes rep: "im_rep k m (view s) xs" and co: "coherent s" and ka: "keys_apart k m"
    and x: "length x = k" "0 < k" and len: "Suc (length xs) < 2 ^ 32"
  shows "x \<in> set xs \<Longrightarrow> CreateItem m s x = None"
    and "x \<notin> set xs \<Longrightarrow> \<exists>s'. CreateItem m s x = Some (word_of_nat (Suc (length xs)), s') \<and>
      im_rep k m (view s') (xs @ [x]) \<and> coherent s' \<and> (\<forall>h. h \<notin> im_keys k m \<longrightarrow> view s' h = view s h)"
proof -
  obtain s1 where ex: "itemExists m s x = Some ((x \<in> set xs, if x \<in> set xs then word_of_nat (Suc (index_of x xs)) else 0), s1)"
    and s1: "view s1 = view s" "coherent s1"
    using im_rep_exists [OF rep co x(1)] .
  show "x \<in> set xs \<Longrightarrow> CreateItem m s x = None" by (simp add: CreateItem_def ex)
  assume new: "x \<notin> set xs"
  obtain s2 where cnt: "GetCount m s1 = Some (word_of_nat (length xs), s2)"
    and s2: "view s2 = view s1" "coherent s2"
    using im_rep_count [of k m s1 xs] rep s1 by metis
  let ?n = "word_of_nat (Suc (length xs)) :: u32"
  define s3 where "s3 = Put (Put (Put s2 (item_key m ?n) x) (pos_key m x) (uint32ToBytes ?n))
    (items_count_storage_key m) (uint32ToBytes ?n)"
  have xne: "x \<noteq> []" using x by auto
  have v: "view s3 = (view s)(item_key m ?n := Some x, pos_key m x := Some (uint32ToBytes ?n),
      items_count_storage_key m := Some (uint32ToBytes ?n))"
    and co3: "coherent s3"
    using s1 s2 xne unfolding s3_def
    by (simp_all add: wrapper.put_lookup wrapper.put_invar del: of_nat_Suc)
  have "CreateItem m s x = Some (?n, s3)"
    using new by (simp add: CreateItem_def ex cnt s3_def Let_def add.commute)
  moreover have "im_rep k m (view s3) (xs @ [x])"
    unfolding v using im_rep_append [OF rep ka x(1) new len] .
  moreover have "h \<notin> im_keys k m \<Longrightarrow> view s3 h = view s h" for h
    using x(1) unfolding v by (auto simp: im_keys_def)
  ultimately show "\<exists>s'. CreateItem m s x = Some (?n, s') \<and>
      im_rep k m (view s') (xs @ [x]) \<and> coherent s' \<and> (\<forall>h. h \<notin> im_keys k m \<longrightarrow> view s' h = view s h)"
    using co3 by blast
qed

lemma im_rep_remove_last:
  assumes rep: "im_rep k m V xs" and ka: "keys_apart k m" and ne: "xs \<noteq> []"
  shows "im_rep k m
    (V(item_key m (word_of_nat (length xs)) := None, pos_key m (last xs) := None,
       items_count_storage_key m := Some (uint32ToBytes (word_of_nat (length xs - 1)))))
    (butlast xs)"
proof -
  note ks = keys_apartD [OF ka]
  let ?n = "length xs - 1"
  have n: "length xs = Suc ?n" using ne by simp
  have last: "last xs = xs ! ?n" using ne by (rule last_conv_nth)
  have len: "length xs < 2 ^ 32" and dist: "distinct xs" using rep by (simp_all add: im_rep_def)
  have lk: "length (last xs) = k" using rep ne by (simp add: im_rep_def)
  have idx: "(word_of_nat (Suc i) :: u32) \<noteq> word_of_nat (length xs)" if "i < ?n" for i
    using that len by (subst u32_eq_iff) auto
  have el: "butlast xs ! i = xs ! i \<and> xs ! i \<noteq> last xs \<and> length (xs ! i) = k" if "i < ?n" for i
  proof -
    have "xs ! i \<in> set xs" using that by simp
    then have "length (xs ! i) = k" using rep by (auto simp: im_rep_def)
    moreover have "xs ! i \<noteq> xs ! ?n" using that dist n by (metis nth_eq_iff_index_eq lessI less_SucI less_irrefl)
    ultimately show ?thesis using that by (simp add: nth_butlast last)
  qed
  have out: "x \<notin> set (butlast xs) \<Longrightarrow> x \<noteq> last xs \<Longrightarrow> x \<notin> set xs" for x
    using ne by (metis append_butlast_last_id rotate1.simps(2) set_ConsD set_rotate1)
  show ?thesis
    unfolding im_rep_def
  proof (intro conjI allI impI)
    show "distinct (butlast xs)" "length (butlast xs) < 2 ^ 32" "\<forall>x\<in>set (butlast xs). length x = k"
      using rep by (auto simp: im_rep_def distinct_butlast dest: in_set_butlastD)
  next
    fix i assume "i < length (butlast xs)"
    then show "(V(item_key m (word_of_nat (length xs)) := None, pos_key m (last xs) := None,
       items_count_storage_key m := Some (uint32ToBytes (word_of_nat (length xs - 1)))))
       (item_key m (word_of_nat (Suc i))) = Some (butlast xs ! i)"
      using rep el [of i] idx [of i] by (simp add: ks lk im_rep_def del: of_nat_Suc)
  next
    fix i assume "i < length (butlast xs)"
    then show "(V(item_key m (word_of_nat (length xs)) := None, pos_key m (last xs) := None,
       items_count_storage_key m := Some (uint32ToBytes (word_of_nat (length xs - 1)))))
       (pos_key m (butlast xs ! i)) = Some (uint32ToBytes (word_of_nat (Suc i)))"
      using rep el [of i] by (simp add: ks im_rep_def del: of_nat_Suc)
  qed (use rep out in \<open>auto simp: ks im_rep_def\<close>)
qed

lemma im_rep_remove_inner:
  assumes rep: "im_rep k m V xs" and ka: "keys_apart k m" and i: "Suc i < length xs"
  shows "im_rep k m
    (V(pos_key m (last xs) := Some (uint32ToBytes (word_of_nat (Suc i))),
       item_key m (word_of_nat (Suc i)) := Some (last xs),
       pos_key m (xs ! i) := None, item_key m (word_of_nat (length xs)) := None,
       items_count_storage_key m := Some (uint32ToBytes (word_of_nat (length xs - 1)))))
    ((butlast xs)[i := last xs])"
proof -
  note ks = keys_apartD [OF ka]
  let ?n = "length xs - 1"
  let ?ys = "(butlast xs)[i := last xs]"
  have n: "length xs = Suc ?n" "i < ?n" using i by simp_all
  have ne: "xs \<noteq> []" using i by auto
  have last: "last xs = xs ! ?n" using ne by (rule last_conv_nth)
  have len: "length xs < 2 ^ 32" and dist: "distinct xs" using rep by (simp_all add: im_rep_def)
  have nk: "length (xs ! j) = k" if "j < length xs" for j
    using that rep nth_mem [OF that] by (auto simp: im_rep_def)
  have neq: "xs ! j = xs ! j' \<longleftrightarrow> j = j'" if "j < length xs" "j' < length xs" for j j'
    using that dist by (simp add: nth_eq_iff_index_eq)
  have idx: "(word_of_nat (Suc j) :: u32) = word_of_nat (Suc j') \<longleftrightarrow> j = j'"
    if "j < length xs" "j' < length xs" for j j'
    using that len by (subst u32_eq_iff) auto
  have idxn: "(word_of_nat (Suc j) :: u32) \<noteq> word_of_nat (length xs)" if "j < ?n" for j
    using that len by (subst u32_eq_iff) auto
  have lk: "length (last xs) = k" unfolding last using n by (intro nk) simp
  have neql: "xs ! j \<noteq> last xs" if "j < ?n" for j
    unfolding last using that n by (subst neq) auto
  have nth: "?ys ! j = (if j = i then last xs else xs ! j)" if "j < ?n" for j
    using that by (simp add: nth_list_update nth_butlast)
  have ys: "?ys = remove_item (xs ! i) xs"
    using i dist by (simp add: remove_item_def swap_del_def index_of_nth)
  have mem: "xs ! i \<in> set xs" using n by simp
  have set: "set ?ys = set xs - {xs ! i}" and d: "distinct ?ys"
    unfolding ys using set_remove_item [OF dist mem] distinct_remove_item [OF dist mem] .
  show ?thesis
    unfolding im_rep_def
  proof (intro conjI allI impI)
    show "distinct ?ys" "length ?ys < 2 ^ 32" "\<forall>x\<in>set ?ys. length x = k"
      using rep d set by (auto simp: im_rep_def)
  next
    fix j assume "j < length ?ys"
    then have j: "j < ?n" "j < length xs" by auto
    then show "(V(pos_key m (last xs) := Some (uint32ToBytes (word_of_nat (Suc i))),
       item_key m (word_of_nat (Suc i)) := Some (last xs),
       pos_key m (xs ! i) := None, item_key m (word_of_nat (length xs)) := None,
       items_count_storage_key m := Some (uint32ToBytes (word_of_nat (length xs - 1)))))
       (item_key m (word_of_nat (Suc j))) = Some (?ys ! j)"
      using rep i nth [of j] idxn [of j] idx [of j i] nk [of i] lk
      by (simp add: ks im_rep_def del: of_nat_Suc)
  next
    fix j assume "j < length ?ys"
    then have j: "j < ?n" "j < length xs" by auto
    then show "(V(pos_key m (last xs) := Some (uint32ToBytes (word_of_nat (Suc i))),
       item_key m (word_of_nat (Suc i)) := Some (last xs),
       pos_key m (xs ! i) := None, item_key m (word_of_nat (length xs)) := None,
       items_count_storage_key m := Some (uint32ToBytes (word_of_nat (length xs - 1)))))
       (pos_key m (?ys ! j)) = Some (uint32ToBytes (word_of_nat (Suc j)))"
      using rep i nth [of j] neql [of j] neq [of j i] neql [OF n(2), symmetric] nk [of i] lk nk [of j]
      by (simp add: ks im_rep_def del: of_nat_Suc)
  next
    fix x assume "length x = k" "x \<notin> set ?ys"
    then show "(V(pos_key m (last xs) := Some (uint32ToBytes (word_of_nat (Suc i))),
       item_key m (word_of_nat (Suc i)) := Some (last xs),
       pos_key m (xs ! i) := None, item_key m (word_of_nat (length xs)) := None,
       items_count_storage_key m := Some (uint32ToBytes (word_of_nat (length xs - 1)))))
       (pos_key m x) = None"
      using rep set last_in_set [OF ne] neql [OF n(2)] by (auto simp: ks im_rep_def)
  qed (simp add: ks)
qed

lemma RemoveItem_refines:
  assumes rep: "im_rep k m (view s) xs" and co: "coherent s" and ka: "keys_apart k m"
    and x: "length x = k" "0 < k"
  shows "x \<notin> set xs \<Longrightarrow> RemoveItem m s x = None"
    and "x \<in> set xs \<Longrightarrow> \<exists>s'. RemoveItem m s x = Some (word_of_nat (length xs - 1), s') \<and>
      im_rep k m (view s') (remove_item x xs) \<and> coherent s' \<and>
      (\<forall>h. h \<notin> im_keys k m \<longrightarrow> view s' h = view s h)"
proof -
  have len: "length xs < 2 ^ 32" and dist: "distinct xs" using rep by (simp_all add: im_rep_def)
  obtain s1 where cnt: "GetCount m s = Some (word_of_nat (length xs), s1)"
    and s1: "view s1 = view s" "coherent s1"
    using im_rep_count [OF rep co] .
  obtain s2 where ex: "itemExists m s1 x = Some ((x \<in> set xs, if x \<in> set xs then word_of_nat (Suc (index_of x xs)) else 0), s2)"
    and s2: "view s2 = view s1" "coherent s2"
    using im_rep_exists [of k m s1 xs x] rep s1 x(1) by metis
  have v2: "view s2 = view s" using s1 s2 by simp
  show "x \<notin> set xs \<Longrightarrow> RemoveItem m s x = None"
    by (simp add: RemoveItem_def cnt ex bind_eq_None_conv assertm_def)
  assume mem: "x \<in> set xs"
  let ?i = "index_of x xs" and ?n = "word_of_nat (length xs) :: u32"
  have i: "?i < length xs" "xs ! ?i = x" using mem by (simp_all add: index_of_less nth_index_of)
  have ne: "xs \<noteq> []" using mem by auto
  then have n0: "?n \<noteq> 0" using len u32_eq_iff [of "length xs" 0] by simp
  have n1: "?n - 1 = word_of_nat (length xs - 1)" using ne by (simp add: of_nat_diff Suc_leI)
  have eqn: "(word_of_nat (Suc ?i) :: u32) = ?n \<longleftrightarrow> Suc ?i = length xs"
    using i(1) len by (subst u32_eq_iff) auto
  show "\<exists>s'. RemoveItem m s x = Some (word_of_nat (length xs - 1), s') \<and>
      im_rep k m (view s') (remove_item x xs) \<and> coherent s' \<and>
      (\<forall>h. h \<notin> im_keys k m \<longrightarrow> view s' h = view s h)"
  proof (cases "Suc ?i = length xs")
    case True
    have lastx: "last xs = x" using True i(2) ne by (simp add: last_conv_nth flip: True)
    define s3 where "s3 = Put (Put (Put s2 (item_key m ?n) []) (pos_key m x) [])
      (items_count_storage_key m) (uint32ToBytes (word_of_nat (length xs - 1)))"
    have v: "view s3 = (view s)(item_key m ?n := None, pos_key m (last xs) := None,
        items_count_storage_key m := Some (uint32ToBytes (word_of_nat (length xs - 1))))"
      and co3: "coherent s3"
      using s2 v2 unfolding s3_def lastx
      by (simp_all add: wrapper.put_lookup wrapper.put_invar)
    have "RemoveItem m s x = Some (word_of_nat (length xs - 1), s3)"
      using mem n0 True eqn by (simp add: RemoveItem_def cnt ex s3_def n1 Let_def del: of_nat_Suc)
    moreover have "im_rep k m (view s3) (remove_item x xs)"
      unfolding v using im_rep_remove_last [OF rep ka ne] True by (simp add: remove_item_def swap_del_def)
    moreover have "h \<notin> im_keys k m \<Longrightarrow> view s3 h = view s h" for h
      using x(1) unfolding v lastx by (auto simp: im_keys_def)
    ultimately show ?thesis using co3 by blast
  next
    case False
    with i(1) have i': "Suc ?i < length xs" by simp
    have lst: "view s (item_key m ?n) = Some (last xs)" and lk: "length (last xs) = k"
      using rep ne last_conv_nth [OF ne] unfolding im_rep_def
      by (metis Suc_diff_1 diff_less length_greater_0_conv less_numeral_extra(1), simp)
    obtain r s3 where g: "Get s2 (item_key m ?n) = (r, s3)" by fastforce
    note e = wrapper.getE [OF s2(2) g]
    have r: "r = Some (last xs)" using e(1) v2 lst by simp
    have lne: "last xs \<noteq> []" using lk x(2) by auto
    define s4 where "s4 = Put (Put (Put (Put (Put s3
      (pos_key m (last xs)) (uint32ToBytes (word_of_nat (Suc ?i))))
      (item_key m (word_of_nat (Suc ?i))) (last xs)) (pos_key m x) []) (item_key m ?n) [])
      (items_count_storage_key m) (uint32ToBytes (word_of_nat (length xs - 1)))"
    have v: "view s4 = (view s)(pos_key m (last xs) := Some (uint32ToBytes (word_of_nat (Suc ?i))),
       item_key m (word_of_nat (Suc ?i)) := Some (last xs),
       pos_key m (xs ! ?i) := None, item_key m ?n := None,
       items_count_storage_key m := Some (uint32ToBytes (word_of_nat (length xs - 1))))"
      and co4: "coherent s4"
      using e v2 lne unfolding s4_def i(2)
      by (simp_all add: wrapper.put_lookup wrapper.put_invar del: of_nat_Suc)
    have "RemoveItem m s x = Some (word_of_nat (length xs - 1), s4)"
      using mem n0 False eqn lne
      by (simp add: RemoveItem_def cnt ex g r s4_def n1 Let_def del: of_nat_Suc)
    moreover have "im_rep k m (view s4) (remove_item x xs)"
      unfolding v using im_rep_remove_inner [OF rep ka i'] False
      by (simp add: remove_item_def swap_del_def del: of_nat_Suc)
    moreover have "h \<notin> im_keys k m \<Longrightarrow> view s4 h = view s h" for h
      using x(1) lk unfolding v i(2) by (auto simp: im_keys_def)
    ultimately show ?thesis using co4 by blast
  qed
qed

lemma u32_le_iff: "i < 2 ^ 32 \<Longrightarrow> j < 2 ^ 32 \<Longrightarrow> (word_of_nat i :: u32) \<le> word_of_nat j \<longleftrightarrow> i \<le> j"
  by (simp add: word_le_nat_alt unat_of_nat)

lemma take_Suc_drop_update:
  assumes "a + j < length xs" "Suc j \<le> L"
  shows "(take j (drop a xs) @ replicate (L - j) e)[j := xs ! (a + j)] =
    take (Suc j) (drop a xs) @ replicate (L - Suc j) e"
proof -
  have l: "length (take j (drop a xs)) = j" using assms by simp
  have r: "replicate (L - j) e = e # replicate (L - Suc j) e"
    using assms(2) by (metis Suc_diff_Suc Suc_le_lessD replicate_Suc)
  have "take (Suc j) (drop a xs) = take j (drop a xs) @ [xs ! (a + j)]"
    using assms(1) by (simp add: take_Suc_conv_app_nth)
  with r show ?thesis using l by (simp add: list_update_append)
qed

lemma GetItems_loop_refines:
  assumes k: "0 < k" and c: "Suc (a + c) < 2 ^ 32" and L: "L = min (length xs) (a + c) - a"
    and a: "a < length xs"
  shows "j \<le> L \<Longrightarrow> fuel = L - j \<Longrightarrow> im_rep k m (view s) xs \<Longrightarrow> coherent s \<Longrightarrow>
    \<exists>s'. GetItems_loop fuel m (word_of_nat a) (word_of_nat (a + c)) (word_of_nat (length xs))
        (word_of_nat (Suc (a + j))) (take j (drop a xs) @ replicate (L - j) []) s =
      Some (slice a L xs, s') \<and> view s' = view s \<and> coherent s'"
proof (induction fuel arbitrary: j s)
  case (0 j s)
  then have len: "length xs < 2 ^ 32" by (simp add: im_rep_def)
  from 0 have j: "j = L" by simp
  have "\<not> (Suc (a + j) \<le> a + c \<and> Suc (a + j) \<le> length xs)" using L j a by auto
  then have "\<not> ((word_of_nat (Suc (a + j)) :: u32) \<le> word_of_nat (a + c) \<and>
      (word_of_nat (Suc (a + j)) :: u32) \<le> word_of_nat (length xs))"
    using c len L j a u32_le_iff [of "Suc (a + j)" "a + c"] u32_le_iff [of "Suc (a + j)" "length xs"]
    by auto
  then show ?case using j 0(4)
    by (subst GetItems_loop.simps) (simp add: slice_def del: of_nat_Suc of_nat_add)
next
  case (Suc fuel j s)
  then have len: "length xs < 2 ^ 32" by (simp add: im_rep_def)
  from Suc.prems(2) have j: "j < L" by simp
  then have b: "Suc (a + j) \<le> a + c" "Suc (a + j) \<le> length xs" using L by auto
  have guard: "(word_of_nat (Suc (a + j)) :: u32) \<le> word_of_nat (a + c)"
      "(word_of_nat (Suc (a + j)) :: u32) \<le> word_of_nat (length xs)"
    using b c len by (simp_all add: u32_le_iff del: of_nat_Suc of_nat_add)
  have off: "word_of_nat (Suc (a + j)) - word_of_nat a - 1 = (word_of_nat j :: u32)" by simp
  have uj: "unat (word_of_nat j :: u32) = j" using b len by (simp add: unat_of_nat)
  obtain r s1 where g: "Get s (item_key m (word_of_nat (Suc (a + j)))) = (r, s1)" by fastforce
  note e = wrapper.getE [OF Suc.prems(4) g]
  have r: "r = Some (xs ! (a + j))" and lk: "length (xs ! (a + j)) = k"
    using Suc.prems(3) b(2) e(1) nth_mem [of "a + j" xs] by (auto simp: im_rep_def Suc_le_eq simp del: of_nat_Suc)
  let ?res = "take j (drop a xs) @ replicate (L - j) ([] :: bytes)"
  have lres: "length ?res = L" using j L a by auto
  have upd: "?res[j := xs ! (a + j)] = take (Suc j) (drop a xs) @ replicate (L - Suc j) []"
    using take_Suc_drop_update [of a j xs L] b j by simp
  have nxt: "(word_of_nat (Suc (a + j)) :: u32) + 1 = word_of_nat (Suc (a + Suc j))" by simp
  have "\<exists>s'. GetItems_loop fuel m (word_of_nat a) (word_of_nat (a + c)) (word_of_nat (length xs))
        (word_of_nat (Suc (a + Suc j))) (take (Suc j) (drop a xs) @ replicate (L - Suc j) []) s1 =
      Some (slice a L xs, s') \<and> view s' = view s1 \<and> coherent s'"
    using Suc.prems j e by (intro Suc.IH) auto
  moreover have "GetItems_loop (Suc fuel) m (word_of_nat a) (word_of_nat (a + c)) (word_of_nat (length xs))
        (word_of_nat (Suc (a + j))) ?res s =
      GetItems_loop fuel m (word_of_nat a) (word_of_nat (a + c)) (word_of_nat (length xs))
        (word_of_nat (Suc (a + Suc j))) (take (Suc j) (drop a xs) @ replicate (L - Suc j) []) s1"
    unfolding GetItems_loop.simps [of "Suc fuel"]
    using guard lk k lres j by (simp only: g r off uj upd nxt if_True if_False simp_thms nat.case
        prod.case option.case) simp
  ultimately show ?case using e(2) by simp
qed

lemma GetItems_refines:
  assumes rep: "im_rep k m (view s) xs" and co: "coherent s" and k: "0 < k"
    and c: "unat start < length xs \<Longrightarrow> Suc (unat start + unat cnt) < 2 ^ 32"
  shows "\<exists>s'. GetItems m s start cnt =
      Some ((slice (unat start) (unat cnt) xs, length xs \<le> unat start + unat cnt), s') \<and>
    view s' = view s \<and> coherent s'"
proof -
  let ?a = "unat start" and ?c = "unat cnt"
  have len: "length xs < 2 ^ 32" using rep by (simp add: im_rep_def)
  obtain s1 where cnt: "GetCount m s = Some (word_of_nat (length xs), s1)"
    and s1: "view s1 = view s" "coherent s1"
    using im_rep_count [OF rep co] .
  have n0: "(word_of_nat (length xs) :: u32) = 0 \<longleftrightarrow> xs = []"
    using len u32_eq_iff [of "length xs" 0] by auto
  have ge: "(word_of_nat (length xs) :: u32) \<le> start \<longleftrightarrow> length xs \<le> ?a"
    using len u32_le_iff [of "length xs" ?a] unsigned_less [of start] by simp
  have en: "start + cnt = word_of_nat (?a + ?c)" by simp
  show ?thesis
  proof (cases "length xs \<le> ?a")
    case True
    then show ?thesis using s1 ge n0
      by (simp add: GetItems_def cnt slice_def)
  next
    case False
    then have c: "Suc (?a + ?c) < 2 ^ 32" using c by simp
    have le: "(word_of_nat (length xs) :: u32) \<le> start + cnt \<longleftrightarrow> length xs \<le> ?a + ?c"
      unfolding en using len c by (intro u32_le_iff) auto
    define L where "L = min (length xs) (?a + ?c) - ?a"
    let ?n = "if (word_of_nat (length xs) :: u32) \<le> start + cnt then word_of_nat (length xs) - start else cnt"
    have n: "unat ?n = L"
    proof (cases "length xs \<le> ?a + ?c")
      case True
      have "unat (word_of_nat (length xs) - start) = length xs - ?a"
        using False len by (subst unat_sub) (simp_all add: word_le_nat_alt unat_of_nat)
      then show ?thesis using True le by (simp add: L_def)
    qed (simp add: L_def le)
    have "\<exists>s'. GetItems_loop L m (word_of_nat ?a) (word_of_nat (?a + ?c)) (word_of_nat (length xs))
        (word_of_nat (Suc (?a + 0))) (take 0 (drop ?a xs) @ replicate (L - 0) []) s1 =
      Some (slice ?a L xs, s') \<and> view s' = view s1 \<and> coherent s'"
      using False s1 rep by (intro GetItems_loop_refines [OF k c L_def]) auto
    then obtain s2 where loop: "GetItems_loop L m start (start + cnt) (word_of_nat (length xs))
        (start + 1) (replicate L []) s1 = Some (slice ?a L xs, s2)" "view s2 = view s1" "coherent s2"
      by (auto simp: add.commute)
    have sl: "slice ?a L xs = slice ?a ?c xs" unfolding slice_def L_def by (simp add: min_def)
    have "xs \<noteq> []" using False by auto
    then have "GetItems m s start cnt =
        Some ((slice ?a ?c xs, length xs \<le> ?a + ?c), s2)"
      using loop(1) n False ge le n0 sl by (auto simp: GetItems_def cnt Let_def split: if_splits)
    with loop s1 show ?thesis by simp
  qed
qed

section \<open>The interface of an enumerable set\<close>

text \<open>
  What the clients (\<open>Validators\<close>, \<open>Delegations\<close>, \<open>Undelegations\<close>) rely on. \<open>ok\<close> are the items the
  structure accepts; the state is threaded through reads because reads fill the cache.
\<close>

locale enumerable_set =
  fixes items :: "'s \<Rightarrow> 'k list"
    and invar :: "'s \<Rightarrow> bool"
    and ok :: "'k \<Rightarrow> bool"
    and create :: "'s \<Rightarrow> 'k \<Rightarrow> (u32 \<times> 's) option"
    and remove :: "'s \<Rightarrow> 'k \<Rightarrow> (u32 \<times> 's) option"
    and page :: "'s \<Rightarrow> u32 \<Rightarrow> u32 \<Rightarrow> (('k list \<times> bool) \<times> 's) option"
  assumes items_distinct: "invar s \<Longrightarrow> distinct (items s)"
    and create_new: "invar s \<Longrightarrow> ok x \<Longrightarrow> Suc (length (items s)) < 2 ^ 32 \<Longrightarrow> x \<notin> set (items s) \<Longrightarrow>
      \<exists>s'. create s x = Some (word_of_nat (Suc (length (items s))), s') \<and> invar s' \<and> items s' = items s @ [x]"
    and create_dup: "invar s \<Longrightarrow> ok x \<Longrightarrow> Suc (length (items s)) < 2 ^ 32 \<Longrightarrow> x \<in> set (items s) \<Longrightarrow>
      create s x = None"
    and remove_old: "invar s \<Longrightarrow> ok x \<Longrightarrow> x \<in> set (items s) \<Longrightarrow>
      \<exists>s'. remove s x = Some (word_of_nat (length (items s) - 1), s') \<and> invar s' \<and>
        items s' = remove_item x (items s)"
    and remove_none: "invar s \<Longrightarrow> ok x \<Longrightarrow> x \<notin> set (items s) \<Longrightarrow> remove s x = None"
    and page_slice: "invar s \<Longrightarrow> Suc (unat a + unat n) < 2 ^ 32 \<Longrightarrow>
      \<exists>s'. page s a n = Some ((slice (unat a) (unat n) (items s), length (items s) \<le> unat a + unat n), s') \<and>
        invar s' \<and> items s' = items s"
begin

lemma create_then_remove:
  assumes "invar s" "ok x" "Suc (length (items s)) < 2 ^ 32" "x \<notin> set (items s)"
  shows "\<exists>s1 s2. create s x = Some (word_of_nat (Suc (length (items s))), s1) \<and>
    remove s1 x = Some (word_of_nat (length (items s)), s2) \<and> invar s2 \<and> items s2 = items s"
proof -
  obtain s1 where s1: "create s x = Some (word_of_nat (Suc (length (items s))), s1)" "invar s1"
    "items s1 = items s @ [x]" using create_new [OF assms] by blast
  moreover have "index_of x (items s @ [x]) = length (items s)"
    using index_of_nth [of "items s @ [x]" "length (items s)"] items_distinct [OF s1(2)] s1(3) by simp
  ultimately show ?thesis
    using remove_old [OF s1(2) assms(2)] by (auto simp: remove_item_def swap_del_def)
qed

lemma remove_set:
  assumes "invar s" "ok x" "remove s x = Some (c, s')"
  shows "set (items s') = set (items s) - {x}" "invar s'" "x \<in> set (items s)"
proof -
  have x: "x \<in> set (items s)" using remove_none [OF assms(1,2)] assms(3) by force
  then show "set (items s') = set (items s) - {x}" "invar s'" "x \<in> set (items s)"
    using remove_old [OF assms(1,2) x] assms(3)
    by (auto simp: set_remove_item [OF items_distinct [OF assms(1)] x])
qed

text \<open>Paging through the set in pages of \<open>n\<close> items enumerates it, each item once and in order.\<close>

lemma pages_enumerate:
  assumes "0 < n"
  shows "concat (map (\<lambda>b. slice (b * n) n (items s)) [0..<b]) = take (b * n) (items s)"
proof (induction b)
  case 0
  then show ?case by simp
next
  case (Suc b)
  then show ?case by (simp add: slice_def take_add [symmetric] add.commute)
qed

end

text \<open>The code: a map with its hash function, on a storage wrapper.\<close>

definition im_invar :: "nat \<Rightarrow> IterableMap \<times> storage_wrapper \<times> bytes list \<Rightarrow> bool" where
  "im_invar k = (\<lambda>(m, s, xs). 0 < k \<and> keys_apart k m \<and> coherent s \<and> im_rep k m (view s) xs)"

definition im_create :: "IterableMap \<times> storage_wrapper \<times> bytes list \<Rightarrow> bytes \<Rightarrow> (u32 \<times> IterableMap \<times> storage_wrapper \<times> bytes list) option" where
  "im_create = (\<lambda>(m, s, xs) x. do { (c, s') \<leftarrow> CreateItem m s x; Some (c, m, s', xs @ [x]) })"

definition im_remove :: "IterableMap \<times> storage_wrapper \<times> bytes list \<Rightarrow> bytes \<Rightarrow> (u32 \<times> IterableMap \<times> storage_wrapper \<times> bytes list) option" where
  "im_remove = (\<lambda>(m, s, xs) x. do { (c, s') \<leftarrow> RemoveItem m s x; Some (c, m, s', remove_item x xs) })"

definition im_page :: "IterableMap \<times> storage_wrapper \<times> bytes list \<Rightarrow> u32 \<Rightarrow> u32 \<Rightarrow> ((bytes list \<times> bool) \<times> IterableMap \<times> storage_wrapper \<times> bytes list) option" where
  "im_page = (\<lambda>(m, s, xs) a n. do { (r, s') \<leftarrow> GetItems m s a n; Some (r, m, s', xs) })"

interpretation im: enumerable_set "\<lambda>(m, s, xs). xs" "im_invar k" "\<lambda>x. length x = k" im_create im_remove im_page
  for k
proof (unfold_locales, goal_cases)
  case (1 q)
  then show ?case by (auto simp: im_invar_def im_rep_def)
next
  case (2 q x)
  obtain m s xs where q: "q = (m, s, xs)" by (cases q)
  from 2 show ?case using CreateItem_refines(2) [of k m s xs x]
    by (force simp: q im_invar_def im_create_def)
next
  case (3 q x)
  obtain m s xs where q: "q = (m, s, xs)" by (cases q)
  from 3 show ?case using CreateItem_refines(1) [of k m s xs x]
    by (simp add: q im_invar_def im_create_def)
next
  case (4 q x)
  obtain m s xs where q: "q = (m, s, xs)" by (cases q)
  from 4 show ?case using RemoveItem_refines(2) [of k m s xs x]
    by (force simp: q im_invar_def im_remove_def)
next
  case (5 q x)
  obtain m s xs where q: "q = (m, s, xs)" by (cases q)
  from 5 show ?case using RemoveItem_refines(1) [of k m s xs x]
    by (simp add: q im_invar_def im_remove_def)
next
  case (6 q a n)
  obtain m s xs where q: "q = (m, s, xs)" by (cases q)
  from 6 show ?case using GetItems_refines [of k m s xs a n]
    by (force simp: q im_invar_def im_page_def)
qed

end
