(* ===== verification/Typed_IMap.thy ===== *)
theory Typed_IMap
  imports Iterable_Map
begin

text \<open>
  The typed iterable maps of \<open>contracts/storage/addresses_imap.go\<close> and \<open>ids_imap.go\<close>: sets of
  addresses and of undelegation ids, stored through the byte-level \<open>IterableMap\<close>. The byte-level
  operations are shown to implement the list-level ones (\<open>imap_create\<close>, \<open>imap_remove\<close>,
  \<open>imap_page\<close>), on which the contract theories are built.
\<close>

section \<open>Addresses as bytes\<close>

definition Address_Bytes :: "address \<Rightarrow> bytes" where
  "Address_Bytes a = map (\<lambda>i. byte_of i a) (rev [0..<20])"

definition BytesToAddress :: "bytes \<Rightarrow> address" where
  "BytesToAddress b =
     (let b = (if 20 < length b then drop (length b - 20) b else b) in word_of_nat (big_SetBytes b))"

lemma length_Address_Bytes [simp]: "length (Address_Bytes a) = 20"
  by (simp add: Address_Bytes_def)

lemma big_SetBytes_Cons: "big_SetBytes (b # bs) = unat b * 256 ^ length bs + big_SetBytes bs"
proof (induction bs rule: rev_induct)
  case Nil
  then show ?case by (simp add: big_SetBytes_def)
next
  case (snoc x xs)
  then show ?case using big_SetBytes_snoc [of "b # xs" x] big_SetBytes_snoc [of xs x]
    by (simp add: algebra_simps)
qed

lemma unat_byte_of: "unat (byte_of n (a :: 'a::len word)) = unat a div 256 ^ n mod 256"
proof -
  have "unat (byte_of n a) = unat (drop_bit (8 * n) a) mod 256"
    by (simp add: byte_of_def unsigned_ucast_eq take_bit_eq_mod)
  also have "unat (drop_bit (8 * n) a) = unat a div 256 ^ n"
    by (subst unsigned_drop_bit_eq, subst take_bit_nat_eq_self [OF unsigned_less])
      (simp add: drop_bit_eq_div power_mult)
  finally show ?thesis .
qed

lemma big_SetBytes_bytes:
  "big_SetBytes (map (\<lambda>i. byte_of i (a :: 'a::len word)) (rev [0..<n])) = unat a mod 256 ^ n"
proof (induction n)
  case 0
  then show ?case by (simp add: big_SetBytes_def)
next
  case (Suc n)
  have "unat a mod 256 ^ Suc n = 256 ^ n * (unat a div 256 ^ n mod 256) + unat a mod 256 ^ n"
    by (simp only: power_Suc2 mod_mult2_eq)
  with Suc show ?case by (simp add: big_SetBytes_Cons unat_byte_of)
qed

lemma BytesToAddress_Bytes [simp, codec_simps]: "BytesToAddress (Address_Bytes a) = a"
proof -
  have "unat a < 2 ^ 160" using unsigned_less [of a] by simp
  then have "unat a mod 256 ^ 20 = unat a" by simp
  then have "big_SetBytes (Address_Bytes a) = unat a"
    by (simp only: Address_Bytes_def big_SetBytes_bytes)
  then show ?thesis by (simp add: BytesToAddress_def)
qed

interpretation address_bytes: codec Address_Bytes "\<lambda>b. Some (BytesToAddress b)"
  by unfold_locales simp

section \<open>The code\<close>

definition AddressesIMap_AccountExists ::
    "IterableMap \<Rightarrow> storage_wrapper \<Rightarrow> address \<Rightarrow> (bool \<times> storage_wrapper) option" where
  "AddressesIMap_AccountExists m s account = ItemExists m s (Address_Bytes account)"

definition AddressesIMap_GetAccounts ::
    "IterableMap \<Rightarrow> storage_wrapper \<Rightarrow> u32 \<Rightarrow> u32 \<Rightarrow> ((address list \<times> bool) \<times> storage_wrapper) option" where
  "AddressesIMap_GetAccounts m s batch cnt = do {
     ((items, end), s) \<leftarrow> GetItems m s (batch * cnt) cnt;
     Some ((map BytesToAddress items, end), s)
   }"

definition AddressesIMap_GetAllAccounts ::
    "IterableMap \<Rightarrow> storage_wrapper \<Rightarrow> (address list \<times> storage_wrapper) option" where
  "AddressesIMap_GetAllAccounts m s = do {
     (n, s) \<leftarrow> GetCount m s;
     ((items, _), s) \<leftarrow> GetItems m s 0 n;
     Some (map BytesToAddress items, s)
   }"

definition AddressesIMap_CreateAccount ::
    "IterableMap \<Rightarrow> storage_wrapper \<Rightarrow> address \<Rightarrow> (u32 \<times> storage_wrapper) option" where
  "AddressesIMap_CreateAccount m s account = CreateItem m s (Address_Bytes account)"

definition AddressesIMap_RemoveAccount ::
    "IterableMap \<Rightarrow> storage_wrapper \<Rightarrow> address \<Rightarrow> (u32 \<times> storage_wrapper) option" where
  "AddressesIMap_RemoveAccount m s account = RemoveItem m s (Address_Bytes account)"

definition IdsIMap_IdExists ::
    "IterableMap \<Rightarrow> storage_wrapper \<Rightarrow> u64 \<Rightarrow> (bool \<times> storage_wrapper) option" where
  "IdsIMap_IdExists m s i = ItemExists m s (Uint64ToBytes i)"

definition IdsIMap_GetIdsFromIdx ::
    "IterableMap \<Rightarrow> storage_wrapper \<Rightarrow> u32 \<Rightarrow> u32 \<Rightarrow> ((u64 list \<times> bool) \<times> storage_wrapper) option" where
  "IdsIMap_GetIdsFromIdx m s start_idx cnt = do {
     ((items, end), s) \<leftarrow> GetItems m s start_idx cnt;
     ids \<leftarrow> those (map BytesToUint64 items);
     Some ((ids, end), s)
   }"

definition IdsIMap_CreateId ::
    "IterableMap \<Rightarrow> storage_wrapper \<Rightarrow> u64 \<Rightarrow> (u32 \<times> storage_wrapper) option" where
  "IdsIMap_CreateId m s i = CreateItem m s (Uint64ToBytes i)"

definition IdsIMap_RemoveId ::
    "IterableMap \<Rightarrow> storage_wrapper \<Rightarrow> u64 \<Rightarrow> (u32 \<times> storage_wrapper) option" where
  "IdsIMap_RemoveId m s i = RemoveItem m s (Uint64ToBytes i)"

section \<open>The list level\<close>

text \<open>
  The abstract map is the duplicate-free list of its items. \<open>GetAccounts\<close> multiplies batch and
  count in 32 bits, as the code does.
\<close>

definition imap_create :: "'k list \<Rightarrow> 'k \<Rightarrow> (u32 \<times> 'k list) option" where
  "imap_create xs x = (if x \<in> set xs then None else Some (word_of_nat (Suc (length xs)), xs @ [x]))"

definition imap_remove :: "'k list \<Rightarrow> 'k \<Rightarrow> (u32 \<times> 'k list) option" where
  "imap_remove xs x =
     (if x \<in> set xs then Some (word_of_nat (length xs - 1), remove_item x xs) else None)"

definition imap_page :: "'k list \<Rightarrow> u32 \<Rightarrow> u32 \<Rightarrow> 'k list \<times> bool" where
  "imap_page xs start cnt =
     (slice (unat start) (unat cnt) xs, length xs \<le> unat start + unat cnt)"

definition GetAccounts :: "address list \<Rightarrow> u32 \<Rightarrow> u32 \<Rightarrow> address list \<times> bool" where
  "GetAccounts xs batch cnt = imap_page xs (batch * cnt) cnt"

definition imap_count :: "'k list \<Rightarrow> u32" where
  "imap_count xs = word_of_nat (length xs)"

lemma imap_create_Some [simp]:
  "imap_create xs x = Some (n, ys) \<longleftrightarrow> x \<notin> set xs \<and> n = word_of_nat (Suc (length xs)) \<and> ys = xs @ [x]"
  by (auto simp: imap_create_def)

lemma imap_remove_Some [simp]:
  "imap_remove xs x = Some (n, ys) \<longleftrightarrow> x \<in> set xs \<and> n = word_of_nat (length xs - 1) \<and> ys = remove_item x xs"
  by (auto simp: imap_remove_def)

text \<open>The list-level operations satisfy the contract of an enumerable set.\<close>

interpretation lm: enumerable_set "\<lambda>xs :: 'k list. xs" distinct "\<lambda>_. True" imap_create imap_remove
  "\<lambda>xs a n. Some (imap_page xs a n, xs)"
proof (unfold_locales, goal_cases)
  case (4 s x)
  then show ?case by (simp add: imap_remove_def distinct_remove_item)
qed (auto simp: imap_create_def imap_remove_def imap_page_def)

section \<open>The code implements the list level\<close>

text \<open>
  A typed map stands for the list \<open>xs\<close> when the byte-level map stands for the encoded items.
  \<open>enc\<close> is an encoding of fixed length, other than the 4 bytes of a position.
\<close>

definition typed_rep :: "('k \<Rightarrow> bytes) \<Rightarrow> nat \<Rightarrow> IterableMap \<Rightarrow> storage_wrapper \<Rightarrow> 'k list \<Rightarrow> bool" where
  "typed_rep enc k m s xs \<longleftrightarrow> 0 < k \<and> keys_apart k m \<and> coherent s \<and> im_rep k m (view s) (map enc xs)"

locale item_codec = codec enc dec for enc :: "'k \<Rightarrow> bytes" and dec +
  fixes k :: nat
  assumes length_enc: "length (enc x) = k"
begin

lemma enc_in_map: "enc x \<in> set (map enc xs) \<longleftrightarrow> x \<in> set xs"
  using enc_inj by (auto simp: image_iff)

lemma index_of_map: "index_of (enc x) (map enc xs) = index_of x xs"
  by (induction xs) (auto simp: enc_inj)

lemma remove_item_map: "remove_item (enc x) (map enc xs) = map enc (remove_item x xs)"
  by (cases "xs = []")
    (auto simp: remove_item_def swap_del_def index_of_map map_butlast last_map map_update)

lemma create_refines:
  assumes "typed_rep enc k m s xs" "Suc (length xs) < 2 ^ 32"
  shows "(case imap_create xs x of
      None \<Rightarrow> CreateItem m s (enc x) = None
    | Some (n, ys) \<Rightarrow> \<exists>s'. CreateItem m s (enc x) = Some (n, s') \<and> typed_rep enc k m s' ys \<and>
        (\<forall>h. h \<notin> im_keys k m \<longrightarrow> view s' h = view s h))"
  using assms CreateItem_refines [of k m s "map enc xs" "enc x"]
  by (auto simp: typed_rep_def imap_create_def length_enc enc_in_map simp del: of_nat_Suc set_map)

lemma remove_refines:
  assumes "typed_rep enc k m s xs"
  shows "(case imap_remove xs x of
      None \<Rightarrow> RemoveItem m s (enc x) = None
    | Some (n, ys) \<Rightarrow> \<exists>s'. RemoveItem m s (enc x) = Some (n, s') \<and> typed_rep enc k m s' ys \<and>
        (\<forall>h. h \<notin> im_keys k m \<longrightarrow> view s' h = view s h))"
  using assms RemoveItem_refines [of k m s "map enc xs" "enc x"]
  by (auto simp: typed_rep_def imap_remove_def length_enc enc_in_map remove_item_map simp del: set_map)

lemma page_refines:
  assumes "typed_rep enc k m s xs" "unat start < length xs \<Longrightarrow> Suc (unat start + unat cnt) < 2 ^ 32"
  shows "\<exists>s'. GetItems m s start cnt =
      Some ((map enc (fst (imap_page xs start cnt)), snd (imap_page xs start cnt)), s') \<and>
    view s' = view s \<and> typed_rep enc k m s' xs"
proof -
  have "\<exists>s'. GetItems m s start cnt =
      Some ((slice (unat start) (unat cnt) (map enc xs), length (map enc xs) \<le> unat start + unat cnt), s') \<and>
    view s' = view s \<and> coherent s'"
    using assms by (intro GetItems_refines) (auto simp: typed_rep_def)
  then show ?thesis using assms(1) by (auto simp: typed_rep_def imap_page_def slice_def take_map drop_map)
qed

lemma count_refines:
  assumes "typed_rep enc k m s xs"
  shows "\<exists>s'. GetCount m s = Some (imap_count xs, s') \<and> view s' = view s \<and> typed_rep enc k m s' xs"
proof -
  from assms have "im_rep k m (view s) (map enc xs)" "coherent s" by (auto simp: typed_rep_def)
  then obtain s' where "GetCount m s = Some (word_of_nat (length (map enc xs)), s')"
    "view s' = view s" "coherent s'" by (rule im_rep_count)
  with assms show ?thesis by (simp add: typed_rep_def imap_count_def)
qed

lemma exists_refines:
  assumes "typed_rep enc k m s xs"
  shows "\<exists>s'. ItemExists m s (enc x) = Some (x \<in> set xs, s') \<and> view s' = view s \<and> typed_rep enc k m s' xs"
proof -
  from assms have rep: "im_rep k m (view s) (map enc xs)" "coherent s" by (auto simp: typed_rep_def)
  obtain s' where "itemExists m s (enc x) = Some ((enc x \<in> set (map enc xs),
      if enc x \<in> set (map enc xs) then word_of_nat (Suc (index_of (enc x) (map enc xs))) else 0), s')"
    "view s' = view s" "coherent s'"
    by (rule im_rep_exists [OF rep length_enc])
  with assms show ?thesis by (simp add: ItemExists_def typed_rep_def enc_in_map del: set_map)
qed

end

interpretation addresses: item_codec Address_Bytes "\<lambda>b. Some (BytesToAddress b)" 20
  by unfold_locales simp

interpretation ids: item_codec Uint64ToBytes BytesToUint64 8
  by unfold_locales simp

end
