(* ===== verification/Validators_Store.thy ===== *)
theory Validators_Store
  imports Typed_IMap
begin

text \<open>
  The validators of the DPoS contract: \<open>dpos/precompiled/validators.go\<close>. Each kind of slot is a
  partial map from the validator's address (key spaces are separated in \<open>Storage_Layout\<close>), and
  the list of validators is the list-level iterable map of \<open>Typed_IMap\<close>. A stored value is an
  RLP encoding; encoding a negative \<open>big.Int\<close> is an error, on which \<open>MustEncodeToBytes\<close> panics,
  and this is the only way the encodings of these structures fail.
\<close>

record Validator =
  TotalStake :: int
  Commission :: u16
  LastCommissionChange :: blocknum
  V_LastUpdated :: blocknum
  UndelegationsCount :: u16

record ValidatorInfo =
  Description :: string
  Endpoint :: string

record ValidatorRewards =
  RewardsPool :: int
  CommissionRewardsPool :: int

definition ValidatorRewards_Empty :: "ValidatorRewards \<Rightarrow> bool" where
  "ValidatorRewards_Empty self \<longleftrightarrow> RewardsPool self = 0 \<and> CommissionRewardsPool self = 0"

record Validators =
  validators_list :: "address list"
  validator_field :: "address \<rightharpoonup> Validator"
  validator_info_field :: "address \<rightharpoonup> ValidatorInfo"
  validator_rewards_field :: "address \<rightharpoonup> ValidatorRewards"
  validator_owner_field :: "address \<rightharpoonup> address"
  validator_vrf_key_field :: "address \<rightharpoonup> bytes"

definition Validators_empty :: Validators where
  "Validators_empty = \<lparr>validators_list = [], validator_field = Map.empty, validator_info_field = Map.empty,
     validator_rewards_field = Map.empty, validator_owner_field = Map.empty,
     validator_vrf_key_field = Map.empty\<rparr>"

section \<open>Operations\<close>

text \<open>A write of an empty byte string removes the slot.\<close>

definition put_bytes :: "bytes \<Rightarrow> bytes option" where
  "put_bytes bs = (if bs = [] then None else Some bs)"

definition GetValidatorOwner :: "Validators \<Rightarrow> address \<Rightarrow> address" where
  "GetValidatorOwner self validator =
     (case validator_owner_field self validator of None \<Rightarrow> 0 | Some a \<Rightarrow> a)"

definition CheckValidatorOwner :: "Validators \<Rightarrow> address \<Rightarrow> address \<Rightarrow> bool" where
  "CheckValidatorOwner self owner validator \<longleftrightarrow> owner = GetValidatorOwner self validator"

definition GetVrfKey :: "Validators \<Rightarrow> address \<Rightarrow> bytes" where
  "GetVrfKey self validator =
     (case validator_vrf_key_field self validator of None \<Rightarrow> [] | Some bs \<Rightarrow> bs)"

definition ValidatorExists :: "Validators \<Rightarrow> address \<Rightarrow> bool" where
  "ValidatorExists self validator_address \<longleftrightarrow> validator_address \<in> set (validators_list self)"

definition GetValidatorsAddresses :: "Validators \<Rightarrow> u32 \<Rightarrow> u32 \<Rightarrow> address list \<times> bool" where
  "GetValidatorsAddresses self batch cnt = GetAccounts (validators_list self) batch cnt"

definition GetValidatorsCount :: "Validators \<Rightarrow> u32" where
  "GetValidatorsCount self = imap_count (validators_list self)"

text \<open>\<open>Save\<close> for the three kinds of values.\<close>

definition Save_Validator :: "Validators \<Rightarrow> address \<Rightarrow> Validator \<Rightarrow> Validators option" where
  "Save_Validator self a v = do {
     assertm (0 \<le> TotalStake v);
     Some (self\<lparr>validator_field := (validator_field self)(a \<mapsto> v)\<rparr>)
   }"

definition Save_ValidatorInfo :: "Validators \<Rightarrow> address \<Rightarrow> ValidatorInfo \<Rightarrow> Validators option" where
  "Save_ValidatorInfo self a i =
     Some (self\<lparr>validator_info_field := (validator_info_field self)(a \<mapsto> i)\<rparr>)"

definition Save_ValidatorRewards :: "Validators \<Rightarrow> address \<Rightarrow> ValidatorRewards \<Rightarrow> Validators option" where
  "Save_ValidatorRewards self a r = do {
     assertm (0 \<le> RewardsPool r \<and> 0 \<le> CommissionRewardsPool r);
     Some (self\<lparr>validator_rewards_field := (validator_rewards_field self)(a \<mapsto> r)\<rparr>)
   }"

definition GetValidator :: "Validators \<Rightarrow> address \<Rightarrow> Validator option" where
  "GetValidator self validator_address = validator_field self validator_address"

definition GetValidatorInfo :: "Validators \<Rightarrow> address \<Rightarrow> ValidatorInfo option" where
  "GetValidatorInfo self validator_address = validator_info_field self validator_address"

definition GetValidatorRewards :: "Validators \<Rightarrow> address \<Rightarrow> ValidatorRewards option" where
  "GetValidatorRewards self validator_address = validator_rewards_field self validator_address"

definition ModifyValidator :: "Validators \<Rightarrow> address \<Rightarrow> Validator \<Rightarrow> Validators option" where
  "ModifyValidator self a v = do { assertm (ValidatorExists self a); Save_Validator self a v }"

definition ModifyValidatorInfo :: "Validators \<Rightarrow> address \<Rightarrow> ValidatorInfo \<Rightarrow> Validators option" where
  "ModifyValidatorInfo self a i = do { assertm (ValidatorExists self a); Save_ValidatorInfo self a i }"

definition ModifyValidatorRewards :: "Validators \<Rightarrow> address \<Rightarrow> ValidatorRewards \<Rightarrow> Validators option" where
  "ModifyValidatorRewards self a r = do { assertm (ValidatorExists self a); Save_ValidatorRewards self a r }"

definition CreateValidator ::
    "Validators \<Rightarrow> address \<Rightarrow> address \<Rightarrow> bytes \<Rightarrow> blocknum \<Rightarrow> u16 \<Rightarrow> string \<Rightarrow> string
      \<Rightarrow> (Validator \<times> Validators) option" where
  "CreateValidator self owner_address validator_address vrf_key block commission description endpoint = do {
     let validator = \<lparr>TotalStake = 0, Commission = commission, LastCommissionChange = block,
                      V_LastUpdated = block, UndelegationsCount = 0\<rparr>;
     self \<leftarrow> Save_Validator self validator_address validator;
     self \<leftarrow> Save_ValidatorInfo self validator_address \<lparr>Description = description, Endpoint = endpoint\<rparr>;
     self \<leftarrow> Save_ValidatorRewards self validator_address \<lparr>RewardsPool = 0, CommissionRewardsPool = 0\<rparr>;
     let self = self\<lparr>validator_owner_field := (validator_owner_field self)(validator_address \<mapsto> owner_address)\<rparr>;
     let self = self\<lparr>validator_vrf_key_field := (validator_vrf_key_field self)(validator_address := put_bytes vrf_key)\<rparr>;
     (_, xs) \<leftarrow> imap_create (validators_list self) validator_address;
     Some (validator, self\<lparr>validators_list := xs\<rparr>)
   }"

definition DeleteValidator :: "Validators \<Rightarrow> address \<Rightarrow> Validators option" where
  "DeleteValidator self validator_address = do {
     let self = self\<lparr>validator_field := (validator_field self)(validator_address := None)\<rparr>;
     let self = self\<lparr>validator_info_field := (validator_info_field self)(validator_address := None)\<rparr>;
     let self = self\<lparr>validator_owner_field := (validator_owner_field self)(validator_address := None)\<rparr>;
     let self = self\<lparr>validator_vrf_key_field := (validator_vrf_key_field self)(validator_address := None)\<rparr>;
     let self = self\<lparr>validator_rewards_field := (validator_rewards_field self)(validator_address := None)\<rparr>;
     (_, xs) \<leftarrow> imap_remove (validators_list self) validator_address;
     Some (self\<lparr>validators_list := xs\<rparr>)
   }"

definition AddValidatorRewards :: "Validators \<Rightarrow> address \<Rightarrow> int \<Rightarrow> int \<Rightarrow> Validators option" where
  "AddValidatorRewards self validator_address commission_reward reward = do {
     assertm (ValidatorExists self validator_address);
     rewards \<leftarrow> GetValidatorRewards self validator_address;
     let rewards = rewards\<lparr>CommissionRewardsPool := CommissionRewardsPool rewards + commission_reward\<rparr>;
     let rewards = rewards\<lparr>RewardsPool := RewardsPool rewards + reward\<rparr>;
     ModifyValidatorRewards self validator_address rewards
   }"

text \<open>
  \<open>ForEachValidator\<close>: pages of 100, starting at batch 0, until a page says it is the last. The
  callback works on a state \<open>'s\<close> that holds the list (\<open>get\<close>), so that a callback that changes
  the list changes the later pages. The fuel bounds the number of pages.
\<close>

fun ForEachValidator_loop ::
    "nat \<Rightarrow> u32 \<Rightarrow> ('s \<Rightarrow> address list) \<Rightarrow> ('s \<Rightarrow> address \<Rightarrow> 's option) \<Rightarrow> 's \<Rightarrow> 's option" where
  "ForEachValidator_loop 0 batch get cb s = None"
| "ForEachValidator_loop (Suc fuel) batch get cb s =
     (let (addrs, end) = GetAccounts (get s) batch 100
      in do {
        s \<leftarrow> fold (\<lambda>addr r. Option.bind r (\<lambda>s. cb s addr)) addrs (Some s);
        if end then Some s else ForEachValidator_loop fuel (batch + 1) get cb s
      })"

definition ForEachValidator ::
    "('s \<Rightarrow> address list) \<Rightarrow> ('s \<Rightarrow> address \<Rightarrow> 's option) \<Rightarrow> 's \<Rightarrow> 's option" where
  "ForEachValidator get cb s = ForEachValidator_loop (Suc (length (get s))) 0 get cb s"

lemmas validators_defs =
  GetValidator_def GetValidatorInfo_def GetValidatorRewards_def ValidatorExists_def
  ModifyValidator_def ModifyValidatorInfo_def ModifyValidatorRewards_def
  Save_Validator_def Save_ValidatorInfo_def Save_ValidatorRewards_def

section \<open>Well-formedness\<close>

text \<open>A validator is in the list exactly if it has a record, an info, a rewards and an owner slot.\<close>

definition validators_wf :: "Validators \<Rightarrow> bool" where
  "validators_wf self \<longleftrightarrow>
     distinct (validators_list self) \<and>
     dom (validator_field self) = set (validators_list self) \<and>
     dom (validator_info_field self) = set (validators_list self) \<and>
     dom (validator_rewards_field self) = set (validators_list self) \<and>
     dom (validator_owner_field self) = set (validators_list self) \<and>
     (\<forall>a v. validator_field self a = Some v \<longrightarrow> 0 \<le> TotalStake v) \<and>
     (\<forall>a r. validator_rewards_field self a = Some r \<longrightarrow> 0 \<le> RewardsPool r \<and> 0 \<le> CommissionRewardsPool r)"

lemma validators_wf_empty: "validators_wf Validators_empty"
  by (simp add: validators_wf_def Validators_empty_def)

lemma validators_wf_exists:
  assumes "validators_wf self"
  shows "ValidatorExists self a \<longleftrightarrow> GetValidator self a \<noteq> None"
    and "ValidatorExists self a \<longleftrightarrow> GetValidatorRewards self a \<noteq> None"
    and "ValidatorExists self a \<longleftrightarrow> GetValidatorInfo self a \<noteq> None"
  using assms by (auto simp: validators_wf_def validators_defs)

lemma validators_wfD:
  assumes "validators_wf self"
  shows "GetValidator self a = Some v \<Longrightarrow> 0 \<le> TotalStake v"
    and "GetValidatorRewards self a = Some r \<Longrightarrow> 0 \<le> RewardsPool r \<and> 0 \<le> CommissionRewardsPool r"
  using assms by (auto simp: validators_wf_def validators_defs)

lemma ModifyValidator_Some [simp]:
  "ModifyValidator self a v = Some self' \<longleftrightarrow>
     ValidatorExists self a \<and> 0 \<le> TotalStake v \<and>
     self' = self\<lparr>validator_field := (validator_field self)(a \<mapsto> v)\<rparr>"
  by (auto simp: ModifyValidator_def Save_Validator_def panic_simps)

lemma ModifyValidatorRewards_Some [simp]:
  "ModifyValidatorRewards self a r = Some self' \<longleftrightarrow>
     ValidatorExists self a \<and> 0 \<le> RewardsPool r \<and> 0 \<le> CommissionRewardsPool r \<and>
     self' = self\<lparr>validator_rewards_field := (validator_rewards_field self)(a \<mapsto> r)\<rparr>"
  by (auto simp: ModifyValidatorRewards_def Save_ValidatorRewards_def panic_simps)

lemma ModifyValidatorInfo_Some [simp]:
  "ModifyValidatorInfo self a r = Some self' \<longleftrightarrow>
     ValidatorExists self a \<and>
     self' = self\<lparr>validator_info_field := (validator_info_field self)(a \<mapsto> r)\<rparr>"
  by (auto simp: ModifyValidatorInfo_def Save_ValidatorInfo_def panic_simps)

lemma ModifyValidator_wf:
  "validators_wf self \<Longrightarrow> ModifyValidator self a v = Some self' \<Longrightarrow> validators_wf self'"
  by (auto simp: validators_wf_def ValidatorExists_def)

lemma ModifyValidatorRewards_wf:
  "validators_wf self \<Longrightarrow> ModifyValidatorRewards self a v = Some self' \<Longrightarrow> validators_wf self'"
  by (auto simp: validators_wf_def ValidatorExists_def)

lemma ModifyValidatorInfo_wf:
  "validators_wf self \<Longrightarrow> ModifyValidatorInfo self a v = Some self' \<Longrightarrow> validators_wf self'"
  by (auto simp: validators_wf_def ValidatorExists_def)

lemma CreateValidator_Some:
  "CreateValidator self own a vrf block com desc ep = Some (v, self') \<longleftrightarrow>
     \<not> ValidatorExists self a \<and>
     v = \<lparr>TotalStake = 0, Commission = com, LastCommissionChange = block,
          V_LastUpdated = block, UndelegationsCount = 0\<rparr> \<and>
     self' = \<lparr>validators_list = validators_list self @ [a],
       validator_field = (validator_field self)(a \<mapsto> v),
       validator_info_field = (validator_info_field self)(a \<mapsto> \<lparr>Description = desc, Endpoint = ep\<rparr>),
       validator_rewards_field = (validator_rewards_field self)(a \<mapsto> \<lparr>RewardsPool = 0, CommissionRewardsPool = 0\<rparr>),
       validator_owner_field = (validator_owner_field self)(a \<mapsto> own),
       validator_vrf_key_field = (validator_vrf_key_field self)(a := put_bytes vrf)\<rparr>"
  by (auto simp: CreateValidator_def Save_Validator_def Save_ValidatorInfo_def Save_ValidatorRewards_def
      ValidatorExists_def Let_def panic_simps)

lemma CreateValidator_wf:
  "validators_wf self \<Longrightarrow> CreateValidator self own a vrf block com desc ep = Some (v, self') \<Longrightarrow>
    validators_wf self'"
  by (auto simp: validators_wf_def CreateValidator_Some ValidatorExists_def)

lemma DeleteValidator_Some:
  "DeleteValidator self a = Some self' \<longleftrightarrow>
     ValidatorExists self a \<and>
     self' = \<lparr>validators_list = remove_item a (validators_list self),
       validator_field = (validator_field self)(a := None),
       validator_info_field = (validator_info_field self)(a := None),
       validator_rewards_field = (validator_rewards_field self)(a := None),
       validator_owner_field = (validator_owner_field self)(a := None),
       validator_vrf_key_field = (validator_vrf_key_field self)(a := None)\<rparr>"
  by (auto simp: DeleteValidator_def ValidatorExists_def Let_def panic_simps)

lemma DeleteValidator_wf:
  "validators_wf self \<Longrightarrow> DeleteValidator self a = Some self' \<Longrightarrow> validators_wf self'"
  by (auto simp: validators_wf_def DeleteValidator_Some ValidatorExists_def distinct_remove_item
      set_remove_item)

lemma AddValidatorRewards_Some:
  assumes "validators_wf self" "0 \<le> c" "0 \<le> r" "ValidatorExists self a"
  shows "\<exists>rw. GetValidatorRewards self a = Some rw \<and> AddValidatorRewards self a c r =
    Some (self\<lparr>validator_rewards_field := (validator_rewards_field self)
      (a \<mapsto> rw\<lparr>CommissionRewardsPool := CommissionRewardsPool rw + c, RewardsPool := RewardsPool rw + r\<rparr>)\<rparr>)"
proof -
  obtain rw where rw: "GetValidatorRewards self a = Some rw"
    using validators_wf_exists(2) [OF assms(1)] assms(4) by auto
  then have "0 \<le> RewardsPool rw" "0 \<le> CommissionRewardsPool rw" using validators_wfD(2) [OF assms(1)] by auto
  then show ?thesis using rw assms
    by (simp add: AddValidatorRewards_def Let_def ModifyValidatorRewards_def Save_ValidatorRewards_def)
qed

section \<open>\<open>ForEachValidator\<close> visits every validator once\<close>

text \<open>
  For a callback that does not change the list, the paging loop is a fold over the whole list.
\<close>

lemma fold_bind_None: "fold (\<lambda>x r. Option.bind r (\<lambda>s. f s x)) xs None = None"
  by (induction xs) auto

lemma fold_bind_get:
  assumes "\<And>s a s'. cb s a = Some s' \<Longrightarrow> get s' = get s"
  shows "fold (\<lambda>a r. Option.bind r (\<lambda>s. cb s a)) xs (Some s) = Some s' \<Longrightarrow> get s' = get s"
proof (induction xs arbitrary: s)
  case Nil
  then show ?case by simp
next
  case (Cons x xs)
  from Cons.prems obtain s1 where "cb s x = Some s1"
    by (cases "cb s x") (auto simp: fold_bind_None)
  with Cons assms show ?case by fastforce
qed

lemma ForEachValidator_loop_fold:
  assumes keep: "\<And>s a s'. cb s a = Some s' \<Longrightarrow> get s' = get s"
    and len: "length (get s) + 100 < 2 ^ 32"
  shows "length (get s) < 100 * (b + fuel) \<or> (length (get s) = 100 * (b + fuel) \<and> 0 < fuel) \<Longrightarrow>
    100 * b \<le> length (get s) \<Longrightarrow>
    ForEachValidator_loop fuel (word_of_nat b) get cb s =
      fold (\<lambda>a r. Option.bind r (\<lambda>s. cb s a)) (drop (100 * b) (get s)) (Some s)"
  using len
proof (induction fuel arbitrary: b s)
  case 0
  then show ?case by simp
next
  case (Suc fuel)
  let ?xs = "get s" and ?f = "fold (\<lambda>a r. Option.bind r (\<lambda>s. cb s a))"
  have "(word_of_nat b * 100 :: u32) = word_of_nat (b * 100)" by simp
  moreover have "b * 100 < 2 ^ 32" using Suc.prems by simp
  ultimately have u: "unat (word_of_nat b * 100 :: u32) = 100 * b"
    by (simp only: unat_of_nat) (simp add: mult.commute)
  have page: "GetAccounts ?xs (word_of_nat b) 100 =
      (take 100 (drop (100 * b) ?xs), length ?xs \<le> 100 * b + 100)"
    by (simp add: GetAccounts_def imap_page_def slice_def u)
  have split: "drop (100 * b) ?xs = take 100 (drop (100 * b) ?xs) @ drop (100 * Suc b) ?xs"
    using append_take_drop_id [of 100 "drop (100 * b) ?xs"] by (simp add: add.commute)
  show ?case
  proof (cases "?f (take 100 (drop (100 * b) ?xs)) (Some s)")
    case None
    then show ?thesis by (subst split) (simp add: page fold_bind_None)
  next
    case (Some s1)
    then have g: "get s1 = ?xs" by (rule fold_bind_get [rotated]) (rule keep)
    show ?thesis
    proof (cases "length ?xs \<le> 100 * b + 100")
      case True
      then show ?thesis using Some by (subst split) (simp add: page)
    next
      case False
      have "(word_of_nat b + 1 :: u32) = word_of_nat (Suc b)" by simp
      moreover have "ForEachValidator_loop fuel (word_of_nat (Suc b)) get cb s1 =
          ?f (drop (100 * Suc b) (get s1)) (Some s1)"
        using Suc.prems False by (intro Suc.IH) (auto simp: g)
      ultimately show ?thesis using Some False
        by (subst split) (simp add: page g add.commute)
    qed
  qed
qed

lemma ForEachValidator_fold:
  assumes "\<And>s a s'. cb s a = Some s' \<Longrightarrow> get s' = get s" "length (get s) + 100 < 2 ^ 32"
  shows "ForEachValidator get cb s = fold (\<lambda>a r. Option.bind r (\<lambda>s. cb s a)) (get s) (Some s)"
  using ForEachValidator_loop_fold [of cb get s 0 "Suc (length (get s))", OF assms]
  by (simp add: ForEachValidator_def)

end
