(* ===== verification/Delegations_Store.thy ===== *)
theory Delegations_Store
  imports Typed_IMap
begin

text \<open>
  The delegations of the DPoS contract: \<open>dpos/precompiled/delegations.go\<close>, with the forward
  index (delegator to validators) and the reverse index (validator to delegators). The
  well-formedness invariant says that the two indices and the delegation slots agree; sums over
  the delegations of a validator change by exactly the delegation an operation touches.
\<close>

record Delegation =
  Stake :: int
  D_LastUpdated :: blocknum

record Delegations =
  delegations_field :: "address \<times> address \<rightharpoonup> Delegation"
  delegator_validators :: "address \<Rightarrow> address list"
  validator_delegators :: "address \<Rightarrow> address list"

definition Delegations_empty :: Delegations where
  "Delegations_empty =
     \<lparr>delegations_field = Map.empty, delegator_validators = \<lambda>_. [], validator_delegators = \<lambda>_. []\<rparr>"

section \<open>Operations\<close>

text \<open>The key of a delegation is made of the validator and the delegator, in this order.\<close>

definition genDelegationKey :: "address \<Rightarrow> address \<Rightarrow> address \<times> address" where
  "genDelegationKey delegator_address validator_address = (validator_address, delegator_address)"

definition DelegationExists :: "Delegations \<Rightarrow> address \<Rightarrow> address \<Rightarrow> bool" where
  "DelegationExists self delegator_address validator_address \<longleftrightarrow>
     validator_address \<in> set (delegator_validators self delegator_address)"

definition GetDelegationsCount :: "Delegations \<Rightarrow> address \<Rightarrow> u32" where
  "GetDelegationsCount self delegator_address = imap_count (delegator_validators self delegator_address)"

definition GetDelegation :: "Delegations \<Rightarrow> address \<Rightarrow> address \<Rightarrow> Delegation option" where
  "GetDelegation self delegator_address validator_address =
     delegations_field self (genDelegationKey delegator_address validator_address)"

definition put_delegation :: "Delegations \<Rightarrow> address \<Rightarrow> address \<Rightarrow> Delegation \<Rightarrow> Delegations option" where
  "put_delegation self delegator_address validator_address delegation = do {
     assertm (0 \<le> Stake delegation);
     Some (self\<lparr>delegations_field :=
       (delegations_field self)(genDelegationKey delegator_address validator_address \<mapsto> delegation)\<rparr>)
   }"

definition ModifyDelegation :: "Delegations \<Rightarrow> address \<Rightarrow> address \<Rightarrow> Delegation \<Rightarrow> Delegations option" where
  "ModifyDelegation self delegator_address validator_address delegation = do {
     assertm (DelegationExists self delegator_address validator_address);
     put_delegation self delegator_address validator_address delegation
   }"

definition CreateDelegation ::
    "Delegations \<Rightarrow> address \<Rightarrow> address \<Rightarrow> blocknum \<Rightarrow> int \<Rightarrow> Delegations option" where
  "CreateDelegation self delegator_address validator_address block stake = do {
     let delegation = \<lparr>Stake = stake, D_LastUpdated = block\<rparr>;
     self \<leftarrow> put_delegation self delegator_address validator_address delegation;
     (_, vs) \<leftarrow> imap_create (delegator_validators self delegator_address) validator_address;
     let self = self\<lparr>delegator_validators := (delegator_validators self)(delegator_address := vs)\<rparr>;
     (_, ds) \<leftarrow> imap_create (validator_delegators self validator_address) delegator_address;
     Some (self\<lparr>validator_delegators := (validator_delegators self)(validator_address := ds)\<rparr>)
   }"

definition RemoveDelegation :: "Delegations \<Rightarrow> address \<Rightarrow> address \<Rightarrow> Delegations option" where
  "RemoveDelegation self delegator_address validator_address = do {
     let self = self\<lparr>delegations_field :=
       (delegations_field self)(genDelegationKey delegator_address validator_address := None)\<rparr>;
     (_, vs) \<leftarrow> imap_remove (delegator_validators self delegator_address) validator_address;
     let self = self\<lparr>delegator_validators := (delegator_validators self)(delegator_address := vs)\<rparr>;
     (_, ds) \<leftarrow> imap_remove (validator_delegators self validator_address) delegator_address;
     Some (self\<lparr>validator_delegators := (validator_delegators self)(validator_address := ds)\<rparr>)
   }"

definition GetDelegatorValidatorsAddresses :: "Delegations \<Rightarrow> address \<Rightarrow> u32 \<Rightarrow> u32 \<Rightarrow> address list \<times> bool" where
  "GetDelegatorValidatorsAddresses self delegator_address batch cnt =
     GetAccounts (delegator_validators self delegator_address) batch cnt"

definition GetValidatorDelegators :: "Delegations \<Rightarrow> address \<Rightarrow> u32 \<Rightarrow> u32 \<Rightarrow> address list \<times> bool" where
  "GetValidatorDelegators self validator_address batch cnt =
     GetAccounts (validator_delegators self validator_address) batch cnt"

definition GetAllDelegatorValidatorsAddresses :: "Delegations \<Rightarrow> address \<Rightarrow> address list" where
  "GetAllDelegatorValidatorsAddresses self delegator_address = delegator_validators self delegator_address"

section \<open>Well-formedness\<close>

definition delegations_wf :: "Delegations \<Rightarrow> bool" where
  "delegations_wf self \<longleftrightarrow>
     (\<forall>d v. v \<in> set (delegator_validators self d) \<longleftrightarrow> GetDelegation self d v \<noteq> None) \<and>
     (\<forall>d v. d \<in> set (validator_delegators self v) \<longleftrightarrow> GetDelegation self d v \<noteq> None) \<and>
     (\<forall>d. distinct (delegator_validators self d)) \<and>
     (\<forall>v. distinct (validator_delegators self v)) \<and>
     (\<forall>d v x. GetDelegation self d v = Some x \<longrightarrow> 0 \<le> Stake x)"

lemma delegations_wf_empty: "delegations_wf Delegations_empty"
  by (simp add: delegations_wf_def Delegations_empty_def GetDelegation_def)

lemma delegations_wfD:
  assumes "delegations_wf self"
  shows "v \<in> set (delegator_validators self d) \<longleftrightarrow> GetDelegation self d v \<noteq> None"
    and "d \<in> set (validator_delegators self v) \<longleftrightarrow> GetDelegation self d v \<noteq> None"
    and "DelegationExists self d v \<longleftrightarrow> GetDelegation self d v \<noteq> None"
    and "GetDelegation self d v = Some x \<Longrightarrow> 0 \<le> Stake x"
    and "distinct (validator_delegators self v)"
  using assms by (auto simp: delegations_wf_def DelegationExists_def)

text \<open>What the operations do to a well-formed store: when they panic, and what they leave.\<close>

lemma ModifyDelegation_wf:
  assumes "delegations_wf self" "GetDelegation self d v \<noteq> None" "0 \<le> Stake x"
  shows "\<exists>self'. ModifyDelegation self d v x = Some self' \<and> delegations_wf self' \<and>
    (\<forall>d' v'. GetDelegation self' d' v' = (if d' = d \<and> v' = v then Some x else GetDelegation self d' v')) \<and>
    validator_delegators self' = validator_delegators self"
  using assms
  by (auto simp: ModifyDelegation_def put_delegation_def delegations_wf_def DelegationExists_def
      GetDelegation_def genDelegationKey_def)

lemma CreateDelegation_wf:
  assumes "delegations_wf self" "GetDelegation self d v = None" "0 \<le> stake"
  shows "\<exists>self'. CreateDelegation self d v block stake = Some self' \<and> delegations_wf self' \<and>
    (\<forall>d' v'. GetDelegation self' d' v' =
      (if d' = d \<and> v' = v then Some \<lparr>Stake = stake, D_LastUpdated = block\<rparr> else GetDelegation self d' v')) \<and>
    validator_delegators self' = (validator_delegators self)(v := validator_delegators self v @ [d])"
proof -
  have n: "v \<notin> set (delegator_validators self d)" "d \<notin> set (validator_delegators self v)"
    using assms(1,2) by (auto simp: delegations_wf_def)
  let ?s = "self\<lparr>delegations_field := (delegations_field self)((v, d) \<mapsto> \<lparr>Stake = stake, D_LastUpdated = block\<rparr>),
    delegator_validators := (delegator_validators self)(d := delegator_validators self d @ [v]),
    validator_delegators := (validator_delegators self)(v := validator_delegators self v @ [d])\<rparr>"
  have "CreateDelegation self d v block stake = Some ?s"
    using n assms(3)
    by (simp add: CreateDelegation_def put_delegation_def genDelegationKey_def imap_create_def Let_def)
  moreover have "delegations_wf ?s"
    using assms n by (auto simp: delegations_wf_def GetDelegation_def genDelegationKey_def)
  ultimately show ?thesis by (auto simp: GetDelegation_def genDelegationKey_def)
qed

lemma RemoveDelegation_wf:
  assumes "delegations_wf self" "GetDelegation self d v \<noteq> None"
  shows "\<exists>self'. RemoveDelegation self d v = Some self' \<and> delegations_wf self' \<and>
    (\<forall>d' v'. GetDelegation self' d' v' = (if d' = d \<and> v' = v then None else GetDelegation self d' v')) \<and>
    validator_delegators self' = (validator_delegators self)(v := remove_item d (validator_delegators self v))"
proof -
  have n: "v \<in> set (delegator_validators self d)" "d \<in> set (validator_delegators self v)"
    and dis: "distinct (delegator_validators self d)" "distinct (validator_delegators self v)"
    using assms(1,2) by (auto simp: delegations_wf_def)
  let ?s = "self\<lparr>delegations_field := (delegations_field self)((v, d) := None),
    delegator_validators := (delegator_validators self)(d := remove_item v (delegator_validators self d)),
    validator_delegators := (validator_delegators self)(v := remove_item d (validator_delegators self v))\<rparr>"
  have "RemoveDelegation self d v = Some ?s"
    using n by (simp add: RemoveDelegation_def genDelegationKey_def imap_remove_def Let_def)
  moreover have "delegations_wf ?s"
    using assms(1) n dis
    by (auto simp: delegations_wf_def GetDelegation_def genDelegationKey_def set_remove_item
        distinct_remove_item split: if_splits)
  ultimately show ?thesis by (auto simp: GetDelegation_def genDelegationKey_def)
qed

section \<open>Sums over the delegations of a validator\<close>

definition dsum :: "Delegations \<Rightarrow> address \<Rightarrow> (Delegation \<Rightarrow> 'a::ab_group_add) \<Rightarrow> 'a" where
  "dsum self v f = (\<Sum>d\<in>set (validator_delegators self v). f (the (GetDelegation self d v)))"

lemma dsum_cong:
  assumes "validator_delegators self v = validator_delegators self' v"
    and "\<And>d. d \<in> set (validator_delegators self v) \<Longrightarrow> GetDelegation self d v = GetDelegation self' d v"
  shows "dsum self v f = dsum self' v f"
  using assms by (simp add: dsum_def)

lemma dsum_member:
  assumes "delegations_wf self" "GetDelegation self d v = Some x"
  shows "dsum self v f =
    f x + (\<Sum>d\<in>set (validator_delegators self v) - {d}. f (the (GetDelegation self d v)))"
proof -
  have "d \<in> set (validator_delegators self v)" using assms by (auto simp: delegations_wf_def)
  then show ?thesis by (simp add: dsum_def sum.remove assms(2))
qed

lemma dsum_modify:
  assumes "delegations_wf self" "GetDelegation self d v = Some old"
    and "delegations_wf self'" "validator_delegators self' = validator_delegators self"
    and "\<And>d' v'. GetDelegation self' d' v' = (if d' = d \<and> v' = v then Some x else GetDelegation self d' v')"
  shows "dsum self' v' f = dsum self v' f + (if v' = v then f x - f old else 0)"
proof (cases "v' = v")
  case True
  have "(\<Sum>e\<in>set (validator_delegators self v) - {d}. f (the (GetDelegation self' e v))) =
      (\<Sum>e\<in>set (validator_delegators self v) - {d}. f (the (GetDelegation self e v)))"
    by (rule sum.cong) (auto simp: assms(5))
  with True show ?thesis
    using dsum_member [OF assms(1,2), of f] dsum_member [OF assms(3), of d v x f] by (simp add: assms(4,5))
next
  case False
  then show ?thesis by (simp add: dsum_def assms(4,5))
qed

lemma dsum_create:
  assumes "delegations_wf self" "GetDelegation self d v = None"
    and "validator_delegators self' = (validator_delegators self)(v := validator_delegators self v @ [d])"
    and "\<And>d' v'. GetDelegation self' d' v' = (if d' = d \<and> v' = v then Some x else GetDelegation self d' v')"
  shows "dsum self' v' f = dsum self v' f + (if v' = v then f x else 0)"
proof (cases "v' = v")
  case True
  have n: "d \<notin> set (validator_delegators self v)" using assms(1,2) by (auto simp: delegations_wf_def)
  have "(\<Sum>e\<in>set (validator_delegators self v). f (the (GetDelegation self' e v))) = dsum self v f"
    unfolding dsum_def using n by (intro sum.cong) (auto simp: assms(4))
  with True n show ?thesis by (simp add: dsum_def assms(3,4))
next
  case False
  then show ?thesis by (simp add: dsum_def assms(3,4))
qed

lemma dsum_remove:
  assumes "delegations_wf self" "GetDelegation self d v = Some old"
    and "validator_delegators self' = (validator_delegators self)(v := remove_item d (validator_delegators self v))"
    and "\<And>d' v'. GetDelegation self' d' v' = (if d' = d \<and> v' = v then None else GetDelegation self d' v')"
  shows "dsum self' v' f = dsum self v' f - (if v' = v then f old else 0)"
proof (cases "v' = v")
  case True
  have n: "d \<in> set (validator_delegators self v)" "distinct (validator_delegators self v)"
    using assms(1,2) by (auto simp: delegations_wf_def)
  have "dsum self' v f = (\<Sum>e\<in>set (validator_delegators self v) - {d}. f (the (GetDelegation self e v)))"
    unfolding dsum_def using n by (intro sum.cong) (auto simp: assms(3,4) set_remove_item)
  with True show ?thesis using dsum_member [OF assms(1,2), of f] by simp
next
  case False
  then show ?thesis by (simp add: dsum_def assms(3,4))
qed

lemma dsum_nonneg:
  assumes "delegations_wf self" "\<And>d x. GetDelegation self d v = Some x \<Longrightarrow> 0 \<le> f x"
  shows "0 \<le> (dsum self v f :: int)"
  unfolding dsum_def using assms by (intro sum_nonneg) (auto simp: delegations_wf_def)

lemma dsum_ge_member:
  assumes wf: "delegations_wf self" and x: "GetDelegation self d v = Some x"
    and pos: "\<And>d x. GetDelegation self d v = Some x \<Longrightarrow> 0 \<le> f x"
  shows "f x \<le> (dsum self v f :: int)"
proof -
  have "0 \<le> (\<Sum>e\<in>set (validator_delegators self v) - {d}. f (the (GetDelegation self e v)))"
    using wf pos by (intro sum_nonneg) (auto simp: delegations_wf_def)
  then show ?thesis using dsum_member [OF wf x, of f] by simp
qed

lemma dsum_empty:
  assumes "delegations_wf self" "\<And>d. GetDelegation self d v = None"
  shows "dsum self v f = 0"
proof -
  have "set (validator_delegators self v) = {}" using assms(2) delegations_wfD(2) [OF assms(1), of _ v] by (auto simp only: set_eq_iff empty_iff)
  then show ?thesis by (simp add: dsum_def)
qed

lemma dsum_add: "dsum self v (\<lambda>x. f x + g x) = dsum self v f + dsum self v g"
  by (simp add: dsum_def sum.distrib)

end
