(* ===== verification/Undelegations_Store.thy ===== *)
theory Undelegations_Store
  imports Typed_IMap
begin

text \<open>
  The pending undelegations of the DPoS contract: \<open>dpos/precompiled/undelegations.go\<close>. An
  undelegation is identified by delegator, validator and an id that is unique per delegator; two
  iterable maps list the validators a delegator is undelegating from and the ids per validator.
\<close>

record Undelegation =
  Amount :: int
  U_Block :: blocknum
  U_Id :: u64

record Undelegations =
  undelegations_field :: "address \<times> address \<times> u64 \<rightharpoonup> Undelegation"
  undelegations_validators :: "address \<Rightarrow> address list"
  undelegations_ids :: "address \<times> address \<Rightarrow> u64 list"
  last_unique_id :: "address \<rightharpoonup> u64"

definition Undelegations_empty :: Undelegations where
  "Undelegations_empty = \<lparr>undelegations_field = Map.empty, undelegations_validators = \<lambda>_. [],
     undelegations_ids = \<lambda>_. [], last_unique_id = Map.empty\<rparr>"

section \<open>Operations\<close>

definition UndelegationExists :: "Undelegations \<Rightarrow> address \<Rightarrow> address \<Rightarrow> u64 \<Rightarrow> bool" where
  "UndelegationExists self delegator_address validator_address undelegation_id \<longleftrightarrow>
     undelegation_id \<in> set (undelegations_ids self (delegator_address, validator_address))"

definition GetUndelegation :: "Undelegations \<Rightarrow> address \<Rightarrow> address \<Rightarrow> u64 \<Rightarrow> Undelegation option" where
  "GetUndelegation self delegator_address validator_address undelegation_id =
     undelegations_field self (delegator_address, validator_address, undelegation_id)"

definition GetUndelegationsCount :: "Undelegations \<Rightarrow> address \<Rightarrow> u32" where
  "GetUndelegationsCount self delegator_address =
     foldl (\<lambda>c v. c + imap_count (undelegations_ids self (delegator_address, v))) 0
       (undelegations_validators self delegator_address)"

definition genUniqueId :: "Undelegations \<Rightarrow> address \<Rightarrow> u64 \<times> Undelegations" where
  "genUniqueId self delegator_address =
     (let unique_id = (case last_unique_id self delegator_address of None \<Rightarrow> 0 | Some i \<Rightarrow> i) + 1
      in (unique_id, self\<lparr>last_unique_id := (last_unique_id self)(delegator_address \<mapsto> unique_id)\<rparr>))"

definition CreateUndelegation ::
    "Undelegations \<Rightarrow> address \<Rightarrow> address \<Rightarrow> blocknum \<Rightarrow> int \<Rightarrow> (u64 \<times> Undelegations) option" where
  "CreateUndelegation self delegator_address validator_address block amount = do {
     let (uid, self) = genUniqueId self delegator_address;
     assertm (0 \<le> amount);
     let self = self\<lparr>undelegations_field := (undelegations_field self)
       ((delegator_address, validator_address, uid) \<mapsto> \<lparr>Amount = amount, U_Block = block, U_Id = uid\<rparr>)\<rparr>;
     (n, ids) \<leftarrow> imap_create (undelegations_ids self (delegator_address, validator_address)) uid;
     let self = self\<lparr>undelegations_ids := (undelegations_ids self)((delegator_address, validator_address) := ids)\<rparr>;
     if n = 1 then do {
       (_, vs) \<leftarrow> imap_create (undelegations_validators self delegator_address) validator_address;
       Some (uid, self\<lparr>undelegations_validators := (undelegations_validators self)(delegator_address := vs)\<rparr>)
     } else Some (uid, self)
   }"

definition RemoveUndelegation :: "Undelegations \<Rightarrow> address \<Rightarrow> address \<Rightarrow> u64 \<Rightarrow> Undelegations option" where
  "RemoveUndelegation self delegator_address validator_address undelegation_id = do {
     let self = self\<lparr>undelegations_field := (undelegations_field self)
       ((delegator_address, validator_address, undelegation_id) := None)\<rparr>;
     (n, ids) \<leftarrow> imap_remove (undelegations_ids self (delegator_address, validator_address)) undelegation_id;
     let self = self\<lparr>undelegations_ids := (undelegations_ids self)((delegator_address, validator_address) := ids)\<rparr>;
     if n = 0 then do {
       (_, vs) \<leftarrow> imap_remove (undelegations_validators self delegator_address) validator_address;
       Some (self\<lparr>undelegations_validators := (undelegations_validators self)(delegator_address := vs)\<rparr>)
     } else Some self
   }"

definition GetUndelegationsValidator :: "Undelegations \<Rightarrow> address \<Rightarrow> u32 \<Rightarrow> address option \<times> bool" where
  "GetUndelegationsValidator self delegator_address validator_idx =
     (let (validators, end) = GetAccounts (undelegations_validators self delegator_address) validator_idx 1
      in if 0 < length validators then (Some (validators ! 0), end) else (None, end))"

section \<open>Well-formedness\<close>

text \<open>
  Slots and indices agree, the validators map holds exactly the validators with ids, and no
  stored id is above the last one given out (so that the next one is fresh).
\<close>

definition last_id :: "Undelegations \<Rightarrow> address \<Rightarrow> u64" where
  "last_id self d = (case last_unique_id self d of None \<Rightarrow> 0 | Some i \<Rightarrow> i)"

definition undelegations_wf :: "Undelegations \<Rightarrow> bool" where
  "undelegations_wf self \<longleftrightarrow>
     (\<forall>d v i. i \<in> set (undelegations_ids self (d, v)) \<longleftrightarrow> GetUndelegation self d v i \<noteq> None) \<and>
     (\<forall>d v. v \<in> set (undelegations_validators self d) \<longleftrightarrow> undelegations_ids self (d, v) \<noteq> []) \<and>
     (\<forall>d v. distinct (undelegations_ids self (d, v)) \<and> length (undelegations_ids self (d, v)) < 2 ^ 32) \<and>
     (\<forall>d. distinct (undelegations_validators self d)) \<and>
     (\<forall>d v i u. GetUndelegation self d v i = Some u \<longrightarrow> 0 \<le> Amount u \<and> U_Id u = i \<and> i \<le> last_id self d)"

lemma undelegations_wf_empty: "undelegations_wf Undelegations_empty"
  by (simp add: undelegations_wf_def Undelegations_empty_def GetUndelegation_def)

lemma undelegations_wfD:
  assumes "undelegations_wf self"
  shows "UndelegationExists self d v i \<longleftrightarrow> GetUndelegation self d v i \<noteq> None"
    and "GetUndelegation self d v i = Some u \<Longrightarrow> 0 \<le> Amount u \<and> U_Id u = i \<and> i \<le> last_id self d"
  using assms by (auto simp: undelegations_wf_def UndelegationExists_def)

lemma word_Suc_eq_1: "n < 2 ^ 32 - 1 \<Longrightarrow> (word_of_nat (Suc n) :: u32) = 1 \<longleftrightarrow> n = 0"
  using u32_eq_iff [of "Suc n" 1] by simp

lemma CreateUndelegation_wf:
  assumes wf: "undelegations_wf self" and a: "0 \<le> amount"
    and room: "last_id self d \<noteq> - 1" "Suc (length (undelegations_ids self (d, v))) < 2 ^ 32"
  shows "\<exists>self'. CreateUndelegation self d v block amount = Some (last_id self d + 1, self') \<and>
    undelegations_wf self' \<and> GetUndelegation self d v (last_id self d + 1) = None \<and>
    (\<forall>d' v' i. GetUndelegation self' d' v' i =
      (if d' = d \<and> v' = v \<and> i = last_id self d + 1
       then Some \<lparr>Amount = amount, U_Block = block, U_Id = last_id self d + 1\<rparr>
       else GetUndelegation self d' v' i))"
proof -
  let ?i = "last_id self d + 1" and ?ids = "undelegations_ids self (d, v)"
  let ?vs = "undelegations_validators self d"
  have "1 + last_id self d \<noteq> 0" using room(1) by (metis add_eq_0_iff)
  then have lt: "last_id self d < ?i" using unatSuc [of "last_id self d"]
    by (simp add: word_less_nat_alt add.commute)
  have fresh: "GetUndelegation self d w ?i = None" for w
    using undelegations_wfD(2) [OF wf, of d w ?i] lt by (cases "GetUndelegation self d w ?i") auto
  have nin: "?i \<notin> set ?ids" using wf fresh by (auto simp: undelegations_wf_def)
  define self' where "self' = self\<lparr>last_unique_id := (last_unique_id self)(d \<mapsto> ?i),
    undelegations_field := (undelegations_field self)((d, v, ?i) \<mapsto> \<lparr>Amount = amount, U_Block = block, U_Id = ?i\<rparr>),
    undelegations_ids := (undelegations_ids self)((d, v) := ?ids @ [?i]),
    undelegations_validators := (undelegations_validators self)(d := if ?ids = [] then ?vs @ [v] else ?vs)\<rparr>"
  have vin: "v \<in> set ?vs \<longleftrightarrow> ?ids \<noteq> []" using wf by (auto simp: undelegations_wf_def)
  have one: "(word_of_nat (length ?ids) + 1 :: u32) = 1 \<longleftrightarrow> ?ids = []"
    using word_Suc_eq_1 [of "length ?ids"] room(2) by simp
  have same: "(undelegations_validators self)(d := ?vs) = undelegations_validators self" by simp
  have "CreateUndelegation self d v block amount = Some (?i, self')"
    using a nin vin one
    by (auto simp: CreateUndelegation_def genUniqueId_def Let_def imap_create_def self'_def same
        simp flip: last_id_def)
  moreover have get: "GetUndelegation self' d' v' i =
      (if d' = d \<and> v' = v \<and> i = ?i then Some \<lparr>Amount = amount, U_Block = block, U_Id = ?i\<rparr>
       else GetUndelegation self d' v' i)" for d' v' i
    by (auto simp: self'_def GetUndelegation_def)
  moreover have "undelegations_wf self'"
  proof -
    have "last_id self' d' = (if d' = d then ?i else last_id self d')" for d'
      by (simp add: self'_def last_id_def)
    moreover have "i \<le> last_id self d \<Longrightarrow> i \<le> ?i" for i using lt by simp
    ultimately show ?thesis
      using wf a nin vin room(2)
      unfolding undelegations_wf_def get by (auto simp: self'_def)
  qed
  ultimately show ?thesis using fresh by auto
qed

lemma RemoveUndelegation_wf:
  assumes wf: "undelegations_wf self" and ex: "GetUndelegation self d v i \<noteq> None"
  shows "\<exists>self'. RemoveUndelegation self d v i = Some self' \<and> undelegations_wf self' \<and>
    (\<forall>d' v' i'. GetUndelegation self' d' v' i' =
      (if d' = d \<and> v' = v \<and> i' = i then None else GetUndelegation self d' v' i'))"
proof -
  let ?ids = "undelegations_ids self (d, v)" and ?vs = "undelegations_validators self d"
  have i: "i \<in> set ?ids" "distinct ?ids" "length ?ids < 2 ^ 32" "distinct ?vs"
    using wf ex by (auto simp: undelegations_wf_def)
  have "?ids \<noteq> []" using i(1) by auto
  then have vin: "v \<in> set ?vs" using wf unfolding undelegations_wf_def by blast
  define ids where "ids = remove_item i ?ids"
  have ids: "set ids = set ?ids - {i}" "distinct ids" "length ids = length ?ids - 1"
    using i by (auto simp: ids_def set_remove_item distinct_remove_item)
  have zero: "(word_of_nat (length ?ids - 1) :: u32) = 0 \<longleftrightarrow> ids = []"
    using u32_eq_iff [of "length ?ids - 1" 0] i(3) ids(3) by auto
  define self' where "self' = self\<lparr>
    undelegations_field := (undelegations_field self)((d, v, i) := None),
    undelegations_ids := (undelegations_ids self)((d, v) := ids),
    undelegations_validators := (undelegations_validators self)(d := if ids = [] then remove_item v ?vs else ?vs)\<rparr>"
  have same: "(undelegations_validators self)(d := ?vs) = undelegations_validators self" by simp
  have "RemoveUndelegation self d v i = Some self'"
    using i vin zero
    by (auto simp: RemoveUndelegation_def Let_def imap_remove_def self'_def same simp flip: ids_def)
  moreover have get: "GetUndelegation self' d' v' i' =
      (if d' = d \<and> v' = v \<and> i' = i then None else GetUndelegation self d' v' i')" for d' v' i'
    by (auto simp: self'_def GetUndelegation_def)
  moreover have "undelegations_wf self'"
  proof -
    have last: "last_id self' = last_id self" by (auto simp: self'_def last_id_def)
    have "x \<in> set ids \<longleftrightarrow> x \<noteq> i \<and> GetUndelegation self d v x \<noteq> None" for x
      using wf ids(1) by (auto simp: undelegations_wf_def)
    then have 1: "\<forall>d' v' x. x \<in> set (undelegations_ids self' (d', v')) \<longleftrightarrow> GetUndelegation self' d' v' x \<noteq> None"
      using wf unfolding get by (auto simp: self'_def undelegations_wf_def)
    have 2: "\<forall>d' v'. v' \<in> set (undelegations_validators self' d') \<longleftrightarrow> undelegations_ids self' (d', v') \<noteq> []"
      using wf i(4) vin by (auto simp: self'_def undelegations_wf_def set_remove_item)
    have "length ids < 2 ^ 32" using ids(3) i(3) by simp
    then have 3: "\<forall>d' v'. distinct (undelegations_ids self' (d', v')) \<and> length (undelegations_ids self' (d', v')) < 2 ^ 32"
      using wf ids(2) by (auto simp: self'_def undelegations_wf_def)
    have 4: "\<forall>d'. distinct (undelegations_validators self' d')"
      using wf i(4) vin by (auto simp: self'_def undelegations_wf_def distinct_remove_item)
    have 5: "\<forall>d' v' x u. GetUndelegation self' d' v' x = Some u \<longrightarrow> 0 \<le> Amount u \<and> U_Id u = x \<and> x \<le> last_id self' d'"
      using wf unfolding get last by (auto simp: undelegations_wf_def)
    from 1 2 3 4 5 show ?thesis by (simp add: undelegations_wf_def)
  qed
  ultimately show ?thesis by blast
qed

end
