(* ===== verification/Dpos_State.thy ===== *)
theory Dpos_State
  imports Evm_Types Yield_Curve Validators_Store Delegations_Store Undelegations_Store
begin

text \<open>
  The state of the DPoS contract (\<open>dpos/precompiled/dpos_contract.go\<close>): its storage fields, the
  fields of the \<open>Contract\<close> object, the part of the EVM state it touches (balances, nonces, logs)
  and the accessors of the storage fields. The storage fields are typed; \<open>Storage_Layout\<close> shows
  that their keys do not collide.
\<close>

section \<open>Errors and logs\<close>

datatype dpos_error =
    ErrInsufficientBalance | ErrNonExistentValidator | ErrNonExistentDelegation
  | ErrExistentDelegation | ErrExistentUndelegation | ErrNonExistentUndelegation
  | ErrLockedUndelegation | ErrExistentValidator | ErrSameValidator | ErrInvalidRedelegation
  | ErrBrokenState | ErrValidatorsMaxStakeExceeded | ErrInsufficientDelegation | ErrWrongProof
  | ErrWrongOwnerAcc | ErrWrongVrfKey | ErrForbiddenCommissionChange | ErrCommissionBelowMinimum
  | ErrCommissionOverflow | ErrMaxEndpointLengthExceeded | ErrMaxDescriptionLengthExceeded
  | ErrMethodNotSupported | ErrNonPayableMethod
  | ErrCrypto
  | ErrAbi
  | ErrDataTooShort nat
  | ErrForValidator dpos_error address

definition dpos_contract_address :: address where
  "dpos_contract_address = 0xFE"

definition MakeDelegatedLog :: "address \<Rightarrow> address \<Rightarrow> int \<Rightarrow> LogRecord" where
  "MakeDelegatedLog delegator validator amount =
     \<lparr>L_Address = dpos_contract_address, L_Event = ''Delegated'',
      L_Topics = [TAddress delegator, TAddress validator], L_Data = DUint256 amount\<rparr>"

definition MakeUndelegatedLog :: "address \<Rightarrow> address \<Rightarrow> u64 \<Rightarrow> int \<Rightarrow> LogRecord" where
  "MakeUndelegatedLog delegator validator undelegation_id amount =
     \<lparr>L_Address = dpos_contract_address, L_Event = ''Undelegated'',
      L_Topics = [TAddress delegator, TAddress validator, TUint64 undelegation_id], L_Data = DUint256 amount\<rparr>"

definition MakeUndelegateConfirmedLog :: "address \<Rightarrow> address \<Rightarrow> u64 \<Rightarrow> int \<Rightarrow> LogRecord" where
  "MakeUndelegateConfirmedLog delegator validator undelegation_id amount =
     \<lparr>L_Address = dpos_contract_address, L_Event = ''UndelegateConfirmed'',
      L_Topics = [TAddress delegator, TAddress validator, TUint64 undelegation_id], L_Data = DUint256 amount\<rparr>"

definition MakeUndelegateCanceledLog :: "address \<Rightarrow> address \<Rightarrow> u64 \<Rightarrow> int \<Rightarrow> LogRecord" where
  "MakeUndelegateCanceledLog delegator validator undelegation_id amount =
     \<lparr>L_Address = dpos_contract_address, L_Event = ''UndelegateCanceled'',
      L_Topics = [TAddress delegator, TAddress validator, TUint64 undelegation_id], L_Data = DUint256 amount\<rparr>"

definition MakeRedelegatedLog :: "address \<Rightarrow> address \<Rightarrow> address \<Rightarrow> int \<Rightarrow> LogRecord" where
  "MakeRedelegatedLog delegator from to amount =
     \<lparr>L_Address = dpos_contract_address, L_Event = ''Redelegated'',
      L_Topics = [TAddress delegator, TAddress from, TAddress to], L_Data = DUint256 amount\<rparr>"

definition MakeRewardsClaimedLog :: "address \<Rightarrow> address \<Rightarrow> int \<Rightarrow> LogRecord" where
  "MakeRewardsClaimedLog account validator amount =
     \<lparr>L_Address = dpos_contract_address, L_Event = ''RewardsClaimed'',
      L_Topics = [TAddress account, TAddress validator], L_Data = DUint256 amount\<rparr>"

definition MakeCommissionRewardsClaimedLog :: "address \<Rightarrow> address \<Rightarrow> int \<Rightarrow> LogRecord" where
  "MakeCommissionRewardsClaimedLog account validator amount =
     \<lparr>L_Address = dpos_contract_address, L_Event = ''CommissionRewardsClaimed'',
      L_Topics = [TAddress account, TAddress validator], L_Data = DUint256 amount\<rparr>"

definition MakeCommissionSetLog :: "address \<Rightarrow> u16 \<Rightarrow> LogRecord" where
  "MakeCommissionSetLog account amount =
     \<lparr>L_Address = dpos_contract_address, L_Event = ''CommissionSet'',
      L_Topics = [TAddress account], L_Data = DUint16 amount\<rparr>"

definition MakeValidatorRegisteredLog :: "address \<Rightarrow> LogRecord" where
  "MakeValidatorRegisteredLog account =
     \<lparr>L_Address = dpos_contract_address, L_Event = ''ValidatorRegistered'',
      L_Topics = [TAddress account], L_Data = NoData\<rparr>"

definition MakeValidatorInfoSetLog :: "address \<Rightarrow> LogRecord" where
  "MakeValidatorInfoSetLog account =
     \<lparr>L_Address = dpos_contract_address, L_Event = ''ValidatorInfoSet'',
      L_Topics = [TAddress account], L_Data = NoData\<rparr>"

definition MakeInactivityPenaltyLog :: "address \<Rightarrow> u64 \<Rightarrow> LogRecord" where
  "MakeInactivityPenaltyLog validator new_factor =
     \<lparr>L_Address = dpos_contract_address, L_Event = ''InactivityPenalty'',
      L_Topics = [TAddress validator], L_Data = DUint64 new_factor\<rparr>"

definition MakeValidatorEvictedLog :: "address \<Rightarrow> LogRecord" where
  "MakeValidatorEvictedLog validator =
     \<lparr>L_Address = dpos_contract_address, L_Event = ''ValidatorEvicted'',
      L_Topics = [TAddress validator], L_Data = NoData\<rparr>"

definition MakeVotingPowerRecoveredLog :: "address \<Rightarrow> LogRecord" where
  "MakeVotingPowerRecoveredLog validator =
     \<lparr>L_Address = dpos_contract_address, L_Event = ''VotingPowerRecovered'',
      L_Topics = [TAddress validator], L_Data = NoData\<rparr>"

section \<open>Constants\<close>

definition BasisPointsScale :: u64 where "BasisPointsScale = 10000"
definition InactivityEpochBlocks :: u64 where "InactivityEpochBlocks = 10000"
definition MaxEndpointLength :: nat where "MaxEndpointLength = 50"
definition MaxDescriptionLength :: nat where "MaxDescriptionLength = 100"
definition MaxCommission :: u64 where "MaxCommission = BasisPointsScale"
definition MinimumCommission :: u16 where "MinimumCommission = 1000"
definition VrfKeyLength :: nat where "VrfKeyLength = 32"
definition GetValidatorsMaxCount :: u32 where "GetValidatorsMaxCount = 20"
definition GetDelegationsMaxCount :: u32 where "GetDelegationsMaxCount = 20"
definition GetUndelegationsMaxCount :: u32 where "GetUndelegationsMaxCount = 20"
definition MaxEvictionsPerBlock :: u32 where "MaxEvictionsPerBlock = 1000"

section \<open>Storage and contract\<close>

record State =
  RewardsPer1Stake :: int
  Count :: u32

record dpos_storage =
  validators :: Validators
  delegations :: Delegations
  undelegations :: Undelegations
  field_state :: "address \<times> blocknum \<rightharpoonup> State"
  field_eligible_vote_count :: "u64 option"
  field_amount_delegated :: "u256 option"
  field_minted_tokens :: "u256 option"
  field_total_supply :: "u256 option"
  field_yield :: "u64 option"
  field_voting_power_factor :: "address \<rightharpoonup> u64"
  field_last_active_block :: "address \<rightharpoonup> u64"
  field_eviction_cursor :: "address \<rightharpoonup> u32"
  field_last_processed_epoch_block :: "u64 option"

record Contract = dpos_storage +
  cfg :: ChainConfig
  yield_curve :: YieldCurve
  eligible_vote_count_orig :: u64
  eligible_vote_count :: u64
  amount_delegated_orig :: u256
  amount_delegated :: u256
  blocks_per_year :: u256
  dag_proposers_reward :: u256
  max_block_author_reward :: u256
  minted_tokens :: u256
  total_supply :: "u256 option"
  lazy_init_done :: bool
  evm_block :: blocknum
  balances :: "address \<Rightarrow> int"
  nonces :: "address \<Rightarrow> nat"
  evm_logs :: "LogRecord list"

type_synonym 'a res = "((dpos_error + 'a) \<times> Contract) option"

definition AddLog :: "LogRecord \<Rightarrow> Contract \<Rightarrow> Contract" where
  "AddLog l self = self\<lparr>evm_logs := evm_logs self @ [l]\<rparr>"

definition AddBalance :: "address \<Rightarrow> int \<Rightarrow> Contract \<Rightarrow> Contract" where
  "AddBalance a b self = self\<lparr>balances := (balances self)(a := balances self a + b)\<rparr>"

text \<open>\<open>EVMStateStorage.SubBalance\<close> leaves the balance alone when it is too small.\<close>

definition SubBalance :: "address \<Rightarrow> int \<Rightarrow> Contract \<Rightarrow> bool \<times> Contract" where
  "SubBalance a b self =
     (if b \<le> balances self a then (True, self\<lparr>balances := (balances self)(a := balances self a - b)\<rparr>)
      else (False, self))"

text \<open>A zero \<open>uint256\<close> has no bytes, and writing no bytes removes the slot.\<close>

definition put_u256 :: "u256 \<Rightarrow> u256 option" where
  "put_u256 v = (if v = 0 then None else Some v)"

section \<open>Accessors\<close>

definition getVotingPowerFactor :: "'a dpos_storage_scheme \<Rightarrow> address \<Rightarrow> u64" where
  "getVotingPowerFactor self validator =
     (let stored = (case field_voting_power_factor self validator of None \<Rightarrow> 0 | Some s \<Rightarrow> s)
      in if stored = 0 then BasisPointsScale else stored - 1)"

definition setVotingPowerFactor :: "address \<Rightarrow> u64 \<Rightarrow> Contract \<Rightarrow> Contract" where
  "setVotingPowerFactor validator factor self =
     self\<lparr>field_voting_power_factor := (field_voting_power_factor self)(validator \<mapsto> factor + 1)\<rparr>"

definition clearVotingPowerFactor :: "address \<Rightarrow> Contract \<Rightarrow> Contract" where
  "clearVotingPowerFactor validator self =
     self\<lparr>field_voting_power_factor := (field_voting_power_factor self)(validator := None)\<rparr>"

definition getLastActiveBlock :: "Contract \<Rightarrow> address \<Rightarrow> u64" where
  "getLastActiveBlock self validator =
     (case field_last_active_block self validator of None \<Rightarrow> 0 | Some b \<Rightarrow> b)"

definition setLastActiveBlock :: "address \<Rightarrow> u64 \<Rightarrow> Contract \<Rightarrow> Contract" where
  "setLastActiveBlock validator block self =
     self\<lparr>field_last_active_block := (field_last_active_block self)(validator \<mapsto> block)\<rparr>"

definition clearLastActiveBlock :: "address \<Rightarrow> Contract \<Rightarrow> Contract" where
  "clearLastActiveBlock validator self =
     self\<lparr>field_last_active_block := (field_last_active_block self)(validator := None)\<rparr>"

definition getLastProcessedEpochBlock :: "Contract \<Rightarrow> u64" where
  "getLastProcessedEpochBlock self =
     (case field_last_processed_epoch_block self of None \<Rightarrow> 0 | Some b \<Rightarrow> b)"

definition setLastProcessedEpochBlock :: "u64 \<Rightarrow> Contract \<Rightarrow> Contract" where
  "setLastProcessedEpochBlock block self = self\<lparr>field_last_processed_epoch_block := Some block\<rparr>"

definition getEvictionCursor :: "Contract \<Rightarrow> address \<Rightarrow> bool \<times> u32" where
  "getEvictionCursor self validator =
     (case field_eviction_cursor self validator of None \<Rightarrow> (False, 0) | Some c \<Rightarrow> (True, c))"

definition setEvictionCursor :: "address \<Rightarrow> u32 \<Rightarrow> Contract \<Rightarrow> Contract" where
  "setEvictionCursor validator cursor self =
     self\<lparr>field_eviction_cursor := (field_eviction_cursor self)(validator \<mapsto> cursor)\<rparr>"

definition clearEvictionCursor :: "address \<Rightarrow> Contract \<Rightarrow> Contract" where
  "clearEvictionCursor validator self =
     self\<lparr>field_eviction_cursor := (field_eviction_cursor self)(validator := None)\<rparr>"

definition state_get :: "Contract \<Rightarrow> address \<Rightarrow> blocknum \<Rightarrow> State option" where
  "state_get self validator_addr block = field_state self (validator_addr, block)"

definition state_put :: "address \<times> blocknum \<Rightarrow> State option \<Rightarrow> Contract \<Rightarrow> Contract option" where
  "state_put key state self =
     (case state of
        Some st \<Rightarrow> do {
          assertm (0 \<le> RewardsPer1Stake st);
          Some (self\<lparr>field_state := (field_state self)(key \<mapsto> st)\<rparr>) }
      | None \<Rightarrow> Some (self\<lparr>field_state := (field_state self)(key := None)\<rparr>))"

definition state_get_and_decrement :: "Contract \<Rightarrow> address \<Rightarrow> blocknum \<Rightarrow> (State \<times> Contract) option" where
  "state_get_and_decrement self validator_addr block = do {
     state \<leftarrow> field_state self (validator_addr, block);
     let state = state\<lparr>Count := Count state - 1\<rparr>;
     self \<leftarrow> (if Count state = 0 then state_put (validator_addr, block) None self
             else state_put (validator_addr, block) (Some state) self);
     Some (state, self)
   }"

definition saveTotalSupplyDb :: "Contract \<Rightarrow> Contract option" where
  "saveTotalSupplyDb self = do {
     t \<leftarrow> total_supply self;
     Some (self\<lparr>field_total_supply := put_u256 t\<rparr>)
   }"

definition saveMintedTokensDb :: "Contract \<Rightarrow> Contract" where
  "saveMintedTokensDb self = self\<lparr>field_minted_tokens := put_u256 (minted_tokens self)\<rparr>"

definition eraseMintedTokensDb :: "Contract \<Rightarrow> Contract" where
  "eraseMintedTokensDb self = self\<lparr>field_minted_tokens := None\<rparr>"

definition saveYieldDb :: "u64 \<Rightarrow> Contract \<Rightarrow> Contract" where
  "saveYieldDb yield self = self\<lparr>field_yield := Some yield\<rparr>"

section \<open>Arithmetic helpers\<close>

text \<open>
  \<open>Uint64\<close> of a \<open>big.Int\<close> is the low 64 bits of its absolute value; \<open>int64(factor)\<close> reads the
  bits as signed.
\<close>

definition big_Uint64 :: "int \<Rightarrow> u64" where
  "big_Uint64 x = word_of_int \<bar>x\<bar>"

definition voteCountWithFactor :: "int \<Rightarrow> ChainConfig \<Rightarrow> blocknum \<Rightarrow> u64 \<Rightarrow> u64 option" where
  "voteCountWithFactor staking_balance conf block factor =
     (if factor = 0 then Some 0
      else do {
        effective_balance \<leftarrow> big_Div (staking_balance * sint factor) (sint BasisPointsScale);
        if effective_balance \<ge> EligibilityBalanceThreshold (DPOS conf) then do {
          votes \<leftarrow> big_Div effective_balance (VoteEligibilityBalanceStep (DPOS conf));
          Some (big_Uint64 votes)
        } else Some 0
      })"

definition add64p :: "u64 \<Rightarrow> u64 \<Rightarrow> u64 option" where
  "add64p a b = (let c = a + b in if c < a \<or> c < b then None else Some c)"

definition getDelta :: "u16 \<Rightarrow> u16 \<Rightarrow> u16" where
  "getDelta x y = (if x < y then y - x else x - y)"

definition Max64 :: "u64 \<Rightarrow> u64 \<Rightarrow> u64" where
  "Max64 x y = (if x < y then y else x)"

definition calculateRewardPer1Stake :: "Contract \<Rightarrow> int \<Rightarrow> int \<Rightarrow> int option" where
  "calculateRewardPer1Stake self rewardsPool stake =
     big_Div (rewardsPool * ValidatorMaximumStake (DPOS (cfg self))) stake"

definition calculateDelegatorReward :: "Contract \<Rightarrow> int \<Rightarrow> int \<Rightarrow> int option" where
  "calculateDelegatorReward self rewardPer1Stake stake =
     big_Div (rewardPer1Stake * stake) (ValidatorMaximumStake (DPOS (cfg self)))"

definition transferContractBalance :: "CallFrame \<Rightarrow> int \<Rightarrow> Contract \<Rightarrow> Contract option" where
  "transferContractBalance ctx balance self = do {
     assertm (\<not> balances self (Account ctx) < balance);
     let self = self\<lparr>balances := (balances self)(Account ctx := balances self (Account ctx) - balance)\<rparr>;
     Some (AddBalance (CallerAccount ctx) balance self)
   }"

text \<open>
  The update of the eligible votes after a change of one validator's count, which every handler
  repeats.
\<close>

definition update_vote_count :: "u64 \<Rightarrow> u64 \<Rightarrow> Contract \<Rightarrow> Contract option" where
  "update_vote_count prev_vote_count new_vote_count self =
     (if prev_vote_count \<noteq> new_vote_count then do {
        c \<leftarrow> add64p (eligible_vote_count self - prev_vote_count) new_vote_count;
        Some (self\<lparr>eligible_vote_count := c\<rparr>)
      } else Some self)"

section \<open>Facts about the helpers\<close>

lemma unat_u64_less: "unat (x :: u64) < 2 ^ 64"
  using unsigned_less [of x, where ?'a = nat] by simp

lemma add64p_Some: "add64p a b = Some c \<longleftrightarrow> unat a + unat b < 2 ^ 64 \<and> c = a + b"
proof -
  have "a + b < a \<or> a + b < b \<longleftrightarrow> \<not> unat a + unat b < 2 ^ 64"
  proof (cases "unat a + unat b < 2 ^ 64")
    case True
    then have "unat (a + b) = unat a + unat b" by (simp add: unat_word_ariths)
    with True show ?thesis by (simp add: word_less_nat_alt)
  next
    case False
    have "unat (a + b) = (unat a + unat b) mod 2 ^ 64" by (simp add: unat_word_ariths)
    also have "\<dots> = unat a + unat b - 2 ^ 64"
      using False unat_u64_less [of a] unat_u64_less [of b] by (subst le_mod_geq) simp_all
    finally show ?thesis using False unat_u64_less [of b] unfolding word_less_nat_alt by linarith
  qed
  then show ?thesis by (auto simp: add64p_def Let_def)
qed

lemma unat_getDelta: "unat (getDelta x y) = (if unat x < unat y then unat y - unat x else unat x - unat y)"
proof (cases "x < y")
  case True
  then have "unat (y - x) = unat y - unat x" by (intro unat_sub) simp
  with True show ?thesis by (simp add: getDelta_def word_less_nat_alt)
next
  case False
  then have "unat (x - y) = unat x - unat y" by (intro unat_sub) simp
  with False show ?thesis by (simp add: getDelta_def word_less_nat_alt)
qed

lemma Max64_max: "unat (Max64 x y) = max (unat x) (unat y)"
  by (auto simp: Max64_def word_less_nat_alt max_def)

lemma getVotingPowerFactor_set:
  "factor \<noteq> - 1 \<Longrightarrow> getVotingPowerFactor (setVotingPowerFactor v factor self) v' =
    (if v' = v then factor else getVotingPowerFactor self v')"
  by (auto simp: getVotingPowerFactor_def setVotingPowerFactor_def Let_def eq_neg_iff_add_eq_0)

lemma getVotingPowerFactor_clear:
  "getVotingPowerFactor (clearVotingPowerFactor v self) v' =
    (if v' = v then BasisPointsScale else getVotingPowerFactor self v')"
  by (auto simp: getVotingPowerFactor_def clearVotingPowerFactor_def Let_def)

end
