(* ===== verification/Dpos_Contract.thy ===== *)
theory Dpos_Contract
  imports Dpos_State
begin

text \<open>
  The operations of the DPoS contract (\<open>dpos/precompiled/dpos_contract.go\<close>): initialization,
  the handlers of the state-changing methods, and genesis. A handler returns the Go error or
  result together with the contract, because storage writes made before an error stay; \<^const>\<open>None\<close>
  is a panic.
\<close>

section \<open>Arguments\<close>

record UndelegateArgs =
  UA_Validator :: address
  UA_Amount :: int

record RedelegateArgs =
  ValidatorFrom :: address
  ValidatorTo :: address
  RA_Amount :: int

record RegisterValidatorArgs =
  RV_Validator :: address
  RV_Proof :: bytes
  RV_VrfKey :: bytes
  RV_Commission :: u16
  RV_Description :: string
  RV_Endpoint :: string

record SetValidatorInfoArgs =
  SI_Validator :: address
  SI_Description :: string
  SI_Endpoint :: string

record SetCommissionArgs =
  SC_Validator :: address
  SC_Commission :: u16

section \<open>Initialization and end of block\<close>

definition lazy_init :: "Contract \<Rightarrow> Contract option" where
  "lazy_init self =
     (if lazy_init_done self then Some self
      else do {
        yc \<leftarrow> YieldCurve_Init (cfg self);
        let self = self\<lparr>yield_curve := yc\<rparr>;
        let self = self\<lparr>blocks_per_year := ucast (BlocksPerYear (DPOS (cfg self)))\<rparr>;
        let self = self\<lparr>dag_proposers_reward := ucast (DagProposersReward (DPOS (cfg self)))\<rparr>;
        let self = self\<lparr>max_block_author_reward := ucast (MaxBlockAuthorReward (DPOS (cfg self)))\<rparr>;
        let self = (case field_eligible_vote_count self of
                      None \<Rightarrow> self
                    | Some c \<Rightarrow> self\<lparr>eligible_vote_count_orig := c\<rparr>);
        let self = self\<lparr>eligible_vote_count := eligible_vote_count_orig self\<rparr>;
        let self = self\<lparr>amount_delegated_orig :=
                      (case field_amount_delegated self of None \<Rightarrow> 0 | Some a \<Rightarrow> a)\<rparr>;
        let self = self\<lparr>amount_delegated := amount_delegated_orig self\<rparr>;
        let self = (case field_total_supply self of
                      None \<Rightarrow> self
                    | Some t \<Rightarrow> self\<lparr>total_supply := Some t\<rparr>);
        let self = self\<lparr>minted_tokens := 0\<rparr>;
        let self = (if total_supply self = None then
                      (case field_minted_tokens self of
                         None \<Rightarrow> self
                       | Some m \<Rightarrow> self\<lparr>minted_tokens := m\<rparr>)
                    else self);
        Some (self\<lparr>lazy_init_done := True\<rparr>)
      })"

definition EndBlockCall :: "Contract \<Rightarrow> blocknum \<Rightarrow> Contract" where
  "EndBlockCall self block_num =
     (if \<not> lazy_init_done self then self
      else
        let self =
          (if eligible_vote_count_orig self \<noteq> eligible_vote_count self then
             self\<lparr>field_eligible_vote_count := Some (eligible_vote_count self),
                  eligible_vote_count_orig := eligible_vote_count self\<rparr>
           else self)
        in if amount_delegated_orig self \<noteq> amount_delegated self then
             self\<lparr>field_amount_delegated := put_u256 (amount_delegated self),
                  amount_delegated_orig := amount_delegated self\<rparr>
           else self)"

section \<open>Rewards of delegators\<close>

text \<open>
  The block that delegate, undelegate, cancelUndelegate, redelegate and claimRewards share: take
  the state of the current block, or make it from the state the validator points to and the
  rewards that came in since.
\<close>

definition current_state ::
    "Contract \<Rightarrow> address \<Rightarrow> blocknum \<Rightarrow> Validator \<Rightarrow> ValidatorRewards
      \<Rightarrow> (State \<times> Validator \<times> ValidatorRewards \<times> Contract) option" where
  "current_state self validator_addr block validator validator_rewards =
     (case state_get self validator_addr block of
        Some state \<Rightarrow> Some (state, validator, validator_rewards, self)
      | None \<Rightarrow> do {
          (old_state, self) \<leftarrow> state_get_and_decrement self validator_addr (V_LastUpdated validator);
          rewards_per_1_stake \<leftarrow>
            (if TotalStake validator > 0 then do {
               r \<leftarrow> calculateRewardPer1Stake self (RewardsPool validator_rewards) (TotalStake validator);
               Some (RewardsPer1Stake old_state + r)
             } else Some (RewardsPer1Stake old_state));
          Some (\<lparr>RewardsPer1Stake = rewards_per_1_stake, Count = 1\<rparr>,
                validator\<lparr>V_LastUpdated := block\<rparr>,
                validator_rewards\<lparr>RewardsPool := 0\<rparr>, self)
        })"

text \<open>\<open>We need to claim rewards first\<close>: pay the rewards of a delegation up to \<open>state\<close>.\<close>

definition settle_delegation ::
    "Contract \<Rightarrow> CallFrame \<Rightarrow> address \<Rightarrow> State \<Rightarrow> Delegation \<Rightarrow> Contract option" where
  "settle_delegation self ctx validator_addr state delegation = do {
     (old_state, self) \<leftarrow> state_get_and_decrement self validator_addr (D_LastUpdated delegation);
     let reward_per_stake = RewardsPer1Stake state - RewardsPer1Stake old_state;
     reward \<leftarrow> calculateDelegatorReward self reward_per_stake (Stake delegation);
     if reward > 0 then do {
       self \<leftarrow> transferContractBalance ctx reward self;
       Some (AddLog (MakeRewardsClaimedLog (CallerAccount ctx) validator_addr reward) self)
     } else Some self
   }"

text \<open>
  Three more blocks that the handlers share: adding to a delegation (or creating it), taking from
  a delegation (or removing it), and writing back the state, the validator and its rewards. The
  state of the block counts one reference more when the delegation stays.
\<close>

definition increase_delegation ::
    "Contract \<Rightarrow> CallFrame \<Rightarrow> address \<Rightarrow> blocknum \<Rightarrow> State \<Rightarrow> int \<Rightarrow> Contract option" where
  "increase_delegation self ctx validator_addr block state amount =
     (case GetDelegation (delegations self) (CallerAccount ctx) validator_addr of
        None \<Rightarrow> do {
          ds \<leftarrow> CreateDelegation (delegations self) (CallerAccount ctx) validator_addr block amount;
          Some (self\<lparr>delegations := ds\<rparr>)
        }
      | Some delegation \<Rightarrow> do {
          self \<leftarrow> settle_delegation self ctx validator_addr state delegation;
          let delegation = delegation\<lparr>Stake := Stake delegation + amount, D_LastUpdated := block\<rparr>;
          ds \<leftarrow> ModifyDelegation (delegations self) (CallerAccount ctx) validator_addr delegation;
          Some (self\<lparr>delegations := ds\<rparr>)
        })"

definition decrease_delegation ::
    "Contract \<Rightarrow> CallFrame \<Rightarrow> address \<Rightarrow> blocknum \<Rightarrow> State \<Rightarrow> Delegation \<Rightarrow> int \<Rightarrow> (State \<times> Contract) option" where
  "decrease_delegation self ctx validator_addr block state delegation amount = do {
     self \<leftarrow> settle_delegation self ctx validator_addr state delegation;
     let delegation = delegation\<lparr>Stake := Stake delegation - amount\<rparr>;
     if Stake delegation = 0 then do {
       ds \<leftarrow> RemoveDelegation (delegations self) (CallerAccount ctx) validator_addr;
       Some (state, self\<lparr>delegations := ds\<rparr>)
     } else do {
       let delegation = delegation\<lparr>D_LastUpdated := block\<rparr>;
       let state = state\<lparr>Count := Count state + 1\<rparr>;
       ds \<leftarrow> ModifyDelegation (delegations self) (CallerAccount ctx) validator_addr delegation;
       Some (state, self\<lparr>delegations := ds\<rparr>)
     }
   }"

definition store_validator ::
    "address \<Rightarrow> blocknum \<Rightarrow> State \<Rightarrow> Validator \<Rightarrow> ValidatorRewards \<Rightarrow> Contract \<Rightarrow> Contract option" where
  "store_validator validator_addr block state validator validator_rewards self = do {
     self \<leftarrow> state_put (validator_addr, block) (Some state) self;
     vs \<leftarrow> ModifyValidator (validators self) validator_addr validator;
     vs \<leftarrow> ModifyValidatorRewards vs validator_addr validator_rewards;
     Some (self\<lparr>validators := vs\<rparr>)
   }"

section \<open>Delegation\<close>

definition delegate_update_values ::
    "Contract \<Rightarrow> CallFrame \<Rightarrow> Validator \<Rightarrow> u64 \<Rightarrow> u64 \<Rightarrow> (Validator \<times> Contract) option" where
  "delegate_update_values self ctx validator prev_vote_count factor = do {
     let validator = validator\<lparr>TotalStake := TotalStake validator + Value ctx\<rparr>;
     let v = fst (FromBig (Value ctx));
     let self = self\<lparr>amount_delegated := amount_delegated self + v\<rparr>;
     new_vote_count \<leftarrow> voteCountWithFactor (TotalStake validator) (cfg self) (evm_block self) factor;
     self \<leftarrow> update_vote_count prev_vote_count new_vote_count self;
     Some (validator, self)
   }"

definition delegate :: "Contract \<Rightarrow> CallFrame \<Rightarrow> blocknum \<Rightarrow> address \<Rightarrow> unit res" where
  "delegate self ctx block args_Validator =
     (case GetValidator (validators self) args_Validator of
        None \<Rightarrow> Some (Inl ErrNonExistentValidator, self)
      | Some validator \<Rightarrow>
          if ValidatorMaximumStake (DPOS (cfg self)) < Value ctx + TotalStake validator then
            Some (Inl ErrValidatorsMaxStakeExceeded, self)
          else
            if GetDelegation (delegations self) (CallerAccount ctx) args_Validator = None \<and> MinimumDeposit (DPOS (cfg self)) > Value ctx then
              Some (Inl ErrInsufficientDelegation, self)
            else do {
              validator_rewards \<leftarrow> GetValidatorRewards (validators self) args_Validator;
              (state, validator, validator_rewards, self) \<leftarrow>
                current_state self args_Validator block validator validator_rewards;
              let factor = getVotingPowerFactor self args_Validator;
              prev_vote_count \<leftarrow> voteCountWithFactor (TotalStake validator) (cfg self) block factor;
              self \<leftarrow> increase_delegation self ctx args_Validator block state (Value ctx);
              (validator, self) \<leftarrow> delegate_update_values self ctx validator prev_vote_count factor;
              let state = state\<lparr>Count := Count state + 1\<rparr>;
              self \<leftarrow> store_validator args_Validator block state validator validator_rewards self;
              Some (Inr (), AddLog (MakeDelegatedLog (CallerAccount ctx) args_Validator (Value ctx)) self)
            })"

section \<open>Undelegation\<close>

definition undelegate :: "Contract \<Rightarrow> CallFrame \<Rightarrow> blocknum \<Rightarrow> UndelegateArgs \<Rightarrow> u64 res" where
  "undelegate self ctx block args =
     (let validator_addr = UA_Validator args; amount = UA_Amount args in
      case GetValidator (validators self) validator_addr of
        None \<Rightarrow> Some (Inl ErrNonExistentValidator, self)
      | Some validator \<Rightarrow>
      case GetDelegation (delegations self) (CallerAccount ctx) validator_addr of
        None \<Rightarrow> Some (Inl ErrNonExistentDelegation, self)
      | Some delegation \<Rightarrow>
          if Stake delegation < amount then Some (Inl ErrInsufficientDelegation, self)
          else if Stake delegation \<noteq> amount \<and> MinimumDeposit (DPOS (cfg self)) > Stake delegation - amount then
            Some (Inl ErrInsufficientDelegation, self)
          else do {
            validator_rewards \<leftarrow> GetValidatorRewards (validators self) validator_addr;
            let factor = getVotingPowerFactor self validator_addr;
            prev_vote_count \<leftarrow> voteCountWithFactor (TotalStake validator) (cfg self) block factor;
            (state, validator, validator_rewards, self) \<leftarrow>
              current_state self validator_addr block validator validator_rewards;
            (state, self) \<leftarrow> decrease_delegation self ctx validator_addr block state delegation amount;
            let validator = validator\<lparr>TotalStake := TotalStake validator - amount,
                                      UndelegationsCount := UndelegationsCount validator + 1\<rparr>;
            let a = fst (FromBig amount);
            let self = self\<lparr>amount_delegated := amount_delegated self - a\<rparr>;
            new_vote_count \<leftarrow> voteCountWithFactor (TotalStake validator) (cfg self) block factor;
            self \<leftarrow> update_vote_count prev_vote_count new_vote_count self;
            self \<leftarrow> store_validator validator_addr block state validator validator_rewards self;
            let delegationLockingPeriod = (ucast (DelegationLockingPeriod (DPOS (cfg self))) :: u64);
            (undelegation_id, us) \<leftarrow> CreateUndelegation (undelegations self) (CallerAccount ctx) validator_addr
              (block + delegationLockingPeriod) amount;
            let self = self\<lparr>undelegations := us\<rparr>;
            Some (Inr undelegation_id,
              AddLog (MakeUndelegatedLog (CallerAccount ctx) validator_addr undelegation_id amount) self)
          })"

text \<open>The deletion of a validator and of its inactivity slots, which three handlers share.\<close>

definition delete_validator_slots :: "address \<Rightarrow> Contract \<Rightarrow> Contract option" where
  "delete_validator_slots validator_addr self = do {
     vs \<leftarrow> DeleteValidator (validators self) validator_addr;
     let self = self\<lparr>validators := vs\<rparr>;
     let self = clearVotingPowerFactor validator_addr self;
     let self = clearLastActiveBlock validator_addr self;
     Some (clearEvictionCursor validator_addr self)
   }"

definition confirmUndelegate :: "Contract \<Rightarrow> CallFrame \<Rightarrow> blocknum \<Rightarrow> address \<Rightarrow> u64 \<Rightarrow> unit res" where
  "confirmUndelegate self ctx block validator_addr undelegation_id =
     (if \<not> UndelegationExists (undelegations self) (CallerAccount ctx) validator_addr undelegation_id then
        Some (Inl ErrNonExistentUndelegation, self)
      else do {
        undelegation \<leftarrow> GetUndelegation (undelegations self) (CallerAccount ctx) validator_addr undelegation_id;
        if U_Block undelegation > block then Some (Inl ErrLockedUndelegation, self)
        else do {
          us \<leftarrow> RemoveUndelegation (undelegations self) (CallerAccount ctx) validator_addr undelegation_id;
          let self = self\<lparr>undelegations := us\<rparr>;
          self \<leftarrow> (case GetValidator (validators self) validator_addr of
              None \<Rightarrow> Some self
            | Some validator \<Rightarrow> do {
                let validator = (if UndelegationsCount validator > 0
                  then validator\<lparr>UndelegationsCount := UndelegationsCount validator - 1\<rparr> else validator);
                validator_rewards \<leftarrow> GetValidatorRewards (validators self) validator_addr;
                if UndelegationsCount validator = 0 \<and> TotalStake validator = 0 \<and>
                   CommissionRewardsPool validator_rewards = 0 then do {
                  self \<leftarrow> delete_validator_slots validator_addr self;
                  (_, self) \<leftarrow> state_get_and_decrement self validator_addr (V_LastUpdated validator);
                  Some self
                } else do {
                  vs \<leftarrow> ModifyValidator (validators self) validator_addr validator;
                  Some (self\<lparr>validators := vs\<rparr>)
                }
              });
          self \<leftarrow> transferContractBalance ctx (Amount undelegation) self;
          Some (Inr (), AddLog (MakeUndelegateConfirmedLog (CallerAccount ctx) validator_addr undelegation_id
                          (Amount undelegation)) self)
        }
      })"

definition cancelUndelegate :: "Contract \<Rightarrow> CallFrame \<Rightarrow> blocknum \<Rightarrow> address \<Rightarrow> u64 \<Rightarrow> unit res" where
  "cancelUndelegate self ctx block validator_addr undelegation_id =
     (if \<not> UndelegationExists (undelegations self) (CallerAccount ctx) validator_addr undelegation_id then
        Some (Inl ErrNonExistentUndelegation, self)
      else case GetValidator (validators self) validator_addr of
        None \<Rightarrow> Some (Inl ErrNonExistentValidator, self)
      | Some validator \<Rightarrow> do {
          validator_rewards \<leftarrow> GetValidatorRewards (validators self) validator_addr;
          let factor = getVotingPowerFactor self validator_addr;
          prev_vote_count \<leftarrow> voteCountWithFactor (TotalStake validator) (cfg self) block factor;
          undelegation \<leftarrow> GetUndelegation (undelegations self) (CallerAccount ctx) validator_addr undelegation_id;
          us \<leftarrow> RemoveUndelegation (undelegations self) (CallerAccount ctx) validator_addr undelegation_id;
          let self = self\<lparr>undelegations := us\<rparr>;
          (state, validator, validator_rewards, self) \<leftarrow>
            current_state self validator_addr block validator validator_rewards;
          self \<leftarrow> increase_delegation self ctx validator_addr block state (Amount undelegation);
          if ValidatorMaximumStake (DPOS (cfg self)) < Amount undelegation + TotalStake validator then
            Some (Inl ErrValidatorsMaxStakeExceeded, self)
          else do {
            let validator = validator\<lparr>TotalStake := TotalStake validator + Amount undelegation\<rparr>;
            let validator = (if UndelegationsCount validator > 0
              then validator\<lparr>UndelegationsCount := UndelegationsCount validator - 1\<rparr> else validator);
            let a = fst (FromBig (Amount undelegation));
            let self = self\<lparr>amount_delegated := amount_delegated self + a\<rparr>;
            new_vote_count \<leftarrow> voteCountWithFactor (TotalStake validator) (cfg self) block factor;
            self \<leftarrow> update_vote_count prev_vote_count new_vote_count self;
            let state = state\<lparr>Count := Count state + 1\<rparr>;
            self \<leftarrow> store_validator validator_addr block state validator validator_rewards self;
            Some (Inr (), AddLog (MakeUndelegateCanceledLog (CallerAccount ctx) validator_addr undelegation_id
                            (Amount undelegation)) self)
          }
        })"

section \<open>Redelegation\<close>

text \<open>
  The two halves of \<open>redelegate\<close> after its checks. The validator to delegate to is read before
  the first half, as in the code.
\<close>

definition redelegate_from ::
    "Contract \<Rightarrow> CallFrame \<Rightarrow> blocknum \<Rightarrow> RedelegateArgs \<Rightarrow> Validator \<Rightarrow> ValidatorRewards \<Rightarrow> u64 \<Rightarrow> u64
      \<Rightarrow> Delegation \<Rightarrow> Contract option" where
  "redelegate_from self ctx block args validator_from validator_rewards_from factor_from
      prev_vote_count_from delegation = do {
     (state, validator_from, validator_rewards_from, self) \<leftarrow>
       current_state self (ValidatorFrom args) block validator_from validator_rewards_from;
     (state, self) \<leftarrow> decrease_delegation self ctx (ValidatorFrom args) block state delegation (RA_Amount args);
     let validator_from = validator_from\<lparr>TotalStake := TotalStake validator_from - RA_Amount args\<rparr>;
     self \<leftarrow>
       (if TotalStake validator_from = 0 \<and> CommissionRewardsPool validator_rewards_from = 0 then
          if UndelegationsCount validator_from = 0 then do {
            self \<leftarrow> delete_validator_slots (ValidatorFrom args) self;
            state_put (ValidatorFrom args, block) None self
          } else do {
            vs \<leftarrow> ModifyValidator (validators self) (ValidatorFrom args) validator_from;
            Some (self\<lparr>validators := vs\<rparr>)
          }
        else store_validator (ValidatorFrom args) block state validator_from validator_rewards_from self);
     new_vote_count \<leftarrow> voteCountWithFactor (TotalStake validator_from) (cfg self) block factor_from;
     update_vote_count prev_vote_count_from new_vote_count self
   }"

definition redelegate_to ::
    "Contract \<Rightarrow> CallFrame \<Rightarrow> blocknum \<Rightarrow> RedelegateArgs \<Rightarrow> Validator \<Rightarrow> ValidatorRewards \<Rightarrow> u64 \<Rightarrow> u64
      \<Rightarrow> Contract option" where
  "redelegate_to self ctx block args validator_to validator_rewards_to factor_to prev_vote_count_to = do {
     (state, validator_to, validator_rewards_to, self) \<leftarrow>
       current_state self (ValidatorTo args) block validator_to validator_rewards_to;
     self \<leftarrow> increase_delegation self ctx (ValidatorTo args) block state (RA_Amount args);
     let validator_to = validator_to\<lparr>TotalStake := TotalStake validator_to + RA_Amount args\<rparr>;
     new_vote_count \<leftarrow> voteCountWithFactor (TotalStake validator_to) (cfg self) block factor_to;
     self \<leftarrow> update_vote_count prev_vote_count_to new_vote_count self;
     let state = state\<lparr>Count := Count state + 1\<rparr>;
     self \<leftarrow> store_validator (ValidatorTo args) block state validator_to validator_rewards_to self;
     Some (AddLog (MakeRedelegatedLog (CallerAccount ctx) (ValidatorFrom args) (ValidatorTo args) (RA_Amount args)) self)
   }"

definition redelegate :: "Contract \<Rightarrow> CallFrame \<Rightarrow> blocknum \<Rightarrow> RedelegateArgs \<Rightarrow> unit res" where
  "redelegate self ctx block args =
     (if ValidatorFrom args = ValidatorTo args then Some (Inl ErrSameValidator, self)
      else if RA_Amount args \<le> 0 then Some (Inl ErrInvalidRedelegation, self)
      else case GetValidator (validators self) (ValidatorFrom args) of
        None \<Rightarrow> Some (Inl ErrNonExistentValidator, self)
      | Some validator_from \<Rightarrow>
      case GetValidator (validators self) (ValidatorTo args) of
        None \<Rightarrow> Some (Inl ErrNonExistentValidator, self)
      | Some validator_to \<Rightarrow>
          if ValidatorMaximumStake (DPOS (cfg self)) \<noteq> 0 \<and>
             ValidatorMaximumStake (DPOS (cfg self)) < RA_Amount args + TotalStake validator_to then
            Some (Inl ErrValidatorsMaxStakeExceeded, self)
          else do {
            let factor_from = getVotingPowerFactor self (ValidatorFrom args);
            let factor_to = getVotingPowerFactor self (ValidatorTo args);
            prev_vote_count_from \<leftarrow> voteCountWithFactor (TotalStake validator_from) (cfg self) block factor_from;
            prev_vote_count_to \<leftarrow> voteCountWithFactor (TotalStake validator_to) (cfg self) block factor_to;
            case GetDelegation (delegations self) (CallerAccount ctx) (ValidatorFrom args) of
              None \<Rightarrow> Some (Inl ErrNonExistentDelegation, self)
            | Some delegation \<Rightarrow>
                if Stake delegation < RA_Amount args then Some (Inl ErrInsufficientDelegation, self)
                else if Stake delegation \<noteq> RA_Amount args \<and>
                        MinimumDeposit (DPOS (cfg self)) > Stake delegation - RA_Amount args then
                  Some (Inl ErrInsufficientDelegation, self)
                else do {
                  validator_rewards_from \<leftarrow> GetValidatorRewards (validators self) (ValidatorFrom args);
                  validator_rewards_to \<leftarrow> GetValidatorRewards (validators self) (ValidatorTo args);
                  self \<leftarrow> redelegate_from self ctx block args validator_from validator_rewards_from
                           factor_from prev_vote_count_from delegation;
                  self \<leftarrow> redelegate_to self ctx block args validator_to validator_rewards_to
                           factor_to prev_vote_count_to;
                  Some (Inr (), self)
                }
          })"

section \<open>Claims\<close>

definition claimRewards :: "Contract \<Rightarrow> CallFrame \<Rightarrow> blocknum \<Rightarrow> address \<Rightarrow> unit res" where
  "claimRewards self ctx block args_Validator =
     (case GetDelegation (delegations self) (CallerAccount ctx) args_Validator of
        None \<Rightarrow> Some (Inl ErrNonExistentDelegation, self)
      | Some delegation \<Rightarrow>
          if state_get self args_Validator block = None \<and> GetValidator (validators self) args_Validator = None then
            Some (Inl ErrNonExistentValidator, self)
          else do {
            (state, self) \<leftarrow>
              (case state_get self args_Validator block of
                 Some state \<Rightarrow> Some (state, self)
               | None \<Rightarrow> do {
                   validator \<leftarrow> GetValidator (validators self) args_Validator;
                   validator_rewards \<leftarrow> GetValidatorRewards (validators self) args_Validator;
                   (state, validator, validator_rewards, self) \<leftarrow>
                     current_state self args_Validator block validator validator_rewards;
                   vs \<leftarrow> ModifyValidator (validators self) args_Validator validator;
                   vs \<leftarrow> ModifyValidatorRewards vs args_Validator validator_rewards;
                   Some (state, self\<lparr>validators := vs\<rparr>)
                 });
            self \<leftarrow> settle_delegation self ctx args_Validator state delegation;
            let delegation = delegation\<lparr>D_LastUpdated := block\<rparr>;
            ds \<leftarrow> ModifyDelegation (delegations self) (CallerAccount ctx) args_Validator delegation;
            let self = self\<lparr>delegations := ds\<rparr>;
            let state = state\<lparr>Count := Count state + 1\<rparr>;
            self \<leftarrow> state_put (args_Validator, block) (Some state) self;
            Some (Inr (), self)
          })"

fun claimAllRewards_loop :: "CallFrame \<Rightarrow> blocknum \<Rightarrow> address list \<Rightarrow> Contract \<Rightarrow> unit res" where
  "claimAllRewards_loop ctx block [] self = Some (Inr (), self)"
| "claimAllRewards_loop ctx block (validatorAddress # rest) self = do {
     (tmp_err, self) \<leftarrow> claimRewards self ctx block validatorAddress;
     case tmp_err of
       Inl e \<Rightarrow> Some (Inl (ErrForValidator e validatorAddress), self)
     | Inr _ \<Rightarrow> claimAllRewards_loop ctx block rest self
   }"

definition claimAllRewards :: "Contract \<Rightarrow> CallFrame \<Rightarrow> blocknum \<Rightarrow> unit res" where
  "claimAllRewards self ctx block =
     claimAllRewards_loop ctx block
       (GetAllDelegatorValidatorsAddresses (delegations self) (CallerAccount ctx)) self"

definition claimCommissionRewards :: "Contract \<Rightarrow> CallFrame \<Rightarrow> blocknum \<Rightarrow> address \<Rightarrow> unit res" where
  "claimCommissionRewards self ctx block args_Validator =
     (if \<not> CheckValidatorOwner (validators self) (CallerAccount ctx) args_Validator then
        Some (Inl ErrWrongOwnerAcc, self)
      else case GetValidator (validators self) args_Validator of
        None \<Rightarrow> Some (Inl ErrNonExistentValidator, self)
      | Some validator \<Rightarrow> do {
          validator_rewards \<leftarrow> GetValidatorRewards (validators self) args_Validator;
          self \<leftarrow> transferContractBalance ctx (CommissionRewardsPool validator_rewards) self;
          let self = AddLog (MakeCommissionRewardsClaimedLog (CallerAccount ctx) args_Validator
                               (CommissionRewardsPool validator_rewards)) self;
          let validator_rewards = validator_rewards\<lparr>CommissionRewardsPool := 0\<rparr>;
          self \<leftarrow>
            (if TotalStake validator = 0 \<and> UndelegationsCount validator = 0 then do {
               self \<leftarrow> delete_validator_slots args_Validator self;
               (_, self) \<leftarrow> state_get_and_decrement self args_Validator (V_LastUpdated validator);
               Some self
             } else do {
               vs \<leftarrow> ModifyValidatorRewards (validators self) args_Validator validator_rewards;
               Some (self\<lparr>validators := vs\<rparr>)
             });
          Some (Inr (), self)
        })"

section \<open>Validators\<close>

definition validateProof :: "crypto \<Rightarrow> bytes \<Rightarrow> address \<Rightarrow> (dpos_error + unit) option" where
  "validateProof cr proof validator =
     (if length proof \<noteq> 65 then Some (Inl ErrWrongProof)
      else case Ecrecover cr (keccak256_Hash cr (Address_Bytes validator)) (take 64 proof @ [proof ! 64 - 27]) of
        None \<Rightarrow> Some (Inl ErrCrypto)
      | Some pubKey \<Rightarrow> do {
          assertm (pubKey \<noteq> []);
          if BytesToAddress (drop 12 (keccak256_Hash cr (drop 1 pubKey))) \<noteq> validator
          then Some (Inl ErrWrongProof) else Some (Inr ())
        })"

definition registerValidatorWithoutChecks ::
    "Contract \<Rightarrow> CallFrame \<Rightarrow> blocknum \<Rightarrow> RegisterValidatorArgs \<Rightarrow> unit res" where
  "registerValidatorWithoutChecks self ctx block args =
     (if length (RV_Endpoint args) > MaxEndpointLength then Some (Inl ErrMaxEndpointLengthExceeded, self)
      else if length (RV_Description args) > MaxDescriptionLength then Some (Inl ErrMaxDescriptionLengthExceeded, self)
      else if length (RV_VrfKey args) \<noteq> VrfKeyLength then Some (Inl ErrWrongVrfKey, self)
      else if MaxCommission < ucast (RV_Commission args) then Some (Inl ErrCommissionOverflow, self)
      else if ValidatorExists (validators self) (RV_Validator args) then Some (Inl ErrExistentValidator, self)
      else
        let owner_address = CallerAccount ctx in
        if GetDelegation (delegations self) owner_address (RV_Validator args) \<noteq> None then
          Some (Inl ErrExistentDelegation, self)
        else if state_get self (RV_Validator args) block \<noteq> None then Some (Inl ErrBrokenState, self)
        else if ValidatorMaximumStake (DPOS (cfg self)) < Value ctx then
          Some (Inl ErrValidatorsMaxStakeExceeded, self)
        else do {
          let state = \<lparr>RewardsPer1Stake = 0, Count = 0\<rparr>;
          (validator, vs) \<leftarrow> CreateValidator (validators self) owner_address (RV_Validator args) (RV_VrfKey args)
            block (RV_Commission args) (RV_Description args) (RV_Endpoint args);
          let self = self\<lparr>validators := vs\<rparr>;
          let state = state\<lparr>Count := Count state + 1\<rparr>;
          let self = AddLog (MakeValidatorRegisteredLog (RV_Validator args)) self;
          (state, self) \<leftarrow>
            (if Value ctx > 0 then do {
               let self = AddLog (MakeDelegatedLog owner_address (RV_Validator args) (Value ctx)) self;
               ds \<leftarrow> CreateDelegation (delegations self) owner_address (RV_Validator args) block (Value ctx);
               let self = self\<lparr>delegations := ds\<rparr>;
               (validator, self) \<leftarrow> delegate_update_values self ctx validator 0 BasisPointsScale;
               vs \<leftarrow> ModifyValidator (validators self) (RV_Validator args) validator;
               Some (state\<lparr>Count := Count state + 1\<rparr>, self\<lparr>validators := vs\<rparr>)
             } else Some (state, self));
          self \<leftarrow> state_put (RV_Validator args, block) (Some state) self;
          Some (Inr (), self)
        })"

definition registerValidator ::
    "crypto \<Rightarrow> Contract \<Rightarrow> CallFrame \<Rightarrow> blocknum \<Rightarrow> RegisterValidatorArgs \<Rightarrow> unit res" where
  "registerValidator cr self ctx block args = do {
     r \<leftarrow> validateProof cr (RV_Proof args) (RV_Validator args);
     case r of
       Inl e \<Rightarrow> Some (Inl e, self)
     | Inr _ \<Rightarrow>
         if MinimumDeposit (DPOS (cfg self)) > Value ctx then Some (Inl ErrInsufficientDelegation, self)
         else registerValidatorWithoutChecks self ctx block args
   }"

definition setValidatorInfo :: "Contract \<Rightarrow> CallFrame \<Rightarrow> SetValidatorInfoArgs \<Rightarrow> unit res" where
  "setValidatorInfo self ctx args =
     (if length (SI_Endpoint args) > MaxEndpointLength then Some (Inl ErrMaxEndpointLengthExceeded, self)
      else if length (SI_Description args) > MaxDescriptionLength then Some (Inl ErrMaxDescriptionLengthExceeded, self)
      else if \<not> CheckValidatorOwner (validators self) (CallerAccount ctx) (SI_Validator args) then
        Some (Inl ErrWrongOwnerAcc, self)
      else case GetValidatorInfo (validators self) (SI_Validator args) of
        None \<Rightarrow> Some (Inl ErrNonExistentValidator, self)
      | Some validator_info \<Rightarrow> do {
          let validator_info = validator_info\<lparr>Description := SI_Description args, Endpoint := SI_Endpoint args\<rparr>;
          vs \<leftarrow> ModifyValidatorInfo (validators self) (SI_Validator args) validator_info;
          Some (Inr (), AddLog (MakeValidatorInfoSetLog (SI_Validator args)) (self\<lparr>validators := vs\<rparr>))
        })"

definition setCommission :: "Contract \<Rightarrow> CallFrame \<Rightarrow> blocknum \<Rightarrow> SetCommissionArgs \<Rightarrow> unit res" where
  "setCommission self ctx block args =
     (if \<not> CheckValidatorOwner (validators self) (CallerAccount ctx) (SC_Validator args) then
        Some (Inl ErrWrongOwnerAcc, self)
      else if MaxCommission < ucast (SC_Commission args) then Some (Inl ErrCommissionOverflow, self)
      else if SC_Commission args < MinimumCommission then Some (Inl ErrCommissionBelowMinimum, self)
      else case GetValidator (validators self) (SC_Validator args) of
        None \<Rightarrow> Some (Inl ErrNonExistentValidator, self)
      | Some validator \<Rightarrow>
          if CommissionChangeFrequency (DPOS (cfg self)) \<noteq> 0 \<and>
             ucast (CommissionChangeFrequency (DPOS (cfg self))) > block - LastCommissionChange validator then
            Some (Inl ErrForbiddenCommissionChange, self)
          else if CommissionChangeDelta (DPOS (cfg self)) \<noteq> 0 \<and>
                  CommissionChangeDelta (DPOS (cfg self)) < getDelta (Commission validator) (SC_Commission args) then
            Some (Inl ErrForbiddenCommissionChange, self)
          else do {
            let validator = validator\<lparr>Commission := SC_Commission args, LastCommissionChange := block\<rparr>;
            vs \<leftarrow> ModifyValidator (validators self) (SC_Validator args) validator;
            Some (Inr (), AddLog (MakeCommissionSetLog (SC_Validator args) (SC_Commission args))
                            (self\<lparr>validators := vs\<rparr>))
          })"

section \<open>Genesis\<close>

definition genesis_context :: "address \<Rightarrow> int \<Rightarrow> CallFrame" where
  "genesis_context caller value =
     \<lparr>CallerAccount = caller, Account = dpos_contract_address, Value = value, Input = []\<rparr>"

text \<open>Any error of the handlers panics; the result of \<open>SubBalance\<close> is ignored.\<close>

fun genesis_delegations :: "address \<Rightarrow> (address \<times> int) list \<Rightarrow> Contract \<Rightarrow> Contract option" where
  "genesis_delegations validator [] self = Some self"
| "genesis_delegations validator ((delegator, amount) # rest) self = do {
     let self = snd (SubBalance delegator amount self);
     let self = AddBalance dpos_contract_address amount self;
     (r, self) \<leftarrow> delegate self (genesis_context delegator amount) 0 validator;
     case r of Inl _ \<Rightarrow> None | Inr _ \<Rightarrow> genesis_delegations validator rest self
   }"

definition apply_genesis_entry :: "Contract \<Rightarrow> GenesisValidator \<Rightarrow> Contract option" where
  "apply_genesis_entry self validator_info = do {
     let args = \<lparr>RV_Validator = GV_Address validator_info, RV_Proof = [], RV_VrfKey = GV_VrfKey validator_info,
                 RV_Commission = GV_Commission validator_info, RV_Description = GV_Description validator_info,
                 RV_Endpoint = GV_Endpoint validator_info\<rparr>;
     (r, self) \<leftarrow> registerValidatorWithoutChecks self (genesis_context (GV_Owner validator_info) 0) 0 args;
     case r of
       Inl _ \<Rightarrow> None
     | Inr _ \<Rightarrow> genesis_delegations (GV_Address validator_info) (GV_Delegations validator_info) self
   }"

fun genesis_entries :: "GenesisValidator list \<Rightarrow> Contract \<Rightarrow> Contract option" where
  "genesis_entries [] self = Some self"
| "genesis_entries (entry # rest) self = do {
     self \<leftarrow> apply_genesis_entry self entry;
     genesis_entries rest self
   }"

end
