(* ===== verification/Dpos_Rewards.thy ===== *)
theory Dpos_Rewards
  imports Dpos_Contract
begin

text \<open>
  Rewards, inactivity penalties and forced evictions of \<open>dpos/precompiled/dpos_contract.go\<close>, and
  the genesis of the contract, which runs the first reward computation. Prints are left out; the
  consistency checks of \<open>DistributeRewards\<close> on the counted blocks and votes only print.
\<close>

section \<open>Block reward\<close>

definition processBlockReward :: "Contract \<Rightarrow> blocknum \<Rightarrow> (u256 \<times> Contract) option" where
  "processBlockReward self block_num = do {
     self \<leftarrow>
       (if total_supply self = None then do {
          ts \<leftarrow> CalculateTotalSupply (yield_curve self) (minted_tokens self);
          let self = self\<lparr>total_supply := Some ts\<rparr>;
          self \<leftarrow> saveTotalSupplyDb self;
          Some (eraseMintedTokensDb self)
        } else Some self);
     ts \<leftarrow> total_supply self;
     let (blockReward, yield) = CalculateBlockReward (yield_curve self) (amount_delegated self) ts block_num;
     let maxs = GetMaxSupply (yield_curve self);
     if ts \<ge> maxs then Some (0, saveYieldDb 0 self)
     else
       let remaining = maxs - ts;
           blockReward = (if blockReward > remaining then remaining else blockReward)
       in Some (blockReward, saveYieldDb (ucast yield) self)
   }"

text \<open>
  The shares of a block reward: for the proposers of DAG blocks, for the voters, and the bonus
  for the author. \<open>uint256\<close> division by zero is zero, as for words.
\<close>

definition reward_shares :: "Contract \<Rightarrow> RewardsStats \<Rightarrow> u256 \<Rightarrow> u256 \<times> u256 \<times> u256" where
  "reward_shares self rewardsStats blockReward =
     (if TotalVotesWeight rewardsStats > 0 then
        let dagProposersReward = (blockReward * dag_proposers_reward self) div 100;
            votesReward = blockReward - dagProposersReward;
            bonusReward = (blockReward * max_block_author_reward self) div 100;
            votesReward = votesReward - bonusReward;
            maxVotesWeigh = Max64 (MaxVotesWeight rewardsStats) (TotalVotesWeight rewardsStats);
            blockAuthorReward =
              (if maxVotesWeigh = TotalVotesWeight rewardsStats then bonusReward
               else
                 let fiveOfEight = (maxVotesWeigh * 5 + 7) div 8;
                     bonusVotesWeight = (if TotalVotesWeight rewardsStats \<ge> fiveOfEight
                       then TotalVotesWeight rewardsStats - fiveOfEight else 0)
                 in if maxVotesWeigh > fiveOfEight
                    then (bonusReward * ucast bonusVotesWeight) div ucast (maxVotesWeigh - fiveOfEight)
                    else bonusReward)
        in (dagProposersReward, votesReward, blockAuthorReward)
      else (blockReward, 0, 0))"

definition commission_split :: "u256 \<Rightarrow> u16 \<Rightarrow> u256 \<times> u256" where
  "commission_split reward comm =
     (let c = (reward * ucast comm) div ucast MaxCommission in (c, reward - c))"

text \<open>The author's bonus, when the author is a validator: new tokens, total reward, contract.\<close>

definition reward_author :: "Contract \<Rightarrow> address \<Rightarrow> u256 \<Rightarrow> (u256 \<times> u256 \<times> Contract) option" where
  "reward_author self blockAuthorAddr blockAuthorReward =
     (if blockAuthorReward > 0 then
        (case GetValidator (validators self) blockAuthorAddr of
           None \<Rightarrow> Some (0, 0, self)
         | Some block_author \<Rightarrow> do {
             let (com, delegatorsRewards) = commission_split blockAuthorReward (Commission block_author);
             vs \<leftarrow> AddValidatorRewards (validators self) blockAuthorAddr (ToBig com) (ToBig delegatorsRewards);
             Some (blockAuthorReward, blockAuthorReward, self\<lparr>validators := vs\<rparr>)
           })
      else Some (0, 0, self))"

definition validator_reward :: "RewardsStats \<Rightarrow> u256 \<Rightarrow> u256 \<Rightarrow> ValidatorStats \<Rightarrow> u256" where
  "validator_reward rewardsStats dagProposersReward votesReward validatorStats =
     (let validatorReward =
        (if DagBlocksCount validatorStats > 0
         then (ucast (DagBlocksCount validatorStats) * dagProposersReward) div ucast (TotalDagBlocksCount rewardsStats)
         else 0)
      in if VoteWeight validatorStats > 0
         then validatorReward +
           (ucast (VoteWeight validatorStats) * votesReward) div ucast (TotalVotesWeight rewardsStats)
         else validatorReward)"

text \<open>Activity of a validator: remember the block and restore a reduced voting power.\<close>

definition track_activity :: "Contract \<Rightarrow> address \<Rightarrow> ValidatorStats \<Rightarrow> Validator \<Rightarrow> blocknum \<Rightarrow> Contract option" where
  "track_activity self validatorAddress validatorStats validator current_block_num =
     (if DagBlocksCount validatorStats > 0 \<or> VoteWeight validatorStats > 0 then
        let self = setLastActiveBlock validatorAddress current_block_num self;
            current_factor = getVotingPowerFactor self validatorAddress
        in if current_factor < BasisPointsScale then do {
             prev_vote_count \<leftarrow> voteCountWithFactor (TotalStake validator) (cfg self) current_block_num current_factor;
             let self = setVotingPowerFactor validatorAddress BasisPointsScale self;
             new_vote_count \<leftarrow> voteCountWithFactor (TotalStake validator) (cfg self) current_block_num BasisPointsScale;
             self \<leftarrow> update_vote_count prev_vote_count new_vote_count self;
             Some (AddLog (MakeVotingPowerRecoveredLog validatorAddress) self)
           } else Some self
      else Some self)"

text \<open>One iteration of the loop over the validators' stats.\<close>

definition reward_validator ::
    "RewardsStats \<Rightarrow> blocknum \<Rightarrow> u256 \<Rightarrow> u256 \<Rightarrow> address \<times> ValidatorStats \<Rightarrow> u256 \<times> u256 \<times> Contract
      \<Rightarrow> (u256 \<times> u256 \<times> Contract) option" where
  "reward_validator rewardsStats current_block_num dagProposersReward votesReward =
     (\<lambda>(validatorAddress, validatorStats) (newMintedRewards, totalReward, self).
       (let validatorReward = validator_reward rewardsStats dagProposersReward votesReward validatorStats in
        case GetValidator (validators self) validatorAddress of
          None \<Rightarrow> Some (newMintedRewards, totalReward, self)
        | Some validator \<Rightarrow> do {
            self \<leftarrow> track_activity self validatorAddress validatorStats validator current_block_num;
            let newMintedRewards = newMintedRewards + validatorReward;
            let totalReward = totalReward + validatorReward;
            let (validatorCommission, delegatorRewards) = commission_split validatorReward (Commission validator);
            let (validatorCommission, self) =
              (case FeesRewards validatorStats of
                 None \<Rightarrow> (validatorCommission, self)
               | Some fees \<Rightarrow>
                   if fees > 0 then (validatorCommission + fst (FromBig fees), AddBalance dpos_contract_address fees self)
                   else (validatorCommission, self));
            vs \<leftarrow> AddValidatorRewards (validators self) validatorAddress (ToBig validatorCommission) (ToBig delegatorRewards);
            Some (newMintedRewards, totalReward, self\<lparr>validators := vs\<rparr>)
          }))"

fun reward_validators ::
    "RewardsStats \<Rightarrow> blocknum \<Rightarrow> u256 \<Rightarrow> u256 \<Rightarrow> (address \<times> ValidatorStats) list \<Rightarrow> u256 \<times> u256 \<times> Contract
      \<Rightarrow> (u256 \<times> u256 \<times> Contract) option" where
  "reward_validators rewardsStats block dagR votesR [] acc = Some acc"
| "reward_validators rewardsStats block dagR votesR (x # xs) acc = do {
     acc \<leftarrow> reward_validator rewardsStats block dagR votesR x acc;
     reward_validators rewardsStats block dagR votesR xs acc
   }"

section \<open>Forced eviction\<close>

definition undelegateInternal ::
    "Contract \<Rightarrow> blocknum \<Rightarrow> address \<Rightarrow> address \<Rightarrow> int \<Rightarrow> u64 res" where
  "undelegateInternal self block validator_addr delegator_addr amount =
     (case GetValidator (validators self) validator_addr of
        None \<Rightarrow> Some (Inl ErrNonExistentValidator, self)
      | Some validator \<Rightarrow>
      case GetDelegation (delegations self) delegator_addr validator_addr of
        None \<Rightarrow> Some (Inl ErrNonExistentDelegation, self)
      | Some delegation \<Rightarrow>
          if Stake delegation < amount then Some (Inl ErrInsufficientDelegation, self)
          else do {
            let validator = validator\<lparr>TotalStake := TotalStake validator - amount\<rparr>;
            let self = self\<lparr>amount_delegated := amount_delegated self - fst (FromBig amount)\<rparr>;
            ds \<leftarrow> RemoveDelegation (delegations self) delegator_addr validator_addr;
            let self = self\<lparr>delegations := ds\<rparr>;
            (undelegation_id, us) \<leftarrow> CreateUndelegation (undelegations self) delegator_addr validator_addr block amount;
            let self = self\<lparr>undelegations := us\<rparr>;
            let validator = validator\<lparr>UndelegationsCount := UndelegationsCount validator + 1\<rparr>;
            vs \<leftarrow> ModifyValidator (validators self) validator_addr validator;
            let self = self\<lparr>validators := vs\<rparr>;
            Some (Inr undelegation_id,
              AddLog (MakeUndelegatedLog delegator_addr validator_addr undelegation_id amount) self)
          })"

text \<open>The voting power is taken away at once, and the eviction is marked as in progress.\<close>

definition zero_voting_power :: "Contract \<Rightarrow> address \<Rightarrow> Validator \<Rightarrow> blocknum \<Rightarrow> Contract option" where
  "zero_voting_power self validatorAddress validator block = do {
     let factor = getVotingPowerFactor self validatorAddress;
     remaining_votes \<leftarrow> voteCountWithFactor (TotalStake validator) (cfg self) block factor;
     let self = (if remaining_votes > 0 \<and> eligible_vote_count self \<ge> remaining_votes
       then self\<lparr>eligible_vote_count := eligible_vote_count self - remaining_votes\<rparr> else self);
     let self = setVotingPowerFactor validatorAddress 0 self;
     let self = AddLog (MakeValidatorEvictedLog validatorAddress) self;
     Some (setEvictionCursor validatorAddress 0 self)
   }"

fun evict_delegators :: "blocknum \<Rightarrow> address \<Rightarrow> address list \<Rightarrow> u32 \<Rightarrow> Contract \<Rightarrow> (u32 \<times> Contract) option" where
  "evict_delegators block validatorAddress [] processed self = Some (processed, self)"
| "evict_delegators block validatorAddress (delegator # rest) processed self =
     (case GetDelegation (delegations self) delegator validatorAddress of
        None \<Rightarrow> evict_delegators block validatorAddress rest processed self
      | Some delegation \<Rightarrow> do {
          (_, self) \<leftarrow> undelegateInternal self block validatorAddress delegator (Stake delegation);
          evict_delegators block validatorAddress rest (processed + 1) self
        })"

definition forceEvictValidator :: "Contract \<Rightarrow> address \<Rightarrow> blocknum \<Rightarrow> u32 \<Rightarrow> (u32 \<times> Contract) option" where
  "forceEvictValidator self validatorAddress block budget =
     (case GetValidator (validators self) validatorAddress of
        None \<Rightarrow> Some (0, clearEvictionCursor validatorAddress self)
      | Some validator \<Rightarrow> do {
          let (in_progress, _) = getEvictionCursor self validatorAddress;
          self \<leftarrow> (if \<not> in_progress then zero_voting_power self validatorAddress validator block else Some self);
          let page_size = (if budget > MaxEvictionsPerBlock then MaxEvictionsPerBlock else budget);
          if page_size = 0 then Some (0, self)
          else do {
            let (delegators, end) = GetValidatorDelegators (delegations self) validatorAddress 0 page_size;
            (processed, self) \<leftarrow> evict_delegators block validatorAddress delegators 0 self;
            Some (processed, if end then clearEvictionCursor validatorAddress self
                             else setEvictionCursor validatorAddress 0 self)
          }
        })"

section \<open>Inactivity penalties\<close>

definition spend_budget :: "u32 \<Rightarrow> u32 \<Rightarrow> u32" where
  "spend_budget remaining_budget processed =
     (if processed > remaining_budget then 0 else remaining_budget - processed)"

text \<open>Step 1 of \<open>applyInactivityPenalties\<close>: resume an eviction.\<close>

definition resume_eviction :: "blocknum \<Rightarrow> u32 \<times> Contract \<Rightarrow> address \<Rightarrow> (u32 \<times> Contract) option" where
  "resume_eviction current_block = (\<lambda>(remaining_budget, self) validatorAddress.
     if remaining_budget = 0 then Some (remaining_budget, self)
     else if fst (getEvictionCursor self validatorAddress) then do {
       (processed, self) \<leftarrow> forceEvictValidator self validatorAddress current_block remaining_budget;
       Some (spend_budget remaining_budget processed, self)
     } else Some (remaining_budget, self))"

text \<open>Step 2: penalize a validator that was inactive for the whole epoch.\<close>

definition penalize_validator ::
    "blocknum \<Rightarrow> u64 \<Rightarrow> address list \<times> Contract \<Rightarrow> address \<Rightarrow> (address list \<times> Contract) option" where
  "penalize_validator current_block epoch_start = (\<lambda>(toEvict, self) validatorAddress.
     case GetValidator (validators self) validatorAddress of
       None \<Rightarrow> Some (toEvict, self)
     | Some validator \<Rightarrow>
         if TotalStake validator = 0 then Some (toEvict, self)
         else if fst (getEvictionCursor self validatorAddress) then Some (toEvict, self)
         else
           let last_active = getLastActiveBlock self validatorAddress in
           if last_active = 0 then Some (toEvict, setLastActiveBlock validatorAddress current_block self)
           else if last_active \<ge> epoch_start then Some (toEvict, self)
           else do {
             let current_factor = getVotingPowerFactor self validatorAddress;
             prev_vote_count \<leftarrow> voteCountWithFactor (TotalStake validator) (cfg self) current_block current_factor;
             let new_factor = current_factor * 95 div 100;
             let self = setVotingPowerFactor validatorAddress new_factor self;
             new_vote_count \<leftarrow> voteCountWithFactor (TotalStake validator) (cfg self) current_block new_factor;
             self \<leftarrow> update_vote_count prev_vote_count new_vote_count self;
             let self = AddLog (MakeInactivityPenaltyLog validatorAddress new_factor) self;
             effective_balance \<leftarrow> big_Div (TotalStake validator * sint new_factor) (sint BasisPointsScale);
             if EligibilityBalanceThreshold (DPOS (cfg self)) > effective_balance
             then Some (toEvict @ [validatorAddress], self) else Some (toEvict, self)
           })"

text \<open>Step 3: start new evictions while the budget lasts, and only mark the others.\<close>

fun start_evictions :: "blocknum \<Rightarrow> address list \<Rightarrow> u32 \<Rightarrow> Contract \<Rightarrow> Contract option" where
  "start_evictions current_block [] remaining_budget self = Some self"
| "start_evictions current_block (addr # rest) remaining_budget self =
     (if remaining_budget = 0 then
        (case GetValidator (validators self) addr of
           None \<Rightarrow> start_evictions current_block rest remaining_budget self
         | Some validator \<Rightarrow> do {
             self \<leftarrow> zero_voting_power self addr validator current_block;
             start_evictions current_block rest remaining_budget self
           })
      else do {
        (processed, self) \<leftarrow> forceEvictValidator self addr current_block remaining_budget;
        start_evictions current_block rest (spend_budget remaining_budget processed) self
      })"

definition applyInactivityPenalties :: "Contract \<Rightarrow> blocknum \<Rightarrow> Contract option" where
  "applyInactivityPenalties self current_block = do {
     let epoch_start = current_block - InactivityEpochBlocks;
     (remaining_budget, self) \<leftarrow>
       ForEachValidator (\<lambda>(_, c). validators_list (validators c)) (resume_eviction current_block)
         (MaxEvictionsPerBlock, self);
     (toEvict, self) \<leftarrow>
       ForEachValidator (\<lambda>(_, c). validators_list (validators c)) (penalize_validator current_block epoch_start)
         ([], self);
     start_evictions current_block toEvict remaining_budget self
   }"

section \<open>\<open>DistributeRewards\<close> and genesis\<close>

definition DistributeRewards :: "Contract \<Rightarrow> RewardsStats \<Rightarrow> (u256 \<times> Contract) option" where
  "DistributeRewards self rewardsStats = do {
     self \<leftarrow> lazy_init self;
     let current_block_num = evm_block self;
     (blockReward, self) \<leftarrow> processBlockReward self current_block_num;
     let (dagProposersReward, votesReward, blockAuthorReward) = reward_shares self rewardsStats blockReward;
     (newMintedRewards, totalReward, self) \<leftarrow> reward_author self (BlockAuthor rewardsStats) blockAuthorReward;
     (newMintedRewards, totalReward, self) \<leftarrow>
       reward_validators rewardsStats current_block_num dagProposersReward votesReward
         (ValidatorsStats rewardsStats) (newMintedRewards, totalReward, self);
     let self = AddBalance dpos_contract_address (ToBig totalReward) self;
     ts \<leftarrow> total_supply self;
     let self = self\<lparr>total_supply := Some (ts + newMintedRewards)\<rparr>;
     self \<leftarrow> saveTotalSupplyDb self;
     self \<leftarrow>
       (if current_block_num > 9999 \<and> current_block_num mod InactivityEpochBlocks = 0 then
          if getLastProcessedEpochBlock self < current_block_num then
            applyInactivityPenalties (setLastProcessedEpochBlock current_block_num self) current_block_num
          else Some self
        else Some self);
     Some (newMintedRewards, self)
   }"

definition ApplyGenesis :: "Contract \<Rightarrow> Contract option" where
  "ApplyGenesis self = do {
     self \<leftarrow> lazy_init self;
     self \<leftarrow> genesis_entries (InitialValidators (DPOS (cfg self))) self;
     (_, self) \<leftarrow> processBlockReward self 0;
     let self = EndBlockCall self 0;
     Some (self\<lparr>nonces := (nonces self)(dpos_contract_address := nonces self dpos_contract_address + 1)\<rparr>)
   }"

end
