(* ===== verification/Dpos_Accounting.thy ===== *)
theory Dpos_Accounting
  imports Dpos_Rewards
begin

text \<open>
  The accounting of one validator: which reward states its record and its delegations refer to,
  what it owes its delegators, and that the two building blocks of the handlers, bringing the
  validator to the current block and settling a delegation, keep this accounting exact. The
  global invariant of \<open>Dpos_Invariant\<close> is built from it.
\<close>

section \<open>Updates of the stores as functions\<close>

text \<open>
  The well-formed stores are determined by their lookup functions, so an operation is described
  by what it does to the lookup.
\<close>

definition deleg_upd :: "Delegations \<Rightarrow> address \<Rightarrow> address \<Rightarrow> Delegation option \<Rightarrow> Delegations \<Rightarrow> bool" where
  "deleg_upd ds d v new ds' \<longleftrightarrow> delegations_wf ds' \<and>
     (\<forall>d' v'. GetDelegation ds' d' v' = (if d' = d \<and> v' = v then new else GetDelegation ds d' v'))"

lemma ModifyDelegation_upd:
  assumes "delegations_wf ds" "GetDelegation ds d v \<noteq> None" "0 \<le> Stake x"
  shows "\<exists>ds'. ModifyDelegation ds d v x = Some ds' \<and> deleg_upd ds d v (Some x) ds'"
  using ModifyDelegation_wf [OF assms] by (auto simp: deleg_upd_def)

lemma CreateDelegation_upd:
  assumes "delegations_wf ds" "GetDelegation ds d v = None" "0 \<le> stake"
  shows "\<exists>ds'. CreateDelegation ds d v block stake = Some ds' \<and>
    deleg_upd ds d v (Some \<lparr>Stake = stake, D_LastUpdated = block\<rparr>) ds'"
  using CreateDelegation_wf [OF assms, of block] by (auto simp: deleg_upd_def)

lemma RemoveDelegation_upd:
  assumes "delegations_wf ds" "GetDelegation ds d v \<noteq> None"
  shows "\<exists>ds'. RemoveDelegation ds d v = Some ds' \<and> deleg_upd ds d v None ds'"
  using RemoveDelegation_wf [OF assms] by (auto simp: deleg_upd_def)

definition opt_val :: "('a \<Rightarrow> 'b::zero) \<Rightarrow> 'a option \<Rightarrow> 'b" where
  "opt_val f x = (case x of None \<Rightarrow> 0 | Some a \<Rightarrow> f a)"

lemma opt_val_simps [simp]: "opt_val f None = 0" "opt_val f (Some a) = f a"
  by (simp_all add: opt_val_def)

lemma finite_delegators: "delegations_wf ds \<Longrightarrow> {d. GetDelegation ds d v \<noteq> None} = set (validator_delegators ds v)"
  by (auto simp: delegations_wf_def)

lemma dsum_Collect:
  "delegations_wf ds \<Longrightarrow> dsum ds v f = (\<Sum>d\<in>{d. GetDelegation ds d v \<noteq> None}. opt_val f (GetDelegation ds d v))"
  unfolding dsum_def finite_delegators [symmetric] by (intro sum.cong) auto

lemma dsum_split:
  assumes "delegations_wf ds"
  shows "dsum ds v f = opt_val f (GetDelegation ds d v) +
    (\<Sum>e\<in>{e. GetDelegation ds e v \<noteq> None} - {d}. opt_val f (GetDelegation ds e v))"
proof -
  have fin: "finite {e. GetDelegation ds e v \<noteq> None}" by (simp add: finite_delegators [OF assms])
  show ?thesis
  proof (cases "GetDelegation ds d v")
    case None
    then show ?thesis by (simp add: dsum_Collect [OF assms])
  next
    case (Some x)
    then show ?thesis using fin by (simp add: dsum_Collect [OF assms] sum.remove [of _ d])
  qed
qed

lemma dsum_upd:
  assumes "delegations_wf ds" "deleg_upd ds d v new ds'"
  shows "dsum ds' v' f = dsum ds v' f + (if v' = v then opt_val f new - opt_val f (GetDelegation ds d v) else 0)"
proof (cases "v' = v")
  case True
  have g: "GetDelegation ds' e v = (if e = d then new else GetDelegation ds e v)" for e
    using assms(2) by (simp add: deleg_upd_def)
  have "{e. GetDelegation ds' e v \<noteq> None} - {d} = {e. GetDelegation ds e v \<noteq> None} - {d}"
    by (auto simp: g)
  moreover have "(\<Sum>e\<in>{e. GetDelegation ds e v \<noteq> None} - {d}. opt_val f (GetDelegation ds' e v)) =
      (\<Sum>e\<in>{e. GetDelegation ds e v \<noteq> None} - {d}. opt_val f (GetDelegation ds e v))"
    by (intro sum.cong) (auto simp: g)
  ultimately show ?thesis
    using dsum_split [OF assms(1), of v f d] dsum_split [of ds' v f d] assms(2) True
    by (simp add: deleg_upd_def g)
next
  case False
  then have "GetDelegation ds' e v' = GetDelegation ds e v'" for e
    using assms(2) by (simp add: deleg_upd_def)
  then show ?thesis using assms False by (simp add: dsum_Collect deleg_upd_def)
qed

lemma dsum_cong_val:
  assumes "delegations_wf ds" "\<And>d x. GetDelegation ds d v = Some x \<Longrightarrow> f x = g x"
  shows "dsum ds v f = dsum ds v g"
proof -
  have "opt_val f (GetDelegation ds e v) = opt_val g (GetDelegation ds e v)" for e
    using assms(2) by (cases "GetDelegation ds e v") auto
  then show ?thesis by (simp add: dsum_Collect [OF assms(1)])
qed

section \<open>States and references\<close>

type_synonym states = "address \<times> blocknum \<rightharpoonup> State"

definition rps :: "states \<Rightarrow> address \<Rightarrow> blocknum \<Rightarrow> int" where
  "rps S v b = opt_val RewardsPer1Stake (S (v, b))"

definition refs :: "Delegations \<Rightarrow> address \<Rightarrow> Validator \<Rightarrow> blocknum \<Rightarrow> int" where
  "refs ds v val b = (if V_LastUpdated val = b then 1 else 0) + dsum ds v (\<lambda>x. if D_LastUpdated x = b then 1 else 0)"

definition dec_state :: "states \<Rightarrow> address \<times> blocknum \<Rightarrow> states" where
  "dec_state S k =
     (case S k of
        None \<Rightarrow> S
      | Some st \<Rightarrow> S(k := if Count st - 1 = 0 then None else Some (st\<lparr>Count := Count st - 1\<rparr>)))"

lemma dec_state_other: "k' \<noteq> k \<Longrightarrow> dec_state S k k' = S k'"
  by (simp add: dec_state_def split: option.splits)

lemma dec_state_Some:
  "dec_state S k k' = Some st' \<Longrightarrow>
    \<exists>st. S k' = Some st \<and> RewardsPer1Stake st' = RewardsPer1Stake st"
  by (auto simp: dec_state_def split: option.splits if_splits)

lemma dec_state_eq: "dec_state S k k = (case S k of None \<Rightarrow> None
    | Some st \<Rightarrow> if Count st - 1 = 0 then None else Some (st\<lparr>Count := Count st - 1\<rparr>))"
  by (simp add: dec_state_def split: option.splits)

lemma state_get_and_decrement_Some:
  assumes "field_state self (v, b) = Some st" "0 \<le> RewardsPer1Stake st"
  shows "state_get_and_decrement self v b =
    Some (st\<lparr>Count := Count st - 1\<rparr>, self\<lparr>field_state := dec_state (field_state self) (v, b)\<rparr>)"
  using assms by (simp add: state_get_and_decrement_def dec_state_def state_put_def Let_def)

text \<open>
  The accounting of a validator \<open>val\<close> at address \<open>v\<close>: its stake is the sum of its delegations;
  its states are not newer than its last update; every referenced state is there and counted at
  least as often as it is referenced; and no delegation is ahead of the validator.
\<close>

definition acc_inv :: "states \<Rightarrow> Delegations \<Rightarrow> address \<Rightarrow> Validator \<Rightarrow> bool" where
  "acc_inv S ds v val \<longleftrightarrow>
     TotalStake val = dsum ds v Stake \<and>
     (\<forall>b st. S (v, b) = Some st \<longrightarrow> b \<le> V_LastUpdated val \<and> 0 \<le> RewardsPer1Stake st) \<and>
     (\<forall>b. 0 < refs ds v val b \<longrightarrow> (\<exists>st. S (v, b) = Some st \<and> refs ds v val b \<le> uint (Count st))) \<and>
     (\<forall>d x. GetDelegation ds d v = Some x \<longrightarrow> rps S v (D_LastUpdated x) \<le> rps S v (V_LastUpdated val))"

text \<open>What the validator owes its delegators, times the maximum stake (the scale of a reward per stake).\<close>

definition accrued :: "states \<Rightarrow> Delegations \<Rightarrow> address \<Rightarrow> Validator \<Rightarrow> int" where
  "accrued S ds v val = dsum ds v (\<lambda>x. (rps S v (V_LastUpdated val) - rps S v (D_LastUpdated x)) * Stake x)"

lemma refs_nonneg:
  "delegations_wf ds \<Longrightarrow> 0 \<le> dsum ds v (\<lambda>x. if D_LastUpdated x = b then 1 else 0 :: int)"
  by (rule dsum_nonneg) auto

lemma refs_validator: "delegations_wf ds \<Longrightarrow> 1 \<le> refs ds v val (V_LastUpdated val)"
  using refs_nonneg [of ds v "V_LastUpdated val"] by (simp add: refs_def)

lemma dsum_indicator:
  assumes "delegations_wf ds" "GetDelegation ds d v = Some x" "D_LastUpdated x = b"
  shows "1 \<le> dsum ds v (\<lambda>y. if D_LastUpdated y = b then 1 else 0 :: int)"
  using dsum_ge_member [OF assms(1,2), of "\<lambda>y. if D_LastUpdated y = b then 1 else 0"] assms(3) by simp

lemma refs_delegation:
  assumes "delegations_wf ds" "GetDelegation ds d v = Some x"
  shows "1 + (if V_LastUpdated val = D_LastUpdated x then 1 else 0) \<le> refs ds v val (D_LastUpdated x)"
  using dsum_indicator [OF assms refl] by (simp add: refs_def)

lemma acc_inv_validator_state:
  assumes "acc_inv S ds v val" "delegations_wf ds"
  obtains st where "S (v, V_LastUpdated val) = Some st" "0 \<le> RewardsPer1Stake st"
    "refs ds v val (V_LastUpdated val) \<le> uint (Count st)"
proof -
  have "0 < refs ds v val (V_LastUpdated val)" using refs_validator [OF assms(2), of v val] by linarith
  then show thesis using assms(1) that unfolding acc_inv_def by metis
qed

lemma acc_inv_delegation_state:
  assumes "acc_inv S ds v val" "delegations_wf ds" "GetDelegation ds d v = Some x"
  obtains st where "S (v, D_LastUpdated x) = Some st" "0 \<le> RewardsPer1Stake st"
    "refs ds v val (D_LastUpdated x) \<le> uint (Count st)"
proof -
  have "0 < refs ds v val (D_LastUpdated x)"
    using refs_delegation [OF assms(2,3), of val] by (auto split: if_splits)
  then show thesis using assms(1) that unfolding acc_inv_def by metis
qed

lemma accrued_nonneg:
  assumes "acc_inv S ds v val" "delegations_wf ds"
  shows "0 \<le> accrued S ds v val"
  unfolding accrued_def using assms(1) delegations_wfD(4) [OF assms(2)]
  by (intro dsum_nonneg [OF assms(2)] mult_nonneg_nonneg) (auto simp: acc_inv_def)

lemma accrued_member:
  assumes "acc_inv S ds v val" "delegations_wf ds" "GetDelegation ds d v = Some x"
  shows "(rps S v (V_LastUpdated val) - rps S v (D_LastUpdated x)) * Stake x \<le> accrued S ds v val"
  unfolding accrued_def using assms(1) delegations_wfD(4) [OF assms(2)]
  by (intro dsum_ge_member [OF assms(2,3)] mult_nonneg_nonneg) (auto simp: acc_inv_def)

text \<open>Decrementing the count of a state that is referenced once more than required.\<close>

lemma uint_minus_1: "(0::int) < uint (c :: u32) \<Longrightarrow> uint (c - 1) = uint c - 1"
  by (subst uint_sub_if') auto

lemma dec_state_count:
  assumes "S k = Some st" "n + 1 \<le> uint (Count st)" "0 < n"
  shows "\<exists>st'. dec_state S k k = Some st' \<and> n \<le> uint (Count st') \<and> RewardsPer1Stake st' = RewardsPer1Stake st"
proof -
  have u: "uint (Count st - 1) = uint (Count st) - 1" using assms by (intro uint_minus_1) linarith
  then have "Count st - 1 \<noteq> 0" using assms by auto
  then show ?thesis using assms u by (simp add: dec_state_eq)
qed

text \<open>A state that stays referenced keeps its rewards per stake.\<close>

lemma rps_Some: "S (v, b) = Some st \<Longrightarrow> rps S v b = RewardsPer1Stake st"
  by (simp add: rps_def)

lemma rps_dec_other: "b \<noteq> b' \<Longrightarrow> rps (dec_state S (v, b')) v b = rps S v b"
  by (simp add: rps_def dec_state_other)

lemma rps_upd_other: "b \<noteq> b' \<Longrightarrow> rps (S((v, b') := st)) v b = rps S v b"
  by (simp add: rps_def)

lemma rps_upd_same: "rps (S((v, b) \<mapsto> st)) v b = RewardsPer1Stake st"
  by (simp add: rps_def)

lemma rps_dec_count:
  assumes "S (v, b) = Some st" "2 \<le> uint (Count st)"
  shows "rps (dec_state S (v, b)) v b = rps S v b"
  using dec_state_count [of S "(v, b)" st 1] assms by (auto simp: rps_def)

lemma div_mult_le: "0 < (a :: int) \<Longrightarrow> b div a * a \<le> b"
  by (simp add: minus_mod_eq_div_mult [symmetric])

section \<open>Bringing a validator to the current block\<close>

text \<open>\<open>sync\<close> is the new state map of \<open>current_state\<close> when the validator has no state for the block.\<close>

lemma acc_inv_sync:
  assumes inv: "acc_inv S ds v val" and wf: "delegations_wf ds"
    and none: "S (v, block) = None" and le: "V_LastUpdated val \<le> block" and q: "0 \<le> q"
    and S': "S' = (dec_state S (v, V_LastUpdated val))((v, block) \<mapsto>
      \<lparr>RewardsPer1Stake = rps S v (V_LastUpdated val) + q, Count = 1\<rparr>)"
    and val': "val' = val\<lparr>V_LastUpdated := block\<rparr>"
  shows "acc_inv S' ds v val'"
    and "accrued S' ds v val' = accrued S ds v val + q * TotalStake val"
proof -
  let ?u = "V_LastUpdated val" and ?S1 = "dec_state S (v, V_LastUpdated val)"
  obtain stu where stu: "S (v, ?u) = Some stu" "0 \<le> RewardsPer1Stake stu" "refs ds v val ?u \<le> uint (Count stu)"
    using acc_inv_validator_state [OF inv wf] .
  have ub: "?u \<noteq> block" using none stu(1) by auto
  have refs0: "dsum ds v (\<lambda>x. if D_LastUpdated x = block then 1 else 0 :: int) = 0"
  proof -
    have "\<not> 0 < refs ds v val block" using inv none by (auto simp: acc_inv_def)
    then show ?thesis using refs_nonneg [OF wf, of v block] ub by (simp add: refs_def)
  qed
  have xb: "D_LastUpdated x \<noteq> block" if "GetDelegation ds d v = Some x" for d x
    using dsum_indicator [OF wf that, of block] refs0 by auto
  have refs': "refs ds v val' b = refs ds v val b - (if b = ?u then 1 else 0) + (if b = block then 1 else 0)" for b
    using ub by (auto simp: refs_def val')
  have rx: "rps S' v (D_LastUpdated x) = rps S v (D_LastUpdated x)" if "GetDelegation ds d v = Some x" for d x
  proof (cases "D_LastUpdated x = ?u")
    case True
    then have "2 \<le> uint (Count stu)" using refs_delegation [OF wf that, of val] stu(3) by simp
    then show ?thesis using True ub stu(1) by (simp add: S' rps_upd_other rps_dec_count)
  next
    case False
    then show ?thesis using xb [OF that] by (simp add: S' rps_upd_other rps_dec_other)
  qed
  have rb: "rps S' v block = rps S v ?u + q" by (simp add: S' rps_upd_same)
  have "b \<le> block \<and> 0 \<le> RewardsPer1Stake st" if s': "S' (v, b) = Some st" for b st
  proof (cases "b = block")
    case True
    then show ?thesis using s' stu q by (auto simp: S' rps_def)
  next
    case False
    then obtain st0 where "S (v, b) = Some st0" "RewardsPer1Stake st = RewardsPer1Stake st0"
      using s' dec_state_Some [of S "(v, ?u)" "(v, b)" st] by (auto simp: S')
    then show ?thesis using inv le by (auto simp: acc_inv_def intro: order_trans)
  qed
  moreover have "\<exists>st. S' (v, b) = Some st \<and> refs ds v val' b \<le> uint (Count st)" if pos: "0 < refs ds v val' b" for b
  proof (cases "b = block")
    case True
    then show ?thesis using refs0 ub by (simp add: S' refs_def val')
  next
    case False
    show ?thesis
    proof (cases "b = ?u")
      case True
      then show ?thesis using dec_state_count [of S "(v, ?u)" stu "refs ds v val' ?u"] pos stu refs' [of ?u] ub
        by (auto simp: S')
    next
      case neq: False
      then show ?thesis using False pos inv refs' [of b] by (auto simp: S' dec_state_other acc_inv_def)
    qed
  qed
  moreover have "rps S' v (D_LastUpdated x) \<le> rps S' v (V_LastUpdated val')"
    if "GetDelegation ds d v = Some x" for d x
    using rx [OF that] that inv q by (fastforce simp: val' rb acc_inv_def)
  moreover have "TotalStake val' = dsum ds v Stake" using inv by (simp add: val' acc_inv_def)
  ultimately show "acc_inv S' ds v val'" by (auto simp: acc_inv_def val')
  have "accrued S' ds v val' =
      dsum ds v (\<lambda>x. (rps S v ?u - rps S v (D_LastUpdated x)) * Stake x + q * Stake x)"
    unfolding accrued_def by (rule dsum_cong_val [OF wf]) (simp add: rx val' rb algebra_simps)
  also have "\<dots> = accrued S ds v val + q * dsum ds v Stake"
    by (simp add: dsum_add accrued_def dsum_def sum_distrib_left)
  finally show "accrued S' ds v val' = accrued S ds v val + q * TotalStake val"
    using inv by (simp add: acc_inv_def)
qed

text \<open>
  \<open>current_state\<close> does not panic, and leaves the accounting exact: the rewards pool moves into
  what is owed, up to rounding in favour of the contract. The state \<open>st\<close> of the block is returned
  and not yet stored; \<open>S1\<close> is the map it will be stored in.
\<close>

definition synced ::
    "Contract \<Rightarrow> address \<Rightarrow> blocknum \<Rightarrow> Validator \<Rightarrow> ValidatorRewards \<Rightarrow> State \<Rightarrow> ValidatorRewards \<Rightarrow> states \<Rightarrow> bool" where
  "synced self v block val rw st rw1 S1 \<longleftrightarrow>
     acc_inv (S1((v, block) \<mapsto> st)) (delegations self) v (val\<lparr>V_LastUpdated := block\<rparr>) \<and>
     (rw1 = rw \<or> rw1 = rw\<lparr>RewardsPool := 0\<rparr>) \<and>
     ValidatorMaximumStake (DPOS (cfg self)) * RewardsPool rw1 +
       accrued (S1((v, block) \<mapsto> st)) (delegations self) v (val\<lparr>V_LastUpdated := block\<rparr>)
       \<le> ValidatorMaximumStake (DPOS (cfg self)) * RewardsPool rw + accrued (field_state self) (delegations self) v val \<and>
     (S1 (v, block) = Some st \<and> field_state self = S1 \<and> rw1 = rw \<and> V_LastUpdated val = block \<or>
      S1 (v, block) = None \<and> field_state self (v, block) = None \<and> Count st = 1) \<and>
     (\<forall>v' b. v' \<noteq> v \<longrightarrow> S1 (v', b) = field_state self (v', b)) \<and>
     (\<forall>b. S1 (v, b) \<noteq> None \<longrightarrow> field_state self (v, b) \<noteq> None) \<and>
     (\<forall>d x. S1 (v, block) = None \<longrightarrow> GetDelegation (delegations self) d v = Some x \<longrightarrow> D_LastUpdated x \<noteq> block)"

lemma current_state_acc:
  assumes inv: "acc_inv (field_state self) (delegations self) v val" and wf: "delegations_wf (delegations self)"
    and le: "V_LastUpdated val \<le> block" and pool: "0 \<le> RewardsPool rw"
    and M: "0 < ValidatorMaximumStake (DPOS (cfg self))" (is "0 < ?M")
  shows "\<exists>st rw1 S1. current_state self v block val rw =
      Some (st, val\<lparr>V_LastUpdated := block\<rparr>, rw1, self\<lparr>field_state := S1\<rparr>) \<and>
    synced self v block val rw st rw1 S1"
proof (cases "field_state self (v, block)")
  case (Some st)
  then have "block \<le> V_LastUpdated val" using inv by (auto simp: acc_inv_def)
  with le have u: "V_LastUpdated val = block" by simp
  then have v: "val\<lparr>V_LastUpdated := block\<rparr> = val" by (cases val) simp
  have same: "(field_state self)((v, block) \<mapsto> st) = field_state self" using Some by auto
  have "current_state self v block val rw =
      Some (st, val\<lparr>V_LastUpdated := block\<rparr>, rw, self\<lparr>field_state := field_state self\<rparr>)"
    using Some by (simp add: current_state_def state_get_def v)
  moreover have "synced self v block val rw st rw (field_state self)"
    using Some inv u by (simp add: synced_def v same)
  ultimately show ?thesis by blast
next
  case None
  let ?S = "field_state self" and ?ds = "delegations self" and ?u = "V_LastUpdated val"
  obtain stu where stu: "?S (v, ?u) = Some stu" "0 \<le> RewardsPer1Stake stu"
    using acc_inv_validator_state [OF inv wf] by metis
  define q where "q = (if TotalStake val > 0 then (RewardsPool rw * ?M) div TotalStake val else 0)"
  have q: "0 \<le> q" using pool M by (auto simp: q_def intro!: pos_imp_zdiv_nonneg_iff [THEN iffD2])
  have T: "0 \<le> TotalStake val" using inv dsum_nonneg [OF wf, of v Stake] delegations_wfD(4) [OF wf]
    by (auto simp: acc_inv_def)
  have qT: "q * TotalStake val \<le> RewardsPool rw * ?M"
    using pool M T by (auto simp: q_def div_mult_le)
  let ?S1 = "dec_state ?S (v, ?u)" and ?st = "\<lparr>RewardsPer1Stake = rps ?S v ?u + q, Count = 1\<rparr> :: State"
  have "current_state self v block val rw =
      Some (?st, val\<lparr>V_LastUpdated := block\<rparr>, rw\<lparr>RewardsPool := 0\<rparr>, self\<lparr>field_state := ?S1\<rparr>)"
    using None stu by (simp add: current_state_def state_get_def state_get_and_decrement_Some
        calculateRewardPer1Stake_def q_def rps_def)
  moreover have "synced self v block val rw ?st (rw\<lparr>RewardsPool := 0\<rparr>) ?S1"
    unfolding synced_def
  proof (intro conjI allI impI)
    have ub: "?u \<noteq> block" using None stu by auto
    show "acc_inv (?S1((v, block) \<mapsto> ?st)) ?ds v (val\<lparr>V_LastUpdated := block\<rparr>)"
      using acc_inv_sync(1) [OF inv wf None le q refl refl] .
    show "?M * RewardsPool (rw\<lparr>RewardsPool := 0\<rparr>) + accrued (?S1((v, block) \<mapsto> ?st)) ?ds v (val\<lparr>V_LastUpdated := block\<rparr>)
        \<le> ?M * RewardsPool rw + accrued ?S ?ds v val"
      using acc_inv_sync(2) [OF inv wf None le q refl refl] qT by (simp add: mult.commute)
    show "?S1 (v', b) = ?S (v', b)" if "v' \<noteq> v" for v' b using that by (simp add: dec_state_other)
    show "?S (v, b) \<noteq> None" if "?S1 (v, b) \<noteq> None" for b using that dec_state_Some by fastforce
    show "?S1 (v, block) = Some ?st \<and> ?S = ?S1 \<and> rw\<lparr>RewardsPool := 0\<rparr> = rw \<and> ?u = block \<or>
        ?S1 (v, block) = None \<and> ?S (v, block) = None \<and> Count ?st = 1"
      using None ub by (simp add: dec_state_other)
    show "D_LastUpdated x \<noteq> block" if "GetDelegation ?ds d v = Some x" for d x
      by (rule acc_inv_delegation_state [OF inv wf that]) (use None in auto)
  qed simp
  ultimately show ?thesis by blast
qed

section \<open>Settling a delegation\<close>

text \<open>
  The reward paid to a delegation is what it is owed, rounded down; the delegation then refers to
  the state of the block (or is gone).
\<close>

lemma acc_inv_settle:
  assumes inv: "acc_inv S ds v val" and wf: "delegations_wf ds"
    and b: "V_LastUpdated val = block" "V_LastUpdated val' = block"
    and st: "S (v, block) = Some st" "uint (Count st) + 1 < 2 ^ 32"
    and upd: "deleg_upd ds d v y ds'" and yb: "\<And>y'. y = Some y' \<Longrightarrow> D_LastUpdated y' = block"
    and S': "S' = (case GetDelegation ds d v of None \<Rightarrow> S | Some x \<Rightarrow> dec_state S (v, D_LastUpdated x))
      ((v, block) \<mapsto> st\<lparr>Count := Count st + (if y = None then 0 else 1)\<rparr>)"
    and T: "TotalStake val' = TotalStake val + opt_val Stake y - opt_val Stake (GetDelegation ds d v)"
  shows "acc_inv S' ds' v val'"
    and "accrued S' ds' v val' = accrued S ds v val -
      opt_val (\<lambda>x. (rps S v block - rps S v (D_LastUpdated x)) * Stake x) (GetDelegation ds d v)"
proof -
  let ?x = "GetDelegation ds d v"
  have wf': "delegations_wf ds'" and get': "\<And>d' v'. GetDelegation ds' d' v' = (if d' = d \<and> v' = v then y else GetDelegation ds d' v')"
    using upd by (auto simp: deleg_upd_def)
  have refs': "refs ds' v val' b = refs ds v val b + opt_val (\<lambda>x. if D_LastUpdated x = b then 1 else 0) y
      - opt_val (\<lambda>x. if D_LastUpdated x = b then 1 else 0) ?x" for b
    using dsum_upd [OF wf upd, of v "\<lambda>x. if D_LastUpdated x = b then 1 else 0 :: int"] b by (simp add: refs_def)
  have cnt: "uint (Count st + 1) = uint (Count st) + 1" using st(2) uint_add_lem [of "Count st" 1] by simp
  have rb: "rps S' v block = rps S v block" using st(1) by (simp add: S' rps_def)
  have other: "S' (v, b) = (case ?x of None \<Rightarrow> S | Some x \<Rightarrow> dec_state S (v, D_LastUpdated x)) (v, b)"
    if "b \<noteq> block" for b using that by (simp add: S')
  have rx: "rps S' v (D_LastUpdated z) = rps S v (D_LastUpdated z)"
    if z: "GetDelegation ds e v = Some z" "e \<noteq> d" for e z
  proof (cases "D_LastUpdated z = block")
    case False
    show ?thesis
    proof (cases ?x)
      case None
      then show ?thesis using False by (simp add: S' rps_upd_other)
    next
      case (Some x)
      show ?thesis
      proof (cases "D_LastUpdated z = D_LastUpdated x")
        case True
        obtain stx where "S (v, D_LastUpdated x) = Some stx" "refs ds v val (D_LastUpdated x) \<le> uint (Count stx)"
          using acc_inv_delegation_state [OF inv wf Some] by metis
        moreover have "2 \<le> refs ds v val (D_LastUpdated x)"
        proof -
          obtain ds1 where u1: "deleg_upd ds d v None ds1"
            using RemoveDelegation_upd [OF wf, of d v] Some by auto
          then have w1: "delegations_wf ds1" "GetDelegation ds1 e v = Some z"
            using z by (auto simp: deleg_upd_def)
          have "1 \<le> dsum ds1 v (\<lambda>y. if D_LastUpdated y = D_LastUpdated x then 1 else 0 :: int)"
            using dsum_indicator [OF w1 True] .
          then show ?thesis
            using dsum_upd [OF wf u1, of v "\<lambda>y. if D_LastUpdated y = D_LastUpdated x then 1 else 0 :: int"] Some
            by (simp add: refs_def)
        qed
        ultimately show ?thesis using True False Some by (simp add: S' rps_upd_other rps_dec_count)
      next
        case neq: False
        then show ?thesis using False Some by (simp add: S' rps_upd_other rps_dec_other)
      qed
    qed
  qed (simp add: rb)
  have "b \<le> block \<and> 0 \<le> RewardsPer1Stake st'" if s': "S' (v, b) = Some st'" for b st'
  proof (cases "b = block")
    case True
    then show ?thesis using s' st(1) inv by (auto simp: S' acc_inv_def)
  next
    case False
    then obtain st0 where "S (v, b) = Some st0" "RewardsPer1Stake st' = RewardsPer1Stake st0"
      using s' other [OF False] by (auto split: option.splits dest: dec_state_Some)
    then show ?thesis using inv b by (auto simp: acc_inv_def)
  qed
  moreover have "\<exists>st. S' (v, b) = Some st \<and> refs ds' v val' b \<le> uint (Count st)"
    if pos: "0 < refs ds' v val' b" for b
  proof (cases "b = block")
    case True
    have "refs ds v val block \<le> uint (Count st)"
      using acc_inv_validator_state [OF inv wf] st(1) b by (metis option.inject)
    moreover have "opt_val (\<lambda>x. if D_LastUpdated x = block then 1 else 0 :: int) y = (if y = None then 0 else 1)"
      using yb by (cases y) auto
    moreover have "0 \<le> opt_val (\<lambda>x. if D_LastUpdated x = block then 1 else 0 :: int) ?x" by (cases ?x) auto
    ultimately show ?thesis using True refs' [of block] cnt by (simp add: S')
  next
    case False
    then have y0: "opt_val (\<lambda>x. if D_LastUpdated x = b then 1 else 0 :: int) y = 0" using yb by (cases y) auto
    show ?thesis
    proof (cases "\<exists>x. ?x = Some x \<and> D_LastUpdated x = b")
      case True
      then obtain x where x: "?x = Some x" "D_LastUpdated x = b" by blast
      obtain stx where "S (v, b) = Some stx" "refs ds v val b \<le> uint (Count stx)"
        using acc_inv_delegation_state [OF inv wf x(1)] x(2) by metis
      then show ?thesis using dec_state_count [of S "(v, b)" stx "refs ds' v val' b"] pos refs' [of b] y0 x other [OF False]
        by (auto)
    next
      case nx: False
      then have "opt_val (\<lambda>x. if D_LastUpdated x = b then 1 else 0 :: int) ?x = 0" by (cases ?x) auto
      then have "refs ds' v val' b = refs ds v val b" using refs' [of b] y0 by simp
      moreover have "S' (v, b) = S (v, b)" using nx other [OF False]
        by (auto simp: dec_state_other split: option.splits)
      ultimately show ?thesis using pos inv by (simp add: acc_inv_def)
    qed
  qed
  moreover have "rps S' v (D_LastUpdated z) \<le> rps S' v (V_LastUpdated val')"
    if "GetDelegation ds' e v = Some z" for e z
  proof (cases "e = d")
    case True
    then show ?thesis using that yb get' b by simp
  next
    case False
    then show ?thesis using that get' rx [of e z] inv b by (auto simp: rb acc_inv_def)
  qed
  moreover have "TotalStake val' = dsum ds' v Stake"
    using inv T dsum_upd [OF wf upd, of v Stake] by (simp add: acc_inv_def)
  ultimately show "acc_inv S' ds' v val'" by (auto simp: acc_inv_def b)
  have "accrued S' ds' v val' = dsum ds' v (\<lambda>z. (rps S v block - rps S' v (D_LastUpdated z)) * Stake z)"
    by (simp add: accrued_def b rb)
  also have "\<dots> = opt_val (\<lambda>z. (rps S v block - rps S' v (D_LastUpdated z)) * Stake z) y +
      (\<Sum>e\<in>{e. GetDelegation ds' e v \<noteq> None} - {d}. opt_val (\<lambda>z. (rps S v block - rps S' v (D_LastUpdated z)) * Stake z) (GetDelegation ds' e v))"
    by (subst dsum_split [OF wf', of v _ d]) (simp add: get')
  also have "opt_val (\<lambda>z. (rps S v block - rps S' v (D_LastUpdated z)) * Stake z) y = 0"
    using yb rb by (cases y) auto
  also have "(\<Sum>e\<in>{e. GetDelegation ds' e v \<noteq> None} - {d}. opt_val (\<lambda>z. (rps S v block - rps S' v (D_LastUpdated z)) * Stake z) (GetDelegation ds' e v)) =
      (\<Sum>e\<in>{e. GetDelegation ds e v \<noteq> None} - {d}. opt_val (\<lambda>z. (rps S v block - rps S v (D_LastUpdated z)) * Stake z) (GetDelegation ds e v))"
    using rx by (intro sum.cong) (auto simp: get' split: if_splits)
  also have "0 + \<dots> = accrued S ds v val -
      opt_val (\<lambda>z. (rps S v block - rps S v (D_LastUpdated z)) * Stake z) ?x"
    unfolding accrued_def b by (subst dsum_split [OF wf, of v _ d]) simp
  finally show "accrued S' ds' v val' = accrued S ds v val -
      opt_val (\<lambda>x. (rps S v block - rps S v (D_LastUpdated x)) * Stake x) ?x" .
qed

end
