(* ===== verification/Dpos_Invariant.thy ===== *)
theory Dpos_Invariant
  imports Dpos_Accounting
begin

text \<open>
  The invariant of the DPoS contract and the lemma that every handler is an instance of. The
  invariant says that the stores are well-formed, that the totals (stake of a validator, amount
  delegated, eligible votes) are the sums they stand for, that the reward states are counted
  correctly, and that the contract's balance covers everything it owes: stakes, pending
  undelegations, reward pools and the rewards that delegators have not claimed.
\<close>

section \<open>Sums over finite maps\<close>

definition msum :: "('k \<rightharpoonup> 'v) \<Rightarrow> ('k \<Rightarrow> 'v \<Rightarrow> 'a::ab_group_add) \<Rightarrow> 'a" where
  "msum m f = (\<Sum>k\<in>dom m. f k (the (m k)))"

lemma msum_split:
  assumes "finite (dom m)"
  shows "msum m f = opt_val (f k) (m k) + (\<Sum>j\<in>dom m - {k}. f j (the (m j)))"
proof (cases "m k")
  case None
  then have "dom m - {k} = dom m" by auto
  with None show ?thesis by (simp add: msum_def)
next
  case (Some x)
  then show ?thesis using assms by (simp add: msum_def sum.remove [of _ k] domI)
qed

lemma msum_upd:
  assumes "finite (dom m)"
  shows "msum (m(k := x)) f = msum m f + opt_val (f k) x - opt_val (f k) (m k)"
proof -
  have fin: "finite (dom (m(k := x)))" using assms by simp
  have "dom (m(k := x)) - {k} = dom m - {k}" by auto
  then have "msum (m(k := x)) f = opt_val (f k) x + (\<Sum>j\<in>dom m - {k}. f j (the ((m(k := x)) j)))"
    using msum_split [OF fin, of f k] by (simp only: fun_upd_same)
  also have "(\<Sum>j\<in>dom m - {k}. f j (the ((m(k := x)) j))) = (\<Sum>j\<in>dom m - {k}. f j (the (m j)))"
    by (intro sum.cong) auto
  finally show ?thesis using msum_split [OF assms, of f k] by (simp only: algebra_simps)
qed

lemma msum_cong: "(\<And>k x. m k = Some x \<Longrightarrow> f k x = g k x) \<Longrightarrow> msum m f = msum m g"
  unfolding msum_def by (intro sum.cong) auto

lemma msum_nonneg: "(\<And>k x. m k = Some x \<Longrightarrow> 0 \<le> f k x) \<Longrightarrow> 0 \<le> (msum m f :: int)"
  unfolding msum_def by (intro sum_nonneg) auto

lemma msum_mono: "(\<And>k x. m k = Some x \<Longrightarrow> f k x \<le> g k x) \<Longrightarrow> msum m f \<le> (msum m g :: int)"
  unfolding msum_def by (intro sum_mono) auto

lemma msum_ge_member:
  assumes "finite (dom m)" "m k = Some x" "\<And>k x. m k = Some x \<Longrightarrow> 0 \<le> f k x"
  shows "f k x \<le> (msum m f :: int)"
proof -
  have "0 \<le> (\<Sum>j\<in>dom m - {k}. f j (the (m j)))" using assms(3) by (intro sum_nonneg) auto
  then show ?thesis using msum_split [OF assms(1), of f k] assms(2) by simp
qed

lemma msum_mult: "msum m (\<lambda>k x. c * f k x) = c * (msum m f :: int)"
  by (simp add: msum_def sum_distrib_left)

section \<open>The map of validators\<close>

definition vmap :: "Validators \<Rightarrow> address \<rightharpoonup> Validator \<times> ValidatorRewards" where
  "vmap vs a = (case GetValidator vs a of None \<Rightarrow> None
     | Some v \<Rightarrow> map_option (Pair v) (GetValidatorRewards vs a))"

lemma vmap_Some: "vmap vs a = Some (v, r) \<longleftrightarrow> GetValidator vs a = Some v \<and> GetValidatorRewards vs a = Some r"
  by (auto simp: vmap_def split: option.splits)

lemma vmap_wf:
  assumes "validators_wf vs"
  shows "finite (dom (vmap vs))" and "GetValidator vs a = Some v \<Longrightarrow> \<exists>r. vmap vs a = Some (v, r)"
    and "ValidatorExists vs a \<longleftrightarrow> vmap vs a \<noteq> None"
    and "GetValidator vs a = map_option fst (vmap vs a)"
proof -
  have "dom (vmap vs) \<subseteq> set (validators_list vs)"
    using assms by (auto simp: vmap_def validators_wf_def GetValidator_def split: option.splits)
  then show "finite (dom (vmap vs))" by (rule finite_subset) simp
  have e: "GetValidator vs a \<noteq> None \<longleftrightarrow> GetValidatorRewards vs a \<noteq> None"
    using validators_wf_exists [OF assms, of a] by blast
  then show "GetValidator vs a = Some v \<Longrightarrow> \<exists>r. vmap vs a = Some (v, r)" by (auto simp: vmap_def)
  show "ValidatorExists vs a \<longleftrightarrow> vmap vs a \<noteq> None"
    using e validators_wf_exists [OF assms, of a] by (auto simp: vmap_def split: option.splits)
  show "GetValidator vs a = map_option fst (vmap vs a)"
    using e by (auto simp: vmap_def split: option.splits)
qed

text \<open>Writing a validator and its rewards, as the handlers do at their end.\<close>

definition put_validator :: "Validators \<Rightarrow> address \<Rightarrow> Validator \<Rightarrow> ValidatorRewards \<Rightarrow> Validators option" where
  "put_validator vs a v r = do { vs \<leftarrow> ModifyValidator vs a v; ModifyValidatorRewards vs a r }"

lemma put_validator_upd:
  assumes "validators_wf vs" "vmap vs a \<noteq> None" "0 \<le> TotalStake v" "0 \<le> RewardsPool r" "0 \<le> CommissionRewardsPool r"
  shows "\<exists>vs'. put_validator vs a v r = Some vs' \<and> validators_wf vs' \<and> vmap vs' = (vmap vs)(a \<mapsto> (v, r)) \<and>
    validators_list vs' = validators_list vs"
proof -
  have ex: "ValidatorExists vs a" using vmap_wf(3) [OF assms(1)] assms(2) by simp
  let ?vs = "vs\<lparr>validator_field := (validator_field vs)(a \<mapsto> v),
    validator_rewards_field := (validator_rewards_field vs)(a \<mapsto> r)\<rparr>"
  have "put_validator vs a v r = Some ?vs"
    using ex assms by (simp add: put_validator_def validators_defs)
  moreover have "validators_wf ?vs"
    using assms ex by (auto simp: validators_wf_def ValidatorExists_def)
  moreover have "vmap ?vs = (vmap vs)(a \<mapsto> (v, r))"
    by (auto simp: vmap_def GetValidator_def GetValidatorRewards_def fun_eq_iff split: option.splits)
  ultimately show ?thesis by auto
qed

lemma ModifyValidator_upd:
  assumes "validators_wf vs" "vmap vs a = Some (v0, r)" "0 \<le> TotalStake v"
  shows "\<exists>vs'. ModifyValidator vs a v = Some vs' \<and> validators_wf vs' \<and> vmap vs' = (vmap vs)(a \<mapsto> (v, r)) \<and>
    validators_list vs' = validators_list vs"
proof -
  have ex: "ValidatorExists vs a" using vmap_wf(3) [OF assms(1)] assms(2) by simp
  let ?vs = "vs\<lparr>validator_field := (validator_field vs)(a \<mapsto> v)\<rparr>"
  have m: "ModifyValidator vs a v = Some ?vs" using ex assms(3) by simp
  moreover have "validators_wf ?vs" using ModifyValidator_wf [OF assms(1) m] .
  moreover have "vmap ?vs = (vmap vs)(a \<mapsto> (v, r))"
    using assms(2) by (auto simp: vmap_def GetValidator_def GetValidatorRewards_def fun_eq_iff split: option.splits)
  ultimately show ?thesis by auto
qed

lemma ModifyValidatorRewards_upd:
  assumes "validators_wf vs" "vmap vs a = Some (v, r0)" "0 \<le> RewardsPool r" "0 \<le> CommissionRewardsPool r"
  shows "\<exists>vs'. ModifyValidatorRewards vs a r = Some vs' \<and> validators_wf vs' \<and> vmap vs' = (vmap vs)(a \<mapsto> (v, r)) \<and>
    validators_list vs' = validators_list vs"
proof -
  have ex: "ValidatorExists vs a" using vmap_wf(3) [OF assms(1)] assms(2) by simp
  let ?vs = "vs\<lparr>validator_rewards_field := (validator_rewards_field vs)(a \<mapsto> r)\<rparr>"
  have m: "ModifyValidatorRewards vs a r = Some ?vs" using ex assms(3,4) by simp
  moreover have "validators_wf ?vs" using ModifyValidatorRewards_wf [OF assms(1) m] .
  moreover have "vmap ?vs = (vmap vs)(a \<mapsto> (v, r))"
    using assms(2) by (auto simp: vmap_def GetValidator_def GetValidatorRewards_def fun_eq_iff split: option.splits)
  ultimately show ?thesis by auto
qed

lemma DeleteValidator_upd:
  assumes "validators_wf vs" "vmap vs a \<noteq> None"
  shows "\<exists>vs'. DeleteValidator vs a = Some vs' \<and> validators_wf vs' \<and> vmap vs' = (vmap vs)(a := None) \<and>
    validators_list vs' = remove_item a (validators_list vs)"
proof -
  have ex: "ValidatorExists vs a" using vmap_wf(3) [OF assms(1)] assms(2) by simp
  then obtain vs' where m: "DeleteValidator vs a = Some vs'" using DeleteValidator_Some by blast
  moreover have "vmap vs' = (vmap vs)(a := None)" "validators_list vs' = remove_item a (validators_list vs)"
    using m by (auto simp: DeleteValidator_Some vmap_def GetValidator_def GetValidatorRewards_def fun_eq_iff
        split: option.splits)
  ultimately show ?thesis using DeleteValidator_wf [OF assms(1) m] by auto
qed

section \<open>Votes\<close>

definition votes :: "ChainConfig \<Rightarrow> int \<Rightarrow> u64 \<Rightarrow> int" where
  "votes c stake factor =
     (let effective = stake * uint factor div 10000
      in if factor = 0 \<or> effective < EligibilityBalanceThreshold (DPOS c) then 0
         else effective div VoteEligibilityBalanceStep (DPOS c))"

definition cfg_ok :: "ChainConfig \<Rightarrow> bool" where
  "cfg_ok c \<longleftrightarrow> 0 < EligibilityBalanceThreshold (DPOS c) \<and> 0 < VoteEligibilityBalanceStep (DPOS c) \<and>
     0 < ValidatorMaximumStake (DPOS c) \<and> 0 < MinimumDeposit (DPOS c)"

lemma votes_nonneg: "cfg_ok c \<Longrightarrow> 0 \<le> votes c stake factor"
  by (auto simp: votes_def Let_def cfg_ok_def pos_imp_zdiv_nonneg_iff)

lemma votes_zero: "cfg_ok c \<Longrightarrow> votes c 0 factor = 0"
  by (simp add: votes_def cfg_ok_def)

lemma votes_le:
  assumes "cfg_ok c" "0 \<le> stake" "factor \<le> 10000"
  shows "votes c stake factor * VoteEligibilityBalanceStep (DPOS c) \<le> stake"
proof -
  let ?e = "stake * uint factor div 10000"
  have "uint factor \<le> 10000" using assms(3) by (simp add: word_le_def)
  then have "stake * uint factor \<le> stake * 10000" using assms(2) by (rule mult_left_mono)
  then have "?e \<le> stake * 10000 div 10000" by (rule zdiv_mono1) simp
  then have e: "?e \<le> stake" by simp
  have "?e div VoteEligibilityBalanceStep (DPOS c) * VoteEligibilityBalanceStep (DPOS c) \<le> ?e"
    using assms(1) by (intro div_mult_le) (simp add: cfg_ok_def)
  with e assms(2) show ?thesis by (simp add: votes_def Let_def)
qed

lemma sint_small: "factor \<le> 10000 \<Longrightarrow> sint (factor :: u64) = uint factor"
proof -
  assume "factor \<le> 10000"
  then have "uint factor < 2 ^ 63" by (simp add: word_le_def)
  moreover have "- (2 ^ 63) \<le> uint factor" by (rule order_trans [of _ 0]) simp_all
  ultimately have "signed_take_bit 63 (uint factor) = uint factor" by (intro signed_take_bit_int_eq_self) simp_all
  then show ?thesis by (simp add: sint_uint)
qed

lemma voteCountWithFactor_votes:
  assumes "cfg_ok c" "0 \<le> stake" "factor \<le> 10000"
  shows "voteCountWithFactor stake c block factor = Some (word_of_int (votes c stake factor))"
proof -
  have b: "sint BasisPointsScale = 10000" by (simp add: BasisPointsScale_def sint_small)
  have "0 \<le> stake * uint factor div 10000" using assms(2) by (simp add: pos_imp_zdiv_nonneg_iff)
  then have "0 \<le> stake * uint factor div 10000 div VoteEligibilityBalanceStep (DPOS c)"
    using assms(1) by (simp add: pos_imp_zdiv_nonneg_iff cfg_ok_def)
  then show ?thesis
    using assms(1) by (auto simp: voteCountWithFactor_def votes_def b sint_small [OF assms(3)] cfg_ok_def
        big_Uint64_def Let_def)
qed

text \<open>
  A change of one validator's votes, when the total is the sum \<open>p + rest\<close> and the new total fits.
\<close>

lemma update_vote_count_total:
  assumes total: "uint (eligible_vote_count self) = p + rest" and r: "0 \<le> rest" "0 \<le> p" "0 \<le> n"
    and fits: "n + rest < 2 ^ 64"
  shows "\<exists>c. update_vote_count (word_of_int p) (word_of_int n) self = Some (self\<lparr>eligible_vote_count := c\<rparr>) \<and>
    uint c = n + rest"
proof -
  have bound: "p + rest < 2 ^ 64" using total unat_u64_less [of "eligible_vote_count self"]
    by (metis uint_nat of_nat_less_iff of_nat_power of_nat_numeral)
  have p: "uint (word_of_int p :: u64) = p" using bound r by (simp add: uint_word_of_int_eq take_bit_int_eq_self)
  have n: "uint (word_of_int n :: u64) = n" using fits r by (simp add: uint_word_of_int_eq take_bit_int_eq_self)
  have e: "eligible_vote_count self = word_of_int (p + rest)" using total by (metis word_of_int_uint)
  have sub: "eligible_vote_count self - word_of_int p = word_of_int rest" by (simp add: e)
  have rest: "uint (word_of_int rest :: u64) = rest" using bound r by (simp add: uint_word_of_int_eq take_bit_int_eq_self)
  show ?thesis
  proof (cases "(word_of_int p :: u64) = word_of_int n")
    case True
    then have "p = n" using p n by metis
    then show ?thesis using total
      by (intro exI [of _ "eligible_vote_count self"]) (simp add: update_vote_count_def)
  next
    case False
    have "int (unat (word_of_int rest :: u64) + unat (word_of_int n :: u64)) < 2 ^ 64"
      using rest n fits by simp
    then have "unat (word_of_int rest :: u64) + unat (word_of_int n :: u64) < 2 ^ 64"
      by (metis of_nat_less_iff of_nat_power of_nat_numeral)
    then have "add64p (word_of_int rest) (word_of_int n) = Some (word_of_int (n + rest))"
      by (simp add: add64p_Some add.commute)
    moreover have "uint (word_of_int (n + rest) :: u64) = n + rest"
      using fits r by (simp add: uint_word_of_int_eq take_bit_int_eq_self del: of_int_add)
    ultimately show ?thesis using False sub
      by (intro exI [of _ "word_of_int (n + rest)"]) (simp add: update_vote_count_def del: of_int_add)
  qed
qed

section \<open>The invariant\<close>

definition liability :: "int \<Rightarrow> states \<Rightarrow> Delegations \<Rightarrow> address \<Rightarrow> Validator \<times> ValidatorRewards \<Rightarrow> int" where
  "liability M S ds a = (\<lambda>(v, r). M * (TotalStake v + RewardsPool r + CommissionRewardsPool r) + accrued S ds a v)"

definition total_stake :: "Contract \<Rightarrow> int" where
  "total_stake self = msum (vmap (validators self)) (\<lambda>_ (v, _). TotalStake v)"

definition total_votes :: "Contract \<Rightarrow> int" where
  "total_votes self = msum (vmap (validators self))
     (\<lambda>a (v, _). votes (cfg self) (TotalStake v) (getVotingPowerFactor self a))"

definition total_pending :: "Contract \<Rightarrow> int" where
  "total_pending self = msum (undelegations_field (undelegations self)) (\<lambda>_ u. Amount u)"

abbreviation max_stake :: "Contract \<Rightarrow> int" where
  "max_stake self \<equiv> ValidatorMaximumStake (DPOS (cfg self))"

definition total_liability :: "Contract \<Rightarrow> int" where
  "total_liability self =
     msum (vmap (validators self)) (liability (max_stake self) (field_state self) (delegations self)) +
     max_stake self * total_pending self"

definition stores_wf :: "Contract \<Rightarrow> bool" where
  "stores_wf self \<longleftrightarrow>
     validators_wf (validators self) \<and> delegations_wf (delegations self) \<and>
     undelegations_wf (undelegations self) \<and> finite (dom (undelegations_field (undelegations self))) \<and>
     (\<forall>d v x. GetDelegation (delegations self) d v = Some x \<longrightarrow>
        0 < Stake x \<and> GetValidator (validators self) v \<noteq> None) \<and>
     (\<forall>k u. undelegations_field (undelegations self) k = Some u \<longrightarrow> 0 < Amount u)"

definition validator_ok :: "blocknum \<Rightarrow> Contract \<Rightarrow> address \<Rightarrow> Validator \<Rightarrow> bool" where
  "validator_ok now self a v \<longleftrightarrow>
     V_LastUpdated v \<le> now \<and> Commission v \<le> 10000 \<and> acc_inv (field_state self) (delegations self) a v"

text \<open>
  \<open>extra\<close> is the part of the contract's balance that is not accounted for yet: the value of the
  call, which the EVM transfers before it runs the contract.
\<close>

definition dpos_inv :: "blocknum \<Rightarrow> int \<Rightarrow> Contract \<Rightarrow> bool" where
  "dpos_inv now extra self \<longleftrightarrow>
     cfg_ok (cfg self) \<and> stores_wf self \<and>
     (\<forall>a. getVotingPowerFactor self a \<le> 10000) \<and>
     (\<forall>v b st. field_state self (v, b) = Some st \<longrightarrow> b \<le> now \<and> 0 \<le> RewardsPer1Stake st) \<and>
     (\<forall>a v. GetValidator (validators self) a = Some v \<longrightarrow> validator_ok now self a v) \<and>
     amount_delegated self = word_of_int (total_stake self) \<and>
     uint (eligible_vote_count self) = total_votes self \<and>
     total_liability self \<le> max_stake self * (balances self dpos_contract_address - extra)"

lemma dpos_invD:
  assumes "dpos_inv now extra self"
  shows "cfg_ok (cfg self)" "validators_wf (validators self)" "delegations_wf (delegations self)"
    "undelegations_wf (undelegations self)" "finite (dom (undelegations_field (undelegations self)))"
    "getVotingPowerFactor self a \<le> 10000" "finite (dom (vmap (validators self)))"
    "0 < max_stake self"
    "GetDelegation (delegations self) d v = Some x \<Longrightarrow> 0 < Stake x"
    "GetDelegation (delegations self) d v = Some x \<Longrightarrow> GetValidator (validators self) v \<noteq> None"
    "GetValidator (validators self) a = Some val \<Longrightarrow> acc_inv (field_state self) (delegations self) a val"
    "GetValidator (validators self) a = Some val \<Longrightarrow> V_LastUpdated val \<le> now"
    "uint (eligible_vote_count self) = total_votes self"
    "total_liability self \<le> max_stake self * (balances self dpos_contract_address - extra)"
  using assms vmap_wf(1) [of "validators self"]
  by (simp_all add: dpos_inv_def stores_wf_def validator_ok_def cfg_ok_def)

lemma dpos_inv_amount:
  "dpos_inv now extra self \<Longrightarrow> undelegations_field (undelegations self) k = Some u \<Longrightarrow> 0 < Amount u"
  unfolding dpos_inv_def stores_wf_def by blast

lemma dpos_inv_states:
  "dpos_inv now extra self \<Longrightarrow> field_state self (v, b) = Some st \<Longrightarrow> b \<le> now \<and> 0 \<le> RewardsPer1Stake st"
  unfolding dpos_inv_def by blast

text \<open>What the invariant does not look at.\<close>

lemma dpos_inv_cong:
  assumes "validators c = validators c'" "delegations c = delegations c'" "undelegations c = undelegations c'"
    "field_state c = field_state c'" "field_voting_power_factor c = field_voting_power_factor c'" "cfg c = cfg c'"
    "amount_delegated c = amount_delegated c'" "eligible_vote_count c = eligible_vote_count c'" "balances c = balances c'"
  shows "dpos_inv now e c \<longleftrightarrow> dpos_inv now e c'"
  using assms by (simp add: dpos_inv_def stores_wf_def validator_ok_def total_liability_def total_pending_def total_stake_def
      total_votes_def getVotingPowerFactor_def)

lemma dpos_inv_evm_logs [simp]: "dpos_inv now e (self\<lparr>evm_logs := l\<rparr>) \<longleftrightarrow> dpos_inv now e self"
  by (rule dpos_inv_cong) simp_all

lemma dpos_inv_AddLog [simp]: "dpos_inv now e (AddLog l self) \<longleftrightarrow> dpos_inv now e self"
  by (simp add: AddLog_def)

section \<open>A step at one validator\<close>

lemma acc_inv_frame:
  assumes "\<And>b. S' (a, b) = S (a, b)" "delegations_wf ds" "delegations_wf ds'"
    and "\<And>d. GetDelegation ds' d a = GetDelegation ds d a"
  shows "acc_inv S' ds' a v \<longleftrightarrow> acc_inv S ds a v" and "accrued S' ds' a v = accrued S ds a v"
proof -
  have r: "rps S' a b = rps S a b" for b using assms(1) by (simp add: rps_def)
  have d: "dsum ds' a f = dsum ds a f" for f :: "Delegation \<Rightarrow> int" using assms by (simp add: dsum_Collect)
  show "acc_inv S' ds' a v \<longleftrightarrow> acc_inv S ds a v" by (simp add: acc_inv_def refs_def r d assms(1,4))
  show "accrued S' ds' a v = accrued S ds a v" by (simp add: accrued_def r d)
qed

lemma dpos_inv_step:
  assumes inv: "dpos_inv now e self" and now: "now \<le> now'"
    and old: "vmap (validators self) v = Some (val, rw)"
    and cfg: "cfg self' = cfg self"
    and fac: "\<And>a. getVotingPowerFactor self' a = getVotingPowerFactor self a"
    and vs: "validators_wf (validators self')" "vmap (validators self') = (vmap (validators self))(v \<mapsto> (val', rw'))"
    and ds: "deleg_upd (delegations self) d v y (delegations self')" and y: "\<And>x. y = Some x \<Longrightarrow> 0 < Stake x"
    and S: "\<And>v' b. v' \<noteq> v \<Longrightarrow> field_state self' (v', b) = field_state self (v', b)"
      "\<And>b st. field_state self' (v, b) = Some st \<Longrightarrow> b \<le> now' \<and> 0 \<le> RewardsPer1Stake st"
    and ok: "validator_ok now' self' v val'"
    and us: "undelegations_wf (undelegations self')"
      "undelegations_field (undelegations self') = (undelegations_field (undelegations self))(k := u)"
      "\<And>x. u = Some x \<Longrightarrow> 0 < Amount x"
    and am: "amount_delegated self' = amount_delegated self + word_of_int (TotalStake val' - TotalStake val)"
    and el: "uint (eligible_vote_count self') = uint (eligible_vote_count self) +
      votes (cfg self) (TotalStake val') (getVotingPowerFactor self v) - votes (cfg self) (TotalStake val) (getVotingPowerFactor self v)"
    and bal: "liability (max_stake self) (field_state self') (delegations self') v (val', rw') +
        max_stake self * opt_val Amount u + max_stake self * (balances self dpos_contract_address - e)
      \<le> liability (max_stake self) (field_state self) (delegations self) v (val, rw) +
        max_stake self * opt_val Amount (undelegations_field (undelegations self) k) +
        max_stake self * (balances self' dpos_contract_address - e')"
  shows "dpos_inv now' e' self'"
proof -
  note i = dpos_invD [OF inv]
  have wf': "delegations_wf (delegations self')"
    and get: "\<And>d' v'. GetDelegation (delegations self') d' v' = (if d' = d \<and> v' = v then y else GetDelegation (delegations self) d' v')"
    using ds by (auto simp: deleg_upd_def)
  have gv: "GetValidator (validators self') a = (if a = v then Some val' else GetValidator (validators self) a)" for a
    using vmap_wf(4) [OF vs(1), of a] vmap_wf(4) [OF i(2), of a] vs(2) by simp
  have fr: "acc_inv (field_state self') (delegations self') a w \<longleftrightarrow> acc_inv (field_state self) (delegations self) a w"
      "accrued (field_state self') (delegations self') a w = accrued (field_state self) (delegations self) a w"
    if "a \<noteq> v" for a w
    using that by (intro acc_inv_frame; simp add: S(1) i(3) wf' get)+
  have pend: "total_pending self' = total_pending self + opt_val Amount u - opt_val Amount (undelegations_field (undelegations self) k)"
    by (simp add: total_pending_def us(2) msum_upd [OF i(5)])
  then have pendM: "max_stake self * total_pending self' = max_stake self * total_pending self +
      max_stake self * opt_val Amount u - max_stake self * opt_val Amount (undelegations_field (undelegations self) k)"
    by (simp only: distrib_left right_diff_distrib)
  have stores: "stores_wf self'"
    unfolding stores_wf_def
  proof (intro conjI allI impI)
    show "validators_wf (validators self')" "delegations_wf (delegations self')" "undelegations_wf (undelegations self')"
      by fact+
    show "finite (dom (undelegations_field (undelegations self')))" using i(5) by (simp add: us(2))
    show "0 < Amount w" if "undelegations_field (undelegations self') j = Some w" for j w
      using that us(3) dpos_inv_amount [OF inv] by (auto simp only: us(2) fun_upd_apply split: if_splits)
    show "0 < Stake x" if "GetDelegation (delegations self') d' v' = Some x" for d' v' x
      using that y i(9) by (auto simp: get split: if_splits)
    show "GetValidator (validators self') v' \<noteq> None" if "GetDelegation (delegations self') d' v' = Some x" for d' v' x
      using that i(10) by (auto simp: get gv split: if_splits)
  qed
  have valok: "validator_ok now' self' a w" if "GetValidator (validators self') a = Some w" for a w
    using that ok inv fr [of a w]
    by (auto simp: gv dpos_inv_def validator_ok_def split: if_splits intro: order_trans [OF _ now])
  have stk: "total_stake self' = total_stake self + TotalStake val' - TotalStake val"
    by (simp add: total_stake_def vs(2) msum_upd [OF i(7)] old)
  have vts: "total_votes self' = total_votes self +
      votes (cfg self) (TotalStake val') (getVotingPowerFactor self v) - votes (cfg self) (TotalStake val) (getVotingPowerFactor self v)"
    by (simp add: total_votes_def vs(2) msum_upd [OF i(7)] old cfg fac)
  let ?L = "liability (max_stake self) (field_state self') (delegations self')"
  let ?Lold = "liability (max_stake self) (field_state self) (delegations self)"
  have "msum ((vmap (validators self))(v := None)) ?L = msum ((vmap (validators self))(v := None)) ?Lold"
    using fr(2) by (intro msum_cong) (auto simp: liability_def split: if_splits)
  then have "msum (vmap (validators self)) ?L - ?L v (val, rw) = msum (vmap (validators self)) ?Lold - ?Lold v (val, rw)"
    by (simp add: msum_upd [OF i(7)] old)
  then have "msum (vmap (validators self')) ?L = msum (vmap (validators self)) ?Lold + ?L v (val', rw') - ?Lold v (val, rw)"
    by (simp add: vs(2) msum_upd [OF i(7)] old)
  then have lia: "total_liability self' \<le> max_stake self' * (balances self' dpos_contract_address - e')"
    using bal i(14) pendM by (simp add: total_liability_def cfg right_diff_distrib)
  have "amount_delegated self' = word_of_int (total_stake self')"
    using inv am by (simp add: stk dpos_inv_def)
  moreover have "b \<le> now' \<and> 0 \<le> RewardsPer1Stake st" if "field_state self' (v', b) = Some st" for v' b st
    using that S dpos_inv_states [OF inv, of v' b st] now by (cases "v' = v") (auto intro: order_trans)
  ultimately show ?thesis
    using stores valok lia el vts i(1,6,13) by (simp add: dpos_inv_def cfg fac)
qed

end
