(* ===== verification/Dpos_Handlers.thy ===== *)
theory Dpos_Handlers
  imports Dpos_Invariant
begin

text \<open>
  The handlers keep the invariant and do not panic. Each theorem says: called in a state that
  satisfies the invariant, the handler returns; on an error it leaves the contract unchanged;
  on success the invariant holds again (so the contract is still solvent) and the stakes have
  changed as asked.
\<close>

section \<open>Building blocks\<close>

lemma dec_state_absorb: "(dec_state (S(k \<mapsto> st)) k')(k \<mapsto> st') = (dec_state S k')(k \<mapsto> st')"
  by (cases "k' = k") (auto simp: dec_state_def fun_eq_iff split: option.splits)

lemma settle_after_sync:
  assumes acc: "acc_inv (S1((v, block) \<mapsto> st)) ds v val1" and wf: "delegations_wf ds"
    and b: "V_LastUpdated val1 = block" "V_LastUpdated val' = block"
    and fresh: "\<And>d x. S1 (v, block) = None \<Longrightarrow> GetDelegation ds d v = Some x \<Longrightarrow> D_LastUpdated x \<noteq> block"
    and same: "S1 (v, block) = Some st \<or> S1 (v, block) = None"
    and cnt: "uint (Count st) + 1 < 2 ^ 32"
    and upd: "deleg_upd ds d v y ds'" and yb: "\<And>y'. y = Some y' \<Longrightarrow> D_LastUpdated y' = block"
    and S': "S' = (case GetDelegation ds d v of None \<Rightarrow> S1 | Some x \<Rightarrow> dec_state S1 (v, D_LastUpdated x))
      ((v, block) \<mapsto> st\<lparr>Count := Count st + (if y = None then 0 else 1)\<rparr>)"
    and T: "TotalStake val' = TotalStake val1 + opt_val Stake y - opt_val Stake (GetDelegation ds d v)"
  shows "acc_inv S' ds' v val'"
    and "accrued S' ds' v val' + opt_val (\<lambda>x. (RewardsPer1Stake st - rps S1 v (D_LastUpdated x)) * Stake x)
      (GetDelegation ds d v) = accrued (S1((v, block) \<mapsto> st)) ds v val1"
proof -
  let ?S = "S1((v, block) \<mapsto> st)"
  have eq: "S' = (case GetDelegation ds d v of None \<Rightarrow> ?S | Some x \<Rightarrow> dec_state ?S (v, D_LastUpdated x))
      ((v, block) \<mapsto> st\<lparr>Count := Count st + (if y = None then 0 else 1)\<rparr>)"
    by (simp add: S' dec_state_absorb split: option.splits)
  have r: "rps S1 v (D_LastUpdated x) = rps ?S v (D_LastUpdated x)" if "GetDelegation ds d v = Some x" for x
    using fresh [OF _ that] same by (auto simp: rps_def)
  show "acc_inv S' ds' v val'"
    using acc_inv_settle(1) [OF acc wf b _ cnt upd yb eq T] by simp
  show "accrued S' ds' v val' + opt_val (\<lambda>x. (RewardsPer1Stake st - rps S1 v (D_LastUpdated x)) * Stake x)
      (GetDelegation ds d v) = accrued ?S ds v val1"
    using acc_inv_settle(2) [OF acc wf b _ cnt upd yb eq T] r
    by (cases "GetDelegation ds d v") (simp_all add: rps_upd_same)
qed

text \<open>A delegation's state is there to be settled, and it is not ahead of the state of the block.\<close>

lemma settle_state:
  assumes acc: "acc_inv (S1((v, block) \<mapsto> st)) ds v val1" and wf: "delegations_wf ds"
    and b: "V_LastUpdated val1 = block"
    and fresh: "\<And>d x. S1 (v, block) = None \<Longrightarrow> GetDelegation ds d v = Some x \<Longrightarrow> D_LastUpdated x \<noteq> block"
    and same: "S1 (v, block) = Some st \<or> S1 (v, block) = None"
    and x: "GetDelegation ds d v = Some x"
  obtains stx where "S1 (v, D_LastUpdated x) = Some stx" "0 \<le> RewardsPer1Stake stx"
    "RewardsPer1Stake stx \<le> RewardsPer1Stake st" "RewardsPer1Stake stx = rps S1 v (D_LastUpdated x)"
proof -
  let ?S = "S1((v, block) \<mapsto> st)"
  obtain stx where stx: "?S (v, D_LastUpdated x) = Some stx" "0 \<le> RewardsPer1Stake stx"
    using acc_inv_delegation_state [OF acc wf x] by metis
  then have s1: "S1 (v, D_LastUpdated x) = Some stx"
    using fresh [OF _ x] same by (auto split: if_splits)
  have "rps ?S v (D_LastUpdated x) \<le> rps ?S v block" using acc x b by (auto simp: acc_inv_def)
  moreover have "rps ?S v (D_LastUpdated x) = RewardsPer1Stake stx" unfolding rps_def stx(1) by simp
  ultimately have "RewardsPer1Stake stx \<le> RewardsPer1Stake st" by (simp add: rps_upd_same)
  with s1 stx(2) show thesis by (intro that) (auto simp: rps_def)
qed

lemma settle_delegation_exec:
  assumes stx: "field_state self (v, D_LastUpdated x) = Some stx" "0 \<le> RewardsPer1Stake stx"
      "RewardsPer1Stake stx \<le> RewardsPer1Stake st"
    and M: "0 < max_stake self" and s: "0 \<le> Stake x"
    and ctx: "Account ctx = dpos_contract_address" "CallerAccount ctx \<noteq> dpos_contract_address"
    and bal: "(RewardsPer1Stake st - RewardsPer1Stake stx) * Stake x \<le> max_stake self * balances self dpos_contract_address"
  shows "\<exists>reward b l. settle_delegation self ctx v st x =
      Some (self\<lparr>field_state := dec_state (field_state self) (v, D_LastUpdated x), balances := b, evm_logs := l\<rparr>) \<and>
    0 \<le> reward \<and> max_stake self * reward \<le> (RewardsPer1Stake st - RewardsPer1Stake stx) * Stake x \<and>
    b dpos_contract_address = balances self dpos_contract_address - reward \<and>
    b (CallerAccount ctx) = balances self (CallerAccount ctx) + reward"
proof -
  let ?o = "(RewardsPer1Stake st - RewardsPer1Stake stx) * Stake x" and ?M = "max_stake self"
  define reward where "reward = ?o div ?M"
  have r: "?M * reward \<le> ?o" using div_mult_le [OF M, of ?o] by (simp add: reward_def mult.commute)
  have r0: "0 \<le> reward" using M s stx(3) by (simp add: reward_def pos_imp_zdiv_nonneg_iff)
  have "?M * reward \<le> ?M * balances self dpos_contract_address" using r bal by linarith
  then have le: "reward \<le> balances self dpos_contract_address" using M by simp
  let ?S = "dec_state (field_state self) (v, D_LastUpdated x)"
  have e: "settle_delegation self ctx v st x =
      (if reward > 0 then do {
         c \<leftarrow> transferContractBalance ctx reward (self\<lparr>field_state := ?S\<rparr>);
         Some (AddLog (MakeRewardsClaimedLog (CallerAccount ctx) v reward) c)
       } else Some (self\<lparr>field_state := ?S\<rparr>))"
    using M stx by (simp add: settle_delegation_def state_get_and_decrement_Some calculateDelegatorReward_def reward_def)
  show ?thesis
  proof (cases "reward > 0")
    case True
    let ?b = "(balances self)(dpos_contract_address := balances self dpos_contract_address - reward,
      CallerAccount ctx := balances self (CallerAccount ctx) + reward)"
    have "settle_delegation self ctx v st x = Some (self\<lparr>field_state := ?S, balances := ?b,
        evm_logs := evm_logs self @ [MakeRewardsClaimedLog (CallerAccount ctx) v reward]\<rparr>)"
      using True le ctx by (simp add: e transferContractBalance_def AddBalance_def AddLog_def fun_upd_twist)
    then show ?thesis using r r0 ctx
      by (intro exI [of _ reward] exI [of _ ?b] exI conjI) (assumption | simp)+
  next
    case False
    then have z: "reward = 0" using r0 by simp
    have "self\<lparr>field_state := ?S\<rparr> = self\<lparr>field_state := ?S, balances := balances self, evm_logs := evm_logs self\<rparr>"
      by simp
    then show ?thesis using False r r0 z e
      by (intro exI [of _ 0] exI [of _ "balances self"] exI [of _ "evm_logs self"]) simp
  qed
qed

text \<open>The eligible votes fit as long as the total stake is below \<open>2^64\<close> voting steps.\<close>

lemma votes_room:
  assumes inv: "dpos_inv now e self" and old: "vmap (validators self) v = Some (val, rw)"
    and T': "0 \<le> T'" and room: "total_stake self - TotalStake val + T' < 2 ^ 64 * VoteEligibilityBalanceStep (DPOS (cfg self))"
  shows "0 \<le> total_votes self - votes (cfg self) (TotalStake val) (getVotingPowerFactor self v)"
    and "votes (cfg self) T' (getVotingPowerFactor self v) +
      (total_votes self - votes (cfg self) (TotalStake val) (getVotingPowerFactor self v)) < 2 ^ 64"
proof -
  note i = dpos_invD [OF inv]
  let ?vm = "vmap (validators self)" and ?step = "VoteEligibilityBalanceStep (DPOS (cfg self))"
  let ?f = "\<lambda>a (w :: Validator, r :: ValidatorRewards). votes (cfg self) (TotalStake w) (getVotingPowerFactor self a)"
  let ?g = "\<lambda>(a :: address) (w :: Validator, r :: ValidatorRewards). TotalStake w"
  have nonneg: "0 \<le> ?f a w" for a w using votes_nonneg [OF i(1)] by (cases w) simp
  show 0: "0 \<le> total_votes self - votes (cfg self) (TotalStake val) (getVotingPowerFactor self v)"
    using msum_ge_member [OF i(7) old, of ?f] nonneg by (simp add: total_votes_def)
  let ?vm' = "?vm(v \<mapsto> (val\<lparr>TotalStake := T'\<rparr>, rw))"
  have pos: "?vm' a = Some (w, r) \<Longrightarrow> 0 \<le> TotalStake w" for a w r
    using T' validators_wfD(1) [OF i(2), of a w] by (auto simp: vmap_Some split: if_splits)
  have "msum ?vm' (\<lambda>a w. ?step * ?f a w) \<le> msum ?vm' ?g"
    using votes_le [OF i(1) pos i(6)] by (intro msum_mono) (auto simp: mult.commute)
  then have "?step * msum ?vm' ?f \<le> msum ?vm' ?g" by (simp add: msum_mult)
  moreover have "msum ?vm' ?f = votes (cfg self) T' (getVotingPowerFactor self v) +
      (total_votes self - votes (cfg self) (TotalStake val) (getVotingPowerFactor self v))"
    by (simp add: msum_upd [OF i(7)] old total_votes_def)
  moreover have "msum ?vm' ?g = total_stake self - TotalStake val + T'"
    by (simp add: msum_upd [OF i(7)] old total_stake_def)
  moreover have "0 < ?step" using i(1) by (simp add: cfg_ok_def)
  ultimately show "votes (cfg self) T' (getVotingPowerFactor self v) +
      (total_votes self - votes (cfg self) (TotalStake val) (getVotingPowerFactor self v)) < 2 ^ 64"
    using room by (metis mult.commute mult_less_cancel_left_pos order_le_less_trans)
qed

text \<open>What a validator owes is covered by the balance.\<close>

lemma accrued_covered:
  assumes inv: "dpos_inv now e self" and old: "vmap (validators self) v = Some (val, rw)"
  shows "liability (max_stake self) (field_state self) (delegations self) v (val, rw) \<le>
    max_stake self * (balances self dpos_contract_address - e)"
    and "0 \<le> RewardsPool rw" "0 \<le> CommissionRewardsPool rw" "0 \<le> TotalStake val"
proof -
  note i = dpos_invD [OF inv]
  have pools: "0 \<le> RewardsPool r \<and> 0 \<le> CommissionRewardsPool r \<and> 0 \<le> TotalStake w"
    if "vmap (validators self) a = Some (w, r)" for a w r
    using that validators_wfD [OF i(2)] by (auto simp: vmap_Some)
  from pools [OF old] show "0 \<le> RewardsPool rw" "0 \<le> CommissionRewardsPool rw" "0 \<le> TotalStake val" by auto
  have "0 \<le> liability (max_stake self) (field_state self) (delegations self) a wr"
    if w: "vmap (validators self) a = Some wr" for a wr
  proof -
    obtain w r where wr: "wr = (w, r)" by (cases wr)
    have "0 \<le> accrued (field_state self) (delegations self) a w"
      using w i(11) [of a w] by (intro accrued_nonneg i(3)) (auto simp: wr vmap_Some)
    then show ?thesis using pools w i(8) by (auto simp: wr liability_def)
  qed
  from msum_ge_member [OF i(7) old, of "liability (max_stake self) (field_state self) (delegations self)", OF this]
  have "liability (max_stake self) (field_state self) (delegations self) v (val, rw) \<le>
      msum (vmap (validators self)) (liability (max_stake self) (field_state self) (delegations self))" .
  moreover have "0 \<le> total_pending self"
    unfolding total_pending_def using dpos_inv_amount [OF inv] by (intro msum_nonneg) (simp add: order_less_imp_le)
  then have "0 \<le> max_stake self * total_pending self" using i(8) by simp
  ultimately show "liability (max_stake self) (field_state self) (delegations self) v (val, rw) \<le>
    max_stake self * (balances self dpos_contract_address - e)"
    using i(14) unfolding total_liability_def by linarith
qed

section \<open>Changing a delegation\<close>

definition owed :: "State \<Rightarrow> states \<Rightarrow> address \<Rightarrow> Delegation option \<Rightarrow> int" where
  "owed st S1 v = opt_val (\<lambda>x. (RewardsPer1Stake st - rps S1 v (D_LastUpdated x)) * Stake x)"

definition settled_states :: "states \<Rightarrow> address \<Rightarrow> Delegation option \<Rightarrow> states" where
  "settled_states S1 v x = (case x of None \<Rightarrow> S1 | Some x \<Rightarrow> dec_state S1 (v, D_LastUpdated x))"

lemma syncedD:
  assumes "synced self v block val rw st rw1 S1"
  shows "acc_inv (S1((v, block) \<mapsto> st)) (delegations self) v (val\<lparr>V_LastUpdated := block\<rparr>)"
    and "S1 (v, block) = Some st \<or> S1 (v, block) = None"
    and "S1 (v, block) = None \<Longrightarrow> GetDelegation (delegations self) d v = Some x \<Longrightarrow> D_LastUpdated x \<noteq> block"
    and "0 \<le> RewardsPool rw \<Longrightarrow> 0 \<le> RewardsPool rw1" "CommissionRewardsPool rw1 = CommissionRewardsPool rw"
    and "(\<And>st. field_state self (v, block) = Some st \<Longrightarrow> uint (Count st) + 1 < 2 ^ 32) \<Longrightarrow> uint (Count st) + 1 < 2 ^ 32"
    and "0 \<le> RewardsPer1Stake st"
proof -
  have "acc_inv (S1((v, block) \<mapsto> st)) (delegations self) v (val\<lparr>V_LastUpdated := block\<rparr>)"
    using assms by (simp add: synced_def)
  moreover have "(S1((v, block) \<mapsto> st)) (v, block) = Some st" by simp
  ultimately show "0 \<le> RewardsPer1Stake st" unfolding acc_inv_def by blast
qed (use assms in \<open>auto simp: synced_def\<close>)

text \<open>What settling pays is covered: by what the validator owes, and so by the balance.\<close>

lemma owed_covered:
  assumes inv: "dpos_inv now e self" and old: "vmap (validators self) v = Some (val, rw)"
    and sy: "synced self v block val rw st rw1 S1" and e: "0 \<le> e"
  shows "owed st S1 v (GetDelegation (delegations self) d v) \<le> max_stake self * balances self dpos_contract_address"
proof -
  note i = dpos_invD [OF inv] and c = accrued_covered [OF inv old] and y = syncedD [OF sy]
  have "owed st S1 v (GetDelegation (delegations self) d v) \<le>
      accrued (S1((v, block) \<mapsto> st)) (delegations self) v (val\<lparr>V_LastUpdated := block\<rparr>)"
  proof (cases "GetDelegation (delegations self) d v")
    case None
    then show ?thesis using accrued_nonneg [OF y(1) i(3)] by (simp add: owed_def)
  next
    case (Some x)
    have "rps (S1((v, block) \<mapsto> st)) v (D_LastUpdated x) = rps S1 v (D_LastUpdated x)"
      using y(2) y(3) [OF _ Some] by (auto simp: rps_def)
    then show ?thesis using accrued_member [OF y(1) i(3) Some] Some by (simp add: owed_def rps_upd_same)
  qed
  moreover have "accrued (S1((v, block) \<mapsto> st)) (delegations self) v (val\<lparr>V_LastUpdated := block\<rparr>)
      \<le> max_stake self * RewardsPool rw + accrued (field_state self) (delegations self) v val"
  proof -
    have "0 \<le> max_stake self * RewardsPool rw1" using y(4) [OF c(2)] i(8) by simp
    then show ?thesis using sy unfolding synced_def by linarith
  qed
  moreover have "max_stake self * RewardsPool rw + accrued (field_state self) (delegations self) v val \<le>
      liability (max_stake self) (field_state self) (delegations self) v (val, rw)"
    using c(3,4) i(8) by (simp add: liability_def distrib_left)
  moreover have "max_stake self * (balances self dpos_contract_address - e) \<le> max_stake self * balances self dpos_contract_address"
    using e i(8) by simp
  ultimately show ?thesis using c(1) by linarith
qed

lemma increase_delegation_exec:
  assumes sy: "synced self v block val rw st rw1 S1" and wf: "delegations_wf (delegations self)"
    and c: "delegations c = delegations self" "cfg c = cfg self" "balances c = balances self"
    and M: "0 < max_stake self"
    and ctx: "Account ctx = dpos_contract_address" "CallerAccount ctx \<noteq> dpos_contract_address"
    and cov: "owed st S1 v (GetDelegation (delegations self) (CallerAccount ctx) v) \<le> max_stake self * balances self dpos_contract_address"
    and a: "0 \<le> amount"
  shows "\<exists>ds' y reward b l. increase_delegation (c\<lparr>field_state := S1\<rparr>) ctx v block st amount =
      Some (c\<lparr>field_state := settled_states S1 v (GetDelegation (delegations self) (CallerAccount ctx) v),
             balances := b, evm_logs := l, delegations := ds'\<rparr>) \<and>
    deleg_upd (delegations self) (CallerAccount ctx) v (Some y) ds' \<and> D_LastUpdated y = block \<and>
    Stake y = opt_val Stake (GetDelegation (delegations self) (CallerAccount ctx) v) + amount \<and>
    0 \<le> reward \<and> max_stake self * reward \<le> owed st S1 v (GetDelegation (delegations self) (CallerAccount ctx) v) \<and>
    b dpos_contract_address = balances self dpos_contract_address - reward"
proof (cases "GetDelegation (delegations self) (CallerAccount ctx) v")
  case None
  from CreateDelegation_upd [OF wf None a, of block] obtain ds' where
    ds': "CreateDelegation (delegations self) (CallerAccount ctx) v block amount = Some ds'"
      "deleg_upd (delegations self) (CallerAccount ctx) v (Some \<lparr>Stake = amount, D_LastUpdated = block\<rparr>) ds'"
    by blast
  have "c\<lparr>field_state := S1, delegations := ds'\<rparr> =
      c\<lparr>field_state := S1, balances := balances self, evm_logs := evm_logs c, delegations := ds'\<rparr>"
    by (simp flip: c(3))
  then show ?thesis using ds' None
    by (intro exI [of _ ds'] exI [of _ "\<lparr>Stake = amount, D_LastUpdated = block\<rparr>"] exI [of _ 0]
        exI [of _ "balances self"] exI [of _ "evm_logs c"])
      (simp add: increase_delegation_def c(1) settled_states_def owed_def)
next
  case (Some x)
  note y = syncedD [OF sy]
  obtain stx where stx: "S1 (v, D_LastUpdated x) = Some stx" "0 \<le> RewardsPer1Stake stx"
    "RewardsPer1Stake stx \<le> RewardsPer1Stake st" "RewardsPer1Stake stx = rps S1 v (D_LastUpdated x)"
    by (rule settle_state [OF y(1) wf _ y(3) y(2) Some]) auto
  have s: "0 \<le> Stake x" using delegations_wfD(4) [OF wf Some] .
  let ?c = "c\<lparr>field_state := S1\<rparr>"
  have "\<exists>reward b l. settle_delegation ?c ctx v st x =
      Some (?c\<lparr>field_state := dec_state (field_state ?c) (v, D_LastUpdated x), balances := b, evm_logs := l\<rparr>) \<and>
    0 \<le> reward \<and> max_stake ?c * reward \<le> (RewardsPer1Stake st - RewardsPer1Stake stx) * Stake x \<and>
    b dpos_contract_address = balances ?c dpos_contract_address - reward \<and>
    b (CallerAccount ctx) = balances ?c (CallerAccount ctx) + reward"
    using stx s M cov Some by (intro settle_delegation_exec ctx) (simp_all add: c owed_def)
  then obtain reward b l where r: "settle_delegation ?c ctx v st x =
      Some (c\<lparr>field_state := dec_state S1 (v, D_LastUpdated x), balances := b, evm_logs := l\<rparr>)"
    "0 \<le> reward" "max_stake self * reward \<le> (RewardsPer1Stake st - RewardsPer1Stake stx) * Stake x"
    "b dpos_contract_address = balances self dpos_contract_address - reward" by (auto simp: c)
  let ?y = "x\<lparr>Stake := Stake x + amount, D_LastUpdated := block\<rparr>"
  have "\<exists>ds'. ModifyDelegation (delegations self) (CallerAccount ctx) v ?y = Some ds' \<and>
      deleg_upd (delegations self) (CallerAccount ctx) v (Some ?y) ds'"
    using Some s a by (intro ModifyDelegation_upd wf) auto
  then obtain ds' where ds': "ModifyDelegation (delegations self) (CallerAccount ctx) v ?y = Some ds'"
      "deleg_upd (delegations self) (CallerAccount ctx) v (Some ?y) ds'" by blast
  show ?thesis using r ds' Some stx(4)
    by (intro exI [of _ ds'] exI [of _ ?y] exI [of _ reward] exI [of _ b] exI [of _ l])
      (simp add: increase_delegation_def c(1) settled_states_def owed_def)
qed

lemma decrease_delegation_exec:
  assumes sy: "synced self v block val rw st rw1 S1" and wf: "delegations_wf (delegations self)"
    and c: "delegations c = delegations self" "cfg c = cfg self" "balances c = balances self"
    and M: "0 < max_stake self"
    and ctx: "Account ctx = dpos_contract_address" "CallerAccount ctx \<noteq> dpos_contract_address"
    and cov: "owed st S1 v (GetDelegation (delegations self) (CallerAccount ctx) v) \<le> max_stake self * balances self dpos_contract_address"
    and x: "GetDelegation (delegations self) (CallerAccount ctx) v = Some x"
    and a: "amount \<le> Stake x"
  shows "\<exists>ds' y reward b l. decrease_delegation (c\<lparr>field_state := S1\<rparr>) ctx v block st x amount =
      Some (st\<lparr>Count := Count st + (if y = None then 0 else 1)\<rparr>,
            c\<lparr>field_state := settled_states S1 v (Some x), balances := b, evm_logs := l, delegations := ds'\<rparr>) \<and>
    deleg_upd (delegations self) (CallerAccount ctx) v y ds' \<and> (\<forall>y'. y = Some y' \<longrightarrow> D_LastUpdated y' = block \<and> 0 < Stake y') \<and>
    opt_val Stake y = Stake x - amount \<and>
    0 \<le> reward \<and> max_stake self * reward \<le> owed st S1 v (Some x) \<and>
    b dpos_contract_address = balances self dpos_contract_address - reward"
proof -
  note y = syncedD [OF sy]
  obtain stx where stx: "S1 (v, D_LastUpdated x) = Some stx" "0 \<le> RewardsPer1Stake stx"
    "RewardsPer1Stake stx \<le> RewardsPer1Stake st" "RewardsPer1Stake stx = rps S1 v (D_LastUpdated x)"
    by (rule settle_state [OF y(1) wf _ y(3) y(2) x]) auto
  have s: "0 \<le> Stake x" using delegations_wfD(4) [OF wf x] .
  let ?c = "c\<lparr>field_state := S1\<rparr>"
  have "\<exists>reward b l. settle_delegation ?c ctx v st x =
      Some (?c\<lparr>field_state := dec_state (field_state ?c) (v, D_LastUpdated x), balances := b, evm_logs := l\<rparr>) \<and>
    0 \<le> reward \<and> max_stake ?c * reward \<le> (RewardsPer1Stake st - RewardsPer1Stake stx) * Stake x \<and>
    b dpos_contract_address = balances ?c dpos_contract_address - reward \<and>
    b (CallerAccount ctx) = balances ?c (CallerAccount ctx) + reward"
    using stx s M cov x by (intro settle_delegation_exec ctx) (simp_all add: c owed_def)
  then obtain reward b l where r: "settle_delegation ?c ctx v st x =
      Some (c\<lparr>field_state := dec_state S1 (v, D_LastUpdated x), balances := b, evm_logs := l\<rparr>)"
    "0 \<le> reward" "max_stake self * reward \<le> (RewardsPer1Stake st - RewardsPer1Stake stx) * Stake x"
    "b dpos_contract_address = balances self dpos_contract_address - reward" by (auto simp: c)
  show ?thesis
  proof (cases "Stake x = amount")
    case True
    obtain ds' where ds': "RemoveDelegation (delegations self) (CallerAccount ctx) v = Some ds'"
      "deleg_upd (delegations self) (CallerAccount ctx) v None ds'"
      using RemoveDelegation_upd [OF wf, of "CallerAccount ctx" v] x by auto
    show ?thesis using r ds' stx(4) True
      by (intro exI [of _ ds'] exI [of _ None] exI [of _ reward] exI [of _ b] exI [of _ l])
        (simp add: decrease_delegation_def c(1) settled_states_def owed_def)
  next
    case False
    let ?y = "x\<lparr>Stake := Stake x - amount, D_LastUpdated := block\<rparr>"
    have "\<exists>ds'. ModifyDelegation (delegations self) (CallerAccount ctx) v ?y = Some ds' \<and>
        deleg_upd (delegations self) (CallerAccount ctx) v (Some ?y) ds'"
      using x a by (intro ModifyDelegation_upd wf) auto
    then obtain ds' where ds': "ModifyDelegation (delegations self) (CallerAccount ctx) v ?y = Some ds'"
        "deleg_upd (delegations self) (CallerAccount ctx) v (Some ?y) ds'" by blast
    show ?thesis using r ds' stx(4) False a
      by (intro exI [of _ ds'] exI [of _ "Some ?y"] exI [of _ reward] exI [of _ b] exI [of _ l])
        (simp add: decrease_delegation_def c(1) settled_states_def owed_def Let_def)
  qed
qed

lemma store_validator_exec:
  assumes "validators_wf (validators c)" "vmap (validators c) v \<noteq> None" "0 \<le> RewardsPer1Stake st"
    "0 \<le> TotalStake val'" "0 \<le> RewardsPool rw'" "0 \<le> CommissionRewardsPool rw'"
  shows "\<exists>vs'. store_validator v block st val' rw' c =
      Some (c\<lparr>field_state := (field_state c)((v, block) \<mapsto> st), validators := vs'\<rparr>) \<and>
    validators_wf vs' \<and> vmap vs' = (vmap (validators c))(v \<mapsto> (val', rw')) \<and>
    validators_list vs' = validators_list (validators c)"
proof -
  obtain vs' where vs': "put_validator (validators c) v val' rw' = Some vs'" "validators_wf vs'"
      "vmap vs' = (vmap (validators c))(v \<mapsto> (val', rw'))" "validators_list vs' = validators_list (validators c)"
    using put_validator_upd [OF assms(1,2,4,5,6)] by blast
  then obtain vs1 where "ModifyValidator (validators c) v val' = Some vs1" "ModifyValidatorRewards vs1 v rw' = Some vs'"
    by (auto simp del: ModifyValidator_Some ModifyValidatorRewards_Some simp: put_validator_def bind_eq_Some_conv)
  then have "store_validator v block st val' rw' c =
      Some (c\<lparr>field_state := (field_state c)((v, block) \<mapsto> st), validators := vs'\<rparr>)"
    using assms(3) by (simp add: store_validator_def state_put_def del: ModifyValidator_Some ModifyValidatorRewards_Some)
  with vs' show ?thesis by blast
qed

text \<open>
  The invariant after a delegation of one validator has changed from \<open>x\<close> to \<open>y\<close>: what went into
  the stake came from the value of the call or from a pending undelegation.
\<close>

lemma delegation_change:
  assumes inv: "dpos_inv block e self" and old: "vmap (validators self) v = Some (val, rw)"
    and sy: "synced self v block val rw st rw1 S1"
    and cnt: "\<And>st. field_state self (v, block) = Some st \<Longrightarrow> uint (Count st) + 1 < 2 ^ 32"
    and ds: "deleg_upd (delegations self) d v y (delegations self')"
    and y: "\<And>y'. y = Some y' \<Longrightarrow> D_LastUpdated y' = block \<and> 0 < Stake y'"
    and S': "field_state self' = (settled_states S1 v (GetDelegation (delegations self) d v))
      ((v, block) \<mapsto> st\<lparr>Count := Count st + (if y = None then 0 else 1)\<rparr>)"
    and val': "V_LastUpdated val' = block" "Commission val' = Commission val"
      "TotalStake val' = TotalStake val + opt_val Stake y - opt_val Stake (GetDelegation (delegations self) d v)"
    and cfg: "cfg self' = cfg self" and fac: "field_voting_power_factor self' = field_voting_power_factor self"
    and vs: "validators_wf (validators self')" "vmap (validators self') = (vmap (validators self))(v \<mapsto> (val', rw1))"
    and us: "undelegations_wf (undelegations self')"
      "undelegations_field (undelegations self') = (undelegations_field (undelegations self))(k := u)"
      "\<And>x. u = Some x \<Longrightarrow> 0 < Amount x"
    and am: "amount_delegated self' = amount_delegated self + word_of_int (TotalStake val' - TotalStake val)"
    and el: "uint (eligible_vote_count self') = votes (cfg self) (TotalStake val') (getVotingPowerFactor self v) +
      (total_votes self - votes (cfg self) (TotalStake val) (getVotingPowerFactor self v))"
    and bal: "max_stake self * reward \<le> owed st S1 v (GetDelegation (delegations self) d v)"
      "balances self' dpos_contract_address = balances self dpos_contract_address - reward"
    and e: "TotalStake val' - TotalStake val + opt_val Amount u - opt_val Amount (undelegations_field (undelegations self) k) = e - e'"
  shows "dpos_inv block e' self'"
proof -
  note i = dpos_invD [OF inv] and z = syncedD [OF sy] and c = accrued_covered [OF inv old]
  let ?val1 = "val\<lparr>V_LastUpdated := block\<rparr>" and ?M = "max_stake self"
  have T: "TotalStake val' = TotalStake ?val1 + opt_val Stake y - opt_val Stake (GetDelegation (delegations self) d v)"
    using val'(3) by simp
  have acc: "acc_inv (field_state self') (delegations self') v val'"
    and accr: "accrued (field_state self') (delegations self') v val' + owed st S1 v (GetDelegation (delegations self) d v) =
      accrued (S1((v, block) \<mapsto> st)) (delegations self) v ?val1"
    unfolding owed_def
    using y by (intro settle_after_sync [OF z(1) i(3) _ val'(1) z(3) z(2) z(6) ds _ S' [unfolded settled_states_def] T] cnt; simp)+
  have accr1: "?M * RewardsPool rw1 + accrued (S1((v, block) \<mapsto> st)) (delegations self) v ?val1
      \<le> ?M * RewardsPool rw + accrued (field_state self) (delegations self) v val"
    using sy unfolding synced_def by simp
  show ?thesis
  proof (rule dpos_inv_step [OF inv order_refl old cfg _ vs ds _ _ _ _ us am])
    show "getVotingPowerFactor self' a = getVotingPowerFactor self a" for a
      by (simp add: getVotingPowerFactor_def fac)
    show "0 < Stake x" if "y = Some x" for x using y [OF that] by simp
    show "field_state self' (v', b) = field_state self (v', b)" if "v' \<noteq> v" for v' b
    proof -
      have "settled_states S1 v (GetDelegation (delegations self) d v) (v', b) = S1 (v', b)"
        using that by (simp add: settled_states_def dec_state_other split: option.splits)
      then show ?thesis using that sy by (simp add: S' synced_def)
    qed
    show "b \<le> block \<and> 0 \<le> RewardsPer1Stake st'" if "field_state self' (v, b) = Some st'" for b st'
      using that acc val'(1) by (auto simp: acc_inv_def)
    show "validator_ok block self' v val'"
      using acc val' inv old by (auto simp: validator_ok_def dpos_inv_def vmap_Some)
    show "uint (eligible_vote_count self') = uint (eligible_vote_count self) +
        votes (cfg self) (TotalStake val') (getVotingPowerFactor self v) -
        votes (cfg self) (TotalStake val) (getVotingPowerFactor self v)"
      using el i(13) by simp
    have "?M * (TotalStake val' - TotalStake val + opt_val Amount u - opt_val Amount (undelegations_field (undelegations self) k)) =
        ?M * (e - e')" using e by simp
    then show "liability ?M (field_state self') (delegations self') v (val', rw1) + ?M * opt_val Amount u +
        ?M * (balances self dpos_contract_address - e)
      \<le> liability ?M (field_state self) (delegations self) v (val, rw) +
        ?M * opt_val Amount (undelegations_field (undelegations self) k) +
        ?M * (balances self' dpos_contract_address - e')"
      using accr accr1 bal z(5) by (simp add: liability_def right_diff_distrib distrib_left)
  qed
qed

end
