(* ===== verification/Dpos_Steps.thy ===== *)
theory Dpos_Steps
  imports Dpos_Handlers
begin

text \<open>
  The steps that the handlers of the DPoS contract are made of, each shown to run without a panic
  and to keep the invariant: adding to and taking from a delegation, changing a validator's votes,
  creating and removing an undelegation, and removing or adding a validator.
\<close>

definition stake_of :: "Contract \<Rightarrow> address \<Rightarrow> address \<Rightarrow> int" where
  "stake_of self d v = opt_val Stake (GetDelegation (delegations self) d v)"

text \<open>The room an operation needs: votes below \<open>2^64\<close>, references below \<open>2^32\<close>.\<close>

definition room :: "Contract \<Rightarrow> address \<Rightarrow> blocknum \<Rightarrow> int \<Rightarrow> bool" where
  "room self v block delta \<longleftrightarrow>
     total_stake self + delta < 2 ^ 64 * VoteEligibilityBalanceStep (DPOS (cfg self)) \<and>
     (\<forall>st. field_state self (v, block) = Some st \<longrightarrow> uint (Count st) + 1 < 2 ^ 32)"

definition frame_ok :: "CallFrame \<Rightarrow> bool" where
  "frame_ok ctx \<longleftrightarrow> Account ctx = dpos_contract_address \<and> CallerAccount ctx \<noteq> dpos_contract_address"

lemma factor_field_state [simp]:
  "getVotingPowerFactor (self\<lparr>field_state := S\<rparr>) = getVotingPowerFactor self"
  "getVotingPowerFactor (self\<lparr>undelegations := us\<rparr>) = getVotingPowerFactor self"
  by (auto simp: getVotingPowerFactor_def fun_eq_iff)

lemma synced_undelegations [simp]:
  "synced (self\<lparr>undelegations := us\<rparr>) v block val rw st rw1 S1 = synced self v block val rw st rw1 S1"
  by (simp add: synced_def)

text \<open>The votes of one validator change, and the total follows.\<close>

lemma vote_step:
  assumes inv: "dpos_inv now e self" and old: "vmap (validators self) v = Some (val, rw)"
    and T': "0 \<le> T'" "total_stake self - TotalStake val + T' < 2 ^ 64 * VoteEligibilityBalanceStep (DPOS (cfg self))"
    and c: "eligible_vote_count c = eligible_vote_count self"
  shows "\<exists>n. update_vote_count (word_of_int (votes (cfg self) (TotalStake val) (getVotingPowerFactor self v)))
      (word_of_int (votes (cfg self) T' (getVotingPowerFactor self v))) c = Some (c\<lparr>eligible_vote_count := n\<rparr>) \<and>
    uint n = votes (cfg self) T' (getVotingPowerFactor self v) +
      (total_votes self - votes (cfg self) (TotalStake val) (getVotingPowerFactor self v))"
  using votes_room [OF inv old T'] dpos_invD(13) [OF inv] votes_nonneg [OF dpos_invD(1) [OF inv]]
  by (intro update_vote_count_total) (simp_all add: c)

text \<open>
  The two ways a handler starts: bring the validator to the block, settle the caller's delegation,
  and add to it or take from it.
\<close>

lemma increase_step:
  assumes inv: "dpos_inv block e self" and old: "vmap (validators self) v = Some (val, rw)"
    and e: "0 \<le> e" and ctx: "frame_ok ctx"
    and a: "0 \<le> amount" "GetDelegation (delegations self) (CallerAccount ctx) v = None \<Longrightarrow> 0 < amount"
    and c: "field_state c = field_state self" "delegations c = delegations self" "cfg c = cfg self" "balances c = balances self"
  shows "\<exists>st rw1 S1 ds' y reward b l.
    current_state c v block val rw = Some (st, val\<lparr>V_LastUpdated := block\<rparr>, rw1, c\<lparr>field_state := S1\<rparr>) \<and>
    synced self v block val rw st rw1 S1 \<and>
    increase_delegation (c\<lparr>field_state := S1\<rparr>) ctx v block st amount =
      Some (c\<lparr>field_state := settled_states S1 v (GetDelegation (delegations self) (CallerAccount ctx) v),
             balances := b, evm_logs := l, delegations := ds'\<rparr>) \<and>
    deleg_upd (delegations self) (CallerAccount ctx) v (Some y) ds' \<and> D_LastUpdated y = block \<and> 0 < Stake y \<and>
    Stake y = opt_val Stake (GetDelegation (delegations self) (CallerAccount ctx) v) + amount \<and>
    max_stake self * reward \<le> owed st S1 v (GetDelegation (delegations self) (CallerAccount ctx) v) \<and>
    b dpos_contract_address = balances self dpos_contract_address - reward"
proof -
  note i = dpos_invD [OF inv] and k = accrued_covered [OF inv old]
  have val: "GetValidator (validators self) v = Some val" using old by (simp add: vmap_Some)
  have "\<exists>st rw1 S1. current_state c v block val rw =
      Some (st, val\<lparr>V_LastUpdated := block\<rparr>, rw1, c\<lparr>field_state := S1\<rparr>) \<and> synced c v block val rw st rw1 S1"
    using i(3,8) i(11,12) [OF val] k(2) by (intro current_state_acc) (simp_all add: c)
  then obtain st rw1 S1 where cs: "current_state c v block val rw =
      Some (st, val\<lparr>V_LastUpdated := block\<rparr>, rw1, c\<lparr>field_state := S1\<rparr>)"
    and sy: "synced self v block val rw st rw1 S1" by (auto simp: synced_def c)
  have fr: "Account ctx = dpos_contract_address" "CallerAccount ctx \<noteq> dpos_contract_address"
    using ctx by (auto simp: frame_ok_def)
  from increase_delegation_exec [OF sy i(3) c(2,3,4) i(8) fr owed_covered [OF inv old sy e] a(1)]
  obtain ds' y reward b l where inc: "increase_delegation (c\<lparr>field_state := S1\<rparr>) ctx v block st amount =
      Some (c\<lparr>field_state := settled_states S1 v (GetDelegation (delegations self) (CallerAccount ctx) v),
             balances := b, evm_logs := l, delegations := ds'\<rparr>)"
    and y: "deleg_upd (delegations self) (CallerAccount ctx) v (Some y) ds'" "D_LastUpdated y = block"
      "Stake y = opt_val Stake (GetDelegation (delegations self) (CallerAccount ctx) v) + amount"
      "max_stake self * reward \<le> owed st S1 v (GetDelegation (delegations self) (CallerAccount ctx) v)"
      "b dpos_contract_address = balances self dpos_contract_address - reward"
    by blast
  have "0 < Stake y"
    using a i(9) [of "CallerAccount ctx" v] y(3) by (cases "GetDelegation (delegations self) (CallerAccount ctx) v") fastforce+
  with cs sy inc y show ?thesis by blast
qed

lemma decrease_step:
  assumes inv: "dpos_inv block e self" and old: "vmap (validators self) v = Some (val, rw)"
    and e: "0 \<le> e" and ctx: "frame_ok ctx"
    and x: "GetDelegation (delegations self) (CallerAccount ctx) v = Some x" "amount \<le> Stake x"
  shows "\<exists>st rw1 S1 ds' y reward b l.
    current_state self v block val rw = Some (st, val\<lparr>V_LastUpdated := block\<rparr>, rw1, self\<lparr>field_state := S1\<rparr>) \<and>
    synced self v block val rw st rw1 S1 \<and>
    decrease_delegation (self\<lparr>field_state := S1\<rparr>) ctx v block st x amount =
      Some (st\<lparr>Count := Count st + (if y = None then 0 else 1)\<rparr>,
            self\<lparr>field_state := settled_states S1 v (Some x), balances := b, evm_logs := l, delegations := ds'\<rparr>) \<and>
    deleg_upd (delegations self) (CallerAccount ctx) v y ds' \<and>
    (\<forall>y'. y = Some y' \<longrightarrow> D_LastUpdated y' = block \<and> 0 < Stake y') \<and>
    opt_val Stake y = Stake x - amount \<and>
    max_stake self * reward \<le> owed st S1 v (Some x) \<and>
    b dpos_contract_address = balances self dpos_contract_address - reward"
proof -
  note i = dpos_invD [OF inv] and k = accrued_covered [OF inv old]
  have val: "GetValidator (validators self) v = Some val" using old by (simp add: vmap_Some)
  obtain st rw1 S1 where cs: "current_state self v block val rw =
      Some (st, val\<lparr>V_LastUpdated := block\<rparr>, rw1, self\<lparr>field_state := S1\<rparr>)"
    and sy: "synced self v block val rw st rw1 S1"
    using current_state_acc [OF i(11) [OF val] i(3) i(12) [OF val] k(2) i(8)] by blast
  have fr: "Account ctx = dpos_contract_address" "CallerAccount ctx \<noteq> dpos_contract_address"
    using ctx by (auto simp: frame_ok_def)
  show ?thesis
    using decrease_delegation_exec [OF sy i(3) refl refl refl i(8) fr owed_covered [OF inv old sy e] x] cs sy by blast
qed

text \<open>
  Adding to a delegation from the state of the block to the stored validator, as \<open>delegate\<close>,
  \<open>cancelUndelegate\<close> and the second half of \<open>redelegate\<close> do it. The contract \<open>c\<close> that runs may differ
  from \<open>self\<close> in its undelegations and in the amount delegated.
\<close>

lemma increase_stage:
  assumes inv: "dpos_inv block e self" and old: "vmap (validators self) v = Some (val, rw)"
    and e: "0 \<le> e" and ctx: "frame_ok ctx"
    and a: "0 \<le> amount" "GetDelegation (delegations self) (CallerAccount ctx) v = None \<Longrightarrow> 0 < amount"
    and room: "room self v block amount"
    and us: "undelegations_wf us" "undelegations_field us = (undelegations_field (undelegations self))(k := u)"
      "\<forall>x. u = Some x \<longrightarrow> 0 < Amount x"
    and e': "amount + opt_val Amount u - opt_val Amount (undelegations_field (undelegations self) k) = e - e'"
    and c: "c = self\<lparr>undelegations := us, amount_delegated := am0\<rparr>"
  shows "\<exists>st rw1 c1 c2 c3 c4.
    current_state c v block val rw = Some (st, val\<lparr>V_LastUpdated := block\<rparr>, rw1, c1) \<and>
    cfg c1 = cfg self \<and> getVotingPowerFactor c1 v = getVotingPowerFactor self v \<and>
    increase_delegation c1 ctx v block st amount = Some c2 \<and> cfg c2 = cfg self \<and> amount_delegated c2 = am0 \<and>
    update_vote_count (word_of_int (votes (cfg self) (TotalStake val) (getVotingPowerFactor self v)))
      (word_of_int (votes (cfg self) (TotalStake val + amount) (getVotingPowerFactor self v)))
      (c2\<lparr>amount_delegated := amount_delegated self + word_of_int amount\<rparr>) = Some c3 \<and>
    store_validator v block (st\<lparr>Count := Count st + 1\<rparr>)
      (val\<lparr>V_LastUpdated := block, TotalStake := TotalStake val + amount, UndelegationsCount := uc\<rparr>) rw1 c3 = Some c4 \<and>
    dpos_inv block e' c4 \<and> undelegations c4 = us \<and>
    (\<forall>d' v'. stake_of c4 d' v' = stake_of self d' v' + (if d' = CallerAccount ctx \<and> v' = v then amount else 0))"
proof -
  note i = dpos_invD [OF inv] and cov = accrued_covered [OF inv old]
  let ?d = "CallerAccount ctx" and ?x = "GetDelegation (delegations self) (CallerAccount ctx) v"
  have "field_state c = field_state self" "delegations c = delegations self" "cfg c = cfg self" "balances c = balances self"
    by (simp_all add: c)
  from increase_step [OF inv old e ctx a this] obtain st rw1 S1 ds' y reward b l where
    cs: "current_state c v block val rw = Some (st, val\<lparr>V_LastUpdated := block\<rparr>, rw1, c\<lparr>field_state := S1\<rparr>)"
    and sy: "synced self v block val rw st rw1 S1"
    and inc: "increase_delegation (c\<lparr>field_state := S1\<rparr>) ctx v block st amount =
      Some (c\<lparr>field_state := settled_states S1 v ?x, balances := b, evm_logs := l, delegations := ds'\<rparr>)"
    and y: "deleg_upd (delegations self) ?d v (Some y) ds'" "D_LastUpdated y = block" "0 < Stake y"
      "Stake y = opt_val Stake ?x + amount"
    and rwd: "max_stake self * reward \<le> owed st S1 v ?x" "b dpos_contract_address = balances self dpos_contract_address - reward"
    by blast
  note z = syncedD [OF sy]
  let ?c2 = "c\<lparr>field_state := settled_states S1 v ?x, balances := b, evm_logs := l, delegations := ds'\<rparr>"
  let ?c2a = "?c2\<lparr>amount_delegated := amount_delegated self + word_of_int amount\<rparr>"
  have "0 \<le> TotalStake val + amount"
    "total_stake self - TotalStake val + (TotalStake val + amount) < 2 ^ 64 * VoteEligibilityBalanceStep (DPOS (cfg self))"
    using cov(4) a(1) room by (simp_all add: room_def)
  from vote_step [OF inv old this, of ?c2a] obtain n where
    upd: "update_vote_count (word_of_int (votes (cfg self) (TotalStake val) (getVotingPowerFactor self v)))
        (word_of_int (votes (cfg self) (TotalStake val + amount) (getVotingPowerFactor self v))) ?c2a =
      Some (?c2a\<lparr>eligible_vote_count := n\<rparr>)"
    and n: "uint n = votes (cfg self) (TotalStake val + amount) (getVotingPowerFactor self v) +
      (total_votes self - votes (cfg self) (TotalStake val) (getVotingPowerFactor self v))" by (auto simp: c)
  let ?val' = "val\<lparr>V_LastUpdated := block, TotalStake := TotalStake val + amount, UndelegationsCount := uc\<rparr>"
  let ?st' = "st\<lparr>Count := Count st + 1\<rparr>" and ?c3 = "?c2a\<lparr>eligible_vote_count := n\<rparr>"
  from store_validator_exec [of ?c3 v ?st' ?val' rw1 block] obtain vs' where
    sv: "store_validator v block ?st' ?val' rw1 ?c3 =
      Some (?c3\<lparr>field_state := (field_state ?c3)((v, block) \<mapsto> ?st'), validators := vs'\<rparr>)" (is "_ = Some ?c4")
    and vs: "validators_wf vs'" "vmap vs' = (vmap (validators self))(v \<mapsto> (?val', rw1))"
    using i(2) old z(4) [OF cov(2)] z(5,7) cov(3,4) a(1) by (auto simp: c)
  have "dpos_inv block e' ?c4"
    by (rule delegation_change [OF inv old sy, where d = ?d and y = "Some y" and val' = ?val' and reward = reward
          and k = k and u = u]) (use y room vs n rwd us e' in \<open>auto simp: room_def c\<close>)
  moreover have "stake_of ?c4 d' v' = stake_of self d' v' + (if d' = ?d \<and> v' = v then amount else 0)" for d' v'
    using y by (auto simp: stake_of_def deleg_upd_def)
  ultimately show ?thesis using cs inc upd sv
    by (intro exI [of _ st] exI [of _ rw1] exI [of _ "c\<lparr>field_state := S1\<rparr>"] exI [of _ ?c2] exI [of _ ?c3] exI [of _ ?c4])
      (simp add: c getVotingPowerFactor_def)
qed

section \<open>Undelegations\<close>

lemma CreateUndelegation_upd:
  assumes "undelegations_wf us" "0 \<le> amount" "last_id us d \<noteq> - 1" "Suc (length (undelegations_ids us (d, v))) < 2 ^ 32"
  shows "\<exists>us'. CreateUndelegation us d v block amount = Some (last_id us d + 1, us') \<and> undelegations_wf us' \<and>
    undelegations_field us (d, v, last_id us d + 1) = None \<and>
    undelegations_field us' = (undelegations_field us)
      ((d, v, last_id us d + 1) \<mapsto> \<lparr>Amount = amount, U_Block = block, U_Id = last_id us d + 1\<rparr>)"
proof -
  from CreateUndelegation_wf [OF assms, of block] obtain us' where
    us': "CreateUndelegation us d v block amount = Some (last_id us d + 1, us')" "undelegations_wf us'"
      "GetUndelegation us d v (last_id us d + 1) = None"
      "\<forall>d' v' i. GetUndelegation us' d' v' i = (if d' = d \<and> v' = v \<and> i = last_id us d + 1
        then Some \<lparr>Amount = amount, U_Block = block, U_Id = last_id us d + 1\<rparr> else GetUndelegation us d' v' i)" by blast
  have "undelegations_field us' k = ((undelegations_field us)
      ((d, v, last_id us d + 1) \<mapsto> \<lparr>Amount = amount, U_Block = block, U_Id = last_id us d + 1\<rparr>)) k" for k
    using us'(4) by (cases k) (simp add: GetUndelegation_def)
  with us' show ?thesis by (auto simp: GetUndelegation_def fun_eq_iff)
qed

lemma RemoveUndelegation_upd:
  assumes "undelegations_wf us" "undelegations_field us (d, v, i) \<noteq> None"
  shows "\<exists>us'. RemoveUndelegation us d v i = Some us' \<and> undelegations_wf us' \<and>
    undelegations_field us' = (undelegations_field us)((d, v, i) := None)"
proof -
  from RemoveUndelegation_wf [OF assms(1), of d v i] assms(2) obtain us' where
    us': "RemoveUndelegation us d v i = Some us'" "undelegations_wf us'"
      "\<forall>d' v' i'. GetUndelegation us' d' v' i' = (if d' = d \<and> v' = v \<and> i' = i then None else GetUndelegation us d' v' i')"
    by (auto simp: GetUndelegation_def)
  have "undelegations_field us' k = ((undelegations_field us)((d, v, i) := None)) k" for k
    using us'(3) by (cases k) (simp add: GetUndelegation_def)
  with us' show ?thesis by (auto simp: fun_eq_iff)
qed

definition id_room :: "Contract \<Rightarrow> address \<Rightarrow> address \<Rightarrow> bool" where
  "id_room self d v \<longleftrightarrow> last_id (undelegations self) d \<noteq> - 1 \<and>
     Suc (length (undelegations_ids (undelegations self) (d, v))) < 2 ^ 32"

lemma stake_le_total:
  assumes inv: "dpos_inv now e self" and val: "GetValidator (validators self) v = Some val"
    and x: "GetDelegation (delegations self) d v = Some x"
  shows "Stake x \<le> TotalStake val"
  using dsum_ge_member [OF dpos_invD(3) [OF inv] x, of Stake] dpos_invD(11) [OF inv val]
    delegations_wfD(4) [OF dpos_invD(3) [OF inv]] by (simp add: acc_inv_def)

section \<open>Taking from a delegation\<close>

text \<open>
  Taking from a delegation, as \<open>undelegate\<close> and the first half of \<open>redelegate\<close> do it. They update the
  votes and store the validator in different orders, so the result is described by its fields.
\<close>

definition decreased ::
    "Contract \<Rightarrow> address \<Rightarrow> blocknum \<Rightarrow> int \<Rightarrow> Undelegations \<Rightarrow> State \<Rightarrow> Contract \<Rightarrow> Validators \<Rightarrow> u64 \<Rightarrow> Contract \<Rightarrow> bool" where
  "decreased self v block amount us st c2 vs n c \<longleftrightarrow>
     delegations c = delegations c2 \<and> field_state c = (field_state c2)((v, block) \<mapsto> st) \<and> validators c = vs \<and>
     eligible_vote_count c = n \<and> balances c = balances c2 \<and> cfg c = cfg self \<and>
     field_voting_power_factor c = field_voting_power_factor self \<and>
     amount_delegated c = amount_delegated self - word_of_int amount \<and> undelegations c = us"

lemma decrease_stage:
  assumes inv: "dpos_inv block 0 self" and old: "vmap (validators self) v = Some (val, rw)"
    and ctx: "frame_ok ctx" and a: "0 < amount"
    and x: "GetDelegation (delegations self) (CallerAccount ctx) v = Some x" "amount \<le> Stake x"
    and room: "room self v block 0"
    and us: "undelegations_wf us" "undelegations_field us = (undelegations_field (undelegations self))(k := u)"
      "\<forall>x. u = Some x \<longrightarrow> 0 < Amount x"
    and e': "opt_val Amount u - opt_val Amount (undelegations_field (undelegations self) k) = amount - e'"
    and val': "val' = val\<lparr>V_LastUpdated := block, TotalStake := TotalStake val - amount, UndelegationsCount := uc\<rparr>"
  shows "\<exists>st rw1 c1 st' S b l ds vs n.
    current_state self v block val rw = Some (st, val\<lparr>V_LastUpdated := block\<rparr>, rw1, c1) \<and>
    CommissionRewardsPool rw1 = CommissionRewardsPool rw \<and>
    decrease_delegation c1 ctx v block st x amount =
      Some (st', self\<lparr>field_state := S, balances := b, evm_logs := l, delegations := ds\<rparr>) \<and>
    (\<forall>a t. a \<noteq> v \<longrightarrow> S (a, t) = field_state self (a, t)) \<and>
    (\<forall>d' v'. opt_val Stake (GetDelegation ds d' v') =
      stake_of self d' v' - (if d' = CallerAccount ctx \<and> v' = v then amount else 0)) \<and>
    (\<forall>c. eligible_vote_count c = eligible_vote_count self \<longrightarrow>
      update_vote_count (word_of_int (votes (cfg self) (TotalStake val) (getVotingPowerFactor self v)))
        (word_of_int (votes (cfg self) (TotalStake val - amount) (getVotingPowerFactor self v))) c =
      Some (c\<lparr>eligible_vote_count := n\<rparr>)) \<and>
    (\<forall>c. validators c = validators self \<longrightarrow> store_validator v block st' val' rw1 c =
      Some (c\<lparr>field_state := (field_state c)((v, block) \<mapsto> st'), validators := vs\<rparr>)) \<and>
    validators_wf vs \<and> vmap vs = (vmap (validators self))(v \<mapsto> (val', rw1)) \<and>
    (\<forall>c. decreased self v block amount us st'
      (self\<lparr>field_state := S, balances := b, evm_logs := l, delegations := ds\<rparr>) vs n c \<longrightarrow> dpos_inv block e' c)"
proof -
  let ?d = "CallerAccount ctx" and ?f = "getVotingPowerFactor self v"
  note i = dpos_invD [OF inv] and cov = accrued_covered [OF inv old]
  have val: "GetValidator (validators self) v = Some val" using old by (simp add: vmap_Some)
  from decrease_step [OF inv old order_refl ctx x] obtain st rw1 S1 ds' y reward b l where
    cs: "current_state self v block val rw = Some (st, val\<lparr>V_LastUpdated := block\<rparr>, rw1, self\<lparr>field_state := S1\<rparr>)"
    and sy: "synced self v block val rw st rw1 S1"
    and dec: "decrease_delegation (self\<lparr>field_state := S1\<rparr>) ctx v block st x amount =
      Some (st\<lparr>Count := Count st + (if y = None then 0 else 1)\<rparr>,
            self\<lparr>field_state := settled_states S1 v (Some x), balances := b, evm_logs := l, delegations := ds'\<rparr>)"
    and y: "deleg_upd (delegations self) ?d v y ds'" "\<forall>y'. y = Some y' \<longrightarrow> D_LastUpdated y' = block \<and> 0 < Stake y'"
      "opt_val Stake y = Stake x - amount"
    and rwd: "max_stake self * reward \<le> owed st S1 v (Some x)" "b dpos_contract_address = balances self dpos_contract_address - reward"
    by blast
  note z = syncedD [OF sy]
  define st' where "st' = st\<lparr>Count := Count st + (if y = None then 0 else 1)\<rparr>"
  let ?c2 = "self\<lparr>field_state := settled_states S1 v (Some x), balances := b, evm_logs := l, delegations := ds'\<rparr>"
  have T': "0 \<le> TotalStake val - amount"
    "total_stake self - TotalStake val + (TotalStake val - amount) < 2 ^ 64 * VoteEligibilityBalanceStep (DPOS (cfg self))"
    using stake_le_total [OF inv val x(1)] x(2) a room by (simp_all add: room_def)
  define n :: u64 where "n = word_of_int (votes (cfg self) (TotalStake val - amount) ?f +
    (total_votes self - votes (cfg self) (TotalStake val) ?f))"
  have upd: "update_vote_count (word_of_int (votes (cfg self) (TotalStake val) ?f))
        (word_of_int (votes (cfg self) (TotalStake val - amount) ?f)) c = Some (c\<lparr>eligible_vote_count := n\<rparr>)"
      "uint n = votes (cfg self) (TotalStake val - amount) ?f + (total_votes self - votes (cfg self) (TotalStake val) ?f)"
    if "eligible_vote_count c = eligible_vote_count self" for c
    using vote_step [OF inv old T' that] unfolding n_def by (metis word_of_int_uint)+
  obtain vs' where pv: "put_validator (validators self) v val' rw1 = Some vs'" "validators_wf vs'"
    "vmap vs' = (vmap (validators self))(v \<mapsto> (val', rw1))"
    using put_validator_upd [OF i(2), of v val' rw1] old z(4) [OF cov(2)] z(5) cov(3) T'(1) by (auto simp: val')
  have sv: "store_validator v block st' val' rw1 c =
      Some (c\<lparr>field_state := (field_state c)((v, block) \<mapsto> st'), validators := vs'\<rparr>)" if "validators c = validators self" for c
    using pv(1) that z(7) by (auto simp: store_validator_def put_validator_def state_put_def st'_def
        simp del: ModifyValidator_Some ModifyValidatorRewards_Some elim!: bind_eq_SomeE)
  have "dpos_inv block e' c" if "decreased self v block amount us st' ?c2 vs' n c" for c
    by (rule delegation_change [OF inv old sy, where d = ?d and y = y and val' = val' and reward = reward and k = k and u = u])
      (use that y room pv upd(2) [of self] rwd us e' x in \<open>auto simp: decreased_def room_def st'_def val'\<close>)
  moreover have "opt_val Stake (GetDelegation ds' d' v') = stake_of self d' v' - (if d' = ?d \<and> v' = v then amount else 0)" for d' v'
    using y x(1) by (auto simp: stake_of_def deleg_upd_def)
  moreover have "settled_states S1 v (Some x) (a, t) = field_state self (a, t)" if "a \<noteq> v" for a t
    using that sy by (simp add: settled_states_def dec_state_other synced_def)
  ultimately show ?thesis using cs dec [folded st'_def] upd(1) sv pv(2,3) z(5)
    by (intro exI [of _ st] exI [of _ rw1] exI [of _ "self\<lparr>field_state := S1\<rparr>"] exI [of _ st']
        exI [of _ "settled_states S1 v (Some x)"] exI [of _ b] exI [of _ l] exI [of _ ds'] exI [of _ vs'] exI [of _ n]) simp
qed

section \<open>Steps that leave the stakes alone\<close>

lemma deleg_upd_refl: "delegations_wf ds \<Longrightarrow> deleg_upd ds d v (GetDelegation ds d v) ds"
  by (auto simp: deleg_upd_def)

text \<open>A pending undelegation appears or disappears, and the balance follows.\<close>

lemma dpos_inv_pending:
  assumes inv: "dpos_inv now e self"
    and us: "undelegations_wf us" "undelegations_field us = (undelegations_field (undelegations self))(k := u)"
      "\<And>x. u = Some x \<Longrightarrow> 0 < Amount x"
    and bal: "opt_val Amount u + balances self dpos_contract_address - e =
      opt_val Amount (undelegations_field (undelegations self) k) + b dpos_contract_address - e'"
  shows "dpos_inv now e' (self\<lparr>undelegations := us, balances := b\<rparr>)" (is "dpos_inv _ _ ?s")
proof -
  note i = dpos_invD [OF inv]
  have pend: "total_pending ?s = total_pending self + opt_val Amount u - opt_val Amount (undelegations_field (undelegations self) k)"
    by (simp add: total_pending_def us(2) msum_upd [OF i(5)])
  have "stores_wf ?s"
    using inv us dpos_inv_amount [OF inv] by (auto simp: dpos_inv_def stores_wf_def split: if_splits)
  moreover have "total_liability ?s \<le> max_stake ?s * (balances ?s dpos_contract_address - e')"
  proof -
    have "balances ?s dpos_contract_address - e' - total_pending ?s = balances self dpos_contract_address - e - total_pending self"
      using bal pend by simp
    then have "max_stake self * (b dpos_contract_address - e' - total_pending ?s) =
        max_stake self * (balances self dpos_contract_address - e - total_pending self)" by simp
    then show ?thesis using i(14) by (simp add: total_liability_def right_diff_distrib)
  qed
  moreover have "getVotingPowerFactor ?s = getVotingPowerFactor self" "total_stake ?s = total_stake self"
    "total_votes ?s = total_votes self"
    by (simp_all add: getVotingPowerFactor_def fun_eq_iff total_stake_def total_votes_def)
  ultimately show ?thesis using inv by (simp add: dpos_inv_def validator_ok_def)
qed

lemma pending_covered:
  assumes inv: "dpos_inv now e self" and e: "0 \<le> e"
    and u: "undelegations_field (undelegations self) k = Some u"
  shows "Amount u \<le> balances self dpos_contract_address"
proof -
  note i = dpos_invD [OF inv]
  have "0 \<le> liability (max_stake self) (field_state self) (delegations self) a (w, r)"
    if "vmap (validators self) a = Some (w, r)" for a w r
  proof -
    have "GetValidator (validators self) a = Some w" using that by (simp add: vmap_Some)
    then have "0 \<le> accrued (field_state self) (delegations self) a w" using accrued_nonneg [OF i(11) i(3)] by blast
    then show ?thesis using accrued_covered [OF inv that] i(8) by (simp add: liability_def)
  qed
  then have "0 \<le> msum (vmap (validators self)) (liability (max_stake self) (field_state self) (delegations self))"
    by (intro msum_nonneg) (metis surj_pair)
  then have "max_stake self * total_pending self \<le> max_stake self * (balances self dpos_contract_address - e)"
    using i(14) by (simp add: total_liability_def)
  then have "total_pending self \<le> balances self dpos_contract_address - e" using i(8) by simp
  moreover have "Amount u \<le> total_pending self"
    unfolding total_pending_def using dpos_inv_amount [OF inv] less_imp_le by (intro msum_ge_member [OF i(5) u]) blast
  ultimately show ?thesis using e by simp
qed

text \<open>A validator's record or its pools change, but not its stake.\<close>

lemma dpos_inv_validator:
  assumes inv: "dpos_inv now e self" and old: "vmap (validators self) v = Some (val, rw)"
    and vs: "validators_wf vs" "vmap vs = (vmap (validators self))(v \<mapsto> (val', rw'))"
    and val': "TotalStake val' = TotalStake val" "V_LastUpdated val' = V_LastUpdated val" "Commission val' \<le> 10000"
    and bal: "RewardsPool rw' + CommissionRewardsPool rw' + balances self dpos_contract_address - e \<le>
      RewardsPool rw + CommissionRewardsPool rw + b dpos_contract_address - e'"
  shows "dpos_inv now e' (self\<lparr>validators := vs, balances := b\<rparr>)" (is "dpos_inv _ _ ?s")
proof -
  note i = dpos_invD [OF inv]
  have val: "GetValidator (validators self) v = Some val" using old by (simp add: vmap_Some)
  have acc: "accrued S ds v val' = accrued S ds v val" "acc_inv S ds v val' = acc_inv S ds v val" for S ds
    using val' by (simp_all add: accrued_def acc_inv_def refs_def)
  have "max_stake self * (RewardsPool rw' + CommissionRewardsPool rw' + (balances self dpos_contract_address - e)) \<le>
      max_stake self * (RewardsPool rw + CommissionRewardsPool rw + (b dpos_contract_address - e'))"
    using bal i(8) by (intro mult_left_mono) simp_all
  then have bal': "liability (max_stake self) (field_state ?s) (delegations ?s) v (val', rw') +
        max_stake self * opt_val Amount (undelegations_field (undelegations self) (0, 0, 0)) +
        max_stake self * (balances self dpos_contract_address - e)
      \<le> liability (max_stake self) (field_state self) (delegations self) v (val, rw) +
        max_stake self * opt_val Amount (undelegations_field (undelegations self) (0, 0, 0)) +
        max_stake self * (balances ?s dpos_contract_address - e')"
    by (simp add: liability_def acc val' distrib_left)
  have ok: "validator_ok now ?s v val'"
    using i(11,12) [OF val] val' by (simp add: validator_ok_def acc)
  show ?thesis
    by (rule dpos_inv_step [OF inv order_refl old _ _ _ _ _ _ _ _ ok _ _ _ _ _ bal', where d = 0
          and y = "GetDelegation (delegations self) 0 v"])
      (use vs val' i(3,4) i(9) [of 0 v] dpos_inv_states [OF inv] dpos_inv_amount [OF inv] in
        \<open>auto simp: deleg_upd_refl getVotingPowerFactor_def\<close>)
qed

section \<open>Removing a validator\<close>

lemma no_stake_no_delegation:
  assumes inv: "dpos_inv now e self" and val: "GetValidator (validators self) v = Some val" "TotalStake val = 0"
  shows "GetDelegation (delegations self) d v = None"
proof (rule ccontr)
  assume "GetDelegation (delegations self) d v \<noteq> None"
  then obtain x where x: "GetDelegation (delegations self) d v = Some x" by auto
  then show False using stake_le_total [OF inv val(1) x] dpos_invD(9) [OF inv x] val(2) by simp
qed

lemma dpos_inv_delete:
  assumes inv: "dpos_inv now e self" and old: "vmap (validators self) v = Some (val, rw)" and T: "TotalStake val = 0"
    and cfg: "cfg self' = cfg self"
    and fac: "\<And>a. a \<noteq> v \<Longrightarrow> getVotingPowerFactor self' a = getVotingPowerFactor self a"
      "getVotingPowerFactor self' v \<le> 10000"
    and vs: "validators_wf (validators self')" "vmap (validators self') = (vmap (validators self))(v := None)"
    and ds: "delegations_wf (delegations self')" "\<And>d a. GetDelegation (delegations self') d a = GetDelegation (delegations self) d a"
    and S: "\<And>v' b. v' \<noteq> v \<Longrightarrow> field_state self' (v', b) = field_state self (v', b)"
      "\<And>b st. field_state self' (v, b) = Some st \<Longrightarrow> b \<le> now \<and> 0 \<le> RewardsPer1Stake st"
    and us: "undelegations_wf (undelegations self')"
      "undelegations_field (undelegations self') = (undelegations_field (undelegations self))(k := u)"
      "\<And>x. u = Some x \<Longrightarrow> 0 < Amount x"
    and tot: "amount_delegated self' = amount_delegated self" "eligible_vote_count self' = eligible_vote_count self"
    and bal: "max_stake self * opt_val Amount u + max_stake self * (balances self dpos_contract_address - e)
      \<le> max_stake self * CommissionRewardsPool rw +
        max_stake self * opt_val Amount (undelegations_field (undelegations self) k) +
        max_stake self * (balances self' dpos_contract_address - e')"
  shows "dpos_inv now e' self'"
proof -
  note i = dpos_invD [OF inv] and cov = accrued_covered [OF inv old]
  have val: "GetValidator (validators self) v = Some val" using old by (simp add: vmap_Some)
  have gv: "GetValidator (validators self') a = (if a = v then None else GetValidator (validators self) a)" for a
    using vmap_wf(4) [OF vs(1), of a] vmap_wf(4) [OF i(2), of a] vs(2) by simp
  have fr: "acc_inv (field_state self') (delegations self') a w \<longleftrightarrow> acc_inv (field_state self) (delegations self) a w"
      "accrued (field_state self') (delegations self') a w = accrued (field_state self) (delegations self) a w"
    if "a \<noteq> v" for a w
    using that by (intro acc_inv_frame; simp add: S(1) i(3) ds)+
  have "stores_wf self'"
    unfolding stores_wf_def
  proof (intro conjI allI impI)
    show "finite (dom (undelegations_field (undelegations self')))" using i(5) by (simp add: us(2))
    show "0 < Amount w" if "undelegations_field (undelegations self') j = Some w" for j w
      using that us(3) dpos_inv_amount [OF inv] by (auto simp only: us(2) fun_upd_apply split: if_splits)
    show "0 < Stake x" "GetValidator (validators self') a \<noteq> None"
      if "GetDelegation (delegations self') d a = Some x" for d a x
      using that i(9,10) no_stake_no_delegation [OF inv val T, of d] by (auto simp: ds gv)
  qed fact+
  moreover have "validator_ok now self' a w" if "GetValidator (validators self') a = Some w" for a w
    using that inv fr [of a w] by (auto simp: gv dpos_inv_def validator_ok_def split: if_splits)
  moreover have "total_stake self' = total_stake self"
    by (simp add: total_stake_def vs(2) msum_upd [OF i(7)] old T)
  moreover have "total_votes self' = total_votes self"
  proof -
    have "total_votes self' = msum ((vmap (validators self))(v := None))
        (\<lambda>a (w, _). votes (cfg self) (TotalStake w) (getVotingPowerFactor self a))"
      unfolding total_votes_def vs(2) cfg using fac(1) by (intro msum_cong) (auto split: if_splits)
    then show ?thesis by (simp add: msum_upd [OF i(7)] old total_votes_def T votes_zero [OF i(1)])
  qed
  moreover have "total_liability self' \<le> max_stake self' * (balances self' dpos_contract_address - e')"
  proof -
    let ?L = "liability (max_stake self) (field_state self) (delegations self)"
    have "msum (vmap (validators self')) (liability (max_stake self) (field_state self') (delegations self')) =
        msum ((vmap (validators self))(v := None)) ?L"
      unfolding vs(2) using fr(2) by (intro msum_cong) (auto simp: liability_def split: if_splits)
    also have "\<dots> = msum (vmap (validators self)) ?L - ?L v (val, rw)" by (simp add: msum_upd [OF i(7)] old)
    finally have 1: "total_liability self' = total_liability self - ?L v (val, rw) +
        max_stake self * total_pending self' - max_stake self * total_pending self"
      by (simp add: total_liability_def cfg)
    have "total_pending self' = total_pending self + opt_val Amount u - opt_val Amount (undelegations_field (undelegations self) k)"
      by (simp add: total_pending_def us(2) msum_upd [OF i(5)])
    then have 2: "max_stake self * total_pending self' = max_stake self * total_pending self +
        max_stake self * opt_val Amount u - max_stake self * opt_val Amount (undelegations_field (undelegations self) k)"
      by (simp only: distrib_left right_diff_distrib)
    have "0 \<le> max_stake self * RewardsPool rw" using cov(2) i(8) by simp
    moreover have "0 \<le> accrued (field_state self) (delegations self) v val"
      using accrued_nonneg [OF i(11) [OF val] i(3)] .
    ultimately have "max_stake self * CommissionRewardsPool rw \<le> ?L v (val, rw)"
      by (simp add: liability_def T distrib_left)
    then show ?thesis using 1 2 bal i(14) cfg by simp
  qed
  moreover have "b \<le> now \<and> 0 \<le> RewardsPer1Stake st" if "field_state self' (v', b) = Some st" for v' b st
    using that S dpos_inv_states [OF inv, of v' b st] by (cases "v' = v") auto
  moreover have "getVotingPowerFactor self' a \<le> 10000" for a using fac i(6) by (cases "a = v") simp_all
  ultimately show ?thesis using i(1) inv tot by (simp add: dpos_inv_def cfg)
qed

text \<open>The deletion itself: the slots of the validator are cleared.\<close>

lemma delete_validator_slots_exec:
  assumes wf: "validators_wf (validators c)" and v: "vmap (validators c) v \<noteq> None"
  shows "\<exists>vs' la ec. delete_validator_slots v c = Some (c\<lparr>validators := vs',
      field_voting_power_factor := (field_voting_power_factor c)(v := None),
      field_last_active_block := la, field_eviction_cursor := ec\<rparr>) \<and>
    validators_wf vs' \<and> vmap vs' = (vmap (validators c))(v := None)"
proof -
  obtain vs' where vs': "DeleteValidator (validators c) v = Some vs'" "validators_wf vs'"
    "vmap vs' = (vmap (validators c))(v := None)"
    using DeleteValidator_upd [OF wf v] by blast
  then show ?thesis
    by (intro exI [of _ vs'] exI [of _ "(field_last_active_block c)(v := None)"]
        exI [of _ "(field_eviction_cursor c)(v := None)"])
      (simp add: delete_validator_slots_def clearVotingPowerFactor_def clearLastActiveBlock_def clearEvictionCursor_def)
qed

text \<open>
  \<open>confirmUndelegate\<close> and \<open>claimCommissionRewards\<close> delete the validator and then drop its reference to
  its last reward state.
\<close>

lemma delete_and_release:
  assumes inv: "dpos_inv now e self" and old: "vmap (validators self) v = Some (val, rw)"
    and c: "validators c = validators self" "field_state c = field_state self"
  shows "\<exists>vs' c1 la ec st. delete_validator_slots v c = Some c1 \<and>
    state_get_and_decrement c1 v (V_LastUpdated val) = Some (st,
      c\<lparr>validators := vs', field_voting_power_factor := (field_voting_power_factor c)(v := None),
        field_last_active_block := la, field_eviction_cursor := ec,
        field_state := dec_state (field_state self) (v, V_LastUpdated val)\<rparr>) \<and>
    validators_wf vs' \<and> vmap vs' = (vmap (validators self))(v := None)"
proof -
  note i = dpos_invD [OF inv]
  have val: "GetValidator (validators self) v = Some val" using old by (simp add: vmap_Some)
  obtain st where st: "field_state self (v, V_LastUpdated val) = Some st" "0 \<le> RewardsPer1Stake st"
    using acc_inv_validator_state [OF i(11) [OF val] i(3)] by metis
  from delete_validator_slots_exec [of c v] i(2) old obtain vs' la ec where
    d: "delete_validator_slots v c = Some (c\<lparr>validators := vs',
      field_voting_power_factor := (field_voting_power_factor c)(v := None),
      field_last_active_block := la, field_eviction_cursor := ec\<rparr>)" (is "_ = Some ?c1")
    and vs': "validators_wf vs'" "vmap vs' = (vmap (validators self))(v := None)" by (auto simp: c)
  have "field_state ?c1 (v, V_LastUpdated val) = Some st" by (simp add: c st)
  from state_get_and_decrement_Some [OF this st(2)] d vs' show ?thesis
    by (intro exI [of _ vs'] exI [of _ ?c1] exI [of _ la] exI [of _ ec] exI [of _ "st\<lparr>Count := Count st - 1\<rparr>"])
      (simp add: c)
qed

lemma release_inv:
  assumes inv: "dpos_inv now e self" and old: "vmap (validators self) v = Some (val, rw)" and T: "TotalStake val = 0"
    and vs: "validators_wf vs" "vmap vs = (vmap (validators self))(v := None)"
    and bal: "balances self dpos_contract_address - e \<le> CommissionRewardsPool rw + b dpos_contract_address - e'"
  shows "dpos_inv now e' (self\<lparr>validators := vs, field_voting_power_factor := (field_voting_power_factor self)(v := None),
      field_last_active_block := la, field_eviction_cursor := ec,
      field_state := dec_state (field_state self) (v, V_LastUpdated val), balances := b\<rparr>)" (is "dpos_inv _ _ ?s")
proof (rule dpos_inv_delete [OF inv old T, where k = "(0, 0, 0)" and u = "undelegations_field (undelegations self) (0, 0, 0)"])
  note i = dpos_invD [OF inv]
  show "getVotingPowerFactor ?s a = getVotingPowerFactor self a" if "a \<noteq> v" for a
    using that by (simp add: getVotingPowerFactor_def)
  show "getVotingPowerFactor ?s v \<le> 10000" by (simp add: getVotingPowerFactor_def BasisPointsScale_def)
  show "field_state ?s (v', b) = field_state self (v', b)" if "v' \<noteq> v" for v' b
    using that by (simp add: dec_state_other)
  show "b \<le> now \<and> 0 \<le> RewardsPer1Stake st" if s': "field_state ?s (v, b) = Some st" for b st
  proof -
    have "dec_state (field_state self) (v, V_LastUpdated val) (v, b) = Some st" using s' by simp
    from dec_state_Some [OF this] show ?thesis using dpos_inv_states [OF inv] by fastforce
  qed
  have "max_stake self * (balances self dpos_contract_address - e) \<le>
      max_stake self * (CommissionRewardsPool rw + (b dpos_contract_address - e'))"
    using bal i(8) by (intro mult_left_mono) simp_all
  then show "max_stake self * opt_val Amount (undelegations_field (undelegations self) (0, 0, 0)) +
      max_stake self * (balances self dpos_contract_address - e)
    \<le> max_stake self * CommissionRewardsPool rw +
      max_stake self * opt_val Amount (undelegations_field (undelegations self) (0, 0, 0)) +
      max_stake self * (balances ?s dpos_contract_address - e')"
    by (simp add: distrib_left)
qed (use vs dpos_invD [OF inv] dpos_inv_amount [OF inv] in auto)

text \<open>Paying the caller out of the contract's balance.\<close>

lemma transfer_exec:
  assumes "frame_ok ctx" "amount \<le> balances c dpos_contract_address"
  shows "transferContractBalance ctx amount c = Some (c\<lparr>balances := (balances c)
    (dpos_contract_address := balances c dpos_contract_address - amount,
     CallerAccount ctx := balances c (CallerAccount ctx) + amount)\<rparr>)"
  using assms by (simp add: transferContractBalance_def AddBalance_def frame_ok_def)

end
