(* ===== verification/Dpos_Example.thy ===== *)
theory Dpos_Example
  imports Dpos_Invariant
begin

text \<open>
  A concrete contract that satisfies the invariant, at which the correctness theorems are
  instantiated: two validators, one delegation to each, an undelegation that can be confirmed, and
  rewards that have not been claimed.
\<close>

definition ex_cfg :: ChainConfig where
  "ex_cfg = \<lparr>GenesisBalances = [(1, 1000000)],
     DPOS = \<lparr>EligibilityBalanceThreshold = 1000, VoteEligibilityBalanceStep = 100, ValidatorMaximumStake = 100000,
       MinimumDeposit = 100, MaxBlockAuthorReward = 10, DagProposersReward = 50, CommissionChangeDelta = 500,
       CommissionChangeFrequency = 0, DelegationDelay = 5, DelegationLockingPeriod = 20, BlocksPerYear = 1000,
       TrxMinGasPrice = 1, TrxMaxGasLimit = 1000000, InitialValidators = []\<rparr>,
     Protocol = \<lparr>RewardsDistributionFrequency = [], Slashing = \<lparr>JailTime = 10\<rparr>,
       Supply = \<lparr>MaxSupply = 12000000, GeneratedRewards = 0\<rparr>\<rparr>\<rparr>"

definition ex_validators :: Validators where
  "ex_validators =
     \<lparr>validators_list = [10, 11],
      validator_field = [10 \<mapsto> \<lparr>TotalStake = 3000, Commission = 1000, LastCommissionChange = 2, V_LastUpdated = 2, UndelegationsCount = 1\<rparr>,
                         11 \<mapsto> \<lparr>TotalStake = 2000, Commission = 2000, LastCommissionChange = 2, V_LastUpdated = 2, UndelegationsCount = 0\<rparr>],
      validator_info_field = [10 \<mapsto> \<lparr>Description = ''v10'', Endpoint = ''e10''\<rparr>, 11 \<mapsto> \<lparr>Description = ''v11'', Endpoint = ''e11''\<rparr>],
      validator_rewards_field = [10 \<mapsto> \<lparr>RewardsPool = 600, CommissionRewardsPool = 70\<rparr>,
                                 11 \<mapsto> \<lparr>RewardsPool = 0, CommissionRewardsPool = 0\<rparr>],
      validator_owner_field = [10 \<mapsto> 1, 11 \<mapsto> 2],
      validator_vrf_key_field = [10 \<mapsto> replicate 32 1, 11 \<mapsto> replicate 32 2]\<rparr>"

definition ex_delegations :: Delegations where
  "ex_delegations =
     \<lparr>delegations_field = [(10, 1) \<mapsto> \<lparr>Stake = 3000, D_LastUpdated = 2\<rparr>, (11, 2) \<mapsto> \<lparr>Stake = 2000, D_LastUpdated = 2\<rparr>],
      delegator_validators = (\<lambda>d. if d = 1 then [10] else if d = 2 then [11] else []),
      validator_delegators = (\<lambda>v. if v = 10 then [1] else if v = 11 then [2] else [])\<rparr>"

definition ex_undelegations :: Undelegations where
  "ex_undelegations =
     \<lparr>undelegations_field = [(1, 10, 1) \<mapsto> \<lparr>Amount = 500, U_Block = 3, U_Id = 1\<rparr>],
      undelegations_validators = (\<lambda>d. if d = 1 then [10] else []),
      undelegations_ids = (\<lambda>dv. if dv = (1, 10) then [1] else []),
      last_unique_id = [1 \<mapsto> 1]\<rparr>"

definition ex_contract :: Contract where
  "ex_contract =
     \<lparr>validators = ex_validators, delegations = ex_delegations, undelegations = ex_undelegations,
      field_state = [(10, 2) \<mapsto> \<lparr>RewardsPer1Stake = 0, Count = 2\<rparr>, (11, 2) \<mapsto> \<lparr>RewardsPer1Stake = 0, Count = 2\<rparr>],
      field_eligible_vote_count = Some 50, field_amount_delegated = Some 5000,
      field_minted_tokens = None, field_total_supply = Some 1000000, field_yield = None,
      field_voting_power_factor = Map.empty, field_last_active_block = Map.empty,
      field_eviction_cursor = Map.empty, field_last_processed_epoch_block = None,
      cfg = ex_cfg, yield_curve = \<lparr>yc_cfg = ex_cfg, max_supply = 12000000\<rparr>,
      eligible_vote_count_orig = 50, eligible_vote_count = 50, amount_delegated_orig = 5000, amount_delegated = 5000,
      blocks_per_year = 1000, dag_proposers_reward = 50, max_block_author_reward = 10,
      minted_tokens = 0, total_supply = Some 1000000, lazy_init_done = True, evm_block = 5,
      balances = (\<lambda>a. if a = dpos_contract_address then 8000 else 100000), nonces = (\<lambda>_. 0), evm_logs = []\<rparr>"

text \<open>A call of the contract with a value.\<close>

definition ex_call :: "address \<Rightarrow> int \<Rightarrow> CallFrame" where
  "ex_call caller value = \<lparr>CallerAccount = caller, Account = dpos_contract_address, Value = value, Input = []\<rparr>"

lemma ex_call_simps [simp]:
  "CallerAccount (ex_call caller value) = caller" "Account (ex_call caller value) = dpos_contract_address"
  "Value (ex_call caller value) = value"
  by (simp_all add: ex_call_def)

definition succeeds :: "'a res \<Rightarrow> bool" where
  "succeeds r = (case r of Some (Inr _, _) \<Rightarrow> True | _ \<Rightarrow> False)"

lemma succeeds_cases:
  assumes "succeeds x" "\<exists>r c. x = Some (r, c) \<and> Q r c"
  shows "\<exists>y c. x = Some (Inr y, c) \<and> Q (Inr y) c"
  using assms by (auto simp: succeeds_def split: sum.splits)

lemmas ex_defs = ex_cfg_def ex_validators_def ex_delegations_def ex_undelegations_def ex_contract_def

lemma ex_validators_wf: "validators_wf ex_validators"
  by (auto simp: validators_wf_def ex_validators_def split: if_splits)

lemma ex_delegations_wf: "delegations_wf ex_delegations"
  by (auto simp: delegations_wf_def GetDelegation_def genDelegationKey_def ex_delegations_def split: if_splits)

lemma ex_undelegations_wf: "undelegations_wf ex_undelegations"
  by (auto simp: undelegations_wf_def GetUndelegation_def last_id_def ex_undelegations_def split: if_splits)

lemma ex_vmap:
  "vmap ex_validators = [10 \<mapsto> (\<lparr>TotalStake = 3000, Commission = 1000, LastCommissionChange = 2, V_LastUpdated = 2, UndelegationsCount = 1\<rparr>,
      \<lparr>RewardsPool = 600, CommissionRewardsPool = 70\<rparr>),
    11 \<mapsto> (\<lparr>TotalStake = 2000, Commission = 2000, LastCommissionChange = 2, V_LastUpdated = 2, UndelegationsCount = 0\<rparr>,
      \<lparr>RewardsPool = 0, CommissionRewardsPool = 0\<rparr>)]"
  by (auto simp: vmap_def GetValidator_def GetValidatorRewards_def ex_validators_def fun_eq_iff)

lemma ex_GetDelegation: "GetDelegation ex_delegations d v =
    (if d = 1 \<and> v = 10 then Some \<lparr>Stake = 3000, D_LastUpdated = 2\<rparr>
     else if d = 2 \<and> v = 11 then Some \<lparr>Stake = 2000, D_LastUpdated = 2\<rparr> else None)"
  by (auto simp: GetDelegation_def genDelegationKey_def ex_delegations_def)

lemma ex_dsum: "dsum ex_delegations v f =
    (if v = 10 then f \<lparr>Stake = 3000, D_LastUpdated = 2\<rparr> else if v = 11 then f \<lparr>Stake = 2000, D_LastUpdated = 2\<rparr> else 0)"
  by (simp add: dsum_def ex_GetDelegation) (simp add: ex_delegations_def)

lemma ex_msum: "msum (vmap ex_validators) f =
    f 10 (\<lparr>TotalStake = 3000, Commission = 1000, LastCommissionChange = 2, V_LastUpdated = 2, UndelegationsCount = 1\<rparr>,
      \<lparr>RewardsPool = 600, CommissionRewardsPool = 70\<rparr>) +
    f 11 (\<lparr>TotalStake = 2000, Commission = 2000, LastCommissionChange = 2, V_LastUpdated = 2, UndelegationsCount = 0\<rparr>,
      \<lparr>RewardsPool = 0, CommissionRewardsPool = 0\<rparr>)"
  by (simp add: msum_def ex_vmap)

lemma ex_acc_inv:
  assumes "GetValidator ex_validators a = Some v"
  shows "acc_inv (field_state ex_contract) ex_delegations a v"
  using assms by (auto simp: acc_inv_def refs_def rps_def ex_dsum ex_GetDelegation GetValidator_def
      ex_validators_def ex_contract_def split: if_splits)

lemma ex_accrued: "V_LastUpdated v = 2 \<Longrightarrow> accrued (field_state ex_contract) ex_delegations a v = 0"
  by (simp add: accrued_def rps_def ex_dsum ex_contract_def)

lemma ex_factor: "getVotingPowerFactor ex_contract a = 10000"
  by (simp add: getVotingPowerFactor_def ex_contract_def BasisPointsScale_def)

lemma ex_totals: "total_stake ex_contract = 5000" "total_votes ex_contract = 50" "total_pending ex_contract = 500"
  "total_liability ex_contract = 100000 * 6170"
proof -
  show "total_stake ex_contract = 5000" by (simp add: total_stake_def ex_contract_def ex_msum)
  show "total_votes ex_contract = 50"
    by (simp add: total_votes_def ex_factor votes_def) (simp add: ex_contract_def ex_msum ex_cfg_def)
  show p: "total_pending ex_contract = 500"
    by (simp add: total_pending_def ex_contract_def ex_undelegations_def msum_def)
  show "total_liability ex_contract = 100000 * 6170"
    by (simp add: total_liability_def p) (simp add: ex_contract_def ex_msum liability_def ex_cfg_def
        ex_accrued [unfolded ex_contract_def, simplified])
qed

lemma ex_inv: "dpos_inv 5 1000 ex_contract"
  unfolding dpos_inv_def
proof (intro conjI allI impI)
  show "cfg_ok (cfg ex_contract)" by (simp add: cfg_ok_def ex_defs)
  show "stores_wf ex_contract"
    by (auto simp: stores_wf_def ex_contract_def ex_validators_wf ex_delegations_wf ex_undelegations_wf ex_GetDelegation
        GetValidator_def split: if_splits) (auto simp: ex_validators_def ex_undelegations_def split: if_splits)
  show "getVotingPowerFactor ex_contract a \<le> 10000" for a by (simp add: ex_factor)
  show "b \<le> 5" "0 \<le> RewardsPer1Stake st" if "field_state ex_contract (v, b) = Some st" for v b st
    using that by (auto simp: ex_contract_def split: if_splits)
  show "validator_ok 5 ex_contract a v" if "GetValidator (validators ex_contract) a = Some v" for a v
    using that ex_acc_inv [of a v]
    by (auto simp: validator_ok_def ex_contract_def) (auto simp: GetValidator_def ex_validators_def split: if_splits)
  show "amount_delegated ex_contract = word_of_int (total_stake ex_contract)" by (simp add: ex_totals) (simp add: ex_contract_def)
  show "uint (eligible_vote_count ex_contract) = total_votes ex_contract" by (simp add: ex_totals) (simp add: ex_contract_def)
  show "total_liability ex_contract \<le> max_stake ex_contract * (balances ex_contract dpos_contract_address - 1000)"
    by (simp add: ex_totals) (simp add: ex_contract_def ex_cfg_def)
qed

lemma ex_inv0: "dpos_inv 5 0 ex_contract"
  using ex_inv by (auto simp: dpos_inv_def) (simp add: ex_contract_def ex_cfg_def)

end
