(* ===== verification/Dpos_Delegation.thy ===== *)
theory Dpos_Delegation
  imports Dpos_Steps Dpos_Example
begin

text \<open>
  Correctness of the methods that move stake: from a state that satisfies the invariant a method
  returns (it does not panic), an error leaves the contract as it was, and success keeps the
  invariant and changes stakes and pending undelegations as asked.
\<close>

section \<open>delegate\<close>

text \<open>
  C1: \<open>delegate\<close> called with a covered value in a state that satisfies the invariant does not panic;
  an error leaves the contract unchanged; success keeps the invariant (the contract stays solvent,
  and the totals, the reward references and the eligible votes stay exact), adds the value to the
  caller's stake at the validator and changes no other stake and no undelegation.
\<close>

theorem delegate_correct:
  assumes inv: "dpos_inv block (Value ctx) self" and ctx: "frame_ok ctx" "0 \<le> Value ctx"
    and room: "room self v block (Value ctx)"
  shows "\<exists>r self'. delegate self ctx block v = Some (r, self') \<and>
    (case r of
       Inl err \<Rightarrow> self' = self
     | Inr _ \<Rightarrow> dpos_inv block 0 self' \<and> undelegations self' = undelegations self \<and>
         (\<forall>d' v'. stake_of self' d' v' = stake_of self d' v' +
           (if d' = CallerAccount ctx \<and> v' = v then Value ctx else 0)))"
proof (cases "\<exists>val. GetValidator (validators self) v = Some val \<and> Value ctx + TotalStake val \<le> max_stake self \<and>
    (GetDelegation (delegations self) (CallerAccount ctx) v = None \<longrightarrow> MinimumDeposit (DPOS (cfg self)) \<le> Value ctx)")
  case False
  have "\<exists>err. delegate self ctx block v = Some (Inl err, self)"
  proof (cases "GetValidator (validators self) v")
    case (Some val)
    with False have "max_stake self < Value ctx + TotalStake val \<or>
        GetDelegation (delegations self) (CallerAccount ctx) v = None \<and> Value ctx < MinimumDeposit (DPOS (cfg self))"
      by auto
    with Some show ?thesis by (auto simp: delegate_def)
  qed (simp add: delegate_def)
  then obtain err where "delegate self ctx block v = Some (Inl err, self)" ..
  then show ?thesis by (intro exI [of _ "Inl err"] exI [of _ self]) simp
next
  case True
  then obtain val where val: "GetValidator (validators self) v = Some val" "Value ctx + TotalStake val \<le> max_stake self"
    "GetDelegation (delegations self) (CallerAccount ctx) v = None \<longrightarrow> MinimumDeposit (DPOS (cfg self)) \<le> Value ctx"
    by (elim exE conjE) (rule that)
  note i = dpos_invD [OF inv]
  let ?x = "GetDelegation (delegations self) (CallerAccount ctx) v"
  obtain rw where old: "vmap (validators self) v = Some (val, rw)" using vmap_wf(2) [OF i(2) val(1)] by blast
  have pos: "0 < Value ctx" if "?x = None" using that val(3) i(1) by (simp add: cfg_ok_def)
  have self: "self = self\<lparr>undelegations := undelegations self, amount_delegated := amount_delegated self\<rparr>" by simp
  have ufield: "undelegations_field (undelegations self) = (undelegations_field (undelegations self))
      ((0, 0, 0) := undelegations_field (undelegations self) (0, 0, 0))" by simp
  have up: "\<forall>w. undelegations_field (undelegations self) (0, 0, 0) = Some w \<longrightarrow> 0 < Amount w"
    using dpos_inv_amount [OF inv] by blast
  from increase_stage [OF inv old ctx(2,1,2) pos room i(4) ufield up _ self, where e' = 0 and uc = "UndelegationsCount val"]
  obtain st rw1 c1 c2 c3 c4 where
    run: "current_state self v block val rw = Some (st, val\<lparr>V_LastUpdated := block\<rparr>, rw1, c1)"
      "cfg c1 = cfg self" "getVotingPowerFactor c1 v = getVotingPowerFactor self v"
      "increase_delegation c1 ctx v block st (Value ctx) = Some c2" "cfg c2 = cfg self" "amount_delegated c2 = amount_delegated self"
      "update_vote_count (word_of_int (votes (cfg self) (TotalStake val) (getVotingPowerFactor self v)))
        (word_of_int (votes (cfg self) (TotalStake val + Value ctx) (getVotingPowerFactor self v)))
        (c2\<lparr>amount_delegated := amount_delegated self + word_of_int (Value ctx)\<rparr>) = Some c3"
      "store_validator v block (st\<lparr>Count := Count st + 1\<rparr>)
        (val\<lparr>V_LastUpdated := block, TotalStake := TotalStake val + Value ctx, UndelegationsCount := UndelegationsCount val\<rparr>) rw1 c3 = Some c4"
    and post: "dpos_inv block 0 c4" "undelegations c4 = undelegations self"
      "\<forall>d' v'. stake_of c4 d' v' = stake_of self d' v' + (if d' = CallerAccount ctx \<and> v' = v then Value ctx else 0)"
    by auto
  have v': "val\<lparr>V_LastUpdated := block, TotalStake := TotalStake val + Value ctx, UndelegationsCount := UndelegationsCount val\<rparr> =
    val\<lparr>V_LastUpdated := block, TotalStake := TotalStake val + Value ctx\<rparr>" by simp
  have "\<not> (?x = None \<and> Value ctx < MinimumDeposit (DPOS (cfg self)))" using val(3) by auto
  then have "delegate self ctx block v = Some (Inr (), AddLog (MakeDelegatedLog (CallerAccount ctx) v (Value ctx)) c4)"
    using val(1,2) old run accrued_covered(4) [OF inv old] ctx(2)
    by (simp add: delegate_def delegate_update_values_def voteCountWithFactor_votes [OF i(1) _ i(6)]
        vmap_Some FromBig_def Let_def v')
  then show ?thesis using post by (auto simp: AddLog_def stake_of_def)
qed

theorem delegate_correct_witness:
  "\<exists>self'. delegate ex_contract (ex_call 1 1000) 5 10 = Some (Inr (), self') \<and> dpos_inv 5 0 self' \<and>
     stake_of self' 1 10 = 4000"
proof -
  have "succeeds (delegate ex_contract (ex_call 1 1000) 5 10)" by code_simp
  moreover have "room ex_contract 10 5 1000" by (simp add: room_def ex_totals) (simp add: ex_contract_def ex_cfg_def)
  moreover have "stake_of ex_contract 1 10 = 3000" by code_simp
  ultimately show ?thesis
    using succeeds_cases [OF _ delegate_correct [of 5 "ex_call 1 1000" ex_contract 10]] ex_inv
    by (auto simp: frame_ok_def dpos_contract_address_def)
qed

section \<open>undelegate\<close>

text \<open>
  C2: \<open>undelegate\<close> of a positive amount in a state that satisfies the invariant does not panic; an
  error leaves the contract unchanged; success keeps the invariant, takes the amount from the
  caller's stake at the validator and from no other stake, and creates exactly one undelegation,
  with a fresh id, of that amount, locked for the configured period.
\<close>

theorem undelegate_correct:
  assumes inv: "dpos_inv block 0 self" and ctx: "frame_ok ctx" and a: "0 < UA_Amount args"
    and room: "room self (UA_Validator args) block 0" "id_room self (CallerAccount ctx) (UA_Validator args)"
  shows "\<exists>r self'. undelegate self ctx block args = Some (r, self') \<and>
    (case r of
       Inl err \<Rightarrow> self' = self
     | Inr i \<Rightarrow> dpos_inv block 0 self' \<and>
         (\<forall>d' v'. stake_of self' d' v' = stake_of self d' v' -
           (if d' = CallerAccount ctx \<and> v' = UA_Validator args then UA_Amount args else 0)) \<and>
         undelegations_field (undelegations self) (CallerAccount ctx, UA_Validator args, i) = None \<and>
         undelegations_field (undelegations self') = (undelegations_field (undelegations self))
           ((CallerAccount ctx, UA_Validator args, i) \<mapsto> \<lparr>Amount = UA_Amount args,
              U_Block = block + ucast (DelegationLockingPeriod (DPOS (cfg self))), U_Id = i\<rparr>))"
proof (cases "\<exists>val x. GetValidator (validators self) (UA_Validator args) = Some val \<and>
    GetDelegation (delegations self) (CallerAccount ctx) (UA_Validator args) = Some x \<and> UA_Amount args \<le> Stake x \<and>
    (Stake x \<noteq> UA_Amount args \<longrightarrow> MinimumDeposit (DPOS (cfg self)) \<le> Stake x - UA_Amount args)")
  case False
  have "\<exists>err. undelegate self ctx block args = Some (Inl err, self)"
    using False by (cases "GetValidator (validators self) (UA_Validator args)";
        cases "GetDelegation (delegations self) (CallerAccount ctx) (UA_Validator args)")
      (auto simp: undelegate_def Let_def)
  then obtain err where "undelegate self ctx block args = Some (Inl err, self)" ..
  then show ?thesis by (intro exI [of _ "Inl err"] exI [of _ self]) simp
next
  case True
  let ?d = "CallerAccount ctx" and ?v = "UA_Validator args" and ?a = "UA_Amount args"
  obtain val x where val: "GetValidator (validators self) ?v = Some val"
    and x: "GetDelegation (delegations self) ?d ?v = Some x" "?a \<le> Stake x"
      "Stake x \<noteq> ?a \<longrightarrow> MinimumDeposit (DPOS (cfg self)) \<le> Stake x - ?a"
    using True by (elim exE conjE) (rule that)
  note i = dpos_invD [OF inv]
  obtain rw where old: "vmap (validators self) ?v = Some (val, rw)" using vmap_wf(2) [OF i(2) val] by blast
  let ?id = "last_id (undelegations self) ?d + 1" and ?per = "ucast (DelegationLockingPeriod (DPOS (cfg self))) :: u64"
  let ?u = "\<lparr>Amount = ?a, U_Block = block + ?per, U_Id = ?id\<rparr>"
  obtain us where us: "CreateUndelegation (undelegations self) ?d ?v (block + ?per) ?a = Some (?id, us)"
      "undelegations_wf us" "undelegations_field (undelegations self) (?d, ?v, ?id) = None"
      "undelegations_field us = (undelegations_field (undelegations self))((?d, ?v, ?id) \<mapsto> ?u)"
    using CreateUndelegation_upd [OF i(4), of ?a ?d ?v "block + ?per"] a room(2) by (auto simp: id_room_def)
  have up: "\<forall>w. Some ?u = Some w \<longrightarrow> 0 < Amount w" using a by auto
  have "opt_val Amount (Some ?u) - opt_val Amount (undelegations_field (undelegations self) (?d, ?v, ?id)) = ?a - 0"
    by (simp add: us(3))
  from decrease_stage [OF inv old ctx a x(1,2) room(1) us(2,4) up this refl, of "UndelegationsCount val + 1"]
  obtain st rw1 c1 st' S b l ds vs n where
    run: "current_state self ?v block val rw = Some (st, val\<lparr>V_LastUpdated := block\<rparr>, rw1, c1)"
      "decrease_delegation c1 ctx ?v block st x ?a =
        Some (st', self\<lparr>field_state := S, balances := b, evm_logs := l, delegations := ds\<rparr>)"
    and stakes: "\<forall>d' v'. opt_val Stake (GetDelegation ds d' v') =
      stake_of self d' v' - (if d' = ?d \<and> v' = ?v then ?a else 0)"
    and upd: "\<forall>c. eligible_vote_count c = eligible_vote_count self \<longrightarrow>
      update_vote_count (word_of_int (votes (cfg self) (TotalStake val) (getVotingPowerFactor self ?v)))
        (word_of_int (votes (cfg self) (TotalStake val - ?a) (getVotingPowerFactor self ?v))) c =
      Some (c\<lparr>eligible_vote_count := n\<rparr>)"
    and sv: "\<forall>c. validators c = validators self \<longrightarrow> store_validator ?v block st' (val\<lparr>V_LastUpdated := block,
        TotalStake := TotalStake val - ?a, UndelegationsCount := UndelegationsCount val + 1\<rparr>) rw1 c =
      Some (c\<lparr>field_state := (field_state c)((?v, block) \<mapsto> st'), validators := vs\<rparr>)"
    and post: "\<forall>c. decreased self ?v block ?a us st'
      (self\<lparr>field_state := S, balances := b, evm_logs := l, delegations := ds\<rparr>) vs n c \<longrightarrow> dpos_inv block 0 c"
    by (elim exE conjE) (rule that)
  let ?c2 = "self\<lparr>field_state := S, balances := b, evm_logs := l, delegations := ds\<rparr>"
  define self' where "self' = AddLog (MakeUndelegatedLog ?d ?v ?id ?a) (?c2\<lparr>amount_delegated := amount_delegated self - word_of_int ?a,
    eligible_vote_count := n, field_state := S((?v, block) \<mapsto> st'), validators := vs, undelegations := us\<rparr>)"
  have "\<not> (Stake x \<noteq> ?a \<and> MinimumDeposit (DPOS (cfg self)) > Stake x - ?a)" using x(3) by auto
  then have "undelegate self ctx block args = Some (Inr ?id, self')"
    using val x(1,2) old run upd sv us(1) accrued_covered(4) [OF inv old] stake_le_total [OF inv val x(1)]
    by (simp add: undelegate_def voteCountWithFactor_votes [OF i(1) _ i(6)] self'_def vmap_Some FromBig_def Let_def)
  moreover have "dpos_inv block 0 self'" unfolding self'_def dpos_inv_AddLog using post by (simp add: decreased_def)
  ultimately show ?thesis using us(3,4) stakes
    by (intro exI [of _ "Inr ?id"] exI [of _ self']) (simp add: self'_def AddLog_def stake_of_def)
qed

theorem undelegate_correct_witness:
  "\<exists>i self'. undelegate ex_contract (ex_call 1 0) 5 \<lparr>UA_Validator = 10, UA_Amount = 1000\<rparr> = Some (Inr i, self') \<and>
     dpos_inv 5 0 self' \<and> stake_of self' 1 10 = 2000"
proof -
  have "succeeds (undelegate ex_contract (ex_call 1 0) 5 \<lparr>UA_Validator = 10, UA_Amount = 1000\<rparr>)" by code_simp
  moreover have "room ex_contract 10 5 0" by (simp add: room_def ex_totals) (simp add: ex_contract_def ex_cfg_def)
  moreover have "id_room ex_contract 1 10"
    by (simp add: id_room_def last_id_def ex_contract_def ex_undelegations_def)
  moreover have "stake_of ex_contract 1 10 = 3000" by code_simp
  ultimately show ?thesis
    using succeeds_cases [OF _ undelegate_correct [of 5 ex_contract "ex_call 1 0" "\<lparr>UA_Validator = 10, UA_Amount = 1000\<rparr>"]] ex_inv0
    by (auto simp: frame_ok_def dpos_contract_address_def)
qed

section \<open>cancelUndelegate\<close>

text \<open>
  C3: \<open>cancelUndelegate\<close>, when the validator has room for the amount below the maximum stake, does
  not panic; an error leaves the contract unchanged; success keeps the invariant, removes the
  undelegation and no other, and returns its amount to the caller's stake.
\<close>

theorem cancelUndelegate_correct:
  assumes inv: "dpos_inv block 0 self" and ctx: "frame_ok ctx"
    and room: "\<And>u val. undelegations_field (undelegations self) (CallerAccount ctx, v, i) = Some u \<Longrightarrow>
      GetValidator (validators self) v = Some val \<Longrightarrow>
      room self v block (Amount u) \<and> Amount u + TotalStake val \<le> max_stake self"
  shows "\<exists>r self'. cancelUndelegate self ctx block v i = Some (r, self') \<and>
    (case r of
       Inl err \<Rightarrow> self' = self
     | Inr _ \<Rightarrow> dpos_inv block 0 self' \<and>
         (\<exists>u. undelegations_field (undelegations self) (CallerAccount ctx, v, i) = Some u \<and>
           undelegations_field (undelegations self') =
             (undelegations_field (undelegations self))((CallerAccount ctx, v, i) := None) \<and>
           (\<forall>d' v'. stake_of self' d' v' = stake_of self d' v' +
             (if d' = CallerAccount ctx \<and> v' = v then Amount u else 0))))"
proof (cases "\<exists>u val. undelegations_field (undelegations self) (CallerAccount ctx, v, i) = Some u \<and>
    GetValidator (validators self) v = Some val")
  case False
  then have "\<exists>err. cancelUndelegate self ctx block v i = Some (Inl err, self)"
    using undelegations_wfD(1) [OF dpos_invD(4) [OF inv], of "CallerAccount ctx" v i]
    by (cases "GetValidator (validators self) v") (auto simp: cancelUndelegate_def GetUndelegation_def)
  then obtain err where "cancelUndelegate self ctx block v i = Some (Inl err, self)" ..
  then show ?thesis by (intro exI [of _ "Inl err"] exI [of _ self]) simp
next
  case True
  let ?d = "CallerAccount ctx"
  obtain u val where u: "undelegations_field (undelegations self) (?d, v, i) = Some u"
    and val: "GetValidator (validators self) v = Some val" using True by blast
  note inv' = dpos_invD [OF inv] and fits = room [OF u val]
  obtain rw where old: "vmap (validators self) v = Some (val, rw)" using vmap_wf(2) [OF inv'(2) val] by blast
  have a: "0 < Amount u" using dpos_inv_amount [OF inv u] .
  obtain us where us: "RemoveUndelegation (undelegations self) ?d v i = Some us" "undelegations_wf us"
    "undelegations_field us = (undelegations_field (undelegations self))((?d, v, i) := None)"
    using RemoveUndelegation_upd [OF inv'(4), of ?d v i] u by auto
  let ?uc = "if UndelegationsCount val > 0 then UndelegationsCount val - 1 else UndelegationsCount val"
  have c: "self\<lparr>undelegations := us\<rparr> = self\<lparr>undelegations := us, amount_delegated := amount_delegated self\<rparr>" by simp
  have e: "Amount u + opt_val Amount None - opt_val Amount (undelegations_field (undelegations self) (?d, v, i)) = 0 - 0"
    by (simp add: u)
  from increase_stage [OF inv old order_refl ctx order_less_imp_le [OF a] a _ us(2,3) _ e c, of ?uc] fits
  obtain st rw1 c1 c2 c3 c4 where
    run: "current_state (self\<lparr>undelegations := us\<rparr>) v block val rw = Some (st, val\<lparr>V_LastUpdated := block\<rparr>, rw1, c1)"
      "increase_delegation c1 ctx v block st (Amount u) = Some c2" "cfg c2 = cfg self" "amount_delegated c2 = amount_delegated self"
      "update_vote_count (word_of_int (votes (cfg self) (TotalStake val) (getVotingPowerFactor self v)))
        (word_of_int (votes (cfg self) (TotalStake val + Amount u) (getVotingPowerFactor self v)))
        (c2\<lparr>amount_delegated := amount_delegated self + word_of_int (Amount u)\<rparr>) = Some c3"
      "store_validator v block (st\<lparr>Count := Count st + 1\<rparr>)
        (val\<lparr>V_LastUpdated := block, TotalStake := TotalStake val + Amount u, UndelegationsCount := ?uc\<rparr>) rw1 c3 = Some c4"
    and post: "dpos_inv block 0 c4" "undelegations c4 = us"
      "\<forall>d' v'. stake_of c4 d' v' = stake_of self d' v' + (if d' = ?d \<and> v' = v then Amount u else 0)"
    by auto
  have "store_validator v block (st\<lparr>Count := Count st + 1\<rparr>) (val\<lparr>V_LastUpdated := block,
      TotalStake := TotalStake val + Amount u, UndelegationsCount := UndelegationsCount val - 1\<rparr>) rw1 c3 = Some c4"
    if "0 < UndelegationsCount val" using run(6) that by simp
  moreover have "store_validator v block (st\<lparr>Count := Count st + 1\<rparr>)
      (val\<lparr>V_LastUpdated := block, TotalStake := TotalStake val + Amount u\<rparr>) rw1 c3 = Some c4"
    if "\<not> 0 < UndelegationsCount val" using run(6) that by simp
  moreover have "UndelegationExists (undelegations self) ?d v i"
    using undelegations_wfD(1) [OF inv'(4)] u by (simp add: GetUndelegation_def)
  ultimately have "cancelUndelegate self ctx block v i =
      Some (Inr (), AddLog (MakeUndelegateCanceledLog ?d v i (Amount u)) c4)"
    using val old run(1-5) us(1) u fits accrued_covered(4) [OF inv old] a
    by (simp add: cancelUndelegate_def voteCountWithFactor_votes [OF inv'(1) _ inv'(6)] GetUndelegation_def
        vmap_Some FromBig_def Let_def)
  then show ?thesis using post u us(3) by (auto simp: AddLog_def stake_of_def)
qed

theorem cancelUndelegate_correct_witness:
  "\<exists>self'. cancelUndelegate ex_contract (ex_call 1 0) 5 10 1 = Some (Inr (), self') \<and> dpos_inv 5 0 self' \<and>
     stake_of self' 1 10 = 3500"
proof -
  have u: "undelegations_field (undelegations ex_contract) (1, 10, 1) = Some \<lparr>Amount = 500, U_Block = 3, U_Id = 1\<rparr>"
    "max_stake ex_contract = 100000" "map_option TotalStake (GetValidator (validators ex_contract) 10) = Some 3000"
    by code_simp+
  have "room ex_contract 10 5 500" by (simp add: room_def ex_totals) (simp add: ex_contract_def ex_cfg_def)
  then have "room ex_contract 10 5 (Amount u) \<and> Amount u + TotalStake val \<le> max_stake ex_contract"
    if "undelegations_field (undelegations ex_contract) (1, 10, 1) = Some u" "GetValidator (validators ex_contract) 10 = Some val"
    for u val using u that by auto
  then have "\<exists>r self'. cancelUndelegate ex_contract (ex_call 1 0) 5 10 1 = Some (r, self') \<and> (case r of Inl err \<Rightarrow> self' = ex_contract
      | Inr _ \<Rightarrow> dpos_inv 5 0 self' \<and> stake_of self' 1 10 = stake_of ex_contract 1 10 + 500)"
    using cancelUndelegate_correct [of 5 ex_contract "ex_call 1 0" 10 1] ex_inv0 u(1)
    by (fastforce simp: frame_ok_def dpos_contract_address_def split: sum.splits)
  moreover have "succeeds (cancelUndelegate ex_contract (ex_call 1 0) 5 10 1)" "stake_of ex_contract 1 10 = 3000" by code_simp+
  ultimately show ?thesis using succeeds_cases by fastforce
qed

text \<open>The same contract with a maximum stake that the cancelled undelegation would exceed.\<close>

definition ex_full :: Contract where
  "ex_full = ex_contract\<lparr>cfg := ex_cfg\<lparr>DPOS := (DPOS ex_cfg)\<lparr>ValidatorMaximumStake := 3400\<rparr>\<rparr>\<rparr>"

text \<open>
  C9: the check of the maximum stake in \<open>cancelUndelegate\<close> comes after the writes. From every state that
  satisfies the invariant, cancelling an undelegation for which the validator has no room returns the error,
  but the undelegation is gone and its amount is in the caller's delegation, while the validator is as it
  was: the stakes of its delegators add up to more than its own, and the invariant is broken.
\<close>

theorem cancelUndelegate_late_check:
  assumes inv: "dpos_inv block 0 self" and ctx: "frame_ok ctx"
    and u: "undelegations_field (undelegations self) (CallerAccount ctx, v, i) = Some u"
    and val: "GetValidator (validators self) v = Some val" and full: "max_stake self < Amount u + TotalStake val"
  shows "\<exists>self'. cancelUndelegate self ctx block v i = Some (Inl ErrValidatorsMaxStakeExceeded, self') \<and>
    undelegations_field (undelegations self') = (undelegations_field (undelegations self))((CallerAccount ctx, v, i) := None) \<and>
    (\<forall>d' v'. stake_of self' d' v' = stake_of self d' v' + (if d' = CallerAccount ctx \<and> v' = v then Amount u else 0)) \<and>
    validators self' = validators self \<and> (\<forall>e. \<not> dpos_inv block e self')"
proof -
  let ?d = "CallerAccount ctx" and ?x = "GetDelegation (delegations self) (CallerAccount ctx) v"
  note inv' = dpos_invD [OF inv]
  obtain rw where old: "vmap (validators self) v = Some (val, rw)" using vmap_wf(2) [OF inv'(2) val] by blast
  have a: "0 < Amount u" using dpos_inv_amount [OF inv u] .
  obtain us where us: "RemoveUndelegation (undelegations self) ?d v i = Some us"
    "undelegations_field us = (undelegations_field (undelegations self))((?d, v, i) := None)"
    using RemoveUndelegation_upd [OF inv'(4), of ?d v i] u by auto
  let ?c = "self\<lparr>undelegations := us\<rparr>"
  from increase_step [OF inv old order_refl ctx order_less_imp_le [OF a] a, of ?c] obtain st rw1 S1 ds' y b l where
    cs: "current_state ?c v block val rw = Some (st, val\<lparr>V_LastUpdated := block\<rparr>, rw1, ?c\<lparr>field_state := S1\<rparr>)"
    and inc: "increase_delegation (?c\<lparr>field_state := S1\<rparr>) ctx v block st (Amount u) =
      Some (?c\<lparr>field_state := settled_states S1 v ?x, balances := b, evm_logs := l, delegations := ds'\<rparr>)" (is "_ = Some ?c2")
    and y: "deleg_upd (delegations self) ?d v (Some y) ds'" "Stake y = opt_val Stake ?x + Amount u" by auto
  have "UndelegationExists (undelegations self) ?d v i"
    using undelegations_wfD(1) [OF inv'(4)] u by (simp add: GetUndelegation_def)
  then have "cancelUndelegate self ctx block v i = Some (Inl ErrValidatorsMaxStakeExceeded, ?c2)"
    using val old cs inc us(1) u full accrued_covered(4) [OF inv old]
    by (simp add: cancelUndelegate_def voteCountWithFactor_votes [OF inv'(1) _ inv'(6)] GetUndelegation_def vmap_Some Let_def)
  moreover have "stake_of ?c2 d' v' = stake_of self d' v' + (if d' = ?d \<and> v' = v then Amount u else 0)" for d' v'
    using y by (auto simp: stake_of_def deleg_upd_def)
  moreover have "\<not> dpos_inv block e ?c2" for e
  proof
    assume "dpos_inv block e ?c2"
    from dpos_invD(11) [OF this, of v val] val have "TotalStake val = dsum ds' v Stake" by (simp add: acc_inv_def)
    moreover have "TotalStake val = dsum (delegations self) v Stake" using inv'(11) [OF val] by (simp add: acc_inv_def)
    moreover have "dsum ds' v Stake = dsum (delegations self) v Stake + Amount u" using dsum_upd [OF inv'(3) y(1), of v Stake] y(2) by simp
    ultimately show False using a by simp
  qed
  ultimately show ?thesis using us(2) by (intro exI [of _ ?c2]) simp
qed

lemma ex_full_inv: "dpos_inv 5 0 ex_full"
  unfolding dpos_inv_def
proof (intro conjI allI impI)
  note e = ex_inv [unfolded dpos_inv_def]
  show "cfg_ok (cfg ex_full)" by (simp add: cfg_ok_def ex_full_def ex_defs)
  show "stores_wf ex_full" using e by (simp add: stores_wf_def ex_full_def)
  show "getVotingPowerFactor ex_full a \<le> 10000" for a using e by (simp add: ex_full_def getVotingPowerFactor_def)
  show "b \<le> 5" "0 \<le> RewardsPer1Stake st" if "field_state ex_full (v, b) = Some st" for v b st
    using that by (auto simp: ex_full_def ex_contract_def split: if_splits)
  show "validator_ok 5 ex_full a v" if "GetValidator (validators ex_full) a = Some v" for a v
    using that e by (auto simp: validator_ok_def ex_full_def)
  show "amount_delegated ex_full = word_of_int (total_stake ex_full)" using e by (simp add: ex_full_def total_stake_def)
  show "uint (eligible_vote_count ex_full) = total_votes ex_full"
    by (simp add: ex_full_def total_votes_def votes_def getVotingPowerFactor_def BasisPointsScale_def)
      (simp add: ex_contract_def ex_msum ex_cfg_def Let_def BasisPointsScale_def)
  show "total_liability ex_full \<le> max_stake ex_full * (balances ex_full dpos_contract_address - 0)"
  proof -
    have "total_pending ex_full = 500" using ex_totals(3) by (simp add: ex_full_def total_pending_def)
    then show ?thesis
      by (simp add: total_liability_def) (simp add: ex_full_def ex_contract_def ex_msum liability_def ex_cfg_def
          ex_accrued [unfolded ex_contract_def, simplified])
  qed
qed

theorem cancelUndelegate_late_check_witness:
  "\<exists>self'. cancelUndelegate ex_full (ex_call 1 0) 5 10 1 = Some (Inl ErrValidatorsMaxStakeExceeded, self') \<and>
    stake_of self' 1 10 = 3500 \<and> (\<forall>e. \<not> dpos_inv 5 e self')"
proof -
  have "undelegations_field (undelegations ex_full) (1, 10, 1) = Some \<lparr>Amount = 500, U_Block = 3, U_Id = 1\<rparr>"
    "GetValidator (validators ex_full) 10 =
      Some \<lparr>TotalStake = 3000, Commission = 1000, LastCommissionChange = 2, V_LastUpdated = 2, UndelegationsCount = 1\<rparr>"
    "max_stake ex_full = 3400" "stake_of ex_full 1 10 = 3000"
    by (simp_all add: ex_full_def ex_contract_def ex_undelegations_def GetValidator_def ex_validators_def ex_cfg_def stake_of_def ex_GetDelegation)
  then show ?thesis
    using cancelUndelegate_late_check [OF ex_full_inv, of "ex_call 1 0" 10 1] by (fastforce simp: frame_ok_def dpos_contract_address_def)
qed

text \<open>At that contract the reward state that the validator refers to is deleted too, and the next delegation panics.\<close>

lemma late_check_panics:
  "case cancelUndelegate ex_full (ex_call 1 0) 5 10 1 of
     Some (Inl err, c) \<Rightarrow> map_option V_LastUpdated (GetValidator (validators c) 10) = Some 2 \<and> field_state c (10, 2) = None \<and>
       delegate c (ex_call 2 100) 6 10 = None
   | _ \<Rightarrow> False"
  by code_simp

section \<open>confirmUndelegate\<close>

text \<open>
  C4: \<open>confirmUndelegate\<close> does not panic (the contract can always pay); an error leaves the contract
  unchanged; it succeeds only when the lock has expired, and then it keeps the invariant, removes
  the undelegation and no other, pays its amount to the caller, and changes no stake.
\<close>

theorem confirmUndelegate_correct:
  assumes inv: "dpos_inv block 0 self" and ctx: "frame_ok ctx"
  shows "\<exists>r self'. confirmUndelegate self ctx block v i = Some (r, self') \<and>
    (case r of
       Inl err \<Rightarrow> self' = self
     | Inr _ \<Rightarrow> dpos_inv block 0 self' \<and> delegations self' = delegations self \<and>
         (\<exists>u. undelegations_field (undelegations self) (CallerAccount ctx, v, i) = Some u \<and> U_Block u \<le> block \<and>
           undelegations_field (undelegations self') =
             (undelegations_field (undelegations self))((CallerAccount ctx, v, i) := None) \<and>
           balances self' = (balances self)
             (dpos_contract_address := balances self dpos_contract_address - Amount u,
              CallerAccount ctx := balances self (CallerAccount ctx) + Amount u)))"
proof (cases "\<exists>u. undelegations_field (undelegations self) (CallerAccount ctx, v, i) = Some u \<and> U_Block u \<le> block")
  case False
  then have "\<exists>err. confirmUndelegate self ctx block v i = Some (Inl err, self)"
    using undelegations_wfD(1) [OF dpos_invD(4) [OF inv], of "CallerAccount ctx" v i]
    by (auto simp: confirmUndelegate_def GetUndelegation_def not_le)
  then obtain err where "confirmUndelegate self ctx block v i = Some (Inl err, self)" ..
  then show ?thesis by (intro exI [of _ "Inl err"] exI [of _ self]) simp
next
  case True
  let ?d = "CallerAccount ctx"
  obtain u where u: "undelegations_field (undelegations self) (?d, v, i) = Some u" "U_Block u \<le> block" using True by blast
  note j = dpos_invD [OF inv]
  let ?b = "(balances self)(dpos_contract_address := balances self dpos_contract_address - Amount u,
    ?d := balances self ?d + Amount u)"
  have d: "?d \<noteq> dpos_contract_address" using ctx by (simp add: frame_ok_def)
  have ex: "UndelegationExists (undelegations self) ?d v i"
    using undelegations_wfD(1) [OF j(4)] u by (simp add: GetUndelegation_def)
  obtain us where us: "RemoveUndelegation (undelegations self) ?d v i = Some us" "undelegations_wf us"
    "undelegations_field us = (undelegations_field (undelegations self))((?d, v, i) := None)"
    using RemoveUndelegation_upd [OF j(4), of ?d v i] u by auto
  let ?s1 = "self\<lparr>undelegations := us, balances := ?b\<rparr>"
  have s1: "dpos_inv block 0 ?s1" using d u(1) by (intro dpos_inv_pending [OF inv us(2,3)]) auto
  have pay: "transferContractBalance ctx (Amount u) c = Some (c\<lparr>balances := ?b\<rparr>)" if "balances c = balances self" for c
    using transfer_exec [OF ctx, of "Amount u" c] pending_covered [OF inv order_refl u(1)] that by simp
  let ?l = "MakeUndelegateConfirmedLog ?d v i (Amount u)"
  have "\<exists>c. confirmUndelegate self ctx block v i = Some (Inr (), AddLog ?l c) \<and> dpos_inv block 0 c \<and>
    delegations c = delegations self \<and> undelegations c = us \<and> balances c = ?b"
  proof (cases "GetValidator (validators self) v")
    case None
    then show ?thesis using us(1) ex u pay s1
      by (intro exI [of _ ?s1]) (simp add: confirmUndelegate_def GetUndelegation_def)
  next
    case (Some val)
    obtain rw where old: "vmap (validators self) v = Some (val, rw)" using vmap_wf(2) [OF j(2) Some] by blast
    define val' where "val' = (if UndelegationsCount val > 0
      then val\<lparr>UndelegationsCount := UndelegationsCount val - 1\<rparr> else val)"
    have val': "TotalStake val' = TotalStake val" "V_LastUpdated val' = V_LastUpdated val" "Commission val' = Commission val"
      by (simp_all add: val'_def)
    have com: "Commission val \<le> 10000" using inv Some by (auto simp: dpos_inv_def validator_ok_def)
    show ?thesis
    proof (cases "UndelegationsCount val' = 0 \<and> TotalStake val' = 0 \<and> CommissionRewardsPool rw = 0")
      case True
      from delete_and_release [OF inv old, of "self\<lparr>undelegations := us\<rparr>"] obtain vs c1 la ec st where
        del: "delete_validator_slots v (self\<lparr>undelegations := us\<rparr>) = Some c1"
          "state_get_and_decrement c1 v (V_LastUpdated val) =
        Some (st, self\<lparr>undelegations := us, validators := vs, field_voting_power_factor := (field_voting_power_factor self)(v := None),
          field_last_active_block := la, field_eviction_cursor := ec,
          field_state := dec_state (field_state self) (v, V_LastUpdated val)\<rparr>)" (is "_ = Some (st, ?c)")
        and vs: "validators_wf vs" "vmap vs = (vmap (validators self))(v := None)" by auto
      have "confirmUndelegate self ctx block v i = Some (Inr (), AddLog ?l (?c\<lparr>balances := ?b\<rparr>))"
        using us(1) ex u pay [of ?c] old True del
        by (simp add: confirmUndelegate_def GetUndelegation_def vmap_Some val'_def [symmetric] val' Let_def)
      moreover have "dpos_inv block 0 (?c\<lparr>balances := ?b\<rparr>)"
        using release_inv [OF s1, of v val rw vs ?b 0] old vs True val' by simp
      ultimately show ?thesis by (intro exI [of _ "?c\<lparr>balances := ?b\<rparr>"]) simp
    next
      case False
      obtain vs where vs: "ModifyValidator (validators self) v val' = Some vs" "validators_wf vs"
        "vmap vs = (vmap (validators self))(v \<mapsto> (val', rw))"
        using ModifyValidator_upd [OF j(2) old, of val'] accrued_covered(4) [OF inv old] val' by auto
      let ?c = "self\<lparr>undelegations := us, validators := vs, balances := ?b\<rparr>"
      have "\<not> block < U_Block u" using u(2) by simp
      then have "confirmUndelegate self ctx block v i = Some (Inr (), AddLog ?l ?c)"
        using us(1) ex u(1) pay old False vs(1)
        by (auto simp: confirmUndelegate_def GetUndelegation_def vmap_Some val'_def [symmetric] Let_def
            simp del: ModifyValidator_Some)
      moreover have "dpos_inv block 0 ?c"
        using dpos_inv_validator [OF s1, of v val rw vs val' rw ?b 0] old vs val' com by simp
      ultimately show ?thesis by (intro exI [of _ ?c]) simp
    qed
  qed
  then show ?thesis using u us(3) by (auto simp: AddLog_def)
qed

theorem confirmUndelegate_correct_witness:
  "\<exists>self'. confirmUndelegate ex_contract (ex_call 1 0) 5 10 1 = Some (Inr (), self') \<and> dpos_inv 5 0 self' \<and>
     balances self' 1 = 100500"
proof -
  have "succeeds (confirmUndelegate ex_contract (ex_call 1 0) 5 10 1)" by code_simp
  moreover have "balances ex_contract 1 = 100000"
    "map_option Amount (undelegations_field (undelegations ex_contract) (1, 10, 1)) = Some 500" by code_simp+
  ultimately show ?thesis
    using succeeds_cases [OF _ confirmUndelegate_correct [of 5 ex_contract "ex_call 1 0" 10 1]] ex_inv0
    by (fastforce simp: frame_ok_def dpos_contract_address_def)
qed

section \<open>redelegate\<close>

text \<open>
  The first half of \<open>redelegate\<close> does not change the amount delegated, which the second half makes
  right again. In between, the amount is neither in a stake nor in a pending undelegation, so it is
  the part of the balance that is not accounted for.
\<close>

definition moved :: "Contract \<Rightarrow> Contract \<Rightarrow> CallFrame \<Rightarrow> address \<Rightarrow> int \<Rightarrow> bool" where
  "moved self c ctx v amount \<longleftrightarrow>
     amount_delegated c = amount_delegated self \<and> undelegations c = undelegations self \<and> cfg c = cfg self \<and>
     total_stake c = total_stake self - amount \<and>
     (\<forall>a. a \<noteq> v \<longrightarrow> vmap (validators c) a = vmap (validators self) a \<and>
        getVotingPowerFactor c a = getVotingPowerFactor self a \<and>
        (\<forall>b. field_state c (a, b) = field_state self (a, b))) \<and>
     (\<forall>d' v'. stake_of c d' v' = stake_of self d' v' - (if d' = CallerAccount ctx \<and> v' = v then amount else 0))"

lemma redelegate_from_correct:
  assumes inv: "dpos_inv block 0 self" and ctx: "frame_ok ctx" and a: "0 < amount"
    and args: "ValidatorFrom args = v" "RA_Amount args = amount"
    and old: "vmap (validators self) v = Some (val, rw)"
    and x: "GetDelegation (delegations self) (CallerAccount ctx) v = Some x" "amount \<le> Stake x"
    and room: "room self v block 0"
    and keep: "TotalStake val = amount \<Longrightarrow> CommissionRewardsPool rw = 0 \<Longrightarrow> UndelegationsCount val = 0"
  shows "\<exists>c. redelegate_from self ctx block args val rw (getVotingPowerFactor self v)
      (word_of_int (votes (cfg self) (TotalStake val) (getVotingPowerFactor self v))) x = Some c \<and>
    dpos_inv block amount (c\<lparr>amount_delegated := amount_delegated self - word_of_int amount\<rparr>) \<and>
    moved self c ctx v amount"
proof -
  let ?f = "getVotingPowerFactor self v" and ?us = "undelegations self"
  let ?val' = "val\<lparr>V_LastUpdated := block, TotalStake := TotalStake val - amount\<rparr>"
  note i = dpos_invD [OF inv]
  have val: "GetValidator (validators self) v = Some val" using old by (simp add: vmap_Some)
  have up: "\<forall>w. undelegations_field ?us (0, 0, 0) = Some w \<longrightarrow> 0 < Amount w" using dpos_inv_amount [OF inv] by blast
  have u: "undelegations_field ?us = (undelegations_field ?us)((0, 0, 0) := undelegations_field ?us (0, 0, 0))" by simp
  have val': "?val' = val\<lparr>V_LastUpdated := block, TotalStake := TotalStake val - amount, UndelegationsCount := UndelegationsCount val\<rparr>"
    by simp
  have e: "opt_val Amount w - opt_val Amount w = amount - amount" for w by simp
  from decrease_stage [OF inv old ctx a x room i(4) u up e val']
  obtain st rw1 c1 st' S b l ds vs n where
    run: "current_state self v block val rw = Some (st, val\<lparr>V_LastUpdated := block\<rparr>, rw1, c1)"
      "decrease_delegation c1 ctx v block st x amount =
        Some (st', self\<lparr>field_state := S, balances := b, evm_logs := l, delegations := ds\<rparr>)"
    and S: "CommissionRewardsPool rw1 = CommissionRewardsPool rw" "\<forall>a t. a \<noteq> v \<longrightarrow> S (a, t) = field_state self (a, t)"
    and stakes: "\<forall>d' v'. opt_val Stake (GetDelegation ds d' v') =
      stake_of self d' v' - (if d' = CallerAccount ctx \<and> v' = v then amount else 0)"
    and upd: "\<forall>c. eligible_vote_count c = eligible_vote_count self \<longrightarrow>
      update_vote_count (word_of_int (votes (cfg self) (TotalStake val) ?f))
        (word_of_int (votes (cfg self) (TotalStake val - amount) ?f)) c = Some (c\<lparr>eligible_vote_count := n\<rparr>)"
    and sv: "\<forall>c. validators c = validators self \<longrightarrow> store_validator v block st' ?val' rw1 c =
      Some (c\<lparr>field_state := (field_state c)((v, block) \<mapsto> st'), validators := vs\<rparr>)"
    and vs: "validators_wf vs" "vmap vs = (vmap (validators self))(v \<mapsto> (?val', rw1))"
    and post: "\<forall>c. decreased self v block amount ?us st'
      (self\<lparr>field_state := S, balances := b, evm_logs := l, delegations := ds\<rparr>) vs n c \<longrightarrow> dpos_inv block amount c"
    by (elim exE conjE) (rule that)
  let ?c2 = "self\<lparr>field_state := S, balances := b, evm_logs := l, delegations := ds\<rparr>"
  let ?c3 = "?c2\<lparr>field_state := S((v, block) \<mapsto> st'), validators := vs, eligible_vote_count := n\<rparr>"
  have T: "0 \<le> TotalStake val" "amount \<le> TotalStake val"
    using accrued_covered(4) [OF inv old] stake_le_total [OF inv val x(1)] x(2) by simp_all
  have ghost: "dpos_inv block amount (?c3\<lparr>amount_delegated := amount_delegated self - word_of_int amount\<rparr>)"
    using post by (simp add: decreased_def)
  show ?thesis
  proof (cases "TotalStake val = amount \<and> CommissionRewardsPool rw = 0")
    case False
    then have "redelegate_from self ctx block args val rw ?f (word_of_int (votes (cfg self) (TotalStake val) ?f)) x = Some ?c3"
      using run upd sv T S(1) by (auto simp: redelegate_from_def args voteCountWithFactor_votes [OF i(1) _ i(6)] Let_def)
    moreover have "moved self ?c3 ctx v amount"
      using S(2) stakes vs(2) by (simp add: moved_def stake_of_def getVotingPowerFactor_def total_stake_def msum_upd [OF i(7)] old)
    ultimately show ?thesis using ghost by blast
  next
    case True
    then have keep': "UndelegationsCount val = 0" "TotalStake val = amount" "CommissionRewardsPool rw = 0" using keep by auto
    from delete_validator_slots_exec [of ?c2 v] i(2) old obtain vs2 la ec where
      del: "delete_validator_slots v ?c2 = Some (?c2\<lparr>validators := vs2,
        field_voting_power_factor := (field_voting_power_factor self)(v := None),
        field_last_active_block := la, field_eviction_cursor := ec\<rparr>)" (is "_ = Some ?c4")
      and vs2: "validators_wf vs2" "vmap vs2 = (vmap (validators self))(v := None)" by auto
    let ?c = "?c4\<lparr>field_state := S((v, block) := None), eligible_vote_count := n\<rparr>"
    have "redelegate_from self ctx block args val rw ?f (word_of_int (votes (cfg self) (TotalStake val) ?f)) x = Some ?c"
      using run upd del T S(1) keep'
      by (simp add: redelegate_from_def args voteCountWithFactor_votes [OF i(1) _ i(6)] state_put_def Let_def)
    moreover have "moved self ?c ctx v amount"
      using S(2) stakes vs2(2) keep'(2) by (simp add: moved_def stake_of_def getVotingPowerFactor_def total_stake_def msum_upd [OF i(7)] old)
    moreover have "dpos_inv block amount (?c\<lparr>amount_delegated := amount_delegated self - word_of_int amount\<rparr>)"
    proof (rule dpos_inv_delete [OF ghost, of v ?val' rw1, where k = "(0, 0, 0)" and u = "undelegations_field ?us (0, 0, 0)"])
      show "b \<le> block \<and> 0 \<le> RewardsPer1Stake st" if "field_state (?c\<lparr>amount_delegated := amount_delegated self - word_of_int amount\<rparr>) (v, b) = Some st"
        for b st using that dpos_inv_states [OF ghost, of v b st] by (auto split: if_splits)
    qed (use vs vs2 i(4) keep' S(1) up dpos_invD(3) [OF ghost] in \<open>auto simp: getVotingPowerFactor_def BasisPointsScale_def\<close>)
    ultimately show ?thesis by blast
  qed
qed

lemma redelegate_to_correct:
  assumes ghost: "dpos_inv block amount (c\<lparr>amount_delegated := amount_delegated c - word_of_int amount\<rparr>)" (is "dpos_inv _ _ ?g")
    and ctx: "frame_ok ctx" and a: "0 < amount" and args: "ValidatorTo args = w" "RA_Amount args = amount"
    and old: "vmap (validators c) w = Some (wal, rw)" and room: "room c w block amount"
  shows "\<exists>c4. redelegate_to c ctx block args wal rw (getVotingPowerFactor c w)
      (word_of_int (votes (cfg c) (TotalStake wal) (getVotingPowerFactor c w))) = Some c4 \<and> dpos_inv block 0 c4 \<and>
    undelegations c4 = undelegations c \<and>
    (\<forall>d' v'. stake_of c4 d' v' = stake_of c d' v' + (if d' = CallerAccount ctx \<and> v' = w then amount else 0))"
proof -
  let ?us = "undelegations c"
  note i = dpos_invD [OF ghost]
  have g: "vmap (validators ?g) w = Some (wal, rw)" "room ?g w block amount" "cfg ?g = cfg c"
    "getVotingPowerFactor ?g a = getVotingPowerFactor c a" "stake_of ?g d' v' = stake_of c d' v'" for a d' v'
    using old room by (simp_all add: room_def total_stake_def getVotingPowerFactor_def stake_of_def)
  have u: "undelegations_field ?us = (undelegations_field (undelegations ?g))((0, 0, 0) := undelegations_field ?us (0, 0, 0))"
    "\<forall>w. undelegations_field ?us (0, 0, 0) = Some w \<longrightarrow> 0 < Amount w" "undelegations_wf ?us"
    using dpos_inv_amount [OF ghost] i(4) by simp_all
  have e: "amount + opt_val Amount (undelegations_field ?us (0, 0, 0)) - opt_val Amount (undelegations_field (undelegations ?g) (0, 0, 0)) = amount - 0"
    by simp
  have c: "c = ?g\<lparr>undelegations := ?us, amount_delegated := amount_delegated c\<rparr>" by simp
  have am: "amount_delegated ?g + word_of_int amount = amount_delegated c" by simp
  from increase_stage [OF ghost g(1) order_less_imp_le [OF a] ctx order_less_imp_le [OF a] a g(2) u(3,1,2) e c, of "UndelegationsCount wal"]
  obtain st rw1 c1 c2 c3 c4 where
    run: "current_state c w block wal rw = Some (st, wal\<lparr>V_LastUpdated := block\<rparr>, rw1, c1)"
      "increase_delegation c1 ctx w block st amount = Some c2" "cfg c2 = cfg c" "amount_delegated c2 = amount_delegated c"
      "update_vote_count (word_of_int (votes (cfg c) (TotalStake wal) (getVotingPowerFactor c w)))
        (word_of_int (votes (cfg c) (TotalStake wal + amount) (getVotingPowerFactor c w)))
        (c2\<lparr>amount_delegated := amount_delegated c\<rparr>) = Some c3"
      "store_validator w block (st\<lparr>Count := Count st + 1\<rparr>)
        (wal\<lparr>V_LastUpdated := block, TotalStake := TotalStake wal + amount\<rparr>) rw1 c3 = Some c4"
    and post: "dpos_inv block 0 c4" "undelegations c4 = ?us"
      "\<forall>d' v'. stake_of c4 d' v' = stake_of c d' v' + (if d' = CallerAccount ctx \<and> v' = w then amount else 0)"
    unfolding am g by auto
  have c2: "c2\<lparr>amount_delegated := amount_delegated c\<rparr> = c2" by (simp add: run(4) [symmetric])
  have "redelegate_to c ctx block args wal rw (getVotingPowerFactor c w)
      (word_of_int (votes (cfg c) (TotalStake wal) (getVotingPowerFactor c w))) =
    Some (AddLog (MakeRedelegatedLog (CallerAccount ctx) (ValidatorFrom args) (ValidatorTo args) (RA_Amount args)) c4)"
    using run(1-3,6) run(5) [unfolded c2] accrued_covered(4) [OF ghost g(1)] a i(1) i(6) [of w]
    by (simp add: redelegate_to_def args voteCountWithFactor_votes g Let_def)
  then show ?thesis using post by (auto simp: AddLog_def stake_of_def)
qed

text \<open>
  C5: \<open>redelegate\<close> between two validators, unless it takes the whole stake of a validator that still
  has pending undelegations and no commission, does not panic; an error leaves the contract
  unchanged; success keeps the invariant, moves the amount from the caller's stake at one validator
  to the other, and changes no undelegation.
\<close>

theorem redelegate_correct:
  assumes inv: "dpos_inv block 0 self" and ctx: "frame_ok ctx"
    and room: "room self (ValidatorFrom args) block 0" "room self (ValidatorTo args) block 0"
    and keep: "\<And>val rw. vmap (validators self) (ValidatorFrom args) = Some (val, rw) \<Longrightarrow>
      TotalStake val = RA_Amount args \<Longrightarrow> CommissionRewardsPool rw = 0 \<Longrightarrow> UndelegationsCount val = 0"
  shows "\<exists>r self'. redelegate self ctx block args = Some (r, self') \<and>
    (case r of
       Inl err \<Rightarrow> self' = self
     | Inr _ \<Rightarrow> dpos_inv block 0 self' \<and> undelegations self' = undelegations self \<and>
         (\<forall>d' v'. stake_of self' d' v' = stake_of self d' v' -
           (if d' = CallerAccount ctx \<and> v' = ValidatorFrom args then RA_Amount args else 0) +
           (if d' = CallerAccount ctx \<and> v' = ValidatorTo args then RA_Amount args else 0)))"
proof -
  let ?d = "CallerAccount ctx" and ?v = "ValidatorFrom args" and ?w = "ValidatorTo args" and ?a = "RA_Amount args"
  note i = dpos_invD [OF inv]
  show ?thesis
  proof (cases "\<exists>val wal x. ?v \<noteq> ?w \<and> 0 < ?a \<and> GetValidator (validators self) ?v = Some val \<and>
      GetValidator (validators self) ?w = Some wal \<and> ?a + TotalStake wal \<le> max_stake self \<and>
      GetDelegation (delegations self) ?d ?v = Some x \<and> ?a \<le> Stake x \<and>
      (Stake x \<noteq> ?a \<longrightarrow> MinimumDeposit (DPOS (cfg self)) \<le> Stake x - ?a)")
    case False
    then have "\<exists>err. redelegate self ctx block args = Some (Inl err, self)"
      using i(8) validators_wfD(1) [OF i(2)]
      by (cases "GetValidator (validators self) ?v"; cases "GetValidator (validators self) ?w";
          cases "GetDelegation (delegations self) ?d ?v")
        (auto simp: redelegate_def Let_def voteCountWithFactor_votes [OF i(1) _ i(6)])
    then obtain err where "redelegate self ctx block args = Some (Inl err, self)" ..
    then show ?thesis by (intro exI [of _ "Inl err"] exI [of _ self]) simp
  next
    case True
    then obtain val wal x where vw: "?v \<noteq> ?w" "0 < ?a" and val: "GetValidator (validators self) ?v = Some val"
      and wal: "GetValidator (validators self) ?w = Some wal" "?a + TotalStake wal \<le> max_stake self"
      and x: "GetDelegation (delegations self) ?d ?v = Some x" "?a \<le> Stake x"
        "Stake x \<noteq> ?a \<longrightarrow> MinimumDeposit (DPOS (cfg self)) \<le> Stake x - ?a" by (elim exE conjE) (rule that)
    obtain rv where rv: "vmap (validators self) ?v = Some (val, rv)" using vmap_wf(2) [OF i(2) val] by blast
    obtain rw where rw: "vmap (validators self) ?w = Some (wal, rw)" using vmap_wf(2) [OF i(2) wal(1)] by blast
    from redelegate_from_correct [OF inv ctx vw(2) refl refl rv x(1,2) room(1) keep [OF rv]] obtain c where
      from1: "redelegate_from self ctx block args val rv (getVotingPowerFactor self ?v)
        (word_of_int (votes (cfg self) (TotalStake val) (getVotingPowerFactor self ?v))) x = Some c"
      and ghost: "dpos_inv block ?a (c\<lparr>amount_delegated := amount_delegated self - word_of_int ?a\<rparr>)" (is "dpos_inv _ _ ?g")
      and mv: "moved self c ctx ?v ?a" by blast
    have c: "amount_delegated c = amount_delegated self" "cfg c = cfg self" "undelegations c = undelegations self"
      "vmap (validators c) ?w = Some (wal, rw)" "getVotingPowerFactor c ?w = getVotingPowerFactor self ?w" "room c ?w block ?a"
      using mv vw rw room(2) by (auto simp: moved_def room_def)
    from redelegate_to_correct [OF _ ctx vw(2) refl refl c(4,6)] ghost obtain c4 where
      "redelegate_to c ctx block args wal rw (getVotingPowerFactor self ?w)
        (word_of_int (votes (cfg self) (TotalStake wal) (getVotingPowerFactor self ?w))) = Some c4" "dpos_inv block 0 c4"
        "undelegations c4 = undelegations self"
        "\<forall>d' v'. stake_of c4 d' v' = stake_of c d' v' + (if d' = ?d \<and> v' = ?w then ?a else 0)" by (auto simp: c)
    moreover from this(1) have "redelegate self ctx block args = Some (Inr (), c4)"
      using vw val wal x rv rw from1 accrued_covered(4) [OF inv rv] accrued_covered(4) [OF inv rw]
      by (auto simp: redelegate_def vmap_Some Let_def voteCountWithFactor_votes [OF i(1) _ i(6)])
    moreover have "stake_of c d' v' = stake_of self d' v' - (if d' = ?d \<and> v' = ?v then ?a else 0)" for d' v'
      using mv by (simp add: moved_def)
    ultimately show ?thesis by (intro exI [of _ "Inr ()"] exI [of _ c4]) simp
  qed
qed

theorem redelegate_correct_witness:
  "\<exists>self'. redelegate ex_contract (ex_call 1 0) 5 \<lparr>ValidatorFrom = 10, ValidatorTo = 11, RA_Amount = 1000\<rparr> = Some (Inr (), self') \<and>
     dpos_inv 5 0 self' \<and> stake_of self' 1 10 = 2000 \<and> stake_of self' 1 11 = 1000"
proof -
  let ?args = "\<lparr>ValidatorFrom = 10, ValidatorTo = 11, RA_Amount = 1000\<rparr> :: RedelegateArgs"
  have "room ex_contract 10 5 0" "room ex_contract 11 5 0"
    by (simp_all add: room_def ex_totals) (simp_all add: ex_contract_def ex_cfg_def)
  moreover have "UndelegationsCount val = 0"
    if "vmap (validators ex_contract) 10 = Some (val, rw)" "TotalStake val = 1000" for val rw
    using that by (auto simp: ex_contract_def ex_vmap)
  moreover have "succeeds (redelegate ex_contract (ex_call 1 0) 5 ?args)" by code_simp
  moreover have "stake_of ex_contract 1 10 = 3000" "stake_of ex_contract 1 11 = 0" by code_simp+
  ultimately show ?thesis
    using succeeds_cases [OF _ redelegate_correct [of 5 ex_contract "ex_call 1 0" ?args]] ex_inv0
    by (fastforce simp: frame_ok_def dpos_contract_address_def)
qed

section \<open>What redelegate loses\<close>

text \<open>What the blocks of \<open>redelegate\<close> leave alone: states that are not there, and other validators.\<close>

definition leaves :: "Contract \<Rightarrow> Contract \<Rightarrow> bool" where
  "leaves c c' \<longleftrightarrow> validators c' = validators c \<and> cfg c' = cfg c \<and> (\<forall>k. field_state c k = None \<longrightarrow> field_state c' k = None)"

lemma leaves_trans: "leaves a b \<Longrightarrow> leaves b c \<Longrightarrow> leaves a c"
  by (simp add: leaves_def)

lemma decrement_leaves: "state_get_and_decrement c v b = Some (st, c') \<Longrightarrow> leaves c c'"
  by (auto simp: state_get_and_decrement_def state_put_def Let_def leaves_def elim!: bind_eq_SomeE split: if_splits)

lemma current_state_leaves: "current_state c v block val rw = Some (st, val', rw', c') \<Longrightarrow> leaves c c'"
  by (auto simp: current_state_def leaves_def dest!: decrement_leaves elim!: bind_eq_SomeE split: option.splits if_splits)

lemma current_state_fresh:
  "current_state c v block val rw = Some (st, val', rw', c') \<Longrightarrow> field_state c (v, block) = None \<Longrightarrow>
    val' = val\<lparr>V_LastUpdated := block\<rparr> \<and> rw' = rw\<lparr>RewardsPool := 0\<rparr>"
  by (auto simp: current_state_def state_get_def elim!: bind_eq_SomeE split: option.splits if_splits)

lemma settle_leaves: "settle_delegation c ctx v st x = Some c' \<Longrightarrow> leaves c c'"
  by (auto simp: settle_delegation_def transferContractBalance_def AddBalance_def AddLog_def leaves_def Let_def
      dest!: decrement_leaves elim!: bind_eq_SomeE split: if_splits)

lemma increase_leaves: "increase_delegation c ctx v block st amount = Some c' \<Longrightarrow> leaves c c'"
  by (auto simp: increase_delegation_def leaves_def Let_def dest!: settle_leaves elim!: bind_eq_SomeE split: option.splits)

lemma decrease_leaves: "decrease_delegation c ctx v block st x amount = Some (st', c') \<Longrightarrow> leaves c c'"
  by (auto simp: decrease_delegation_def leaves_def Let_def dest!: settle_leaves elim!: bind_eq_SomeE split: if_splits)

lemma votes_leaves: "update_vote_count m n c = Some c' \<Longrightarrow> leaves c c'"
  by (auto simp: update_vote_count_def leaves_def elim!: bind_eq_SomeE split: if_splits)

text \<open>A validator whose reward state is missing: the first who acts on it in a later block gets a panic.\<close>

definition state_lost :: "Contract \<Rightarrow> address \<Rightarrow> bool" where
  "state_lost c v \<longleftrightarrow> (\<exists>val. GetValidator (validators c) v = Some val \<and> TotalStake val = 0 \<and> field_state c (v, V_LastUpdated val) = None)"

lemma redelegate_from_loses:
  assumes run: "redelegate_from self ctx block args val rw factor pf x = Some self'"
    and whole: "TotalStake val = RA_Amount args" "CommissionRewardsPool rw = 0" "UndelegationsCount val \<noteq> 0"
    and fresh: "field_state self (ValidatorFrom args, block) = None"
  shows "state_lost self' (ValidatorFrom args) \<and> cfg self' = cfg self \<and> (\<forall>k. field_state self k = None \<longrightarrow> field_state self' k = None)"
proof -
  let ?v = "ValidatorFrom args"
  let ?val = "val\<lparr>V_LastUpdated := block, TotalStake := 0\<rparr>"
  obtain st val1 rw1 c1 where cs: "current_state self ?v block val rw = Some (st, val1, rw1, c1)"
    using run by (auto simp: redelegate_from_def elim!: bind_eq_SomeE)
  obtain st2 c2 where dec: "decrease_delegation c1 ctx ?v block st x (RA_Amount args) = Some (st2, c2)"
    using run cs by (auto simp: redelegate_from_def elim!: bind_eq_SomeE)
  have val1: "val1 = val\<lparr>V_LastUpdated := block\<rparr>" "rw1 = rw\<lparr>RewardsPool := 0\<rparr>" using current_state_fresh [OF cs fresh] by simp_all
  have l: "leaves self c2" using current_state_leaves [OF cs] decrease_leaves [OF dec] by (rule leaves_trans)
  obtain vs c3 m where vs: "ModifyValidator (validators c2) ?v ?val = Some vs" "c3 = c2\<lparr>validators := vs\<rparr>"
    and v: "update_vote_count pf m c3 = Some self'"
    using run cs dec whole unfolding val1
    by (auto simp: redelegate_from_def Let_def simp del: ModifyValidator_Some elim!: bind_eq_SomeE)
  then have "GetValidator (validators c3) ?v = Some ?val" by (simp add: GetValidator_def)
  moreover have "leaves c3 self'" using v votes_leaves by blast
  ultimately show ?thesis using l vs(2) fresh by (auto simp: leaves_def state_lost_def)
qed

lemma redelegate_to_keeps_lost:
  assumes run: "redelegate_to c ctx block args val rw factor pf = Some c'" and ne: "ValidatorFrom args \<noteq> ValidatorTo args"
    and lost: "state_lost c (ValidatorFrom args)"
  shows "state_lost c' (ValidatorFrom args) \<and> cfg c' = cfg c \<and>
    (\<forall>b. field_state c (ValidatorFrom args, b) = None \<longrightarrow> field_state c' (ValidatorFrom args, b) = None)"
proof -
  let ?t = "ValidatorTo args"
  from run obtain st val1 rw1 c1 c2 m c3 st4 val4 c4 where cs: "current_state c ?t block val rw = Some (st, val1, rw1, c1)"
    and inc: "increase_delegation c1 ctx ?t block st (RA_Amount args) = Some c2" and upd: "update_vote_count pf m c2 = Some c3"
    and sv: "store_validator ?t block st4 val4 rw1 c3 = Some c4" and c': "c' = AddLog (MakeRedelegatedLog (CallerAccount ctx) (ValidatorFrom args) ?t (RA_Amount args)) c4"
    unfolding redelegate_to_def by (auto simp: Let_def elim!: bind_eq_SomeE)
  have l: "leaves c c3"
    using leaves_trans [OF leaves_trans [OF current_state_leaves [OF cs] increase_leaves [OF inc]] votes_leaves [OF upd]] .
  have "cfg c4 = cfg c3" "GetValidator (validators c4) (ValidatorFrom args) = GetValidator (validators c3) (ValidatorFrom args)"
    "field_state c4 (ValidatorFrom args, b) = field_state c3 (ValidatorFrom args, b)" for b
    using sv ne by (auto simp: store_validator_def state_put_def GetValidator_def elim!: bind_eq_SomeE)
  then show ?thesis using l lost c' by (auto simp: leaves_def state_lost_def AddLog_def)
qed

lemma delegate_lost:
  assumes "state_lost c v" "field_state c (v, block) = None" "Value ctx \<le> max_stake c" "MinimumDeposit (DPOS (cfg c)) \<le> Value ctx"
  shows "delegate c ctx block v = None"
proof -
  obtain val where val: "GetValidator (validators c) v = Some val" "TotalStake val = 0" "field_state c (v, V_LastUpdated val) = None"
    using assms(1) by (auto simp: state_lost_def)
  have "current_state c v block val rw = None" for rw
    using assms(2) val(3) by (simp add: current_state_def state_get_def state_get_and_decrement_def)
  then show ?thesis using val assms(3,4) by (simp add: delegate_def)
qed

text \<open>
  C10: the case that the property of \<open>redelegate\<close> leaves out. Whenever \<open>redelegate\<close> succeeds in moving the whole stake
  of a validator that has pending undelegations and no commission to claim, and is the first to act on it in
  the block, the reward state that the validator refers to is missing afterwards, and every delegation to it
  in a block without a state of its own (any later block) panics, whoever makes it.
\<close>

theorem redelegate_loses_state:
  assumes run: "redelegate self ctx block args = Some (Inr (), self')"
    and val: "GetValidator (validators self) (ValidatorFrom args) = Some val" "GetValidatorRewards (validators self) (ValidatorFrom args) = Some rw"
    and whole: "TotalStake val = RA_Amount args" "CommissionRewardsPool rw = 0" "UndelegationsCount val \<noteq> 0"
    and fresh: "field_state self (ValidatorFrom args, block) = None" "field_state self (ValidatorFrom args, block') = None"
    and amount: "MinimumDeposit (DPOS (cfg self)) \<le> Value ctx'" "Value ctx' \<le> max_stake self"
  shows "state_lost self' (ValidatorFrom args) \<and> delegate self' ctx' block' (ValidatorFrom args) = None"
proof -
  from run val obtain factor pf x c valt rwt factort pt where
    fr: "redelegate_from self ctx block args val rw factor pf x = Some c"
    and tt: "redelegate_to c ctx block args valt rwt factort pt = Some self'" and ne: "ValidatorFrom args \<noteq> ValidatorTo args"
    unfolding redelegate_def by (auto simp: Let_def elim!: bind_eq_SomeE split: option.splits if_splits)
  note 1 = redelegate_from_loses [OF fr whole fresh(1)]
  note 2 = redelegate_to_keeps_lost [OF tt ne conjunct1 [OF 1]]
  show ?thesis using 1 2 fresh(2) amount by (auto intro!: delegate_lost)
qed

text \<open>The example after a part of the only delegation to the second validator has been undelegated.\<close>

definition ex_pending :: Contract where
  "ex_pending = (case undelegate ex_contract (ex_call 2 0) 5 \<lparr>UA_Validator = 11, UA_Amount = 500\<rparr> of
     Some (_, c) \<Rightarrow> c | None \<Rightarrow> ex_contract)"

abbreviation ex_redelegation :: RedelegateArgs where
  "ex_redelegation \<equiv> \<lparr>ValidatorFrom = 11, ValidatorTo = 10, RA_Amount = 1500\<rparr>"

lemma ex_pending_facts:
  "succeeds (redelegate ex_pending (ex_call 2 0) 6 ex_redelegation)"
  "map_option TotalStake (GetValidator (validators ex_pending) 11) = Some 1500"
  "map_option UndelegationsCount (GetValidator (validators ex_pending) 11) = Some 1"
  "map_option CommissionRewardsPool (GetValidatorRewards (validators ex_pending) 11) = Some 0"
  "field_state ex_pending (11, 6) = None" "field_state ex_pending (11, 7) = None"
  "MinimumDeposit (DPOS (cfg ex_pending)) = 100" "max_stake ex_pending = 100000"
  by code_simp+

theorem redelegate_loses_state_witness:
  "\<exists>self'. redelegate ex_pending (ex_call 2 0) 6 ex_redelegation = Some (Inr (), self') \<and> state_lost self' 11 \<and>
    delegate self' (ex_call 3 1000) 7 11 = None"
proof -
  obtain self' where run: "redelegate ex_pending (ex_call 2 0) 6 ex_redelegation = Some (Inr (), self')"
    using ex_pending_facts(1) by (auto simp: succeeds_def split: option.splits sum.splits prod.splits)
  obtain val rw where v: "GetValidator (validators ex_pending) 11 = Some val" "GetValidatorRewards (validators ex_pending) 11 = Some rw"
    "TotalStake val = 1500" "CommissionRewardsPool rw = 0" "UndelegationsCount val \<noteq> 0"
    using ex_pending_facts(2-4) by auto
  show ?thesis
    using redelegate_loses_state [OF run, of val rw 7 "ex_call 3 1000"] run v ex_pending_facts(5-) by simp
qed

end
