(* ===== verification/Dpos_Claims.thy ===== *)
theory Dpos_Claims
  imports Dpos_Steps Dpos_Example
begin

text \<open>
  Correctness of the methods that pay rewards: \<open>claimRewards\<close>, \<open>claimAllRewards\<close> and
  \<open>claimCommissionRewards\<close>.
\<close>

section \<open>The reward of a delegation\<close>

text \<open>
  What a validator has earned per stake up to a block: recorded in the state of the block if somebody has
  acted on the validator in it, otherwise the state of its last update and its pool over its stake. The
  reward due to a delegation is the part since its own last update, in proportion to its stake.
\<close>

definition reward_level :: "Contract \<Rightarrow> address \<Rightarrow> blocknum \<Rightarrow> int" where
  "reward_level self v block =
     (case field_state self (v, block) of
        Some st \<Rightarrow> RewardsPer1Stake st
      | None \<Rightarrow> (case vmap (validators self) v of
          None \<Rightarrow> 0
        | Some (val, rw) \<Rightarrow> rps (field_state self) v (V_LastUpdated val) + RewardsPool rw * max_stake self div TotalStake val))"

definition reward_due :: "Contract \<Rightarrow> address \<Rightarrow> address \<Rightarrow> blocknum \<Rightarrow> int" where
  "reward_due self d v block =
     (case GetDelegation (delegations self) d v of
        None \<Rightarrow> 0
      | Some x \<Rightarrow> (reward_level self v block - rps (field_state self) v (D_LastUpdated x)) * Stake x div max_stake self)"

lemma reward_due_cong:
  assumes "GetDelegation (delegations c) d v = GetDelegation (delegations self) d v"
    "vmap (validators c) v = vmap (validators self) v" "\<And>b. field_state c (v, b) = field_state self (v, b)" "cfg c = cfg self"
  shows "reward_due c d v block = reward_due self d v block"
  by (simp add: reward_due_def reward_level_def rps_def assms split: option.split)

lemma dec_state_rps: "dec_state S k (v, b) = Some st \<Longrightarrow> RewardsPer1Stake st = rps S v b"
  by (auto simp: dec_state_def rps_def split: option.splits if_splits)

text \<open>The state that a handler works with holds the level of the block.\<close>

lemma current_state_level:
  assumes cs: "current_state self v block val rw = Some (st, val1, rw1, self\<lparr>field_state := S1\<rparr>)"
    and old: "vmap (validators self) v = Some (val, rw)" and pos: "0 < TotalStake val"
    and acc: "acc_inv (field_state self) (delegations self) v val" "delegations_wf (delegations self)"
  shows "RewardsPer1Stake st = reward_level self v block"
    and "S1 = field_state self \<or> S1 = dec_state (field_state self) (v, V_LastUpdated val)"
proof -
  obtain stu where stu: "field_state self (v, V_LastUpdated val) = Some stu" "0 \<le> RewardsPer1Stake stu"
    using acc_inv_validator_state [OF acc] by metis
  let ?read = "map_option (\<lambda>(a, _, _, c). (a, field_state c))"
  have r: "?read (current_state self v block val rw) = Some (st, S1)" using cs by simp
  have "RewardsPer1Stake st = reward_level self v block \<and> (S1 = field_state self \<or> S1 = dec_state (field_state self) (v, V_LastUpdated val))"
  proof (cases "field_state self (v, block)")
    case None
    then have "?read (current_state self v block val rw) =
        Some (\<lparr>RewardsPer1Stake = RewardsPer1Stake stu + RewardsPool rw * max_stake self div TotalStake val, Count = 1\<rparr>,
          dec_state (field_state self) (v, V_LastUpdated val))"
      using pos stu by (simp add: current_state_def state_get_def state_get_and_decrement_Some calculateRewardPer1Stake_def)
    then show ?thesis using r None old stu(1) by (auto simp: reward_level_def rps_Some)
  next
    case (Some st0)
    then have "?read (current_state self v block val rw) = Some (st0, field_state self)"
      by (simp add: current_state_def state_get_def)
    then show ?thesis using r Some by (simp add: reward_level_def)
  qed
  then show "RewardsPer1Stake st = reward_level self v block"
    "S1 = field_state self \<or> S1 = dec_state (field_state self) (v, V_LastUpdated val)" by blast+
qed

lemma settle_balance:
  assumes "settle_delegation c ctx v st x = Some c'" "field_state c (v, D_LastUpdated x) = Some stx" "0 \<le> RewardsPer1Stake stx"
    and "CallerAccount ctx \<noteq> Account ctx" "0 < max_stake c"
    and r: "r = max 0 ((RewardsPer1Stake st - RewardsPer1Stake stx) * Stake x div max_stake c)"
  shows "balances c' = (balances c)(Account ctx := balances c (Account ctx) - r, CallerAccount ctx := balances c (CallerAccount ctx) + r)"
  using assms
  by (auto simp: settle_delegation_def state_get_and_decrement_Some calculateDelegatorReward_def Let_def fun_eq_iff
      transferContractBalance_def AddBalance_def AddLog_def elim!: bind_eq_SomeE split: if_splits)

section \<open>claimRewards\<close>

text \<open>Bringing the validator to the block and writing it back, as \<open>claimRewards\<close> does.\<close>

lemma claim_sync:
  assumes inv: "dpos_inv block 0 self" and old: "vmap (validators self) v = Some (val, rw)" and pos: "0 < TotalStake val"
  shows "\<exists>st rw1 S1 vs. synced self v block val rw st rw1 S1 \<and>
    RewardsPer1Stake st = reward_level self v block \<and>
    (S1 = field_state self \<or> S1 = dec_state (field_state self) (v, V_LastUpdated val)) \<and>
    validators_wf vs \<and> vmap vs = (vmap (validators self))(v \<mapsto> (val\<lparr>V_LastUpdated := block\<rparr>, rw1)) \<and>
    (case state_get self v block of
       Some state \<Rightarrow> Some (state, self)
     | None \<Rightarrow> do {
         validator \<leftarrow> GetValidator (validators self) v;
         validator_rewards \<leftarrow> GetValidatorRewards (validators self) v;
         (state, validator, validator_rewards, c) \<leftarrow> current_state self v block validator validator_rewards;
         vs \<leftarrow> ModifyValidator (validators c) v validator;
         vs \<leftarrow> ModifyValidatorRewards vs v validator_rewards;
         Some (state, c\<lparr>validators := vs\<rparr>)
       }) = Some (st, self\<lparr>field_state := S1, validators := vs\<rparr>)"
proof -
  note i = dpos_invD [OF inv] and cov = accrued_covered [OF inv old]
  have val: "GetValidator (validators self) v = Some val" "GetValidatorRewards (validators self) v = Some rw"
    using old by (simp_all add: vmap_Some)
  obtain st rw1 S1 where cs: "current_state self v block val rw =
      Some (st, val\<lparr>V_LastUpdated := block\<rparr>, rw1, self\<lparr>field_state := S1\<rparr>)"
    and sy: "synced self v block val rw st rw1 S1"
    using current_state_acc [OF i(11) [OF val(1)] i(3) i(12) [OF val(1)] cov(2) i(8)] by blast
  note z = syncedD [OF sy] and lv = current_state_level [OF cs old pos i(11) [OF val(1)] i(3)]
  show ?thesis
  proof (cases "field_state self (v, block)")
    case None
    obtain vs where pv: "put_validator (validators self) v (val\<lparr>V_LastUpdated := block\<rparr>) rw1 = Some vs" "validators_wf vs"
      "vmap vs = (vmap (validators self))(v \<mapsto> (val\<lparr>V_LastUpdated := block\<rparr>, rw1))"
      using put_validator_upd [OF i(2), of v "val\<lparr>V_LastUpdated := block\<rparr>" rw1] old z(4) [OF cov(2)] z(5) cov(3,4) by auto
    then show ?thesis using None cs sy val lv
      by (intro exI [of _ st] exI [of _ rw1] exI [of _ S1] exI [of _ vs])
        (auto simp: state_get_def put_validator_def simp del: ModifyValidator_Some ModifyValidatorRewards_Some elim!: bind_eq_SomeE)
  next
    case (Some st0)
    then have s: "st = st0" "S1 = field_state self" "rw1 = rw" "V_LastUpdated val = block" using sy by (auto simp: synced_def)
    have "val\<lparr>V_LastUpdated := block\<rparr> = val" using s(4) by (cases val) simp
    then show ?thesis using Some sy s old i(2) lv
      by (intro exI [of _ st] exI [of _ rw1] exI [of _ S1] exI [of _ "validators self"]) (auto simp: state_get_def)
  qed
qed

text \<open>A delegation that refers to the state of the block has nothing to claim.\<close>

lemma claim_settled:
  assumes st: "field_state c (v, block) = Some st" "0 \<le> RewardsPer1Stake st" and M: "0 < max_stake c"
    and wf: "delegations_wf (delegations c)" and x: "GetDelegation (delegations c) (CallerAccount ctx) v = Some x"
      "D_LastUpdated x = block" "0 \<le> Stake x"
  shows "\<exists>c'. claimRewards c ctx block v = Some (Inr (), c') \<and> balances c' = balances c"
proof -
  obtain ds where "ModifyDelegation (delegations c) (CallerAccount ctx) v (x\<lparr>D_LastUpdated := block\<rparr>) = Some ds"
    using ModifyDelegation_upd [OF wf, of "CallerAccount ctx" v "x\<lparr>D_LastUpdated := block\<rparr>"] x by auto
  then show ?thesis using st M x
    by (simp add: claimRewards_def state_get_def settle_delegation_def state_get_and_decrement_Some
        calculateDelegatorReward_def state_put_def Let_def)
qed

definition paid :: "Contract \<Rightarrow> address \<Rightarrow> int \<Rightarrow> Contract \<Rightarrow> bool" where
  "paid self d amount self' \<longleftrightarrow> balances self' = (balances self)
     (dpos_contract_address := balances self dpos_contract_address - amount, d := balances self d + amount)"

lemma paid_trans:
  "paid a d m b \<Longrightarrow> paid b d n c \<Longrightarrow> d \<noteq> dpos_contract_address \<Longrightarrow> paid a d (m + n) c"
  by (auto simp: paid_def fun_eq_iff)

definition claimed :: "Contract \<Rightarrow> CallFrame \<Rightarrow> address \<Rightarrow> blocknum \<Rightarrow> Contract \<Rightarrow> bool" where
  "claimed self ctx v block self' \<longleftrightarrow>
     undelegations self' = undelegations self \<and> cfg self' = cfg self \<and> total_stake self' = total_stake self \<and>
     (\<forall>d' v'. stake_of self' d' v' = stake_of self d' v') \<and>
     (\<forall>a b. a \<noteq> v \<longrightarrow> field_state self' (a, b) = field_state self (a, b)) \<and>
     (\<forall>a. a \<noteq> v \<longrightarrow> vmap (validators self') a = vmap (validators self) a) \<and>
     (\<forall>d' a. a \<noteq> v \<longrightarrow> GetDelegation (delegations self') d' a = GetDelegation (delegations self) d' a) \<and>
     0 \<le> reward_due self (CallerAccount ctx) v block \<and>
     paid self (CallerAccount ctx) (reward_due self (CallerAccount ctx) v block) self' \<and>
     reward_due self' (CallerAccount ctx) v block = 0 \<and>
     (\<exists>self''. claimRewards self' ctx block v = Some (Inr (), self'') \<and> balances self'' = balances self')"

lemma claimed_other:
  "claimed self ctx v block self' \<Longrightarrow> w \<noteq> v \<Longrightarrow> reward_due self' d w block = reward_due self d w block"
  by (rule reward_due_cong) (simp_all add: claimed_def)

lemma claim_exec:
  assumes inv: "dpos_inv block 0 self" and ctx: "frame_ok ctx" and room: "room self v block 0"
    and Some: "GetDelegation (delegations self) (CallerAccount ctx) v = Some x"
  shows "\<exists>self'. claimRewards self ctx block v = Some (Inr (), self') \<and> dpos_inv block 0 self' \<and> claimed self ctx v block self'"
proof -
  let ?d = "CallerAccount ctx" and ?y = "x\<lparr>D_LastUpdated := block\<rparr>"
  note i = dpos_invD [OF inv]
  obtain val rw where old: "vmap (validators self) v = Some (val, rw)"
    using i(10) [OF Some] vmap_wf(2) [OF i(2)] by blast
  have "0 < TotalStake val" using stake_le_total [OF inv _ Some] old i(9) [OF Some] by (fastforce simp: vmap_Some)
  from claim_sync [OF inv old this] obtain st rw1 S1 vs where sy: "synced self v block val rw st rw1 S1"
    and lv: "RewardsPer1Stake st = reward_level self v block" "S1 = field_state self \<or> S1 = dec_state (field_state self) (v, V_LastUpdated val)"
    and vs: "validators_wf vs" "vmap vs = (vmap (validators self))(v \<mapsto> (val\<lparr>V_LastUpdated := block\<rparr>, rw1))"
    and run: "(case state_get self v block of
       Some state \<Rightarrow> Some (state, self)
     | None \<Rightarrow> do {
         validator \<leftarrow> GetValidator (validators self) v;
         validator_rewards \<leftarrow> GetValidatorRewards (validators self) v;
         (state, validator, validator_rewards, c) \<leftarrow> current_state self v block validator validator_rewards;
         vs \<leftarrow> ModifyValidator (validators c) v validator;
         vs \<leftarrow> ModifyValidatorRewards vs v validator_rewards;
         Some (state, c\<lparr>validators := vs\<rparr>)
       }) = Some (st, self\<lparr>field_state := S1, validators := vs\<rparr>)" (is "_ = Some (st, ?c0)") by blast
  note z = syncedD [OF sy] and own = owed_covered [OF inv old sy order_refl, of ?d]
  obtain stx where stx: "S1 (v, D_LastUpdated x) = Some stx" "0 \<le> RewardsPer1Stake stx"
      "RewardsPer1Stake stx \<le> RewardsPer1Stake st" "RewardsPer1Stake stx = rps S1 v (D_LastUpdated x)"
    by (rule settle_state [OF z(1) i(3) _ z(3) z(2) Some]) simp_all
  have ctx': "Account ctx = dpos_contract_address" "?d \<noteq> dpos_contract_address" using ctx by (simp_all add: frame_ok_def)
  from settle_delegation_exec [of ?c0 v x stx st ctx] stx i(8) i(9) [OF Some] ctx' own Some
  obtain reward b l where st_run: "settle_delegation ?c0 ctx v st x =
      Some (?c0\<lparr>field_state := dec_state S1 (v, D_LastUpdated x), balances := b, evm_logs := l\<rparr>)"
    and rwd: "0 \<le> reward" "max_stake self * reward \<le> owed st S1 v (Some x)"
      "b dpos_contract_address = balances self dpos_contract_address - reward" "b ?d = balances self ?d + reward"
    by (auto simp: owed_def)
  have "RewardsPer1Stake stx = rps (field_state self) v (D_LastUpdated x)" using lv(2) stx(1) dec_state_rps rps_Some by metis
  then have due: "reward_due self ?d v block = (RewardsPer1Stake st - RewardsPer1Stake stx) * Stake x div max_stake self"
    by (simp add: reward_due_def Some lv(1))
  have due0: "0 \<le> reward_due self ?d v block" unfolding due using stx(3) i(8) i(9) [OF Some] by (simp add: pos_imp_zdiv_nonneg_iff)
  have bal: "b = (balances self)(dpos_contract_address := balances self dpos_contract_address - reward_due self ?d v block,
      ?d := balances self ?d + reward_due self ?d v block)"
    using settle_balance [OF st_run, of stx] stx(1,2) ctx' i(8) due due0 by simp
  obtain ds where ds: "ModifyDelegation (delegations self) ?d v ?y = Some ds" "deleg_upd (delegations self) ?d v (Some ?y) ds"
    using ModifyDelegation_upd [OF i(3), of ?d v ?y] Some i(9) [OF Some] by auto
  define self' where "self' = self\<lparr>validators := vs, balances := b, evm_logs := l, delegations := ds,
    field_state := (dec_state S1 (v, D_LastUpdated x))((v, block) \<mapsto> st\<lparr>Count := Count st + 1\<rparr>)\<rparr>"
  have "\<not> (state_get self v block = None \<and> GetValidator (validators self) v = None)" using old by (simp add: vmap_Some)
  then have "claimRewards self ctx block v = Some (Inr (), self')"
    using Some run st_run ds(1) z(7) by (simp add: claimRewards_def state_put_def self'_def Let_def)
  moreover have inv': "dpos_inv block 0 self'"
    by (rule delegation_change [OF inv old sy, where d = ?d and y = "Some ?y" and val' = "val\<lparr>V_LastUpdated := block\<rparr>" and reward = reward
          and k = "(0, 0, 0)" and u = "undelegations_field (undelegations self) (0, 0, 0)"])
      (use ds room vs rwd i(4,13) i(9) [OF Some] dpos_inv_amount [OF inv] Some in
        \<open>auto simp: self'_def room_def settled_states_def\<close>)
  moreover have again: "\<exists>self''. claimRewards self' ctx block v = Some (Inr (), self'') \<and> balances self'' = balances self'"
    using dpos_invD(3,8) [OF inv'] z(7) ds(2) i(9) [OF Some]
    by (intro claim_settled [where st = "st\<lparr>Count := Count st + 1\<rparr>" and x = ?y]) (auto simp: self'_def deleg_upd_def)
  moreover have "claimed self ctx v block self'"
    unfolding claimed_def
  proof (intro conjI allI impI)
    show "undelegations self' = undelegations self" "cfg self' = cfg self" by (simp_all add: self'_def)
    show "total_stake self' = total_stake self"
      by (simp add: self'_def total_stake_def vs(2) msum_upd [OF i(7)] old)
    show "field_state self' (a, b) = field_state self (a, b)" if "a \<noteq> v" for a b
      using that sy by (simp add: self'_def dec_state_other synced_def)
    show "stake_of self' d' v' = stake_of self d' v'" for d' v'
      using ds(2) Some by (auto simp: stake_of_def self'_def deleg_upd_def)
    show "vmap (validators self') a = vmap (validators self) a" if "a \<noteq> v" for a using that by (simp add: self'_def vs(2))
    show "GetDelegation (delegations self') d' a = GetDelegation (delegations self) d' a" if "a \<noteq> v" for d' a
      using that ds(2) by (simp add: self'_def deleg_upd_def)
    show "paid self ?d (reward_due self ?d v block) self'" by (simp add: paid_def self'_def bal)
    show "reward_due self' ?d v block = 0" using ds(2) by (simp add: reward_due_def reward_level_def rps_def self'_def deleg_upd_def)
  qed fact+
  ultimately show ?thesis by blast
qed

text \<open>
  C6: \<open>claimRewards\<close> does not panic; without a delegation it returns an error and changes nothing;
  otherwise it keeps the invariant and every stake and undelegation, moves from the contract to the caller
  exactly the reward that is due to the delegation (what the validator has earned per stake since the last
  update of the delegation, times its stake), changes no other balance, and leaves nothing due: claiming
  again in the same block pays nothing.
\<close>

theorem claimRewards_correct:
  assumes inv: "dpos_inv block 0 self" and ctx: "frame_ok ctx" and room: "room self v block 0"
  shows "\<exists>r self'. claimRewards self ctx block v = Some (r, self') \<and>
    (case r of
       Inl err \<Rightarrow> self' = self \<and> GetDelegation (delegations self) (CallerAccount ctx) v = None
     | Inr _ \<Rightarrow> dpos_inv block 0 self' \<and> undelegations self' = undelegations self \<and>
         (\<forall>d' v'. stake_of self' d' v' = stake_of self d' v') \<and>
         0 \<le> reward_due self (CallerAccount ctx) v block \<and>
         balances self' = (balances self)
           (dpos_contract_address := balances self dpos_contract_address - reward_due self (CallerAccount ctx) v block,
            CallerAccount ctx := balances self (CallerAccount ctx) + reward_due self (CallerAccount ctx) v block) \<and>
         reward_due self' (CallerAccount ctx) v block = 0 \<and>
         (\<exists>self''. claimRewards self' ctx block v = Some (Inr (), self'') \<and> balances self'' = balances self'))"
proof (cases "GetDelegation (delegations self) (CallerAccount ctx) v")
  case None
  then show ?thesis by (simp add: claimRewards_def)
next
  case (Some x)
  from claim_exec [OF inv ctx room Some] show ?thesis
    by (auto simp: claimed_def paid_def)
qed

lemma ex_due: "reward_due ex_contract 1 10 5 = 600"
  by (simp add: reward_due_def reward_level_def rps_def ex_contract_def ex_GetDelegation ex_vmap ex_cfg_def)

theorem claimRewards_correct_witness:
  "\<exists>self'. claimRewards ex_contract (ex_call 1 0) 5 10 = Some (Inr (), self') \<and> dpos_inv 5 0 self' \<and> stake_of self' 1 10 = 3000 \<and>
    balances self' 1 = 100600 \<and> balances self' dpos_contract_address = 7400"
proof -
  have "succeeds (claimRewards ex_contract (ex_call 1 0) 5 10)" "stake_of ex_contract 1 10 = 3000" by code_simp+
  moreover have "room ex_contract 10 5 0" by (simp add: room_def ex_totals) (simp add: ex_contract_def ex_cfg_def)
  moreover have "balances ex_contract 1 = 100000" "balances ex_contract dpos_contract_address = 8000"
    by (simp_all add: ex_contract_def dpos_contract_address_def)
  ultimately show ?thesis
    using succeeds_cases [OF _ claimRewards_correct [of 5 ex_contract "ex_call 1 0" 10]] ex_inv0 ex_due
    by (fastforce simp: frame_ok_def dpos_contract_address_def)
qed

section \<open>claimAllRewards\<close>

lemma claimAllRewards_loop_correct:
  assumes "distinct vs" "dpos_inv block 0 self" "frame_ok ctx" "\<And>v. v \<in> set vs \<Longrightarrow> room self v block 0"
    "\<And>v. v \<in> set vs \<Longrightarrow> 0 < stake_of self (CallerAccount ctx) v"
  shows "\<exists>self'. claimAllRewards_loop ctx block vs self = Some (Inr (), self') \<and> dpos_inv block 0 self' \<and>
    undelegations self' = undelegations self \<and> (\<forall>d' v'. stake_of self' d' v' = stake_of self d' v') \<and>
    paid self (CallerAccount ctx) (\<Sum>v \<in> set vs. reward_due self (CallerAccount ctx) v block) self' \<and>
    (\<forall>v \<in> set vs. reward_due self' (CallerAccount ctx) v block = 0) \<and>
    (\<forall>v. v \<notin> set vs \<longrightarrow> reward_due self' (CallerAccount ctx) v block = reward_due self (CallerAccount ctx) v block)"
  using assms
proof (induction vs arbitrary: self)
  case (Cons v vs)
  let ?d = "CallerAccount ctx"
  obtain x where x: "GetDelegation (delegations self) ?d v = Some x"
    using Cons.prems(5) [of v] by (cases "GetDelegation (delegations self) ?d v") (auto simp: stake_of_def)
  from claim_exec [OF Cons.prems(2,3) _ x] Cons.prems(4) [of v] obtain self1 where
    1: "claimRewards self ctx block v = Some (Inr (), self1)" "dpos_inv block 0 self1" "claimed self ctx v block self1" by auto
  have w: "room self1 w block 0" "0 < stake_of self1 ?d w" if w: "w \<in> set vs" for w
  proof -
    have "w \<noteq> v" "room self w block 0" using w Cons.prems(1,4) by auto
    then show "room self1 w block 0" using 1(3) by (auto simp: claimed_def room_def)
    show "0 < stake_of self1 ?d w" using 1(3) Cons.prems(5) w by (simp add: claimed_def)
  qed
  have v: "v \<notin> set vs" "distinct vs" using Cons.prems(1) by auto
  from Cons.IH [OF v(2) 1(2) Cons.prems(3) w] obtain self' where
    2: "claimAllRewards_loop ctx block vs self1 = Some (Inr (), self')" "dpos_inv block 0 self'" "undelegations self' = undelegations self1"
    "\<forall>d' v'. stake_of self' d' v' = stake_of self1 d' v'" "paid self1 ?d (\<Sum>w \<in> set vs. reward_due self1 ?d w block) self'"
    "\<forall>w \<in> set vs. reward_due self' ?d w block = 0" "\<forall>w. w \<notin> set vs \<longrightarrow> reward_due self' ?d w block = reward_due self1 ?d w block"
    by auto
  have "(\<Sum>w \<in> set vs. reward_due self1 ?d w block) = (\<Sum>w \<in> set vs. reward_due self ?d w block)"
    by (rule sum.cong [OF refl]) (metis claimed_other [OF 1(3)] v(1))
  moreover have "paid self ?d (reward_due self ?d v block) self1" "?d \<noteq> dpos_contract_address"
    using 1(3) Cons.prems(3) by (simp_all add: claimed_def frame_ok_def)
  ultimately have "paid self ?d (\<Sum>w \<in> set (v # vs). reward_due self ?d w block) self'"
    using paid_trans [OF _ 2(5)] v(1) by simp
  moreover have "reward_due self' ?d v block = 0" using 2(7) v(1) 1(3) by (simp add: claimed_def)
  moreover have "reward_due self' ?d w block = reward_due self ?d w block" if "w \<notin> set (v # vs)" for w
    using that 2(7) claimed_other [OF 1(3), of w ?d] by simp
  ultimately show ?case using 1 2 by (intro exI [of _ self']) (auto simp: claimed_def)
qed (simp add: paid_def)

text \<open>
  C7: \<open>claimAllRewards\<close> always succeeds from a state that satisfies the invariant: it keeps the
  invariant, every stake and every undelegation, moves from the contract to the caller exactly the sum of
  the rewards due to all the delegations of the caller, changes no other balance, and leaves nothing due.
\<close>

theorem claimAllRewards_correct:
  assumes inv: "dpos_inv block 0 self" and ctx: "frame_ok ctx" and room: "\<And>v. room self v block 0"
    and due: "due = (\<Sum>v | GetDelegation (delegations self) (CallerAccount ctx) v \<noteq> None. reward_due self (CallerAccount ctx) v block)"
  shows "\<exists>self'. claimAllRewards self ctx block = Some (Inr (), self') \<and> dpos_inv block 0 self' \<and>
    undelegations self' = undelegations self \<and> (\<forall>d' v'. stake_of self' d' v' = stake_of self d' v') \<and>
    balances self' = (balances self)
      (dpos_contract_address := balances self dpos_contract_address - due,
       CallerAccount ctx := balances self (CallerAccount ctx) + due) \<and>
    (\<forall>v. reward_due self' (CallerAccount ctx) v block = 0)"
proof -
  let ?d = "CallerAccount ctx" and ?vs = "GetAllDelegatorValidatorsAddresses (delegations self) (CallerAccount ctx)"
  note i = dpos_invD [OF inv]
  have l: "?vs = delegator_validators (delegations self) ?d" by (simp add: GetAllDelegatorValidatorsAddresses_def)
  have d: "distinct ?vs" using i(3) unfolding l delegations_wf_def by blast
  have set: "set ?vs = {v. GetDelegation (delegations self) ?d v \<noteq> None}" using delegations_wfD(1) [OF i(3)] unfolding l by blast
  have "0 < stake_of self ?d v" if "v \<in> set ?vs" for v using that i(9) unfolding set by (auto simp: stake_of_def)
  from claimAllRewards_loop_correct [OF d inv ctx room this] show ?thesis
    unfolding claimAllRewards_def set due paid_def by (fastforce simp: reward_due_def [of self])
qed

theorem claimAllRewards_correct_witness:
  "\<exists>self'. claimAllRewards ex_contract (ex_call 1 0) 5 = Some (Inr (), self') \<and> dpos_inv 5 0 self' \<and>
    balances self' 1 = 100600 \<and> balances self' dpos_contract_address = 7400"
proof -
  have "room ex_contract v 5 0" for v
    by (simp add: room_def ex_totals) (simp add: ex_contract_def ex_cfg_def)
  moreover have "{v. GetDelegation (delegations ex_contract) 1 v \<noteq> None} = {10}" by (auto simp: ex_contract_def ex_GetDelegation)
  moreover have "balances ex_contract 1 = 100000" "balances ex_contract dpos_contract_address = 8000"
    by (simp_all add: ex_contract_def dpos_contract_address_def)
  ultimately show ?thesis using claimAllRewards_correct [of 5 ex_contract "ex_call 1 0", OF _ _ _ refl] ex_inv0 ex_due
    by (auto simp: frame_ok_def dpos_contract_address_def)
qed

section \<open>claimCommissionRewards\<close>

text \<open>
  C8: \<open>claimCommissionRewards\<close> does not panic; an error leaves the contract unchanged; it succeeds
  only for the owner of the validator, and then it keeps the invariant, pays the whole commission
  pool to the owner and changes no stake and no undelegation.
\<close>

theorem claimCommissionRewards_correct:
  assumes inv: "dpos_inv block 0 self" and ctx: "frame_ok ctx"
  shows "\<exists>r self'. claimCommissionRewards self ctx block v = Some (r, self') \<and>
    (case r of
       Inl err \<Rightarrow> self' = self
     | Inr _ \<Rightarrow> dpos_inv block 0 self' \<and> undelegations self' = undelegations self \<and> delegations self' = delegations self \<and>
         CheckValidatorOwner (validators self) (CallerAccount ctx) v \<and>
         (\<exists>val rw. vmap (validators self) v = Some (val, rw) \<and>
           balances self' = (balances self)
             (dpos_contract_address := balances self dpos_contract_address - CommissionRewardsPool rw,
              CallerAccount ctx := balances self (CallerAccount ctx) + CommissionRewardsPool rw)))"
proof (cases "CheckValidatorOwner (validators self) (CallerAccount ctx) v \<and> GetValidator (validators self) v \<noteq> None")
  case False
  then have "\<exists>err. claimCommissionRewards self ctx block v = Some (Inl err, self)"
    by (auto simp: claimCommissionRewards_def)
  then obtain err where "claimCommissionRewards self ctx block v = Some (Inl err, self)" ..
  then show ?thesis by (intro exI [of _ "Inl err"] exI [of _ self]) simp
next
  case True
  note i = dpos_invD [OF inv]
  then obtain val rw where old: "vmap (validators self) v = Some (val, rw)" using True vmap_wf(2) [OF i(2)] by blast
  note cov = accrued_covered [OF inv old]
  have val: "GetValidator (validators self) v = Some val" "GetValidatorRewards (validators self) v = Some rw"
    using old by (simp_all add: vmap_Some)
  let ?d = "CallerAccount ctx" and ?p = "CommissionRewardsPool rw" and ?rw' = "rw\<lparr>CommissionRewardsPool := 0\<rparr>"
  let ?b = "(balances self)(dpos_contract_address := balances self dpos_contract_address - ?p, ?d := balances self ?d + ?p)"
  have d: "?d \<noteq> dpos_contract_address" using ctx by (simp add: frame_ok_def)
  have "0 \<le> accrued (field_state self) (delegations self) v val" using accrued_nonneg [OF i(11) [OF val(1)] i(3)] .
  then have "max_stake self * ?p \<le> max_stake self * balances self dpos_contract_address"
    using cov(1) mult_nonneg_nonneg [of "max_stake self", OF _ cov(2)] mult_nonneg_nonneg [of "max_stake self", OF _ cov(4)] i(8)
    by (simp only: liability_def prod.case distrib_left diff_0_right) linarith
  then have "?p \<le> balances self dpos_contract_address" using i(8) by simp
  note pay = transfer_exec [OF ctx this]
  let ?c0 = "AddLog (MakeCommissionRewardsClaimedLog ?d v ?p) (self\<lparr>balances := ?b\<rparr>)"
  have "\<exists>c. claimCommissionRewards self ctx block v = Some (Inr (), c) \<and> dpos_inv block 0 c \<and>
      undelegations c = undelegations self \<and> delegations c = delegations self \<and> balances c = ?b"
  proof (cases "TotalStake val = 0 \<and> UndelegationsCount val = 0")
    case del: True
    from delete_and_release [OF inv old, of ?c0] obtain vs c1 la ec st where
      run: "delete_validator_slots v ?c0 = Some c1" "state_get_and_decrement c1 v (V_LastUpdated val) =
        Some (st, ?c0\<lparr>validators := vs, field_voting_power_factor := (field_voting_power_factor self)(v := None),
          field_last_active_block := la, field_eviction_cursor := ec,
          field_state := dec_state (field_state self) (v, V_LastUpdated val)\<rparr>)" (is "_ = Some (st, ?c)")
      and vs: "validators_wf vs" "vmap vs = (vmap (validators self))(v := None)" by (auto simp: AddLog_def)
    have "claimCommissionRewards self ctx block v = Some (Inr (), ?c)"
      using True val pay del run by (simp add: claimCommissionRewards_def Let_def)
    moreover have "dpos_inv block 0 ?c"
      by (rule iffD1 [OF dpos_inv_cong release_inv [OF inv old _ vs, of ?b 0]]) (use del d in \<open>simp_all add: AddLog_def\<close>)
    ultimately show ?thesis by (intro exI [of _ ?c]) (simp add: AddLog_def)
  next
    case False
    obtain vs where vs: "ModifyValidatorRewards (validators self) v ?rw' = Some vs" "validators_wf vs"
      "vmap vs = (vmap (validators self))(v \<mapsto> (val, ?rw'))"
      using ModifyValidatorRewards_upd [OF i(2) old, of ?rw'] cov by auto
    let ?c = "?c0\<lparr>validators := vs\<rparr>"
    have "claimCommissionRewards self ctx block v = Some (Inr (), ?c)"
      using True val pay False vs(1) by (auto simp: claimCommissionRewards_def AddLog_def simp del: ModifyValidatorRewards_Some)
    moreover have "dpos_inv block 0 ?c"
      by (rule iffD1 [OF dpos_inv_cong dpos_inv_validator [OF inv old vs(2,3), of ?b 0]])
        (use inv True val d in \<open>auto simp: dpos_inv_def validator_ok_def AddLog_def\<close>)
    ultimately show ?thesis by (intro exI [of _ ?c]) (simp add: AddLog_def)
  qed
  then show ?thesis using True old by auto
qed

theorem claimCommissionRewards_correct_witness:
  "\<exists>self'. claimCommissionRewards ex_contract (ex_call 1 0) 5 10 = Some (Inr (), self') \<and> dpos_inv 5 0 self' \<and>
     balances self' 1 = 100070"
proof -
  have "succeeds (claimCommissionRewards ex_contract (ex_call 1 0) 5 10)" by code_simp
  moreover have "balances ex_contract 1 = 100000" by code_simp
  moreover have "CommissionRewardsPool rw = 70" if "vmap (validators ex_contract) 10 = Some (val, rw)" for val rw
    using that by (auto simp: ex_contract_def ex_vmap)
  ultimately show ?thesis
    using succeeds_cases [OF _ claimCommissionRewards_correct [of 5 ex_contract "ex_call 1 0" 10]] ex_inv0
    by (fastforce simp: frame_ok_def dpos_contract_address_def)
qed

end
