(* ===== verification/Storage_Layout.thy ===== *)
theory Storage_Layout
  imports Typed_IMap
begin

text \<open>
  The storage slots of the DPoS contract and the byte strings whose hashes are their keys
  (\<open>dpos_contract.go\<close>, \<open>validators.go\<close>, \<open>delegations.go\<close>, \<open>undelegations.go\<close>). The model of the contract keeps each
  kind of slot as a map of its own; what makes this faithful is that two different slots never
  have the same key, which holds for a hash function without collisions. The keys of an
  iterable map depend on whether its prefix has spare capacity (\<open>Iterable_Map\<close>); the theorem
  is for every combination of these.
\<close>

section \<open>Slots\<close>

datatype 'i imap_slot = Item u32 | ItemsCount | ItemPos 'i

datatype dpos_slot =
    SValidator address | SValidatorInfo address | SValidatorRewards address | SValidatorOwner address
  | SValidatorVrf address | SValidatorsList "address imap_slot"
  | SState address blocknum
  | SDelegation address address | SDelegatorValidators address "address imap_slot"
  | SValidatorDelegators address "address imap_slot"
  | SUndelegation address address u64 | SUndelegationsValidators address "address imap_slot"
  | SUndelegationsIds address address "u64 imap_slot" | SLastUniqueId address
  | SEligibleVoteCount | SAmountDelegated | SMintedTokens | STotalSupply | SYield
  | SVotingPowerFactor address | SLastActiveBlock address | SEvictionCursor address | SLastProcessedEpochBlock

fun imap_parts :: "bool \<Rightarrow> ('i \<Rightarrow> bytes) \<Rightarrow> bytes \<Rightarrow> 'i imap_slot \<Rightarrow> bytes" where
  "imap_parts spare enc prefix (Item pos) = prefix @ (if spare then field_items_pos else field_items) @ uint32ToBytes pos"
| "imap_parts spare enc prefix ItemsCount = prefix @ field_items_count"
| "imap_parts spare enc prefix (ItemPos i) = prefix @ field_items_pos @ enc i"

text \<open>The keys of the three stores: the field of the contract, the field of the store, and the rest.\<close>

definition validators_key :: "byte \<Rightarrow> bytes \<Rightarrow> bytes" where
  "validators_key field rest = 0 # field # rest"

definition delegations_key :: "byte \<Rightarrow> bytes \<Rightarrow> bytes" where
  "delegations_key field rest = 2 # field # rest"

definition undelegations_key :: "byte \<Rightarrow> bytes \<Rightarrow> bytes" where
  "undelegations_key field rest = 3 # field # rest"

fun slot_parts :: "(dpos_slot \<Rightarrow> bool) \<Rightarrow> dpos_slot \<Rightarrow> bytes" where
  "slot_parts sp (SValidator a) = validators_key 0 (Address_Bytes a)"
| "slot_parts sp (SValidatorInfo a) = validators_key 1 (Address_Bytes a)"
| "slot_parts sp (SValidatorRewards a) = validators_key 2 (Address_Bytes a)"
| "slot_parts sp (SValidatorOwner a) = validators_key 3 (Address_Bytes a)"
| "slot_parts sp (SValidatorVrf a) = validators_key 4 (Address_Bytes a)"
| "slot_parts sp (SValidatorsList s) = imap_parts (sp (SValidatorsList ItemsCount)) Address_Bytes (validators_key 5 []) s"
| "slot_parts sp (SState a b) = [1] @ Address_Bytes a @ BlockToBytes b"
| "slot_parts sp (SDelegation v d) = delegations_key 0 (Address_Bytes v @ Address_Bytes d)"
| "slot_parts sp (SDelegatorValidators d s) =
     imap_parts (sp (SDelegatorValidators d ItemsCount)) Address_Bytes (delegations_key 1 (Address_Bytes d)) s"
| "slot_parts sp (SValidatorDelegators v s) =
     imap_parts (sp (SValidatorDelegators v ItemsCount)) Address_Bytes (delegations_key 2 (Address_Bytes v)) s"
| "slot_parts sp (SUndelegation d v i) = undelegations_key 0 (Address_Bytes d @ Address_Bytes v @ Uint64ToBytes i)"
| "slot_parts sp (SUndelegationsValidators d s) =
     imap_parts (sp (SUndelegationsValidators d ItemsCount)) Address_Bytes (undelegations_key 2 (Address_Bytes d)) s"
| "slot_parts sp (SUndelegationsIds d v s) =
     imap_parts (sp (SUndelegationsIds d v ItemsCount)) Uint64ToBytes (undelegations_key 3 (Address_Bytes d @ Address_Bytes v)) s"
| "slot_parts sp (SLastUniqueId d) = undelegations_key 4 (Address_Bytes d)"
| "slot_parts sp SEligibleVoteCount = [4]"
| "slot_parts sp SAmountDelegated = [5]"
| "slot_parts sp SMintedTokens = [6]"
| "slot_parts sp STotalSupply = [7]"
| "slot_parts sp SYield = [8]"
| "slot_parts sp (SVotingPowerFactor a) = [9] @ Address_Bytes a"
| "slot_parts sp (SLastActiveBlock a) = [10] @ Address_Bytes a"
| "slot_parts sp (SEvictionCursor a) = [11] @ Address_Bytes a"
| "slot_parts sp SLastProcessedEpochBlock = [12]"

section \<open>No collisions\<close>

lemma Address_Bytes_inj [simp]: "Address_Bytes a = Address_Bytes b \<longleftrightarrow> a = b"
  by (metis BytesToAddress_Bytes)

lemma integer_keys_inj [simp]:
  "uint32ToBytes m = uint32ToBytes n \<longleftrightarrow> m = n" "Uint64ToBytes i = Uint64ToBytes j \<longleftrightarrow> i = j"
  by (metis bytesToUint32_uint32ToBytes option.inject, metis BytesToUint64_Uint64ToBytes option.inject)

lemma imap_parts_prefix: "imap_parts sp enc p s = p @ imap_parts sp enc [] s"
  by (cases s) simp_all

lemma imap_parts_inj:
  assumes "\<And>i. length (enc i) = k" "k \<noteq> 4" "\<And>i j. enc i = enc j \<longleftrightarrow> i = j"
  shows "imap_parts sp enc [] s = imap_parts sp enc [] t \<longleftrightarrow> s = t"
proof -
  have "uint32ToBytes m \<noteq> enc i" "enc i \<noteq> uint32ToBytes m" for m i
    using assms(1) [of i] assms(2) by (metis length_uint32ToBytes)+
  then show ?thesis using assms(3)
    by (cases s; cases t) (auto simp: field_items_def field_items_pos_def field_items_count_def)
qed

lemma imap_keys_inj [simp]:
  "imap_parts sp Address_Bytes [] s = imap_parts sp Address_Bytes [] t \<longleftrightarrow> s = t"
  "imap_parts sp Uint64ToBytes [] u = imap_parts sp Uint64ToBytes [] w \<longleftrightarrow> u = w"
  by (rule imap_parts_inj [where k = 20], simp_all) (rule imap_parts_inj [where k = 8], simp_all)

text \<open>Slots of iterable maps show their prefix first.\<close>

lemmas store_keys = validators_key_def delegations_key_def undelegations_key_def

lemmas slot_parts_prefix =
  slot_parts.simps(6,9,10,12,13) [unfolded store_keys imap_parts_prefix [where p = "_ @ _"] imap_parts_prefix [where p = "_ # _"]]

lemma slot_parts_inj: "slot_parts sp s = slot_parts sp t \<Longrightarrow> s = t"
  by (cases s; cases t; simp add: slot_parts_prefix store_keys BlockToBytes_inj del: slot_parts.simps(6,9,10,12,13))

lemma storage_key_collision:
  "s \<noteq> t \<Longrightarrow> Stor_k_1 keccak256 [slot_parts sp s] = Stor_k_1 keccak256 [slot_parts sp t] \<Longrightarrow>
     \<exists>x y. x \<noteq> y \<and> keccak256 x = keccak256 y"
  unfolding Stor_k_1_def concat.simps append_Nil2 using slot_parts_inj by blast

text \<open>C30: two slots of the DPoS contract hash the same bytes for their storage key only if they are the same slot,
  whatever prefixes of iterable maps have spare capacity. So a shared key is a collision of the
  hash function.\<close>

theorem storage_keys_distinct: "inj (slot_parts sp)"
  using slot_parts_inj by (auto simp: inj_def)

end
