(* ===== verification/Rlp_Encoder.thy ===== *)
theory Rlp_Encoder
  imports Bin_Codec
begin

text \<open>
  The RLP encoder of \<open>rlp/encode.go\<close>: the header and integer writers, and the \<open>Encoder\<close> buffer,
  which keeps the string data apart from the list headers (\<open>lheads\<close>) and interleaves the two
  only in \<open>Flush\<close>. The reference is the recursive encoding \<open>rlp\<close> of a tree of items; the
  lemmas show that every \<open>Encoder\<close> operation appends the reference encoding of its argument
  (relation \<open>wrote\<close>), that \<open>ListStart\<close>/\<open>ListEnd\<close> wrap what was written between them in a list
  header, and that \<open>ToBytes\<close> returns what was written.
\<close>

section \<open>Slices and appenders\<close>

text \<open>
  \<open>slice xs i j\<close> is Go's \<open>xs[i:j]\<close> (a panic unless \<open>i \<le> j \<le> len(xs)\<close>; the sources never slice
  between the length and the capacity). An appender is the callback \<open>func(...byte)\<close> with the
  state it changes; \<open>BytesAppender\<close> appends to a byte slice.
\<close>

definition slice :: "'a list \<Rightarrow> nat \<Rightarrow> nat \<Rightarrow> 'a list option" where
  "slice xs i j = (if i \<le> j \<and> j \<le> length xs then Some (take (j - i) (drop i xs)) else None)"

type_synonym 's appender = "bytes \<Rightarrow> 's \<Rightarrow> 's option"

definition BytesAppender :: "bytes appender" where
  "BytesAppender bs b = Some (b @ bs)"

section \<open>Integers and headers\<close>

definition EmptyString :: byte where
  "EmptyString = 0x80"

definition putint :: "'s appender \<Rightarrow> u64 \<Rightarrow> byte \<Rightarrow> 's \<Rightarrow> 's option" where
  "putint appender i tag =
     (if i < 2 ^ 8 then appender [1 + tag, byte_of 0 i]
      else if i < 2 ^ 16 then appender [2 + tag, byte_of 1 i, byte_of 0 i]
      else if i < 2 ^ 24 then appender [3 + tag, byte_of 2 i, byte_of 1 i, byte_of 0 i]
      else if i < 2 ^ 32 then appender [4 + tag, byte_of 3 i, byte_of 2 i, byte_of 1 i, byte_of 0 i]
      else if i < 2 ^ 40 then appender [5 + tag, byte_of 4 i, byte_of 3 i, byte_of 2 i, byte_of 1 i,
        byte_of 0 i]
      else if i < 2 ^ 48 then appender [6 + tag, byte_of 5 i, byte_of 4 i, byte_of 3 i, byte_of 2 i,
        byte_of 1 i, byte_of 0 i]
      else if i < 2 ^ 56 then appender [7 + tag, byte_of 6 i, byte_of 5 i, byte_of 4 i, byte_of 3 i,
        byte_of 2 i, byte_of 1 i, byte_of 0 i]
      else appender [8 + tag, byte_of 7 i, byte_of 6 i, byte_of 5 i, byte_of 4 i, byte_of 3 i,
        byte_of 2 i, byte_of 1 i, byte_of 0 i])"

definition puthead :: "'s appender \<Rightarrow> byte \<Rightarrow> byte \<Rightarrow> u64 \<Rightarrow> 's \<Rightarrow> 's option" where
  "puthead appender smalltag largetag sz =
     (if sz < 56 then appender [smalltag + ucast sz] else putint appender sz largetag)"

definition headsize :: "u64 \<Rightarrow> byte" where
  "headsize sz = (if sz < 56 then 1 else 1 + SizeInBytes sz)"

definition ToRLPString :: "bytes \<Rightarrow> 's appender \<Rightarrow> 's \<Rightarrow> 's option" where
  "ToRLPString s appender st =
     (if length s = 1 \<and> hd s \<le> 0x7F then appender [hd s] st
      else do {
        st \<leftarrow> (if length s < 56 then appender [EmptyString + of_nat (length s)] st
               else putint appender (of_nat (length s)) 0xB7 st);
        appender s st
      })"

definition ToRLPStringSimple :: "bytes \<Rightarrow> bytes option" where
  "ToRLPStringSimple s = ToRLPString s BytesAppender []"

section \<open>The encoder buffer\<close>

record ListHead =
  lh_strpos :: u32
  lh_base_lhsize :: u32
  lh_elems_size :: u32
  lh_closed :: bool

record Encoder =
  enc_str :: bytes
  enc_lheads :: "ListHead list"
  enc_lhsize :: u32

definition Encoder_Reset :: "Encoder \<Rightarrow> Encoder" where
  "Encoder_Reset e = e\<lparr>enc_str := [], enc_lheads := [], enc_lhsize := 0\<rparr>"

definition Encoder_empty :: Encoder where
  "Encoder_empty = \<lparr>enc_str = [], enc_lheads = [], enc_lhsize = 0\<rparr>"

definition Encoder_Size :: "Encoder \<Rightarrow> u32" where
  "Encoder_Size e = of_nat (length (enc_str e)) + enc_lhsize e"

definition BufferSizes :: "Encoder \<Rightarrow> nat \<times> nat" where
  "BufferSizes e = (length (enc_str e), length (enc_lheads e))"

definition ListSize :: "nat \<Rightarrow> Encoder \<Rightarrow> u32 option" where
  "ListSize list_pos e = do {
     assertm (list_pos < length (enc_lheads e));
     let lh = enc_lheads e ! list_pos;
     assertm (lh_closed lh);
     Some (lh_elems_size lh + ucast (headsize (ucast (lh_elems_size lh))))
   }"

definition ListStart :: "Encoder \<Rightarrow> nat \<times> Encoder" where
  "ListStart e = (length (enc_lheads e),
     e\<lparr>enc_lheads := enc_lheads e @ [\<lparr>lh_strpos = of_nat (length (enc_str e)),
        lh_base_lhsize = enc_lhsize e, lh_elems_size = 0, lh_closed = False\<rparr>]\<rparr>)"

definition ListEnd :: "nat \<Rightarrow> Encoder \<Rightarrow> Encoder option" where
  "ListEnd list_pos e = do {
     assertm (list_pos < length (enc_lheads e));
     let lh = enc_lheads e ! list_pos;
     assertm (\<not> lh_closed lh);
     let sz = Encoder_Size e - lh_strpos lh - lh_base_lhsize lh;
     Some (e\<lparr>enc_lheads := (enc_lheads e)[list_pos := lh\<lparr>lh_elems_size := sz, lh_closed := True\<rparr>],
       enc_lhsize := enc_lhsize e + ucast (headsize (ucast sz))\<rparr>)
   }"

definition RevertToListStart :: "nat \<Rightarrow> Encoder \<Rightarrow> Encoder option" where
  "RevertToListStart list_pos e = do {
     assertm (list_pos < length (enc_lheads e));
     let lh = enc_lheads e ! list_pos;
     s \<leftarrow> slice (enc_str e) 0 (unat (lh_strpos lh));
     Some (e\<lparr>enc_lheads := take list_pos (enc_lheads e), enc_str := s,
       enc_lhsize := lh_base_lhsize lh\<rparr>)
   }"

fun flush_loop :: "bytes \<Rightarrow> 's appender \<Rightarrow> ListHead list \<Rightarrow> u32 \<Rightarrow> 's \<Rightarrow> 's option" where
  "flush_loop s appender [] strpos st = do {
     tail \<leftarrow> slice s (unat strpos) (length s);
     appender tail st
   }"
| "flush_loop s appender (lh # lhs) strpos st = do {
     chunk \<leftarrow> slice s (unat strpos) (unat (lh_strpos lh));
     st \<leftarrow> appender chunk st;
     assertm (lh_closed lh);
     st \<leftarrow> puthead appender 0xC0 0xF7 (ucast (lh_elems_size lh)) st;
     flush_loop s appender lhs (lh_strpos lh) st
   }"

definition Flush :: "int \<Rightarrow> 's appender \<Rightarrow> Encoder \<Rightarrow> 's \<Rightarrow> 's option" where
  "Flush list_pos appender e st =
     (if list_pos = -1 then flush_loop (enc_str e) appender (enc_lheads e) 0 st
      else do {
        assertm (0 \<le> list_pos \<and> nat list_pos < length (enc_lheads e));
        flush_loop (enc_str e) appender (drop (nat list_pos) (enc_lheads e))
          (lh_strpos (enc_lheads e ! nat list_pos)) st
      })"

definition FlushToBytes :: "int \<Rightarrow> Encoder \<Rightarrow> bytes \<Rightarrow> bytes option" where
  "FlushToBytes since_list_pos e buf = Flush since_list_pos BytesAppender e buf"

definition ToBytes :: "int \<Rightarrow> Encoder \<Rightarrow> bytes option" where
  "ToBytes since_list_pos e = FlushToBytes since_list_pos e []"

definition AppendRaw :: "Encoder appender" where
  "AppendRaw b e = do {
     assertm (0xFFFFFFFF - int (length (enc_str e)) > int (length b));
     Some (e\<lparr>enc_str := enc_str e @ b\<rparr>)
   }"

definition AppendEmptyString :: "Encoder \<Rightarrow> Encoder option" where
  "AppendEmptyString = AppendRaw [EmptyString]"

definition AppendString :: "bytes \<Rightarrow> Encoder \<Rightarrow> Encoder option" where
  "AppendString s e = (if s = [] then AppendEmptyString e else ToRLPString s AppendRaw e)"

definition AppendUint :: "u64 \<Rightarrow> Encoder \<Rightarrow> Encoder option" where
  "AppendUint i e =
     (if i = 0 then AppendEmptyString e
      else if i < 128 then AppendRaw [ucast i] e
      else putint AppendRaw i EmptyString e)"

text \<open>
  \<open>AppendBigInt\<close> takes the possibly nil pointer as an option; a negative number is an error
  (\<^const>\<open>False\<close>) and writes nothing.
\<close>

definition AppendBigInt :: "int option \<Rightarrow> Encoder \<Rightarrow> (bool \<times> Encoder) option" where
  "AppendBigInt i e =
     (case i of
        None \<Rightarrow> map_option (Pair True) (AppendEmptyString e)
      | Some n \<Rightarrow>
          if n = 0 then map_option (Pair True) (AppendEmptyString e)
          else if 0 < n then map_option (Pair True) (AppendString (big_Bytes (nat n)) e)
          else Some (False, e))"

section \<open>The reference encoding\<close>

datatype rlp_item = RStr bytes | RList "rlp_item list"

definition rlp_head :: "nat \<Rightarrow> nat \<Rightarrow> nat \<Rightarrow> bytes" where
  "rlp_head small large n =
     (if n < 56 then [of_nat (small + n)]
      else of_nat (large + length (big_Bytes n)) # big_Bytes n)"

fun rlp :: "rlp_item \<Rightarrow> bytes" where
  "rlp (RStr s) = (if length s = 1 \<and> hd s < 0x80 then s else rlp_head 0x80 0xB7 (length s) @ s)"
| "rlp (RList xs) =
     (let body = concat (map rlp xs) in rlp_head 0xC0 0xF7 (length body) @ body)"

abbreviation rlps :: "rlp_item list \<Rightarrow> bytes" where
  "rlps xs \<equiv> concat (map rlp xs)"

section \<open>Minimal big-endian bytes\<close>

definition be_bytes :: "nat \<Rightarrow> nat \<Rightarrow> bytes" where
  "be_bytes k n = map (\<lambda>i. word_of_nat (n div 256 ^ i)) (rev [0..<k])"

lemma length_be_bytes [simp]: "length (be_bytes k n) = k"
  by (simp add: be_bytes_def)

lemma word_of_nat_mod_256: "(word_of_nat (n mod 256) :: byte) = word_of_nat n"
  by (rule word_unat_eq_iff [THEN iffD2]) (simp add: unat_of_nat)

lemma be_bytes_Suc: "be_bytes (Suc k) n = be_bytes k (n div 256) @ [word_of_nat n]"
proof -
  have "[0..<Suc k] = 0 # map Suc [0..<k]" by (simp only: map_Suc_upt upt_rec [of 0 "Suc k"]) simp
  then have "be_bytes (Suc k) n = map (\<lambda>i. word_of_nat (n div 256 ^ i)) (rev (map Suc [0..<k]) @ [0])"
    by (simp only: be_bytes_def rev.simps)
  also have "\<dots> = be_bytes k (n div 256) @ [word_of_nat n]"
    by (simp add: be_bytes_def rev_map div_mult2_eq)
  finally show ?thesis .
qed

lemma big_Bytes_be:
  assumes "256 ^ k \<le> n" "n < 256 ^ Suc k"
  shows "big_Bytes n = be_bytes (Suc k) n"
  using assms
proof (induction k arbitrary: n)
  case 0
  then show ?case
    by (simp add: big_Bytes.simps [of n] big_Bytes.simps [of 0] be_bytes_def)
next
  case (Suc k)
  have le: "256 ^ k \<le> n div 256"
    using Suc.prems(1) by (simp add: less_eq_div_iff_mult_less_eq mult.commute)
  have lt: "n div 256 < 256 ^ Suc k"
    using Suc.prems(2) by (simp add: div_less_iff_less_mult mult.commute)
  have "n \<noteq> 0" using Suc.prems(1) by (metis not_one_le_zero one_le_power le_trans one_le_numeral)
  then have "big_Bytes n = big_Bytes (n div 256) @ [word_of_nat n]"
    by (simp add: big_Bytes.simps [of n] word_of_nat_mod_256)
  then show ?case
    using Suc.IH [OF le lt] by (simp only: be_bytes_Suc [of "Suc k"])
qed

lemma length_big_Bytes_le: "n < 256 ^ k \<Longrightarrow> length (big_Bytes n) \<le> k"
proof (induction k arbitrary: n)
  case 0
  then show ?case by (simp add: big_Bytes.simps [of 0])
next
  case (Suc k)
  then have "length (big_Bytes (n div 256)) \<le> k" by (simp add: div_less_iff_less_mult mult.commute)
  then show ?case by (simp add: big_Bytes.simps [of n])
qed

lemma byte_of_of_nat:
  assumes "n < 2 ^ 64"
  shows "byte_of k (word_of_nat n :: u64) = word_of_nat (n div 256 ^ k)"
proof -
  have u: "unat (word_of_nat n :: u64) = n" using assms by (simp add: unat_of_nat)
  have p: "(256 :: nat) ^ k = 2 ^ (8 * k)" by (simp add: power_mult)
  have d: "unat (drop_bit (8 * k) (word_of_nat n :: u64)) = n div 256 ^ k"
    unfolding unat_drop_bit_eq u by (simp only: drop_bit_eq_div p)
  show ?thesis
    by (rule word_unat_eq_iff [THEN iffD2])
      (simp add: byte_of_def unsigned_ucast_eq d unat_of_nat take_bit_eq_mod)
qed

lemma word_of_nat_less_pow:
  assumes "n < 2 ^ 64" "k < 64"
  shows "(word_of_nat n :: u64) < 2 ^ k \<longleftrightarrow> n < 2 ^ k"
proof -
  have "(2 :: nat) ^ k < 2 ^ 64" using assms(2) by (simp only: power_strict_increasing_iff)
  then have "unat (word_of_nat (2 ^ k) :: u64) = 2 ^ k" by (simp only: unat_of_nat mod_less) simp
  then have "unat (2 ^ k :: u64) = 2 ^ k" by simp
  moreover have "unat (word_of_nat n :: u64) = n" using assms(1) by (simp add: unat_of_nat)
  ultimately show ?thesis by (simp only: word_less_nat_alt)
qed

lemma ENC_compact_cases:
  assumes n: "0 < n" "n < 2 ^ 64"
  obtains k where "k < 8" "256 ^ k \<le> n" "n < 256 ^ Suc k"
    "SizeInBytes (word_of_nat n) = word_of_nat (Suc k)"
    "ENC_b_endian_compact_64_1 (word_of_nat n) = be_bytes (Suc k) n"
proof -
  note b = byte_of_of_nat [OF n(2)]
  note less = word_of_nat_less_pow [OF n(2)]
  note l = less [of 8, simplified] less [of 16, simplified] less [of 24, simplified]
    less [of 32, simplified] less [of 40, simplified] less [of 48, simplified]
    less [of 56, simplified]
  note defs = SizeInBytes_def ENC_b_endian_compact_64_1_def be_bytes_def
  consider "n < 256" | "256 \<le> n" "n < 256 ^ 2" | "256 ^ 2 \<le> n" "n < 256 ^ 3"
    | "256 ^ 3 \<le> n" "n < 256 ^ 4" | "256 ^ 4 \<le> n" "n < 256 ^ 5" | "256 ^ 5 \<le> n" "n < 256 ^ 6"
    | "256 ^ 6 \<le> n" "n < 256 ^ 7" | "256 ^ 7 \<le> n" by linarith
  then show thesis
  proof cases
    case 1
    with n show thesis by (intro that [of 0]) (simp_all add: defs b l upt_rec)
  next
    case 2
    with n show thesis by (intro that [of 1]) (simp_all add: defs b l upt_rec)
  next
    case 3
    with n show thesis by (intro that [of 2]) (simp_all add: defs b l upt_rec)
  next
    case 4
    with n show thesis by (intro that [of 3]) (simp_all add: defs b l upt_rec)
  next
    case 5
    with n show thesis by (intro that [of 4]) (simp_all add: defs b l upt_rec)
  next
    case 6
    with n show thesis by (intro that [of 5]) (simp_all add: defs b l upt_rec)
  next
    case 7
    with n show thesis by (intro that [of 6]) (simp_all add: defs b l upt_rec)
  next
    case 8
    with n show thesis by (intro that [of 7]) (simp_all add: defs b l upt_rec)
  qed
qed

lemma big_Bytes_eq_compact:
  assumes "0 < n" "n < 2 ^ 64"
  shows "big_Bytes n = ENC_b_endian_compact_64_1 (word_of_nat n)"
    and "SizeInBytes (word_of_nat n) = word_of_nat (length (big_Bytes n))"
    and "length (big_Bytes n) \<le> 8"
  by (rule ENC_compact_cases [OF assms]; simp add: big_Bytes_be del: power_Suc)+

lemma putint_eq: "putint ap i tag = ap ((SizeInBytes i + tag) # ENC_b_endian_compact_64_1 i)"
  unfolding putint_def SizeInBytes_def ENC_b_endian_compact_64_1_def
  by (cases "i < 2 ^ 8"; cases "i < 2 ^ 16"; cases "i < 2 ^ 24"; cases "i < 2 ^ 32";
      cases "i < 2 ^ 40"; cases "i < 2 ^ 48"; cases "i < 2 ^ 56"; simp only: if_True if_False)

section \<open>Appending is chunk-wise\<close>

text \<open>
  What the writers rely on: appending two chunks is appending their concatenation. Then a
  writer that calls the appender several times appends one byte string.
\<close>

locale chunked =
  fixes ap :: "'s appender"
  assumes ap_append: "ap (a @ b) st = Option.bind (ap a st) (ap b)"
begin

lemma ap_append_fun: "ap (a @ b) = (\<lambda>st. Option.bind (ap a st) (ap b))"
  by (intro ext ap_append)

lemma puthead_eq:
  assumes "n < 2 ^ 64"
  shows "puthead ap (of_nat small) (of_nat large) (word_of_nat n) st = ap (rlp_head small large n) st"
proof -
  have u: "unat (word_of_nat n :: u64) = n" using assms by (simp add: unat_of_nat)
  have less: "word_of_nat n < (56 :: u64) \<longleftrightarrow> n < 56" by (simp add: word_less_nat_alt u)
  have uc: "ucast (word_of_nat n :: u64) = (word_of_nat n :: byte)"
    using assms by (simp add: word_unat_eq_iff unsigned_ucast_eq u unat_of_nat take_bit_eq_mod)
  show ?thesis
    using big_Bytes_eq_compact [of n] assms
    by (simp add: puthead_def rlp_head_def less putint_eq uc add.commute)
qed

lemma ToRLPString_eq:
  assumes "length s < 2 ^ 64"
  shows "ToRLPString s ap st = ap (rlp (RStr s)) st"
proof (cases "length s = 1 \<and> hd s < 0x80")
  case True
  then have "[hd s] = s" by (cases s) auto
  moreover have "hd s \<le> 0x7F" using True by (simp add: word_le_nat_alt word_less_nat_alt)
  ultimately show ?thesis using True by (simp add: ToRLPString_def)
next
  case False
  then have "\<not> (length s = 1 \<and> hd s \<le> 0x7F)" by (auto simp: word_le_nat_alt word_less_nat_alt)
  moreover have "(if length s < 56 then ap [EmptyString + of_nat (length s)] st
      else putint ap (of_nat (length s)) 0xB7 st) = ap (rlp_head 0x80 0xB7 (length s)) st"
    using big_Bytes_eq_compact [of "length s"] assms
    by (cases "s = []") (simp_all add: rlp_head_def EmptyString_def putint_eq add.commute)
  ultimately show ?thesis
    using False by (simp only: ToRLPString_def rlp.simps ap_append if_False)
qed

end

interpretation bytes: chunked BytesAppender
  by unfold_locales (simp add: BytesAppender_def)

interpretation raw: chunked AppendRaw
proof
  fix a b and st :: Encoder
  show "AppendRaw (a @ b) st = Option.bind (AppendRaw a st) (AppendRaw b)"
    by (auto simp: AppendRaw_def assertm_def)
qed

theorem ToRLPStringSimple_rlp:
  "length s < 2 ^ 64 \<Longrightarrow> ToRLPStringSimple s = Some (rlp (RStr s))"
  unfolding ToRLPStringSimple_def bytes.ToRLPString_eq by (simp only: BytesAppender_def append_Nil)

lemma length_rlp_head: "length (rlp_head small large n) = (if n < 56 then 1 else Suc (length (big_Bytes n)))"
  by (simp add: rlp_head_def)

lemma rlp_head_length_le: "n < 2 ^ 64 \<Longrightarrow> length (rlp_head small large n) \<le> 9"
  using big_Bytes_eq_compact(3) [of n] by (simp add: length_rlp_head)

lemma headsize_eq:
  assumes "n < 2 ^ 64"
  shows "headsize (word_of_nat n) = word_of_nat (length (rlp_head small large n))"
proof -
  have "unat (word_of_nat n :: u64) = n" using assms by (simp add: unat_of_nat)
  then have "word_of_nat n < (56 :: u64) \<longleftrightarrow> n < 56" by (simp add: word_less_nat_alt)
  then show ?thesis
    using big_Bytes_eq_compact [of n] assms by (simp add: headsize_def length_rlp_head)
qed

section \<open>What an encoder holds\<close>

fun render :: "bytes \<Rightarrow> nat \<Rightarrow> ListHead list \<Rightarrow> bytes" where
  "render s p [] = drop p s"
| "render s p (lh # lhs) = take (unat (lh_strpos lh) - p) (drop p s)
     @ rlp_head 0xC0 0xF7 (unat (lh_elems_size lh)) @ render s (unat (lh_strpos lh)) lhs"

fun heads_ok :: "bytes \<Rightarrow> nat \<Rightarrow> ListHead list \<Rightarrow> bool" where
  "heads_ok s p [] \<longleftrightarrow> p \<le> length s"
| "heads_ok s p (lh # lhs) \<longleftrightarrow> p \<le> unat (lh_strpos lh) \<and> unat (lh_strpos lh) \<le> length s
     \<and> lh_closed lh \<and> heads_ok s (unat (lh_strpos lh)) lhs"

context chunked
begin

lemma flush_loop_eq:
  assumes "heads_ok s (unat p) lhs"
  shows "flush_loop s ap lhs p st = ap (render s (unat p) lhs) st"
  using assms
proof (induction lhs arbitrary: p st)
  case Nil
  then show ?case by (simp add: slice_def)
next
  case (Cons lh lhs)
  have "unat (lh_elems_size lh) < 2 ^ 64"
    by (rule less_le_trans [OF unsigned_less]) simp
  moreover have "ucast (lh_elems_size lh) = (word_of_nat (unat (lh_elems_size lh)) :: u64)"
    by (simp add: unsigned_of_nat)
  ultimately have "puthead ap 0xC0 0xF7 (ucast (lh_elems_size lh)) st
      = ap (rlp_head 0xC0 0xF7 (unat (lh_elems_size lh))) st" for st
    using puthead_eq [of "unat (lh_elems_size lh)" "0xC0" "0xF7"] by simp
  moreover have "flush_loop s ap lhs (lh_strpos lh) = ap (render s (unat (lh_strpos lh)) lhs)"
    using Cons by (intro ext) simp
  ultimately show ?case using Cons.prems by (simp add: slice_def ap_append ap_append_fun)
qed

end

definition wrote :: "Encoder \<Rightarrow> bytes \<Rightarrow> Encoder \<Rightarrow> bool" where
  "wrote e b e' \<longleftrightarrow> (\<exists>s lhs. enc_str e' = enc_str e @ s \<and> enc_lheads e' = enc_lheads e @ lhs
     \<and> heads_ok (enc_str e') (length (enc_str e)) lhs \<and> render (enc_str e') (length (enc_str e)) lhs = b
     \<and> unat (enc_lhsize e') + length s = unat (enc_lhsize e) + length b)"

lemma wrote_refl [simp]: "wrote e [] e"
  by (simp add: wrote_def)

lemma render_skip:
  assumes "p \<le> length s" "heads_ok (s @ t) (length s) lhs"
  shows "render (s @ t) p lhs = drop p s @ render (s @ t) (length s) lhs"
proof (cases lhs)
  case Nil
  with assms show ?thesis by simp
next
  case (Cons lh lhs')
  have "length s \<le> unat (lh_strpos lh)" using assms Cons by simp
  then have "take (unat (lh_strpos lh) - p) (drop p (s @ t))
      = drop p s @ take (unat (lh_strpos lh) - length s) t"
    using assms(1) by (simp add: add.commute)
  with Cons show ?thesis by simp
qed

lemma heads_ok_append:
  assumes "heads_ok s p lhs" "heads_ok (s @ t) (length s) lhs'"
  shows "heads_ok (s @ t) p (lhs @ lhs')"
  using assms
proof (induction lhs arbitrary: p)
  case Nil
  then show ?case by (cases lhs') auto
qed auto

lemma render_append:
  assumes "heads_ok s p lhs" "heads_ok (s @ t) (length s) lhs'"
  shows "render (s @ t) p (lhs @ lhs') = render s p lhs @ render (s @ t) (length s) lhs'"
  using assms
proof (induction lhs arbitrary: p)
  case Nil
  then show ?case using render_skip [of p s t lhs'] by simp
qed simp

lemma wrote_trans [trans]:
  assumes "wrote e a e1" "wrote e1 b e2"
  shows "wrote e (a @ b) e2"
proof -
  from assms(1) obtain s lhs where 1: "enc_str e1 = enc_str e @ s" "enc_lheads e1 = enc_lheads e @ lhs"
    "heads_ok (enc_str e1) (length (enc_str e)) lhs" "render (enc_str e1) (length (enc_str e)) lhs = a"
    "unat (enc_lhsize e1) + length s = unat (enc_lhsize e) + length a"
    unfolding wrote_def by blast
  from assms(2) obtain t lhs' where 2: "enc_str e2 = enc_str e1 @ t"
    "enc_lheads e2 = enc_lheads e1 @ lhs'"
    "heads_ok (enc_str e2) (length (enc_str e1)) lhs'"
    "render (enc_str e2) (length (enc_str e1)) lhs' = b"
    "unat (enc_lhsize e2) + length t = unat (enc_lhsize e1) + length b"
    unfolding wrote_def by blast
  have "heads_ok (enc_str e2) (length (enc_str e)) (lhs @ lhs')"
    using heads_ok_append [of "enc_str e1"] 1 2 by metis
  moreover have "render (enc_str e2) (length (enc_str e)) (lhs @ lhs') = a @ b"
    using render_append [of "enc_str e1"] 1 2 by metis
  ultimately show ?thesis
    unfolding wrote_def using 1 2
    by (intro exI [of _ "s @ t"] exI [of _ "lhs @ lhs'"]) simp
qed

definition enc_len :: "Encoder \<Rightarrow> nat" where
  "enc_len e = length (enc_str e) + unat (enc_lhsize e)"

lemma wrote_enc_len: "wrote e b e' \<Longrightarrow> enc_len e' = enc_len e + length b"
  by (auto simp: wrote_def enc_len_def)

lemma AppendRaw_wrote:
  assumes "enc_len e + length b < 2 ^ 32 - 1"
  shows "\<exists>e'. AppendRaw b e = Some e' \<and> wrote e b e'"
proof -
  have "AppendRaw b e = Some (e\<lparr>enc_str := enc_str e @ b\<rparr>)"
    using assms by (simp add: AppendRaw_def enc_len_def assertm_def)
  moreover have "wrote e b (e\<lparr>enc_str := enc_str e @ b\<rparr>)"
    by (simp add: wrote_def)
  ultimately show ?thesis by blast
qed

lemma wrote_list:
  assumes start: "ListStart e = (pos, e0)" and w: "wrote e0 b e1"
    and fit: "enc_len e + length (rlp_head 0xC0 0xF7 (length b) @ b) < 2 ^ 32"
  shows "\<exists>e2. ListEnd pos e1 = Some e2 \<and> wrote e (rlp_head 0xC0 0xF7 (length b) @ b) e2"
proof -
  let ?h = "rlp_head 0xC0 0xF7 (length b)"
  let ?lh = "\<lparr>lh_strpos = of_nat (length (enc_str e)), lh_base_lhsize = enc_lhsize e,
    lh_elems_size = 0, lh_closed = False\<rparr>"
  let ?lh' = "?lh\<lparr>lh_elems_size := of_nat (length b), lh_closed := True\<rparr>"
  from start have e0: "pos = length (enc_lheads e)" "e0 = e\<lparr>enc_lheads := enc_lheads e @ [?lh]\<rparr>"
    by (simp_all add: ListStart_def)
  from w obtain s lhs where 1: "enc_str e1 = enc_str e @ s"
    "enc_lheads e1 = enc_lheads e @ ?lh # lhs"
    "heads_ok (enc_str e1) (length (enc_str e)) lhs" "render (enc_str e1) (length (enc_str e)) lhs = b"
    and lens: "unat (enc_lhsize e1) + length s = unat (enc_lhsize e) + length b"
    by (auto simp: wrote_def e0)
  have "(word_of_nat (unat (enc_lhsize e1) + length s) :: u32)
      = word_of_nat (unat (enc_lhsize e) + length b)" by (simp only: lens)
  then have sz: "Encoder_Size e1 - of_nat (length (enc_str e)) - enc_lhsize e = of_nat (length b)"
    by (simp add: Encoder_Size_def 1(1) algebra_simps)
  have b32: "length b < 2 ^ 32" "length (enc_str e) < 2 ^ 32" using fit by (simp_all add: enc_len_def)
  have ub: "unat (word_of_nat (length b) :: u32) = length b"
    and us: "unat (word_of_nat (length (enc_str e)) :: u32) = length (enc_str e)"
    using b32 by (simp_all add: unat_of_nat)
  have hs: "unat (headsize (word_of_nat (length b))) = length ?h"
    using headsize_eq [of "length b" "0xC0" "0xF7"] rlp_head_length_le [of "length b" "0xC0" "0xF7"] b32
    by (simp add: unat_of_nat)
  have uc: "(ucast (word_of_nat (length b) :: u32) :: u64) = word_of_nat (length b)"
    using b32 by (simp add: word_unat_eq_iff unsigned_ucast_eq unat_of_nat take_bit_eq_mod)
  let ?e2 = "e1\<lparr>enc_lheads := enc_lheads e @ ?lh' # lhs,
    enc_lhsize := enc_lhsize e1 + ucast (headsize (word_of_nat (length b)))\<rparr>"
  have "ListEnd pos e1 = Some ?e2"
    by (simp add: ListEnd_def e0(1) 1(2) sz Let_def uc list_update_append)
  moreover have "unat (enc_lhsize e1 + ucast (headsize (word_of_nat (length b))))
      = unat (enc_lhsize e1) + length ?h"
    using fit lens hs
    by (simp add: unat_word_ariths unsigned_ucast_eq take_bit_eq_mod enc_len_def)
  then have "wrote e (?h @ b) ?e2"
    unfolding wrote_def using 1 lens
    by (intro exI [of _ s] exI [of _ "?lh' # lhs"]) (simp add: us ub)
  ultimately show ?thesis by blast
qed

lemma AppendString_wrote:
  assumes "enc_len e + length (rlp (RStr s)) < 2 ^ 32 - 1"
  shows "\<exists>e'. AppendString s e = Some e' \<and> wrote e (rlp (RStr s)) e'"
proof -
  have "length s \<le> length (rlp (RStr s))" by simp
  then have "length s < 2 ^ 64" using assms by simp
  then have "AppendString s e = AppendRaw (rlp (RStr s)) e"
    using raw.ToRLPString_eq [of s e]
    by (cases "s = []") (simp_all add: AppendString_def AppendEmptyString_def rlp_head_def EmptyString_def)
  with AppendRaw_wrote [OF assms] show ?thesis by simp
qed

lemma big_Bytes_single:
  assumes "length (big_Bytes n) = 1"
  shows "unat (hd (big_Bytes n)) = n"
proof -
  from assms obtain b where "big_Bytes n = [b]" by (auto simp: length_Suc_conv)
  with big_SetBytes_Bytes [of n] show ?thesis by (simp add: big_SetBytes_def)
qed

lemma AppendUint_eq: "AppendUint i e = AppendRaw (rlp (RStr (big_Bytes (unat i)))) e"
proof -
  have i64: "unat i < 2 ^ 64" by (rule less_le_trans [OF unsigned_less]) simp
  consider "i = 0" | "i \<noteq> 0" "i < 128" | "128 \<le> i" by fastforce
  then show ?thesis
  proof cases
    case 1
    then show ?thesis
      by (simp add: AppendUint_def AppendEmptyString_def EmptyString_def big_Bytes.simps [of 0]
        rlp_head_def)
  next
    case 2
    then have n: "0 < unat i" "unat i < 128" by (auto simp: unat_gt_0 word_less_nat_alt)
    then have "big_Bytes (unat i) = [ucast i]"
      by (simp add: big_Bytes.simps [of "unat i"] big_Bytes.simps [of 0])
    moreover have "(ucast i :: byte) < 0x80"
      using n by (simp add: word_less_nat_alt unsigned_ucast_eq take_bit_eq_mod)
    ultimately show ?thesis using 2 by (simp add: AppendUint_def)
  next
    case 3
    then have n: "128 \<le> unat i" by (simp add: word_le_nat_alt)
    then have "\<not> (length (big_Bytes (unat i)) = 1 \<and> hd (big_Bytes (unat i)) < 0x80)"
      using big_Bytes_single [of "unat i"] by (auto simp: word_less_nat_alt)
    moreover have "length (big_Bytes (unat i)) < 56"
      using big_Bytes_eq_compact(3) [of "unat i"] n i64 by simp
    ultimately have "rlp (RStr (big_Bytes (unat i)))
        = (0x80 + of_nat (length (big_Bytes (unat i)))) # big_Bytes (unat i)"
      unfolding rlp.simps rlp_head_def by simp
    moreover have "AppendUint i e = AppendRaw ((SizeInBytes i + 0x80) # ENC_b_endian_compact_64_1 i) e"
      using 3 by (auto simp: AppendUint_def putint_eq EmptyString_def)
    moreover have "ENC_b_endian_compact_64_1 i = big_Bytes (unat i)"
      and "SizeInBytes i = of_nat (length (big_Bytes (unat i)))"
      using big_Bytes_eq_compact [of "unat i"] n i64 by simp_all
    ultimately show ?thesis by (simp only: add.commute)
  qed
qed

lemma AppendUint_wrote:
  assumes "enc_len e + length (rlp (RStr (big_Bytes (unat i)))) < 2 ^ 32 - 1"
  shows "\<exists>e'. AppendUint i e = Some e' \<and> wrote e (rlp (RStr (big_Bytes (unat i)))) e'"
  unfolding AppendUint_eq by (rule AppendRaw_wrote [OF assms])

lemma AppendBigInt_wrote:
  assumes "enc_len e + length (rlp (RStr (big_Bytes n))) < 2 ^ 32 - 1"
  shows "\<exists>e'. AppendBigInt (Some (int n)) e = Some (True, e') \<and> wrote e (rlp (RStr (big_Bytes n))) e'"
proof (cases "n = 0")
  case True
  with AppendString_wrote [of e "[]"] assms show ?thesis
    by (auto simp: AppendBigInt_def AppendString_def big_Bytes.simps [of 0])
next
  case False
  with AppendString_wrote [of e "big_Bytes n"] assms show ?thesis
    by (auto simp: AppendBigInt_def)
qed

lemma ToBytes_wrote:
  assumes "wrote Encoder_empty b e"
  shows "ToBytes (-1) e = Some b"
proof -
  from assms have "heads_ok (enc_str e) 0 (enc_lheads e)" "render (enc_str e) 0 (enc_lheads e) = b"
    by (auto simp: wrote_def Encoder_empty_def)
  then show ?thesis
    using bytes.flush_loop_eq [of "enc_str e" 0 "enc_lheads e" "[]"]
    by (simp add: ToBytes_def FlushToBytes_def Flush_def BytesAppender_def)
qed

lemma ToBytes_since:
  assumes "wrote e b e'" "length (enc_str e) < 2 ^ 32"
    and "enc_lheads e' \<noteq> enc_lheads e" "lh_strpos (enc_lheads e' ! length (enc_lheads e)) = of_nat (length (enc_str e))"
  shows "ToBytes (int (length (enc_lheads e))) e' = Some b"
proof -
  from assms(1) obtain lhs where lhs: "enc_lheads e' = enc_lheads e @ lhs"
    "heads_ok (enc_str e') (length (enc_str e)) lhs" "render (enc_str e') (length (enc_str e)) lhs = b"
    by (auto simp: wrote_def)
  have "unat (word_of_nat (length (enc_str e)) :: u32) = length (enc_str e)"
    using assms(2) by (simp add: unat_of_nat)
  with lhs assms(3,4) show ?thesis
    using bytes.flush_loop_eq [of "enc_str e'" "of_nat (length (enc_str e))" lhs "[]"]
    by (simp add: ToBytes_def FlushToBytes_def Flush_def BytesAppender_def)
qed

section \<open>Writers\<close>

text \<open>
  \<open>writes f b\<close>: whenever the buffer has room for \<open>b\<close>, the writer \<open>f\<close> succeeds and appends \<open>b\<close>.
  Writers compose in sequence, and inside \<open>ListStart\<close>/\<open>ListEnd\<close> they give a list.
\<close>

definition writes :: "(Encoder \<Rightarrow> Encoder option) \<Rightarrow> bytes \<Rightarrow> bool" where
  "writes f b \<longleftrightarrow> (\<forall>e. enc_len e + length b < 2 ^ 32 - 1 \<longrightarrow> (\<exists>e'. f e = Some e' \<and> wrote e b e'))"

definition in_list :: "(Encoder \<Rightarrow> Encoder option) \<Rightarrow> Encoder \<Rightarrow> Encoder option" where
  "in_list f e = (let (list_pos, e) = ListStart e in Option.bind (f e) (ListEnd list_pos))"

lemma writes_bind:
  assumes "writes f a" "writes g b"
  shows "writes (\<lambda>e. Option.bind (f e) g) (a @ b)"
  unfolding writes_def
proof (intro allI impI)
  fix e assume fit: "enc_len e + length (a @ b) < 2 ^ 32 - 1"
  then have "enc_len e + length a < 2 ^ 32 - 1" by simp
  then obtain e1 where 1: "f e = Some e1" "wrote e a e1"
    using assms(1) unfolding writes_def by blast
  moreover have "enc_len e1 + length b < 2 ^ 32 - 1"
    using fit wrote_enc_len [OF 1(2)] by simp
  then obtain e2 where "g e1 = Some e2" "wrote e1 b e2"
    using assms(2) unfolding writes_def by blast
  ultimately show "\<exists>e'. Option.bind (f e) g = Some e' \<and> wrote e (a @ b) e'"
    using wrote_trans by fastforce
qed

lemma writes_Some [simp, intro]: "writes Some []"
  by (simp add: writes_def)

lemma ListStart_enc_len: "enc_len (snd (ListStart e)) = enc_len e"
  by (simp add: ListStart_def enc_len_def)

lemma writes_in_list:
  assumes "writes f b"
  shows "writes (in_list f) (rlp_head 0xC0 0xF7 (length b) @ b)"
  unfolding writes_def
proof (intro allI impI)
  fix e assume fit: "enc_len e + length (rlp_head 0xC0 0xF7 (length b) @ b) < 2 ^ 32 - 1"
  obtain pos e0 where start: "ListStart e = (pos, e0)" by (cases "ListStart e")
  then have "enc_len e0 + length b < 2 ^ 32 - 1" using fit ListStart_enc_len [of e] by simp
  then obtain e1 where 1: "f e0 = Some e1" "wrote e0 b e1" using assms unfolding writes_def by blast
  have "enc_len e + length (rlp_head 0xC0 0xF7 (length b) @ b) < 2 ^ 32" using fit by linarith
  from wrote_list [OF start 1(2) this] 1(1) start
  show "\<exists>e'. in_list f e = Some e' \<and> wrote e (rlp_head 0xC0 0xF7 (length b) @ b) e'"
    by (simp add: in_list_def)
qed

lemma writes_RList: "writes f (rlps xs) \<Longrightarrow> writes (in_list f) (rlp (RList xs))"
  using writes_in_list by (simp add: Let_def)

lemma writes_AppendString [intro]: "writes (AppendString s) (rlp (RStr s))"
  by (simp add: writes_def AppendString_wrote del: rlp.simps)

lemma writes_AppendEmptyString [intro]: "writes AppendEmptyString (rlp (RStr []))"
  using writes_AppendString [of "[]"] by (simp add: writes_def AppendString_def)

lemma writes_AppendUint [intro]: "writes (AppendUint i) (rlp (RStr (big_Bytes (unat i))))"
  by (simp add: writes_def AppendUint_wrote del: rlp.simps)

lemma writes_AppendRaw [intro]: "writes (AppendRaw b) b"
  by (simp add: writes_def AppendRaw_wrote)

lemma writes_ToBytes:
  assumes "writes f b" "length b < 2 ^ 32 - 1"
  obtains e where "f Encoder_empty = Some e" "ToBytes (-1) e = Some b"
proof -
  have "enc_len Encoder_empty + length b < 2 ^ 32 - 1"
    using assms(2) by (simp add: Encoder_empty_def enc_len_def)
  then obtain e where "f Encoder_empty = Some e" "wrote Encoder_empty b e"
    using assms(1) unfolding writes_def by blast
  with ToBytes_wrote that show thesis by blast
qed

lemma Encoder_Reset_eq [simp]: "Encoder_Reset e = Encoder_empty"
  by (cases e) (simp add: Encoder_Reset_def Encoder_empty_def)

end
