(* ===== verification/Rlp_Raw.thy ===== *)
theory Rlp_Raw
  imports Rlp_Encoder
begin

text \<open>
  Splitting encoded RLP without decoding it: \<open>rlp/raw.go\<close> and \<open>util_rlp.RLPListAt\<close>. \<open>ReadKind\<close>
  parses the header in front of a value; \<open>Split\<close> cuts a value into content and rest. The lemmas
  show that \<open>Split\<close> inverts the reference encoding and, conversely, accepts nothing else: a
  value it accepts is the canonical encoding of its content.
\<close>

section \<open>Errors and kinds\<close>

text \<open>
  A \<open>decodeError\<close> carries its message and the path into the decoded value; the Go type it also
  names is left out.
\<close>

datatype rlp_ctx = CtxIndex nat | CtxField string | CtxTarget

datatype rlp_error =
    EOF | ErrUnexpectedEOF | EOL
  | ErrExpectedString | ErrExpectedList | ErrCanonInt | ErrCanonSize | ErrElemTooLarge
  | ErrValueTooLarge | ErrMoreThanOneValue
  | errNotInList | errNotAtEOL | errUintOverflow | errNoPointer | errDecodeIntoNil
  | decodeError string "rlp_ctx list"
  | ErrOther string

datatype Kind = KByte | KString | KList

section \<open>Operations\<close>

text \<open>
  The \<open>switch slen\<close> of \<open>readSize\<close> is the table of \<^const>\<open>DEC_b_endian_compact_64\<close>; its default
  case leaves the size at 0.
\<close>

definition readSize :: "bytes \<Rightarrow> byte \<Rightarrow> rlp_error + u64" where
  "readSize b slen =
     (if length b < unat slen then Inl ErrUnexpectedEOF
      else
        let s = (case DEC_b_endian_compact_64 (take (unat slen) b) of Some s \<Rightarrow> s | None \<Rightarrow> 0)
        in if s < 56 \<or> hd b = 0 then Inl ErrCanonSize else Inr s)"

definition ReadKind :: "bytes \<Rightarrow> rlp_error + (Kind \<times> byte \<times> u64)" where
  "ReadKind buf =
     (case buf of
        [] \<Rightarrow> Inl ErrUnexpectedEOF
      | b # bs \<Rightarrow>
          let buflen = (of_nat (length buf) :: u64);
              finish = (\<lambda>k tagsize contentsize.
                if contentsize > buflen - ucast (tagsize :: byte) then Inl ErrValueTooLarge
                else Inr (k, tagsize, ucast tagsize + contentsize))
          in if b < 0x80 then finish KByte 0 1
             else if b < 0xB8 then
               (let contentsize = ucast (b - 0x80) in
                if contentsize = 1 \<and> buflen > 1 \<and> bs ! 0 < 128 then Inl ErrCanonSize
                else finish KString 1 contentsize)
             else if b < 0xC0 then
               (case readSize bs (b - 0xB7) of
                  Inl err \<Rightarrow> Inl err
                | Inr contentsize \<Rightarrow> finish KString (b - 0xB7 + 1) contentsize)
             else if b < 0xF8 then finish KList 1 (ucast (b - 0xC0))
             else
               (case readSize bs (b - 0xF7) of
                  Inl err \<Rightarrow> Inl err
                | Inr contentsize \<Rightarrow> finish KList (b - 0xF7 + 1) contentsize))"

definition Split :: "bytes \<Rightarrow> rlp_error + (Kind \<times> bytes \<times> bytes)" where
  "Split b =
     (case ReadKind b of
        Inl err \<Rightarrow> Inl err
      | Inr (k, tagsize, total_size) \<Rightarrow>
          Inr (k, drop (unat tagsize) (take (unat total_size) b), drop (unat total_size) b))"

definition SplitString :: "bytes \<Rightarrow> rlp_error + (bytes \<times> bytes)" where
  "SplitString b =
     (case Split b of
        Inl err \<Rightarrow> Inl err
      | Inr (k, content, rest) \<Rightarrow> if k = KList then Inl ErrExpectedString else Inr (content, rest))"

definition SplitList :: "bytes \<Rightarrow> rlp_error + (bytes \<times> bytes)" where
  "SplitList b =
     (case Split b of
        Inl err \<Rightarrow> Inl err
      | Inr (k, content, rest) \<Rightarrow> if k \<noteq> KList then Inl ErrExpectedList else Inr (content, rest))"

definition must :: "rlp_error + 'a \<Rightarrow> 'a option" where
  "must r = (case r of Inl _ \<Rightarrow> None | Inr x \<Rightarrow> Some x)"

definition MustSplit :: "bytes \<Rightarrow> (Kind \<times> bytes \<times> bytes) option" where
  "MustSplit b = must (Split b)"

definition MustSplitString :: "bytes \<Rightarrow> (bytes \<times> bytes) option" where
  "MustSplitString b = must (SplitString b)"

definition MustSplitList :: "bytes \<Rightarrow> (bytes \<times> bytes) option" where
  "MustSplitList b = must (SplitList b)"

text \<open>\<open>RLPListAt\<close> of \<open>util_rlp.go\<close>: the content of the element at a position of an encoded list.\<close>

fun RLPListAt_loop :: "nat \<Rightarrow> bytes \<Rightarrow> bytes option" where
  "RLPListAt_loop 0 rest = map_option (\<lambda>(_, ret, _). ret) (MustSplit rest)"
| "RLPListAt_loop (Suc n) rest = do {
     (_, _, rest) \<leftarrow> MustSplit rest;
     RLPListAt_loop n rest
   }"

definition RLPListAt :: "bytes \<Rightarrow> nat \<Rightarrow> bytes option" where
  "RLPListAt lst pos = do {
     (_, rest, _) \<leftarrow> MustSplit lst;
     RLPListAt_loop pos rest
   }"

section \<open>Headers\<close>

lemma be_bytes_decode:
  assumes "bs \<noteq> []" "hd bs \<noteq> 0"
  shows "big_Bytes (big_SetBytes bs) = bs"
  using assms
proof (induction bs rule: rev_induct)
  case (snoc b bs)
  have b: "unat b < 256" by (rule less_le_trans [OF unsigned_less]) simp
  show ?case
  proof (cases "bs = []")
    case True
    with snoc.prems have "unat b \<noteq> 0" by (auto simp: unat_eq_0)
    with True b show ?thesis
      by (simp add: big_SetBytes_def big_Bytes.simps [of "unat b"] big_Bytes.simps [of 0])
  next
    case False
    with snoc have IH: "big_Bytes (big_SetBytes bs) = bs" by simp
    with False have "big_SetBytes bs \<noteq> 0" by (metis big_Bytes.simps)
    with IH b show ?thesis
      by (simp add: big_SetBytes_snoc big_Bytes.simps [of "256 * big_SetBytes bs + unat b"])
  qed
qed simp

lemma big_SetBytes_less: "big_SetBytes bs < 256 ^ length bs"
proof (induction bs rule: rev_induct)
  case (snoc b bs)
  have "unat b < 256" by (rule less_le_trans [OF unsigned_less]) simp
  with snoc show ?case by (simp add: big_SetBytes_snoc)
qed (simp add: big_SetBytes_def)

lemma DEC_canonical:
  assumes "bs \<noteq> []" "hd bs \<noteq> 0" "length bs \<le> 8"
  shows "DEC_b_endian_compact_64 bs = Some (word_of_nat (big_SetBytes bs))"
    and "big_SetBytes bs < 2 ^ 64" and "0 < big_SetBytes bs"
proof -
  have "(256 :: nat) ^ length bs \<le> 256 ^ 8" using assms(3) by (simp only: power_increasing_iff)
  then show lt: "big_SetBytes bs < 2 ^ 64" using big_SetBytes_less [of bs] by simp
  have b: "big_Bytes (big_SetBytes bs) = bs" by (rule be_bytes_decode [OF assms(1,2)])
  then show gt: "0 < big_SetBytes bs"
    using assms(1) by (cases "big_SetBytes bs = 0") (auto simp: big_Bytes.simps [of 0])
  show "DEC_b_endian_compact_64 bs = Some (word_of_nat (big_SetBytes bs))"
    using DEC_ENC_b_endian_compact_64 [of "word_of_nat (big_SetBytes bs)"]
      big_Bytes_eq_compact(1) [OF gt lt] by (simp only: b)
qed

lemma byte_of_small: "n < 256 \<Longrightarrow> unat (word_of_nat n :: byte) = n"
  by (simp add: unat_of_nat)

lemma readSize_rlp:
  assumes "56 \<le> n" "n < 2 ^ 64"
  shows "readSize (big_Bytes n @ t) (word_of_nat (length (big_Bytes n))) = Inr (word_of_nat n)"
proof -
  have n: "0 < n" using assms by simp
  note c = big_Bytes_eq_compact [OF n assms(2)]
  have u: "unat (word_of_nat (length (big_Bytes n)) :: byte) = length (big_Bytes n)"
    using c(3) by (intro byte_of_small) simp
  have h: "big_Bytes n \<noteq> []" "hd (big_Bytes n) \<noteq> 0" using hd_big_Bytes [of n] n by simp_all
  have "DEC_b_endian_compact_64 (big_Bytes n) = Some (word_of_nat n)"
    using DEC_canonical(1) [OF h c(3)] by simp
  moreover have "\<not> (word_of_nat n :: u64) < 56"
    using assms by (simp add: word_less_nat_alt unat_of_nat)
  ultimately show ?thesis using h by (simp add: readSize_def u)
qed

lemma readSize_sound:
  assumes "readSize bs slen = Inr sz" "unat slen \<le> 8" "slen \<noteq> 0"
  shows "56 \<le> unat sz" "take (unat slen) bs = big_Bytes (unat sz)" "unat slen \<le> length bs"
proof -
  have slen: "0 < unat slen" using assms(3) by (simp add: unat_gt_0)
  from assms(1) show len: "unat slen \<le> length bs"
    by (auto simp: readSize_def split: if_splits)
  let ?t = "take (unat slen) bs"
  from assms(1) len have ge: "\<not> sz < 56" and h0: "hd bs \<noteq> 0"
    and s: "sz = (case DEC_b_endian_compact_64 ?t of Some s \<Rightarrow> s | None \<Rightarrow> 0)"
    by (auto simp: readSize_def Let_def split: if_splits)
  have t: "?t \<noteq> []" "hd ?t \<noteq> 0" "length ?t \<le> 8"
    using slen len h0 assms(2) by (auto simp: hd_conv_nth)
  note d = DEC_canonical [OF t]
  show "56 \<le> unat sz" using ge by (simp add: word_less_nat_alt)
  have "unat sz = big_SetBytes ?t" using s d by (simp add: unat_of_nat)
  then show "take (unat slen) bs = big_Bytes (unat sz)" using be_bytes_decode [OF t(1,2)] by simp
qed

lemma ucast_byte_u64: "n < 256 \<Longrightarrow> ucast (word_of_nat n :: byte) = (word_of_nat n :: u64)"
  by (simp add: word_unat_eq_iff unsigned_ucast_eq unat_of_nat take_bit_eq_mod)

lemma buffer_room:
  assumes "tag < 256" "tag \<le> len" "n < 2 ^ 64" "len < 2 ^ 64"
  shows "word_of_nat len - ucast (word_of_nat tag :: byte) < (word_of_nat n :: u64) \<longleftrightarrow> len < tag + n"
proof -
  have u: "unat (word_of_nat m :: u64) = m" if "m < 2 ^ 64" for m
    using that by (simp add: unat_of_nat)
  have d: "word_of_nat len - ucast (word_of_nat tag :: byte) = (word_of_nat (len - tag) :: u64)"
    using assms by (simp add: ucast_byte_u64 of_nat_diff)
  have n: "unat (word_of_nat n :: u64) = n" and l: "unat (word_of_nat (len - tag) :: u64) = len - tag"
    using assms by (intro u; simp)+
  show ?thesis unfolding d word_less_nat_alt n l using assms by auto
qed

lemma fits_in_buffer:
  assumes "tag < 256" "tag + n \<le> len" "len < 2 ^ 64"
  shows "\<not> word_of_nat len - ucast (word_of_nat tag :: byte) < (word_of_nat n :: u64)"
  using buffer_room [of tag len n] assms by simp

lemma not_less_mono: "\<not> x < b \<Longrightarrow> a \<le> b \<Longrightarrow> \<not> x < (a :: 'a::linorder)"
  by auto

lemma first_byte:
  assumes "n < 56"
  shows "\<not> word_of_nat (0x80 + n) < (0x80 :: byte)" "word_of_nat (0x80 + n) < (0xB8 :: byte)"
    "word_of_nat (0x80 + n) - (0x80 :: byte) = word_of_nat n"
    "\<not> word_of_nat (0xC0 + n) < (0xC0 :: byte)" "word_of_nat (0xC0 + n) < (0xF8 :: byte)"
    "word_of_nat (0xC0 + n) - (0xC0 :: byte) = word_of_nat n"
proof -
  have "unat (word_of_nat (0x80 + n) :: byte) = 0x80 + n" "unat (word_of_nat (0xC0 + n) :: byte) = 0xC0 + n"
    using assms by (intro byte_of_small; simp)+
  then show "\<not> word_of_nat (0x80 + n) < (0x80 :: byte)" "word_of_nat (0x80 + n) < (0xB8 :: byte)"
    "\<not> word_of_nat (0xC0 + n) < (0xC0 :: byte)" "word_of_nat (0xC0 + n) < (0xF8 :: byte)"
    using assms by (simp_all only: word_less_nat_alt) simp_all
qed simp_all

lemma first_byte_long:
  assumes "1 \<le> k" "k \<le> 8"
  shows "\<not> word_of_nat (0xB7 + k) < (0xB8 :: byte)" "word_of_nat (0xB7 + k) < (0xC0 :: byte)"
    "word_of_nat (0xB7 + k) - (0xB7 :: byte) = word_of_nat k"
    "\<not> word_of_nat (0xF7 + k) < (0xF8 :: byte)"
    "word_of_nat (0xF7 + k) - (0xF7 :: byte) = word_of_nat k"
proof -
  have "unat (word_of_nat (0xB7 + k) :: byte) = 0xB7 + k" "unat (word_of_nat (0xF7 + k) :: byte) = 0xF7 + k"
    using assms by (intro byte_of_small; simp)+
  then show "\<not> word_of_nat (0xB7 + k) < (0xB8 :: byte)" "word_of_nat (0xB7 + k) < (0xC0 :: byte)"
    "\<not> word_of_nat (0xF7 + k) < (0xF8 :: byte)"
    using assms by (simp_all only: word_less_nat_alt) simp_all
qed simp_all

lemma ReadKind_string_head:
  assumes "n \<le> length t" "length (rlp_head 0x80 0xB7 n @ t) < 2 ^ 64" "n \<noteq> 1 \<or> \<not> hd t < 0x80"
  shows "ReadKind (rlp_head 0x80 0xB7 n @ t) = Inr (KString, of_nat (length (rlp_head 0x80 0xB7 n)),
    of_nat (length (rlp_head 0x80 0xB7 n) + n))"
proof (cases "n < 56")
  case True
  have "n = 1" if "(word_of_nat n :: u64) = 1" 
    using that True by (simp add: word_unat_eq_iff unat_of_nat)
  moreover have "t ! 0 = hd t" if "n = 1" using that assms(1) by (cases t) simp_all
  moreover have "\<not> word_of_nat (length t + 1) - ucast (word_of_nat 1 :: byte) < (word_of_nat n :: u64)"
    using assms True by (intro fits_in_buffer) (simp_all add: rlp_head_def)
  ultimately show ?thesis
    using True assms(1,3) first_byte [of n]
    by (auto simp: ReadKind_def rlp_head_def Let_def ucast_byte_u64)
next
  case False
  let ?k = "length (big_Bytes n)"
  have n: "0 < n" "n < 2 ^ 64" using False assms by simp_all
  note c = big_Bytes_eq_compact [OF n] and h = hd_big_Bytes [of n]
  have k: "1 \<le> ?k" "?k \<le> 8" using c(3) h n by (simp_all add: Suc_leI)
  have f: "\<not> word_of_nat (Suc (?k + length t)) - ucast (word_of_nat (Suc ?k) :: byte) < (word_of_nat n :: u64)"
    using assms False k by (intro fits_in_buffer) (simp_all add: rlp_head_def)
  have b: "\<not> word_of_nat (0xB7 + ?k) < (0x80 :: byte)"
    by (rule not_less_mono [OF first_byte_long(1) [OF k]], simp)
  have uc: "ucast (word_of_nat ?k + 1 :: byte) = (word_of_nat ?k + 1 :: u64)"
    using ucast_byte_u64 [of "Suc ?k"] k by (simp add: add.commute)
  show ?thesis
    using False n f first_byte_long [OF k] b k readSize_rlp [of n t] uc
    by (simp add: ReadKind_def rlp_head_def Let_def ucast_byte_u64 add.commute [of 1])
qed

lemma ReadKind_list_head:
  assumes "n \<le> length t" "length (rlp_head 0xC0 0xF7 n @ t) < 2 ^ 64"
  shows "ReadKind (rlp_head 0xC0 0xF7 n @ t) = Inr (KList, of_nat (length (rlp_head 0xC0 0xF7 n)),
    of_nat (length (rlp_head 0xC0 0xF7 n) + n))"
proof (cases "n < 56")
  case True
  have "\<not> word_of_nat (0xC0 + n) < (0x80 :: byte)" "\<not> word_of_nat (0xC0 + n) < (0xB8 :: byte)"
    by (rule not_less_mono [OF first_byte(4) [OF True]], simp)+
  moreover have "\<not> word_of_nat (length t + 1) - ucast (word_of_nat 1 :: byte) < (word_of_nat n :: u64)"
    using assms True by (intro fits_in_buffer) (simp_all add: rlp_head_def)
  ultimately show ?thesis
    using True first_byte [of n] by (simp add: ReadKind_def rlp_head_def Let_def ucast_byte_u64)
next
  case False
  let ?k = "length (big_Bytes n)"
  have n: "0 < n" "n < 2 ^ 64" using False assms by simp_all
  note c = big_Bytes_eq_compact [OF n] and h = hd_big_Bytes [of n]
  have k: "1 \<le> ?k" "?k \<le> 8" using c(3) h n by (simp_all add: Suc_leI)
  have f: "\<not> word_of_nat (Suc (?k + length t)) - ucast (word_of_nat (Suc ?k) :: byte) < (word_of_nat n :: u64)"
    using assms False k by (intro fits_in_buffer) (simp_all add: rlp_head_def)
  have b: "\<not> word_of_nat (0xF7 + ?k) < (0x80 :: byte)" "\<not> word_of_nat (0xF7 + ?k) < (0xB8 :: byte)"
    "\<not> word_of_nat (0xF7 + ?k) < (0xC0 :: byte)"
    by (rule not_less_mono [OF first_byte_long(4) [OF k]], simp)+
  have uc: "ucast (word_of_nat ?k + 1 :: byte) = (word_of_nat ?k + 1 :: u64)"
    using ucast_byte_u64 [of "Suc ?k"] k by (simp add: add.commute)
  show ?thesis
    using False n f first_byte_long [OF k] b k readSize_rlp [of n t] uc
    by (simp add: ReadKind_def rlp_head_def Let_def ucast_byte_u64 add.commute [of 1])
qed

section \<open>Splitting inverts encoding\<close>

lemma take_drop_parts:
  assumes "length h + n < 2 ^ 64" "length h < 256" "length c = n"
  shows "drop (unat (word_of_nat (length h) :: byte)) (take (unat (word_of_nat (length h + n) :: u64)) (h @ c @ r)) = c"
    and "drop (unat (word_of_nat (length h + n) :: u64)) (h @ c @ r) = r"
proof -
  have h: "unat (word_of_nat (length h) :: byte) = length h" using assms(2) by (rule byte_of_small)
  have n: "unat (word_of_nat (length h + n) :: u64) = length h + n"
    using assms(1) by (simp add: unat_of_nat del: of_nat_add)
  show "drop (unat (word_of_nat (length h) :: byte)) (take (unat (word_of_nat (length h + n) :: u64)) (h @ c @ r)) = c"
    and "drop (unat (word_of_nat (length h + n) :: u64)) (h @ c @ r) = r"
    unfolding h n using assms(3) by simp_all
qed

lemma Split_list:
  assumes "length (rlp_head 0xC0 0xF7 (length c) @ c @ r) < 2 ^ 64"
  shows "Split (rlp_head 0xC0 0xF7 (length c) @ c @ r) = Inr (KList, c, r)"
proof -
  let ?h = "rlp_head 0xC0 0xF7 (length c)"
  have "length ?h < 256" using rlp_head_length_le [of "length c" "0xC0" "0xF7"] assms by simp
  then show ?thesis
    using ReadKind_list_head [of "length c" "c @ r"] assms take_drop_parts [of ?h "length c" c r]
    by (simp add: Split_def del: of_nat_add)
qed

lemma long_head:
  assumes rs: "readSize xs (word_of_nat j) = Inr sz" and j: "1 \<le> j" "j \<le> 8"
    and room: "\<not> word_of_nat (Suc (length xs)) - ucast (word_of_nat (Suc j) :: byte) < sz"
    and len: "Suc (length xs) < 2 ^ 64"
  obtains t where "xs = big_Bytes (unat sz) @ t" "length (big_Bytes (unat sz)) = j"
    "56 \<le> unat sz" "unat sz \<le> length t"
proof -
  have uj: "unat (word_of_nat j :: byte) = j" using j by (intro byte_of_small) simp
  then have j0: "(word_of_nat j :: byte) \<noteq> 0" using j by (metis unat_0 not_one_le_zero)
  note snd = readSize_sound [OF rs _ j0, unfolded uj, OF j(2)]
  have sz: "unat sz < 2 ^ 64" by (rule less_le_trans [OF unsigned_less]) simp
  have "\<not> Suc (length xs) < Suc j + unat sz"
    using buffer_room [of "Suc j" "Suc (length xs)" "unat sz"] room j snd(3) sz len by simp
  then show thesis
    using snd append_take_drop_id [of j xs] length_take [of j xs]
    by (intro that [of "drop j xs"]) simp_all
qed

lemma ReadKind_sound:
  assumes "ReadKind b = Inr (k, tagsize, total_size)" "length b < 2 ^ 64"
  obtains (byte) x r where "k = KByte" "b = x # r" "x < 0x80"
    | (string) n t where "k = KString" "b = rlp_head 0x80 0xB7 n @ t" "n \<le> length t"
        "n \<noteq> 1 \<or> \<not> hd t < 0x80"
    | (lst) n t where "k = KList" "b = rlp_head 0xC0 0xF7 n @ t" "n \<le> length t"
proof -
  from assms obtain x xs where b: "b = x # xs" by (auto simp: ReadKind_def split: list.splits)
  have x: "unat x < 256" by (rule less_le_trans [OF unsigned_less]) simp
  have len: "Suc (length xs) < 2 ^ 64" using assms(2) b by simp
  consider "unat x < 0x80" | "0x80 \<le> unat x" "unat x < 0xB8" | "0xB8 \<le> unat x" "unat x < 0xC0"
    | "0xC0 \<le> unat x" "unat x < 0xF8" | "0xF8 \<le> unat x" by linarith
  then show thesis
  proof cases
    case 1
    with assms b byte show ?thesis
      by (auto simp: ReadKind_def Let_def word_less_nat_alt split: if_splits)
  next
    case 2
    define n where "n = unat x - 0x80"
    have n: "n < 56" and x': "x = word_of_nat (0x80 + n)" using 2 by (simp_all add: n_def)
    have "\<not> word_of_nat (Suc (length xs)) - ucast (word_of_nat 1 :: byte) < (word_of_nat n :: u64)"
      and canon: "\<not> ((word_of_nat n :: u64) = 1 \<and> 1 < (word_of_nat (Suc (length xs)) :: u64) \<and> xs ! 0 < 0x80)"
      and k: "k = KString"
      using assms(1) first_byte(1-3) [OF n] n
      by (auto simp: b x' ReadKind_def Let_def ucast_byte_u64 split: if_splits)
    then have le: "n \<le> length xs" using buffer_room [of 1 "Suc (length xs)" n] n len by simp
    have "n \<noteq> 1 \<or> \<not> hd xs < 0x80"
    proof (cases "n = 1")
      case True
      with le obtain y ys where "xs = y # ys" by (cases xs) auto
      moreover from this len have "1 < (word_of_nat (Suc (length xs)) :: u64)"
        by (simp add: word_less_nat_alt unat_of_nat del: of_nat_Suc)
      ultimately show ?thesis using canon True by auto
    qed simp
    with k b x' n le show ?thesis by (intro string [of n xs]) (simp_all add: rlp_head_def)
  next
    case 3
    define j where "j = unat x - 0xB7"
    have j: "1 \<le> j" "j \<le> 8" and x': "x = word_of_nat (0xB7 + j)" using 3 by (simp_all add: j_def)
    have "\<not> word_of_nat (0xB7 + j) < (0x80 :: byte)"
      by (rule not_less_mono [OF first_byte_long(1) [OF j]], simp)
    then obtain sz where rs: "readSize xs (word_of_nat j) = Inr sz" and k: "k = KString"
      and room: "\<not> word_of_nat (Suc (length xs)) - ucast (word_of_nat (Suc j) :: byte) < sz"
      using assms(1) first_byte_long [OF j]
      by (auto simp: b x' ReadKind_def Let_def add.commute split: if_splits sum.splits)
    obtain t where "xs = big_Bytes (unat sz) @ t" "length (big_Bytes (unat sz)) = j"
      "56 \<le> unat sz" "unat sz \<le> length t"
      by (rule long_head [OF rs j room len])
    then show ?thesis using k b x' by (intro string [of "unat sz" t]) (simp_all add: rlp_head_def)
  next
    case 4
    define n where "n = unat x - 0xC0"
    have n: "n < 56" and x': "x = word_of_nat (0xC0 + n)" using 4 by (simp_all add: n_def)
    have "\<not> word_of_nat (0xC0 + n) < (0x80 :: byte)" "\<not> word_of_nat (0xC0 + n) < (0xB8 :: byte)"
      by (rule not_less_mono [OF first_byte(4) [OF n]], simp)+
    then have "\<not> word_of_nat (Suc (length xs)) - ucast (word_of_nat 1 :: byte) < (word_of_nat n :: u64)"
      and k: "k = KList"
      using assms(1) first_byte(4-6) [OF n] n
      by (auto simp: b x' ReadKind_def Let_def ucast_byte_u64 split: if_splits)
    then have "n \<le> length xs" using buffer_room [of 1 "Suc (length xs)" n] n len by simp
    with k b x' n show ?thesis by (intro lst [of n xs]) (simp_all add: rlp_head_def)
  next
    case 5
    define j where "j = unat x - 0xF7"
    have j: "1 \<le> j" "j \<le> 8" and x': "x = word_of_nat (0xF7 + j)" using 5 x by (simp_all add: j_def)
    have "\<not> word_of_nat (0xF7 + j) < (0x80 :: byte)" "\<not> word_of_nat (0xF7 + j) < (0xB8 :: byte)"
      "\<not> word_of_nat (0xF7 + j) < (0xC0 :: byte)"
      by (rule not_less_mono [OF first_byte_long(4) [OF j]], simp)+
    then obtain sz where rs: "readSize xs (word_of_nat j) = Inr sz" and k: "k = KList"
      and room: "\<not> word_of_nat (Suc (length xs)) - ucast (word_of_nat (Suc j) :: byte) < sz"
      using assms(1) first_byte_long [OF j]
      by (auto simp: b x' ReadKind_def Let_def add.commute split: if_splits sum.splits)
    obtain t where "xs = big_Bytes (unat sz) @ t" "length (big_Bytes (unat sz)) = j"
      "56 \<le> unat sz" "unat sz \<le> length t"
      by (rule long_head [OF rs j room len])
    then show ?thesis using k b x' by (intro lst [of "unat sz" t]) (simp_all add: rlp_head_def)
  qed
qed

section \<open>Exactly the canonical encodings are accepted\<close>

text \<open>The encoding of a value with the given kind and content.\<close>

fun is_value :: "Kind \<Rightarrow> bytes \<Rightarrow> bytes \<Rightarrow> bool" where
  "is_value KByte c v \<longleftrightarrow> length c = 1 \<and> hd c < 0x80 \<and> v = c"
| "is_value KString c v \<longleftrightarrow> \<not> (length c = 1 \<and> hd c < 0x80) \<and> v = rlp_head 0x80 0xB7 (length c) @ c"
| "is_value KList c v \<longleftrightarrow> v = rlp_head 0xC0 0xF7 (length c) @ c"

lemma is_value_string: "k \<noteq> KList \<Longrightarrow> is_value k c v \<Longrightarrow> v = rlp (RStr c)"
  by (cases k) auto

lemma is_value_nonempty: "is_value k c v \<Longrightarrow> v \<noteq> []"
  by (cases k) (auto simp: rlp_head_def)

lemma Split_value:
  assumes "is_value k c v" "length (v @ r) < 2 ^ 64"
  shows "Split (v @ r) = Inr (k, c, r)"
proof (cases "k = KList")
  case True
  with assms Split_list [of c r] show ?thesis by simp
next
  case False
  then have v: "v = rlp (RStr c)" using assms(1) by (rule is_value_string)
  have "Split (v @ r) = Inr (KByte, c, r)" if "k = KByte"
  proof -
    obtain x where c: "c = [x]" "x < 0x80" using assms(1) \<open>k = KByte\<close> by (cases c) auto
    have "\<not> word_of_nat (length r + 1) - ucast (word_of_nat 0 :: byte) < (word_of_nat 1 :: u64)"
      using assms v c by (intro fits_in_buffer) simp_all
    then show ?thesis using c v by (simp add: Split_def ReadKind_def Let_def add.commute)
  qed
  moreover have "Split (v @ r) = Inr (KString, c, r)" if "k = KString"
  proof -
    let ?h = "rlp_head 0x80 0xB7 (length c)"
    have e: "v @ r = ?h @ c @ r" and c: "\<not> (length c = 1 \<and> hd c < 0x80)"
      using assms(1) that by simp_all
    have l: "length (?h @ c @ r) < 2 ^ 64" using assms(2) unfolding e .
    have h9: "length ?h < 256" using rlp_head_length_le [of "length c" "0x80" "0xB7"] l by simp
    have "length c \<noteq> 1 \<or> \<not> hd (c @ r) < 0x80" using c by (cases c) auto
    then have "ReadKind (?h @ c @ r) = Inr (KString, of_nat (length ?h), of_nat (length ?h + length c))"
      using ReadKind_string_head [of "length c" "c @ r"] l by simp
    then show ?thesis
      unfolding e using take_drop_parts [of ?h "length c" c r] h9 l
      by (simp add: Split_def del: of_nat_add)
  qed
  ultimately show ?thesis using False by (cases k) simp_all
qed

lemma ReadKind_value:
  assumes "ReadKind b = Inr (k, tagsize, total_size)" "length b < 2 ^ 64"
  obtains c v r where "is_value k c v" "b = v @ r"
  using assms
proof (cases rule: ReadKind_sound)
  case (byte x r)
  then show thesis by (intro that [of "[x]" "[x]" r]) simp_all
next
  case (string n t)
  have "hd (take n t) = hd t" if "n = 1" using that string by (cases t) auto
  with string show thesis
    by (intro that [of "take n t" "rlp_head 0x80 0xB7 n @ take n t" "drop n t"]) auto
next
  case (lst n t)
  then show thesis
    by (intro that [of "take n t" "rlp_head 0xC0 0xF7 n @ take n t" "drop n t"]) auto
qed

lemma Split_sound:
  assumes "Split b = Inr (k, c, r)" "length b < 2 ^ 64"
  shows "\<exists>v. is_value k c v \<and> b = v @ r"
proof -
  from assms(1) obtain tagsize total_size where "ReadKind b = Inr (k, tagsize, total_size)"
    by (auto simp: Split_def split: sum.splits)
  then obtain c' v r' where v: "is_value k c' v" "b = v @ r'" using assms(2) by (rule ReadKind_value)
  with Split_value [of k c' v r'] assms show ?thesis by auto
qed

text \<open>C16: on an input slice of a possible length, \<open>Split\<close> returns a kind, a content and a rest
  exactly when the input is the canonical encoding of that content (a single byte below
  \<open>0x80\<close> as itself, otherwise the shortest header) followed by the rest.\<close>

theorem Split_iff:
  assumes "length b < 2 ^ 64"
  shows "Split b = Inr (k, c, r) \<longleftrightarrow> (\<exists>v. is_value k c v \<and> b = v @ r)"
  using Split_sound [OF _ assms] Split_value assms by blast

theorem Split_iff_witness:
  "Split [0xC1, 0x05, 0x83] = Inr (KList, [5], [0x83])
    \<and> (\<exists>v. is_value KList [5] v \<and> [0xC1, 0x05, 0x83] = v @ [0x83])"
  using Split_iff [of "[0xC1, 0x05, 0x83]" KList "[5]" "[0x83]"]
  by (simp add: rlp_head_def)

section \<open>Counting values\<close>

partial_function (option) CountValues_loop :: "bytes \<Rightarrow> nat \<Rightarrow> (rlp_error + nat) option" where
  "CountValues_loop b i =
     (if b = [] then Some (Inr i)
      else case ReadKind b of
          Inl err \<Rightarrow> Some (Inl err)
        | Inr x \<Rightarrow> CountValues_loop (drop (unat (snd (snd x))) b) (i + 1))"

definition CountValues :: "bytes \<Rightarrow> (rlp_error + nat) option" where
  "CountValues b = CountValues_loop b 0"

lemma CountValues_loop_Nil [simp]: "CountValues_loop [] i = Some (Inr i)"
  by (simp add: CountValues_loop.simps)

lemma CountValues_loop_value:
  assumes "is_value k c v" "length (v @ r) < 2 ^ 64"
  shows "CountValues_loop (v @ r) i = CountValues_loop r (i + 1)"
proof -
  from Split_value [OF assms] obtain x where "ReadKind (v @ r) = Inr x" "drop (unat (snd (snd x))) (v @ r) = r"
    by (auto simp: Split_def split: sum.splits)
  then show ?thesis
    using is_value_nonempty [OF assms(1)] by (subst CountValues_loop.simps) simp
qed

definition is_values :: "bytes list \<Rightarrow> bool" where
  "is_values vs \<longleftrightarrow> (\<forall>v \<in> set vs. \<exists>k c. is_value k c v)"

lemma is_values_Cons [simp]: "is_values (v # vs) \<longleftrightarrow> (\<exists>k c. is_value k c v) \<and> is_values vs"
  by (simp add: is_values_def)

lemma is_values_Nil [simp]: "is_values []"
  by (simp add: is_values_def)

lemma CountValues_loop_values:
  "is_values vs \<Longrightarrow> length (concat vs) < 2 ^ 64 \<Longrightarrow>
   CountValues_loop (concat vs) i = Some (Inr (i + length vs))"
proof (induction vs arbitrary: i)
  case (Cons v vs)
  from Cons.prems obtain k c where "is_value k c v" by auto
  with Cons CountValues_loop_value [of k c v "concat vs" i] show ?case by simp
qed simp

lemma CountValues_loop_returns:
  assumes "length b < 2 ^ 64"
  shows "(\<exists>err. CountValues_loop b i = Some (Inl err)) \<or>
    (\<exists>vs. is_values vs \<and> b = concat vs \<and> CountValues_loop b i = Some (Inr (i + length vs)))"
  using assms
proof (induction b arbitrary: i rule: length_induct)
  case (1 b)
  show ?case
  proof (cases "b = []")
    case True
    then show ?thesis by (intro disjI2 exI [of _ "[]"]) simp
  next
    case False
    show ?thesis
    proof (cases "ReadKind b")
      case (Inl err)
      with False show ?thesis by (subst (1) CountValues_loop.simps) simp
    next
      case (Inr x)
      obtain k tg ts where x: "x = (k, tg, ts)" by (cases x)
      with Inr 1(2) obtain c v r where v: "is_value k c v" "b = v @ r"
        by (metis ReadKind_value)
      then have "length r < length b" "length r < 2 ^ 64"
        using is_value_nonempty [OF v(1)] 1(2) by auto
      with 1(1) have IH: "(\<exists>err. CountValues_loop r (i + 1) = Some (Inl err)) \<or>
        (\<exists>vs. is_values vs \<and> r = concat vs \<and> CountValues_loop r (i + 1) = Some (Inr (i + 1 + length vs)))"
        by blast
      have step: "CountValues_loop b i = CountValues_loop r (i + 1)"
        using CountValues_loop_value [OF v(1)] v(2) 1(2) by simp
      from IH show ?thesis
      proof
        assume "\<exists>vs. is_values vs \<and> r = concat vs \<and> CountValues_loop r (i + 1) = Some (Inr (i + 1 + length vs))"
        then obtain vs where "is_values vs" "r = concat vs"
          "CountValues_loop r (i + 1) = Some (Inr (i + 1 + length vs))" by blast
        with v step show ?thesis by (intro disjI2 exI [of _ "v # vs"]) auto
      qed (simp add: step)
    qed
  qed
qed

text \<open>C18: the loop of \<open>CountValues\<close> returns on every input slice; it returns the number \<open>n\<close>
  exactly when the input is a concatenation of \<open>n\<close> canonical values, and an error otherwise.\<close>

theorem CountValues_correct:
  assumes "length b < 2 ^ 64"
  shows "\<exists>r. CountValues b = Some r \<and>
    (\<forall>n. r = Inr n \<longleftrightarrow> (\<exists>vs. is_values vs \<and> b = concat vs \<and> length vs = n))"
proof -
  have "CountValues b = Some (Inr (length vs))" if "is_values vs" "b = concat vs" for vs
    using CountValues_loop_values [OF that(1), of 0] assms that(2) by (simp add: CountValues_def)
  with CountValues_loop_returns [OF assms, of 0] show ?thesis
    by (fastforce simp: CountValues_def)
qed

theorem CountValues_correct_witness: "CountValues [0x05, 0x82, 0x10, 0x11] = Some (Inr 2)"
proof -
  have "is_value KByte [5] [5]" "is_value KString [0x10, 0x11] [0x82, 0x10, 0x11]"
    by (simp_all add: rlp_head_def)
  then have "is_values [[5], [0x82, 0x10, 0x11]]" by (auto simp del: is_value.simps)
  then have "\<exists>vs. is_values vs \<and> [0x05, 0x82, 0x10, 0x11] = concat vs \<and> length vs = 2"
    by (intro exI [of _ "[[5], [0x82, 0x10, 0x11]]"]) simp
  with CountValues_correct [of "[0x05, 0x82, 0x10, 0x11]"] show ?thesis by auto
qed

section \<open>Splitting the encoding of items\<close>

fun item_kind :: "rlp_item \<Rightarrow> Kind" where
  "item_kind (RStr s) = (if length s = 1 \<and> hd s < 0x80 then KByte else KString)"
| "item_kind (RList xs) = KList"

fun item_content :: "rlp_item \<Rightarrow> bytes" where
  "item_content (RStr s) = s"
| "item_content (RList xs) = rlps xs"

lemma item_is_value: "is_value (item_kind x) (item_content x) (rlp x)"
  by (cases x) (auto simp: Let_def)

lemma Split_rlp:
  "length (rlp x @ r) < 2 ^ 64 \<Longrightarrow> Split (rlp x @ r) = Inr (item_kind x, item_content x, r)"
  by (rule Split_value [OF item_is_value])

lemma MustSplitString_rlp [simp]:
  "length (rlp (RStr c) @ r) < 2 ^ 64 \<Longrightarrow> MustSplitString (rlp (RStr c) @ r) = Some (c, r)"
  using Split_rlp [of "RStr c" r] by (simp add: MustSplitString_def SplitString_def must_def)

lemma SplitString_rlp:
  "length (rlp (RStr c) @ r) < 2 ^ 64 \<Longrightarrow> SplitString (rlp (RStr c) @ r) = Inr (c, r)"
  using Split_rlp [of "RStr c" r] by (simp add: SplitString_def)

lemma SplitString_items:
  "length (rlps (RStr c # xs)) < 2 ^ 64 \<Longrightarrow> SplitString (rlps (RStr c # xs)) = Inr (c, rlps xs)"
  using SplitString_rlp [of c "rlps xs"] by simp

lemma SplitList_rlp:
  "length (rlp (RList xs) @ r) < 2 ^ 64 \<Longrightarrow> SplitList (rlp (RList xs) @ r) = Inr (rlps xs, r)"
  using Split_rlp [of "RList xs" r] by (simp add: SplitList_def)

lemma RLPListAt_loop_rlps:
  "pos < length xs \<Longrightarrow> length (rlps xs) < 2 ^ 64 \<Longrightarrow>
   RLPListAt_loop pos (rlps xs) = Some (item_content (xs ! pos))"
proof (induction xs arbitrary: pos)
  case (Cons x xs)
  have "Split (rlp x @ rlps xs) = Inr (item_kind x, item_content x, rlps xs)"
    using Cons.prems by (intro Split_rlp) simp
  with Cons show ?case by (cases pos) (simp_all add: MustSplit_def must_def)
qed simp

lemma RLPListAt_items:
  assumes "pos < length xs" "length (rlp (RList xs)) < 2 ^ 64"
  shows "RLPListAt (rlp (RList xs)) pos = Some (item_content (xs ! pos))"
proof -
  have "length (rlps xs) < 2 ^ 64" using assms(2) by (simp add: Let_def)
  with Split_rlp [of "RList xs" "[]"] RLPListAt_loop_rlps [OF assms(1)] assms(2) show ?thesis
    by (simp add: RLPListAt_def MustSplit_def must_def)
qed

end
