(* ===== verification/Account_Codec.thy ===== *)
theory Account_Codec
  imports Rlp_Raw
begin

text \<open>
  Accounts in the state trie (\<open>ebla/state/state_db/main_trie.go\<close>, \<open>account_trie.go\<close>). An account
  has two encodings: the storage encoding, which keeps absent hashes empty and the code size,
  and the hash encoding, which enters the state root. \<open>ValueStorageToHashEncoding\<close> recomputes
  the second from the first without decoding the account.

  A \<open>common.Hash\<close> is a 256-bit word; \<open>keccak256\<close> is a parameter. Pointers that may be nil are
  options.
\<close>

section \<open>Hashes as bytes\<close>

definition Hash_Bytes :: "u256 \<Rightarrow> bytes" where
  "Hash_Bytes h = be_bytes 32 (unat h)"

text \<open>\<open>new(common.Hash).SetBytes(b)\<close> crops from the left and pads with zeros on the left.\<close>

definition Hash_SetBytes :: "bytes \<Rightarrow> u256" where
  "Hash_SetBytes b = word_of_nat (big_SetBytes b)"

definition FromBytes :: "bytes \<Rightarrow> int" where
  "FromBytes bs = (case bs of [] \<Rightarrow> 0 | [b] \<Rightarrow> uint b | _ \<Rightarrow> int (big_SetBytes bs))"

section \<open>Accounts\<close>

record Account =
  Nonce :: "int option"
  Balance :: "int option"
  StorageRootHash :: "u256 option"
  CodeHash :: "u256 option"
  CodeSize :: u64

text \<open>
  \<open>EmptyRLPListHash\<close> (\<open>state_common/index.go\<close>) is the hash of the encoding of a nil byte slice, i.e.\
  of the empty string; \<open>EmptyBytesKeccak256\<close> (\<open>crypto.go\<close>) is the hash of nothing.
\<close>

definition EmptyRLPListHash :: "(bytes \<Rightarrow> u256) \<Rightarrow> u256" where
  "EmptyRLPListHash keccak256 = keccak256 [EmptyString]"

definition EmptyBytesKeccak256 :: "(bytes \<Rightarrow> u256) \<Rightarrow> u256" where
  "EmptyBytesKeccak256 keccak256 = keccak256 []"

definition DecodeAccountFromTrie :: "bytes \<Rightarrow> Account option" where
  "DecodeAccountFromTrie enc_storage = do {
     (rest, tmp) \<leftarrow> MustSplitList enc_storage;
     (tmp, rest) \<leftarrow> MustSplitString rest;
     let nonce = FromBytes tmp;
     (tmp, rest) \<leftarrow> MustSplitString rest;
     let balance = FromBytes tmp;
     (tmp, rest) \<leftarrow> MustSplitString rest;
     let root = (if tmp \<noteq> [] then Some (Hash_SetBytes tmp) else None);
     (tmp, rest) \<leftarrow> MustSplitString rest;
     let code_hash = (if tmp \<noteq> [] then Some (Hash_SetBytes tmp) else None);
     (tmp, rest) \<leftarrow> MustSplitString rest;
     code_size \<leftarrow> DEC_b_endian_compact_64 tmp;
     Some \<lparr>Nonce = Some nonce, Balance = Some balance, StorageRootHash = root, CodeHash = code_hash,
       CodeSize = code_size\<rparr>
   }"

text \<open>
  \<open>EncodeForTrie\<close> ignores the error of \<open>AppendBigInt\<close>; the pooled encoder is reset before each of
  the two encodings.
\<close>

definition append_big :: "int option \<Rightarrow> Encoder \<Rightarrow> Encoder option" where
  "append_big i e = map_option snd (AppendBigInt i e)"

definition append_hash_or_empty :: "u256 option \<Rightarrow> Encoder \<Rightarrow> Encoder option" where
  "append_hash_or_empty h =
     (case h of Some h \<Rightarrow> AppendString (Hash_Bytes h) | None \<Rightarrow> AppendEmptyString)"

definition append_hash_or :: "u256 \<Rightarrow> u256 option \<Rightarrow> Encoder \<Rightarrow> Encoder option" where
  "append_hash_or dflt h =
     (case h of Some h \<Rightarrow> AppendString (Hash_Bytes h) | None \<Rightarrow> AppendString (Hash_Bytes dflt))"

definition EncodeForTrie :: "(bytes \<Rightarrow> u256) \<Rightarrow> Account \<Rightarrow> (bytes \<times> bytes) option" where
  "EncodeForTrie keccak256 acc = do {
     let e = Encoder_empty;
     let (storage_rlp_list, e) = ListStart e;
     e \<leftarrow> append_big (Nonce acc) e;
     e \<leftarrow> append_big (Balance acc) e;
     e \<leftarrow> append_hash_or_empty (StorageRootHash acc) e;
     e \<leftarrow> append_hash_or_empty (CodeHash acc) e;
     e \<leftarrow> AppendUint (CodeSize acc) e;
     e \<leftarrow> ListEnd storage_rlp_list e;
     enc_storage \<leftarrow> ToBytes (-1) e;
     let e = Encoder_Reset e;
     let (hash_rlp_list, e) = ListStart e;
     e \<leftarrow> append_big (Nonce acc) e;
     e \<leftarrow> append_big (Balance acc) e;
     e \<leftarrow> append_hash_or (EmptyRLPListHash keccak256) (StorageRootHash acc) e;
     e \<leftarrow> append_hash_or (EmptyBytesKeccak256 keccak256) (CodeHash acc) e;
     e \<leftarrow> ListEnd hash_rlp_list e;
     enc_hash \<leftarrow> ToBytes (-1) e;
     Some (enc_storage, enc_hash)
   }"

definition MainTrie_ValueStorageToHashEncoding :: "(bytes \<Rightarrow> u256) \<Rightarrow> bytes \<Rightarrow> bytes option" where
  "MainTrie_ValueStorageToHashEncoding keccak256 enc_storage = do {
     let (rlp_list, e) = ListStart Encoder_empty;
     (next, curr) \<leftarrow> must (SplitList enc_storage);
     (curr, next) \<leftarrow> must (SplitString next);
     e \<leftarrow> AppendString curr e;
     (curr, next) \<leftarrow> must (SplitString next);
     e \<leftarrow> AppendString curr e;
     (curr, next) \<leftarrow> must (SplitString next);
     e \<leftarrow> (if curr \<noteq> [] then AppendString curr e
           else AppendString (Hash_Bytes (EmptyRLPListHash keccak256)) e);
     (curr, next) \<leftarrow> must (SplitString next);
     e \<leftarrow> (if curr \<noteq> [] then AppendString curr e
           else AppendString (Hash_Bytes (EmptyBytesKeccak256 keccak256)) e);
     e \<leftarrow> ListEnd rlp_list e;
     ToBytes (-1) e
   }"

text \<open>\<open>keccak256.HashView\<close> (\<open>ebla/util/keccak256\<close>): nil for no bytes, a panic unless there are 32.\<close>

definition HashView :: "bytes \<Rightarrow> u256 option option" where
  "HashView bs =
     (if bs = [] then Some None
      else do { assertm (length bs = 32); Some (Some (Hash_SetBytes bs)) })"

definition StorageRoot :: "bytes \<Rightarrow> u256 option option" where
  "StorageRoot acc_enc_storage = Option.bind (RLPListAt acc_enc_storage 2) HashView"

definition acc_CodeHash :: "bytes \<Rightarrow> u256 option option" where
  "acc_CodeHash acc_enc_storage = Option.bind (RLPListAt acc_enc_storage 3) HashView"

definition AccountTrie_ValueStorageToHashEncoding :: "bytes \<Rightarrow> bytes option" where
  "AccountTrie_ValueStorageToHashEncoding enc_storage = ToRLPStringSimple enc_storage"

definition NewAccStorageTrieValue :: "bytes \<Rightarrow> (bytes \<times> bytes) option" where
  "NewAccStorageTrieValue enc_storage = map_option (Pair enc_storage) (ToRLPStringSimple enc_storage)"

section \<open>Field encodings\<close>

lemma big_SetBytes_be_bytes: "big_SetBytes (be_bytes k n) = n mod 256 ^ k"
proof (induction k arbitrary: n)
  case 0
  then show ?case by (simp add: be_bytes_def big_SetBytes_def)
next
  case (Suc k)
  have "n mod (256 * 256 ^ k) = 256 * (n div 256 mod 256 ^ k) + n mod 256"
    by (rule mod_mult2_eq)
  with Suc show ?case by (simp add: be_bytes_Suc big_SetBytes_snoc unat_of_nat)
qed

lemma length_Hash_Bytes [simp]: "length (Hash_Bytes h) = 32"
  by (simp add: Hash_Bytes_def)

lemma Hash_Bytes_neq_Nil [simp]: "Hash_Bytes h \<noteq> []"
  by (metis length_Hash_Bytes list.size(3) zero_neq_numeral)

lemma Hash_SetBytes_Bytes [simp, codec_simps]: "Hash_SetBytes (Hash_Bytes h) = h"
proof -
  have "unat h < 256 ^ 32" by (rule less_le_trans [OF unsigned_less]) simp
  then show ?thesis
    by (simp only: Hash_SetBytes_def Hash_Bytes_def big_SetBytes_be_bytes mod_less) simp
qed

interpretation hash_bytes: codec Hash_Bytes "\<lambda>b. Some (Hash_SetBytes b)"
  by unfold_locales simp

lemma FromBytes_big [simp]: "FromBytes (big_Bytes n) = int n"
proof -
  have "FromBytes bs = int (big_SetBytes bs)" for bs
    by (cases bs rule: remdups_adj.cases) (auto simp: FromBytes_def big_SetBytes_def)
  then show ?thesis by simp
qed

lemma DEC_big_Bytes [simp]: "DEC_b_endian_compact_64 (big_Bytes (unat i)) = Some i"
proof (cases "i = 0")
  case True
  then show ?thesis by (simp add: big_Bytes.simps [of 0])
next
  case False
  then have "0 < unat i" by (simp add: unat_gt_0)
  moreover have "unat i < 2 ^ 64" by (rule less_le_trans [OF unsigned_less]) simp
  ultimately show ?thesis
    using big_Bytes_eq_compact(1) [of "unat i"] DEC_ENC_b_endian_compact_64 [of i] by simp
qed

lemma writes_append_big: "writes (append_big (Some (int n))) (rlp (RStr (big_Bytes n)))"
  unfolding writes_def append_big_def
proof (intro allI impI)
  fix e assume "enc_len e + length (rlp (RStr (big_Bytes n))) < 2 ^ 32 - 1"
  from AppendBigInt_wrote [OF this]
  show "\<exists>e'. map_option snd (AppendBigInt (Some (int n)) e) = Some e' \<and> wrote e (rlp (RStr (big_Bytes n))) e'"
    by auto
qed

lemma writes_append_hash_or_empty:
  "writes (append_hash_or_empty h) (rlp (RStr (case h of Some h \<Rightarrow> Hash_Bytes h | None \<Rightarrow> [])))"
  using writes_AppendEmptyString writes_AppendString
  by (simp add: append_hash_or_empty_def split: option.split del: rlp.simps)

lemma writes_append_hash_or:
  "writes (append_hash_or d h) (rlp (RStr (Hash_Bytes (case h of Some h \<Rightarrow> h | None \<Rightarrow> d))))"
  using writes_AppendString by (simp add: append_hash_or_def split: option.split del: rlp.simps)

section \<open>The two encodings of an account\<close>

definition storage_items :: "nat \<Rightarrow> nat \<Rightarrow> Account \<Rightarrow> rlp_item list" where
  "storage_items n b acc = [RStr (big_Bytes n), RStr (big_Bytes b),
     RStr (case StorageRootHash acc of Some h \<Rightarrow> Hash_Bytes h | None \<Rightarrow> []),
     RStr (case CodeHash acc of Some h \<Rightarrow> Hash_Bytes h | None \<Rightarrow> []),
     RStr (big_Bytes (unat (CodeSize acc)))]"

definition hash_items :: "(bytes \<Rightarrow> u256) \<Rightarrow> nat \<Rightarrow> nat \<Rightarrow> Account \<Rightarrow> rlp_item list" where
  "hash_items keccak256 n b acc = [RStr (big_Bytes n), RStr (big_Bytes b),
     RStr (Hash_Bytes (case StorageRootHash acc of Some h \<Rightarrow> h | None \<Rightarrow> EmptyRLPListHash keccak256)),
     RStr (Hash_Bytes (case CodeHash acc of Some h \<Rightarrow> h | None \<Rightarrow> EmptyBytesKeccak256 keccak256))]"

lemma length_rlp_short: "length s \<le> 32 \<Longrightarrow> length (rlp (RStr s)) \<le> 33"
  by (simp add: rlp_head_def)

lemma length_storage_items:
  assumes "n < 2 ^ 256" "b < 2 ^ 256"
  shows "length (rlps (storage_items n b acc)) \<le> 165"
proof -
  have "length (big_Bytes n) \<le> 32" "length (big_Bytes b) \<le> 32"
    using assms by (intro length_big_Bytes_le; simp)+
  moreover have "length (big_Bytes (unat (CodeSize acc))) \<le> 32"
    by (intro length_big_Bytes_le less_le_trans [OF unsigned_less]) simp
  moreover have "length (case h of Some h \<Rightarrow> Hash_Bytes h | None \<Rightarrow> []) \<le> 32" for h
    by (simp split: option.split)
  ultimately show ?thesis
    using length_rlp_short [of "big_Bytes n"] length_rlp_short [of "big_Bytes b"]
      length_rlp_short [of "big_Bytes (unat (CodeSize acc))"]
      length_rlp_short [of "case StorageRootHash acc of Some h \<Rightarrow> Hash_Bytes h | None \<Rightarrow> []"]
      length_rlp_short [of "case CodeHash acc of Some h \<Rightarrow> Hash_Bytes h | None \<Rightarrow> []"]
    by (simp add: storage_items_def del: rlp.simps)
qed

lemma length_hash_items:
  assumes "n < 2 ^ 256" "b < 2 ^ 256"
  shows "length (rlps (hash_items keccak256 n b acc)) \<le> 132"
proof -
  have "length (big_Bytes n) \<le> 32" "length (big_Bytes b) \<le> 32"
    using assms by (intro length_big_Bytes_le; simp)+
  then show ?thesis
    using length_rlp_short [of "big_Bytes n"] length_rlp_short [of "big_Bytes b"]
      length_rlp_short [of "Hash_Bytes (case StorageRootHash acc of Some h \<Rightarrow> h | None \<Rightarrow> EmptyRLPListHash keccak256)"]
      length_rlp_short [of "Hash_Bytes (case CodeHash acc of Some h \<Rightarrow> h | None \<Rightarrow> EmptyBytesKeccak256 keccak256)"]
    by (simp add: hash_items_def del: rlp.simps)
qed

lemma length_RList_le: "length (rlps xs) \<le> 1000 \<Longrightarrow> length (rlp (RList xs)) \<le> 1009"
  using rlp_head_length_le [of "length (rlps xs)" "0xC0" "0xF7"] by (simp add: Let_def)

lemma writes_five:
  assumes "writes f1 (rlp x1)" "writes f2 (rlp x2)" "writes f3 (rlp x3)" "writes f4 (rlp x4)"
    and "writes f5 b5" 
  shows "writes (\<lambda>e. do { e \<leftarrow> f1 e; e \<leftarrow> f2 e; e \<leftarrow> f3 e; e \<leftarrow> f4 e; f5 e }) (rlps [x1, x2, x3, x4] @ b5)"
  using writes_bind [OF assms(1) writes_bind [OF assms(2) writes_bind [OF assms(3)
    writes_bind [OF assms(4,5)]]]] by simp

lemma EncodeForTrie_items:
  assumes "Nonce acc = Some (int n)" "Balance acc = Some (int b)" "n < 2 ^ 256" "b < 2 ^ 256"
  shows "EncodeForTrie keccak256 acc
    = Some (rlp (RList (storage_items n b acc)), rlp (RList (hash_items keccak256 n b acc)))"
proof -
  let ?fs = "\<lambda>e. do { e \<leftarrow> append_big (Nonce acc) e; e \<leftarrow> append_big (Balance acc) e;
    e \<leftarrow> append_hash_or_empty (StorageRootHash acc) e; e \<leftarrow> append_hash_or_empty (CodeHash acc) e;
    AppendUint (CodeSize acc) e }"
  let ?fh = "\<lambda>e. do { e \<leftarrow> append_big (Nonce acc) e; e \<leftarrow> append_big (Balance acc) e;
    e \<leftarrow> append_hash_or (EmptyRLPListHash keccak256) (StorageRootHash acc) e;
    e \<leftarrow> append_hash_or (EmptyBytesKeccak256 keccak256) (CodeHash acc) e; Some e }"
  have "writes ?fs (rlps (storage_items n b acc))"
    unfolding storage_items_def using assms
      writes_five [OF writes_append_big writes_append_big writes_append_hash_or_empty
        writes_append_hash_or_empty writes_AppendUint] by simp
  then have "writes (in_list ?fs) (rlp (RList (storage_items n b acc)))" by (rule writes_RList)
  moreover have "length (rlp (RList (storage_items n b acc))) < 2 ^ 32 - 1"
    using length_RList_le [of "storage_items n b acc"] length_storage_items [of n b acc] assms by simp
  ultimately obtain e1 where 1: "in_list ?fs Encoder_empty = Some e1"
    "ToBytes (-1) e1 = Some (rlp (RList (storage_items n b acc)))" by (rule writes_ToBytes)
  have "writes ?fh (rlps (hash_items keccak256 n b acc))"
    unfolding hash_items_def using assms
      writes_five [OF writes_append_big writes_append_big writes_append_hash_or
        writes_append_hash_or writes_Some] by simp
  then have "writes (in_list ?fh) (rlp (RList (hash_items keccak256 n b acc)))" by (rule writes_RList)
  moreover have "length (rlp (RList (hash_items keccak256 n b acc))) < 2 ^ 32 - 1"
    using length_RList_le [of "hash_items keccak256 n b acc"]
      length_hash_items [of n b keccak256 acc] assms by simp
  ultimately obtain e2 where 2: "in_list ?fh Encoder_empty = Some e2"
    "ToBytes (-1) e2 = Some (rlp (RList (hash_items keccak256 n b acc)))" by (rule writes_ToBytes)
  have "EncodeForTrie keccak256 acc = do { e \<leftarrow> in_list ?fs Encoder_empty; s \<leftarrow> ToBytes (-1) e;
      e \<leftarrow> in_list ?fh Encoder_empty; h \<leftarrow> ToBytes (-1) e; Some (s, h) }"
    by (simp add: EncodeForTrie_def in_list_def split_beta Let_def)
  with 1 2 show ?thesis by (simp del: rlp.simps)
qed

lemma split_five:
  assumes "length (rlps [RStr c1, RStr c2, RStr c3, RStr c4, RStr c5]) < 2 ^ 64"
  shows "SplitString (rlps [RStr c1, RStr c2, RStr c3, RStr c4, RStr c5])
      = Inr (c1, rlps [RStr c2, RStr c3, RStr c4, RStr c5])"
    and "SplitString (rlps [RStr c2, RStr c3, RStr c4, RStr c5]) = Inr (c2, rlps [RStr c3, RStr c4, RStr c5])"
    and "SplitString (rlps [RStr c3, RStr c4, RStr c5]) = Inr (c3, rlps [RStr c4, RStr c5])"
    and "SplitString (rlps [RStr c4, RStr c5]) = Inr (c4, rlps [RStr c5])"
    and "SplitString (rlps [RStr c5]) = Inr (c5, rlps [])"
  by (rule SplitString_items, rule le_less_trans [OF _ assms], simp)+

lemma account_decode:
  assumes "Nonce acc = Some (int n)" "Balance acc = Some (int b)" "n < 2 ^ 256" "b < 2 ^ 256"
  shows "DecodeAccountFromTrie (rlp (RList (storage_items n b acc))) = Some acc"
    and "StorageRoot (rlp (RList (storage_items n b acc))) = Some (StorageRootHash acc)"
    and "acc_CodeHash (rlp (RList (storage_items n b acc))) = Some (CodeHash acc)"
proof -
  let ?s = "storage_items n b acc"
  have len: "length (rlps ?s) \<le> 165" using length_storage_items assms by blast
  then have len64: "length (rlps ?s) < 2 ^ 64" and lenl: "length (rlp (RList ?s)) < 2 ^ 64"
    using length_RList_le [of ?s] by simp_all
  have lst: "SplitList (rlp (RList ?s)) = Inr (rlps ?s, [])"
    using SplitList_rlp [of ?s "[]"] lenl by (simp del: rlp.simps)
  note split = split_five [OF len64 [unfolded storage_items_def], folded storage_items_def]
  have opt: "(if (case h of Some h \<Rightarrow> Hash_Bytes h | None \<Rightarrow> []) \<noteq> []
      then Some (Hash_SetBytes (case h of Some h \<Rightarrow> Hash_Bytes h | None \<Rightarrow> [])) else None) = h"
    "HashView (case h of Some h \<Rightarrow> Hash_Bytes h | None \<Rightarrow> []) = Some h" for h
    by (simp_all add: HashView_def split: option.split)
  show "DecodeAccountFromTrie (rlp (RList ?s)) = Some acc"
    unfolding DecodeAccountFromTrie_def MustSplitList_def MustSplitString_def lst
    by (simp only: must_def sum.case bind.bind_lunit prod.case Let_def split opt DEC_big_Bytes FromBytes_big
        assms(1,2)[symmetric]) simp
  have at: "RLPListAt (rlp (RList ?s)) i = Some (item_content (?s ! i))" if "i < 5" for i
    using that lenl by (intro RLPListAt_items) (simp_all add: storage_items_def)
  show "StorageRoot (rlp (RList ?s)) = Some (StorageRootHash acc)"
    "acc_CodeHash (rlp (RList ?s)) = Some (CodeHash acc)"
    using at [of 2] at [of 3] by (simp_all add: StorageRoot_def acc_CodeHash_def storage_items_def opt)
qed

lemma account_hash_encoding:
  assumes "n < 2 ^ 256" "b < 2 ^ 256"
  shows "MainTrie_ValueStorageToHashEncoding keccak256 (rlp (RList (storage_items n b acc)))
    = Some (rlp (RList (hash_items keccak256 n b acc)))"
proof -
  let ?s = "storage_items n b acc" and ?h = "hash_items keccak256 n b acc"
  have len: "length (rlps ?s) \<le> 165" using length_storage_items assms by blast
  then have len64: "length (rlps ?s) < 2 ^ 64" and lenl: "length (rlp (RList ?s)) < 2 ^ 64"
    using length_RList_le [of ?s] by simp_all
  have lst: "SplitList (rlp (RList ?s)) = Inr (rlps ?s, [])"
    using SplitList_rlp [of ?s "[]"] lenl by (simp del: rlp.simps)
  note split = split_five [OF len64 [unfolded storage_items_def], folded storage_items_def]
  let ?f = "\<lambda>e. do { e \<leftarrow> AppendString (big_Bytes n) e; e \<leftarrow> AppendString (big_Bytes b) e;
    e \<leftarrow> AppendString (Hash_Bytes (case StorageRootHash acc of Some h \<Rightarrow> h | None \<Rightarrow> EmptyRLPListHash keccak256)) e;
    e \<leftarrow> AppendString (Hash_Bytes (case CodeHash acc of Some h \<Rightarrow> h | None \<Rightarrow> EmptyBytesKeccak256 keccak256)) e;
    Some e }"
  have opt: "(if (case h of Some h \<Rightarrow> Hash_Bytes h | None \<Rightarrow> []) \<noteq> []
      then AppendString (case h of Some h \<Rightarrow> Hash_Bytes h | None \<Rightarrow> []) e else AppendString (Hash_Bytes d) e)
      = AppendString (Hash_Bytes (case h of Some h \<Rightarrow> h | None \<Rightarrow> d)) e" for h d e
    by (simp split: option.split)
  have "writes ?f (rlps ?h)"
    unfolding hash_items_def
    by (rule writes_five [OF writes_AppendString writes_AppendString writes_AppendString
      writes_AppendString writes_Some, unfolded append_Nil2])
  then have "writes (in_list ?f) (rlp (RList ?h))" by (rule writes_RList)
  moreover have "length (rlp (RList ?h)) < 2 ^ 32 - 1"
    using length_RList_le [of ?h] length_hash_items [of n b keccak256 acc] assms by simp
  ultimately obtain e where e: "in_list ?f Encoder_empty = Some e" "ToBytes (-1) e = Some (rlp (RList ?h))"
    by (rule writes_ToBytes)
  have "MainTrie_ValueStorageToHashEncoding keccak256 (rlp (RList ?s))
      = Option.bind (in_list ?f Encoder_empty) (ToBytes (-1))"
    unfolding MainTrie_ValueStorageToHashEncoding_def lst
    by (simp only: must_def sum.case bind.bind_lunit prod.case split_beta Let_def split opt in_list_def fst_conv snd_conv)
      simp
  with e show ?thesis by (simp del: rlp.simps)
qed

text \<open>C11: an account survives the trie: for nonces and balances below \<open>2^256\<close>, \<open>EncodeForTrie\<close>
  succeeds, decoding its storage encoding returns the account, \<open>StorageRoot\<close> and \<open>CodeHash\<close>
  read their fields from the storage encoding without decoding it, and
  \<open>ValueStorageToHashEncoding\<close> of the storage encoding is the hash encoding.\<close>

theorem account_roundtrip:
  assumes "Nonce acc = Some n" "Balance acc = Some b" "0 \<le> n" "0 \<le> b" "n < 2 ^ 256" "b < 2 ^ 256"
  shows "\<exists>enc_storage enc_hash. EncodeForTrie keccak256 acc = Some (enc_storage, enc_hash)
    \<and> DecodeAccountFromTrie enc_storage = Some acc
    \<and> StorageRoot enc_storage = Some (StorageRootHash acc)
    \<and> acc_CodeHash enc_storage = Some (CodeHash acc)
    \<and> MainTrie_ValueStorageToHashEncoding keccak256 enc_storage = Some enc_hash"
proof -
  have nb: "Nonce acc = Some (int (nat n))" "Balance acc = Some (int (nat b))"
    "nat n < 2 ^ 256" "nat b < 2 ^ 256" using assms by (simp_all add: nat_less_iff)
  show ?thesis
    using EncodeForTrie_items [OF nb] account_decode [OF nb]
      account_hash_encoding [OF nb(3,4)]
    by blast
qed

definition ex_account :: Account where
  "ex_account = \<lparr>Nonce = Some 7, Balance = Some 1000, StorageRootHash = None,
     CodeHash = Some 5, CodeSize = 300\<rparr>"

theorem account_roundtrip_witness:
  "\<exists>enc_storage enc_hash. EncodeForTrie (\<lambda>_. 0) ex_account = Some (enc_storage, enc_hash)
    \<and> DecodeAccountFromTrie enc_storage = Some ex_account
    \<and> StorageRoot enc_storage = Some None \<and> acc_CodeHash enc_storage = Some (Some 5)
    \<and> MainTrie_ValueStorageToHashEncoding (\<lambda>_. 0) enc_storage = Some enc_hash"
  using account_roundtrip [of ex_account 7 1000 "\<lambda>_. 0"] by (simp add: ex_account_def)

end
