(* ===== verification/Rlp_Stream.thy ===== *)
theory Rlp_Stream
  imports Rlp_Raw
begin

text \<open>
  The streaming RLP decoder: \<open>Stream\<close> of \<open>rlp/decode.go\<close>. A stream reads its input forward,
  remembers the kind and size of the value ahead once it has read the header (\<open>kind\<close>,
  \<open>size\<close>, \<open>byteval\<close>, a sticky \<open>kinderr\<close>), counts the remaining bytes when it is limited, and keeps
  the open lists with their positions on a stack.

  The reader is the list of bytes not yet read; the top of the stack is the head of the list
  (the last element in the source). \<open>uintbuf\<close> is scratch space that \<open>readUint\<close> fills before
  every use and is not part of the state. An operation returns its error or result and
  the stream, which also an error changes.
\<close>

section \<open>Streams\<close>

type_synonym listpos = "u64 \<times> u64"

record Stream =
  st_r :: bytes
  st_remaining :: u64
  st_limited :: bool
  st_kind :: "Kind option"
  st_size :: u64
  st_byteval :: byte
  st_kinderr :: "rlp_error option"
  st_stack :: "listpos list"

type_synonym 'a stream_res = "(rlp_error + 'a) \<times> Stream"

definition andThen :: "'a stream_res \<Rightarrow> ('a \<Rightarrow> Stream \<Rightarrow> 'b stream_res) \<Rightarrow> 'b stream_res" where
  "andThen r f = (case r of (Inl err, s) \<Rightarrow> (Inl err, s) | (Inr x, s) \<Rightarrow> f x s)"

lemma andThen_simps [simp]:
  "andThen (Inl err, s) f = (Inl err, s)" "andThen (Inr x, s) f = f x s"
  by (simp_all add: andThen_def)

text \<open>
  \<open>Reset\<close>: an explicit limit, else the length of the data when the reader is a byte or string
  reader (\<open>sized\<close>), else no limit.
\<close>

definition NewStream :: "bytes \<Rightarrow> u64 \<Rightarrow> bool \<Rightarrow> Stream" where
  "NewStream r inputLimit sized =
     \<lparr>st_r = r,
      st_remaining = (if inputLimit > 0 then inputLimit else if sized then of_nat (length r) else 0),
      st_limited = (inputLimit > 0 \<or> sized),
      st_kind = None, st_size = 0, st_byteval = 0, st_kinderr = None, st_stack = []\<rparr>"

definition NewListStream :: "bytes \<Rightarrow> u64 \<Rightarrow> bool \<Rightarrow> Stream" where
  "NewListStream r len sized = (NewStream r len sized)\<lparr>st_kind := Some KList, st_size := len\<rparr>"

section \<open>Reading\<close>

definition willRead :: "u64 \<Rightarrow> Stream \<Rightarrow> unit stream_res" where
  "willRead n s =
     (let s = s\<lparr>st_kind := None\<rparr>;
          limit = (\<lambda>s. if st_limited s then
              (if n > st_remaining s then (Inl ErrValueTooLarge, s)
               else (Inr (), s\<lparr>st_remaining := st_remaining s - n\<rparr>))
            else (Inr (), s))
      in case st_stack s of
           [] \<Rightarrow> limit s
         | (pos, sz) # rest \<Rightarrow>
             if n > sz - pos then (Inl ErrElemTooLarge, s)
             else limit (s\<lparr>st_stack := (pos + n, sz) # rest\<rparr>))"

definition readFull :: "nat \<Rightarrow> Stream \<Rightarrow> bytes stream_res" where
  "readFull n s = andThen (willRead (of_nat n) s) (\<lambda>_ s.
     if n \<le> length (st_r s) then (Inr (take n (st_r s)), s\<lparr>st_r := drop n (st_r s)\<rparr>)
     else (Inl ErrUnexpectedEOF, s\<lparr>st_r := []\<rparr>))"

definition readByte :: "Stream \<Rightarrow> byte stream_res" where
  "readByte s = andThen (willRead 1 s) (\<lambda>_ s.
     case st_r s of
       [] \<Rightarrow> (Inl ErrUnexpectedEOF, s)
     | b # r \<Rightarrow> (Inr b, s\<lparr>st_r := r\<rparr>))"

text \<open>\<open>readUint\<close> is called with sizes up to 8.\<close>

definition readUint :: "byte \<Rightarrow> Stream \<Rightarrow> u64 stream_res" where
  "readUint sz s =
     (if sz = 0 then (Inr 0, s\<lparr>st_kind := None\<rparr>)
      else if sz = 1 then andThen (readByte s) (\<lambda>b s. (Inr (ucast b), s))
      else andThen (readFull (unat sz) s) (\<lambda>bs s.
        if hd bs = 0 then (Inl ErrCanonSize, s) else (Inr (word_of_nat (big_SetBytes bs)), s)))"

definition readKind :: "Stream \<Rightarrow> (Kind \<times> u64 \<times> rlp_error option) \<times> Stream" where
  "readKind s =
     (case readByte s of
        (Inl err, s) \<Rightarrow>
          ((KByte, 0, Some (if st_stack s = [] \<and> (err = ErrUnexpectedEOF \<or> err = ErrValueTooLarge)
             then EOF else err)), s)
      | (Inr b, s) \<Rightarrow>
          let s = s\<lparr>st_byteval := 0\<rparr>;
              long = (\<lambda>k r. case r of
                  (Inl err, s) \<Rightarrow> ((k, 0, Some err), s)
                | (Inr sz, s) \<Rightarrow> ((k, sz, if sz < 56 then Some ErrCanonSize else None), s))
          in if b < 0x80 then ((KByte, 0, None), s\<lparr>st_byteval := b\<rparr>)
             else if b < 0xB8 then ((KString, ucast (b - 0x80), None), s)
             else if b < 0xC0 then long KString (readUint (b - 0xB7) s)
             else if b < 0xF8 then ((KList, ucast (b - 0xC0), None), s)
             else long KList (readUint (b - 0xF7) s))"

text \<open>\<open>tos\<close> is a pointer into the stack: after \<open>readKind\<close> its position includes the header.\<close>

definition Stream_Kind :: "Stream \<Rightarrow> (Kind \<times> u64) stream_res" where
  "Stream_Kind s =
     (let result = (\<lambda>s. case st_kinderr s of
          Some err \<Rightarrow> (Inl err, s)
        | None \<Rightarrow> (Inr (the (st_kind s), st_size s), s))
      in if st_kind s \<noteq> None then result s
         else
           let s = s\<lparr>st_kinderr := None\<rparr> in
           case st_stack s of
             (pos, sz) # _ \<Rightarrow>
               if pos = sz then (Inl EOL, s)
               else
                 (case readKind s of ((k, n, err), s) \<Rightarrow>
                    let (pos, sz) = hd (st_stack s);
                        err = (if err = None \<and> n > sz - pos then Some ErrElemTooLarge else err)
                    in result (s\<lparr>st_kind := Some k, st_size := n, st_kinderr := err\<rparr>))
           | [] \<Rightarrow>
               (case readKind s of ((k, n, err), s) \<Rightarrow>
                  let err = (if err = None \<and> st_limited s \<and> n > st_remaining s
                             then Some ErrValueTooLarge else err)
                  in result (s\<lparr>st_kind := Some k, st_size := n, st_kinderr := err\<rparr>)))"

section \<open>Values\<close>

definition Stream_Bytes :: "Stream \<Rightarrow> bytes stream_res" where
  "Stream_Bytes s = andThen (Stream_Kind s) (\<lambda>(kind, sz) s.
     case kind of
       KByte \<Rightarrow> (Inr [st_byteval s], s\<lparr>st_kind := None\<rparr>)
     | KString \<Rightarrow> andThen (readFull (unat sz) s) (\<lambda>b s.
         if sz = 1 \<and> hd b < 128 then (Inl ErrCanonSize, s) else (Inr b, s))
     | KList \<Rightarrow> (Inl ErrExpectedString, s))"

definition head_bytes :: "byte \<Rightarrow> byte \<Rightarrow> u64 \<Rightarrow> bytes" where
  "head_bytes smalltag largetag sz = the (puthead BytesAppender smalltag largetag sz [])"

definition Stream_Raw :: "Stream \<Rightarrow> bytes stream_res" where
  "Stream_Raw s = andThen (Stream_Kind s) (\<lambda>(kind, sz) s.
     case kind of
       KByte \<Rightarrow> (Inr [st_byteval s], s\<lparr>st_kind := None\<rparr>)
     | KString \<Rightarrow> andThen (readFull (unat sz) s) (\<lambda>b s. (Inr (head_bytes 0x80 0xB7 sz @ b), s))
     | KList \<Rightarrow> andThen (readFull (unat sz) s) (\<lambda>b s. (Inr (head_bytes 0xC0 0xF7 sz @ b), s)))"

definition Stream_uint :: "nat \<Rightarrow> Stream \<Rightarrow> u64 stream_res" where
  "Stream_uint maxbits s = andThen (Stream_Kind s) (\<lambda>(kind, sz) s.
     case kind of
       KByte \<Rightarrow> if st_byteval s = 0 then (Inl ErrCanonInt, s)
                else (Inr (ucast (st_byteval s)), s\<lparr>st_kind := None\<rparr>)
     | KString \<Rightarrow>
         if sz > of_nat (maxbits div 8) then (Inl errUintOverflow, s)
         else (case readUint (ucast sz) s of
                 (Inl err, s) \<Rightarrow> (Inl (if err = ErrCanonSize then ErrCanonInt else err), s)
               | (Inr v, s) \<Rightarrow> if sz > 0 \<and> v < 128 then (Inl ErrCanonSize, s) else (Inr v, s))
     | KList \<Rightarrow> (Inl ErrExpectedString, s))"

definition Stream_Uint :: "Stream \<Rightarrow> u64 stream_res" where
  "Stream_Uint = Stream_uint 64"

definition Stream_Bool :: "Stream \<Rightarrow> bool stream_res" where
  "Stream_Bool s = andThen (Stream_uint 8 s) (\<lambda>num s.
     if num = 0 then (Inr False, s)
     else if num = 1 then (Inr True, s)
     else (Inl (ErrOther ''invalid boolean value''), s))"

definition Stream_List :: "Stream \<Rightarrow> u64 stream_res" where
  "Stream_List s = andThen (Stream_Kind s) (\<lambda>(kind, sz) s.
     if kind \<noteq> KList then (Inl ErrExpectedList, s)
     else (Inr sz, s\<lparr>st_stack := (0, sz) # st_stack s, st_kind := None, st_size := 0\<rparr>))"

definition Stream_ListEnd :: "Stream \<Rightarrow> unit stream_res" where
  "Stream_ListEnd s =
     (case st_stack s of
        [] \<Rightarrow> (Inl errNotInList, s)
      | (pos, sz) # rest \<Rightarrow>
          if pos \<noteq> sz then (Inl errNotAtEOL, s)
          else
            let rest = (case rest of [] \<Rightarrow> [] | (p, z) # r \<Rightarrow> (p + sz, z) # r)
            in (Inr (), s\<lparr>st_stack := rest, st_kind := None, st_size := 0\<rparr>))"

section \<open>Progress of a stream\<close>

text \<open>
  \<open>has_room s n\<close>: the next \<open>n\<close> bytes are there and lie within the innermost list and the limit.
  \<open>consumed s n s'\<close>: \<open>s'\<close> is \<open>s\<close> after reading \<open>n\<close> bytes; \<open>moved\<close>: and no header is remembered.
\<close>

definition has_room :: "Stream \<Rightarrow> nat \<Rightarrow> bool" where
  "has_room s n \<longleftrightarrow> n \<le> length (st_r s) \<and> length (st_r s) < 2 ^ 64
     \<and> (st_limited s \<longrightarrow> n \<le> unat (st_remaining s))
     \<and> (case st_stack s of [] \<Rightarrow> True | (pos, sz) # _ \<Rightarrow> unat pos + n \<le> unat sz)"

definition consumed :: "Stream \<Rightarrow> nat \<Rightarrow> Stream \<Rightarrow> bool" where
  "consumed s n s' \<longleftrightarrow> st_r s' = drop n (st_r s) \<and> st_limited s' = st_limited s
     \<and> (st_limited s \<longrightarrow> st_remaining s' = st_remaining s - of_nat n)
     \<and> st_stack s' = (case st_stack s of [] \<Rightarrow> [] | (pos, sz) # rest \<Rightarrow> (pos + of_nat n, sz) # rest)"

definition moved :: "Stream \<Rightarrow> nat \<Rightarrow> Stream \<Rightarrow> bool" where
  "moved s n s' \<longleftrightarrow> consumed s n s' \<and> st_kind s' = None"

lemma consumed_trans:
  "consumed s a s1 \<Longrightarrow> consumed s1 b s2 \<Longrightarrow> consumed s (a + b) s2"
  by (auto simp: consumed_def add.commute diff_diff_eq split: list.splits)

lemma consumed_refl [simp]: "consumed s 0 s"
  by (auto simp: consumed_def split: list.splits)

lemma unat_sub_of_nat:
  fixes x :: "'a::len word"
  assumes "n \<le> unat x"
  shows "unat (x - of_nat n) = unat x - n"
proof -
  have "(of_nat n :: 'a word) \<le> x"
    using assms by (metis le_unat_uoi word_le_nat_alt)
  moreover have "unat (of_nat n :: 'a word) = n" using assms by (rule le_unat_uoi)
  ultimately show ?thesis by (simp add: unat_sub)
qed

lemma unat_add_of_nat:
  fixes x z :: "'a::len word"
  assumes "unat x + n \<le> unat z"
  shows "unat (x + of_nat n) = unat x + n"
proof -
  have "n \<le> unat z" using assms by simp
  then have "unat (of_nat n :: 'a word) = n" by (rule le_unat_uoi)
  moreover have "unat x + n < 2 ^ LENGTH('a)" using assms unsigned_less [of z] by (rule le_less_trans)
  ultimately show ?thesis by (simp add: unat_word_ariths)
qed

lemma unat_add_le:
  fixes x z :: "'a::len word"
  assumes "unat x + (a + b) \<le> unat z"
  shows "unat (x + of_nat a) + b \<le> unat z"
  using unat_add_of_nat [of x a z] assms by simp

lemma has_room_consumed:
  assumes "has_room s (a + b)" "consumed s a s1"
  shows "has_room s1 b"
  using assms
  by (auto simp: has_room_def consumed_def unat_sub_of_nat unat_add_le split: list.splits)

lemma has_room_le: "has_room s n \<Longrightarrow> m \<le> n \<Longrightarrow> has_room s m"
  by (auto simp: has_room_def split: list.splits)

lemma has_room_cong:
  "st_r s' = st_r s \<Longrightarrow> st_limited s' = st_limited s \<Longrightarrow> st_remaining s' = st_remaining s \<Longrightarrow>
   st_stack s' = st_stack s \<Longrightarrow> has_room s' n = has_room s n"
  by (simp add: has_room_def)

lemma word_of_nat_le_iff:
  fixes x :: "'a::len word"
  shows "n \<le> unat x \<Longrightarrow> of_nat n \<le> x"
  by (metis le_unat_uoi word_le_nat_alt)

lemma has_room_pos:
  assumes "has_room s n" "st_stack s = (pos, sz) # rest"
  shows "of_nat n \<le> sz - pos" and "0 < n \<Longrightarrow> pos \<noteq> sz"
proof -
  from assms have le: "unat pos + n \<le> unat sz" by (simp add: has_room_def)
  then have "pos \<le> sz" by (simp add: word_le_nat_alt)
  then have "unat (sz - pos) = unat sz - unat pos" by (simp add: unat_sub)
  with le show "of_nat n \<le> sz - pos" by (intro word_of_nat_le_iff) simp
  show "pos \<noteq> sz" if "0 < n" using le that by auto
qed

lemma willRead_room:
  assumes "has_room s n"
  shows "\<exists>s'. willRead (of_nat n) s = (Inr (), s') \<and> st_kind s' = None \<and> st_r s' = st_r s
    \<and> consumed s n (s'\<lparr>st_r := drop n (st_r s)\<rparr>)"
proof -
  have rem: "\<not> st_remaining s < of_nat n" if "st_limited s"
    using assms that by (simp add: has_room_def not_less word_of_nat_le_iff)
  show ?thesis
  proof (cases "st_stack s")
    case Nil
    with rem show ?thesis by (auto simp: willRead_def consumed_def Let_def)
  next
    case (Cons p rest)
    then obtain pos sz where p: "st_stack s = (pos, sz) # rest" by (cases p) auto
    from has_room_pos(1) [OF assms p] have "\<not> sz - pos < of_nat n" by simp
    with rem p show ?thesis by (auto simp: willRead_def consumed_def Let_def)
  qed
qed

lemma readFull_room:
  assumes "has_room s n"
  shows "\<exists>s'. readFull n s = (Inr (take n (st_r s)), s') \<and> moved s n s'"
proof -
  from willRead_room [OF assms] obtain s1 where "willRead (of_nat n) s = (Inr (), s1)" "st_kind s1 = None"
    "st_r s1 = st_r s" "consumed s n (s1\<lparr>st_r := drop n (st_r s)\<rparr>)" by blast
  moreover have "n \<le> length (st_r s)" using assms by (simp add: has_room_def)
  ultimately show ?thesis by (simp add: readFull_def moved_def)
qed

lemma readByte_room:
  assumes "has_room s 1"
  shows "\<exists>s'. readByte s = (Inr (hd (st_r s)), s') \<and> moved s 1 s'"
proof -
  from willRead_room [OF assms] obtain s1 where "willRead 1 s = (Inr (), s1)" "st_kind s1 = None"
    "st_r s1 = st_r s" "consumed s 1 (s1\<lparr>st_r := drop 1 (st_r s)\<rparr>)" by auto
  moreover obtain b r where "st_r s = b # r"
    using assms by (cases "st_r s") (auto simp: has_room_def)
  ultimately show ?thesis by (simp add: readByte_def moved_def)
qed

lemma moved_0: "moved s 0 (s\<lparr>st_kind := None\<rparr>)"
  by (auto simp: moved_def consumed_def split: list.splits)

lemma readUint_big:
  assumes "has_room s (length (big_Bytes n))" "st_r s = big_Bytes n @ rest" "n < 2 ^ 64"
  shows "\<exists>s'. readUint (of_nat (length (big_Bytes n))) s = (Inr (of_nat n), s')
    \<and> moved s (length (big_Bytes n)) s'"
proof (cases "n = 0")
  case True
  then show ?thesis using moved_0 by (auto simp: big_Bytes.simps [of 0] readUint_def)
next
  case False
  let ?k = "length (big_Bytes n)"
  have h: "big_Bytes n \<noteq> []" "hd (big_Bytes n) \<noteq> 0" using hd_big_Bytes False by auto
  have k8: "?k \<le> 8" using big_Bytes_eq_compact(3) False assms(3) by blast
  then have uk: "unat (word_of_nat ?k :: byte) = ?k" by (intro byte_of_small) simp
  have k0: "(word_of_nat ?k :: byte) \<noteq> 0" using uk h(1) by (metis length_0_conv unat_0)
  show ?thesis
  proof (cases "?k = 1")
    case True
    with assms(1) have "has_room s 1" by simp
    from readByte_room [OF this] obtain s' where s': "readByte s = (Inr (hd (st_r s)), s')" "moved s 1 s'"
      by blast
    have "unat (hd (st_r s)) = n" using big_Bytes_single [OF True] assms(2) h by simp
    then have "(ucast (hd (st_r s)) :: u64) = of_nat n"
      using assms(3) by (simp add: word_unat_eq_iff unsigned_ucast_eq unat_of_nat take_bit_eq_mod)
    with s' True show ?thesis by (simp add: readUint_def)
  next
    case False
    then have "(word_of_nat ?k :: byte) \<noteq> 1" using uk by (metis unat_1)
    moreover obtain s' where "readFull ?k s = (Inr (big_Bytes n), s')" "moved s ?k s'"
      using readFull_room [OF assms(1)] assms(2) by auto
    ultimately show ?thesis using k0 uk h by (simp add: readUint_def)
  qed
qed

lemma consumed_update [simp]:
  "consumed s n (s'\<lparr>st_byteval := b\<rparr>) = consumed s n s'"
  "consumed s n (s'\<lparr>st_kind := k\<rparr>) = consumed s n s'"
  "consumed s n (s'\<lparr>st_size := z\<rparr>) = consumed s n s'"
  "consumed s n (s'\<lparr>st_kinderr := e\<rparr>) = consumed s n s'"
  "consumed (s\<lparr>st_byteval := b\<rparr>) n s' = consumed s n s'"
  "consumed (s\<lparr>st_kind := k\<rparr>) n s' = consumed s n s'"
  "consumed (s\<lparr>st_size := z\<rparr>) n s' = consumed s n s'"
  "consumed (s\<lparr>st_kinderr := e\<rparr>) n s' = consumed s n s'"
  by (simp_all add: consumed_def)

lemma has_room_update [simp]:
  "has_room (s\<lparr>st_byteval := b\<rparr>) n = has_room s n"
  "has_room (s\<lparr>st_kind := k\<rparr>) n = has_room s n"
  "has_room (s\<lparr>st_size := z\<rparr>) n = has_room s n"
  "has_room (s\<lparr>st_kinderr := e\<rparr>) n = has_room s n"
  by (simp_all add: has_room_def)

definition head_length :: "Kind \<Rightarrow> bytes \<Rightarrow> bytes \<Rightarrow> nat" where
  "head_length k c v = (if k = KByte then 1 else length v - length c)"

definition ahead_size :: "Kind \<Rightarrow> bytes \<Rightarrow> u64" where
  "ahead_size k c = (if k = KByte then 0 else of_nat (length c))"

lemma readKind_short:
  assumes "has_room s 1" "st_r s = b # rest" "b < 0x80 \<or> 0x80 \<le> b \<and> b < 0xB8 \<or> 0xC0 \<le> b \<and> b < 0xF8"
  shows "\<exists>s'. readKind s = ((if b < 0x80 then (KByte, 0, None)
      else if b < 0xB8 then (KString, ucast (b - 0x80), None) else (KList, ucast (b - 0xC0), None)), s')
    \<and> consumed s 1 s' \<and> (b < 0x80 \<longrightarrow> st_byteval s' = b)"
proof -
  from readByte_room [OF assms(1)] assms(2) obtain s1
    where s1: "readByte s = (Inr b, s1)" "consumed s 1 s1" by (auto simp: moved_def)
  have "\<not> b < 0xC0" "\<not> b < 0xB8" "\<not> b < 0x80" if "0xC0 \<le> b"
    using not_less_mono [of b "0xC0" "0xB8"] not_less_mono [of b "0xC0" "0x80"] that by simp_all
  then consider "b < 0x80" | "\<not> b < 0x80" "b < 0xB8"
    | "\<not> b < 0x80" "\<not> b < 0xB8" "\<not> b < 0xC0" "b < 0xF8"
    using assms(3) by (metis not_le)
  then show ?thesis using s1 by cases (simp_all add: readKind_def Let_def)
qed

lemma readKind_long:
  assumes room: "has_room s (1 + length (big_Bytes n))" and r: "st_r s = b # big_Bytes n @ rest"
    and n: "56 \<le> n" "n < 2 ^ 64"
    and b: "b = of_nat (tag + length (big_Bytes n))" "tag = 0xB7 \<and> k = KString \<or> tag = 0xF7 \<and> k = KList"
  shows "\<exists>s'. readKind s = ((k, of_nat n, None), s') \<and> consumed s (1 + length (big_Bytes n)) s'"
proof -
  let ?j = "length (big_Bytes n)"
  have n0: "0 < n" using n by simp
  note c = big_Bytes_eq_compact [OF n0 n(2)] and h = hd_big_Bytes [of n]
  have j: "1 \<le> ?j" "?j \<le> 8" using c(3) h n0 by (simp_all add: Suc_leI)
  note fb = first_byte_long [OF j]
  have "has_room s 1" using room by (rule has_room_le) simp
  from readByte_room [OF this] r obtain s1 where s1: "readByte s = (Inr b, s1)" "consumed s 1 s1"
    by (auto simp: moved_def)
  have r1: "st_r (s1\<lparr>st_byteval := 0\<rparr>) = big_Bytes n @ rest" using s1(2) r by (simp add: consumed_def)
  have "has_room (s1\<lparr>st_byteval := 0\<rparr>) ?j" using has_room_consumed [OF room s1(2)] by simp
  from readUint_big [OF this r1 n(2)] obtain s2
    where s2: "readUint (of_nat ?j) (s1\<lparr>st_byteval := 0\<rparr>) = (Inr (of_nat n), s2)"
      "consumed s1 ?j s2" by (auto simp: moved_def)
  have big: "\<not> (of_nat n :: u64) < 56" using n by (simp add: word_less_nat_alt unat_of_nat)
  have "consumed s (1 + ?j) s2" using s1(2) s2(2) by (rule consumed_trans)
  moreover have "\<not> b < 0x80" "\<not> b < 0xB8" "tag = 0xB7 \<Longrightarrow> b < 0xC0" "tag = 0xB7 \<Longrightarrow> b - 0xB7 = of_nat ?j"
    "tag = 0xF7 \<Longrightarrow> \<not> b < 0xC0" "tag = 0xF7 \<Longrightarrow> \<not> b < 0xF8" "tag = 0xF7 \<Longrightarrow> b - 0xF7 = of_nat ?j"
    using b fb not_less_mono [OF fb(1), of "0x80"] not_less_mono [OF fb(4), of "0x80"]
      not_less_mono [OF fb(4), of "0xB8"] not_less_mono [OF fb(4), of "0xC0"] by auto
  ultimately show ?thesis
    using b(2) s1 s2(1) big by (auto simp: readKind_def Let_def)
qed

lemma readKind_value:
  assumes v: "is_value k c v" and r: "st_r s = v @ rest" and room: "has_room s (length v)"
  shows "\<exists>s'. readKind s = ((k, ahead_size k c, None), s') \<and> consumed s (head_length k c v) s'
    \<and> (k = KByte \<longrightarrow> st_byteval s' = hd c)"
proof -
  have len: "length v < 2 ^ 64" using room by (simp add: has_room_def)
  consider (byte) "k = KByte"
    | (short) small where "k \<noteq> KByte" "length c < 56" "v = of_nat (small + length c) # c"
        "small = 0x80 \<and> k = KString \<or> small = 0xC0 \<and> k = KList"
    | (long) tag where "k \<noteq> KByte" "56 \<le> length c"
        "v = of_nat (tag + length (big_Bytes (length c))) # big_Bytes (length c) @ c"
        "tag = 0xB7 \<and> k = KString \<or> tag = 0xF7 \<and> k = KList"
    using v by (cases k; cases "length c < 56") (auto simp: rlp_head_def)
  then show ?thesis
  proof cases
    case byte
    with v obtain b where b: "c = [b]" "v = [b]" "b < 0x80" by (cases c) auto
    with readKind_short [of s b rest] r room byte show ?thesis
      by (auto simp: ahead_size_def head_length_def)
  next
    case short
    let ?b = "of_nat (small + length c) :: byte"
    note fb = first_byte [OF short(2)]
    have one: "has_room s 1" using room by (rule has_room_le) (simp add: short(3))
    have "0x80 \<le> ?b \<and> ?b < 0xB8 \<or> 0xC0 \<le> ?b \<and> ?b < 0xF8" using short(4) fb by (auto simp: not_less)
    from readKind_short [OF one _ disjI2 [OF this]] short(3) r obtain s' where
      s': "readKind s = ((if ?b < 0x80 then (KByte, 0, None) else if ?b < 0xB8 then (KString, ucast (?b - 0x80), None)
        else (KList, ucast (?b - 0xC0), None)), s')" "consumed s 1 s'" by auto
    have "\<not> ?b < 0x80" "small = 0x80 \<Longrightarrow> ?b < 0xB8" "small = 0xC0 \<Longrightarrow> \<not> ?b < 0xB8"
      using short(4) fb not_less_mono [OF fb(4), of "0x80"] not_less_mono [OF fb(4), of "0xB8"] by auto
    with s' short fb show ?thesis
      by (auto simp: ahead_size_def head_length_def ucast_byte_u64)
  next
    case long
    have n64: "length c < 2 ^ 64" using len long(3) by simp
    have "has_room s (1 + length (big_Bytes (length c)))" using room by (rule has_room_le) (simp add: long(3))
    from readKind_long [OF this _ long(2) n64 refl long(4)] long(3) r
    show ?thesis using long(1) by (auto simp: ahead_size_def head_length_def)
  qed
qed

lemma value_lengths:
  assumes "is_value k c v"
  shows "k \<noteq> KByte \<Longrightarrow> head_length k c v + length c = length v" "0 < head_length k c v"
    "head_length k c v \<le> length v" "k = KByte \<Longrightarrow> length v = 1 \<and> length c = 1"
    "k \<noteq> KByte \<Longrightarrow> drop (head_length k c v) v = c"
  using assms by (cases k; auto simp: head_length_def rlp_head_def)+

lemma Stream_Kind_value:
  assumes v: "is_value k c v" and r: "st_r s = v @ rest" and room: "has_room s (length v)"
    and none: "st_kind s = None"
  shows "\<exists>s'. Stream_Kind s = (Inr (k, ahead_size k c), s') \<and> consumed s (head_length k c v) s'
    \<and> st_kind s' = Some k \<and> st_size s' = ahead_size k c \<and> st_kinderr s' = None
    \<and> (k = KByte \<longrightarrow> st_byteval s' = hd c)"
proof -
  let ?s = "s\<lparr>st_kinderr := None\<rparr>"
  obtain s1 where s1: "readKind ?s = ((k, ahead_size k c, None), s1)" "consumed s (head_length k c v) s1"
    "k = KByte \<longrightarrow> st_byteval s1 = hd c"
    using readKind_value [OF v, of ?s rest] r room by auto
  have "has_room s (head_length k c v + (length v - head_length k c v))"
    using room value_lengths(3) [OF v] by simp
  then have room1: "has_room s1 (length v - head_length k c v)" using s1(2) by (rule has_room_consumed)
  define n where "n = (if k = KByte then 0 else length c)"
  have n: "n \<le> length v - head_length k c v" "ahead_size k c = of_nat n"
    using value_lengths(1,3) [OF v] by (auto simp: n_def ahead_size_def)
  have room_n: "has_room s1 n" using room1 n(1) by (rule has_room_le)
  have lim: "\<not> st_remaining s1 < ahead_size k c" if "st_limited s1"
    using room_n that by (simp add: has_room_def n(2) not_less word_of_nat_le_iff)
  show ?thesis
  proof (cases "st_stack s")
    case Nil
    then have "st_stack s1 = []" using s1(2) by (simp add: consumed_def)
    with Nil s1 lim none show ?thesis by (auto simp: Stream_Kind_def Let_def)
  next
    case (Cons p st)
    then obtain pos sz where p: "st_stack s = (pos, sz) # st" by (cases p) auto
    have "0 < length v" using is_value_nonempty [OF v] by simp
    with has_room_pos(2) [OF room p] have neq: "pos \<noteq> sz" by simp
    have st1: "st_stack s1 = (pos + of_nat (head_length k c v), sz) # st"
      using s1(2) p by (simp add: consumed_def)
    from has_room_pos(1) [OF room_n this]
    have "\<not> sz - (pos + of_nat (head_length k c v)) < ahead_size k c" by (simp add: n(2))
    with p st1 s1 neq none show ?thesis by (auto simp: Stream_Kind_def Let_def)
  qed
qed

lemma Stream_Kind_idem:
  assumes "Stream_Kind s = (Inr x, s')"
  shows "Stream_Kind s' = (Inr x, s')"
proof (cases "st_kind s")
  case (Some k)
  with assms show ?thesis by (auto simp: Stream_Kind_def split: option.splits)
next
  case None
  with assms have "st_kinderr s' = None" "st_kind s' = Some (fst x)" "st_size s' = snd x"
    by (auto simp: Stream_Kind_def Let_def split: list.splits if_splits option.splits prod.splits)
  then show ?thesis by (simp add: Stream_Kind_def)
qed

section \<open>Reading values\<close>

text \<open>The value \<open>v\<close> of kind \<open>k\<close> and content \<open>c\<close> is next in the stream, and its header is not yet read.\<close>

definition facing :: "Kind \<Rightarrow> bytes \<Rightarrow> bytes \<Rightarrow> Stream \<Rightarrow> bool" where
  "facing k c v s \<longleftrightarrow> is_value k c v \<and> take (length v) (st_r s) = v \<and> has_room s (length v)
     \<and> st_kind s = None"

lemma facingI:
  "is_value k c v \<Longrightarrow> st_r s = v @ rest \<Longrightarrow> has_room s (length v) \<Longrightarrow> st_kind s = None \<Longrightarrow> facing k c v s"
  by (simp add: facing_def)

lemma facing_Kind:
  assumes "facing k c v s"
  shows "\<exists>s'. Stream_Kind s = (Inr (k, ahead_size k c), s') \<and> consumed s (head_length k c v) s'
    \<and> (k = KByte \<longrightarrow> st_byteval s' = hd c)
    \<and> (k \<noteq> KByte \<longrightarrow> has_room s' (length c) \<and> take (length c) (st_r s') = c
         \<and> unat (ahead_size k c) = length c)"
proof -
  from assms have v: "is_value k c v" and room: "has_room s (length v)" and none: "st_kind s = None"
    unfolding facing_def by simp_all
  obtain rest where r: "st_r s = v @ rest"
    using assms unfolding facing_def by (metis append_take_drop_id)
  from Stream_Kind_value [OF v r room none] obtain s' where
    s': "Stream_Kind s = (Inr (k, ahead_size k c), s')" "consumed s (head_length k c v) s'"
      "k = KByte \<longrightarrow> st_byteval s' = hd c" by blast
  have "has_room s' (length c) \<and> take (length c) (st_r s') = c \<and> unat (ahead_size k c) = length c"
    if k: "k \<noteq> KByte"
  proof -
    note l = value_lengths [OF v]
    have "has_room s (head_length k c v + length c)" using room l(1) [OF k] by simp
    then have room': "has_room s' (length c)" using s'(2) by (rule has_room_consumed)
    have "st_r s' = drop (head_length k c v) v @ rest"
      using s'(2) r l(3) by (simp add: consumed_def)
    then have "take (length c) (st_r s') = c" by (simp add: l(5) [OF k])
    moreover have "unat (ahead_size k c) = length c"
      using room l(1) [OF k] k by (simp add: ahead_size_def has_room_def unat_of_nat)
    ultimately show ?thesis using room' by blast
  qed
  with s' show ?thesis by blast
qed

lemma consumed_value:
  assumes "is_value k c v" "k \<noteq> KByte" "consumed s (head_length k c v) s1" "moved s1 (length c) s2"
  shows "moved s (length v) s2"
  using consumed_trans [OF assms(3), of "length c" s2] assms(4) value_lengths(1) [OF assms(1,2)]
  by (simp add: moved_def)

lemma Stream_Bytes_value:
  assumes "facing k c v s" "k \<noteq> KList"
  shows "\<exists>s'. Stream_Bytes s = (Inr c, s') \<and> moved s (length v) s'"
proof -
  have v: "is_value k c v" using assms(1) by (simp add: facing_def)
  from facing_Kind [OF assms(1)] obtain s1 where s1: "Stream_Kind s = (Inr (k, ahead_size k c), s1)"
    "consumed s (head_length k c v) s1" "k = KByte \<Longrightarrow> st_byteval s1 = hd c"
    "k \<noteq> KByte \<Longrightarrow> has_room s1 (length c) \<and> take (length c) (st_r s1) = c
      \<and> unat (ahead_size k c) = length c" by blast
  show ?thesis
  proof (cases k)
    case KByte
    with v obtain b where "c = [b]" "length v = 1" by (cases c) auto
    with s1 KByte show ?thesis by (simp add: Stream_Bytes_def moved_def head_length_def)
  next
    case KString
    then have k: "k \<noteq> KByte" by simp
    from readFull_room [of s1 "length c"] s1(4) [OF k] obtain s2 where
      s2: "readFull (length c) s1 = (Inr c, s2)" "moved s1 (length c) s2" by auto
    have "\<not> (ahead_size k c = 1 \<and> hd c < 128)"
      using v KString s1(4) [OF k] by (auto simp: word_unat_eq_iff)
    with s1 s2 s1(4) [OF k] KString consumed_value [OF v k s1(2) s2(2)] show ?thesis
      by (auto simp: Stream_Bytes_def)
  qed (use assms in simp)
qed

lemma Stream_List_value:
  assumes "facing KList c v s"
  shows "\<exists>s'. Stream_List s = (Inr (of_nat (length c)), s') \<and> st_kind s' = None
    \<and> st_r s' = drop (length v - length c) (st_r s) \<and> take (length c) (st_r s') = c
    \<and> st_limited s' = st_limited s
    \<and> (st_limited s \<longrightarrow> st_remaining s' = st_remaining s - of_nat (length v - length c))
    \<and> st_stack s' = (0, of_nat (length c)) # (case st_stack s of [] \<Rightarrow> []
        | (pos, sz) # rest \<Rightarrow> (pos + of_nat (length v - length c), sz) # rest)
    \<and> has_room s' (length c)"
proof -
  from facing_Kind [OF assms] obtain s1 where s1: "Stream_Kind s = (Inr (KList, of_nat (length c)), s1)"
    "consumed s (length v - length c) s1" "has_room s1 (length c)" "take (length c) (st_r s1) = c"
    "unat (of_nat (length c) :: u64) = length c"
    by (auto simp: head_length_def ahead_size_def)
  then show ?thesis by (auto simp: Stream_List_def consumed_def has_room_def)
qed

lemma Stream_ListEnd_value:
  assumes "st_stack s = (z, z) # rest"
  shows "Stream_ListEnd s = (Inr (), s\<lparr>st_stack := (case rest of [] \<Rightarrow> [] | (p, y) # r \<Rightarrow> (p + z, y) # r),
    st_kind := None, st_size := 0\<rparr>)"
  using assms by (simp add: Stream_ListEnd_def)

lemma Stream_Kind_EOL:
  "st_stack s = (z, z) # rest \<Longrightarrow> st_kind s = None \<Longrightarrow> Stream_Kind s = (Inl EOL, s\<lparr>st_kinderr := None\<rparr>)"
  by (simp add: Stream_Kind_def)

lemma Stream_uint_value:
  assumes f: "facing k (big_Bytes n) v s" and k: "k \<noteq> KList" and n: "n < 2 ^ bits"
    and bits: "bits \<le> 64" "8 dvd bits"
  shows "\<exists>s'. Stream_uint bits s = (Inr (of_nat n), s') \<and> moved s (length v) s'"
proof -
  let ?c = "big_Bytes n"
  have v: "is_value k ?c v" using f by (simp add: facing_def)
  from facing_Kind [OF f] obtain s1 where s1: "Stream_Kind s = (Inr (k, ahead_size k ?c), s1)"
    "consumed s (head_length k ?c v) s1" "k = KByte \<Longrightarrow> st_byteval s1 = hd ?c"
    "k \<noteq> KByte \<Longrightarrow> has_room s1 (length ?c) \<and> take (length ?c) (st_r s1) = ?c
      \<and> unat (ahead_size k ?c) = length ?c" by blast
  have n64: "n < 2 ^ 64" using n bits(1) by (meson less_le_trans one_le_numeral power_increasing)
  show ?thesis
  proof (cases k)
    case KByte
    with v have l: "length ?c = 1" "length v = 1" by auto
    note hn = big_Bytes_single [OF l(1)]
    have "n \<noteq> 0" using l(1) by (cases "n = 0") (simp_all add: big_Bytes.simps [of 0])
    then have "hd ?c \<noteq> 0" using hd_big_Bytes by blast
    moreover have "(ucast (hd ?c) :: u64) = of_nat n"
      using hn n64 by (simp add: word_unat_eq_iff unsigned_ucast_eq unat_of_nat take_bit_eq_mod)
    ultimately show ?thesis
      using s1 KByte l by (simp add: Stream_uint_def moved_def head_length_def)
  next
    case KString
    then have kb: "k \<noteq> KByte" by simp
    note room = s1(4) [OF kb]
    from room have r1: "st_r s1 = ?c @ drop (length ?c) (st_r s1)" by (metis append_take_drop_id)
    have "has_room s1 (length ?c)" using room by blast
    from readUint_big [OF this r1 n64] obtain s2 where
      s2: "readUint (of_nat (length ?c)) s1 = (Inr (of_nat n), s2)" "moved s1 (length ?c) s2" by blast
    obtain j where j: "bits = 8 * j" using bits(2) by (elim dvdE)
    then have "n < 256 ^ j" using n by (simp add: power_mult)
    then have lc: "length ?c \<le> bits div 8" using length_big_Bytes_le j by simp
    have ub: "unat (of_nat (bits div 8) :: u64) = bits div 8"
      using bits(1) by (simp add: unat_of_nat)
    have sz: "\<not> of_nat (bits div 8) < ahead_size k ?c"
      using lc room ub by (simp only: word_less_nat_alt not_less)
    have "length ?c < 256" using lc bits(1) by simp
    then have uc: "ucast (ahead_size k ?c) = (of_nat (length ?c) :: byte)"
      using room by (simp add: word_unat_eq_iff unsigned_ucast_eq unat_of_nat take_bit_eq_mod)
    have "128 \<le> n" if "0 < length ?c"
    proof (cases "length ?c = 1")
      case True
      with v KString have "\<not> hd ?c < 0x80" by simp
      with big_Bytes_single [OF True] show ?thesis by (simp add: word_less_nat_alt)
    next
      case False
      have "\<not> n < 256 ^ 1" using length_big_Bytes_le [of n 1] False that by auto
      then show ?thesis by simp
    qed
    then have big: "\<not> (0 < ahead_size k ?c \<and> (of_nat n :: u64) < 128)"
      using room n64 by (auto simp: word_less_nat_alt unat_of_nat)
    from s1 s2 sz uc big KString consumed_value [OF v kb s1(2) s2(2)] show ?thesis
      by (simp add: Stream_uint_def)
  qed (use k in simp)
qed

lemma head_bytes_eq:
  assumes "n < 2 ^ 64"
  shows "head_bytes 0x80 0xB7 (of_nat n) = rlp_head 0x80 0xB7 n"
    and "head_bytes 0xC0 0xF7 (of_nat n) = rlp_head 0xC0 0xF7 n"
  using bytes.puthead_eq [OF assms, of "0x80" "0xB7" "[]"] bytes.puthead_eq [OF assms, of "0xC0" "0xF7" "[]"]
  by (simp_all add: head_bytes_def BytesAppender_def)

lemma Stream_Raw_value:
  assumes "facing k c v s"
  shows "\<exists>s'. Stream_Raw s = (Inr v, s') \<and> moved s (length v) s'"
proof -
  have v: "is_value k c v" and len: "length v < 2 ^ 64"
    using assms by (simp_all add: facing_def has_room_def)
  from facing_Kind [OF assms] obtain s1 where s1: "Stream_Kind s = (Inr (k, ahead_size k c), s1)"
    "consumed s (head_length k c v) s1" "k = KByte \<Longrightarrow> st_byteval s1 = hd c"
    "k \<noteq> KByte \<Longrightarrow> has_room s1 (length c) \<and> take (length c) (st_r s1) = c
      \<and> unat (ahead_size k c) = length c" by blast
  show ?thesis
  proof (cases "k = KByte")
    case True
    with v obtain b where "c = [b]" "v = [b]" by (cases c) auto
    with s1 True show ?thesis by (simp add: Stream_Raw_def moved_def head_length_def)
  next
    case False
    from readFull_room [of s1 "length c"] s1(4) [OF False] obtain s2 where
      s2: "readFull (length c) s1 = (Inr c, s2)" "moved s1 (length c) s2" by auto
    have "length c < 2 ^ 64" using value_lengths(1) [OF v False] len by simp
    note h = head_bytes_eq [OF this]
    from v False s1 s2 s1(4) [OF False] consumed_value [OF v False s1(2) s2(2)] show ?thesis
      by (cases k) (simp_all add: Stream_Raw_def ahead_size_def h)
  qed
qed

end
