(* ===== verification/Rlp_Types.thy ===== *)
theory Rlp_Types
  imports Rlp_Stream
begin

text \<open>
  Typed RLP: the reflection-driven writers of \<open>rlp/encode.go\<close> (\<open>makeWriter\<close>), the decoders of
  \<open>rlp/decode.go\<close> (\<open>makeDecoder\<close>) and the type information of \<open>rlp/typecache.go\<close>. The Go types the
  dispatch distinguishes are a datatype \<open>gotype\<close>, their values a datatype \<open>gval\<close>; generating
  and running a writer or decoder is one function by recursion over the type. Recursive Go
  types are outside this universe, and so is the cache, which only memoises the generated
  functions. \<open>common.Hash\<close> has its own decoder (\<open>common/types.go\<close>).

  Decoding is into a fresh zero value. A nil and an empty slice are one value. A loop of a decoder
  runs with fuel; \<^const>\<open>None\<close> means that the fuel ran out.
\<close>

section \<open>Types and values\<close>

datatype gotype =
    TRawValue | THash | TBigInt | TUint nat | TBool | TString
  | TSlice gotype | TArray nat gotype | TStruct "gofield list" | TPtr gotype
  | TInterface | TMap gotype gotype | TUnsupported
and gofield = Field string bool string gotype

datatype gval =
    VUint u64 | VInt int | VBool bool | VBytes bytes | VList "gval list" | VStruct "gval list"
  | VPtr "gval option" | VIface "(gotype \<times> gval) option" | VMap "(gval \<times> gval) list" | VOther

record tags =
  nilOK :: bool
  tail :: bool
  ignored :: bool

definition no_tags :: tags where
  "no_tags = \<lparr>nilOK = False, tail = False, ignored = False\<rparr>"

section \<open>Type information\<close>

fun split_comma :: "string \<Rightarrow> string list" where
  "split_comma [] = [[]]"
| "split_comma (c # cs) =
     (if c = CHR '','' then [] # split_comma cs
      else case split_comma cs of [] \<Rightarrow> [[c]] | w # ws \<Rightarrow> (c # w) # ws)"

definition is_space :: "char \<Rightarrow> bool" where
  "is_space c \<longleftrightarrow> c \<in> {CHR '' '', CHR 0x09, CHR 0x0A, CHR 0x0B, CHR 0x0C, CHR 0x0D}"

definition TrimSpace :: "string \<Rightarrow> string" where
  "TrimSpace s = rev (dropWhile is_space (rev (dropWhile is_space s)))"

fun is_slice_kind :: "gotype \<Rightarrow> bool" where
  "is_slice_kind TRawValue = True"
| "is_slice_kind (TSlice _) = True"
| "is_slice_kind _ = False"

fun parse_tags :: "nat \<Rightarrow> nat \<Rightarrow> gotype \<Rightarrow> string list \<Rightarrow> tags \<Rightarrow> rlp_error + tags" where
  "parse_tags n fi t [] ts = Inr ts"
| "parse_tags n fi t (w # ws) ts =
     (let w = TrimSpace w in
      if w = '''' then parse_tags n fi t ws ts
      else if w = ''-'' then parse_tags n fi t ws (ts\<lparr>ignored := True\<rparr>)
      else if w = ''nil'' then parse_tags n fi t ws (ts\<lparr>nilOK := True\<rparr>)
      else if w = ''tail'' then
        (if Suc fi \<noteq> n then Inl (ErrOther ''invalid struct tag: must be on last field'')
         else if \<not> is_slice_kind t then Inl (ErrOther ''invalid struct tag: field type is not slice'')
         else parse_tags n fi t ws (ts\<lparr>tail := True\<rparr>))
      else Inl (ErrOther ''unknown struct tag''))"

definition parseStructTag :: "nat \<Rightarrow> nat \<Rightarrow> gofield \<Rightarrow> rlp_error + tags" where
  "parseStructTag numField fi f =
     (case f of Field _ _ tag t \<Rightarrow> parse_tags numField fi t (split_comma tag) no_tags)"

text \<open>
  \<open>genTypeInfo\<close> fails for a type that is not serializable or has a bad struct tag: \<open>Some (Some err)\<close>;
  in a map type that is a panic, \<^const>\<open>None\<close>. A byte slice or array does not look at its element.
\<close>

fun genTypeInfo :: "gotype \<Rightarrow> rlp_error option option"
  and structFields :: "nat \<Rightarrow> nat \<Rightarrow> gofield list \<Rightarrow> rlp_error option option" where
  "genTypeInfo (TSlice t) = (if t = TUint 8 then Some None else genTypeInfo t)"
| "genTypeInfo (TArray n t) = (if t = TUint 8 then Some None else genTypeInfo t)"
| "genTypeInfo (TStruct fs) = structFields (length fs) 0 fs"
| "genTypeInfo (TPtr t) = genTypeInfo t"
| "genTypeInfo (TMap k v) =
     (case genTypeInfo k of
        Some None \<Rightarrow> (case genTypeInfo v of Some None \<Rightarrow> Some None | _ \<Rightarrow> None)
      | _ \<Rightarrow> None)"
| "genTypeInfo TUnsupported = Some (Some (ErrOther ''type is not RLP-serializable''))"
| "genTypeInfo _ = Some None"
| "structFields n i [] = Some None"
| "structFields n i (Field name exported tag t # fs) =
     (if \<not> exported then structFields n (Suc i) fs
      else case parseStructTag n i (Field name exported tag t) of
          Inl err \<Rightarrow> Some (Some err)
        | Inr ts \<Rightarrow>
            if ignored ts then structFields n (Suc i) fs
            else case genTypeInfo t of
                Some None \<Rightarrow> structFields n (Suc i) fs
              | r \<Rightarrow> r)"

text \<open>\<open>reflect.Zero\<close>.\<close>

fun zero_val :: "gotype \<Rightarrow> gval" and zero_field :: "gofield \<Rightarrow> gval" where
  "zero_val TRawValue = VBytes []"
| "zero_val THash = VBytes (replicate 32 0)"
| "zero_val TBigInt = VInt 0"
| "zero_val (TUint _) = VUint 0"
| "zero_val TBool = VBool False"
| "zero_val TString = VBytes []"
| "zero_val (TSlice t) = (if t = TUint 8 then VBytes [] else VList [])"
| "zero_val (TArray n t) =
     (if t = TUint 8 then VBytes (replicate n 0) else VList (replicate n (zero_val t)))"
| "zero_val (TStruct fs) = VStruct (map zero_field fs)"
| "zero_val (TPtr _) = VPtr None"
| "zero_val TInterface = VIface None"
| "zero_val (TMap _ _) = VMap []"
| "zero_val TUnsupported = VOther"
| "zero_field (Field _ _ _ t) = zero_val t"

section \<open>Writers\<close>

text \<open>A writer panics (\<^const>\<open>None\<close>), returns an error, or the encoder it has written to.\<close>

type_synonym writer = "Encoder \<Rightarrow> (rlp_error + Encoder) option"

definition wlift :: "(Encoder \<Rightarrow> Encoder option) \<Rightarrow> writer" where
  "wlift f e = map_option Inr (f e)"

definition wthen :: "writer \<Rightarrow> writer \<Rightarrow> writer" where
  "wthen f g e =
     (case f e of
        None \<Rightarrow> None
      | Some (Inl err) \<Rightarrow> Some (Inl err)
      | Some (Inr e) \<Rightarrow> g e)"

definition wlist :: "writer \<Rightarrow> writer" where
  "wlist f e =
     (let (list_pos, e) = ListStart e in
      case f e of
        None \<Rightarrow> None
      | Some (Inl err) \<Rightarrow> Some (Inl err)
      | Some (Inr e) \<Rightarrow> map_option Inr (ListEnd list_pos e))"

definition writeBigInt :: "int option \<Rightarrow> writer" where
  "writeBigInt i e =
     (case AppendBigInt i e of
        None \<Rightarrow> None
      | Some (ok, e) \<Rightarrow> Some (if ok then Inr e else Inl (ErrOther ''cannot encode negative *big.Int'')))"

text \<open>
  The type of the value a nil pointer points to decides what is written: an empty string for
  a byte array, an empty list for a struct or another array, otherwise its zero value.
\<close>

definition no_writer :: writer where
  "no_writer e = None"

fun write_nil_ptr :: "gotype \<Rightarrow> writer option" where
  "write_nil_ptr TBigInt = Some (writeBigInt None)"
| "write_nil_ptr THash = Some (wlift (AppendRaw [EmptyString]))"
| "write_nil_ptr (TArray n t) =
     Some (if t = TUint 8 then wlift (AppendRaw [EmptyString]) else wlist (wlift Some))"
| "write_nil_ptr (TStruct _) = Some (wlist (wlift Some))"
| "write_nil_ptr _ = None"

text \<open>The recursion over the value below decreases it, except for a nil pointer, whose flat zero value goes with a smaller type.\<close>

lemma size_zero_val: "write_nil_ptr t = None \<Longrightarrow> size (zero_val t) \<le> size (VPtr None)"
  by (cases t) auto

function write_val :: "gotype \<Rightarrow> tags \<Rightarrow> gval \<Rightarrow> writer"
  and write_elems :: "gotype \<Rightarrow> gval list \<Rightarrow> writer"
  and write_fields :: "nat \<Rightarrow> nat \<Rightarrow> gofield list \<Rightarrow> gval list \<Rightarrow> writer"
  and write_entries :: "gotype \<Rightarrow> gotype \<Rightarrow> (gval \<times> gval) list \<Rightarrow> writer" where
  "write_val t ts (VBytes b) =
     (case t of
        TRawValue \<Rightarrow> wlift (AppendRaw b)
      | TString \<Rightarrow> wlift (AppendString b)
      | THash \<Rightarrow> wlift (AppendString b)
      | TSlice t' \<Rightarrow> if t' = TUint 8 then wlift (AppendString b) else no_writer
      | TArray n t' \<Rightarrow> if t' = TUint 8 then wlift (AppendString b) else no_writer
      | _ \<Rightarrow> no_writer)"
| "write_val t ts (VUint n) = (case t of TUint bits \<Rightarrow> wlift (AppendUint n) | _ \<Rightarrow> no_writer)"
| "write_val t ts (VInt n) = (case t of TBigInt \<Rightarrow> writeBigInt (Some n) | _ \<Rightarrow> no_writer)"
| "write_val t ts (VBool b) =
     (case t of
        TBool \<Rightarrow> wlift (if b then AppendRaw [0x01] else AppendEmptyString)
      | _ \<Rightarrow> no_writer)"
| "write_val t ts (VList vs) =
     (case t of
        TSlice t' \<Rightarrow> if tail ts then write_elems t' vs else wlist (write_elems t' vs)
      | TArray n t' \<Rightarrow> if tail ts then write_elems t' vs else wlist (write_elems t' vs)
      | _ \<Rightarrow> no_writer)"
| "write_val t ts (VStruct vs) =
     (case t of TStruct fs \<Rightarrow> wlist (write_fields (length fs) 0 fs vs) | _ \<Rightarrow> no_writer)"
| "write_val t ts (VPtr p) =
     (case t of
        TPtr t' \<Rightarrow>
          (case p of
             Some v \<Rightarrow> write_val t' no_tags v
           | None \<Rightarrow>
               case write_nil_ptr t' of
                 Some w \<Rightarrow> w
               | None \<Rightarrow> write_val t' no_tags (zero_val t'))
      | _ \<Rightarrow> no_writer)"
| "write_val t ts (VIface i) =
     (case t of
        TInterface \<Rightarrow>
          (case i of
             None \<Rightarrow> wlift (AppendRaw [0xC0])
           | Some (t', v) \<Rightarrow>
               case genTypeInfo t' of
                 None \<Rightarrow> no_writer
               | Some (Some err) \<Rightarrow> (\<lambda>e. Some (Inl err))
               | Some None \<Rightarrow> write_val t' no_tags v)
      | _ \<Rightarrow> no_writer)"
| "write_val t ts (VMap kvs) =
     (case t of TMap kt vt \<Rightarrow> wlist (write_entries kt vt kvs) | _ \<Rightarrow> no_writer)"
| "write_val t ts VOther = no_writer"
| "write_elems t [] = wlift Some"
| "write_elems t (v # vs) = wthen (write_val t no_tags v) (write_elems t vs)"
| "write_fields n i [] vs = (if vs = [] then wlift Some else no_writer)"
| "write_fields n i (f # fs) vs =
     (case f of Field name exported tag t \<Rightarrow>
        case vs of
          [] \<Rightarrow> no_writer
        | v # vs \<Rightarrow>
            if \<not> exported then write_fields n (Suc i) fs vs
            else case parseStructTag n i f of
                Inl err \<Rightarrow> (\<lambda>e. Some (Inl err))
              | Inr ts \<Rightarrow>
                  if ignored ts then write_fields n (Suc i) fs vs
                  else wthen (write_val t ts v) (write_fields n (Suc i) fs vs))"
| "write_entries kt vt [] = wlift Some"
| "write_entries kt vt (kv # kvs) =
     wthen (wlist (wthen (write_val kt no_tags (fst kv)) (write_val vt no_tags (snd kv))))
       (write_entries kt vt kvs)"
  by pat_completeness auto

termination
  by (relation "measures [
      \<lambda>x. case x of Inl (Inl (t, ts, v)) \<Rightarrow> size v | Inl (Inr (t, vs)) \<Rightarrow> size_list size vs
        | Inr (Inl (n, i, fs, vs)) \<Rightarrow> size_list size vs
        | Inr (Inr (kt, vt, kvs)) \<Rightarrow> size_list (size_prod size size) kvs,
      \<lambda>x. case x of Inl (Inl (t, ts, v)) \<Rightarrow> size t | _ \<Rightarrow> 0]")
    (auto dest: size_zero_val simp: le_less split: prod.splits)

definition AppendAny :: "gotype \<Rightarrow> gval \<Rightarrow> writer" where
  "AppendAny t v =
     (case genTypeInfo t of
        None \<Rightarrow> no_writer
      | Some (Some err) \<Rightarrow> (\<lambda>e. Some (Inl err))
      | Some None \<Rightarrow> write_val t no_tags v)"

definition EncodeToBytes :: "gotype \<Rightarrow> gval \<Rightarrow> (rlp_error + bytes) option" where
  "EncodeToBytes t v =
     (case AppendAny t v Encoder_empty of
        None \<Rightarrow> None
      | Some (Inl err) \<Rightarrow> Some (Inl err)
      | Some (Inr e) \<Rightarrow> map_option Inr (ToBytes (-1) e))"

definition MustEncodeToBytes :: "gotype \<Rightarrow> gval \<Rightarrow> bytes option" where
  "MustEncodeToBytes t v = Option.bind (EncodeToBytes t v) must"

section \<open>Decoders\<close>

type_synonym 'a decoder = "Stream \<Rightarrow> 'a stream_res option"

definition wrapStreamError :: "rlp_error \<Rightarrow> rlp_error" where
  "wrapStreamError err =
     (case err of
        ErrCanonInt \<Rightarrow> decodeError ''non-canonical integer (leading zero bytes)'' []
      | ErrCanonSize \<Rightarrow> decodeError ''non-canonical size information'' []
      | ErrExpectedList \<Rightarrow> decodeError ''expected input list'' []
      | ErrExpectedString \<Rightarrow> decodeError ''expected input string or byte'' []
      | errUintOverflow \<Rightarrow> decodeError ''input string too long'' []
      | errNotAtEOL \<Rightarrow> decodeError ''input list has too many elements'' []
      | _ \<Rightarrow> err)"

definition addErrorContext :: "rlp_error \<Rightarrow> rlp_ctx \<Rightarrow> rlp_error" where
  "addErrorContext err ctx =
     (case err of decodeError msg cs \<Rightarrow> decodeError msg (cs @ [ctx]) | _ \<Rightarrow> err)"

definition wrapped :: "'a stream_res \<Rightarrow> 'a stream_res" where
  "wrapped r = (case r of (Inl err, s) \<Rightarrow> (Inl (wrapStreamError err), s) | _ \<Rightarrow> r)"

definition returning :: "('a \<Rightarrow> 'b) \<Rightarrow> 'a stream_res \<Rightarrow> 'b stream_res" where
  "returning f r = andThen r (\<lambda>x s. (Inr (f x), s))"

definition dthen :: "'a stream_res option \<Rightarrow> ('a \<Rightarrow> Stream \<Rightarrow> 'b stream_res option) \<Rightarrow> 'b stream_res option" where
  "dthen r f =
     (case r of
        None \<Rightarrow> None
      | Some (Inl err, s) \<Rightarrow> Some (Inl err, s)
      | Some (Inr x, s) \<Rightarrow> f x s)"

definition decodeBigInt :: "Stream \<Rightarrow> int stream_res" where
  "decodeBigInt s = andThen (wrapped (Stream_Bytes s)) (\<lambda>b s.
     if b \<noteq> [] \<and> hd b = 0 then (Inl (wrapStreamError ErrCanonInt), s)
     else (Inr (int (big_SetBytes b)), s))"

text \<open>\<open>Hash.DecodeRLP\<close>: at most 32 bytes, padded with zeros on the left.\<close>

definition Hash_DecodeRLP :: "Stream \<Rightarrow> bytes stream_res" where
  "Hash_DecodeRLP s = andThen (Stream_Bytes s) (\<lambda>b s.
     if length b > 32 then (Inl (ErrOther ''too long''), s)
     else (Inr (replicate (32 - length b) 0 @ b), s))"

text \<open>
  \<open>decodeByteArray\<close> ignores the error of \<open>s.Uint\<close>: for the byte 0 that call fails without
  rearming \<open>Kind\<close>, so the stream still remembers the byte.
\<close>

definition decodeByteArray :: "nat \<Rightarrow> Stream \<Rightarrow> bytes stream_res" where
  "decodeByteArray vlen s = andThen (Stream_Kind s) (\<lambda>(kind, sz) s.
     case kind of
       KByte \<Rightarrow>
         if vlen = 0 then (Inl (decodeError ''input string too long'' []), s)
         else if vlen > 1 then (Inl (decodeError ''input string too short'' []), s)
         else (case Stream_Uint s of
                 (Inl _, s) \<Rightarrow> (Inr [0], s)
               | (Inr bv, s) \<Rightarrow> (Inr [ucast bv], s))
     | KString \<Rightarrow>
         if of_nat vlen < sz then (Inl (decodeError ''input string too long'' []), s)
         else if of_nat vlen > sz then (Inl (decodeError ''input string too short'' []), s)
         else andThen (readFull vlen s) (\<lambda>b s.
           if sz = 1 \<and> hd b < 128 then (Inl (wrapStreamError ErrCanonSize), s) else (Inr b, s))
     | KList \<Rightarrow> (Inl (wrapStreamError ErrExpectedString), s))"

fun decodeSliceElems :: "nat \<Rightarrow> 'a decoder \<Rightarrow> nat \<Rightarrow> 'a list \<Rightarrow> 'a list decoder" where
  "decodeSliceElems 0 elemdec i acc s = None"
| "decodeSliceElems (Suc fuel) elemdec i acc s =
     (case elemdec s of
        None \<Rightarrow> None
      | Some (Inl err, s) \<Rightarrow>
          if err = EOL then Some (Inr (rev acc), s)
          else Some (Inl (addErrorContext err (CtxIndex i)), s)
      | Some (Inr v, s) \<Rightarrow> decodeSliceElems fuel elemdec (Suc i) (v # acc) s)"

definition decodeListSlice :: "nat \<Rightarrow> 'a decoder \<Rightarrow> 'a list decoder" where
  "decodeListSlice fuel elemdec s =
     dthen (Some (wrapped (Stream_List s))) (\<lambda>sz s.
       if sz = 0 then Some (returning (\<lambda>_. []) (Stream_ListEnd s))
       else dthen (decodeSliceElems fuel elemdec 0 [] s) (\<lambda>vs s.
         Some (returning (\<lambda>_. vs) (Stream_ListEnd s))))"

fun decodeArrayElems :: "nat \<Rightarrow> 'a decoder \<Rightarrow> nat \<Rightarrow> 'a list \<Rightarrow> 'a list decoder" where
  "decodeArrayElems 0 elemdec i acc s = Some (wrapped (returning (\<lambda>_. rev acc) (Stream_ListEnd s)))"
| "decodeArrayElems (Suc left) elemdec i acc s =
     (case elemdec s of
        None \<Rightarrow> None
      | Some (Inl err, s) \<Rightarrow>
          if err = EOL then Some (Inl (decodeError ''input list has too few elements'' []), s)
          else Some (Inl (addErrorContext err (CtxIndex i)), s)
      | Some (Inr v, s) \<Rightarrow> decodeArrayElems left elemdec (Suc i) (v # acc) s)"

definition decodeListArray :: "nat \<Rightarrow> 'a decoder \<Rightarrow> 'a list decoder" where
  "decodeListArray vlen elemdec s =
     dthen (Some (wrapped (Stream_List s))) (\<lambda>_ s. decodeArrayElems vlen elemdec 0 [] s)"

fun decodeMapEntries :: "nat \<Rightarrow> 'k decoder \<Rightarrow> 'v decoder \<Rightarrow> ('k \<times> 'v) list \<Rightarrow> ('k \<times> 'v) list decoder" where
  "decodeMapEntries 0 kdec vdec acc s = None"
| "decodeMapEntries (Suc fuel) kdec vdec acc s =
     (case Stream_List s of
        (Inl err, s) \<Rightarrow>
          if err = EOL then Some (returning (\<lambda>_. rev acc) (Stream_ListEnd s)) else Some (Inl err, s)
      | (Inr _, s) \<Rightarrow>
          dthen (kdec s) (\<lambda>k s.
            if k \<in> fst ` set acc then Some (Inl (ErrOther ''duplicate key''), s)
            else dthen (vdec s) (\<lambda>v s.
              dthen (Some (Stream_ListEnd s)) (\<lambda>_ s. decodeMapEntries fuel kdec vdec ((k, v) # acc) s))))"

definition decodeMap :: "nat \<Rightarrow> 'k decoder \<Rightarrow> 'v decoder \<Rightarrow> ('k \<times> 'v) list decoder" where
  "decodeMap fuel kdec vdec s = dthen (Some (Stream_List s)) (\<lambda>_ s. decodeMapEntries fuel kdec vdec [] s)"

fun decodeInterface :: "nat \<Rightarrow> gval decoder" where
  "decodeInterface 0 s = None"
| "decodeInterface (Suc fuel) s =
     dthen (Some (Stream_Kind s)) (\<lambda>(kind, _) s.
       if kind = KList then
         dthen (decodeListSlice fuel (decodeInterface fuel) s) (\<lambda>vs s.
           Some (Inr (VIface (Some (TSlice TInterface, VList vs))), s))
       else Some (returning (\<lambda>b. VIface (Some (TSlice (TUint 8), VBytes b))) (Stream_Bytes s)))"

text \<open>
  \<open>decode\<close> is \<open>makeDecoder\<close> applied. \<open>decode_fields\<close> is the loop of \<open>makeStructDecoder\<close>; fields that
  are not exported or are ignored keep their zero value.
\<close>

fun decode :: "nat \<Rightarrow> gotype \<Rightarrow> tags \<Rightarrow> gval decoder"
  and decode_fields :: "nat \<Rightarrow> nat \<Rightarrow> nat \<Rightarrow> gofield list \<Rightarrow> gval list \<Rightarrow> gval list decoder" where
  "decode fuel TRawValue ts s = Some (returning VBytes (Stream_Raw s))"
| "decode fuel THash ts s = Some (returning VBytes (Hash_DecodeRLP s))"
| "decode fuel TBigInt ts s = Some (returning VInt (decodeBigInt s))"
| "decode fuel (TUint bits) ts s = Some (returning VUint (wrapped (Stream_uint bits s)))"
| "decode fuel TBool ts s = Some (returning VBool (wrapped (Stream_Bool s)))"
| "decode fuel TString ts s = Some (returning VBytes (wrapped (Stream_Bytes s)))"
| "decode fuel (TSlice t) ts s =
     (if t = TUint 8 then Some (returning VBytes (wrapped (Stream_Bytes s)))
      else dthen (if tail ts then decodeSliceElems fuel (decode fuel t no_tags) 0 [] s
                  else decodeListSlice fuel (decode fuel t no_tags) s)
             (\<lambda>vs s. Some (Inr (VList vs), s)))"
| "decode fuel (TArray n t) ts s =
     (if t = TUint 8 then Some (returning VBytes (decodeByteArray n s))
      else dthen (decodeListArray n (decode fuel t no_tags) s) (\<lambda>vs s. Some (Inr (VList vs), s)))"
| "decode fuel (TStruct fs) ts s =
     dthen (Some (wrapped (Stream_List s))) (\<lambda>_ s.
       dthen (decode_fields fuel (length fs) 0 fs [] s) (\<lambda>vs s. Some (Inr (VStruct vs), s)))"
| "decode fuel (TPtr t) ts s =
     (if t = TBigInt \<or> t = THash \<or> \<not> nilOK ts
      then dthen (decode fuel t no_tags s) (\<lambda>v s. Some (Inr (VPtr (Some v)), s))
      else
        (case Stream_Kind s of
           (Inl err, s) \<Rightarrow> Some (Inl err, s\<lparr>st_kind := None\<rparr>)
         | (Inr (kind, sz), s) \<Rightarrow>
             if sz = 0 \<and> kind \<noteq> KByte then Some (Inr (VPtr None), s\<lparr>st_kind := None\<rparr>)
             else dthen (decode fuel t no_tags s) (\<lambda>v s. Some (Inr (VPtr (Some v)), s))))"
| "decode fuel TInterface ts s = decodeInterface fuel s"
| "decode fuel (TMap kt vt) ts s =
     dthen (decodeMap fuel (decode fuel kt no_tags) (decode fuel vt no_tags) s)
       (\<lambda>kvs s. Some (Inr (VMap kvs), s))"
| "decode fuel TUnsupported ts s = Some (Inl (ErrOther ''type is not RLP-serializable''), s)"
| "decode_fields fuel n i [] acc s = Some (wrapped (returning (\<lambda>_. rev acc) (Stream_ListEnd s)))"
| "decode_fields fuel n i (Field name exported tag t # fs) acc s =
     (if \<not> exported then decode_fields fuel n (Suc i) fs (zero_val t # acc) s
      else case parseStructTag n i (Field name exported tag t) of
          Inl err \<Rightarrow> Some (Inl err, s)
        | Inr ts \<Rightarrow>
            if ignored ts then decode_fields fuel n (Suc i) fs (zero_val t # acc) s
            else
              (case decode fuel t ts s of
                 None \<Rightarrow> None
               | Some (Inl err, s) \<Rightarrow>
                   if err = EOL then Some (Inl (decodeError ''too few elements'' []), s)
                   else Some (Inl (addErrorContext err (CtxField name)), s)
               | Some (Inr v, s) \<Rightarrow> decode_fields fuel n (Suc i) fs (v # acc) s))"

text \<open>
  \<open>Stream.Decode\<close> with a non-nil pointer to a value of type \<open>t\<close>, and \<open>DecodeBytes\<close>; the outer
  option is the fuel, the inner one the panic of \<open>genTypeInfo\<close>.
\<close>

definition Stream_Decode :: "nat \<Rightarrow> gotype \<Rightarrow> Stream \<Rightarrow> gval stream_res option option" where
  "Stream_Decode fuel t s =
     (case genTypeInfo t of
        None \<Rightarrow> Some None
      | Some (Some err) \<Rightarrow> Some (Some (Inl err, s))
      | Some None \<Rightarrow>
          (case decode fuel t no_tags s of
             None \<Rightarrow> None
           | Some (Inl (decodeError msg (c # cs)), s) \<Rightarrow>
               Some (Some (Inl (decodeError msg ((c # cs) @ [CtxTarget])), s))
           | Some r \<Rightarrow> Some (Some r)))"

definition DecodeBytes :: "nat \<Rightarrow> bytes \<Rightarrow> gotype \<Rightarrow> (rlp_error + gval) option option" where
  "DecodeBytes fuel b t =
     (case Stream_Decode fuel t (NewStream b (of_nat (length b)) True) of
        None \<Rightarrow> None
      | Some None \<Rightarrow> Some None
      | Some (Some (Inl err, s)) \<Rightarrow> Some (Some (Inl err))
      | Some (Some (Inr v, s)) \<Rightarrow>
          Some (Some (if st_r s \<noteq> [] then Inl ErrMoreThanOneValue else Inr v)))"

end
