(* ===== verification/Rlp_Roundtrip.thy ===== *)
theory Rlp_Roundtrip
  imports Rlp_Types
begin

text \<open>
  The typed encoder and decoder against one specification: \<open>repr t ts v b\<close> says that \<open>b\<close> is the
  RLP of the value \<open>v\<close> of type \<open>t\<close>. Where it holds, the writers produce \<open>b\<close> and the decoders,
  given \<open>b\<close>, return \<open>v\<close>. The last section shows inputs outside the specification that the
  decoders accept, or on which they do not return.
\<close>

section \<open>The specification\<close>

definition wrap :: "bytes \<Rightarrow> bytes" where
  "wrap body = rlp_head 0xC0 0xF7 (length body) @ body"

inductive repr :: "gotype \<Rightarrow> tags \<Rightarrow> gval \<Rightarrow> bytes \<Rightarrow> bool"
  and repr_elems :: "gotype \<Rightarrow> gval list \<Rightarrow> bytes \<Rightarrow> bool"
  and repr_fields :: "nat \<Rightarrow> nat \<Rightarrow> gofield list \<Rightarrow> gval list \<Rightarrow> bytes \<Rightarrow> bool"
  and repr_entries :: "gotype \<Rightarrow> gotype \<Rightarrow> (gval \<times> gval) list \<Rightarrow> bytes \<Rightarrow> bool" where
  raw: "is_value k c b \<Longrightarrow> repr TRawValue ts (VBytes b) b"
| hash: "length h = 32 \<Longrightarrow> repr THash ts (VBytes h) (rlp (RStr h))"
| int: "repr TBigInt ts (VInt (int n)) (rlp (RStr (big_Bytes n)))"
| uint: "bits \<in> {8, 16, 32, 64} \<Longrightarrow> unat n < 2 ^ bits \<Longrightarrow>
    repr (TUint bits) ts (VUint n) (rlp (RStr (big_Bytes (unat n))))"
| bool: "repr TBool ts (VBool x) (rlp (RStr (if x then [1] else [])))"
| string: "repr TString ts (VBytes s) (rlp (RStr s))"
| byte_slice: "repr (TSlice (TUint 8)) ts (VBytes s) (rlp (RStr s))"
| byte_array: "length s = n \<Longrightarrow> s \<noteq> [0] \<Longrightarrow> repr (TArray n (TUint 8)) ts (VBytes s) (rlp (RStr s))"
| slice: "t \<noteq> TUint 8 \<Longrightarrow> \<not> tail ts \<Longrightarrow> repr_elems t vs body \<Longrightarrow>
    repr (TSlice t) ts (VList vs) (wrap body)"
| array: "t \<noteq> TUint 8 \<Longrightarrow> \<not> tail ts \<Longrightarrow> length vs = n \<Longrightarrow> repr_elems t vs body \<Longrightarrow>
    repr (TArray n t) ts (VList vs) (wrap body)"
| struct: "repr_fields (length fs) 0 fs vs body \<Longrightarrow> repr (TStruct fs) ts (VStruct vs) (wrap body)"
| ptr: "repr t no_tags v b \<Longrightarrow> (nilOK ts \<Longrightarrow> t = TBigInt \<or> t = THash \<or> b \<notin> {[0x80], [0xC0]}) \<Longrightarrow>
    repr (TPtr t) ts (VPtr (Some v)) b"
| nil_bytes: "nilOK ts \<Longrightarrow> repr (TPtr (TArray n (TUint 8))) ts (VPtr None) [0x80]"
| nil_struct: "nilOK ts \<Longrightarrow> repr (TPtr (TStruct fs)) ts (VPtr None) [0xC0]"
| nil_array: "nilOK ts \<Longrightarrow> t \<noteq> TUint 8 \<Longrightarrow> repr (TPtr (TArray n t)) ts (VPtr None) [0xC0]"
| nil_zero: "nilOK ts \<Longrightarrow> write_nil_ptr t = None \<Longrightarrow> repr t no_tags (zero_val t) b \<Longrightarrow>
    b \<in> {[0x80], [0xC0]} \<Longrightarrow> repr (TPtr t) ts (VPtr None) b"
| dict: "distinct (map fst kvs) \<Longrightarrow> repr_entries kt vt kvs body \<Longrightarrow>
    repr (TMap kt vt) ts (VMap kvs) (wrap body)"
| no_elems: "genTypeInfo t = Some None \<Longrightarrow> repr_elems t [] []"
| elem: "repr t no_tags v b \<Longrightarrow> repr_elems t vs body \<Longrightarrow> repr_elems t (v # vs) (b @ body)"
| no_fields: "repr_fields n i [] [] []"
| hidden_field: "\<not> exported \<Longrightarrow> repr_fields n (Suc i) fs vs body \<Longrightarrow>
    repr_fields n i (Field name exported tag t # fs) (zero_val t # vs) body"
| ignored_field: "exported \<Longrightarrow> parseStructTag n i (Field name exported tag t) = Inr ts \<Longrightarrow> ignored ts \<Longrightarrow>
    repr_fields n (Suc i) fs vs body \<Longrightarrow>
    repr_fields n i (Field name exported tag t # fs) (zero_val t # vs) body"
| field: "exported \<Longrightarrow> parseStructTag n i (Field name exported tag t) = Inr ts \<Longrightarrow> \<not> ignored ts \<Longrightarrow>
    \<not> tail ts \<Longrightarrow> repr t ts v b \<Longrightarrow> repr_fields n (Suc i) fs vs body \<Longrightarrow>
    repr_fields n i (Field name exported tag t # fs) (v # vs) (b @ body)"
| tail_field: "exported \<Longrightarrow> parseStructTag n i (Field name exported tag (TSlice t)) = Inr ts \<Longrightarrow>
    \<not> ignored ts \<Longrightarrow> tail ts \<Longrightarrow> t \<noteq> TUint 8 \<Longrightarrow> repr_elems t vs body \<Longrightarrow>
    repr_fields n i [Field name exported tag (TSlice t)] [VList vs] body"
| no_entries: "repr_entries kt vt [] []"
| entry: "repr kt no_tags k bk \<Longrightarrow> repr vt no_tags v bv \<Longrightarrow> repr_entries kt vt kvs body \<Longrightarrow>
    repr_entries kt vt ((k, v) # kvs) (wrap (bk @ bv) @ body)"

lemma no_tags_simps [simp]: "nilOK no_tags = False" "tail no_tags = False" "ignored no_tags = False"
  by (simp_all add: no_tags_def)

lemma wrap_is_value: "is_value KList body (wrap body)"
  by (simp add: wrap_def)

lemma RStr_is_value: "\<exists>k. k \<noteq> KList \<and> is_value k s (rlp (RStr s))"
  by (metis item_kind.simps(1) item_content.simps(1) item_is_value Kind.distinct(3,5))

lemma nil_is_value: "is_value KString [] [0x80]" "is_value KList [] [0xC0]"
  by (simp_all add: rlp_head_def)

section \<open>Writers\<close>

definition wwrites :: "writer \<Rightarrow> bytes \<Rightarrow> bool" where
  "wwrites w b \<longleftrightarrow> (\<forall>e. enc_len e + length b < 2 ^ 32 - 1 \<longrightarrow> (\<exists>e'. w e = Some (Inr e') \<and> wrote e b e'))"

lemma wwrites_lift [intro]: "writes f b \<Longrightarrow> wwrites (wlift f) b"
  unfolding writes_def wwrites_def wlift_def by fastforce

lemma wwrites_then:
  assumes "wwrites f a" "wwrites g b"
  shows "wwrites (wthen f g) (a @ b)"
  unfolding wwrites_def
proof (intro allI impI)
  fix e assume fit: "enc_len e + length (a @ b) < 2 ^ 32 - 1"
  then have "enc_len e + length a < 2 ^ 32 - 1" by simp
  then obtain e1 where 1: "f e = Some (Inr e1)" "wrote e a e1"
    using assms(1) unfolding wwrites_def by blast
  moreover have "enc_len e1 + length b < 2 ^ 32 - 1"
    using fit wrote_enc_len [OF 1(2)] by simp
  then obtain e2 where "g e1 = Some (Inr e2)" "wrote e1 b e2"
    using assms(2) unfolding wwrites_def by blast
  ultimately show "\<exists>e'. wthen f g e = Some (Inr e') \<and> wrote e (a @ b) e'"
    using wrote_trans by (fastforce simp: wthen_def)
qed

lemma wwrites_list:
  assumes "wwrites f b"
  shows "wwrites (wlist f) (wrap b)"
  unfolding wwrites_def wrap_def
proof (intro allI impI)
  fix e assume fit: "enc_len e + length (rlp_head 0xC0 0xF7 (length b) @ b) < 2 ^ 32 - 1"
  obtain pos e0 where start: "ListStart e = (pos, e0)" by (cases "ListStart e")
  then have "enc_len e0 + length b < 2 ^ 32 - 1" using fit ListStart_enc_len [of e] by simp
  then obtain e1 where 1: "f e0 = Some (Inr e1)" "wrote e0 b e1" using assms unfolding wwrites_def by blast
  have "enc_len e + length (rlp_head 0xC0 0xF7 (length b) @ b) < 2 ^ 32" using fit by linarith
  from wrote_list [OF start 1(2) this] 1(1) start
  show "\<exists>e'. wlist f e = Some (Inr e') \<and> wrote e (rlp_head 0xC0 0xF7 (length b) @ b) e'"
    by (auto simp: wlist_def)
qed

lemma wwrites_big: "wwrites (writeBigInt (Some (int n))) (rlp (RStr (big_Bytes n)))"
  unfolding wwrites_def writeBigInt_def
proof (intro allI impI)
  fix e assume "enc_len e + length (rlp (RStr (big_Bytes n))) < 2 ^ 32 - 1"
  from AppendBigInt_wrote [OF this] show "\<exists>e'. (case AppendBigInt (Some (int n)) e of None \<Rightarrow> None
      | Some (ok, e) \<Rightarrow> Some (if ok then Inr e else Inl (ErrOther ''cannot encode negative *big.Int'')))
      = Some (Inr e') \<and> wrote e (rlp (RStr (big_Bytes n))) e'" by auto
qed

lemma wrap_Nil: "wrap [] = [0xC0]"
  by (simp add: wrap_def rlp_head_def)

lemma wwrites_empty_list: "wwrites (wlist (wlift Some)) [0xC0]"
  using wwrites_list [OF wwrites_lift [OF writes_Some]] by (simp only: wrap_Nil)

lemma wwrites_then_Some: "wwrites f a \<Longrightarrow> wwrites (wthen f (wlift Some)) a"
  using wwrites_then [OF _ wwrites_lift [OF writes_Some]] by fastforce

lemma wwrites_bool: "wwrites (wlift (if x then AppendRaw [1] else AppendEmptyString)) (rlp (RStr (if x then [1] else [])))"
  using writes_AppendRaw [of "[1]"] writes_AppendEmptyString by (cases x) (auto simp: rlp_head_def)

lemma write_repr:
  "repr t ts v b \<Longrightarrow> wwrites (write_val t ts v) b"
  "repr_elems t vs b \<Longrightarrow> wwrites (write_elems t vs) b"
  "repr_fields n i fs vs b \<Longrightarrow> wwrites (write_fields n i fs vs) b"
  "repr_entries kt vt kvs b \<Longrightarrow> wwrites (write_entries kt vt kvs) b"
proof (induction rule: repr_repr_elems_repr_fields_repr_entries.inducts)
  case (entry kt k bk vt v bv kvs body)
  then show ?case by (simp add: wwrites_then wwrites_list)
qed (auto simp del: rlp.simps simp: wwrites_list wwrites_then wwrites_big wwrites_bool
    wwrites_empty_list wwrites_then_Some EmptyString_def)

section \<open>Decoders\<close>

lemma repr_is_value:
  "repr t ts v b \<Longrightarrow> \<exists>k c. is_value k c b"
  "repr_elems t vs b' \<Longrightarrow> True" "repr_fields n i fs vs' b' \<Longrightarrow> True" "repr_entries kt vt kvs b' \<Longrightarrow> True"
proof (induction rule: repr_repr_elems_repr_fields_repr_entries.inducts)
qed (use RStr_is_value wrap_is_value nil_is_value in blast)+

text \<open>At the end of a list every decoder of a serializable type reports \<open>EOL\<close>.\<close>

definition at_EOL :: "Stream \<Rightarrow> bool" where
  "at_EOL s \<longleftrightarrow> st_kind s = None \<and> (\<exists>z rest. st_stack s = (z, z) # rest)"

lemma at_EOL_Kind: "at_EOL s \<Longrightarrow> Stream_Kind s = (Inl EOL, s\<lparr>st_kinderr := None\<rparr>)"
  by (auto simp: at_EOL_def Stream_Kind_EOL)

lemma wrapStreamError_EOL [simp]: "wrapStreamError EOL = EOL"
  by (simp add: wrapStreamError_def)

lemma wrapped_simps [simp]:
  "wrapped (Inr x, s) = (Inr x, s)" "wrapped (Inl err, s) = (Inl (wrapStreamError err), s)"
  by (simp_all add: wrapped_def)

lemma returning_simps [simp]:
  "returning f (Inr x, s) = (Inr (f x), s)" "returning f (Inl err, s) = (Inl err, s)"
  by (simp_all add: returning_def)

lemma dthen_simps [simp]:
  "dthen (Some (Inr x, s)) g = g x s" "dthen (Some (Inl err, s)) g = Some (Inl err, s)" "dthen None g = None"
  by (simp_all add: dthen_def)

lemma decode_EOL:
  assumes "at_EOL s" "genTypeInfo t = Some None" "0 < fuel" "\<not> tail ts" "\<not> nilOK ts"
  shows "decode fuel t ts s = Some (Inl EOL, s\<lparr>st_kinderr := None\<rparr>)"
  using assms(2,4,5)
proof (induction t arbitrary: ts rule: measure_induct_rule [of size])
  case (less t)
  from assms(3) obtain n where "fuel = Suc n" by (cases fuel) auto
  with less assms(1) show ?case
    by (cases t) (auto simp: at_EOL_Kind Stream_Raw_def Hash_DecodeRLP_def decodeBigInt_def
      Stream_uint_def Stream_Bool_def Stream_Bytes_def Stream_List_def decodeListSlice_def
      decodeByteArray_def decodeListArray_def decodeMap_def)
qed

text \<open>The bytes \<open>body\<close> are next and end the innermost list.\<close>

definition body_at :: "bytes \<Rightarrow> Stream \<Rightarrow> bool" where
  "body_at body s \<longleftrightarrow> st_kind s = None \<and> take (length body) (st_r s) = body \<and> has_room s (length body)
     \<and> (\<exists>pos sz rest. st_stack s = (pos, sz) # rest \<and> unat pos + length body = unat sz)"

lemma body_at_Nil: "body_at [] s \<Longrightarrow> at_EOL s"
  by (auto simp: body_at_def at_EOL_def word_unat_eq_iff)

lemma body_at_facing:
  assumes "body_at (b @ body) s" "is_value k c b"
  shows "facing k c b s"
proof -
  have "take (length b) (take (length b + length body) (st_r s)) = b"
    using assms(1) by (simp add: body_at_def)
  then have "take (length b) (st_r s) = b" by simp
  with assms show ?thesis by (auto simp: body_at_def facing_def elim: has_room_le)
qed

lemma body_at_moved:
  assumes "body_at (b @ body) s" "moved s (length b) s1"
  shows "body_at body s1"
proof -
  from assms(1) obtain pos sz rest where st: "st_stack s = (pos, sz) # rest"
    "unat pos + length (b @ body) = unat sz" by (auto simp: body_at_def)
  have c: "consumed s (length b) s1" "st_kind s1 = None" using assms(2) by (simp_all add: moved_def)
  have room: "has_room s (length b + length body)" using assms(1) by (simp add: body_at_def)
  have "take (length b + length body) (st_r s) = b @ body" using assms(1) by (simp add: body_at_def)
  then have "take (length body) (drop (length b) (st_r s)) = body"
    by (metis append_eq_conv_conj drop_take add_diff_cancel_left')
  moreover have "unat (pos + of_nat (length b)) = unat pos + length b"
    using st(2) by (intro unat_add_of_nat [where z = sz]) simp
  ultimately show ?thesis
    using c st has_room_consumed [OF room c(1)] by (auto simp: body_at_def consumed_def)
qed

lemma Stream_List_body:
  assumes "facing KList body v s"
  shows "\<exists>s1. Stream_List s = (Inr (of_nat (length body)), s1) \<and> body_at body s1
    \<and> (\<forall>s2. moved s1 (length body) s2 \<longrightarrow> (\<exists>s3. Stream_ListEnd s2 = (Inr (), s3) \<and> moved s (length v) s3))"
proof -
  let ?h = "length v - length body"
  have len: "?h + length body = length v" "length body < 2 ^ 64"
    using assms by (auto simp: facing_def has_room_def)
  from Stream_List_value [OF assms] obtain s1 where s1: "Stream_List s = (Inr (of_nat (length body)), s1)"
    "st_kind s1 = None" "st_r s1 = drop ?h (st_r s)" "take (length body) (st_r s1) = body"
    "st_limited s1 = st_limited s" "st_limited s \<longrightarrow> st_remaining s1 = st_remaining s - of_nat ?h"
    "st_stack s1 = (0, of_nat (length body)) # (case st_stack s of [] \<Rightarrow> []
        | (pos, sz) # rest \<Rightarrow> (pos + of_nat ?h, sz) # rest)" "has_room s1 (length body)" by blast
  have "body_at body s1" using s1 len(2) by (simp add: body_at_def unat_of_nat)
  moreover have "\<exists>s3. Stream_ListEnd s2 = (Inr (), s3) \<and> moved s (length v) s3"
    if m: "moved s1 (length body) s2" for s2
  proof -
    have v: "(word_of_nat (length v) :: u64) = of_nat ?h + of_nat (length body)"
      using len(1) by (metis of_nat_add)
    define up where "up = (case st_stack s of [] \<Rightarrow> [] | (pos, sz) # rest \<Rightarrow> (pos + of_nat ?h, sz) # rest)"
    have m2: "st_r s2 = drop (length body) (st_r s1)" "st_limited s2 = st_limited s"
      "st_limited s \<Longrightarrow> st_remaining s2 = st_remaining s1 - of_nat (length body)"
      "st_stack s2 = (of_nat (length body), of_nat (length body)) # up"
      using m s1(5,7) by (simp_all add: moved_def consumed_def up_def)
    let ?s3 = "s2\<lparr>st_stack := (case up of [] \<Rightarrow> [] | (p, y) # r \<Rightarrow> (p + of_nat (length body), y) # r),
      st_kind := None, st_size := 0\<rparr>"
    have "st_r s2 = drop (length v) (st_r s)" using m2(1) s1(3) len(1) by (simp add: add.commute)
    moreover have "st_remaining s2 = st_remaining s - of_nat (length v)" if "st_limited s"
      using m2(3) s1(6) that by (simp add: v)
    moreover have "(case up of [] \<Rightarrow> [] | (p, y) # r \<Rightarrow> (p + of_nat (length body), y) # r)
        = (case st_stack s of [] \<Rightarrow> [] | (pos, sz) # rest \<Rightarrow> (pos + of_nat (length v), sz) # rest)"
      by (simp add: up_def v split: list.splits)
    ultimately have "moved s (length v) ?s3" using m2(2) by (simp add: moved_def consumed_def)
    then show ?thesis using Stream_ListEnd_value [OF m2(4)] by blast
  qed
  ultimately show ?thesis using s1(1) by blast
qed

definition reads :: "'a decoder \<Rightarrow> 'a \<Rightarrow> bytes \<Rightarrow> bool" where
  "reads dec v b \<longleftrightarrow> (\<exists>k c. is_value k c b) \<and>
     (\<forall>k c s. facing k c b s \<longrightarrow> (\<exists>s'. dec s = Some (Inr v, s') \<and> moved s (length b) s'))"

lemma reads_body:
  assumes "reads dec v b" "body_at (b @ body) s"
  shows "\<exists>s'. dec s = Some (Inr v, s') \<and> moved s (length b) s' \<and> body_at body s'"
  using assms body_at_facing body_at_moved unfolding reads_def by metis

lemma moved_trans: "moved s a s1 \<Longrightarrow> moved s1 b s2 \<Longrightarrow> moved s (a + b) s2"
  using consumed_trans unfolding moved_def by blast

lemma is_value_length: "is_value k c v \<Longrightarrow> 0 < length v"
  using is_value_nonempty by blast

lemma decodeSliceElems_reads:
  assumes "list_all2 (reads dec) vs bs" "body_at (concat bs) s" "length (concat bs) < fuel"
    and eol: "\<forall>s. at_EOL s \<longrightarrow> dec s = Some (Inl EOL, s\<lparr>st_kinderr := None\<rparr>)"
  shows "\<exists>s'. decodeSliceElems fuel dec i acc s = Some (Inr (rev acc @ vs), s')
    \<and> moved s (length (concat bs)) s'"
  using assms(1-3)
proof (induction vs bs arbitrary: s fuel i acc rule: list_all2_induct)
  case Nil
  then obtain n where "fuel = Suc n" by (cases fuel) auto
  moreover have "at_EOL s" using Nil body_at_Nil by simp
  ultimately show ?case using eol by (auto simp: moved_def at_EOL_def)
next
  case (Cons v vs b bs)
  then obtain n where n: "fuel = Suc n" by (cases fuel) auto
  have "body_at (b @ concat bs) s" using Cons.prems by simp
  from reads_body [OF Cons.hyps(1) this] obtain s1 where
    s1: "dec s = Some (Inr v, s1)" "moved s (length b) s1" "body_at (concat bs) s1" by blast
  have "0 < length b" using Cons.hyps(1) is_value_length unfolding reads_def by blast
  then have "length (concat bs) < n" using Cons.prems(2) n by (simp only: concat.simps length_append)
  from Cons.IH [OF s1(3) this, of "Suc i" "v # acc"] s1 n show ?case
    using moved_trans [OF s1(2)] by auto
qed

lemma decodeArrayElems_reads:
  assumes "list_all2 (reads dec) vs bs" "body_at (concat bs) s"
    and fin: "\<forall>s2. moved s (length (concat bs)) s2 \<longrightarrow> (\<exists>s3. Stream_ListEnd s2 = (Inr (), s3) \<and> P s3)"
  shows "\<exists>s'. decodeArrayElems (length vs) dec i acc s = Some (Inr (rev acc @ vs), s') \<and> P s'"
  using assms
proof (induction vs bs arbitrary: s i acc rule: list_all2_induct)
  case Nil
  have "moved s 0 s" using Nil.prems(1) by (simp add: moved_def body_at_def)
  with Nil.prems(2) show ?case by auto
next
  case (Cons v vs b bs)
  have "body_at (b @ concat bs) s" using Cons.prems by simp
  from reads_body [OF Cons.hyps(1) this] obtain s1 where
    s1: "dec s = Some (Inr v, s1)" "moved s (length b) s1" "body_at (concat bs) s1" by blast
  have "\<forall>s2. moved s1 (length (concat bs)) s2 \<longrightarrow> (\<exists>s3. Stream_ListEnd s2 = (Inr (), s3) \<and> P s3)"
    using Cons.prems(2) moved_trans [OF s1(2)] by simp
  from Cons.IH [OF s1(3) this, of "Suc i" "v # acc"] s1 show ?case by simp
qed

section \<open>Decoders of single values\<close>

lemma is_value_unique:
  assumes "is_value k c v" "is_value k' c' v" "length v < 2 ^ 64"
  shows "k = k' \<and> c = c'"
  using Split_value [OF assms(1), of "[]"] Split_value [OF assms(2), of "[]"] assms(3) by simp

lemma facing_unique: "facing k c v s \<Longrightarrow> is_value k' c' v \<Longrightarrow> k = k' \<and> c = c'"
  by (rule is_value_unique) (auto simp: facing_def has_room_def)

lemma facing_RStr: "facing k c (rlp (RStr x)) s \<Longrightarrow> k \<noteq> KList \<and> c = x"
  using facing_unique RStr_is_value by metis

lemma readsI:
  assumes "is_value k c b" "\<And>s. facing k c b s \<Longrightarrow> \<exists>s'. dec s = Some (Inr v, s') \<and> moved s (length b) s'"
  shows "reads dec v b"
  unfolding reads_def using assms facing_unique by metis

lemma reads_RStrI:
  assumes "\<And>k s. k \<noteq> KList \<Longrightarrow> facing k x (rlp (RStr x)) s \<Longrightarrow>
    \<exists>s'. dec s = Some (Inr v, s') \<and> moved s (length (rlp (RStr x))) s'"
  shows "reads dec v (rlp (RStr x))"
  unfolding reads_def using assms facing_RStr RStr_is_value by metis

lemma reads_raw: "is_value k c b \<Longrightarrow> reads (decode fuel TRawValue ts) (VBytes b) b"
  by (rule readsI) (auto dest: Stream_Raw_value)

lemma reads_bytes: "reads (\<lambda>s. Some (returning f (wrapped (Stream_Bytes s)))) (f x) (rlp (RStr x))"
  by (rule reads_RStrI, drule Stream_Bytes_value) (auto simp del: rlp.simps)

lemma reads_hash: "length h = 32 \<Longrightarrow> reads (decode fuel THash ts) (VBytes h) (rlp (RStr h))"
  by (rule reads_RStrI, drule Stream_Bytes_value) (auto simp: Hash_DecodeRLP_def simp del: rlp.simps)

lemma reads_int: "reads (decode fuel TBigInt ts) (VInt (int n)) (rlp (RStr (big_Bytes n)))"
proof (rule reads_RStrI)
  fix k s assume "k \<noteq> KList" "facing k (big_Bytes n) (rlp (RStr (big_Bytes n))) s"
  then obtain s' where "Stream_Bytes s = (Inr (big_Bytes n), s')" "moved s (length (rlp (RStr (big_Bytes n)))) s'"
    using Stream_Bytes_value by blast
  moreover have "\<not> (big_Bytes n \<noteq> [] \<and> hd (big_Bytes n) = 0)"
    using hd_big_Bytes [of n] by (cases "n = 0") (auto simp: big_Bytes.simps [of 0])
  ultimately show "\<exists>s'. decode fuel TBigInt ts s = Some (Inr (VInt (int n)), s')
      \<and> moved s (length (rlp (RStr (big_Bytes n)))) s'"
    by (auto simp: decodeBigInt_def simp del: rlp.simps)
qed

lemma reads_uint:
  assumes "bits \<in> {8, 16, 32, 64}" "unat n < 2 ^ bits"
  shows "reads (decode fuel (TUint bits) ts) (VUint n) (rlp (RStr (big_Bytes (unat n))))"
proof (rule reads_RStrI)
  fix k s assume "k \<noteq> KList" "facing k (big_Bytes (unat n)) (rlp (RStr (big_Bytes (unat n)))) s"
  moreover have "bits \<le> 64" "8 dvd bits" using assms(1) by auto
  ultimately obtain s' where "Stream_uint bits s = (Inr (of_nat (unat n)), s')"
    "moved s (length (rlp (RStr (big_Bytes (unat n))))) s'"
    using Stream_uint_value assms(2) by blast
  then show "\<exists>s'. decode fuel (TUint bits) ts s = Some (Inr (VUint n), s')
      \<and> moved s (length (rlp (RStr (big_Bytes (unat n))))) s'"
    by (auto simp del: rlp.simps)
qed

lemma big_Bytes_1: "big_Bytes 1 = [1]"
  by (simp add: big_Bytes.simps [of "Suc 0"] big_Bytes.simps [of 0])

lemma reads_bool: "reads (decode fuel TBool ts) (VBool x) (rlp (RStr (if x then [1] else [])))"
proof (rule reads_RStrI)
  fix k s assume k: "k \<noteq> KList"
    and f: "facing k (if x then [1] else []) (rlp (RStr (if x then [1] else []))) s"
  have bb: "(if x then [1] else []) = big_Bytes (if x then 1 else 0)"
    by (simp add: big_Bytes_1 [simplified] big_Bytes.simps [of 0])
  have "\<exists>s'. Stream_uint 8 s = (Inr (of_nat (if x then 1 else 0)), s')
      \<and> moved s (length (rlp (RStr (if x then [1] else [])))) s'"
    using f k unfolding bb by (intro Stream_uint_value) (simp_all del: rlp.simps)
  then show "\<exists>s'. decode fuel TBool ts s = Some (Inr (VBool x), s')
      \<and> moved s (length (rlp (RStr (if x then [1] else [])))) s'"
    by (auto simp: Stream_Bool_def simp del: rlp.simps split: if_splits)
qed

lemma ucast_back: "(ucast (ucast b :: u64) :: byte) = b"
  by transfer simp

lemma reads_byte_array:
  assumes "length x = n" "x \<noteq> [0]"
  shows "reads (decode fuel (TArray n (TUint 8)) ts) (VBytes x) (rlp (RStr x))"
proof (rule reads_RStrI)
  fix k s assume k: "k \<noteq> KList" and f: "facing k x (rlp (RStr x)) s"
  let ?v = "rlp (RStr x)"
  have v: "is_value k x ?v" using f by (simp add: facing_def)
  from facing_Kind [OF f] obtain s1 where s1: "Stream_Kind s = (Inr (k, ahead_size k x), s1)"
    "consumed s (head_length k x ?v) s1" "k = KByte \<Longrightarrow> st_byteval s1 = hd x"
    "k \<noteq> KByte \<Longrightarrow> has_room s1 (length x) \<and> take (length x) (st_r s1) = x
      \<and> unat (ahead_size k x) = length x" by blast
  have "\<exists>s'. decodeByteArray n s = (Inr x, s') \<and> moved s (length ?v) s'"
  proof (cases "k = KByte")
    case True
    with v obtain b where b: "x = [b]" "length ?v = 1" by (cases x) auto
    then have "b \<noteq> 0" "n = 1" using assms by auto
    moreover have "Stream_Uint s1 = (Inr (ucast b), s1\<lparr>st_kind := None\<rparr>)"
      using Stream_Kind_idem [OF s1(1)] s1(3) True b \<open>b \<noteq> 0\<close> by (simp add: Stream_Uint_def Stream_uint_def)
    ultimately show ?thesis
      using s1 True b by (simp add: decodeByteArray_def moved_def head_length_def ucast_back del: rlp.simps)
  next
    case False
    with k have ks: "k = KString" by (cases k) auto
    note room = s1(4) [OF False]
    from readFull_room [of s1 n] room assms obtain s2 where
      s2: "readFull n s1 = (Inr x, s2)" "moved s1 (length x) s2" by auto
    have "of_nat n = ahead_size k x" using ks assms by (simp add: ahead_size_def)
    moreover have "\<not> (ahead_size k x = 1 \<and> hd x < 128)"
      using v ks room by (auto simp: word_unat_eq_iff)
    ultimately show ?thesis
      using s1(1) ks s2(1) consumed_value [OF v False s1(2) s2(2)]
      by (auto simp: decodeByteArray_def simp del: rlp.simps)
  qed
  then show "\<exists>s'. decode fuel (TArray n (TUint 8)) ts s = Some (Inr (VBytes x), s') \<and> moved s (length ?v) s'"
    by (auto simp del: rlp.simps)
qed

section \<open>Decoders of composite values\<close>

lemma decode_after_Kind:
  assumes kind: "Stream_Kind s = (Inr x, s1)" and ok: "decode fuel t no_tags s = Some (Inr v, s')"
  shows "decode fuel t no_tags s1 = Some (Inr v, s')"
proof -
  note k = kind Stream_Kind_idem [OF kind]
  have b: "Stream_Bytes s1 = Stream_Bytes s" "Stream_List s1 = Stream_List s" "Stream_Raw s1 = Stream_Raw s"
    "Stream_uint n s1 = Stream_uint n s" "decodeByteArray n s1 = decodeByteArray n s" for n
    by (simp_all only: Stream_Bytes_def Stream_List_def Stream_Raw_def Stream_uint_def decodeByteArray_def k)
  have i: "decodeInterface fuel s1 = decodeInterface fuel s"
    by (cases fuel) (simp_all only: decodeInterface.simps k)
  have "decode fuel t no_tags s1 = decode fuel t no_tags s \<or> (\<exists>err. decode fuel t no_tags s = Some (Inl err, s))"
  proof (induction t rule: measure_induct_rule [of size])
    case (less t)
    show ?case
    proof (cases t)
      case (TPtr t')
      with less [of t'] show ?thesis by auto
    qed (simp_all add: b i Hash_DecodeRLP_def decodeBigInt_def Stream_Bool_def decodeListSlice_def
        decodeListArray_def decodeMap_def)
  qed
  with ok show ?thesis by auto
qed

lemma reads_ptr:
  assumes r: "reads (decode fuel t no_tags) v b"
    and nonempty: "nilOK ts \<Longrightarrow> t = TBigInt \<or> t = THash \<or> b \<notin> {[0x80], [0xC0]}"
  shows "reads (decode fuel (TPtr t) ts) (VPtr (Some v)) b"
proof -
  from r obtain k c where val: "is_value k c b" unfolding reads_def by blast
  show ?thesis
  proof (rule readsI [OF val])
    fix s assume f: "facing k c b s"
    with r obtain s' where s': "decode fuel t no_tags s = Some (Inr v, s')" "moved s (length b) s'"
      unfolding reads_def by blast
    from facing_Kind [OF f] obtain s1 where s1: "Stream_Kind s = (Inr (k, ahead_size k c), s1)"
      "k \<noteq> KByte \<Longrightarrow> unat (ahead_size k c) = length c" by blast
    have "\<not> (ahead_size k c = 0 \<and> k \<noteq> KByte)" if "b \<notin> {[0x80], [0xC0]}"
      using that s1(2) val by (cases k) (auto simp: rlp_head_def)
    then show "\<exists>s'. decode fuel (TPtr t) ts s = Some (Inr (VPtr (Some v)), s') \<and> moved s (length b) s'"
      using s' s1(1) nonempty decode_after_Kind [OF s1(1) s'(1)] by auto
  qed
qed

lemma reads_nil:
  assumes "b \<in> {[0x80], [0xC0]}" "nilOK ts" "t \<noteq> TBigInt" "t \<noteq> THash"
  shows "reads (decode fuel (TPtr t) ts) (VPtr None) b"
proof -
  from assms(1) obtain k where k: "is_value k [] b" "k \<noteq> KByte" using nil_is_value by blast
  show ?thesis
  proof (rule readsI [OF k(1)])
    fix s assume f: "facing k [] b s"
    from facing_Kind [OF f] k(2) obtain s1 where s1: "Stream_Kind s = (Inr (k, 0), s1)"
      "consumed s (head_length k [] b) s1" by (auto simp: ahead_size_def)
    moreover have "head_length k [] b = length b" using k(2) by (simp add: head_length_def)
    ultimately show "\<exists>s'. decode fuel (TPtr t) ts s = Some (Inr (VPtr None), s') \<and> moved s (length b) s'"
      using assms k(2) by (simp add: moved_def)
  qed
qed

lemma length_wrap: "length body < length (wrap body)"
  by (simp add: wrap_def rlp_head_def)

lemma reads_slice:
  assumes "list_all2 (reads dec) vs bs" "length (wrap (concat bs)) < fuel"
    and eol: "\<forall>s. at_EOL s \<longrightarrow> dec s = Some (Inl EOL, s\<lparr>st_kinderr := None\<rparr>)"
  shows "reads (decodeListSlice fuel dec) vs (wrap (concat bs))"
proof (rule readsI [OF wrap_is_value])
  fix s assume f: "facing KList (concat bs) (wrap (concat bs)) s"
  let ?body = "concat bs"
  from Stream_List_body [OF f] obtain s1 where s1: "Stream_List s = (Inr (of_nat (length ?body)), s1)"
    "body_at ?body s1" "\<forall>s2. moved s1 (length ?body) s2 \<longrightarrow>
      (\<exists>s3. Stream_ListEnd s2 = (Inr (), s3) \<and> moved s (length (wrap ?body)) s3)" by blast
  have len: "length ?body < 2 ^ 64" using s1(2) by (simp add: body_at_def has_room_def)
  show "\<exists>s'. decodeListSlice fuel dec s = Some (Inr vs, s') \<and> moved s (length (wrap ?body)) s'"
  proof (cases "?body = []")
    case True
    have "bs = []"
      using assms(1) True is_value_length by (cases bs) (auto simp: reads_def list_all2_Cons2)
    moreover have "moved s1 0 s1" using s1(2) by (simp add: moved_def body_at_def)
    ultimately show ?thesis using s1 assms(1) by (auto simp: decodeListSlice_def)
  next
    case False
    then have n0: "(word_of_nat (length ?body) :: u64) \<noteq> 0"
      using len by (simp add: word_unat_eq_iff unat_of_nat)
    have "length ?body < fuel" using assms(2) length_wrap [of ?body] by simp
    from decodeSliceElems_reads [OF assms(1) s1(2) this eol, of 0 "[]"] obtain s2 where
      "decodeSliceElems fuel dec 0 [] s1 = Some (Inr vs, s2)" "moved s1 (length ?body) s2" by auto
    with s1 n0 show ?thesis by (auto simp: decodeListSlice_def)
  qed
qed

lemma reads_array:
  assumes "list_all2 (reads dec) vs bs" "length vs = n"
  shows "reads (decodeListArray n dec) vs (wrap (concat bs))"
proof (rule readsI [OF wrap_is_value])
  fix s assume f: "facing KList (concat bs) (wrap (concat bs)) s"
  let ?body = "concat bs"
  from Stream_List_body [OF f] obtain s1 where s1: "Stream_List s = (Inr (of_nat (length ?body)), s1)"
    "body_at ?body s1" "\<forall>s2. moved s1 (length ?body) s2 \<longrightarrow>
      (\<exists>s3. Stream_ListEnd s2 = (Inr (), s3) \<and> moved s (length (wrap ?body)) s3)" by blast
  from decodeArrayElems_reads [OF assms(1) s1(2,3), of 0 "[]"] assms(2) s1(1)
  show "\<exists>s'. decodeListArray n dec s = Some (Inr vs, s') \<and> moved s (length (wrap ?body)) s'"
    by (auto simp: decodeListArray_def)
qed

lemma decode_fields_reads:
  assumes r: "reads (decode fuel t ts) v b" and b: "body_at (b @ body) s"
    and parse: "parseStructTag n i (Field name True tag t) = Inr ts" "\<not> ignored ts"
  shows "\<exists>s1. decode_fields fuel n i (Field name True tag t # fs) acc s
      = decode_fields fuel n (Suc i) fs (v # acc) s1 \<and> moved s (length b) s1 \<and> body_at body s1"
  using reads_body [OF r b] parse by auto

lemma decodeMapEntries_reads:
  assumes k: "reads kdec k bk" and v: "reads vdec v bv" and fresh: "k \<notin> fst ` set acc"
    and b: "body_at (wrap (bk @ bv) @ body) s"
  shows "\<exists>s1. decodeMapEntries (Suc lf) kdec vdec acc s = decodeMapEntries lf kdec vdec ((k, v) # acc) s1
    \<and> moved s (length (wrap (bk @ bv))) s1 \<and> body_at body s1"
proof -
  have f: "facing KList (bk @ bv) (wrap (bk @ bv)) s" using b wrap_is_value by (rule body_at_facing)
  from Stream_List_body [OF f] obtain s1 where s1: "Stream_List s = (Inr (of_nat (length (bk @ bv))), s1)"
    "body_at (bk @ bv) s1" "\<forall>s2. moved s1 (length (bk @ bv)) s2 \<longrightarrow>
      (\<exists>s3. Stream_ListEnd s2 = (Inr (), s3) \<and> moved s (length (wrap (bk @ bv))) s3)" by blast
  from reads_body [OF k s1(2)] obtain s2 where s2: "kdec s1 = Some (Inr k, s2)"
    "moved s1 (length bk) s2" "body_at bv s2" by blast
  from reads_body [OF v, of "[]" s2] s2(3) obtain s3 where s3: "vdec s2 = Some (Inr v, s3)"
    "moved s2 (length bv) s3" by auto
  have "moved s1 (length (bk @ bv)) s3" using moved_trans [OF s2(2) s3(2)] by simp
  with s1(3) obtain s4 where s4: "Stream_ListEnd s3 = (Inr (), s4)" "moved s (length (wrap (bk @ bv))) s4"
    by blast
  have "body_at body s4" using b s4(2) by (rule body_at_moved)
  with s1(1) s2(1) s3(1) s4 fresh show ?thesis by auto
qed

lemma reads_map:
  "reads dec v b \<Longrightarrow> reads (\<lambda>s. dthen (dec s) (\<lambda>x s. Some (Inr (f x), s))) (f v) b"
  unfolding reads_def by fastforce

lemma decode_repr:
  "repr t ts v b \<Longrightarrow> length b < fuel \<Longrightarrow> reads (decode fuel t ts) v b"
  "repr_elems t vs body \<Longrightarrow> length body < fuel \<Longrightarrow> genTypeInfo t = Some None
    \<and> (\<exists>bs. body = concat bs \<and> list_all2 (reads (decode fuel t no_tags)) vs bs)"
  "repr_fields n i fs vs body \<Longrightarrow> length body < fuel \<Longrightarrow> (\<And>s acc P. body_at body s \<Longrightarrow>
    (\<forall>s2. moved s (length body) s2 \<longrightarrow> (\<exists>s3. Stream_ListEnd s2 = (Inr (), s3) \<and> P s3)) \<Longrightarrow>
    \<exists>s'. decode_fields fuel n i fs acc s = Some (Inr (rev acc @ vs), s') \<and> P s')"
  "repr_entries kt vt kvs body \<Longrightarrow> length body < fuel \<Longrightarrow> (\<And>s acc P lf. body_at body s \<Longrightarrow>
    length body < lf \<Longrightarrow> distinct (map fst (rev acc @ kvs)) \<Longrightarrow>
    (\<forall>s2. moved s (length body) s2 \<longrightarrow> (\<exists>s3. Stream_ListEnd s2 = (Inr (), s3) \<and> P s3)) \<Longrightarrow>
    \<exists>s'. decodeMapEntries lf (decode fuel kt no_tags) (decode fuel vt no_tags) acc s
      = Some (Inr (rev acc @ kvs), s') \<and> P s')"
proof (induction arbitrary: fuel and fuel and fuel and fuel rule: repr_repr_elems_repr_fields_repr_entries.inducts)
  case (raw k c b ts)
  then show ?case by (intro reads_raw)
next
  case (hash h ts)
  then show ?case by (intro reads_hash)
next
  case (int ts n)
  then show ?case by (intro reads_int)
next
  case (uint bits n ts)
  then show ?case by (intro reads_uint)
next
  case (bool ts x)
  then show ?case by (intro reads_bool)
next
  case (string ts s)
  show ?case unfolding decode.simps by (rule reads_bytes)
next
  case (byte_slice ts s)
  show ?case unfolding decode.simps by (simp only: simp_thms if_True reads_bytes)
next
  case (byte_array s n ts)
  then show ?case by (intro reads_byte_array)
next
  case (slice t ts vs body)
  have "length body < fuel" using slice.prems length_wrap [of body] by simp
  with slice.IH obtain bs where g: "genTypeInfo t = Some None" and bs: "body = concat bs"
    "list_all2 (reads (decode fuel t no_tags)) vs bs" by blast
  have "\<forall>s. at_EOL s \<longrightarrow> decode fuel t no_tags s = Some (Inl EOL, s\<lparr>st_kinderr := None\<rparr>)"
    using g slice.prems by (auto intro: decode_EOL)
  with bs slice.prems have "reads (decodeListSlice fuel (decode fuel t no_tags)) vs (wrap body)"
    using reads_slice by blast
  then show ?case using slice.hyps by (auto intro: reads_map)
next
  case (array t ts vs n body)
  have "length body < fuel" using array.prems length_wrap [of body] by simp
  with array.IH obtain bs where "body = concat bs" "list_all2 (reads (decode fuel t no_tags)) vs bs" by blast
  with array.hyps have "reads (decodeListArray n (decode fuel t no_tags)) vs (wrap body)"
    using reads_array by blast
  then show ?case using array.hyps by (auto intro: reads_map)
next
  case (struct fs vs body ts)
  show ?case
  proof (rule readsI [OF wrap_is_value])
    fix s assume f: "facing KList body (wrap body) s"
    have "length body < fuel" using struct.prems length_wrap [of body] by simp
    moreover from Stream_List_body [OF f] obtain s1 where "Stream_List s = (Inr (of_nat (length body)), s1)"
      "body_at body s1" "\<forall>s2. moved s1 (length body) s2 \<longrightarrow>
        (\<exists>s3. Stream_ListEnd s2 = (Inr (), s3) \<and> moved s (length (wrap body)) s3)" by blast
    ultimately show "\<exists>s'. decode fuel (TStruct fs) ts s = Some (Inr (VStruct vs), s') \<and> moved s (length (wrap body)) s'"
      using struct.IH [of fuel s1 "\<lambda>s'. moved s (length (wrap body)) s'" "[]"] by auto
  qed
next
  case (ptr t v b ts)
  then show ?case by (intro reads_ptr)
next
  case (nil_bytes ts n)
  then show ?case by (intro reads_nil) simp_all
next
  case (nil_struct ts fs)
  then show ?case by (intro reads_nil) simp_all
next
  case (nil_array ts t n)
  then show ?case by (intro reads_nil) simp_all
next
  case (nil_zero ts t b)
  then show ?case by (intro reads_nil) auto
next
  case (dict kvs kt vt body ts)
  show ?case
  proof (rule readsI [OF wrap_is_value])
    fix s assume f: "facing KList body (wrap body) s"
    have "length body < fuel" using dict.prems length_wrap [of body] by simp
    moreover from Stream_List_body [OF f] obtain s1 where "Stream_List s = (Inr (of_nat (length body)), s1)"
      "body_at body s1" "\<forall>s2. moved s1 (length body) s2 \<longrightarrow>
        (\<exists>s3. Stream_ListEnd s2 = (Inr (), s3) \<and> moved s (length (wrap body)) s3)" by blast
    ultimately show "\<exists>s'. decode fuel (TMap kt vt) ts s = Some (Inr (VMap kvs), s') \<and> moved s (length (wrap body)) s'"
      using dict.IH [of fuel s1 fuel "[]" "\<lambda>s'. moved s (length (wrap body)) s'"] dict.hyps
      by (auto simp: decodeMap_def)
  qed
next
  case (no_elems t)
  then show ?case by (auto intro: exI [of _ "[]"])
next
  case (elem t v b vs body)
  have "length body < fuel" using elem.prems by simp
  with elem.IH(2) obtain bs where "genTypeInfo t = Some None" "body = concat bs"
    "list_all2 (reads (decode fuel t no_tags)) vs bs" by blast
  moreover have "reads (decode fuel t no_tags) v b" using elem by simp
  ultimately show ?case by (auto intro!: exI [of _ "b # bs"])
next
  case (no_fields n i)
  have "moved s 0 s" using no_fields.prems(2) by (simp add: moved_def body_at_def)
  with no_fields.prems(3) show ?case by auto
next
  case (hidden_field exported n i fs vs body name tag t)
  then show ?case using hidden_field.IH [OF hidden_field.prems, of "zero_val t # acc"] by simp
next
  case (ignored_field exported n i name tag t ts fs vs body)
  then show ?case using ignored_field.IH [OF ignored_field.prems, of "zero_val t # acc"] by simp
next
  case (field exported n i name tag t ts v b fs vs body)
  have r: "reads (decode fuel t ts) v b" using field by simp
  obtain s1 where s1: "decode_fields fuel n i (Field name True tag t # fs) acc s
      = decode_fields fuel n (Suc i) fs (v # acc) s1" "moved s (length b) s1" "body_at body s1"
    using decode_fields_reads [OF r field.prems(2), of n i name tag fs acc] field.hyps by auto
  have "\<forall>s2. moved s1 (length body) s2 \<longrightarrow> (\<exists>s3. Stream_ListEnd s2 = (Inr (), s3) \<and> P s3)"
    using field.prems(3) moved_trans [OF s1(2)] by simp
  with field.IH(2) [OF _ s1(3), of fuel P "v # acc"] field.prems(1) s1(1) field.hyps show ?case by simp
next
  case (tail_field exported n i name tag t ts vs body)
  then obtain bs where g: "genTypeInfo t = Some None" and bs: "body = concat bs"
    "list_all2 (reads (decode fuel t no_tags)) vs bs" by blast
  have "\<forall>s. at_EOL s \<longrightarrow> decode fuel t no_tags s = Some (Inl EOL, s\<lparr>st_kinderr := None\<rparr>)"
    using g tail_field.prems(1) by (auto intro: decode_EOL)
  from decodeSliceElems_reads [OF bs(2) _ _ this, of s fuel 0 "[]"] tail_field.prems bs(1)
  obtain s2 where "decodeSliceElems fuel (decode fuel t no_tags) 0 [] s = Some (Inr vs, s2)"
    "moved s (length body) s2" by auto
  with tail_field.prems(3) tail_field.hyps show ?case by auto
next
  case (no_entries kt vt)
  then obtain n where "lf = Suc n" by (cases lf) auto
  moreover have "at_EOL s" using no_entries.prems(2) by (rule body_at_Nil)
  moreover have "moved s 0 (s\<lparr>st_kinderr := None\<rparr>)"
    using no_entries.prems(2) by (simp add: moved_def body_at_def)
  ultimately show ?case
    using no_entries.prems by (auto simp: Stream_List_def at_EOL_Kind)
next
  case (entry kt k bk vt v bv kvs body)
  have l: "length (bk @ bv) < length (wrap (bk @ bv))" by (rule length_wrap)
  have kr: "reads (decode fuel kt no_tags) k bk" and vr: "reads (decode fuel vt no_tags) v bv"
    using entry.IH(1,2) entry.prems(1) l by simp_all
  obtain n where n: "lf = Suc n" using entry.prems(3) by (cases lf) auto
  have "k \<notin> fst ` set acc" using entry.prems(4) by auto
  from decodeMapEntries_reads [OF kr vr this entry.prems(2), of n] obtain s1 where
    s1: "decodeMapEntries (Suc n) (decode fuel kt no_tags) (decode fuel vt no_tags) acc s
      = decodeMapEntries n (decode fuel kt no_tags) (decode fuel vt no_tags) ((k, v) # acc) s1"
    "moved s (length (wrap (bk @ bv))) s1" "body_at body s1" by blast
  have "\<forall>s2. moved s1 (length body) s2 \<longrightarrow> (\<exists>s3. Stream_ListEnd s2 = (Inr (), s3) \<and> P s3)"
    using entry.prems(5) moved_trans [OF s1(2)] by simp
  moreover have "length body < n" "length body < fuel" using entry.prems(1,3) n l by simp_all
  ultimately show ?case
    using entry.IH(3) [OF _ s1(3), of fuel n "(k, v) # acc" P] entry.prems(4) s1(1) n by simp
qed

section \<open>Encoding and decoding whole values\<close>

lemma decode_bytes_repr:
  assumes "genTypeInfo t = Some None" "repr t no_tags v b" "length b < 2 ^ 64" "length b < fuel"
  shows "DecodeBytes fuel b t = Some (Some (Inr v))"
proof -
  let ?s = "NewStream b (of_nat (length b)) True"
  obtain k c where val: "is_value k c b" using repr_is_value(1) [OF assms(2)] by blast
  then have "length b \<noteq> 0" using is_value_length by blast
  then have "(0 :: u64) < of_nat (length b)" using assms(3) by (simp add: word_less_nat_alt unat_of_nat)
  then have "has_room ?s (length b)" using assms(3) by (simp add: has_room_def NewStream_def unat_of_nat)
  then have "facing k c b ?s" using val by (intro facingI [where rest = "[]"]) (simp_all add: NewStream_def)
  with decode_repr(1) [OF assms(2,4)] obtain s' where
    "decode fuel t no_tags ?s = Some (Inr v, s')" "moved ?s (length b) s'" unfolding reads_def by blast
  then show ?thesis
    using assms(1) by (simp add: DecodeBytes_def Stream_Decode_def moved_def consumed_def NewStream_def)
qed

lemma encode_bytes_repr:
  assumes "genTypeInfo t = Some None" "repr t no_tags v b" "length b < 2 ^ 32 - 1"
  shows "EncodeToBytes t v = Some (Inr b)"
proof -
  have "enc_len Encoder_empty + length b < 2 ^ 32 - 1"
    using assms(3) by (simp add: Encoder_empty_def enc_len_def)
  then obtain e where "write_val t no_tags v Encoder_empty = Some (Inr e)" "wrote Encoder_empty b e"
    using write_repr(1) [OF assms(2)] unfolding wwrites_def by blast
  then show ?thesis
    using assms(1) ToBytes_wrote by (simp add: EncodeToBytes_def AppendAny_def)
qed

text \<open>C15: for a serializable type \<open>t\<close> and a value \<open>v\<close> of that type whose RLP by the specification is \<open>b\<close>
  (of fewer than \<open>2^32 - 1\<close> bytes, the limit of the encoder), \<open>EncodeToBytes\<close> returns exactly \<open>b\<close>
  and \<open>DecodeBytes\<close> of \<open>b\<close> into a value of type \<open>t\<close> returns \<open>v\<close>; its loops need at most one more
  iteration than \<open>b\<close> has bytes.\<close>

theorem rlp_roundtrip:
  assumes "genTypeInfo t = Some None" "repr t no_tags v b" "length b < 2 ^ 32 - 1" "length b < fuel"
  shows "EncodeToBytes t v = Some (Inr b) \<and> DecodeBytes fuel b t = Some (Some (Inr v))"
  using encode_bytes_repr [OF assms(1-3)] decode_bytes_repr [OF assms(1,2) _ assms(4)] assms(3) by simp

text \<open>A struct with a pointer that may be nil, a big integer and a tail.\<close>

definition ex_struct :: gotype where
  "ex_struct = TStruct [Field ''Id'' True '''' (TUint 64), Field ''Next'' True ''nil'' (TPtr (TUint 32)),
     Field ''Amount'' True '''' (TPtr TBigInt), Field ''Rest'' True ''tail'' (TSlice (TUint 16))]"

definition ex_value :: gval where
  "ex_value = VStruct [VUint 7, VPtr None, VPtr (Some (VInt 1000)), VList [VUint 5, VUint 300]]"

lemma ex_struct_repr: "repr ex_struct no_tags ex_value [0xC9, 7, 0x80, 0x82, 3, 0xE8, 5, 0x82, 1, 0x2C]"
proof -
  have big: "big_Bytes 7 = [7]" "big_Bytes 0 = []" "big_Bytes 1000 = [3, 0xE8]" "big_Bytes 5 = [5]"
    "big_Bytes 300 = [1, 0x2C]" by (simp_all add: big_Bytes.simps)
  let ?nil = "\<lparr>nilOK = True, tail = False, ignored = False\<rparr>"
  let ?tail = "\<lparr>nilOK = False, tail = True, ignored = False\<rparr>"
  note u = repr_repr_elems_repr_fields_repr_entries.uint
  have u7: "repr (TUint 64) no_tags (VUint 7) [7]" using u [of 64 7 no_tags] by (simp add: big)
  have zero: "repr (TUint 32) no_tags (VUint 0) [0x80]"
    using u [of 32 0 no_tags] by (simp add: big rlp_head_def)
  have u5: "repr (TUint 16) no_tags (VUint 5) [5]" using u [of 16 5 no_tags] by (simp add: big)
  have u300: "repr (TUint 16) no_tags (VUint 300) [0x82, 1, 0x2C]"
    using u [of 16 300 no_tags] by (simp add: big rlp_head_def)
  have nil: "repr (TPtr (TUint 32)) ?nil (VPtr None) [0x80]" by (rule nil_zero) (simp_all add: zero)
  have "repr TBigInt no_tags (VInt (int 1000)) (rlp (RStr (big_Bytes 1000)))" by (rule int)
  then have amount: "repr (TPtr TBigInt) no_tags (VPtr (Some (VInt 1000))) [0x82, 3, 0xE8]"
    by (intro ptr) (simp_all add: big rlp_head_def)
  have rest: "repr_elems (TUint 16) [VUint 5, VUint 300] ([5] @ [0x82, 1, 0x2C] @ [])"
    by (intro elem no_elems u5 u300) simp
  have t4: "repr_fields 4 3 [Field ''Rest'' True ''tail'' (TSlice (TUint 16))] [VList [VUint 5, VUint 300]]
      ([5] @ [0x82, 1, 0x2C] @ [])"
    by (rule tail_field [where ts = ?tail, OF _ _ _ _ _ rest])
      (simp_all add: parseStructTag_def TrimSpace_def is_space_def no_tags_def)
  have t3: "repr_fields 4 2 [Field ''Amount'' True '''' (TPtr TBigInt), Field ''Rest'' True ''tail'' (TSlice (TUint 16))]
      [VPtr (Some (VInt 1000)), VList [VUint 5, VUint 300]] ([0x82, 3, 0xE8] @ [5] @ [0x82, 1, 0x2C] @ [])"
    by (rule field [OF _ _ _ _ amount]) (use t4 in \<open>simp_all add: parseStructTag_def TrimSpace_def\<close>)
  have t2: "repr_fields 4 1 [Field ''Next'' True ''nil'' (TPtr (TUint 32)), Field ''Amount'' True '''' (TPtr TBigInt),
      Field ''Rest'' True ''tail'' (TSlice (TUint 16))]
      [VPtr None, VPtr (Some (VInt 1000)), VList [VUint 5, VUint 300]]
      ([0x80] @ [0x82, 3, 0xE8] @ [5] @ [0x82, 1, 0x2C] @ [])"
    by (rule field [OF _ _ _ _ nil])
      (use t3 in \<open>simp_all add: parseStructTag_def TrimSpace_def is_space_def no_tags_def numeral_2_eq_2\<close>)
  have t1: "repr_fields 4 0 [Field ''Id'' True '''' (TUint 64), Field ''Next'' True ''nil'' (TPtr (TUint 32)),
      Field ''Amount'' True '''' (TPtr TBigInt), Field ''Rest'' True ''tail'' (TSlice (TUint 16))]
      [VUint 7, VPtr None, VPtr (Some (VInt 1000)), VList [VUint 5, VUint 300]]
      ([7] @ [0x80] @ [0x82, 3, 0xE8] @ [5] @ [0x82, 1, 0x2C] @ [])"
    by (rule field [OF _ _ _ _ u7]) (use t2 in \<open>simp_all add: parseStructTag_def TrimSpace_def\<close>)
  let ?fs = "[Field ''Id'' True '''' (TUint 64), Field ''Next'' True ''nil'' (TPtr (TUint 32)),
    Field ''Amount'' True '''' (TPtr TBigInt), Field ''Rest'' True ''tail'' (TSlice (TUint 16))]"
  have "repr_fields (length ?fs) 0 ?fs [VUint 7, VPtr None, VPtr (Some (VInt 1000)), VList [VUint 5, VUint 300]]
      ([7] @ [0x80] @ [0x82, 3, 0xE8] @ [5] @ [0x82, 1, 0x2C] @ [])"
    using t1 by (simp add: eval_nat_numeral)
  from struct [OF this, of no_tags] show ?thesis
    by (simp add: ex_struct_def ex_value_def wrap_def rlp_head_def)
qed

theorem rlp_roundtrip_witness:
  "EncodeToBytes ex_struct ex_value = Some (Inr [0xC9, 7, 0x80, 0x82, 3, 0xE8, 5, 0x82, 1, 0x2C])
    \<and> DecodeBytes 11 [0xC9, 7, 0x80, 0x82, 3, 0xE8, 5, 0x82, 1, 0x2C] ex_struct = Some (Some (Inr ex_value))"
proof (rule rlp_roundtrip)
  show "genTypeInfo ex_struct = Some None"
    by (simp add: ex_struct_def parseStructTag_def TrimSpace_def is_space_def no_tags_def)
  show "repr ex_struct no_tags ex_value [0xC9, 7, 0x80, 0x82, 3, 0xE8, 5, 0x82, 1, 0x2C]"
    by (rule ex_struct_repr)
qed simp_all

section \<open>Inputs outside the specification\<close>

lemma byte_zero_sticks:
  assumes "st_kind s = Some KByte" "st_kinderr s = None" "st_byteval s = 0"
  shows "decode fuel (TArray 1 (TUint 8)) no_tags s = Some (Inr (VBytes [0]), s)"
  using assms by (simp add: decodeByteArray_def Stream_Kind_def Stream_Uint_def Stream_uint_def)

lemma byte_zero_loops:
  assumes "st_kind s = Some KByte" "st_kinderr s = None" "st_byteval s = 0"
  shows "decodeSliceElems n (decode fuel (TArray 1 (TUint 8)) no_tags) i acc s = None"
  using byte_zero_sticks [OF assms] by (induction n arbitrary: i acc) simp_all

text \<open>C17: \<open>DecodeBytes\<close> does not return on the two bytes \<open>C1 00\<close> (a list with the single byte 0) decoded into a
  slice of one-byte arrays: no number of iterations of the element loop is enough, because
  \<open>decodeByteArray\<close> leaves the zero byte ahead of the stream.\<close>

theorem byte_array_zero_diverges: "DecodeBytes fuel [0xC1, 0x00] (TSlice (TArray 1 (TUint 8))) = None"
proof -
  let ?dec = "decode fuel (TArray 1 (TUint 8)) no_tags"
  let ?s = "\<lparr>st_r = [0], st_remaining = 1, st_limited = True, st_kind = None, st_size = 0,
    st_byteval = 0, st_kinderr = None, st_stack = [(0, 1)]\<rparr>"
  let ?s' = "\<lparr>st_r = [], st_remaining = 0, st_limited = True, st_kind = Some KByte, st_size = 0,
    st_byteval = 0, st_kinderr = None, st_stack = [(1, 1)]\<rparr>"
  have lst: "Stream_List (NewStream [0xC1, 0x00] 2 True) = (Inr 1, ?s)"
    by (simp add: Stream_List_def Stream_Kind_def NewStream_def readKind_def readByte_def willRead_def Let_def)
  have "Stream_Kind ?s = (Inr (KByte, 0), ?s')"
    by (simp add: Stream_Kind_def readKind_def readByte_def willRead_def Let_def)
  then have first: "?dec ?s = Some (Inr (VBytes [0]), ?s')"
    by (simp add: decodeByteArray_def Stream_Kind_def Stream_Uint_def Stream_uint_def)
  have "decodeSliceElems fuel ?dec 0 [] ?s = None"
    using byte_zero_loops [of ?s' _ fuel] first by (cases fuel) (simp_all del: decode.simps)
  with lst show ?thesis
    by (simp add: DecodeBytes_def Stream_Decode_def decodeListSlice_def no_tags_def)
qed

text \<open>Two inputs that are not the encoding of any value of the type are accepted: a map entry that is an empty
  list ends the enclosing slice, because the \<open>EOL\<close> of the entry is passed on; and the list of one
  zero byte fills two one-byte arrays of a struct.\<close>

theorem decoder_accepts_malformed:
  "DecodeBytes 4 [0xC2, 0xC1, 0xC0] (TSlice (TMap (TUint 64) (TUint 64))) = Some (Some (Inr (VList [])))
   \<and> DecodeBytes 4 [0xC1, 0x00] (TStruct [Field ''a'' True '''' (TArray 1 (TUint 8)),
        Field ''b'' True '''' (TArray 1 (TUint 8))]) = Some (Some (Inr (VStruct [VBytes [0], VBytes [0]])))"
  by code_simp

end
