(* ===== verification/Slashing.thy ===== *)
theory Slashing
  imports Evm_Types Chain_Config Rlp_Roundtrip Typed_IMap
begin

text \<open>
  The slashing contract (\<open>slashing/precompiled/slashing_contract.go\<close>, \<open>reader.go\<close>, \<open>logs.go\<close>): proofs of
  double voting, the jail block of a validator, the list of jailed validators and its cleanup.

  The storage fields are typed (\<open>Stor_k_1\<close> keys under distinct field prefixes). The delayed reader
  is a snapshot of the storage \<open>DelegationDelay\<close> blocks ago, with the eligibility test of the
  DPoS reader. Votes come in RLP from the call data and are decoded with the typed decoder;
  \<open>MustDecodeBytes\<close> panics on bad input.
\<close>

section \<open>Votes\<close>

datatype slashing_error =
    ErrInvalidVoteSignature | ErrInvalidVotesValidator | ErrNotAValidator
  | ErrInvalidVotesPeriodRoundStep | ErrInvalidVotesBlockHash | ErrIdenticalVotes
  | ErrExistingDoubleVotingProof | ErrSlashingAbi

record VrfPbftSortition =
  Period :: u64
  Round :: u32
  Step :: u32
  Proof :: bytes

record Vote =
  BlockHash :: bytes
  VrfSortitionBytes :: bytes
  VrfSortition :: VrfPbftSortition
  Signature :: bytes

definition VrfPbftSortition_type :: gotype where
  "VrfPbftSortition_type = TStruct [Field ''Period'' True '''' (TUint 64),
     Field ''Round'' True '''' (TUint 32), Field ''Step'' True '''' (TUint 32),
     Field ''Proof'' True '''' (TArray 80 (TUint 8))]"

definition Vote_type :: gotype where
  "Vote_type = TStruct [Field ''BlockHash'' True '''' THash,
     Field ''VrfSortitionBytes'' True '''' (TSlice (TUint 8)),
     Field ''VrfSortition'' True ''-'' VrfPbftSortition_type,
     Field ''Signature'' True '''' (TArray 65 (TUint 8))]"

definition VoteHashData_type :: gotype where
  "VoteHashData_type = TStruct [Field ''BlockHash'' True '''' THash,
     Field ''VrfSortitionBytes'' True '''' (TSlice (TUint 8))]"

definition MustDecodeBytes :: "bytes \<Rightarrow> gotype \<Rightarrow> gval option" where
  "MustDecodeBytes b t =
     (case DecodeBytes (Suc (length b)) b t of Some (Some (Inr v)) \<Rightarrow> Some v | _ \<Rightarrow> None)"

fun to_VrfPbftSortition :: "gval \<Rightarrow> VrfPbftSortition option" where
  "to_VrfPbftSortition (VStruct [VUint p, VUint r, VUint s, VBytes pr]) =
     Some \<lparr>Period = p, Round = ucast r, Step = ucast s, Proof = pr\<rparr>"
| "to_VrfPbftSortition _ = None"

fun to_vote_parts :: "gval \<Rightarrow> (bytes \<times> bytes \<times> bytes) option" where
  "to_vote_parts (VStruct [VBytes h, VBytes vrf, _, VBytes sig]) = Some (h, vrf, sig)"
| "to_vote_parts _ = None"

definition NewVote :: "bytes \<Rightarrow> Vote option" where
  "NewVote vote_rlp = do {
     v \<leftarrow> MustDecodeBytes vote_rlp Vote_type;
     (h, vrf, sig) \<leftarrow> to_vote_parts v;
     w \<leftarrow> MustDecodeBytes vrf VrfPbftSortition_type;
     sortition \<leftarrow> to_VrfPbftSortition w;
     Some \<lparr>BlockHash = h, VrfSortitionBytes = vrf, VrfSortition = sortition, Signature = sig\<rparr>
   }"

definition GetHash :: "crypto \<Rightarrow> Vote \<Rightarrow> bytes option" where
  "GetHash cr vote = do {
     r \<leftarrow> MustEncodeToBytes VoteHashData_type (VStruct [VBytes (BlockHash vote), VBytes (VrfSortitionBytes vote)]);
     Some (keccak256_Hash cr r)
   }"

section \<open>Storage, readers and the contract\<close>

record slashing_storage =
  validators_jail_block :: "address \<rightharpoonup> blocknum"
  double_voting_proofs :: "(bytes \<times> bytes) set"
  field_jailed_validators :: "address list option"
  slashing_nonce :: nat

record slashing_reader =
  sr_storage :: slashing_storage
  eligibleReader :: "(address \<Rightarrow> bool) option"

record slashing_contract =
  sc_cfg :: ChainConfig
  sc_storage :: slashing_storage
  delayedReader :: slashing_reader
  nextCleanUpBlock :: blocknum
  sc_logs :: "LogRecord list"

definition slashing_contract_address :: address where
  "slashing_contract_address = 0xEE"

text \<open>\<open>Reader.Init\<close>: the storage \<open>DelegationDelay\<close> blocks before \<open>blk_n\<close>, or of block 0.\<close>

definition delayed_block :: "ChainConfig \<Rightarrow> blocknum \<Rightarrow> blocknum" where
  "delayed_block c blk_n =
     (if ucast (DelegationDelay (DPOS c)) < blk_n then blk_n - ucast (DelegationDelay (DPOS c)) else 0)"

definition slashing_Reader_Init ::
  "ChainConfig \<Rightarrow> blocknum \<Rightarrow> (address \<Rightarrow> bool) option \<Rightarrow> (blocknum \<Rightarrow> slashing_storage) \<Rightarrow> slashing_reader" where
  "slashing_Reader_Init c blk_n elig storage_factory =
     \<lparr>sr_storage = storage_factory (delayed_block c blk_n), eligibleReader = elig\<rparr>"

definition reader_getJailBlock :: "slashing_reader \<Rightarrow> address \<Rightarrow> bool \<times> blocknum" where
  "reader_getJailBlock r addr =
     (case validators_jail_block (sr_storage r) addr of Some b \<Rightarrow> (True, b) | None \<Rightarrow> (False, 0))"

definition IsJailed :: "slashing_reader \<Rightarrow> blocknum \<Rightarrow> address \<Rightarrow> bool" where
  "IsJailed r block addr =
     (let (jailed, jail_block) = reader_getJailBlock r addr in
      if \<not> jailed then False else if jail_block < block then False else True)"

definition GetJailedValidators :: "slashing_reader \<Rightarrow> address list" where
  "GetJailedValidators r = (case field_jailed_validators (sr_storage r) of Some l \<Rightarrow> l | None \<Rightarrow> [])"

definition slashing_IsEligible :: "slashing_reader \<Rightarrow> address \<Rightarrow> bool" where
  "slashing_IsEligible r a = (case eligibleReader r of None \<Rightarrow> False | Some f \<Rightarrow> f a)"

definition storageInitialization :: "slashing_contract \<Rightarrow> slashing_contract" where
  "storageInitialization c =
     (if slashing_nonce (sc_storage c) = 0
      then c\<lparr>sc_storage := (sc_storage c)\<lparr>slashing_nonce := Suc (slashing_nonce (sc_storage c))\<rparr>\<rparr> else c)"

definition slashing_CommitCall :: "slashing_contract \<Rightarrow> slashing_reader \<Rightarrow> slashing_contract" where
  "slashing_CommitCall c read_storage = c\<lparr>delayedReader := read_storage\<rparr>"

definition MakeJailedLog :: "address \<Rightarrow> u64 \<Rightarrow> u64 \<Rightarrow> byte \<Rightarrow> LogRecord" where
  "MakeJailedLog validator start_block end_block malicious_behaviour_type =
     \<lparr>L_Address = slashing_contract_address, L_Event = ''Jailed'',
      L_Topics = [TAddress validator, TUint64 start_block, TUint64 end_block],
      L_Data = DUint8 malicious_behaviour_type\<rparr>"

definition DOUBLE_VOTING :: byte where
  "DOUBLE_VOTING = 1"

section \<open>Double voting proofs\<close>

definition validateVoteSig :: "crypto \<Rightarrow> bytes \<Rightarrow> bytes \<Rightarrow> (slashing_error + address) option" where
  "validateVoteSig cr vote_hash signature =
     (case Ecrecover cr vote_hash signature of
        None \<Rightarrow> Some (Inl ErrInvalidVoteSignature)
      | Some pubKey \<Rightarrow> do {
          assertm (pubKey \<noteq> []);
          Some (Inr (BytesToAddress (drop 12 (keccak256_Hash cr (drop 1 pubKey)))))
        })"

text \<open>\<open>bytes.Compare\<close>.\<close>

fun bytes_less :: "bytes \<Rightarrow> bytes \<Rightarrow> bool" where
  "bytes_less [] bs \<longleftrightarrow> bs \<noteq> []"
| "bytes_less (a # as) [] \<longleftrightarrow> False"
| "bytes_less (a # as) (b # bs) \<longleftrightarrow> a < b \<or> a = b \<and> bytes_less as bs"

definition genDoubleVotingProofDbKey :: "bytes \<Rightarrow> bytes \<Rightarrow> (bytes \<times> bytes) option" where
  "genDoubleVotingProofDbKey votea_hash vote_b_hash =
     (if bytes_less votea_hash vote_b_hash then Some (votea_hash, vote_b_hash)
      else if bytes_less vote_b_hash votea_hash then Some (vote_b_hash, votea_hash)
      else None)"

definition addToJailedValidators :: "address \<Rightarrow> slashing_contract \<Rightarrow> slashing_contract" where
  "addToJailedValidators validator c =
     (let jailed_validators = GetJailedValidators (delayedReader c) in
      if validator \<in> set jailed_validators then c
      else c\<lparr>sc_storage := (sc_storage c)\<lparr>field_jailed_validators := Some (jailed_validators @ [validator])\<rparr>\<rparr>)"

definition jailValidator :: "blocknum \<Rightarrow> address \<Rightarrow> slashing_contract \<Rightarrow> blocknum \<times> slashing_contract" where
  "jailValidator current_block validator c =
     (let jail_block = current_block + JailTime (Slashing (Protocol (sc_cfg c)));
          c = c\<lparr>sc_storage := (sc_storage c)\<lparr>validators_jail_block :=
                (validators_jail_block (sc_storage c))(validator \<mapsto> jail_block)\<rparr>\<rparr>;
          c = addToJailedValidators validator c;
          c = storageInitialization c
      in (jail_block, c))"

definition saveDoubleVotingProof :: "bytes \<times> bytes \<Rightarrow> slashing_contract \<Rightarrow> slashing_contract" where
  "saveDoubleVotingProof k c =
     c\<lparr>sc_storage := (sc_storage c)\<lparr>double_voting_proofs := insert k (double_voting_proofs (sc_storage c))\<rparr>\<rparr>"

definition doubleVotingProoExists :: "bytes \<times> bytes \<Rightarrow> slashing_contract \<Rightarrow> bool" where
  "doubleVotingProoExists k c \<longleftrightarrow> k \<in> double_voting_proofs (sc_storage c)"

definition is_zero_hash :: "bytes \<Rightarrow> bool" where
  "is_zero_hash h \<longleftrightarrow> h = replicate 32 0"

definition votes_check :: "Vote \<Rightarrow> Vote \<Rightarrow> slashing_error option" where
  "votes_check vote_a vote_b =
     (let a = VrfSortition vote_a; b = VrfSortition vote_b in
      if Period a \<noteq> Period b \<or> Round a \<noteq> Round b \<or> Step a \<noteq> Step b then Some ErrInvalidVotesPeriodRoundStep
      else if BlockHash vote_a = BlockHash vote_b then Some ErrInvalidVotesBlockHash
      else if Step a \<ge> 5 \<and> Step a mod 2 = 1 \<and>
          (is_zero_hash (BlockHash vote_a) \<noteq> is_zero_hash (BlockHash vote_b)) then Some ErrInvalidVotesBlockHash
      else None)"

text \<open>The checks of \<open>commitDoubleVotingProof\<close>, in its order, and then its effects.\<close>

definition check_double_vote ::
  "crypto \<Rightarrow> slashing_contract \<Rightarrow> Vote \<Rightarrow> bytes \<Rightarrow> Vote \<Rightarrow> bytes \<Rightarrow>
   (slashing_error + (bytes \<times> bytes) \<times> address) option" where
  "check_double_vote cr c vote_a vote_a_hash vote_b vote_b_hash =
     (if vote_a_hash = vote_b_hash then Some (Inl ErrIdenticalVotes)
      else do {
        proof_db_key \<leftarrow> genDoubleVotingProofDbKey vote_a_hash vote_b_hash;
        if doubleVotingProoExists proof_db_key c then Some (Inl ErrExistingDoubleVotingProof)
        else case votes_check vote_a vote_b of
            Some err \<Rightarrow> Some (Inl err)
          | None \<Rightarrow> do {
              ra \<leftarrow> validateVoteSig cr vote_a_hash (Signature vote_a);
              case ra of
                Inl err \<Rightarrow> Some (Inl err)
              | Inr vote_a_validator \<Rightarrow> do {
                  rb \<leftarrow> validateVoteSig cr vote_b_hash (Signature vote_b);
                  case rb of
                    Inl err \<Rightarrow> Some (Inl err)
                  | Inr vote_b_validator \<Rightarrow>
                      if vote_a_validator \<noteq> vote_b_validator then Some (Inl ErrInvalidVotesValidator)
                      else if \<not> slashing_IsEligible (delayedReader c) vote_a_validator
                      then Some (Inl ErrNotAValidator)
                      else Some (Inr (proof_db_key, vote_a_validator))
                }
            }
      })"

definition commitDoubleVotingProof ::
  "crypto \<Rightarrow> blocknum \<Rightarrow> bytes \<times> bytes \<Rightarrow> slashing_contract \<Rightarrow> ((slashing_error + unit) \<times> slashing_contract) option" where
  "commitDoubleVotingProof cr block args c = do {
     vote_a \<leftarrow> NewVote (fst args);
     vote_a_hash \<leftarrow> GetHash cr vote_a;
     vote_b \<leftarrow> NewVote (snd args);
     vote_b_hash \<leftarrow> GetHash cr vote_b;
     r \<leftarrow> check_double_vote cr c vote_a vote_a_hash vote_b vote_b_hash;
     case r of
       Inl err \<Rightarrow> Some (Inl err, c)
     | Inr (proof_db_key, validator) \<Rightarrow>
         let (jail_block, c) = jailValidator block validator c;
             c = saveDoubleVotingProof proof_db_key c
         in Some (Inr (), c\<lparr>sc_logs := sc_logs c @
              [MakeJailedLog validator block jail_block DOUBLE_VOTING]\<rparr>)
   }"

section \<open>Cleanup\<close>

fun cleanup_loop :: "slashing_reader \<Rightarrow> blocknum \<Rightarrow> address list \<Rightarrow> address list \<Rightarrow> u64 \<Rightarrow> address list \<times> u64" where
  "cleanup_loop r currentBlock [] kept min_unjail_block = (kept, min_unjail_block)"
| "cleanup_loop r currentBlock (v # vs) kept min_unjail_block =
     (let jail_block = snd (reader_getJailBlock r v);
          kept = (if jail_block > currentBlock then kept @ [v] else kept);
          min_unjail_block = (if min_unjail_block = 0 \<or> jail_block < min_unjail_block
                              then jail_block else min_unjail_block)
      in cleanup_loop r currentBlock vs kept min_unjail_block)"

definition CleanupJailedValidators :: "blocknum \<Rightarrow> slashing_contract \<Rightarrow> slashing_contract" where
  "CleanupJailedValidators currentBlock c =
     (if nextCleanUpBlock c > currentBlock then c
      else
        let reader = slashing_Reader_Init (sc_cfg c) currentBlock None (\<lambda>_. sc_storage c);
            jailed_validators = GetJailedValidators reader
        in if jailed_validators = [] then c
           else
             let (kept, min_unjail_block) = cleanup_loop reader currentBlock jailed_validators [] 0;
                 c = (if min_unjail_block \<noteq> 0 then c\<lparr>nextCleanUpBlock := min_unjail_block\<rparr> else c)
             in c\<lparr>sc_storage := (sc_storage c)\<lparr>field_jailed_validators := Some kept\<rparr>\<rparr>)"

definition slashing_getJailBlock :: "slashing_contract \<Rightarrow> address \<Rightarrow> blocknum" where
  "slashing_getJailBlock c validator = snd (reader_getJailBlock (delayedReader c) validator)"

section \<open>Calls\<close>

text \<open>
  The ABI (\<open>accounts/abi\<close>) is a parameter: method lookup by selector, decoding of the arguments and
  encoding of the results.
\<close>

record slashing_abi =
  sl_MethodById :: "bytes \<Rightarrow> string option"
  sl_unpack_proof :: "bytes \<Rightarrow> (bytes \<times> bytes) option"
  sl_unpack_validator :: "bytes \<Rightarrow> address option"
  sl_pack_block :: "u64 \<Rightarrow> bytes"
  sl_pack_addresses :: "address list \<Rightarrow> bytes"

definition CommitDoubleVotingProofGas :: u64 where "CommitDoubleVotingProofGas = 20000"
definition getJailBlockGas :: u64 where "getJailBlockGas = 5000"
definition DefaultSlashingMethodGas :: u64 where "DefaultSlashingMethodGas = 5000"

definition slashing_RequiredGas :: "slashing_abi \<Rightarrow> CallFrame \<Rightarrow> u64" where
  "slashing_RequiredGas ab ctx =
     (case sl_MethodById ab (Input ctx) of
        None \<Rightarrow> 0
      | Some name \<Rightarrow>
          if name = ''commitDoubleVotingProof'' then CommitDoubleVotingProofGas
          else if name = ''getJailBlock'' then getJailBlockGas
          else if name = ''getJailedValidators'' then getJailBlockGas
          else DefaultSlashingMethodGas)"

definition slashing_Run ::
  "slashing_abi \<Rightarrow> crypto \<Rightarrow> CallFrame \<Rightarrow> blocknum \<Rightarrow> slashing_contract \<Rightarrow>
   ((slashing_error + bytes) \<times> slashing_contract) option" where
  "slashing_Run ab cr ctx block c =
     (case sl_MethodById ab (Input ctx) of
        None \<Rightarrow> Some (Inl ErrSlashingAbi, c)
      | Some name \<Rightarrow> do {
          assertm (4 \<le> length (Input ctx));
          let input = drop 4 (Input ctx);
          if name = ''commitDoubleVotingProof'' then
            (case sl_unpack_proof ab input of
               None \<Rightarrow> Some (Inl ErrSlashingAbi, c)
             | Some args \<Rightarrow> map_option (\<lambda>(r, c). (map_sum id (\<lambda>_. []) r, c)) (commitDoubleVotingProof cr block args c))
          else if name = ''getJailBlock'' then
            (case sl_unpack_validator ab input of
               None \<Rightarrow> Some (Inl ErrSlashingAbi, c)
             | Some v \<Rightarrow> Some (Inr (sl_pack_block ab (slashing_getJailBlock c v)), c))
          else if name = ''getJailedValidators'' then
            Some (Inr (sl_pack_addresses ab (GetJailedValidators (delayedReader c))), c)
          else Some (Inr [], c)
        })"

section \<open>Properties\<close>

lemma bytes_less_Nil [simp]: "bytes_less bs [] = False"
  by (cases bs) simp_all

lemma bytes_less_total: "a = b \<or> bytes_less a b \<or> bytes_less b a"
  by (induction a b rule: bytes_less.induct) auto

lemma bytes_less_asym: "bytes_less a b \<Longrightarrow> \<not> bytes_less b a"
  by (induction a b rule: bytes_less.induct) auto

lemma genDoubleVotingProofDbKey_sym: "genDoubleVotingProofDbKey a b = genDoubleVotingProofDbKey b a"
  using bytes_less_asym by (auto simp: genDoubleVotingProofDbKey_def)

lemma genDoubleVotingProofDbKey_Some: "a \<noteq> b \<Longrightarrow> \<exists>k. genDoubleVotingProofDbKey a b = Some k"
  using bytes_less_total by (auto simp: genDoubleVotingProofDbKey_def)

lemma storageInitialization_storage [simp]:
  "validators_jail_block (sc_storage (storageInitialization c)) = validators_jail_block (sc_storage c)"
  "double_voting_proofs (sc_storage (storageInitialization c)) = double_voting_proofs (sc_storage c)"
  "field_jailed_validators (sc_storage (storageInitialization c)) = field_jailed_validators (sc_storage c)"
  "delayedReader (storageInitialization c) = delayedReader c" "sc_logs (storageInitialization c) = sc_logs c"
  "sc_cfg (storageInitialization c) = sc_cfg c"
  by (simp_all add: storageInitialization_def)

lemma addToJailedValidators_storage [simp]:
  "validators_jail_block (sc_storage (addToJailedValidators v c)) = validators_jail_block (sc_storage c)"
  "double_voting_proofs (sc_storage (addToJailedValidators v c)) = double_voting_proofs (sc_storage c)"
  "delayedReader (addToJailedValidators v c) = delayedReader c" "sc_logs (addToJailedValidators v c) = sc_logs c"
  "sc_cfg (addToJailedValidators v c) = sc_cfg c"
  "field_jailed_validators (sc_storage (addToJailedValidators v c)) =
     (if v \<in> set (GetJailedValidators (delayedReader c)) then field_jailed_validators (sc_storage c)
      else Some (GetJailedValidators (delayedReader c) @ [v]))"
  by (simp_all add: addToJailedValidators_def Let_def)

text \<open>The facts about two votes that make a proof valid.\<close>

definition double_vote :: "crypto \<Rightarrow> bytes \<times> bytes \<Rightarrow> Vote \<Rightarrow> Vote \<Rightarrow> bytes \<Rightarrow> bytes \<Rightarrow> address \<Rightarrow> bool" where
  "double_vote cr args a b ha hb v \<longleftrightarrow> NewVote (fst args) = Some a \<and> NewVote (snd args) = Some b
     \<and> GetHash cr a = Some ha \<and> GetHash cr b = Some hb \<and> ha \<noteq> hb
     \<and> Period (VrfSortition a) = Period (VrfSortition b) \<and> Round (VrfSortition a) = Round (VrfSortition b)
     \<and> Step (VrfSortition a) = Step (VrfSortition b) \<and> BlockHash a \<noteq> BlockHash b
     \<and> (Step (VrfSortition a) \<ge> 5 \<and> Step (VrfSortition a) mod 2 = 1 \<longrightarrow>
          \<not> is_zero_hash (BlockHash a) \<and> \<not> is_zero_hash (BlockHash b))
     \<and> validateVoteSig cr ha (Signature a) = Some (Inr v) \<and> validateVoteSig cr hb (Signature b) = Some (Inr v)"

lemma votes_check_None:
  "votes_check a b = None \<Longrightarrow> Period (VrfSortition a) = Period (VrfSortition b)
     \<and> Round (VrfSortition a) = Round (VrfSortition b) \<and> Step (VrfSortition a) = Step (VrfSortition b)
     \<and> BlockHash a \<noteq> BlockHash b \<and> (Step (VrfSortition a) \<ge> 5 \<and> Step (VrfSortition a) mod 2 = 1 \<longrightarrow>
          \<not> is_zero_hash (BlockHash a) \<and> \<not> is_zero_hash (BlockHash b))"
  unfolding votes_check_def Let_def by (simp only: option.distinct split: if_splits) (metis is_zero_hash_def)

lemma check_double_vote_Inr:
  assumes "check_double_vote cr c a ha b hb = Some (Inr (k, v))"
  shows "ha \<noteq> hb" "genDoubleVotingProofDbKey ha hb = Some k" "k \<notin> double_voting_proofs (sc_storage c)"
    "votes_check a b = None" "validateVoteSig cr ha (Signature a) = Some (Inr v)"
    "validateVoteSig cr hb (Signature b) = Some (Inr v)" "slashing_IsEligible (delayedReader c) v"
  using assms
  by (auto simp: check_double_vote_def doubleVotingProoExists_def elim!: bind_eq_SomeE
      split: if_splits option.splits sum.splits)

definition jailed_for_proof :: "blocknum \<Rightarrow> bytes \<times> bytes \<Rightarrow> address \<Rightarrow> slashing_contract \<Rightarrow> slashing_contract" where
  "jailed_for_proof block k v c = (saveDoubleVotingProof k (snd (jailValidator block v c)))\<lparr>sc_logs := sc_logs c @
     [MakeJailedLog v block (block + JailTime (Slashing (Protocol (sc_cfg c)))) DOUBLE_VOTING]\<rparr>"

lemma commit_effect:
  "(let (jail_block, c') = jailValidator block v c; c' = saveDoubleVotingProof k c'
    in Some (Inr (), c'\<lparr>sc_logs := sc_logs c' @ [MakeJailedLog v block jail_block DOUBLE_VOTING]\<rparr>))
   = Some (Inr (), jailed_for_proof block k v c)"
  by (simp add: jailed_for_proof_def jailValidator_def saveDoubleVotingProof_def Let_def)

lemma commit_steps:
  assumes "commitDoubleVotingProof cr block args c = Some (r, c')"
  obtains a ha b hb q where "NewVote (fst args) = Some a" "GetHash cr a = Some ha"
    "NewVote (snd args) = Some b" "GetHash cr b = Some hb" "check_double_vote cr c a ha b hb = Some q"
    "(case q of Inl err \<Rightarrow> (Inl err, c) | Inr (k, v) \<Rightarrow> (Inr (), jailed_for_proof block k v c)) = (r, c')"
  using assms unfolding commitDoubleVotingProof_def commit_effect
  by (elim bind_eq_SomeE) (rule that, auto split: sum.splits)

lemma commit_Inr:
  assumes "commitDoubleVotingProof cr block args c = Some (Inr u, c')"
  obtains a b ha hb v k where "double_vote cr args a b ha hb v"
    "genDoubleVotingProofDbKey ha hb = Some k" "k \<notin> double_voting_proofs (sc_storage c)"
    "slashing_IsEligible (delayedReader c) v" "c' = jailed_for_proof block k v c"
proof -
  from assms obtain a ha b hb k v where p: "NewVote (fst args) = Some a" "GetHash cr a = Some ha"
    "NewVote (snd args) = Some b" "GetHash cr b = Some hb" "check_double_vote cr c a ha b hb = Some (Inr (k, v))"
    and c': "c' = jailed_for_proof block k v c"
    by (rule commit_steps) (auto split: sum.splits)
  note q = check_double_vote_Inr [OF p(5)]
  have "double_vote cr args a b ha hb v"
    using p q votes_check_None [OF q(4)] by (simp add: double_vote_def)
  with q(2,3,7) c' that show thesis by blast
qed

lemma commit_Inl: "commitDoubleVotingProof cr block args c = Some (Inl err, c') \<Longrightarrow> c' = c"
  by (erule commit_steps) (auto split: sum.splits)

section \<open>An example contract\<close>

definition ex_slashing_cfg :: ChainConfig where
  "ex_slashing_cfg = \<lparr>GenesisBalances = [],
     DPOS = \<lparr>EligibilityBalanceThreshold = 1, VoteEligibilityBalanceStep = 1, ValidatorMaximumStake = 10,
       MinimumDeposit = 0, MaxBlockAuthorReward = 10, DagProposersReward = 50, CommissionChangeDelta = 0,
       CommissionChangeFrequency = 0, DelegationDelay = 5, DelegationLockingPeriod = 5, BlocksPerYear = 365,
       TrxMinGasPrice = 0, TrxMaxGasLimit = 0, InitialValidators = []\<rparr>,
     Protocol = \<lparr>RewardsDistributionFrequency = [], Slashing = \<lparr>JailTime = 100\<rparr>,
       Supply = \<lparr>MaxSupply = 0, GeneratedRewards = 0\<rparr>\<rparr>\<rparr>"

definition ex_slashing_storage :: slashing_storage where
  "ex_slashing_storage = \<lparr>validators_jail_block = Map.empty, double_voting_proofs = {},
     field_jailed_validators = None, slashing_nonce = 0\<rparr>"

definition ex_slashing :: slashing_contract where
  "ex_slashing = \<lparr>sc_cfg = ex_slashing_cfg, sc_storage = ex_slashing_storage,
     delayedReader = \<lparr>sr_storage = ex_slashing_storage, eligibleReader = Some (\<lambda>_. True)\<rparr>,
     nextCleanUpBlock = 0, sc_logs = []\<rparr>"

definition ex_jailed :: slashing_contract where
  "ex_jailed = ex_slashing\<lparr>sc_storage := ex_slashing_storage\<lparr>validators_jail_block := [7 \<mapsto> 110],
     field_jailed_validators := Some [7]\<rparr>\<rparr>"

section \<open>Encoded votes\<close>

text \<open>The encodings the nodes make of a sortition, a vote, and the part of a vote that is hashed.\<close>

definition sortition_rlp :: "VrfPbftSortition \<Rightarrow> bytes" where
  "sortition_rlp s = wrap (rlp (RStr (big_Bytes (unat (Period s)))) @ rlp (RStr (big_Bytes (unat (Round s))))
     @ rlp (RStr (big_Bytes (unat (Step s)))) @ rlp (RStr (Proof s)))"

definition vote_rlp :: "Vote \<Rightarrow> bytes" where
  "vote_rlp v = wrap (rlp (RStr (BlockHash v)) @ rlp (RStr (VrfSortitionBytes v)) @ rlp (RStr (Signature v)))"

definition vote_hash_rlp :: "Vote \<Rightarrow> bytes" where
  "vote_hash_rlp v = wrap (rlp (RStr (BlockHash v)) @ rlp (RStr (VrfSortitionBytes v)))"

definition vote_ok :: "Vote \<Rightarrow> bool" where
  "vote_ok v \<longleftrightarrow> length (BlockHash v) = 32 \<and> length (Signature v) = 65 \<and> length (Proof (VrfSortition v)) = 80
     \<and> VrfSortitionBytes v = sortition_rlp (VrfSortition v)"

lemma plain_field:
  "repr t no_tags v b \<Longrightarrow> repr_fields n (Suc i) fs vs body \<Longrightarrow>
     repr_fields n i (Field name True '''' t # fs) (v # vs) (b @ body)"
  by (rule field [where ts = no_tags]) (simp_all add: parseStructTag_def TrimSpace_def)

lemma skipped_field:
  "repr_fields n (Suc i) fs vs body \<Longrightarrow>
     repr_fields n i (Field name True ''-'' t # fs) (zero_val t # vs) body"
  by (rule ignored_field [where ts = "no_tags\<lparr>ignored := True\<rparr>"])
    (simp_all add: parseStructTag_def TrimSpace_def is_space_def)

lemmas repr_record = plain_field skipped_field no_fields

lemma unat_bounds: "unat (w :: u64) < 2 ^ 64" "unat (x :: u32) < 2 ^ 32"
  using unsigned_less [of w, where 'a = nat] unsigned_less [of x, where 'a = nat] by simp_all

lemma uint32_repr: "repr (TUint 32) ts (VUint (ucast w)) (rlp (RStr (big_Bytes (unat (w :: u32)))))"
proof -
  have "unat (ucast w :: u64) = unat w"
    using unat_bounds(2) [of w] by (simp add: unsigned_ucast_eq take_bit_nat_eq_self)
  with uint [of 32 "ucast w :: u64" ts] unat_bounds(2) [of w] show ?thesis by simp
qed

lemma uint64_repr: "repr (TUint 64) ts (VUint w) (rlp (RStr (big_Bytes (unat w))))"
  by (rule uint) (use unat_bounds(1) [of w] in simp_all)

lemma repr_sortition:
  assumes "length (Proof s) = 80"
  shows "repr VrfPbftSortition_type ts (VStruct [VUint (Period s), VUint (ucast (Round s)), VUint (ucast (Step s)),
    VBytes (Proof s)]) (sortition_rlp s)"
proof -
  have "repr (TArray 80 (TUint 8)) no_tags (VBytes (Proof s)) (rlp (RStr (Proof s)))"
    using assms by (intro byte_array) auto
  from repr_record(1) [OF uint64_repr repr_record(1) [OF uint32_repr repr_record(1) [OF uint32_repr
      repr_record(1) [OF this no_fields]]]]
  show ?thesis
    unfolding VrfPbftSortition_type_def sortition_rlp_def by (intro struct) simp
qed

lemma repr_vote:
  assumes "length (BlockHash v) = 32" "length (Signature v) = 65"
  shows "repr Vote_type ts (VStruct [VBytes (BlockHash v), VBytes (VrfSortitionBytes v), zero_val VrfPbftSortition_type,
      VBytes (Signature v)]) (vote_rlp v)"
    and "repr VoteHashData_type ts (VStruct [VBytes (BlockHash v), VBytes (VrfSortitionBytes v)]) (vote_hash_rlp v)"
proof -
  have sig: "repr (TArray 65 (TUint 8)) no_tags (VBytes (Signature v)) (rlp (RStr (Signature v)))"
    using assms by (intro byte_array) auto
  have h: "repr THash no_tags (VBytes (BlockHash v)) (rlp (RStr (BlockHash v)))" by (rule hash [OF assms(1)])
  from plain_field [OF h plain_field [OF byte_slice skipped_field [OF plain_field [OF sig no_fields]]]]
  show "repr Vote_type ts (VStruct [VBytes (BlockHash v), VBytes (VrfSortitionBytes v), zero_val VrfPbftSortition_type,
      VBytes (Signature v)]) (vote_rlp v)"
    unfolding Vote_type_def vote_rlp_def by (intro struct) simp
  from plain_field [OF h plain_field [OF byte_slice no_fields]]
  show "repr VoteHashData_type ts (VStruct [VBytes (BlockHash v), VBytes (VrfSortitionBytes v)]) (vote_hash_rlp v)"
    unfolding VoteHashData_type_def vote_hash_rlp_def by (intro struct) simp
qed

lemma vote_types_ok:
  "genTypeInfo Vote_type = Some None" "genTypeInfo VrfPbftSortition_type = Some None"
  "genTypeInfo VoteHashData_type = Some None"
  by code_simp+

lemma length_rlp_str_le: "length s < 2 ^ 64 \<Longrightarrow> length (rlp (RStr s)) \<le> length s + 9"
  using rlp_head_length_le [of "length s" "0x80" "0xB7"] by simp

lemma length_wrap_le: "length b < 2 ^ 64 \<Longrightarrow> length (wrap b) \<le> length b + 9"
  using rlp_head_length_le [of "length b" "0xC0" "0xF7"] by (simp add: wrap_def)

lemma length_rlp_uint_le: "length (rlp (RStr (big_Bytes (unat (w :: u64))))) \<le> 17"
  "length (rlp (RStr (big_Bytes (unat (x :: u32))))) \<le> 17"
  using length_big_Bytes_le [of "unat w" 8] unat_bounds(1) [of w] length_rlp_str_le [of "big_Bytes (unat w)"]
    length_big_Bytes_le [of "unat x" 8] unat_bounds(2) [of x] length_rlp_str_le [of "big_Bytes (unat x)"]
  by (simp_all del: rlp.simps)

lemma length_sortition_rlp: "length (Proof s) = 80 \<Longrightarrow> length (sortition_rlp s) \<le> 160"
  using length_rlp_uint_le(1) [of "Period s"] length_rlp_uint_le(2) [of "Round s"] length_rlp_uint_le(2) [of "Step s"]
    length_rlp_str_le [of "Proof s"] unfolding sortition_rlp_def
  by (intro order_trans [OF length_wrap_le]) (simp_all del: rlp.simps)

lemma length_vote_rlp:
  assumes "vote_ok v"
  shows "length (vote_rlp v) \<le> 400" "length (vote_hash_rlp v) \<le> 400" "length (sortition_rlp (VrfSortition v)) \<le> 160"
proof -
  have "length (sortition_rlp (VrfSortition v)) \<le> 160" using assms length_sortition_rlp by (simp add: vote_ok_def)
  then show "length (vote_rlp v) \<le> 400" "length (vote_hash_rlp v) \<le> 400" "length (sortition_rlp (VrfSortition v)) \<le> 160"
    using assms length_rlp_str_le [of "BlockHash v"] length_rlp_str_le [of "VrfSortitionBytes v"]
      length_rlp_str_le [of "Signature v"] unfolding vote_rlp_def vote_hash_rlp_def vote_ok_def
    by (auto intro!: order_trans [OF length_wrap_le] simp del: rlp.simps)
qed

lemma NewVote_vote_rlp:
  assumes "vote_ok v"
  shows "NewVote (vote_rlp v) = Some v" "EncodeToBytes Vote_type (VStruct [VBytes (BlockHash v),
      VBytes (VrfSortitionBytes v), zero_val VrfPbftSortition_type, VBytes (Signature v)]) = Some (Inr (vote_rlp v))"
    and "GetHash cr v = Some (keccak256_Hash cr (vote_hash_rlp v))"
proof -
  have ok: "length (BlockHash v) = 32" "length (Signature v) = 65" "length (Proof (VrfSortition v)) = 80"
    "VrfSortitionBytes v = sortition_rlp (VrfSortition v)" using assms by (simp_all add: vote_ok_def)
  note len = length_vote_rlp [OF assms]
  have "ucast (ucast w :: u64) = w" for w :: u32 by (rule bit_word_eqI) (simp add: bit_unsigned_iff)
  then show "NewVote (vote_rlp v) = Some v"
    using decode_bytes_repr [OF vote_types_ok(1) repr_vote(1) [OF ok(1,2)]] len ok(4)
      decode_bytes_repr [OF vote_types_ok(2) repr_sortition [OF ok(3)]]
    by (simp add: NewVote_def MustDecodeBytes_def del: zero_val.simps)
  show "EncodeToBytes Vote_type (VStruct [VBytes (BlockHash v),
      VBytes (VrfSortitionBytes v), zero_val VrfPbftSortition_type, VBytes (Signature v)]) = Some (Inr (vote_rlp v))"
    using encode_bytes_repr [OF vote_types_ok(1) repr_vote(1) [OF ok(1,2)]] len by simp
  show "GetHash cr v = Some (keccak256_Hash cr (vote_hash_rlp v))"
    using encode_bytes_repr [OF vote_types_ok(3) repr_vote(2) [OF ok(1,2)]] len
    by (simp add: GetHash_def MustEncodeToBytes_def must_def)
qed

text \<open>Two votes of one step for two block hashes, with a hash and a recovery function of the test's own.\<close>

definition ex_vote :: "byte \<Rightarrow> Vote" where
  "ex_vote h = (let s = \<lparr>Period = 1, Round = 1, Step = 3, Proof = replicate 80 7\<rparr> in
     \<lparr>BlockHash = replicate 32 h, VrfSortitionBytes = sortition_rlp s, VrfSortition = s, Signature = replicate 65 9\<rparr>)"

definition ex_crypto :: crypto where
  "ex_crypto = \<lparr>keccak256_Hash = (\<lambda>b. [b ! 10]), Ecrecover = (\<lambda>_ _. Some (replicate 33 7))\<rparr>"

lemma ex_vote_ok: "vote_ok (ex_vote h)"
  by (simp add: vote_ok_def ex_vote_def Let_def)

lemma ex_vote_hash: "GetHash ex_crypto (ex_vote h) = Some [h]"
proof -
  have "vote_hash_rlp (ex_vote h) ! 10 = h"
  proof -
    define x where "x = rlp (RStr (VrfSortitionBytes (ex_vote h)))"
    have v: "vote_hash_rlp (ex_vote h) = wrap ((0xA0 # replicate 32 h) @ x)"
      unfolding vote_hash_rlp_def x_def [symmetric] by (simp add: ex_vote_def Let_def rlp_head_def)
    have "length (rlp_head 0xC0 0xF7 (length ((0xA0 # replicate 32 h) @ x))) \<le> 9"
      using rlp_head_length_le [of "length ((0xA0 # replicate 32 h) @ x)"] length_vote_rlp(2) [OF ex_vote_ok, of h] v
      by (simp add: wrap_def)
    then show ?thesis unfolding v wrap_def
      by (auto simp: nth_append nth_Cons split: nat.splits)
  qed
  then show ?thesis using NewVote_vote_rlp(3) [OF ex_vote_ok, of ex_crypto h] by (simp add: ex_crypto_def)
qed

lemma ex_commit:
  "commitDoubleVotingProof ex_crypto 10 (vote_rlp (ex_vote 1), vote_rlp (ex_vote 2)) ex_slashing
     = Some (Inr (), jailed_for_proof 10 ([1], [2]) 0 ex_slashing)"
proof -
  have "validateVoteSig ex_crypto h s = Some (Inr 0)" for h s
    by (simp add: validateVoteSig_def ex_crypto_def BytesToAddress_def big_SetBytes_def numeral_eq_Suc)
  moreover have "votes_check (ex_vote 1) (ex_vote 2) = None"
    by (simp add: votes_check_def ex_vote_def Let_def)
  ultimately have "check_double_vote ex_crypto ex_slashing (ex_vote 1) [1] (ex_vote 2) [2] = Some (Inr (([1], [2]), 0))"
    by (simp add: check_double_vote_def genDoubleVotingProofDbKey_def doubleVotingProoExists_def ex_slashing_def
        ex_slashing_storage_def slashing_IsEligible_def)
  then show ?thesis
    unfolding commitDoubleVotingProof_def commit_effect
    by (simp add: NewVote_vote_rlp(1) [OF ex_vote_ok] ex_vote_hash)
qed

text \<open>C19: \<open>commitDoubleVotingProof\<close> changes nothing when it returns an error. When it succeeds, the two votes have
  different hashes, the same period, round and step, different block hashes (neither the null hash
  in a second finishing step), and signatures that recover one address, which the delayed
  reader finds eligible; that address and no other is jailed until the block plus \<open>JailTime\<close>, it is on the
  list of jailed validators or on the delayed one, exactly one new proof is recorded, and one log.\<close>

theorem commitDoubleVotingProof_correct:
  assumes "commitDoubleVotingProof cr block args c = Some (r, c')"
  shows "(\<forall>err. r = Inl err \<longrightarrow> c' = c) \<and>
    (r = Inr () \<longrightarrow> (\<exists>a b ha hb v k. double_vote cr args a b ha hb v
      \<and> slashing_IsEligible (delayedReader c) v
      \<and> validators_jail_block (sc_storage c') = (validators_jail_block (sc_storage c))
          (v \<mapsto> block + JailTime (Slashing (Protocol (sc_cfg c))))
      \<and> (v \<in> set (GetJailedValidators (delayedReader c)) \<or>
          (\<exists>l. field_jailed_validators (sc_storage c') = Some l \<and> v \<in> set l))
      \<and> k \<notin> double_voting_proofs (sc_storage c)
      \<and> double_voting_proofs (sc_storage c') = insert k (double_voting_proofs (sc_storage c))
      \<and> length (sc_logs c') = Suc (length (sc_logs c))))"
proof (cases r)
  case (Inl err)
  with assms commit_Inl show ?thesis by blast
next
  case (Inr u)
  with assms obtain a b ha hb v k where d: "double_vote cr args a b ha hb v"
    "k \<notin> double_voting_proofs (sc_storage c)" "slashing_IsEligible (delayedReader c) v"
    "c' = jailed_for_proof block k v c" using commit_Inr by metis
  show ?thesis
    using Inr d by (intro conjI impI exI [of _ a] exI [of _ b] exI [of _ ha] exI [of _ hb] exI [of _ v] exI [of _ k])
      (auto simp: jailed_for_proof_def saveDoubleVotingProof_def jailValidator_def Let_def)
qed

theorem commitDoubleVotingProof_correct_witness:
  "\<exists>v. slashing_IsEligible (delayedReader ex_slashing) v \<and>
     validators_jail_block (sc_storage (jailed_for_proof 10 ([1], [2]) 0 ex_slashing)) = [v \<mapsto> 110]"
  using commitDoubleVotingProof_correct [OF ex_commit]
  by (auto simp: ex_slashing_def ex_slashing_storage_def ex_slashing_cfg_def)

text \<open>C20: a double voting proof counts once: after it has been accepted, submitting the two votes again, in
  either order, at any block and in any later state that still holds the recorded proofs, returns
  the error for an existing proof and changes nothing.\<close>

theorem double_voting_proof_once:
  assumes "commitDoubleVotingProof cr block (ra, rb) c = Some (Inr u, c')"
    and "double_voting_proofs (sc_storage c') \<subseteq> double_voting_proofs (sc_storage d)"
  shows "commitDoubleVotingProof cr block' (ra, rb) d = Some (Inl ErrExistingDoubleVotingProof, d)
    \<and> commitDoubleVotingProof cr block' (rb, ra) d = Some (Inl ErrExistingDoubleVotingProof, d)"
proof -
  from assms(1) obtain a b ha hb v k where dv: "double_vote cr (ra, rb) a b ha hb v"
    and k: "genDoubleVotingProofDbKey ha hb = Some k" and c': "k \<in> double_voting_proofs (sc_storage c')"
    by (rule commit_Inr) (auto simp: jailed_for_proof_def saveDoubleVotingProof_def)
  have "genDoubleVotingProofDbKey hb ha = Some k" using k genDoubleVotingProofDbKey_sym by metis
  moreover have "doubleVotingProoExists k d" using c' assms(2) by (auto simp: doubleVotingProoExists_def)
  ultimately show ?thesis
    using dv k by (auto simp: commitDoubleVotingProof_def check_double_vote_def double_vote_def)
qed

theorem double_voting_proof_once_witness:
  "commitDoubleVotingProof ex_crypto 11 (vote_rlp (ex_vote 2), vote_rlp (ex_vote 1))
     (jailed_for_proof 10 ([1], [2]) 0 ex_slashing)
   = Some (Inl ErrExistingDoubleVotingProof, jailed_for_proof 10 ([1], [2]) 0 ex_slashing)"
  using double_voting_proof_once [OF ex_commit subset_refl, of 11] by blast

section \<open>Cleanup of the jailed list\<close>

lemma cleanup_loop_kept:
  "fst (cleanup_loop r b vs kept m) = kept @ filter (\<lambda>v. snd (reader_getJailBlock r v) > b) vs"
  by (induction vs arbitrary: kept m) (simp_all add: Let_def)

lemma cleanup_list:
  "field_jailed_validators (sc_storage (CleanupJailedValidators b c)) =
     (if nextCleanUpBlock c > b then field_jailed_validators (sc_storage c)
      else map_option (filter (\<lambda>v. \<exists>j. validators_jail_block (sc_storage c) v = Some j \<and> j > b))
             (field_jailed_validators (sc_storage c)))
   \<and> validators_jail_block (sc_storage (CleanupJailedValidators b c)) = validators_jail_block (sc_storage c)
   \<and> double_voting_proofs (sc_storage (CleanupJailedValidators b c)) = double_voting_proofs (sc_storage c)"
proof -
  have f: "b < snd (reader_getJailBlock \<lparr>sr_storage = sc_storage c, eligibleReader = None\<rparr> v)
      \<longleftrightarrow> (\<exists>j. validators_jail_block (sc_storage c) v = Some j \<and> b < j)" for v
    by (auto simp: reader_getJailBlock_def split: option.splits)
  show ?thesis
    using cleanup_loop_kept [of "slashing_Reader_Init (sc_cfg c) b None (\<lambda>_. sc_storage c)" b _ "[]" 0]
    by (auto simp: CleanupJailedValidators_def Let_def split_beta f GetJailedValidators_def
        slashing_Reader_Init_def split: option.splits)
qed

text \<open>C21: when it runs, \<open>CleanupJailedValidators\<close> keeps in order exactly the validators whose jail block is still ahead,
  and touches neither jail blocks nor proofs; when it does not run (too early, or no jailed
  validators) it changes nothing.\<close>

theorem CleanupJailedValidators_correct:
  "field_jailed_validators (sc_storage (CleanupJailedValidators b c)) =
     (if nextCleanUpBlock c > b then field_jailed_validators (sc_storage c)
      else map_option (filter (\<lambda>v. \<exists>j. validators_jail_block (sc_storage c) v = Some j \<and> j > b))
             (field_jailed_validators (sc_storage c)))
   \<and> validators_jail_block (sc_storage (CleanupJailedValidators b c)) = validators_jail_block (sc_storage c)
   \<and> double_voting_proofs (sc_storage (CleanupJailedValidators b c)) = double_voting_proofs (sc_storage c)"
  by (rule cleanup_list)

text \<open>C23: in the block that is its jail block a validator is still jailed according to \<open>IsJailed\<close>, but the cleanup of
  that block has already taken it off the list of jailed validators.\<close>

theorem cleanup_boundary:
  assumes "validators_jail_block (sc_storage c) v = Some b" "nextCleanUpBlock c \<le> b"
    and "field_jailed_validators (sc_storage c) = Some l"
  shows "let s = sc_storage (CleanupJailedValidators b c) in
    IsJailed \<lparr>sr_storage = s, eligibleReader = None\<rparr> b v
    \<and> v \<notin> set (GetJailedValidators \<lparr>sr_storage = s, eligibleReader = None\<rparr>)"
  using assms cleanup_list [of b c]
  by (auto simp: Let_def IsJailed_def reader_getJailBlock_def GetJailedValidators_def split: option.splits)

theorem cleanup_boundary_witness:
  "let s = sc_storage (CleanupJailedValidators 110 ex_jailed) in
    IsJailed \<lparr>sr_storage = s, eligibleReader = None\<rparr> 110 7
    \<and> 7 \<notin> set (GetJailedValidators \<lparr>sr_storage = s, eligibleReader = None\<rparr>)"
  using cleanup_boundary [of ex_jailed 7 110 "[7]"]
  by (simp add: ex_jailed_def ex_slashing_def ex_slashing_storage_def)

text \<open>C22: the list of jailed validators is extended from the delayed list, not from the current one: jailing a second
  validator before the first has reached the delayed list takes the first off the list, while
  its jail block remains.\<close>

theorem jailed_list_overwritten:
  assumes "v \<noteq> w" "v \<notin> set (GetJailedValidators (delayedReader c))"
    "w \<notin> set (GetJailedValidators (delayedReader c))"
  shows "let c1 = snd (jailValidator b v c); c2 = snd (jailValidator b' w c1) in
    (\<exists>l. field_jailed_validators (sc_storage c1) = Some l \<and> v \<in> set l)
    \<and> (\<forall>l. field_jailed_validators (sc_storage c2) = Some l \<longrightarrow> v \<notin> set l)
    \<and> validators_jail_block (sc_storage c2) v = Some (b + JailTime (Slashing (Protocol (sc_cfg c))))"
  using assms by (auto simp: jailValidator_def Let_def)

theorem jailed_list_overwritten_witness:
  "let c1 = snd (jailValidator 10 7 ex_slashing); c2 = snd (jailValidator 11 8 c1) in
    (\<exists>l. field_jailed_validators (sc_storage c1) = Some l \<and> 7 \<in> set l)
    \<and> (\<forall>l. field_jailed_validators (sc_storage c2) = Some l \<longrightarrow> 7 \<notin> set l)
    \<and> validators_jail_block (sc_storage c2) 7 = Some 110"
  using jailed_list_overwritten [of 7 8 ex_slashing 10 11]
  by (simp add: ex_slashing_def ex_slashing_storage_def ex_slashing_cfg_def GetJailedValidators_def)

end
