(* ===== verification/Dpos_Reader.thy ===== *)
theory Dpos_Reader
  imports Dpos_Example Dpos_Rewards Slashing
begin

text \<open>
  The readers of the DPoS contract (\<open>dpos/precompiled/reader.go\<close>) and the API that makes them
  (\<open>api.go\<close>): eligible votes with the jailed validators taken off, eligibility, stakes, keys and
  yield, read from a storage of an earlier block; and the configuration by block number.

  A storage reader of a block gives the storage of both contracts. A reader hands itself to its slashing
  reader as the test of eligibility, which uses only the base part of the record.
\<close>

section \<open>Readers\<close>

record dpos_reader_base =
  rd_cfg :: ChainConfig
  block_n :: blocknum
  rd_storage :: dpos_storage

record dpos_reader = dpos_reader_base +
  slashing_reader_of :: slashing_reader

type_synonym storage_factory = "blocknum \<Rightarrow> dpos_storage \<times> slashing_storage"

definition GetStakingBalance :: "'a dpos_reader_base_scheme \<Rightarrow> address \<Rightarrow> int" where
  "GetStakingBalance r addr =
     (case GetValidator (validators (rd_storage r)) addr of None \<Rightarrow> 0 | Some validator \<Rightarrow> TotalStake validator)"

definition reader_IsEligible :: "'a dpos_reader_base_scheme \<Rightarrow> address \<Rightarrow> bool" where
  "reader_IsEligible r addr =
     (let factor = getVotingPowerFactor (rd_storage r) addr in
      if factor = 0 then False
      else let effective = GetStakingBalance r addr * sint factor div sint BasisPointsScale
           in EligibilityBalanceThreshold (DPOS (rd_cfg r)) \<le> effective)"

definition make_reader :: "dpos_reader_base \<Rightarrow> blocknum \<Rightarrow> storage_factory \<Rightarrow> dpos_reader" where
  "make_reader r blk_n storage_factory =
     dpos_reader_base.extend r
       \<lparr>slashing_reader_of = slashing_Reader_Init (rd_cfg r) blk_n (Some (reader_IsEligible r)) (snd \<circ> storage_factory)\<rparr>"

definition Reader_Init :: "ChainConfig \<Rightarrow> blocknum \<Rightarrow> storage_factory \<Rightarrow> dpos_reader" where
  "Reader_Init c blk_n storage_factory =
     make_reader \<lparr>rd_cfg = c, block_n = blk_n, rd_storage = fst (storage_factory blk_n)\<rparr> blk_n storage_factory"

definition InitDelayedReader :: "ChainConfig \<Rightarrow> blocknum \<Rightarrow> storage_factory \<Rightarrow> dpos_reader" where
  "InitDelayedReader c blk_n storage_factory =
     (let b = (if ucast (DelegationDelay (DPOS c)) < blk_n then blk_n - ucast (DelegationDelay (DPOS c)) else 0) in
      make_reader \<lparr>rd_cfg = c, block_n = b, rd_storage = fst (storage_factory b)\<rparr> blk_n storage_factory)"

definition GetEligibleVoteCount :: "'a dpos_reader_base_scheme \<Rightarrow> address \<Rightarrow> u64 option" where
  "GetEligibleVoteCount r addr =
     voteCountWithFactor (GetStakingBalance r addr) (rd_cfg r) (block_n r) (getVotingPowerFactor (rd_storage r) addr)"

fun subtract_votes :: "dpos_reader \<Rightarrow> address list \<Rightarrow> u64 \<Rightarrow> u64 option" where
  "subtract_votes r [] ret = Some ret"
| "subtract_votes r (addr # addrs) ret = do {
     c \<leftarrow> GetEligibleVoteCount r addr;
     subtract_votes r addrs (ret - c)
   }"

definition TotalEligibleVoteCount :: "dpos_reader \<Rightarrow> u64 option" where
  "TotalEligibleVoteCount r =
     (let ret = (case field_eligible_vote_count (rd_storage r) of None \<Rightarrow> 0 | Some c \<Rightarrow> c)
      in subtract_votes r (GetJailedValidators (slashing_reader_of r)) ret)"

definition TotalAmountDelegated :: "dpos_reader \<Rightarrow> int" where
  "TotalAmountDelegated r = (case field_amount_delegated (rd_storage r) of None \<Rightarrow> 0 | Some a \<Rightarrow> uint a)"

definition reader_validators :: "dpos_reader \<Rightarrow> address list" where
  "reader_validators r =
     (let vs = validators (rd_storage r) in fst (GetValidatorsAddresses vs 0 (GetValidatorsCount vs)))"

definition GetValidatorsTotalStakes :: "dpos_reader \<Rightarrow> (address \<times> int) list" where
  "GetValidatorsTotalStakes r = map (\<lambda>addr. (addr, GetStakingBalance r addr)) (reader_validators r)"

fun vote_counts :: "dpos_reader \<Rightarrow> address list \<Rightarrow> (address \<times> u64) list option" where
  "vote_counts r [] = Some []"
| "vote_counts r (addr # addrs) = do {
     c \<leftarrow> voteCountWithFactor (GetStakingBalance r addr) (rd_cfg r) (block_n r)
            (getVotingPowerFactor (rd_storage r) addr);
     cs \<leftarrow> vote_counts r addrs;
     Some ((addr, c) # cs)
   }"

definition GetValidatorsVoteCounts :: "dpos_reader \<Rightarrow> (address \<times> u64) list option" where
  "GetValidatorsVoteCounts r = vote_counts r (reader_validators r)"

definition reader_GetVrfKey :: "dpos_reader \<Rightarrow> address \<Rightarrow> bytes" where
  "reader_GetVrfKey r addr =
     (case validator_vrf_key_field (validators (rd_storage r)) addr of None \<Rightarrow> [] | Some b \<Rightarrow> b)"

definition GetYield :: "dpos_reader \<Rightarrow> u64" where
  "GetYield r = (case field_yield (rd_storage r) of None \<Rightarrow> 0 | Some y \<Rightarrow> y)"

definition GetTotalSupply :: "dpos_reader \<Rightarrow> int" where
  "GetTotalSupply r = (case field_total_supply (rd_storage r) of None \<Rightarrow> 0 | Some t \<Rightarrow> uint t)"

section \<open>The API\<close>

record DposConfigWithBlock =
  DposConfig :: DPOSConfig
  Blk_n :: blocknum

record API =
  config_by_block :: "DposConfigWithBlock list"
  api_config :: ChainConfig

fun config_loop :: "blocknum \<Rightarrow> DposConfigWithBlock list \<Rightarrow> DPOSConfig option" where
  "config_loop blk_n [] = None"
| "config_loop blk_n (e # es) =
     (let next_block_num = (case es of [] \<Rightarrow> - 1 | e' # _ \<Rightarrow> Blk_n e') in
      if Blk_n e \<le> blk_n \<and> next_block_num > blk_n then Some (DposConfig e) else config_loop blk_n es)"

definition GetConfigByBlockNum :: "API \<Rightarrow> blocknum \<Rightarrow> ChainConfig" where
  "GetConfigByBlockNum api blk_n =
     (case config_loop blk_n (config_by_block api) of
        Some d \<Rightarrow> (api_config api)\<lparr>DPOS := d\<rparr>
      | None \<Rightarrow> api_config api)"

definition UpdateConfig :: "API \<Rightarrow> blocknum \<Rightarrow> ChainConfig \<Rightarrow> API" where
  "UpdateConfig api blk_n c =
     api\<lparr>config_by_block := config_by_block api @ [\<lparr>DposConfig = DPOS c, Blk_n = blk_n\<rparr>], api_config := c\<rparr>"

definition NewDelayedReader :: "API \<Rightarrow> blocknum \<Rightarrow> storage_factory \<Rightarrow> dpos_reader" where
  "NewDelayedReader api blk_n storage_factory = InitDelayedReader (GetConfigByBlockNum api blk_n) blk_n storage_factory"

definition NewReader :: "API \<Rightarrow> blocknum \<Rightarrow> storage_factory \<Rightarrow> dpos_reader" where
  "NewReader api blk_n storage_factory = Reader_Init (GetConfigByBlockNum api blk_n) blk_n storage_factory"

definition NewSlashingReader :: "API \<Rightarrow> blocknum \<Rightarrow> storage_factory \<Rightarrow> slashing_reader" where
  "NewSlashingReader api blk_n storage_factory =
     slashing_Reader_Init (GetConfigByBlockNum api blk_n) blk_n
       (Some (reader_IsEligible (NewDelayedReader api blk_n storage_factory))) (snd \<circ> storage_factory)"

section \<open>Vote counts\<close>

text \<open>The votes of an address in a contract: none if it is not a validator.\<close>

definition votes_of :: "Contract \<Rightarrow> address \<Rightarrow> int" where
  "votes_of c a = (case GetValidator (validators c) a of None \<Rightarrow> 0
     | Some v \<Rightarrow> votes (cfg c) (TotalStake v) (getVotingPowerFactor c a))"

text \<open>A reader looks at a contract: it has its storage and its configuration.\<close>

definition reads_contract :: "dpos_reader \<Rightarrow> Contract \<Rightarrow> bool" where
  "reads_contract r c \<longleftrightarrow> rd_storage r = dpos_storage.truncate c \<and> rd_cfg r = cfg c"

lemma truncate_simps [simp]:
  "validators (dpos_storage.truncate c) = validators c"
  "field_eligible_vote_count (dpos_storage.truncate c) = field_eligible_vote_count c"
  "field_amount_delegated (dpos_storage.truncate c) = field_amount_delegated c"
  "getVotingPowerFactor (dpos_storage.truncate c) a = getVotingPowerFactor c a"
  by (simp_all add: dpos_storage.truncate_def getVotingPowerFactor_def)

lemma votes_of_sum:
  assumes "dpos_inv now e c"
  shows "uint (eligible_vote_count c) = (\<Sum>a\<in>set (validators_list (validators c)). votes_of c a)"
    and "0 \<le> votes_of c a" and "a \<notin> set (validators_list (validators c)) \<Longrightarrow> votes_of c a = 0"
proof -
  note D = dpos_invD [OF assms]
  have dom: "dom (vmap (validators c)) = set (validators_list (validators c))"
    using vmap_wf(3) [OF D(2)] by (auto simp: ValidatorExists_def)
  have "total_votes c = (\<Sum>a\<in>set (validators_list (validators c)). votes_of c a)"
    unfolding total_votes_def msum_def dom [symmetric]
    by (intro sum.cong) (auto simp: votes_of_def vmap_wf(4) [OF D(2)])
  with D(13) show "uint (eligible_vote_count c) = (\<Sum>a\<in>set (validators_list (validators c)). votes_of c a)" by simp
  show "0 \<le> votes_of c a" using votes_nonneg [OF D(1)] by (simp add: votes_of_def split: option.splits)
  show "a \<notin> set (validators_list (validators c)) \<Longrightarrow> votes_of c a = 0"
    using dom vmap_wf(4) [OF D(2), of a] by (auto simp: votes_of_def split: option.splits)
qed

lemma reader_vote_count:
  assumes "dpos_inv now e c" "reads_contract r c"
  shows "GetEligibleVoteCount r a = Some (word_of_int (votes_of c a))"
proof -
  note D = dpos_invD [OF assms(1)]
  have "0 \<le> TotalStake v" if "GetValidator (validators c) a = Some v" for v
    using validators_wfD(1) [OF D(2) that] .
  then show ?thesis
    using assms(2) voteCountWithFactor_votes [OF D(1) _ D(6) [of a]] votes_zero [OF D(1)]
    by (auto simp: GetEligibleVoteCount_def GetStakingBalance_def votes_of_def reads_contract_def split: option.splits)
qed

lemma subtract_votes_eq:
  assumes "\<And>a. GetEligibleVoteCount r a = Some (word_of_int (f a))"
  shows "subtract_votes r as (word_of_int n) = Some (word_of_int (n - (\<Sum>a\<leftarrow>as. f a)))"
  by (induction as arbitrary: n) (simp_all add: assms diff_diff_eq flip: of_int_diff)

lemma vote_counts_eq:
  assumes "\<And>a. GetEligibleVoteCount r a = Some (word_of_int (f a))"
  shows "vote_counts r as = Some (map (\<lambda>a. (a, word_of_int (f a))) as)"
  using assms by (induction as) (simp_all add: GetEligibleVoteCount_def)

lemma reader_validators_eq:
  assumes "reads_contract r c" "length (validators_list (validators c)) < 2 ^ 32"
  shows "reader_validators r = validators_list (validators c)"
  using assms by (simp add: reader_validators_def reads_contract_def GetValidatorsAddresses_def GetAccounts_def
      imap_page_def GetValidatorsCount_def imap_count_def unat_of_nat Let_def Iterable_Map.slice_def)

text \<open>
  At the end of a block the counters of the contract are in its storage. \<open>counters_synced\<close> says that
  the copies \<open>_orig\<close>, with which \<open>EndBlockCall\<close> finds out whether it has to write, are what the storage holds.
\<close>

definition counters_synced :: "Contract \<Rightarrow> bool" where
  "counters_synced c \<longleftrightarrow>
     eligible_vote_count_orig c = (case field_eligible_vote_count c of None \<Rightarrow> 0 | Some n \<Rightarrow> n) \<and>
     amount_delegated_orig c = (case field_amount_delegated c of None \<Rightarrow> 0 | Some n \<Rightarrow> n)"

lemma EndBlockCall_stored:
  assumes "counters_synced c" "lazy_init_done c"
  shows "(case field_eligible_vote_count (EndBlockCall c b) of None \<Rightarrow> 0 | Some n \<Rightarrow> n) = eligible_vote_count c"
    and "(case field_amount_delegated (EndBlockCall c b) of None \<Rightarrow> 0 | Some n \<Rightarrow> n) = amount_delegated c"
    and "validators (EndBlockCall c b) = validators c" "cfg (EndBlockCall c b) = cfg c"
    and "getVotingPowerFactor (EndBlockCall c b) a = getVotingPowerFactor c a"
    and "eligible_vote_count (EndBlockCall c b) = eligible_vote_count c"
    and "amount_delegated (EndBlockCall c b) = amount_delegated c" "counters_synced (EndBlockCall c b)"
  using assms by (auto simp: EndBlockCall_def Let_def counters_synced_def put_u256_def getVotingPowerFactor_def
      split: option.splits)

lemma EndBlockCall_inv: "dpos_inv now e (EndBlockCall c b) \<longleftrightarrow> dpos_inv now e c"
  by (rule dpos_inv_cong) (simp_all add: EndBlockCall_def Let_def)

text \<open>C24: the total of eligible votes. After the end of a block, a reader of its storage whose list of jailed
  validators has no duplicates gets as total exactly the sum of the vote counts it reports
  for the validators that are not jailed: subtracting the jailed ones never wraps around.\<close>

theorem TotalEligibleVoteCount_correct:
  assumes inv: "dpos_inv now e c" "counters_synced c" "lazy_init_done c" "length (validators_list (validators c)) < 2 ^ 32"
    and r: "reads_contract r (EndBlockCall c b)" "distinct (GetJailedValidators (slashing_reader_of r))"
  shows "\<exists>n cs. TotalEligibleVoteCount r = Some n \<and> GetValidatorsVoteCounts r = Some cs
    \<and> map fst cs = validators_list (validators c)
    \<and> uint n = (\<Sum>(a, k)\<leftarrow>cs. if a \<in> set (GetJailedValidators (slashing_reader_of r)) then 0 else uint k)"
proof -
  let ?c = "EndBlockCall c b" and ?L = "validators_list (validators c)" and ?J = "GetJailedValidators (slashing_reader_of r)"
  let ?f = "votes_of ?c"
  have i: "dpos_inv now e ?c" using inv(1) by (simp add: EndBlockCall_inv)
  note S = EndBlockCall_stored [OF inv(2,3), of b]
  note V = votes_of_sum [OF i, unfolded S]
  have cnt: "GetEligibleVoteCount r a = Some (word_of_int (?f a))" for a by (rule reader_vote_count [OF i r(1)])
  have cs: "GetValidatorsVoteCounts r = Some (map (\<lambda>a. (a, word_of_int (?f a))) ?L)"
    using vote_counts_eq [of r ?f, OF cnt] reader_validators_eq [OF r(1)] inv(4) S(3) by (simp add: GetValidatorsVoteCounts_def)
  have field: "(case field_eligible_vote_count (rd_storage r) of None \<Rightarrow> 0 | Some n \<Rightarrow> n) = word_of_int (\<Sum>a\<in>set ?L. ?f a)"
    using r(1) S(1) V(1) by (simp add: reads_contract_def flip: V(1))
  have "(\<Sum>a\<leftarrow>?J. ?f a) = (\<Sum>a\<in>set ?L \<inter> set ?J. ?f a)"
    using r(2) V(3) by (auto simp: sum_list_distinct_conv_sum_set intro: sum.mono_neutral_cong)
  then have "(\<Sum>a\<in>set ?L. ?f a) - (\<Sum>a\<leftarrow>?J. ?f a) = (\<Sum>a\<in>set ?L - set ?J. ?f a)"
    by (simp add: sum.Int_Diff [of "set ?L" ?f "set ?J"])
  then have t: "TotalEligibleVoteCount r = Some (word_of_int (\<Sum>a\<in>set ?L - set ?J. ?f a))"
    using subtract_votes_eq [of r ?f ?J, OF cnt] by (simp only: TotalEligibleVoteCount_def Let_def field)
  have bound: "(\<Sum>a\<in>A. ?f a) < 2 ^ 64" if "A \<subseteq> set ?L" for A
    using sum_mono2 [of "set ?L" A ?f] that V(1,2) uint_lt2p [of "eligible_vote_count c"] by simp
  have u: "uint (word_of_int (\<Sum>a\<in>A. ?f a) :: u64) = (\<Sum>a\<in>A. ?f a)" if "A \<subseteq> set ?L" for A
    using bound [OF that] V(2) by (simp add: uint_word_of_int_eq take_bit_int_eq_self sum_nonneg del: of_int_sum)
  have "(\<Sum>a\<in>set ?L - set ?J. ?f a) = (\<Sum>a\<leftarrow>?L. if a \<in> set ?J then 0 else uint (word_of_int (?f a) :: u64))"
    using dpos_invD(2) [OF inv(1)] u [of "{a}" for a]
    by (auto simp: sum_list_distinct_conv_sum_set validators_wf_def sum.If_cases Diff_eq)
  note total = t trans [OF u [OF Diff_subset] this]
  have "map fst (map (\<lambda>a. (a, word_of_int (?f a) :: u64)) ?L) = ?L" by (simp add: comp_def)
  with total cs show ?thesis
    by (intro exI conjI) (assumption+, simp only: map_map comp_def prod.case)
qed


definition ex_reader :: dpos_reader where
  "ex_reader = \<lparr>rd_cfg = ex_cfg, block_n = 5, rd_storage = dpos_storage.truncate (EndBlockCall ex_contract 5),
     slashing_reader_of = \<lparr>sr_storage = ex_slashing_storage\<lparr>field_jailed_validators := Some [11]\<rparr>, eligibleReader = None\<rparr>\<rparr>"

theorem TotalEligibleVoteCount_correct_witness:
  "\<exists>n cs. TotalEligibleVoteCount ex_reader = Some n \<and> GetValidatorsVoteCounts ex_reader = Some cs
    \<and> map fst cs = [10, 11] \<and> uint n = (\<Sum>(a, k)\<leftarrow>cs. if a \<in> {11} then 0 else uint k)"
proof -
  have "counters_synced ex_contract" "lazy_init_done ex_contract" "length (validators_list (validators ex_contract)) < 2 ^ 32"
    by (simp_all add: counters_synced_def ex_contract_def ex_validators_def)
  moreover have "reads_contract ex_reader (EndBlockCall ex_contract 5)"
    by (simp add: reads_contract_def ex_reader_def EndBlockCall_def ex_contract_def)
  moreover have "GetJailedValidators (slashing_reader_of ex_reader) = [11]"
    by (simp add: ex_reader_def GetJailedValidators_def)
  ultimately show ?thesis
    using TotalEligibleVoteCount_correct [OF ex_inv0, of ex_reader 5]
    by (simp add: ex_contract_def ex_validators_def)
qed

text \<open>The block at which an update of the configuration takes effect: entries come in the order of their blocks.\<close>

lemma config_loop_eq:
  assumes "sorted_wrt (\<lambda>e e'. Blk_n e \<le> Blk_n e') es" "blk_n \<noteq> - 1"
  shows "config_loop blk_n es =
    (case filter (\<lambda>e. Blk_n e \<le> blk_n) es of [] \<Rightarrow> None | f # fs \<Rightarrow> Some (DposConfig (last (f # fs))))"
  using assms
proof (induction es)
  case Nil
  then show ?case by simp
next
  case (Cons e es)
  have top: "blk_n < - 1" using Cons.prems(2) by (simp add: word_order.not_eq_extremum)
  show ?case
  proof (cases "filter (\<lambda>e. Blk_n e \<le> blk_n) es")
    case Nil
    then have "\<And>e'. e' \<in> set es \<Longrightarrow> blk_n < Blk_n e'" by (auto simp: filter_empty_conv)
    then show ?thesis using Cons Nil top by (auto split: list.splits)
  next
    case f: (Cons f fs)
    then have "f \<in> set es" "Blk_n f \<le> blk_n" by (auto simp: filter_eq_Cons_iff)
    then have first: "\<not> blk_n < Blk_n (hd es)" "es \<noteq> []"
      using Cons.prems(1) by (cases es; fastforce)+
    have "Blk_n e \<le> blk_n" using \<open>f \<in> set es\<close> \<open>Blk_n f \<le> blk_n\<close> Cons.prems(1) by fastforce
    then show ?thesis using Cons f first by (cases es) auto
  qed
qed

text \<open>C25: configurations by block. If updates are recorded in the order of their blocks, then after another one for a
  block that is not earlier, blocks from that block on get the new DPoS configuration and
  earlier blocks the one they got before, except that blocks before the very first
  recorded update are given the newest configuration rather than the one they ran with.\<close>

theorem GetConfigByBlockNum_correct:
  assumes "sorted_wrt (\<lambda>e e'. Blk_n e \<le> Blk_n e') (config_by_block api)"
    and "\<forall>e\<in>set (config_by_block api). Blk_n e \<le> b" and "n \<noteq> - 1"
  shows "DPOS (GetConfigByBlockNum (UpdateConfig api b c) n) =
    (if b \<le> n then DPOS c
     else if \<exists>e\<in>set (config_by_block api). Blk_n e \<le> n then DPOS (GetConfigByBlockNum api n)
     else DPOS c)"
proof -
  have "sorted_wrt (\<lambda>e e'. Blk_n e \<le> Blk_n e') (config_by_block api @ [\<lparr>DposConfig = DPOS c, Blk_n = b\<rparr>])"
    using assms(1,2) by (simp add: sorted_wrt_append)
  from config_loop_eq [OF this assms(3)] config_loop_eq [OF assms(1,3)] show ?thesis
    by (cases "filter (\<lambda>e. Blk_n e \<le> n) (config_by_block api)")
      (auto simp: GetConfigByBlockNum_def UpdateConfig_def filter_empty_conv filter_eq_Cons_iff)
qed

definition ex_api :: API where
  "ex_api = \<lparr>config_by_block = [\<lparr>DposConfig = DPOS ex_cfg, Blk_n = 10\<rparr>], api_config = ex_cfg\<rparr>"

theorem GetConfigByBlockNum_correct_witness:
  "DPOS (GetConfigByBlockNum (UpdateConfig ex_api 20 ex_slashing_cfg) 15) = DPOS ex_cfg
   \<and> DPOS (GetConfigByBlockNum (UpdateConfig ex_api 20 ex_slashing_cfg) 25) = DPOS ex_slashing_cfg
   \<and> DPOS (GetConfigByBlockNum (UpdateConfig ex_api 20 ex_slashing_cfg) 5) = DPOS ex_slashing_cfg"
  using GetConfigByBlockNum_correct [of ex_api 20 15 ex_slashing_cfg]
    GetConfigByBlockNum_correct [of ex_api 20 25 ex_slashing_cfg]
    GetConfigByBlockNum_correct [of ex_api 20 5 ex_slashing_cfg]
  by (simp add: ex_api_def GetConfigByBlockNum_def)

section \<open>Eligibility and votes\<close>

text \<open>Eligibility and votes agree. For a contract in the invariant, a validator with votes is eligible, and an
  eligible one has votes as soon as the step of votes is not above the threshold of eligibility.\<close>

theorem eligible_iff_votes:
  assumes "dpos_inv now e c" "reads_contract r c"
    and "VoteEligibilityBalanceStep (DPOS (cfg c)) \<le> EligibilityBalanceThreshold (DPOS (cfg c))"
  shows "reader_IsEligible r a \<longleftrightarrow> GetEligibleVoteCount r a \<noteq> Some 0"
proof -
  note D = dpos_invD [OF assms(1)] and V = votes_of_sum [OF assms(1)]
  let ?f = "getVotingPowerFactor c a"
  have "votes_of c a \<le> uint (eligible_vote_count c)"
    unfolding V(1) using member_le_sum [of a "set (validators_list (validators c))" "votes_of c"] V(2,3)
    by (cases "a \<in> set (validators_list (validators c))") (auto intro: sum_nonneg)
  then have "uint (word_of_int (votes_of c a) :: u64) = votes_of c a"
    using V(2) [of a] uint_lt2p [of "eligible_vote_count c"] by (simp add: uint_word_of_int_eq take_bit_int_eq_self)
  then have zero: "GetEligibleVoteCount r a \<noteq> Some 0 \<longleftrightarrow> votes_of c a \<noteq> 0"
    using reader_vote_count [OF assms(1,2), of a] by (metis option.inject unsigned_0 of_int_0)
  have c: "0 < VoteEligibilityBalanceStep (DPOS (cfg c))" "0 < EligibilityBalanceThreshold (DPOS (cfg c))"
    using D(1) by (simp_all add: cfg_ok_def)
  have "reader_IsEligible r a \<longleftrightarrow> votes_of c a \<noteq> 0"
    using assms(2,3) c sint_small [OF D(6) [of a]] sint_small [of BasisPointsScale]
    by (auto simp: reader_IsEligible_def GetStakingBalance_def reads_contract_def votes_of_def votes_def Let_def
        BasisPointsScale_def zdiv_eq_0_iff split: option.splits)
  with zero show ?thesis by simp
qed

theorem eligible_iff_votes_witness:
  "reader_IsEligible ex_reader 10 \<longleftrightarrow> GetEligibleVoteCount ex_reader 10 \<noteq> Some 0"
proof -
  have "reads_contract ex_reader (EndBlockCall ex_contract 5)"
    by (simp add: reads_contract_def ex_reader_def EndBlockCall_def ex_contract_def)
  then show ?thesis
    using eligible_iff_votes [of 5 0 "EndBlockCall ex_contract 5" ex_reader 10] ex_inv0
    by (simp add: EndBlockCall_inv EndBlockCall_def ex_contract_def ex_cfg_def)
qed

end
