(* ===== verification/Dpos_Queries.thy ===== *)
theory Dpos_Queries
  imports Dpos_Reader
begin

text \<open>
  The read-only methods of the DPoS contract, the gas a call costs and the dispatch of a call
  (\<open>dpos/precompiled/dpos_contract.go\<close>). \<^const>\<open>None\<close> is a panic. The ABI (\<open>accounts/abi\<close>) is a parameter: the
  lookup of a method by its selector, the decoding of the arguments and the encoding of the results.
\<close>

section \<open>Results of queries\<close>

record ValidatorBasicInfo =
  VB_TotalStake :: int
  VB_CommissionReward :: int
  VB_Commission :: u16
  VB_LastCommissionChange :: u64
  VB_UndelegationsCount :: u16
  VB_Owner :: address
  VB_Description :: string
  VB_Endpoint :: string

type_synonym ValidatorData = "address \<times> ValidatorBasicInfo"

record DelegationData =
  DD_Account :: address
  DD_Stake :: int
  DD_Rewards :: int

record UndelegationData =
  UD_Stake :: int
  UD_Block :: u64
  UD_Validator :: address
  UD_ValidatorExists :: bool
  UD_UndelegationId :: u64

section \<open>Queries\<close>

definition basic_info :: "Contract \<Rightarrow> address \<Rightarrow> Validator \<Rightarrow> ValidatorBasicInfo option" where
  "basic_info self addr validator = do {
     validator_info \<leftarrow> GetValidatorInfo (validators self) addr;
     validator_rewards \<leftarrow> GetValidatorRewards (validators self) addr;
     Some \<lparr>VB_TotalStake = TotalStake validator, VB_CommissionReward = CommissionRewardsPool validator_rewards,
       VB_Commission = Commission validator, VB_LastCommissionChange = LastCommissionChange validator,
       VB_UndelegationsCount = UndelegationsCount validator, VB_Owner = GetValidatorOwner (validators self) addr,
       VB_Description = Description validator_info, VB_Endpoint = Endpoint validator_info\<rparr>
   }"

definition getValidator :: "Contract \<Rightarrow> address \<Rightarrow> (dpos_error + ValidatorBasicInfo) option" where
  "getValidator self validator_addr =
     (case GetValidator (validators self) validator_addr of
        None \<Rightarrow> Some (Inl ErrNonExistentValidator)
      | Some validator \<Rightarrow> map_option Inr (basic_info self validator_addr validator))"

definition to_validator_data :: "Contract \<Rightarrow> address \<Rightarrow> ValidatorData option" where
  "to_validator_data self validator_address = do {
     validator \<leftarrow> GetValidator (validators self) validator_address;
     info \<leftarrow> basic_info self validator_address validator;
     Some (validator_address, info)
   }"

definition getValidators :: "Contract \<Rightarrow> u32 \<Rightarrow> (ValidatorData list \<times> bool) option" where
  "getValidators self batch = do {
     let (addresses, end) = GetValidatorsAddresses (validators self) batch GetValidatorsMaxCount;
     vs \<leftarrow> those (map (to_validator_data self) addresses);
     Some (vs, end)
   }"

fun validators_for :: "Contract \<Rightarrow> address \<Rightarrow> u32 \<Rightarrow> address list \<Rightarrow> u32 \<Rightarrow> bool \<Rightarrow> ValidatorData list
    \<Rightarrow> (ValidatorData list \<times> bool) option" where
  "validators_for self owner to_skip [] skipped full vs = Some (vs, True)"
| "validators_for self owner to_skip (a # as) skipped full vs =
     (if GetValidatorOwner (validators self) a \<noteq> owner then validators_for self owner to_skip as skipped full vs
      else if skipped < to_skip then validators_for self owner to_skip as (skipped + 1) full vs
      else if \<not> full then do {
        d \<leftarrow> to_validator_data self a;
        let vs = vs @ [d];
        validators_for self owner to_skip as skipped (length vs = unat GetValidatorsMaxCount) vs
      }
      else Some (vs, False))"

definition getValidatorsFor :: "Contract \<Rightarrow> address \<Rightarrow> u32 \<Rightarrow> (ValidatorData list \<times> bool) option" where
  "getValidatorsFor self owner batch =
     (let addresses = fst (GetValidatorsAddresses (validators self) 0 (GetValidatorsCount (validators self)))
      in validators_for self owner (batch * GetValidatorsMaxCount) addresses 0 False [])"

fun total_delegation_loop :: "Contract \<Rightarrow> address \<Rightarrow> address list \<Rightarrow> int \<Rightarrow> int option" where
  "total_delegation_loop self delegator [] acc = Some acc"
| "total_delegation_loop self delegator (v # vs) acc = do {
     delegation \<leftarrow> GetDelegation (delegations self) delegator v;
     total_delegation_loop self delegator vs (acc + Stake delegation)
   }"

definition getTotalDelegation :: "Contract \<Rightarrow> address \<Rightarrow> int option" where
  "getTotalDelegation self delegator =
     total_delegation_loop self delegator
       (fst (GetDelegatorValidatorsAddresses (delegations self) delegator 0
          (GetDelegationsCount (delegations self) delegator))) 0"

definition delegation_data :: "Contract \<Rightarrow> address \<Rightarrow> address \<Rightarrow> DelegationData option" where
  "delegation_data self delegator validator_address = do {
     delegation \<leftarrow> GetDelegation (delegations self) delegator validator_address;
     validator \<leftarrow> GetValidator (validators self) validator_address;
     validator_rewards \<leftarrow> GetValidatorRewards (validators self) validator_address;
     state \<leftarrow> state_get self validator_address (V_LastUpdated validator);
     old_state \<leftarrow> state_get self validator_address (D_LastUpdated delegation);
     reward_per_stake \<leftarrow>
       (if TotalStake validator > 0 then do {
          r \<leftarrow> calculateRewardPer1Stake self (RewardsPool validator_rewards) (TotalStake validator);
          Some (RewardsPer1Stake state + r - RewardsPer1Stake old_state)
        } else Some 0);
     rewards \<leftarrow> calculateDelegatorReward self reward_per_stake (Stake delegation);
     Some \<lparr>DD_Account = validator_address, DD_Stake = Stake delegation, DD_Rewards = rewards\<rparr>
   }"

definition getDelegations :: "Contract \<Rightarrow> address \<Rightarrow> u32 \<Rightarrow> (DelegationData list \<times> bool) option" where
  "getDelegations self delegator batch = do {
     let (addresses, end) = GetDelegatorValidatorsAddresses (delegations self) delegator batch GetDelegationsMaxCount;
     ds \<leftarrow> those (map (delegation_data self delegator) addresses);
     Some (ds, end)
   }"

definition getUndelegation :: "Contract \<Rightarrow> address \<Rightarrow> address \<Rightarrow> u64 \<Rightarrow> UndelegationData option" where
  "getUndelegation self delegator validator undelegation_id =
     (case GetUndelegation (undelegations self) delegator validator undelegation_id of
        None \<Rightarrow> None
      | Some undelegation \<Rightarrow>
          Some \<lparr>UD_Stake = Amount undelegation, UD_Block = U_Block undelegation, UD_Validator = validator,
            UD_ValidatorExists = ValidatorExists (validators self) validator,
            UD_UndelegationId = U_Id undelegation\<rparr>)"

text \<open>
  The loop of \<open>getUndelegations\<close> over the validators of the delegator. It has fuel; the calls below give it one
  unit more than there are validators, and \<^const>\<open>None\<close> means that this was not enough.
\<close>

fun undelegations_loop :: "nat \<Rightarrow> Contract \<Rightarrow> address \<Rightarrow> u32 \<Rightarrow> u32 \<Rightarrow> UndelegationData list
    \<Rightarrow> (UndelegationData list \<times> bool) option" where
  "undelegations_loop 0 self delegator validator_idx to_skip_count us = None"
| "undelegations_loop (Suc fuel) self delegator validator_idx to_skip_count us =
     (case GetUndelegationsValidator (undelegations self) delegator validator_idx of
        (None, _) \<Rightarrow> Some (us, True)
      | (Some validator, validators_end) \<Rightarrow>
          let ids = undelegations_ids (undelegations self) (delegator, validator);
              undelegations_ids_count = imap_count ids
          in if undelegations_ids_count \<le> to_skip_count
             then undelegations_loop fuel self delegator (validator_idx + 1) (to_skip_count - undelegations_ids_count) us
             else
               let (page, ids_end) = imap_page ids to_skip_count (GetUndelegationsMaxCount - word_of_nat (length us));
                   us = us @ List.map_filter (getUndelegation self delegator validator) page
               in if word_of_nat (length us) = GetUndelegationsMaxCount
                  then Some (us, \<not> (\<not> validators_end \<or> \<not> ids_end))
                  else undelegations_loop fuel self delegator (validator_idx + 1) 0 us)"

definition getUndelegations :: "Contract \<Rightarrow> address \<Rightarrow> u32 \<Rightarrow> (UndelegationData list \<times> bool) option" where
  "getUndelegations self delegator batch =
     undelegations_loop (Suc (length (undelegations_validators (undelegations self) delegator)))
       self delegator 0 (batch * GetUndelegationsMaxCount) []"

section \<open>Gas\<close>

definition RegisterValidatorGas :: u64 where "RegisterValidatorGas = 80000"
definition SetCommissionGas :: u64 where "SetCommissionGas = 20000"
definition DelegateGas :: u64 where "DelegateGas = 40000"
definition UndelegateGas :: u64 where "UndelegateGas = 60000"
definition ConfirmUndelegateGas :: u64 where "ConfirmUndelegateGas = 20000"
definition CancelUndelegateGas :: u64 where "CancelUndelegateGas = 60000"
definition ReDelegateGas :: u64 where "ReDelegateGas = 80000"
definition ClaimRewardsGas :: u64 where "ClaimRewardsGas = 40000"
definition ClaimCommissionRewardsGas :: u64 where "ClaimCommissionRewardsGas = 20000"
definition SetValidatorInfoGas :: u64 where "SetValidatorInfoGas = 20000"
definition DposGetMethodsGas :: u64 where "DposGetMethodsGas = 5000"
definition DposBatchGetMethodsGas :: u64 where "DposBatchGetMethodsGas = 5000"
definition DefaultDposMethodGas :: u64 where "DefaultDposMethodGas = 20000"
definition TransferIntoDPoSContractGas :: u64 where "TransferIntoDPoSContractGas = 1000"

definition TransferIntoDPoSContractMethod :: bytes where
  "TransferIntoDPoSContractMethod = [0x44, 0xDF, 0x8E, 0x70]"

definition IsTransferIntoDPoSContract :: "bytes \<Rightarrow> bool" where
  "IsTransferIntoDPoSContract input \<longleftrightarrow> input = TransferIntoDPoSContractMethod"

definition isPayableMethod :: "string \<Rightarrow> bool" where
  "isPayableMethod method \<longleftrightarrow> method = ''registerValidator'' \<or> method = ''delegate''"

definition batch_items_count :: "u64 \<Rightarrow> u64 \<Rightarrow> u64 \<Rightarrow> u64" where
  "batch_items_count actual_count batch max_batch_items_count =
     (if actual_count = 0 then 1
      else
        let batch_shift_count = batch * max_batch_items_count in
        if batch_shift_count \<ge> actual_count then 1
        else
          let items_to_be_returned_count = actual_count - batch_shift_count in
          if items_to_be_returned_count > max_batch_items_count then max_batch_items_count
          else items_to_be_returned_count)"

fun storage_reads_loop :: "nat \<Rightarrow> Undelegations \<Rightarrow> address \<Rightarrow> u64 \<Rightarrow> u32 \<Rightarrow> u64 \<Rightarrow> u64 \<Rightarrow> u64 \<Rightarrow> u64 option" where
  "storage_reads_loop 0 us delegator max_batch_items_count validator_idx to_skip_count storage_reads_count processed = None"
| "storage_reads_loop (Suc fuel) us delegator max_batch_items_count validator_idx to_skip_count storage_reads_count processed =
     (case GetUndelegationsValidator us delegator validator_idx of
        (None, _) \<Rightarrow> Some storage_reads_count
      | (Some validator, _) \<Rightarrow>
          let undelegations_ids_count = ucast (imap_count (undelegations_ids us (delegator, validator)));
              storage_reads_count = storage_reads_count + 1 + 1
          in if undelegations_ids_count \<le> to_skip_count
             then storage_reads_loop fuel us delegator max_batch_items_count (validator_idx + 1)
                    (to_skip_count - undelegations_ids_count) storage_reads_count processed
             else
               let to_be_processed = max_batch_items_count - processed;
                   undelegations_ids_left = undelegations_ids_count - to_skip_count;
                   to_be_processed = (if undelegations_ids_left < to_be_processed then undelegations_ids_left
                                      else to_be_processed);
                   processed = processed + to_be_processed;
                   storage_reads_count = storage_reads_count + 2 * to_be_processed
               in if processed = max_batch_items_count then Some storage_reads_count
                  else storage_reads_loop fuel us delegator max_batch_items_count (validator_idx + 1) 0
                         storage_reads_count processed)"

definition getUndelegationsStorageReadsCount :: "Contract \<Rightarrow> address \<Rightarrow> u32 \<Rightarrow> u64 \<Rightarrow> u64 option" where
  "getUndelegationsStorageReadsCount self delegator batch max_batch_items_count =
     storage_reads_loop (Suc (length (undelegations_validators (undelegations self) delegator)))
       (undelegations self) delegator max_batch_items_count 0 (ucast batch * max_batch_items_count) 0 0"


section \<open>Calls\<close>

datatype dpos_out =
    OutUint64 u64 | OutBool bool | OutBig int | OutValidator ValidatorBasicInfo
  | OutValidators "ValidatorData list" bool | OutDelegations "DelegationData list" bool
  | OutUndelegations "UndelegationData list" bool | OutUndelegation UndelegationData

record dpos_abi =
  MethodById :: "bytes \<Rightarrow> string option"
  unpack_validator :: "bytes \<Rightarrow> address option"
  unpack_undelegate :: "bytes \<Rightarrow> UndelegateArgs option"
  unpack_validator_id :: "bytes \<Rightarrow> (address \<times> u64) option"
  unpack_redelegate :: "bytes \<Rightarrow> RedelegateArgs option"
  unpack_set_commission :: "bytes \<Rightarrow> SetCommissionArgs option"
  unpack_register :: "bytes \<Rightarrow> RegisterValidatorArgs option"
  unpack_set_info :: "bytes \<Rightarrow> SetValidatorInfoArgs option"
  unpack_batch :: "bytes \<Rightarrow> u32 option"
  unpack_address_batch :: "bytes \<Rightarrow> (address \<times> u32) option"
  unpack_address :: "bytes \<Rightarrow> address option"
  unpack_undelegation :: "bytes \<Rightarrow> (address \<times> address \<times> u64) option"
  pack_out :: "dpos_out \<Rightarrow> dpos_error + bytes"

definition method_gas :: "dpos_abi \<Rightarrow> CallFrame \<Rightarrow> string \<Rightarrow> Contract \<Rightarrow> u64 option" where
  "method_gas ab ctx name self =
     (let input = drop 4 (Input ctx) in
      if name = ''delegate'' then Some DelegateGas
      else if name = ''undelegate'' then Some UndelegateGas
      else if name = ''confirmUndelegate'' then Some ConfirmUndelegateGas
      else if name = ''cancelUndelegate'' then Some CancelUndelegateGas
      else if name = ''reDelegate'' then Some ReDelegateGas
      else if name = ''claimCommissionRewards'' then Some ClaimCommissionRewardsGas
      else if name = ''setCommission'' then Some SetCommissionGas
      else if name = ''registerValidator'' then Some RegisterValidatorGas
      else if name = ''setValidatorInfo'' then Some SetValidatorInfoGas
      else if name = ''isValidatorEligible'' then Some DefaultDposMethodGas
      else if name = ''getTotalEligibleVotesCount'' then Some DefaultDposMethodGas
      else if name = ''getValidatorEligibleVotesCount'' then Some DefaultDposMethodGas
      else if name = ''getValidator'' then Some DposGetMethodsGas
      else if name = ''claimRewards'' then Some ClaimRewardsGas
      else if name = ''claimAllRewards'' then
        Some (ucast (GetDelegationsCount (delegations self) (CallerAccount ctx)) * (DposBatchGetMethodsGas + ClaimRewardsGas))
      else if name = ''getValidators'' then
        (case unpack_batch ab input of
           None \<Rightarrow> Some 0
         | Some batch \<Rightarrow>
             Some (batch_items_count (ucast (GetValidatorsCount (validators self))) (ucast batch)
               (ucast GetValidatorsMaxCount) * DposBatchGetMethodsGas))
      else if name = ''getValidatorsFor'' then
        (case unpack_address_batch ab input of
           None \<Rightarrow> Some 0
         | Some _ \<Rightarrow> Some (ucast GetValidatorsMaxCount * DposBatchGetMethodsGas))
      else if name = ''getTotalDelegation'' then
        (case unpack_address ab input of
           None \<Rightarrow> Some 0
         | Some delegator \<Rightarrow> Some (ucast (GetDelegationsCount (delegations self) delegator) * DposBatchGetMethodsGas))
      else if name = ''getDelegations'' then
        (case unpack_address_batch ab input of
           None \<Rightarrow> Some 0
         | Some (delegator, batch) \<Rightarrow>
             Some (batch_items_count (ucast (GetDelegationsCount (delegations self) delegator)) (ucast batch)
               (ucast GetDelegationsMaxCount) * DposBatchGetMethodsGas))
      else if name = ''getUndelegations'' then
        (case unpack_address_batch ab input of
           None \<Rightarrow> Some 0
         | Some (delegator, batch) \<Rightarrow>
             map_option (\<lambda>n. n * DposBatchGetMethodsGas)
               (getUndelegationsStorageReadsCount self delegator batch (ucast GetUndelegationsMaxCount)))
      else if name = ''getUndelegation'' then Some DposGetMethodsGas
      else Some DefaultDposMethodGas)"

definition RequiredGas :: "dpos_abi \<Rightarrow> CallFrame \<Rightarrow> Contract \<Rightarrow> (u64 \<times> Contract) option" where
  "RequiredGas ab ctx self =
     (if length (Input ctx) < 4 then Some (0, self)
      else do {
        self \<leftarrow> lazy_init self;
        case MethodById ab (Input ctx) of
          None \<Rightarrow> Some (if IsTransferIntoDPoSContract (Input ctx) then TransferIntoDPoSContractGas else 0, self)
        | Some name \<Rightarrow>
            if Value ctx > 0 \<and> \<not> isPayableMethod name then Some (0, self)
            else map_option (\<lambda>g. (g, self)) (method_gas ab ctx name self)
      })"

text \<open>A method without outputs returns no bytes, a query packs its result and leaves the state as it is.\<close>

definition no_output :: "unit res \<Rightarrow> bytes res" where
  "no_output r = map_option (\<lambda>(e, self). (map_sum id (\<lambda>_. []) e, self)) r"

definition with_args :: "'a option \<Rightarrow> Contract \<Rightarrow> ('a \<Rightarrow> 'b res) \<Rightarrow> 'b res" where
  "with_args args self f = (case args of None \<Rightarrow> Some (Inl ErrAbi, self) | Some a \<Rightarrow> f a)"

definition query :: "dpos_abi \<Rightarrow> Contract \<Rightarrow> dpos_out option \<Rightarrow> bytes res" where
  "query ab self out = map_option (\<lambda>x. (pack_out ab x, self)) out"

definition run_method :: "dpos_abi \<Rightarrow> crypto \<Rightarrow> dpos_reader \<Rightarrow> CallFrame \<Rightarrow> string \<Rightarrow> bytes \<Rightarrow> Contract \<Rightarrow> bytes res" where
  "run_method ab cr delayedStorage ctx name input self =
     (let block_num = evm_block self in
      if name = ''delegate'' then
        with_args (unpack_validator ab input) self (\<lambda>v. no_output (delegate self ctx block_num v))
      else if name = ''undelegate'' then
        with_args (unpack_undelegate ab input) self (\<lambda>args. do {
          (r, self) \<leftarrow> undelegate self ctx block_num args;
          Some (case r of Inl err \<Rightarrow> Inl err | Inr i \<Rightarrow> pack_out ab (OutUint64 i), self)
        })
      else if name = ''confirmUndelegate'' then
        with_args (unpack_validator_id ab input) self (\<lambda>(v, i). no_output (confirmUndelegate self ctx block_num v i))
      else if name = ''cancelUndelegate'' then
        with_args (unpack_validator_id ab input) self (\<lambda>(v, i). no_output (cancelUndelegate self ctx block_num v i))
      else if name = ''reDelegate'' then
        with_args (unpack_redelegate ab input) self (\<lambda>args. no_output (redelegate self ctx block_num args))
      else if name = ''claimRewards'' then
        with_args (unpack_validator ab input) self (\<lambda>v. no_output (claimRewards self ctx block_num v))
      else if name = ''claimAllRewards'' then no_output (claimAllRewards self ctx block_num)
      else if name = ''claimCommissionRewards'' then
        with_args (unpack_validator ab input) self (\<lambda>v. no_output (claimCommissionRewards self ctx block_num v))
      else if name = ''setCommission'' then
        with_args (unpack_set_commission ab input) self (\<lambda>args. no_output (setCommission self ctx block_num args))
      else if name = ''registerValidator'' then
        with_args (unpack_register ab input) self (\<lambda>args. no_output (registerValidator cr self ctx block_num args))
      else if name = ''setValidatorInfo'' then
        with_args (unpack_set_info ab input) self (\<lambda>args. no_output (setValidatorInfo self ctx args))
      else if name = ''isValidatorEligible'' then
        with_args (unpack_validator ab input) self (\<lambda>v. query ab self (Some (OutBool (reader_IsEligible delayedStorage v))))
      else if name = ''getTotalEligibleVotesCount'' then
        query ab self (map_option OutUint64 (TotalEligibleVoteCount delayedStorage))
      else if name = ''getValidatorEligibleVotesCount'' then
        with_args (unpack_validator ab input) self (\<lambda>v. query ab self (map_option OutUint64 (GetEligibleVoteCount delayedStorage v)))
      else if name = ''getValidator'' then
        with_args (unpack_validator ab input) self (\<lambda>v. do {
          r \<leftarrow> getValidator self v;
          Some (case r of Inl err \<Rightarrow> Inl err | Inr i \<Rightarrow> pack_out ab (OutValidator i), self)
        })
      else if name = ''getValidators'' then
        with_args (unpack_batch ab input) self (\<lambda>b. query ab self (map_option (\<lambda>(l, e). OutValidators l e) (getValidators self b)))
      else if name = ''getValidatorsFor'' then
        with_args (unpack_address_batch ab input) self (\<lambda>(a, b).
          query ab self (map_option (\<lambda>(l, e). OutValidators l e) (getValidatorsFor self a b)))
      else if name = ''getTotalDelegation'' then
        with_args (unpack_address ab input) self (\<lambda>a. query ab self (map_option OutBig (getTotalDelegation self a)))
      else if name = ''getDelegations'' then
        with_args (unpack_address_batch ab input) self (\<lambda>(a, b).
          query ab self (map_option (\<lambda>(l, e). OutDelegations l e) (getDelegations self a b)))
      else if name = ''getUndelegations'' then
        with_args (unpack_address_batch ab input) self (\<lambda>(a, b).
          query ab self (map_option (\<lambda>(l, e). OutUndelegations l e) (getUndelegations self a b)))
      else if name = ''getUndelegation'' then
        with_args (unpack_undelegation ab input) self (\<lambda>(d, v, i).
          case getUndelegation self d v i of
            None \<Rightarrow> Some (Inl ErrNonExistentUndelegation, self)
          | Some u \<Rightarrow> query ab self (Some (OutUndelegation u)))
      else Some (Inr [], self))"

definition Run :: "dpos_abi \<Rightarrow> crypto \<Rightarrow> dpos_reader \<Rightarrow> CallFrame \<Rightarrow> Contract \<Rightarrow> bytes res" where
  "Run ab cr delayedStorage ctx self =
     (if length (Input ctx) < 4 then Some (Inl (ErrDataTooShort (length (Input ctx))), self)
      else do {
        self \<leftarrow> lazy_init self;
        case MethodById ab (Input ctx) of
          None \<Rightarrow> Some (if IsTransferIntoDPoSContract (Input ctx) then Inr [] else Inl ErrAbi, self)
        | Some name \<Rightarrow>
            if Value ctx > 0 \<and> \<not> isPayableMethod name then Some (Inl ErrNonPayableMethod, self)
            else run_method ab cr delayedStorage ctx name (drop 4 (Input ctx)) self
      })"

end
