(* ===== verification/Dpos_Paging.thy ===== *)
theory Dpos_Paging
  imports Dpos_Queries Dpos_Claims
begin

text \<open>
  What the queries of the DPoS contract return: pages of the lists they are about, the rewards a
  delegator can claim, and how the gas of a call relates to its page.
\<close>

section \<open>Undelegations\<close>

text \<open>All undelegations of a delegator, in the order of the indices.\<close>

definition undelegation_keys :: "Undelegations \<Rightarrow> address \<Rightarrow> address list \<Rightarrow> (address \<times> u64) list" where
  "undelegation_keys us d vs = concat (map (\<lambda>v. map (Pair v) (undelegations_ids us (d, v))) vs)"

definition all_undelegations :: "Contract \<Rightarrow> address \<Rightarrow> (address \<times> u64) list" where
  "all_undelegations self d = undelegation_keys (undelegations self) d (undelegations_validators (undelegations self) d)"

definition undelegation_at :: "Contract \<Rightarrow> address \<Rightarrow> address \<times> u64 \<Rightarrow> UndelegationData" where
  "undelegation_at self d = (\<lambda>(v, i). the (getUndelegation self d v i))"

lemma GetUndelegationsValidator_eq:
  assumes "length (undelegations_validators us d) < 2 ^ 32" "k \<le> length (undelegations_validators us d)"
  shows "GetUndelegationsValidator us d (word_of_nat k) =
    (case drop k (undelegations_validators us d) of [] \<Rightarrow> (None, True) | v # vs \<Rightarrow> (Some v, vs = []))"
proof -
  let ?vs = "undelegations_validators us d"
  have k: "unat (word_of_nat k :: u32) = k" using assms by (simp add: unat_of_nat)
  show ?thesis
  proof (cases "drop k ?vs")
    case Nil
    then show ?thesis
      using assms k by (simp add: GetUndelegationsValidator_def GetAccounts_def imap_page_def Iterable_Map.slice_def)
  next
    case (Cons v vs)
    then have "length ?vs = k + Suc (length vs)" by (metis length_Cons length_drop drop_all le_add_diff_inverse
        linorder_not_le list.distinct(1) nat_less_le order_less_imp_le)
    with Cons show ?thesis
      using k by (simp add: GetUndelegationsValidator_def GetAccounts_def imap_page_def Iterable_Map.slice_def)
  qed
qed

lemma ids_data:
  assumes "undelegations_wf (undelegations self)" "set ids \<subseteq> set (undelegations_ids (undelegations self) (d, v))"
  shows "List.map_filter (getUndelegation self d v) ids = map (undelegation_at self d) (map (Pair v) ids)"
  using assms(2)
proof (induction ids)
  case (Cons i ids)
  then obtain u where "GetUndelegation (undelegations self) d v i = Some u"
    using undelegations_wfD(1) [OF assms(1), of d v i] by (auto simp: UndelegationExists_def)
  with Cons show ?case by (simp add: map_filter_simps getUndelegation_def undelegation_at_def)
qed (simp add: map_filter_simps)

lemma undelegations_loop_eq:
  assumes wf: "undelegations_wf (undelegations self)"
    and len: "length (undelegations_validators (undelegations self) d) < 2 ^ 32"
    and at: "drop k (undelegations_validators (undelegations self) d) = vs" "k \<le> length (undelegations_validators (undelegations self) d)"
    and fuel: "length vs < fuel" and skip: "skip < 2 ^ 32" and room: "length us < 20"
  shows "undelegations_loop fuel self d (word_of_nat k) (word_of_nat skip) us =
    (let rest = undelegation_keys (undelegations self) d vs in
     Some (us @ map (undelegation_at self d) (take (20 - length us) (drop skip rest)),
           length rest \<le> skip + (20 - length us)))"
  using at fuel skip room
proof (induction fuel arbitrary: k vs skip us)
  case 0
  then show ?case by simp
next
  case (Suc fuel)
  let ?us = "undelegations self"
  note nxt = GetUndelegationsValidator_eq [OF len Suc.prems(2), unfolded Suc.prems(1)]
  show ?case
  proof (cases vs)
    case Nil
    then show ?thesis using nxt by (simp add: undelegation_keys_def)
  next
    case (Cons v rs)
    let ?ids = "undelegations_ids ?us (d, v)" and ?rest = "undelegation_keys ?us d rs"
    have keys: "undelegation_keys ?us d (v # rs) = map (Pair v) ?ids @ ?rest" by (simp add: undelegation_keys_def)
    have "v \<in> set (undelegations_validators ?us d)" using Suc.prems(1) Cons by (metis in_set_dropD list.set_intros(1))
    have n: "unat (imap_count ?ids) = length ?ids" "length ?ids < 2 ^ 32"
      using wf by (auto simp: undelegations_wf_def imap_count_def unat_of_nat)
    have s: "unat (word_of_nat skip :: u32) = skip" using Suc.prems(4) by (simp add: unat_of_nat)
    have le: "imap_count ?ids \<le> (word_of_nat skip :: u32) \<longleftrightarrow> length ?ids \<le> skip" by (simp add: word_le_nat_alt n s)
    have lt: "k < length (undelegations_validators ?us d)" using Suc.prems(1) Cons by (metis drop_all linorder_not_le list.distinct(1))
    then have at': "drop (Suc k) (undelegations_validators ?us d) = rs" "Suc k \<le> length (undelegations_validators ?us d)"
      using Suc.prems(1) Cons by (auto simp: drop_Suc simp flip: tl_drop)
    have k': "word_of_nat k + 1 = (word_of_nat (Suc k) :: u32)" by simp
    have fuel': "length rs < fuel" using Suc.prems(3) Cons by simp
    show ?thesis
    proof (cases "length ?ids \<le> skip")
      case True
      have "word_of_nat skip - imap_count ?ids = (word_of_nat (skip - length ?ids) :: u32)"
        using True by (simp add: imap_count_def)
      then show ?thesis
        using True Suc.IH [OF at' fuel', of "skip - length ?ids" us] Suc.prems(4,5) nxt Cons le k'
        by (simp add: Let_def keys del: of_nat_Suc of_nat_diff) arith
    next
      case False
      let ?m = "20 - length us"
      let ?page = "take ?m (drop skip ?ids)"
      let ?us' = "us @ map (undelegation_at self d) (map (Pair v) ?page)"
      have "(20 :: u32) - word_of_nat (length us) = word_of_nat ?m" using Suc.prems(5) by simp
      then have m: "unat (GetUndelegationsMaxCount - word_of_nat (length us)) = ?m"
        by (simp add: GetUndelegationsMaxCount_def unat_of_nat)
      have page: "List.map_filter (getUndelegation self d v) ?page = map (undelegation_at self d) (map (Pair v) ?page)"
        by (rule ids_data [OF wf]) (meson in_set_dropD in_set_takeD subsetI)
      have l: "length ?us' \<le> 20" using Suc.prems(5) by simp
      then have full: "(word_of_nat (length ?us') :: u32) = 20 \<longleftrightarrow> length ?us' = 20"
        using u32_eq_iff [of "length ?us'" 20] by simp
      have loop: "undelegations_loop (Suc fuel) self d (word_of_nat k) (word_of_nat skip) us =
        (if length ?us' = 20 then Some (?us', rs = [] \<and> length ?ids \<le> skip + ?m)
         else undelegations_loop fuel self d (word_of_nat (Suc k)) 0 ?us')"
        using nxt Cons le False m s page full k'
        by (simp add: Let_def imap_page_def Iterable_Map.slice_def GetUndelegationsMaxCount_def
            del: of_nat_Suc)
      have none: "?rest = [] \<longleftrightarrow> rs = []"
      proof (cases rs)
        case r: (Cons w ws)
        then have "w \<in> set (undelegations_validators ?us d)" using at'(1) by (metis in_set_dropD list.set_intros(1))
        then have "undelegations_ids ?us (d, w) \<noteq> []" using wf by (auto simp: undelegations_wf_def)
        with r show ?thesis by (simp add: undelegation_keys_def)
      qed (simp add: undelegation_keys_def)
      show ?thesis
      proof (cases "length ?us' = 20")
        case full20: True
        then have m_le: "?m \<le> length ?ids - skip" using Suc.prems(5) by simp
        have "take ?m (drop skip (map (Pair v) ?ids @ ?rest)) = map (Pair v) ?page"
          using m_le False by (simp add: take_map drop_map)
        moreover have "length (map (Pair v) ?ids @ ?rest) \<le> skip + ?m \<longleftrightarrow> rs = [] \<and> length ?ids \<le> skip + ?m"
        proof (cases "rs = []")
          case rs: False
          then have "0 < length ?rest" using none by simp
          then have "\<not> length ?ids + length ?rest \<le> skip + ?m" using m_le False by linarith
          then show ?thesis using rs by simp
        qed (use none in simp)
        ultimately show ?thesis unfolding loop Let_def Cons keys using full20 by simp
      next
        case part: False
        then have "length ?ids - skip < ?m" "length ?us' < 20" using l by simp_all
        then show ?thesis unfolding loop Let_def Cons keys
          using part Suc.IH [OF at' fuel', of 0 ?us'] False
          by (simp add: Let_def take_map drop_map del: undelegations_loop.simps of_nat_Suc) arith
      qed
    qed
  qed
qed

lemma batch_start: "unat b * 20 < 2 ^ 32 \<Longrightarrow> (b :: u32) * 20 = word_of_nat (unat b * 20)"
  by (simp add: word_unat_eq_iff unat_word_ariths unat_of_nat)

text \<open>C26: \<open>getUndelegations\<close> returns, for a batch whose start fits in 32 bits, exactly the twenty undelegations of
  that batch in the concatenation of all undelegations of the delegator, and \<open>end\<close> says whether
  there are none after it. The loop over the validators always terminates.\<close>

theorem getUndelegations_correct:
  assumes "undelegations_wf (undelegations self)" "length (undelegations_validators (undelegations self) d) < 2 ^ 32"
    and "unat batch * 20 < 2 ^ 32"
  shows "getUndelegations self d batch =
    Some (map (undelegation_at self d) (take 20 (drop (unat batch * 20) (all_undelegations self d))),
          length (all_undelegations self d) \<le> unat batch * 20 + 20)"
  using undelegations_loop_eq [OF assms(1,2) refl _ _ assms(3), of 0 "Suc (length (undelegations_validators (undelegations self) d))" "[]"]
  unfolding getUndelegations_def GetUndelegationsMaxCount_def batch_start [OF assms(3)]
  by (simp add: Let_def all_undelegations_def del: undelegations_loop.simps of_nat_mult)

theorem getUndelegations_correct_witness:
  "getUndelegations ex_contract 1 0 = Some (map (undelegation_at ex_contract 1) (take 20 (drop 0 [(10, 1)])), True)"
  using getUndelegations_correct [of ex_contract 1 0] ex_undelegations_wf
  by (simp add: ex_contract_def all_undelegations_def undelegation_keys_def ex_undelegations_def)

section \<open>Validators\<close>

definition validator_data_of :: "Contract \<Rightarrow> address \<Rightarrow> ValidatorData" where
  "validator_data_of self a = the (to_validator_data self a)"

lemma to_validator_data_eq:
  assumes "validators_wf (validators self)" "a \<in> set (validators_list (validators self))"
  shows "to_validator_data self a = Some (validator_data_of self a)"
  using validators_wf_exists [OF assms(1), of a] assms(2)
  by (auto simp: validator_data_of_def to_validator_data_def basic_info_def ValidatorExists_def)

lemma those_map_Some: "(\<And>x. x \<in> set xs \<Longrightarrow> f x = Some (g x)) \<Longrightarrow> those (map f xs) = Some (map g xs)"
  by (induction xs) auto

lemma validators_for_eq:
  assumes wf: "validators_wf (validators self)" and s: "s < 2 ^ 32"
    and sub: "set as \<subseteq> set (validators_list (validators self))"
    and st: "k \<le> s" "length vs \<le> 20" "vs \<noteq> [] \<longrightarrow> k = s"
  shows "validators_for self owner (word_of_nat s) as (word_of_nat k) (length vs = 20) vs =
    (let own = filter (\<lambda>a. GetValidatorOwner (validators self) a = owner) as in
     Some (vs @ map (validator_data_of self) (take (20 - length vs) (drop (s - k) own)),
           length own \<le> (s - k) + (20 - length vs)))"
  using sub st
proof (induction as arbitrary: k vs)
  case Nil
  then show ?case by simp
next
  case (Cons a as)
  have lt: "(word_of_nat k :: u32) < word_of_nat s \<longleftrightarrow> k < s"
    using s Cons.prems(2) by (simp add: word_less_nat_alt unat_of_nat)
  consider (other) "GetValidatorOwner (validators self) a \<noteq> owner"
    | (skip) "GetValidatorOwner (validators self) a = owner" "k < s"
    | (take) "GetValidatorOwner (validators self) a = owner" "k = s" "length vs < 20"
    | (full) "GetValidatorOwner (validators self) a = owner" "k = s" "length vs = 20"
    using Cons.prems(2,3) by linarith
  then show ?case
  proof cases
    case other
    then show ?thesis using Cons.IH [of k vs] Cons.prems by (simp add: Let_def)
  next
    case skip
    have loop: "validators_for self owner (word_of_nat s) (a # as) (word_of_nat k) (length vs = 20) vs =
      validators_for self owner (word_of_nat s) as (word_of_nat (Suc k)) (length vs = 20) vs"
      using skip lt by (simp add: add.commute)
    have "s - k = Suc (s - Suc k)" "vs = []" using skip Cons.prems(4) by auto
    then show ?thesis
      using skip Cons.IH [of "Suc k" vs] Cons.prems(1) unfolding loop by (simp add: Let_def del: of_nat_Suc)
  next
    case take
    have d: "to_validator_data self a = Some (validator_data_of self a)" using to_validator_data_eq [OF wf] Cons.prems(1) by simp
    let ?vs = "vs @ [validator_data_of self a]"
    have loop: "validators_for self owner (word_of_nat s) (a # as) (word_of_nat k) (length vs = 20) vs =
      validators_for self owner (word_of_nat s) as (word_of_nat k) (length ?vs = 20) ?vs"
      using take lt d by (simp add: GetValidatorsMaxCount_def)
    have m: "20 - length vs = Suc (19 - length vs)" "20 - length ?vs = 19 - length vs" using take by simp_all
    show ?thesis
      using Cons.IH [of k ?vs] Cons.prems(1) take unfolding loop m by (simp add: Let_def)
  next
    case full
    then show ?thesis using lt by simp
  qed
qed

text \<open>C27: for a batch whose start fits in 32 bits, the two queries for validators return the twenty validators of the
  batch, of all validators or of those of one owner, in the order of the list and without panic, and say whether it
  was the last batch.\<close>

theorem getValidators_correct:
  assumes "validators_wf (validators self)" "length (validators_list (validators self)) < 2 ^ 32" "unat batch * 20 < 2 ^ 32"
  shows "let page = (\<lambda>as. Some (map (validator_data_of self) (take 20 (drop (unat batch * 20) as)), length as \<le> unat batch * 20 + 20))
    in getValidators self batch = page (validators_list (validators self))
      \<and> getValidatorsFor self owner batch
          = page (filter (\<lambda>a. GetValidatorOwner (validators self) a = owner) (validators_list (validators self)))"
proof -
  let ?L = "validators_list (validators self)"
  have b: "unat (batch * 20) = unat batch * 20" 
    using assms(3) unfolding batch_start [OF assms(3)] by (simp add: unat_of_nat del: of_nat_mult)
  have "those (map (to_validator_data self) (take 20 (drop (unat batch * 20) ?L)))
      = Some (map (validator_data_of self) (take 20 (drop (unat batch * 20) ?L)))"
    by (rule those_map_Some, rule to_validator_data_eq [OF assms(1)]) (meson in_set_dropD in_set_takeD)
  then have "getValidators self batch = Some (map (validator_data_of self) (take 20 (drop (unat batch * 20) ?L)), length ?L \<le> unat batch * 20 + 20)"
    using b by (simp add: getValidators_def GetValidatorsAddresses_def GetAccounts_def imap_page_def Iterable_Map.slice_def
        GetValidatorsMaxCount_def)
  moreover have "fst (GetValidatorsAddresses (validators self) 0 (GetValidatorsCount (validators self))) = ?L"
    using assms(2) by (simp add: GetValidatorsAddresses_def GetAccounts_def imap_page_def Iterable_Map.slice_def
        GetValidatorsCount_def imap_count_def unat_of_nat)
  moreover note validators_for_eq [OF assms(1,3) order_refl, of 0 "[]" owner]
  ultimately show ?thesis
    unfolding getValidatorsFor_def GetValidatorsMaxCount_def batch_start [OF assms(3)] Let_def
    by (simp del: of_nat_mult)
qed

theorem getValidators_correct_witness:
  "getValidators ex_contract 0 = Some (map (validator_data_of ex_contract) [10, 11], True)
   \<and> getValidatorsFor ex_contract 2 0 = Some (map (validator_data_of ex_contract) [11], True)"
  using getValidators_correct [of ex_contract 0 2] ex_validators_wf
  by (simp add: ex_contract_def ex_validators_def GetValidatorOwner_def)

section \<open>Gas of the queries\<close>

lemma batch_items_count_eq:
  assumes "unat b * 20 < 2 ^ 32"
  shows "unat (batch_items_count (ucast (n :: u32)) (ucast (b :: u32)) 20) = max 1 (min 20 (unat n - unat b * 20))"
proof -
  have n: "unat (ucast n :: u64) = unat n" "unat (ucast b :: u64) = unat b"
    using unat_bounds(2) [of n] unat_bounds(2) [of b] by (simp_all add: unsigned_ucast_eq take_bit_nat_eq_self)
  have s: "unat ((ucast b :: u64) * 20) = unat b * 20" using assms n by (simp add: unat_word_ariths)
  have d: "unat ((ucast n :: u64) - ucast b * 20) = unat n - unat b * 20" if "ucast b * 20 \<le> (ucast n :: u64)"
    using unat_sub [OF that] s n by simp
  have z: "(ucast n :: u64) = 0 \<longleftrightarrow> unat n = 0" unfolding word_unat_eq_iff n(1) by simp
  have le: "(ucast n :: u64) \<le> ucast b * 20 \<longleftrightarrow> unat n \<le> unat b * 20" by (simp add: word_le_nat_alt n s)
  show ?thesis
  proof (cases "unat n \<le> unat b * 20")
    case True
    then show ?thesis using le by (simp add: batch_items_count_def Let_def)
  next
    case False
    then have "unat ((ucast n :: u64) - ucast b * 20) = unat n - unat b * 20" using d le by auto
    then show ?thesis using False le z
      by (auto simp: batch_items_count_def Let_def word_less_nat_alt)
  qed
qed

text \<open>The gas of \<open>getValidators\<close> and \<open>getDelegations\<close> counts the items of the page that is returned, and at least one,
  as long as the start of the page fits in 32 bits.\<close>

theorem batch_gas_correct:
  assumes "unat batch * 20 < 2 ^ 32" "length xs < 2 ^ 32"
  shows "unat (batch_items_count (ucast (imap_count xs)) (ucast batch) (ucast GetValidatorsMaxCount))
    = max 1 (length (fst (GetAccounts xs batch GetValidatorsMaxCount)))"
proof -
  have b: "unat (batch * 20) = unat batch * 20"
    using assms(1) unfolding batch_start [OF assms(1)] by (simp add: unat_of_nat del: of_nat_mult)
  show ?thesis
    using batch_items_count_eq [OF assms(1), of "imap_count xs"] assms(2) b
    by (simp add: GetValidatorsMaxCount_def GetAccounts_def imap_page_def Iterable_Map.slice_def imap_count_def unat_of_nat
        min.commute)
qed

theorem batch_gas_correct_witness:
  "unat (batch_items_count (ucast (imap_count [10, 11 :: address])) (ucast (0 :: u32)) (ucast GetValidatorsMaxCount)) = 2"
  using batch_gas_correct [of 0 "[10, 11]"]
  by (simp add: GetAccounts_def imap_page_def Iterable_Map.slice_def GetValidatorsMaxCount_def)

text \<open>C28: for a large batch number the start of the page is multiplied in 32 bits, the gas in 64: the batch
  \<open>2^30\<close> returns the first page, but costs the gas of one item however many validators there are.\<close>

theorem batch_gas_wraps:
  "getValidators self 0x40000000 = getValidators self 0
   \<and> batch_items_count (ucast (GetValidatorsCount (validators self))) (ucast (0x40000000 :: u32)) (ucast GetValidatorsMaxCount) = 1"
proof -
  have "(0x40000000 :: u32) * 20 = 0" by simp
  then have w: "GetAccounts xs 0x40000000 20 = GetAccounts xs 0 20" for xs by (simp only: GetAccounts_def mult_zero_left)
  have "(ucast n :: u64) \<le> 21474836480" for n :: u32
  proof -
    have "unat (ucast n :: u64) < 2 ^ 32"
      using unat_bounds(2) [of n] by (simp add: unsigned_ucast_eq take_bit_nat_eq_self)
    then show ?thesis by (simp add: word_le_nat_alt)
  qed
  then have "batch_items_count (ucast n) (ucast (0x40000000 :: u32)) (ucast GetValidatorsMaxCount) = 1" for n :: u32
    by (simp add: batch_items_count_def GetValidatorsMaxCount_def)
  with w show ?thesis
    by (simp add: getValidators_def GetValidatorsAddresses_def GetValidatorsMaxCount_def)
qed

section \<open>Rewards shown and paid\<close>

lemma claim_balance:
  assumes run: "claimRewards self ctx block v = Some (Inr (), self')" and fresh: "field_state self (v, block) = None"
    and x: "GetDelegation (delegations self) (CallerAccount ctx) v = Some x"
    and val: "GetValidator (validators self) v = Some val" "GetValidatorRewards (validators self) v = Some rw" "0 < TotalStake val"
    and stu: "field_state self (v, V_LastUpdated val) = Some stu" "0 \<le> RewardsPer1Stake stu"
    and stx: "dec_state (field_state self) (v, V_LastUpdated val) (v, D_LastUpdated x) = Some stx" "0 \<le> RewardsPer1Stake stx"
    and ctx: "CallerAccount ctx \<noteq> Account ctx" "0 < max_stake self"
  shows "balances self' (CallerAccount ctx) = balances self (CallerAccount ctx) + max 0
    ((RewardsPer1Stake stu + RewardsPool rw * max_stake self div TotalStake val - RewardsPer1Stake stx) * Stake x div max_stake self)"
proof -
  let ?st = "\<lparr>RewardsPer1Stake = RewardsPer1Stake stu + RewardsPool rw * max_stake self div TotalStake val, Count = 1\<rparr> :: State"
  let ?c = "self\<lparr>field_state := dec_state (field_state self) (v, V_LastUpdated val)\<rparr>"
  have cs: "current_state self v block val rw = Some (?st, val\<lparr>V_LastUpdated := block\<rparr>, rw\<lparr>RewardsPool := 0\<rparr>, ?c)"
    using fresh stu val(3) by (simp add: current_state_def state_get_def state_get_and_decrement_Some calculateRewardPer1Stake_def)
  from run obtain vs c2 where st: "settle_delegation (?c\<lparr>validators := vs\<rparr>) ctx v ?st x = Some c2" and bal: "balances self' = balances c2"
    using fresh val x unfolding claimRewards_def
    by (auto simp: state_get_def cs state_put_def Let_def simp del: ModifyValidator_Some ModifyValidatorRewards_Some
        elim!: bind_eq_SomeE split: if_splits)
  from settle_balance [OF st, of stx] stx ctx bal show ?thesis by simp
qed

text \<open>C29: \<open>getDelegations\<close> tells the truth. For a delegation in a contract that satisfies the invariant it does not panic,
  and the reward it shows is what \<open>claimRewards\<close> pays the delegator, if nobody has acted on the
  validator in the block of the claim yet.\<close>

theorem shown_rewards_are_paid:
  assumes inv: "dpos_inv block 0 self" and ctx: "frame_ok ctx" and room: "room self v block 0"
    and x: "GetDelegation (delegations self) (CallerAccount ctx) v = Some x" and fresh: "field_state self (v, block) = None"
  shows "\<exists>data self'. delegation_data self (CallerAccount ctx) v = Some data \<and>
    claimRewards self ctx block v = Some (Inr (), self') \<and> DD_Stake data = Stake x \<and> 0 \<le> DD_Rewards data \<and>
    balances self' (CallerAccount ctx) = balances self (CallerAccount ctx) + DD_Rewards data"
proof -
  let ?d = "CallerAccount ctx" and ?M = "max_stake self"
  note i = dpos_invD [OF inv]
  obtain val rw where old: "GetValidator (validators self) v = Some val" "GetValidatorRewards (validators self) v = Some rw"
    using i(10) [OF x] vmap_wf(2) [OF i(2)] vmap_Some by blast
  note acc = i(11) [OF old(1)]
  obtain self' where run: "claimRewards self ctx block v = Some (Inr (), self')" using claim_exec [OF inv ctx room x] by blast
  obtain stu where stu: "field_state self (v, V_LastUpdated val) = Some stu" "0 \<le> RewardsPer1Stake stu"
    using acc_inv_validator_state [OF acc i(3)] by metis
  obtain stx where stx: "field_state self (v, D_LastUpdated x) = Some stx" "0 \<le> RewardsPer1Stake stx"
    "refs (delegations self) v val (D_LastUpdated x) \<le> uint (Count stx)"
    using acc_inv_delegation_state [OF acc i(3) x] by metis
  have pos: "0 < TotalStake val" using stake_le_total [OF inv old(1) x] i(9) [OF x] by linarith
  obtain stx' where stx': "dec_state (field_state self) (v, V_LastUpdated val) (v, D_LastUpdated x) = Some stx'"
    "RewardsPer1Stake stx' = RewardsPer1Stake stx"
  proof (cases "D_LastUpdated x = V_LastUpdated val")
    case True
    then have "1 + 1 \<le> uint (Count stx)" using refs_delegation [OF i(3) x, of val] stx(3) by simp
    then show thesis using dec_state_count [of "field_state self" "(v, D_LastUpdated x)" stx 1] stx(1) True that by auto
  qed (use stx that in \<open>simp add: dec_state_other\<close>)
  have le: "RewardsPer1Stake stx \<le> RewardsPer1Stake stu" 
    using acc x rps_Some [of "field_state self", OF stu(1)] rps_Some [of "field_state self", OF stx(1)]
    unfolding acc_inv_def by metis
  let ?r = "(RewardsPer1Stake stu + RewardsPool rw * ?M div TotalStake val - RewardsPer1Stake stx) * Stake x div ?M"
  have "0 \<le> RewardsPool rw * ?M div TotalStake val"
    using validators_wfD(2) [OF i(2) old(2)] i(8) pos by (simp add: pos_imp_zdiv_nonneg_iff)
  then have r: "0 \<le> ?r" using le i(8) i(9) [OF x] by (simp add: pos_imp_zdiv_nonneg_iff)
  have "delegation_data self ?d v = Some \<lparr>DD_Account = v, DD_Stake = Stake x, DD_Rewards = ?r\<rparr>"
    using x old stu stx pos i(8)
    by (simp add: delegation_data_def state_get_def calculateRewardPer1Stake_def calculateDelegatorReward_def)
  moreover have "balances self' ?d = balances self ?d + ?r"
    using claim_balance [OF run fresh x old pos stu stx'(1)] stx'(2) stx(2) ctx i(8) r by (simp add: frame_ok_def)
  ultimately show ?thesis using run r by auto
qed

theorem shown_rewards_are_paid_witness:
  "\<exists>data self'. delegation_data ex_contract 1 10 = Some data \<and>
    claimRewards ex_contract (ex_call 1 0) 5 10 = Some (Inr (), self') \<and> DD_Stake data = 3000 \<and>
    balances self' 1 = balances ex_contract 1 + DD_Rewards data"
proof -
  have "room ex_contract 10 5 0" by (simp add: room_def ex_totals) (simp add: ex_contract_def ex_cfg_def)
  moreover have "GetDelegation (delegations ex_contract) 1 10 = Some \<lparr>Stake = 3000, D_LastUpdated = 2\<rparr>"
    "field_state ex_contract (10, 5) = None" by (simp_all add: ex_contract_def ex_GetDelegation)
  moreover have "frame_ok (ex_call 1 0)" by (simp add: frame_ok_def dpos_contract_address_def)
  ultimately show ?thesis
    using shown_rewards_are_paid [OF ex_inv0, of "ex_call 1 0" 10] by fastforce
qed

end
