(* ===== verification/Evm_Machine.thy ===== *)
theory Evm_Machine
  imports Account_Codec
begin

text \<open>
  The data the EVM interpreter works on (\<open>core/vm\<close>): the errors of \<open>errors.go\<close>, checked arithmetic
  of \<open>common/math\<close>, the helpers of \<open>common.go\<close>, the stack (\<open>stack.go\<close>, \<open>stack_table.go\<close>), the memory of
  a frame and the pool that backs it (\<open>memory.go\<close>), and the jump destination analysis
  (\<open>analysis.go\<close>).

  A \<open>uint256.Int\<close> is a 256-bit word, a Go \<open>int\<close> or \<open>int64\<close> an \<^typ>\<open>int\<close>; where the sources convert a
  \<open>uint64\<close> to a signed integer the model reads the word as signed. A panic is \<^const>\<open>None\<close>. The
  interpreter itself may also run out of the fuel that bounds its recursion, which is a third
  outcome, different from a panic.
\<close>

unbundle bit_operations_syntax

section \<open>Outcomes and errors\<close>

datatype 'a exec = Done 'a | Panic | NoFuel

definition lift_exec :: "'a option \<Rightarrow> 'a exec" where
  "lift_exec r = (case r of None \<Rightarrow> Panic | Some x \<Rightarrow> Done x)"

definition exec_bind :: "'a exec \<Rightarrow> ('a \<Rightarrow> 'b exec) \<Rightarrow> 'b exec" where
  "exec_bind r f = (case r of Done x \<Rightarrow> f x | Panic \<Rightarrow> Panic | NoFuel \<Rightarrow> NoFuel)"

lemma lift_exec_simps [simp]: "lift_exec (Some x) = Done x" "lift_exec None = Panic"
  by (simp_all add: lift_exec_def)

lemma lift_exec_eq_Done [simp]: "lift_exec r = Done x \<longleftrightarrow> r = Some x"
  by (simp add: lift_exec_def split: option.splits)

lemma lift_exec_not_NoFuel [simp]: "lift_exec r \<noteq> NoFuel" "NoFuel \<noteq> lift_exec r"
  by (simp_all add: lift_exec_def split: option.splits)

lemma exec_bind_simps [simp]:
  "exec_bind (Done x) f = f x" "exec_bind Panic f = Panic" "exec_bind NoFuel f = NoFuel"
  by (simp_all add: exec_bind_def)

lemma exec_bind_eq_DoneE:
  assumes "exec_bind r f = Done y"
  obtains x where "r = Done x" "f x = Done y"
  using assms by (cases r) auto

lemma exec_bind_eq_Done: "exec_bind r f = Done y \<longleftrightarrow> (\<exists>x. r = Done x \<and> f x = Done y)"
  by (cases r) auto

lemma exec_bind_eq_NoFuel:
  "exec_bind r f = NoFuel \<longleftrightarrow> r = NoFuel \<or> (\<exists>x. r = Done x \<and> f x = NoFuel)"
  by (cases r) auto

text \<open>
  The errors the interpreter returns: those of \<open>errors.go\<close>, \<open>errGasUintOverflow\<close> of \<open>jump_table.go\<close>,
  and the ones made with \<open>fmt.Errorf\<close> or returned by a precompiled contract.
\<close>

datatype vm_error =
    ErrOutOfGas | ErrIntrinsicGas | ErrCodeStoreOutOfGas | ErrDepth
  | ErrInsufficientBalanceForTransfer | ErrContractAddressCollision | ErrInsufficientBalanceForGas
  | ErrNonceTooHigh | ErrNonceTooLow | ErrWriteProtection | ErrTraceLimitReached
  | ErrReturnDataOutOfBounds | ErrExecutionReverted | ErrMaxCodeSizeExceeded
  | errGasUintOverflow
  | InvalidOpcode byte | StackUnderflow nat nat | StackLimitReached nat
  | InvalidJumpDestination byte u256
  | PrecompileError string

section \<open>Integers\<close>

definition MaxUint64 :: u64 where
  "MaxUint64 = 0xFFFFFFFFFFFFFFFF"

definition SafeAdd :: "u64 \<Rightarrow> u64 \<Rightarrow> u64 \<times> bool" where
  "SafeAdd x y = (x + y, y > MaxUint64 - x)"

definition SafeMul :: "u64 \<Rightarrow> u64 \<Rightarrow> u64 \<times> bool" where
  "SafeMul x y = (if x = 0 \<or> y = 0 then (0, False) else (x * y, y > MaxUint64 div x))"

definition U256_Uint64 :: "u256 \<Rightarrow> u64" where
  "U256_Uint64 x = ucast x"

definition IsUint64 :: "u256 \<Rightarrow> bool" where
  "IsUint64 x \<longleftrightarrow> x \<le> 0xFFFFFFFFFFFFFFFF"

definition Uint64WithOverflow :: "u256 \<Rightarrow> u64 \<times> bool" where
  "Uint64WithOverflow x = (U256_Uint64 x, \<not> IsUint64 x)"

definition u256_of_u64 :: "u64 \<Rightarrow> u256" where
  "u256_of_u64 x = ucast x"

text \<open>The number of bits of a natural number, as \<open>BitLen\<close> of \<open>uint256.Int\<close> and \<open>big.Int\<close>.\<close>

fun bit_len :: "nat \<Rightarrow> nat" where
  "bit_len n = (if n = 0 then 0 else Suc (bit_len (n div 2)))"

declare bit_len.simps [simp del]

lemma uint_le_int: "uint w \<le> int n \<longleftrightarrow> unat w \<le> n"
  unfolding uint_nat by (simp only: of_nat_le_iff)

lemma int_add_uint_le: "int a + uint w \<le> int n \<longleftrightarrow> a + unat w \<le> n"
  unfolding uint_nat by linarith

lemma nat_uint_diff: "nat (uint a - uint b) = unat a - unat b"
  unfolding uint_nat by (simp add: nat_diff_distrib' del: of_nat_unat)

section \<open>Helpers of \<open>common.go\<close>\<close>

definition calcMemSize :: "u256 \<Rightarrow> u256 \<Rightarrow> u256" where
  "calcMemSize off l = (if l = 0 then 0 else off + l)"

definition calcMemSize64WithUint :: "u256 \<Rightarrow> u64 \<Rightarrow> u64 \<times> bool" where
  "calcMemSize64WithUint off length64 =
     (if length64 = 0 then (0, False)
      else let (offset64, overflow) = Uint64WithOverflow off in
        if overflow then (0, True)
        else let val = offset64 + length64 in (val, val < offset64))"

text \<open>
  \<open>make([]byte, l)\<close> panics for a negative length and for one above \<open>maxAlloc\<close> of the Go runtime, which is
  \<open>2 ^ 48\<close> on the 64-bit platforms the node runs on; below that, memory is taken to be available.
\<close>

definition max_alloc :: int where
  "max_alloc = 2 ^ 48"

definition make_bytes :: "int \<Rightarrow> bytes option" where
  "make_bytes l = (if 0 \<le> l \<and> l \<le> max_alloc then Some (replicate (nat l) 0) else None)"

definition RightPadBytes :: "bytes \<Rightarrow> int \<Rightarrow> bytes option" where
  "RightPadBytes bs l =
     (if l \<le> int (length bs) then Some bs
      else do {
        padded \<leftarrow> make_bytes l;
        Some (bs @ drop (length bs) padded)
      })"

definition LeftPadBytes :: "bytes \<Rightarrow> int \<Rightarrow> bytes option" where
  "LeftPadBytes bs l =
     (if l \<le> int (length bs) then Some bs
      else do {
        padded \<leftarrow> make_bytes l;
        Some (take (nat l - length bs) padded @ bs)
      })"

text \<open>A slice expression \<open>a[lo:hi]\<close>: \<open>backing\<close> reaches up to the capacity of \<open>a\<close>.\<close>

definition go_slice :: "bytes \<Rightarrow> int \<Rightarrow> int \<Rightarrow> bytes option" where
  "go_slice backing lo hi =
     (if 0 \<le> lo \<and> lo \<le> hi \<and> hi \<le> int (length backing)
      then Some (take (nat (hi - lo)) (drop (nat lo) backing)) else None)"

text \<open>
  \<open>getData\<close> cuts the range at the end of the data and pads with zeros. The addition may wrap, so
  that the end lies before the start and the slice expression panics; padding to more than
  \<^const>\<open>max_alloc\<close> bytes panics too.
\<close>

definition getData :: "bytes \<Rightarrow> u64 \<Rightarrow> u64 \<Rightarrow> bytes option" where
  "getData data start sz = do {
     let len = word_of_nat (length data);
     let start = (if start > len then len else start);
     let end' = start + sz;
     let end' = (if end' > len then len else end');
     s \<leftarrow> go_slice data (uint start) (uint end');
     RightPadBytes s (sint sz)
   }"

definition toWordSize :: "u64 \<Rightarrow> u64" where
  "toWordSize sz = (if sz > MaxUint64 - 31 then MaxUint64 div 32 + 1 else (sz + 31) div 32)"

definition allZero :: "bytes \<Rightarrow> bool" where
  "allZero b \<longleftrightarrow> list_all (\<lambda>x. x = 0) b"

definition bigMax :: "u256 \<Rightarrow> u256 \<Rightarrow> u256" where
  "bigMax x y = (if x < y then y else x)"

section \<open>The stack\<close>

text \<open>
  \<open>Stack.data\<close> grows at its end; the model keeps the top of the stack first, so that \<open>Back(n)\<close> is
  element \<open>n\<close>. An access below the bottom is an index panic.
\<close>

type_synonym Stack = "u256 list"

definition StackLimit :: nat where
  "StackLimit = 1024"

definition newstack :: Stack where
  "newstack = []"

definition push :: "u256 \<Rightarrow> Stack \<Rightarrow> Stack" where
  "push d st = d # st"

definition pushN :: "u256 list \<Rightarrow> Stack \<Rightarrow> Stack" where
  "pushN ds st = rev ds @ st"

definition pop :: "Stack \<Rightarrow> (u256 \<times> Stack) option" where
  "pop st = (case st of [] \<Rightarrow> None | x # xs \<Rightarrow> Some (x, xs))"

definition Back :: "Stack \<Rightarrow> nat \<Rightarrow> u256 option" where
  "Back st n = (if n < length st then Some (st ! n) else None)"

definition peek :: "Stack \<Rightarrow> u256 option" where
  "peek st = Back st 0"

definition swap :: "nat \<Rightarrow> Stack \<Rightarrow> Stack option" where
  "swap n st =
     (if 0 < n \<and> n \<le> length st then Some (st[0 := st ! (n - 1), n - 1 := st ! 0]) else None)"

definition dup :: "nat \<Rightarrow> Stack \<Rightarrow> Stack option" where
  "dup n st = (if 0 < n \<and> n \<le> length st then Some (push (st ! (n - 1)) st) else None)"

definition require :: "nat \<Rightarrow> Stack \<Rightarrow> vm_error option" where
  "require n st = (if length st < n then Some (StackUnderflow (length st) n) else None)"

text \<open>\<open>makeStackFunc(pop, push)\<close> of \<open>stack_table.go\<close>: the check before an operation.\<close>

definition makeStackFunc :: "nat \<Rightarrow> nat \<Rightarrow> Stack \<Rightarrow> vm_error option" where
  "makeStackFunc pops pushes st =
     (case require pops st of Some err \<Rightarrow> Some err
      | None \<Rightarrow>
          if int (length st) + int pushes - int pops > int StackLimit
          then Some (StackLimitReached (length st)) else None)"

definition makeDupStackFunc :: "nat \<Rightarrow> Stack \<Rightarrow> vm_error option" where
  "makeDupStackFunc n = makeStackFunc n (n + 1)"

definition makeSwapStackFunc :: "nat \<Rightarrow> Stack \<Rightarrow> vm_error option" where
  "makeSwapStackFunc n = makeStackFunc n n"

lemma makeStackFunc_None:
  "makeStackFunc pops pushes st = None \<longleftrightarrow>
     pops \<le> length st \<and> length st - pops + pushes \<le> StackLimit"
  by (auto simp: makeStackFunc_def require_def)

section \<open>Memory\<close>

text \<open>
  The memories of the nested frames share one preallocated buffer: a frame's \<open>store\<close> is a slice of
  the pool from \<open>pool_offset\<close> on until it outgrows the pool; from then on it is an array of its
  own. \<open>store_len\<close> is the length of the slice of the pool (a nil slice at first) and \<open>own\<close> the
  array after the move.
\<close>

record MemoryPool =
  buf :: bytes
  reserved :: nat

record Memory =
  pool_offset :: nat
  using_pool :: bool
  store_len :: nat
  own :: bytes
  lastGasCost :: u64

definition MemoryPool_Init :: "u64 \<Rightarrow> MemoryPool" where
  "MemoryPool_Init capacity = \<lparr>buf = replicate (unat capacity) 0, reserved = 0\<rparr>"

definition Memory_Init :: "MemoryPool \<Rightarrow> Memory" where
  "Memory_Init pool =
     \<lparr>pool_offset = reserved pool, using_pool = True, store_len = 0, own = [], lastGasCost = 0\<rparr>"

text \<open>The bytes of the slice \<open>m.store\<close>, and what a reslicing of it can reach.\<close>

definition mem_store :: "MemoryPool \<Rightarrow> Memory \<Rightarrow> bytes" where
  "mem_store p m = (if using_pool m then take (store_len m) (drop (pool_offset m) (buf p)) else own m)"

definition mem_backing :: "MemoryPool \<Rightarrow> Memory \<Rightarrow> bytes" where
  "mem_backing p m =
     (if using_pool m then if store_len m = 0 then [] else drop (pool_offset m) (buf p) else own m)"

definition Memory_Len :: "MemoryPool \<Rightarrow> Memory \<Rightarrow> u64" where
  "Memory_Len p m = word_of_nat (length (mem_store p m))"

definition overwrite :: "bytes \<Rightarrow> nat \<Rightarrow> bytes \<Rightarrow> bytes" where
  "overwrite xs i bs = take i xs @ bs @ drop (i + length bs) xs"

definition mem_write :: "nat \<Rightarrow> bytes \<Rightarrow> MemoryPool \<Rightarrow> Memory \<Rightarrow> MemoryPool \<times> Memory" where
  "mem_write off bs p m =
     (if using_pool m then (p\<lparr>buf := overwrite (buf p) (pool_offset m + off) bs\<rparr>, m)
      else (p, m\<lparr>own := overwrite (own m) off bs\<rparr>))"

text \<open>\<open>release(move_to)\<close>: the content moves to the new array and the slice of the pool is cleared.\<close>

definition mem_release :: "bytes \<Rightarrow> MemoryPool \<Rightarrow> Memory \<Rightarrow> MemoryPool \<times> Memory" where
  "mem_release move_to p m =
     (let s = mem_store p m;
          moved = take (length move_to) s @ drop (length s) move_to
      in if using_pool m then
           (p\<lparr>buf := overwrite (buf p) (pool_offset m) (replicate (length s) 0),
              reserved := pool_offset m\<rparr>,
            m\<lparr>using_pool := False, own := moved\<rparr>)
         else (p, m\<lparr>own := moved\<rparr>))"

definition Release :: "MemoryPool \<Rightarrow> Memory \<Rightarrow> MemoryPool \<times> Memory" where
  "Release = mem_release []"

definition Resize :: "u64 \<Rightarrow> MemoryPool \<Rightarrow> Memory \<Rightarrow> (MemoryPool \<times> Memory) option" where
  "Resize sz p m =
     (if sz \<le> Memory_Len p m then Some (p, m)
      else let pool_reserved = int (pool_offset m) + sint sz in
        if using_pool m \<and> pool_reserved \<le> int (length (buf p)) then do {
          _ \<leftarrow> go_slice (buf p) (int (pool_offset m)) pool_reserved;
          Some (p\<lparr>reserved := nat pool_reserved\<rparr>, m\<lparr>store_len := nat (sint sz)\<rparr>)
        }
        else Some (mem_release (replicate (unat sz) 0) p m))"

definition Memory_Set ::
    "u64 \<Rightarrow> u64 \<Rightarrow> bytes \<Rightarrow> MemoryPool \<Rightarrow> Memory \<Rightarrow> (MemoryPool \<times> Memory) option" where
  "Memory_Set offset sz value p m =
     (if sz > 0 then do {
        assertm (offset + sz \<le> Memory_Len p m);
        dst \<leftarrow> go_slice (mem_backing p m) (uint offset) (uint (offset + sz));
        Some (mem_write (unat offset) (take (length dst) value) p m)
      } else Some (p, m))"

text \<open>\<open>WriteToSlice\<close> fills the first 32 bytes of a longer slice; the range was checked before.\<close>

definition Set32 :: "u64 \<Rightarrow> u256 \<Rightarrow> MemoryPool \<Rightarrow> Memory \<Rightarrow> (MemoryPool \<times> Memory) option" where
  "Set32 offset val p m = do {
     let end' = offset + 32;
     assertm (end' \<le> Memory_Len p m);
     _ \<leftarrow> go_slice (mem_backing p m) (uint offset) (uint end');
     Some (mem_write (unat offset) (Hash_Bytes val) p m)
   }"

text \<open>\<open>memory.store[off] = b\<close> of \<open>opMstore8\<close>.\<close>

definition store_byte :: "u64 \<Rightarrow> byte \<Rightarrow> MemoryPool \<Rightarrow> Memory \<Rightarrow> (MemoryPool \<times> Memory) option" where
  "store_byte off b p m = do {
     assertm (unat off < length (mem_store p m));
     Some (mem_write (unat off) [b] p m)
   }"

definition GetCopy :: "int \<Rightarrow> int \<Rightarrow> MemoryPool \<Rightarrow> Memory \<Rightarrow> bytes option" where
  "GetCopy offset sz p m =
     (if sz = 0 then Some []
      else if int (length (mem_store p m)) > offset then go_slice (mem_backing p m) offset (offset + sz)
      else Some [])"

definition GetPtr :: "int \<Rightarrow> int \<Rightarrow> MemoryPool \<Rightarrow> Memory \<Rightarrow> bytes option" where
  "GetPtr offset sz p m =
     (if sz = 0 then Some []
      else if int (length (mem_store p m)) > offset then go_slice (mem_backing p m) offset (offset + sz)
      else Some [])"

definition Memory_Copy :: "u64 \<Rightarrow> u64 \<Rightarrow> u64 \<Rightarrow> MemoryPool \<Rightarrow> Memory \<Rightarrow> (MemoryPool \<times> Memory) option" where
  "Memory_Copy dst src len p m =
     (if len = 0 then Some (p, m)
      else do {
        d \<leftarrow> go_slice (mem_store p m) (uint dst) (int (length (mem_store p m)));
        s \<leftarrow> go_slice (mem_backing p m) (uint src) (uint (src + len));
        Some (mem_write (unat dst) (take (length d) s) p m)
      })"

section \<open>Frames do not see each other's memory\<close>

lemma length_overwrite [simp]: "i + length bs \<le> length xs \<Longrightarrow> length (overwrite xs i bs) = length xs"
  by (simp add: overwrite_def)

lemma take_overwrite: "n \<le> i \<Longrightarrow> i \<le> length xs \<Longrightarrow> take n (overwrite xs i bs) = take n xs"
  by (simp add: overwrite_def min_def)

lemma drop_overwrite: "i + length bs \<le> n \<Longrightarrow> i + length bs \<le> length xs \<Longrightarrow> drop n (overwrite xs i bs) = drop n xs"
  by (simp add: overwrite_def add.commute)

lemma overwrite_take_drop:
  assumes "i + length bs \<le> n" "o' + n \<le> length xs"
  shows "take n (drop o' (overwrite xs (o' + i) bs)) = overwrite (take n (drop o' xs)) i bs"
  using assms by (intro nth_equalityI) (auto simp: overwrite_def nth_append)

text \<open>
  The memory of the running frame lies at the top of the reserved part of the pool, and the rest
  of the pool is zero.
\<close>

definition mem_ok :: "MemoryPool \<Rightarrow> Memory \<Rightarrow> bool" where
  "mem_ok p m \<longleftrightarrow>
     reserved p = pool_offset m + (if using_pool m then store_len m else 0) \<and>
     reserved p \<le> length (buf p) \<and>
     drop (reserved p) (buf p) = replicate (length (buf p) - reserved p) 0 \<and>
     length (mem_store p m) < 2 ^ 63"

text \<open>Two pools that agree on the buffer below an offset, where the memories of the callers are.\<close>

definition same_below :: "nat \<Rightarrow> MemoryPool \<Rightarrow> MemoryPool \<Rightarrow> bool" where
  "same_below n p p' \<longleftrightarrow> length (buf p') = length (buf p) \<and> take n (buf p') = take n (buf p)"

lemma same_below_refl [simp, intro]: "same_below n p p"
  by (simp add: same_below_def)

lemma same_below_trans [trans]: "same_below n p q \<Longrightarrow> same_below n q r \<Longrightarrow> same_below n p r"
  by (simp add: same_below_def)

lemma same_below_le: "same_below n p q \<Longrightarrow> k \<le> n \<Longrightarrow> same_below k p q"
  unfolding same_below_def by (metis min.absorb_iff2 min.commute take_take)

lemma length_mem_store:
  "mem_ok p m \<Longrightarrow> length (mem_store p m) = (if using_pool m then store_len m else length (own m))"
  by (auto simp: mem_ok_def mem_store_def)

lemma unat_Memory_Len: "mem_ok p m \<Longrightarrow> unat (Memory_Len p m) = length (mem_store p m)"
  by (simp add: Memory_Len_def mem_ok_def unsigned_of_nat take_bit_nat_eq_self)

lemma Memory_Init_ok:
  assumes "reserved p \<le> length (buf p)"
    and "drop (reserved p) (buf p) = replicate (length (buf p) - reserved p) 0"
  shows "mem_ok p (Memory_Init p)" "mem_store p (Memory_Init p) = []"
  using assms by (simp_all add: mem_ok_def Memory_Init_def mem_store_def)

lemma mem_write_ok:
  assumes ok: "mem_ok p m" and fits: "off + length bs \<le> length (mem_store p m)"
    and w: "mem_write off bs p m = (p', m')"
  shows "mem_store p' m' = overwrite (mem_store p m) off bs \<and> mem_ok p' m' \<and>
    same_below (pool_offset m) p p' \<and> pool_offset m' = pool_offset m"
proof (cases "using_pool m")
  case True
  have len: "length (mem_store p m) = store_len m" using ok True by (simp add: length_mem_store)
  have bound: "pool_offset m + store_len m \<le> length (buf p)"
    and res: "reserved p = pool_offset m + store_len m"
    using ok True by (simp_all add: mem_ok_def)
  have p': "p' = p\<lparr>buf := overwrite (buf p) (pool_offset m + off) bs\<rparr>" and m': "m' = m"
    using w True by (auto simp: mem_write_def)
  have fit: "pool_offset m + off + length bs \<le> reserved p" using fits len res by simp
  have "mem_store p' m' = overwrite (mem_store p m) off bs"
    using fits len bound True by (simp add: p' m' mem_store_def overwrite_take_drop)
  moreover have "length (overwrite (buf p) (pool_offset m + off) bs) = length (buf p)"
    using fit bound res by simp
  moreover have "drop (reserved p) (overwrite (buf p) (pool_offset m + off) bs) = drop (reserved p) (buf p)"
    using fit bound res by (intro drop_overwrite) simp_all
  moreover have "take (pool_offset m) (overwrite (buf p) (pool_offset m + off) bs) = take (pool_offset m) (buf p)"
    using fit bound res by (intro take_overwrite) simp_all
  ultimately show ?thesis using ok fits True by (auto simp: p' m' mem_ok_def same_below_def)
next
  case False
  then have p': "p' = p" and m': "m' = m\<lparr>own := overwrite (own m) off bs\<rparr>"
    using w by (auto simp: mem_write_def)
  then show ?thesis using ok False fits by (auto simp: mem_ok_def mem_store_def)
qed

lemma mem_release_ok:
  assumes ok: "mem_ok p m" and r: "mem_release to' p m = (p', m')"
  shows "pool_offset m' = pool_offset m \<and> \<not> using_pool m' \<and>
    own m' = take (length to') (mem_store p m) @ drop (length (mem_store p m)) to' \<and>
    reserved p' = pool_offset m \<and> same_below (pool_offset m) p p' \<and>
    drop (pool_offset m) (buf p') = replicate (length (buf p) - pool_offset m) 0"
proof (cases "using_pool m")
  case True
  have res: "reserved p = pool_offset m + store_len m" and bound: "reserved p \<le> length (buf p)"
    and zero: "drop (reserved p) (buf p) = replicate (length (buf p) - reserved p) 0"
    and len: "length (mem_store p m) = store_len m"
    using ok True by (auto simp: mem_ok_def length_mem_store [OF ok])
  have p': "p' = p\<lparr>buf := overwrite (buf p) (pool_offset m) (replicate (store_len m) 0), reserved := pool_offset m\<rparr>"
    and m': "m' = m\<lparr>using_pool := False, own := take (length to') (mem_store p m) @ drop (store_len m) to'\<rparr>"
    using r True len by (auto simp: mem_release_def Let_def)
  have "drop (pool_offset m) (buf p') = replicate (store_len m) 0 @ drop (reserved p) (buf p)"
    using bound res by (simp add: p' overwrite_def)
  also have "\<dots> = replicate (length (buf p) - pool_offset m) 0"
    unfolding zero using bound res by (simp flip: replicate_add)
  finally show ?thesis using bound res len by (simp add: p' m' same_below_def take_overwrite)
next
  case False
  then have "p' = p" "m' = m\<lparr>own := take (length to') (mem_store p m) @ drop (length (mem_store p m)) to'\<rparr>"
    using r by (auto simp: mem_release_def Let_def)
  then show ?thesis using ok False by (auto simp: mem_ok_def)
qed


lemma go_slice_eq_Some:
  "go_slice xs lo hi = Some ys \<longleftrightarrow>
     0 \<le> lo \<and> lo \<le> hi \<and> hi \<le> int (length xs) \<and> ys = take (nat (hi - lo)) (drop (nat lo) xs)"
  by (auto simp: go_slice_def)

lemma length_go_slice: "go_slice xs lo hi = Some ys \<Longrightarrow> length ys = nat (hi - lo)"
  by (auto simp: go_slice_eq_Some)

lemma sint_u64_small: "unat (w :: u64) < 2 ^ 63 \<Longrightarrow> sint w = int (unat w)"
proof -
  assume "unat w < 2 ^ 63"
  then have "uint w < 2 ^ 63" by (simp flip: uint_nat nat_uint_eq)
  then have "signed_take_bit 63 (uint w) = uint w"
    by (intro signed_take_bit_int_eq_self) (auto intro: order_trans [OF _ uint_ge_0])
  then show ?thesis by (simp add: sint_uint)
qed

text \<open>Growing a memory appends zeros, wherever the bytes live.\<close>

lemma Resize_ok:
  assumes ok: "mem_ok p m" and sz: "unat sz < 2 ^ 63"
  shows "\<exists>p' m'. Resize sz p m = Some (p', m') \<and>
    mem_store p' m' = mem_store p m @ replicate (unat sz - length (mem_store p m)) 0 \<and>
    mem_ok p' m' \<and> same_below (pool_offset m) p p' \<and> pool_offset m' = pool_offset m"
proof (cases "sz \<le> Memory_Len p m")
  case True
  then have "unat sz \<le> length (mem_store p m)" using unat_Memory_Len [OF ok] by (simp add: word_le_nat_alt)
  with True ok show ?thesis by (simp add: Resize_def)
next
  case False
  then have grow: "length (mem_store p m) < unat sz"
    using unat_Memory_Len [OF ok] by (simp add: word_le_nat_alt)
  note sint = sint_u64_small [OF sz]
  show ?thesis
  proof (cases "using_pool m \<and> pool_offset m + unat sz \<le> length (buf p)")
    case True
    let ?p' = "p\<lparr>reserved := pool_offset m + unat sz\<rparr>" and ?m' = "m\<lparr>store_len := unat sz\<rparr>"
    have len: "length (mem_store p m) = store_len m" and res: "reserved p = pool_offset m + store_len m"
      and zero: "drop (reserved p) (buf p) = replicate (length (buf p) - reserved p) 0"
      using ok True by (auto simp: mem_ok_def length_mem_store [OF ok])
    have "take (unat sz) (drop (pool_offset m) (buf p)) =
        take (store_len m) (drop (pool_offset m) (buf p)) @ take (unat sz - store_len m) (drop (reserved p) (buf p))"
      using take_drop_append [of "store_len m" "drop (pool_offset m) (buf p)" "unat sz - store_len m"] grow len
      by (simp add: res add.commute)
    then have "mem_store ?p' ?m' = mem_store p m @ replicate (unat sz - length (mem_store p m)) 0"
      unfolding zero using True len grow by (auto simp: mem_store_def res min_def)
    moreover have "drop (pool_offset m + unat sz) (buf p) = replicate (length (buf p) - (pool_offset m + unat sz)) 0"
    proof -
      have "drop (pool_offset m + unat sz) (buf p) = drop (unat sz - store_len m) (drop (reserved p) (buf p))"
        using grow len by (simp add: res add.commute)
      also have "\<dots> = replicate (length (buf p) - (pool_offset m + unat sz)) 0"
        unfolding zero using grow len by (simp add: res)
      finally show ?thesis .
    qed
    moreover have "Resize sz p m = Some (?p', ?m')"
      using True \<open>\<not> sz \<le> _\<close> by (simp add: Resize_def sint go_slice_def nat_add_distrib int_add_uint_le)
    moreover have "length (mem_store ?p' ?m') = unat sz" using True by (auto simp: mem_store_def)
    ultimately show ?thesis using True sz by (simp add: mem_ok_def same_below_def)
  next
    case False
    obtain p' m' where r: "mem_release (replicate (unat sz) 0) p m = (p', m')" by fastforce
    note rel = mem_release_ok [OF ok r]
    have "Resize sz p m = Some (p', m')"
      using False \<open>\<not> sz \<le> _\<close> r sint by (auto simp: Resize_def Let_def int_add_uint_le)
    moreover have "mem_store p' m' = mem_store p m @ replicate (unat sz - length (mem_store p m)) 0"
      using rel grow by (simp add: mem_store_def)
    ultimately show ?thesis using rel sz grow ok by (auto simp: mem_ok_def same_below_def)
  qed
qed


text \<open>
  What every operation on the memory of a frame keeps: the invariant, the place of the memory and
  the memories of the callers.
\<close>

definition mem_step :: "MemoryPool \<Rightarrow> Memory \<Rightarrow> MemoryPool \<Rightarrow> Memory \<Rightarrow> bool" where
  "mem_step p m p' m' \<longleftrightarrow>
     mem_ok p' m' \<and> same_below (pool_offset m) p p' \<and> pool_offset m' = pool_offset m"

lemma mem_step_refl [simp]: "mem_step p m p m \<longleftrightarrow> mem_ok p m"
  by (simp add: mem_step_def)

lemma mem_step_trans [trans]: "mem_step p m q n \<Longrightarrow> mem_step q n r l \<Longrightarrow> mem_step p m r l"
  unfolding mem_step_def by (metis same_below_trans)

lemma mem_write_step:
  assumes "mem_ok p m" "off + length bs \<le> length (mem_store p m)" "mem_write off bs p m = (p', m')"
  shows "mem_step p m p' m'"
  using mem_write_ok [OF assms] by (simp add: mem_step_def)

lemma Memory_Set_step:
  assumes ok: "mem_ok p m" and s: "Memory_Set offset sz value p m = Some (p', m')"
  shows "mem_step p m p' m'"
proof (cases "sz = 0")
  case True
  then show ?thesis using ok s by (simp add: Memory_Set_def)
next
  case False
  then have "sz > 0" by (simp add: word_gt_0)
  with s obtain dst where d: "go_slice (mem_backing p m) (uint offset) (uint (offset + sz)) = Some dst"
    and le: "offset + sz \<le> Memory_Len p m"
    and w: "mem_write (unat offset) (take (length dst) value) p m = (p', m')"
    by (auto simp: Memory_Set_def elim!: bind_eq_SomeE)
  have "unat offset \<le> unat (offset + sz)" using d
    by (simp add: go_slice_eq_Some word_le_nat_alt [symmetric] word_le_def)
  moreover have "length dst = unat (offset + sz) - unat offset"
    using length_go_slice [OF d] by (simp add: nat_uint_diff)
  ultimately have "unat offset + length (take (length dst) value) \<le> unat (Memory_Len p m)"
    using le by (simp add: word_le_nat_alt)
  then show ?thesis using mem_write_step [OF ok _ w] unat_Memory_Len [OF ok] by simp
qed

lemma Set32_step:
  assumes ok: "mem_ok p m" and s: "Set32 offset val p m = Some (p', m')"
  shows "mem_step p m p' m'"
proof -
  from s obtain dst where d: "go_slice (mem_backing p m) (uint offset) (uint (offset + 32)) = Some dst"
    and le: "offset + 32 \<le> Memory_Len p m"
    and w: "mem_write (unat offset) (Hash_Bytes val) p m = (p', m')"
    by (auto simp: Set32_def Let_def elim!: bind_eq_SomeE)
  have "offset \<le> offset + 32" using d by (simp add: go_slice_eq_Some word_le_def)
  then have "unat (offset + 32) = unat offset + 32" using unat_plus_simple [of offset 32] by simp
  then show ?thesis
    using mem_write_step [OF ok _ w] unat_Memory_Len [OF ok] le by (simp add: word_le_nat_alt)
qed

lemma store_byte_step:
  "mem_ok p m \<Longrightarrow> store_byte off b p m = Some (p', m') \<Longrightarrow> mem_step p m p' m'"
  by (auto simp: store_byte_def elim!: bind_eq_SomeE intro: mem_write_step [where off = "unat off" and bs = "[b]"])

lemma Memory_Copy_step:
  assumes ok: "mem_ok p m" and s: "Memory_Copy dst src len p m = Some (p', m')"
  shows "mem_step p m p' m'"
proof (cases "len = 0")
  case True
  then show ?thesis using ok s by (simp add: Memory_Copy_def)
next
  case False
  with s obtain d t where d: "go_slice (mem_store p m) (uint dst) (int (length (mem_store p m))) = Some d"
    and w: "mem_write (unat dst) (take (length d) t) p m = (p', m')"
    by (auto simp: Memory_Copy_def elim!: bind_eq_SomeE)
  have "unat dst + length d \<le> length (mem_store p m)"
    using d by (auto simp: go_slice_eq_Some uint_le_int)
  then show ?thesis using mem_write_step [OF ok _ w] by simp
qed

lemma Resize_step:
  assumes "mem_ok p m" "unat sz < 2 ^ 63" "Resize sz p m = Some (p', m')"
  shows "mem_step p m p' m'"
  using Resize_ok [OF assms(1,2)] assms(3) by (auto simp: mem_step_def)

text \<open>When a frame ends, the pool is as it was before the frame began.\<close>

lemma Release_restores:
  assumes step: "mem_step p0 (Memory_Init p0) p m"
    and zero: "drop (reserved p0) (buf p0) = replicate (length (buf p0) - reserved p0) 0"
  shows "fst (Release p m) = p0"
proof -
  obtain p' m' where r: "mem_release [] p m = (p', m')" by fastforce
  have ok: "mem_ok p m" and off: "pool_offset m = reserved p0" and below: "same_below (reserved p0) p0 p"
    using step by (simp_all add: mem_step_def Memory_Init_def)
  note rel = mem_release_ok [OF ok r]
  have len: "length (buf p') = length (buf p0)" and below': "take (reserved p0) (buf p') = take (reserved p0) (buf p0)"
    using rel below off by (simp_all add: same_below_def)
  have "drop (reserved p0) (buf p') = drop (reserved p0) (buf p0)"
    using rel below off by (simp add: zero same_below_def)
  with below' have "buf p' = buf p0" by (metis append_take_drop_id)
  then show ?thesis using rel off r by (simp add: Release_def)
qed

end
