(* ===== verification/Evm_State.thy ===== *)
theory Evm_State
  imports Evm_Machine
begin

text \<open>
  The state the EVM changes during a transaction (\<open>ebla/state/state_evm\<close>): accounts loaded on demand
  from the database (\<open>account.go\<close>), the transition state with its journal of reverts, logs, refund
  counter and transient storage (\<open>transition_state.go\<close>), and the flush of a transaction.

  A handle to an account is its address: \<open>GetAccountConcrete\<close> returns the same object for the same
  address until the transaction is committed. An account body that is nil is \<^const>\<open>None\<close>. Storage
  maps are keyed by the integer whose bytes the sources use as the key. The closures of the
  journal are values of a datatype, with the newest first, and a Go \<open>map\<close> that is nil reads as an
  empty one.
\<close>

section \<open>Data\<close>

text \<open>\<open>AccountBody\<close> with the embedded \<open>AccountChange\<close> and \<open>state_db.Account\<close>.\<close>

record AccountBody =
  b_Nonce :: int
  b_Balance :: int
  b_StorageRootHash :: "u256 option"
  b_CodeHash :: "u256 option"
  b_CodeSize :: u64
  b_StorageDirty :: "int \<rightharpoonup> int"
  b_RawStorageDirty :: "u256 \<rightharpoonup> bytes"
  b_Code :: "bytes option"
  b_CodeDirty :: bool
  b_suicided :: bool
  b_sink :: bool
  b_storage_origin :: "(int \<rightharpoonup> int) option"
  b_times_touched :: u32
  b_mod_count :: u32

record acc_entry =
  e_body :: "AccountBody option"
  e_in_dirties :: bool
  e_in_curr_version :: bool
  e_loaded_from_db :: bool
  e_deleted :: bool

record vm_log =
  log_Address :: address
  log_Topics :: "u256 list"
  log_Data :: bytes

text \<open>\<open>Input\<close>: what the state reads from the database at the block it extends.\<close>

record state_input =
  in_GetCode :: "u256 \<Rightarrow> bytes"
  in_GetAccount :: "address \<Rightarrow> Account option"
  in_GetAccountStorage :: "address \<Rightarrow> u256 \<Rightarrow> bytes option"

datatype revert =
    RevState address int int
  | RevTouch address
  | RevBalance address int
  | RevNonce address int
  | RevCode address
  | RevSuicide address bool int
  | RevCreate address bool
  | RevLogs nat
  | RevRefund u64

record TransitionState =
  ts_in :: state_input
  accounts :: "address \<rightharpoonup> acc_entry"
  accounts_in_curr_ver :: "address list"
  reverts :: "revert list"
  dirties :: "address list"
  ts_logs :: "vm_log list"
  ts_refund :: u64
  transientStorage :: "(address \<rightharpoonup> (u256 \<rightharpoonup> u256)) option"

section \<open>Loading accounts\<close>

definition new_entry :: acc_entry where
  "new_entry = \<lparr>e_body = None, e_in_dirties = False, e_in_curr_version = False,
     e_loaded_from_db = False, e_deleted = False\<rparr>"

text \<open>The body of an account read from the database; \<open>DecodeAccountFromTrie\<close> sets both numbers.\<close>

definition body_of_db :: "Account \<Rightarrow> AccountBody" where
  "body_of_db acc =
     \<lparr>b_Nonce = (case Nonce acc of Some n \<Rightarrow> n | None \<Rightarrow> 0),
      b_Balance = (case Balance acc of Some n \<Rightarrow> n | None \<Rightarrow> 0),
      b_StorageRootHash = StorageRootHash acc, b_CodeHash = CodeHash acc, b_CodeSize = CodeSize acc,
      b_StorageDirty = Map.empty, b_RawStorageDirty = Map.empty, b_Code = None, b_CodeDirty = False,
      b_suicided = False, b_sink = False, b_storage_origin = None, b_times_touched = 0,
      b_mod_count = 0\<rparr>"

definition load_entry :: "state_input \<Rightarrow> address \<Rightarrow> acc_entry" where
  "load_entry inp a =
     (case in_GetAccount inp a of
        None \<Rightarrow> new_entry
      | Some acc \<Rightarrow> new_entry\<lparr>e_body := Some (body_of_db acc), e_loaded_from_db := True\<rparr>)"

definition GetAccountConcrete :: "address \<Rightarrow> TransitionState \<Rightarrow> TransitionState" where
  "GetAccountConcrete a ts =
     (let e = (case accounts ts a of Some e \<Rightarrow> e | None \<Rightarrow> load_entry (ts_in ts) a) in
      if e_in_curr_version e then ts\<lparr>accounts := (accounts ts)(a \<mapsto> e)\<rparr>
      else ts\<lparr>accounts := (accounts ts)(a \<mapsto> e\<lparr>e_in_curr_version := True\<rparr>),
              accounts_in_curr_ver := accounts_in_curr_ver ts @ [a]\<rparr>)"

section \<open>Reading accounts\<close>

definition body_of :: "TransitionState \<Rightarrow> address \<Rightarrow> AccountBody option" where
  "body_of ts a = Option.bind (accounts ts a) e_body"

definition upd_body :: "address \<Rightarrow> (AccountBody \<Rightarrow> AccountBody) \<Rightarrow> TransitionState \<Rightarrow> TransitionState" where
  "upd_body a f ts =
     ts\<lparr>accounts := (accounts ts)(a := map_option (\<lambda>e. e\<lparr>e_body := map_option f (e_body e)\<rparr>) (accounts ts a))\<rparr>"

definition IsNIL :: "TransitionState \<Rightarrow> address \<Rightarrow> bool" where
  "IsNIL ts a \<longleftrightarrow> body_of ts a = None"

definition body_empty :: "AccountBody \<Rightarrow> bool" where
  "body_empty b \<longleftrightarrow> b_Nonce b = 0 \<and> b_Balance b = 0 \<and> b_CodeSize b = 0"

definition IsEIP161Empty :: "TransitionState \<Rightarrow> address \<Rightarrow> bool" where
  "IsEIP161Empty ts a \<longleftrightarrow> (case body_of ts a of None \<Rightarrow> True | Some b \<Rightarrow> body_empty b)"

definition GetBalance :: "TransitionState \<Rightarrow> address \<Rightarrow> int" where
  "GetBalance ts a = (case body_of ts a of None \<Rightarrow> 0 | Some b \<Rightarrow> b_Balance b)"

definition GetNonce :: "TransitionState \<Rightarrow> address \<Rightarrow> int" where
  "GetNonce ts a = (case body_of ts a of None \<Rightarrow> 0 | Some b \<Rightarrow> b_Nonce b)"

definition GetCodeHash :: "(bytes \<Rightarrow> u256) \<Rightarrow> TransitionState \<Rightarrow> address \<Rightarrow> u256 option" where
  "GetCodeHash keccak256 ts a =
     (case body_of ts a of None \<Rightarrow> None
      | Some b \<Rightarrow> if b_CodeSize b \<noteq> 0 then b_CodeHash b else Some (EmptyBytesKeccak256 keccak256))"

text \<open>\<open>GetCode\<close> reads the code from the database once; a nil hash with a non-zero size is a panic.\<close>

definition GetCode :: "TransitionState \<Rightarrow> address \<Rightarrow> (bytes \<times> TransitionState) option" where
  "GetCode ts a =
     (case body_of ts a of
        None \<Rightarrow> Some ([], ts)
      | Some b \<Rightarrow>
          if b_CodeSize b = 0 then Some ([], ts)
          else case b_Code b of
            Some c \<Rightarrow> Some (c, ts)
          | None \<Rightarrow>
              (case b_CodeHash b of
                 None \<Rightarrow> None
               | Some h \<Rightarrow>
                   let c = in_GetCode (ts_in ts) h
                   in Some (c, upd_body a (\<lambda>b. b\<lparr>b_Code := Some c\<rparr>) ts)))"

definition GetCodeSize :: "TransitionState \<Rightarrow> address \<Rightarrow> u64" where
  "GetCodeSize ts a = (case body_of ts a of None \<Rightarrow> 0 | Some b \<Rightarrow> b_CodeSize b)"

definition HasSuicided :: "TransitionState \<Rightarrow> address \<Rightarrow> bool option" where
  "HasSuicided ts a = (case body_of ts a of None \<Rightarrow> None | Some b \<Rightarrow> Some False)"

text \<open>\<open>BigConv.ToHash\<close>: the 32 bytes of the number.\<close>

definition ToHash :: "int \<Rightarrow> u256" where
  "ToHash k = word_of_int k"

definition db_slot :: "state_input \<Rightarrow> address \<Rightarrow> int \<Rightarrow> int" where
  "db_slot inp a key =
     (case in_GetAccountStorage inp a (ToHash key) of None \<Rightarrow> 0 | Some bs \<Rightarrow> FromBytes bs)"

definition get_committed_state :: "TransitionState \<Rightarrow> address \<Rightarrow> int \<Rightarrow> int \<times> TransitionState" where
  "get_committed_state ts a key =
     (case body_of ts a of
        None \<Rightarrow> (0, ts)
      | Some b \<Rightarrow>
          let read = (let ret = db_slot (ts_in ts) a key in
                (ret, upd_body a (\<lambda>b. b\<lparr>b_storage_origin :=
                   Some ((case b_storage_origin b of None \<Rightarrow> Map.empty | Some m \<Rightarrow> m)(key \<mapsto> ret))\<rparr>) ts))
          in case b_storage_origin b of
               None \<Rightarrow> if b_StorageRootHash b = None then (0, ts) else read
             | Some m \<Rightarrow> (case m key of Some v \<Rightarrow> (v, ts) | None \<Rightarrow> read))"

definition GetCommittedState :: "TransitionState \<Rightarrow> address \<Rightarrow> int \<Rightarrow> int \<times> TransitionState" where
  "GetCommittedState = get_committed_state"

definition GetState :: "TransitionState \<Rightarrow> address \<Rightarrow> int \<Rightarrow> int \<times> TransitionState" where
  "GetState ts a key =
     (case body_of ts a of
        None \<Rightarrow> (0, ts)
      | Some b \<Rightarrow>
          (case b_StorageDirty b key of
             Some v \<Rightarrow> (v, ts)
           | None \<Rightarrow> get_committed_state ts a key))"

definition GetRawState :: "TransitionState \<Rightarrow> address \<Rightarrow> u256 \<Rightarrow> bytes option" where
  "GetRawState ts a key =
     (case body_of ts a of
        None \<Rightarrow> None
      | Some b \<Rightarrow>
          (case b_RawStorageDirty b key of
             Some v \<Rightarrow> Some v
           | None \<Rightarrow> in_GetAccountStorage (ts_in ts) a key))"

section \<open>Changing accounts\<close>

definition RegisterChange :: "revert \<Rightarrow> TransitionState \<Rightarrow> TransitionState" where
  "RegisterChange r ts = ts\<lparr>reverts := r # reverts ts\<rparr>"

definition register_change :: "address \<Rightarrow> revert option \<Rightarrow> TransitionState \<Rightarrow> TransitionState" where
  "register_change a r ts =
     (let ts = upd_body a (\<lambda>b. b\<lparr>b_mod_count := b_mod_count b + 1\<rparr>) ts
      in case r of None \<Rightarrow> ts | Some r \<Rightarrow> RegisterChange r ts)"

definition new_body :: AccountBody where
  "new_body =
     \<lparr>b_Nonce = 0, b_Balance = 0, b_StorageRootHash = None, b_CodeHash = None, b_CodeSize = 0,
      b_StorageDirty = Map.empty, b_RawStorageDirty = Map.empty, b_Code = None, b_CodeDirty = False,
      b_suicided = False, b_sink = False, b_storage_origin = None, b_times_touched = 0,
      b_mod_count = 0\<rparr>"

definition upd_entry :: "address \<Rightarrow> (acc_entry \<Rightarrow> acc_entry) \<Rightarrow> TransitionState \<Rightarrow> TransitionState" where
  "upd_entry a f ts = ts\<lparr>accounts := (accounts ts)(a := map_option f (accounts ts a))\<rparr>"

definition ensure_exists :: "address \<Rightarrow> TransitionState \<Rightarrow> TransitionState" where
  "ensure_exists a ts =
     (if \<not> IsNIL ts a then ts
      else let was_deleted = (case accounts ts a of None \<Rightarrow> False | Some e \<Rightarrow> e_deleted e);
               ts = upd_entry a (\<lambda>e. e\<lparr>e_body := Some new_body, e_deleted := False\<rparr>) ts
        in register_change a (Some (RevCreate a was_deleted)) ts)"

definition set_balance :: "address \<Rightarrow> int \<Rightarrow> TransitionState \<Rightarrow> TransitionState" where
  "set_balance a amount ts =
     (let balance_prev = GetBalance ts a
      in register_change a (Some (RevBalance a balance_prev)) (upd_body a (\<lambda>b. b\<lparr>b_Balance := amount\<rparr>) ts))"

definition ripemd_addr :: address where
  "ripemd_addr = 3"

definition AddBalance :: "address \<Rightarrow> int \<Rightarrow> TransitionState \<Rightarrow> TransitionState" where
  "AddBalance a amount ts =
     (let ts = ensure_exists a ts in
      if amount \<noteq> 0 then set_balance a (GetBalance ts a + amount) ts
      else if \<not> IsEIP161Empty ts a then ts
      else
        let ts = upd_body a (\<lambda>b. b\<lparr>b_times_touched := b_times_touched b + 1\<rparr>) ts;
            ts = register_change a (Some (RevTouch a)) ts
        in if a = ripemd_addr then upd_body a (\<lambda>b. b\<lparr>b_mod_count := b_mod_count b + 1\<rparr>) ts else ts)"

definition SubBalance :: "address \<Rightarrow> int \<Rightarrow> TransitionState \<Rightarrow> TransitionState" where
  "SubBalance a amount ts =
     (let ts = ensure_exists a ts in
      if amount \<noteq> 0 then set_balance a (GetBalance ts a - amount) ts else ts)"

definition SetNonce :: "address \<Rightarrow> int \<Rightarrow> TransitionState \<Rightarrow> TransitionState option" where
  "SetNonce a nonce ts = do {
     let ts = ensure_exists a ts;
     let nonce_prev = GetNonce ts a;
     assertm (nonce \<ge> nonce_prev);
     Some (register_change a (Some (RevNonce a nonce_prev)) (upd_body a (\<lambda>b. b\<lparr>b_Nonce := nonce\<rparr>) ts))
   }"

definition IncrementNonce :: "address \<Rightarrow> TransitionState \<Rightarrow> TransitionState" where
  "IncrementNonce a ts =
     (let ts = ensure_exists a ts;
          nonce_prev = GetNonce ts a
      in register_change a (Some (RevNonce a nonce_prev)) (upd_body a (\<lambda>b. b\<lparr>b_Nonce := b_Nonce b + 1\<rparr>) ts))"

definition SetCode :: "(bytes \<Rightarrow> u256) \<Rightarrow> address \<Rightarrow> bytes \<Rightarrow> TransitionState \<Rightarrow> TransitionState" where
  "SetCode keccak256 a code ts =
     (let ts = ensure_exists a ts in
      if length code = 0 then ts
      else upd_body a (\<lambda>b. b\<lparr>b_CodeDirty := True, b_CodeHash := Some (keccak256 code),
               b_CodeSize := word_of_nat (length code), b_Code := Some code\<rparr>)
             (register_change a (Some (RevCode a)) ts))"

definition SetState :: "address \<Rightarrow> int \<Rightarrow> int \<Rightarrow> TransitionState \<Rightarrow> TransitionState" where
  "SetState a key value ts =
     (let ts = ensure_exists a ts;
          (prev, ts) = GetState ts a key
      in if prev = value then ts
         else upd_body a (\<lambda>b. b\<lparr>b_StorageDirty := (b_StorageDirty b)(key \<mapsto> value)\<rparr>)
                (register_change a (Some (RevState a key prev)) ts))"

definition SetStateRawIrreversibly :: "address \<Rightarrow> u256 \<Rightarrow> bytes \<Rightarrow> TransitionState \<Rightarrow> TransitionState" where
  "SetStateRawIrreversibly a key value ts =
     (let ts = ensure_exists a ts;
          ts = upd_body a (\<lambda>b. b\<lparr>b_RawStorageDirty := (b_RawStorageDirty b)(key \<mapsto> value)\<rparr>) ts
      in register_change a None ts)"

definition Suicide :: "address \<Rightarrow> address \<Rightarrow> TransitionState \<Rightarrow> TransitionState" where
  "Suicide a newAddr ts =
     (let ts = GetAccountConcrete newAddr ts in
      case body_of ts a of
        None \<Rightarrow> AddBalance newAddr 0 ts
      | Some b \<Rightarrow>
          let ts = AddBalance newAddr (b_Balance b) ts;
              suicided = (case body_of ts a of None \<Rightarrow> False | Some b \<Rightarrow> b_suicided b);
              balance_prev = GetBalance ts a;
              ts = register_change a (Some (RevSuicide a suicided balance_prev)) ts
          in upd_body a (\<lambda>b. b\<lparr>b_suicided := True, b_Balance := 0\<rparr>) ts)"

section \<open>Logs, refund, transient storage\<close>

definition AddLog :: "vm_log \<Rightarrow> TransitionState \<Rightarrow> TransitionState" where
  "AddLog log ts =
     (let pos = length (ts_logs ts)
      in (RegisterChange (RevLogs pos) ts)\<lparr>ts_logs := ts_logs ts @ [log]\<rparr>)"

definition AddRefund :: "u64 \<Rightarrow> TransitionState \<Rightarrow> TransitionState" where
  "AddRefund gas ts = (RegisterChange (RevRefund (ts_refund ts)) ts)\<lparr>ts_refund := ts_refund ts + gas\<rparr>"

definition SubRefund :: "u64 \<Rightarrow> TransitionState \<Rightarrow> TransitionState option" where
  "SubRefund gas ts = do {
     assertm (gas \<le> ts_refund ts);
     Some ((RegisterChange (RevRefund (ts_refund ts)) ts)\<lparr>ts_refund := ts_refund ts - gas\<rparr>)
   }"

definition TransientStorage_Get :: "(address \<rightharpoonup> (u256 \<rightharpoonup> u256)) \<Rightarrow> address \<Rightarrow> u256 \<Rightarrow> u256" where
  "TransientStorage_Get t a key =
     (case t a of None \<Rightarrow> 0 | Some val \<Rightarrow> (case val key of None \<Rightarrow> 0 | Some v \<Rightarrow> v))"

definition TransientStorage_Set ::
    "address \<Rightarrow> u256 \<Rightarrow> u256 \<Rightarrow> (address \<rightharpoonup> (u256 \<rightharpoonup> u256)) \<Rightarrow> (address \<rightharpoonup> (u256 \<rightharpoonup> u256))" where
  "TransientStorage_Set a key value t =
     t(a \<mapsto> (case t a of None \<Rightarrow> Map.empty | Some m \<Rightarrow> m)(key \<mapsto> value))"

definition initTransientState :: "TransitionState \<Rightarrow> TransitionState" where
  "initTransientState ts =
     (if transientStorage ts = None then ts\<lparr>transientStorage := Some Map.empty\<rparr> else ts)"

definition transient_map :: "TransitionState \<Rightarrow> address \<rightharpoonup> (u256 \<rightharpoonup> u256)" where
  "transient_map ts = (case transientStorage ts of None \<Rightarrow> Map.empty | Some t \<Rightarrow> t)"

definition GetTransientState :: "address \<Rightarrow> u256 \<Rightarrow> TransitionState \<Rightarrow> u256 \<times> TransitionState" where
  "GetTransientState a key ts =
     (let ts = initTransientState ts in (TransientStorage_Get (transient_map ts) a key, ts))"

definition setTransientState :: "address \<Rightarrow> u256 \<Rightarrow> u256 \<Rightarrow> TransitionState \<Rightarrow> TransitionState" where
  "setTransientState a key value ts =
     ts\<lparr>transientStorage := Some (TransientStorage_Set a key value (transient_map ts))\<rparr>"

definition SetTransientState :: "address \<Rightarrow> u256 \<Rightarrow> u256 \<Rightarrow> TransitionState \<Rightarrow> TransitionState" where
  "SetTransientState a key value ts =
     (let ts = initTransientState ts;
          (prev, ts) = GetTransientState a key ts
      in if prev = value then ts else setTransientState a key value ts)"

section \<open>Snapshots\<close>

definition Snapshot :: "TransitionState \<Rightarrow> nat" where
  "Snapshot ts = length (reverts ts)"

text \<open>A revert of an account whose body is nil would dereference a nil pointer.\<close>

definition rev_body :: "address \<Rightarrow> (AccountBody \<Rightarrow> AccountBody) \<Rightarrow> TransitionState \<Rightarrow> TransitionState option" where
  "rev_body a f ts = do {
     assertm (\<not> IsNIL ts a);
     Some (upd_body a (\<lambda>b. f (b\<lparr>b_mod_count := b_mod_count b - 1\<rparr>)) ts)
   }"

fun apply_revert :: "revert \<Rightarrow> TransitionState \<Rightarrow> TransitionState option" where
  "apply_revert (RevState a key prev) ts =
     rev_body a (\<lambda>b. b\<lparr>b_StorageDirty := (b_StorageDirty b)(key \<mapsto> prev)\<rparr>) ts"
| "apply_revert (RevTouch a) ts = rev_body a (\<lambda>b. b\<lparr>b_times_touched := b_times_touched b - 1\<rparr>) ts"
| "apply_revert (RevBalance a prev) ts = rev_body a (\<lambda>b. b\<lparr>b_Balance := prev\<rparr>) ts"
| "apply_revert (RevNonce a prev) ts = rev_body a (\<lambda>b. b\<lparr>b_Nonce := prev\<rparr>) ts"
| "apply_revert (RevCode a) ts =
     rev_body a (\<lambda>b. b\<lparr>b_CodeDirty := False, b_CodeHash := None, b_CodeSize := 0, b_Code := None\<rparr>) ts"
| "apply_revert (RevSuicide a suicided prev) ts =
     rev_body a (\<lambda>b. b\<lparr>b_suicided := suicided, b_Balance := prev\<rparr>) ts"
| "apply_revert (RevCreate a was_deleted) ts = do {
     ts \<leftarrow> rev_body a (\<lambda>b. b) ts;
     Some (upd_entry a (\<lambda>e. e\<lparr>e_body := None, e_deleted := was_deleted\<rparr>) ts)
   }"
| "apply_revert (RevLogs pos) ts = Some (ts\<lparr>ts_logs := take pos (ts_logs ts)\<rparr>)"
| "apply_revert (RevRefund prev) ts = Some (ts\<lparr>ts_refund := prev\<rparr>)"

primrec run_reverts :: "revert list \<Rightarrow> TransitionState \<Rightarrow> TransitionState option" where
  "run_reverts [] ts = Some ts"
| "run_reverts (r # rs) ts = do { ts \<leftarrow> apply_revert r ts; run_reverts rs ts }"

definition RevertToSnapshot :: "nat \<Rightarrow> TransitionState \<Rightarrow> TransitionState option" where
  "RevertToSnapshot snapshot ts = do {
     let n = length (reverts ts) - snapshot;
     ts \<leftarrow> run_reverts (take n (reverts ts)) ts;
     Some (ts\<lparr>reverts := drop n (reverts ts)\<rparr>)
   }"


section \<open>Flushing a transaction\<close>

text \<open>
  What the state hands to its \<open>Output\<close>, the trie sink: deletions, updates with the changed account,
  and the commit of a started mutation.
\<close>

datatype out_op = OutDelete address | OutUpdate address AccountBody | OutCommit address

datatype acc_dirty_status = Unmodified | Updated | Deleted

definition flush_storage :: "AccountBody \<Rightarrow> AccountBody" where
  "flush_storage b =
     (if b_StorageDirty b = Map.empty then b
      else b\<lparr>b_storage_origin :=
               Some ((case b_storage_origin b of None \<Rightarrow> Map.empty | Some m \<Rightarrow> m) ++ b_StorageDirty b),
             b_StorageDirty := Map.empty\<rparr>)"

definition flush :: "address \<Rightarrow> AccountBody option \<Rightarrow> acc_dirty_status \<times> out_op list \<times> AccountBody option" where
  "flush a body =
     (case body of
        None \<Rightarrow> (Unmodified, [], None)
      | Some b \<Rightarrow>
          let mod_count = b_mod_count b; times_touched = b_times_touched b;
              b = b\<lparr>b_mod_count := 0, b_times_touched := 0\<rparr> in
          if mod_count = 0 then (Unmodified, [], Some b)
          else if b_suicided b \<or> body_empty b then (Deleted, [OutDelete a], None)
          else if mod_count = times_touched then (Unmodified, [], Some b)
          else
            let b = b\<lparr>b_sink := True\<rparr>
            in (Updated, [OutUpdate a b],
                Some (flush_storage (b\<lparr>b_CodeDirty := False, b_RawStorageDirty := Map.empty\<rparr>))))"

definition unload :: "address \<Rightarrow> TransitionState \<Rightarrow> TransitionState" where
  "unload a ts = ts\<lparr>accounts := (accounts ts)(a := None)\<rparr>"

definition commit_account :: "address \<Rightarrow> TransitionState \<Rightarrow> out_op list \<times> TransitionState" where
  "commit_account a ts =
     (case accounts ts a of
        None \<Rightarrow> ([], ts)
      | Some e \<Rightarrow>
          let e = e\<lparr>e_in_curr_version := False\<rparr> in
          if e_deleted e then ([], ts\<lparr>accounts := (accounts ts)(a \<mapsto> e)\<rparr>)
          else
            let (status, out, body) = flush a (e_body e);
                e = e\<lparr>e_body := body, e_deleted := (status = Deleted)\<rparr>;
                dirty = (\<not> e_in_dirties e \<and> (status = Updated \<or> e_deleted e \<and> e_loaded_from_db e));
                e = (if dirty then e\<lparr>e_in_dirties := True\<rparr> else e);
                ts = ts\<lparr>accounts := (accounts ts)(a \<mapsto> e),
                        dirties := (if dirty then dirties ts @ [a] else dirties ts)\<rparr>
            in (out, if e_in_dirties e then ts else unload a ts))"

primrec commit_accounts :: "address list \<Rightarrow> TransitionState \<Rightarrow> out_op list \<times> TransitionState" where
  "commit_accounts [] ts = ([], ts)"
| "commit_accounts (a # as) ts =
     (let (out, ts) = commit_account a ts; (outs, ts) = commit_accounts as ts in (out @ outs, ts))"

definition CommitTransaction :: "TransitionState \<Rightarrow> out_op list \<times> TransitionState" where
  "CommitTransaction ts =
     (let (out, ts) = commit_accounts (accounts_in_curr_ver ts) ts
      in (out, ts\<lparr>accounts_in_curr_ver := [], reverts := [], ts_logs := [], ts_refund := 0,
                  transientStorage := None\<rparr>))"

primrec commit_dirties :: "address list \<Rightarrow> TransitionState \<Rightarrow> out_op list \<times> TransitionState" where
  "commit_dirties [] ts = ([], ts)"
| "commit_dirties (a # as) ts =
     (let out = (case accounts ts a of
                   None \<Rightarrow> []
                 | Some e \<Rightarrow> if e_deleted e then [] else [OutCommit a]);
          (outs, ts) = commit_dirties as (unload a ts)
      in (out @ outs, ts))"

definition ts_Commit :: "TransitionState \<Rightarrow> out_op list \<times> TransitionState" where
  "ts_Commit ts = (let (out, ts) = commit_dirties (dirties ts) ts in (out, ts\<lparr>dirties := []\<rparr>))"

definition ts_Init :: "state_input \<Rightarrow> TransitionState" where
  "ts_Init inp = \<lparr>ts_in = inp, accounts = Map.empty, accounts_in_curr_ver = [], reverts = [],
     dirties = [], ts_logs = [], ts_refund = 0, transientStorage = None\<rparr>"

end
