(* ===== verification/Jumpdest_Analysis.thy ===== *)
theory Jumpdest_Analysis
  imports Evm_Machine
begin

text \<open>
  Jump destination analysis (\<open>core/vm/analysis.go\<close>): a bit vector that marks the bytes of the code
  that are arguments of a PUSH. The theorems show that the eight-bits-at-a-time loop computes the
  byte-by-byte definition and never leaves the vector.

  Positions are natural numbers: the length of a Go slice is below $2^{63}$, so the \<open>uint64\<close> position
  does not wrap.
\<close>

unbundle bit_operations_syntax

type_synonym bitvec = bytes

definition PUSH1 :: byte where "PUSH1 = 0x60"
definition PUSH32 :: byte where "PUSH32 = 0x7f"
definition JUMPDEST :: byte where "JUMPDEST = 0x5b"

definition IsPush :: "byte \<Rightarrow> bool" where
  "IsPush op \<longleftrightarrow> PUSH1 \<le> op \<and> op \<le> PUSH32"

definition bv_or :: "bitvec \<Rightarrow> nat \<Rightarrow> byte \<Rightarrow> bitvec option" where
  "bv_or bits i b = (if i < length bits then Some (bits[i := bits ! i OR b]) else None)"

definition bv_set :: "bitvec \<Rightarrow> nat \<Rightarrow> bitvec option" where
  "bv_set bits pos = bv_or bits (pos div 8) (drop_bit (pos mod 8) 0x80)"

definition bv_set8 :: "bitvec \<Rightarrow> nat \<Rightarrow> bitvec option" where
  "bv_set8 bits pos = do {
     bits \<leftarrow> bv_or bits (pos div 8) (drop_bit (pos mod 8) 0xFF);
     bv_or bits (pos div 8 + 1) (NOT (drop_bit (pos mod 8) 0xFF))
   }"

definition codeSegment :: "bitvec \<Rightarrow> nat \<Rightarrow> bool option" where
  "codeSegment bits pos =
     (if pos div 8 < length bits
      then Some (bits ! (pos div 8) AND drop_bit (pos mod 8) 0x80 = 0) else None)"

text \<open>The two inner loops: eight bits at a time, then the rest one by one.\<close>

fun set_rest :: "nat \<Rightarrow> nat \<Rightarrow> bitvec \<Rightarrow> (nat \<times> bitvec) option" where
  "set_rest 0 pc bits = Some (pc, bits)"
| "set_rest (Suc numbits) pc bits = do { bits \<leftarrow> bv_set bits pc; set_rest numbits (pc + 1) bits }"

fun set_push :: "nat \<Rightarrow> nat \<Rightarrow> bitvec \<Rightarrow> (nat \<times> bitvec) option" where
  "set_push numbits pc bits =
     (if 8 \<le> numbits then do { bits \<leftarrow> bv_set8 bits pc; set_push (numbits - 8) (pc + 8) bits }
      else set_rest numbits pc bits)"

declare set_push.simps [simp del]

lemma set_rest_pc: "set_rest n pc bits = Some (pc', bits') \<Longrightarrow> pc' = pc + n"
  by (induction n pc bits rule: set_rest.induct) (auto elim!: bind_eq_SomeE)

lemma set_push_pc: "set_push n pc bits = Some (pc', bits') \<Longrightarrow> pc' = pc + n"
proof (induction n pc bits rule: set_push.induct)
  case (1 n pc bits)
  then show ?case
    by (cases "8 \<le> n") (auto simp: set_push.simps [of n] set_rest_pc elim!: bind_eq_SomeE)
qed

definition push_bits :: "byte \<Rightarrow> nat" where
  "push_bits op = unat (op - PUSH1 + 1)"

function codeBitmap_loop :: "bytes \<Rightarrow> nat \<Rightarrow> bitvec \<Rightarrow> bitvec option" where
  "codeBitmap_loop code pc bits =
     (if pc < length code then
        if IsPush (code ! pc) then do {
          (pc, bits) \<leftarrow> set_push (push_bits (code ! pc)) (pc + 1) bits;
          codeBitmap_loop code pc bits
        }
        else codeBitmap_loop code (pc + 1) bits
      else Some bits)"
  by pat_completeness auto
termination
  by (relation "measure (\<lambda>(code, pc, bits). length code - pc)") (auto dest: set_push_pc)

declare codeBitmap_loop.simps [simp del]

definition codeBitmap :: "bytes \<Rightarrow> bitvec option" where
  "codeBitmap code = codeBitmap_loop code 0 (replicate (length code div 8 + 1 + 4) 0)"

section \<open>The byte-by-byte definition\<close>

text \<open>Which bytes of the code are data, with \<open>n\<close> bytes of a PUSH still to come.\<close>

fun is_data :: "nat \<Rightarrow> bytes \<Rightarrow> bool list" where
  "is_data n [] = []"
| "is_data 0 (b # bs) = False # is_data (if IsPush b then push_bits b else 0) bs"
| "is_data (Suc n) (b # bs) = True # is_data n bs"

lemma length_is_data [simp]: "length (is_data n bs) = length bs"
  by (induction n bs rule: is_data.induct) auto

lemma is_data_skip:
  "is_data n bs = replicate (min n (length bs)) True @ is_data 0 (drop n bs)"
  by (induction n bs rule: is_data.induct) auto

section \<open>Bits of the vector\<close>

definition bv_bit :: "bitvec \<Rightarrow> nat \<Rightarrow> bool" where
  "bv_bit bits q \<longleftrightarrow> bit (bits ! (q div 8)) (7 - q mod 8)"

lemma bit_80: "k < 8 \<Longrightarrow> bit (drop_bit k (0x80 :: byte)) i \<longleftrightarrow> i = 7 - k"
  using exp_eq_0_imp_not_bit [of "k + i" 128] bit_exp_iff [of 7 "k + i", where ?'a = byte]
  by (auto simp: bit_drop_bit_eq)

lemma bit_FF: "bit (drop_bit k (0xFF :: byte)) i \<longleftrightarrow> i + k < 8"
proof -
  have eq: "(0xFF :: byte) = mask 8" by (simp add: mask_eq_exp_minus_1)
  show ?thesis unfolding eq by (auto simp: bit_drop_bit_eq bit_mask_iff simp del: mask_numeral)
qed

lemma and_80: "k < 8 \<Longrightarrow> x AND drop_bit k (0x80 :: byte) = 0 \<longleftrightarrow> \<not> bit x (7 - k)"
  unfolding bit_eq_iff [where ?'a = byte] bit_and_iff
  by (auto simp: bit_80 dest: spec [of _ "7 - k"])

lemma same_position:
  "(q div 8 = p div 8 \<and> 7 - q mod 8 = 7 - p mod 8) = (q = (p :: nat))"
proof -
  have "7 - q mod 8 = 7 - p mod 8 \<longleftrightarrow> q mod 8 = p mod 8"
    using mod_less_divisor [of 8 q] mod_less_divisor [of 8 p] by linarith
  then show ?thesis by (metis div_mult_mod_eq)
qed

lemma byte_window:
  "(q div 8 = p div 8 \<and> 7 - q mod 8 + p mod 8 < 8 \<or>
    q div 8 = p div 8 + 1 \<and> \<not> 7 - q mod 8 + p mod 8 < 8) = (p \<le> q \<and> q < (p :: nat) + 8)"
proof -
  have "(qd = pd \<and> 7 - qm + pm < 8 \<or> qd = pd + 1 \<and> \<not> 7 - qm + pm < 8) =
      (pd * 8 + pm \<le> qd * 8 + qm \<and> qd * 8 + qm < pd * 8 + pm + 8)"
    if "qm < 8" "pm < 8" for qd pd qm pm :: nat
    using that by linarith
  from this [of "q mod 8" "p mod 8" "q div 8" "p div 8"] show ?thesis by simp
qed

lemma codeSegment_bit: "pos div 8 < length bits \<Longrightarrow> codeSegment bits pos = Some (\<not> bv_bit bits pos)"
  by (simp add: codeSegment_def bv_bit_def and_80)

lemma bv_or_ok:
  assumes "i < length bits"
  shows "\<exists>b. bv_or bits i v = Some b \<and> length b = length bits \<and>
    (\<forall>q. q div 8 < length bits \<longrightarrow>
       bv_bit b q = (bv_bit bits q \<or> q div 8 = i \<and> bit v (7 - q mod 8)))"
  using assms by (auto simp: bv_or_def bv_bit_def nth_list_update bit_or_iff)

lemma bv_set_ok:
  assumes "pos div 8 < length bits"
  shows "\<exists>b. bv_set bits pos = Some b \<and> length b = length bits \<and>
    (\<forall>q. q div 8 < length bits \<longrightarrow> bv_bit b q = (bv_bit bits q \<or> q = pos))"
proof -
  have "(q div 8 = pos div 8 \<and> bit (drop_bit (pos mod 8) (0x80 :: byte)) (7 - q mod 8)) = (q = pos)" for q
    using bit_80 [of "pos mod 8" "7 - q mod 8"] by (simp add: same_position)
  then show ?thesis using bv_or_ok [OF assms, of "drop_bit (pos mod 8) 0x80"] by (simp add: bv_set_def)
qed

lemma bv_set8_ok:
  assumes "pos div 8 + 1 < length bits"
  shows "\<exists>b. bv_set8 bits pos = Some b \<and> length b = length bits \<and>
    (\<forall>q. q div 8 < length bits \<longrightarrow> bv_bit b q = (bv_bit bits q \<or> pos \<le> q \<and> q < pos + 8))"
proof -
  let ?v = "drop_bit (pos mod 8) (0xFF :: byte)"
  from assms have "pos div 8 < length bits" by simp
  from bv_or_ok [OF this, of ?v] obtain c where c: "bv_or bits (pos div 8) ?v = Some c" "length c = length bits"
    and cq: "\<And>q. q div 8 < length bits \<Longrightarrow>
      bv_bit c q = (bv_bit bits q \<or> q div 8 = pos div 8 \<and> bit ?v (7 - q mod 8))" by blast
  from bv_or_ok [of "pos div 8 + 1" c "NOT ?v"] assms c(2)
  obtain b where b: "bv_or c (pos div 8 + 1) (NOT ?v) = Some b" "length b = length bits"
    and bq: "\<And>q. q div 8 < length bits \<Longrightarrow>
      bv_bit b q = (bv_bit c q \<or> q div 8 = pos div 8 + 1 \<and> bit (NOT ?v) (7 - q mod 8))" by auto
  have "(q div 8 = pos div 8 \<and> bit ?v (7 - q mod 8) \<or>
      q div 8 = pos div 8 + 1 \<and> bit (NOT ?v) (7 - q mod 8)) = (pos \<le> q \<and> q < pos + 8)" for q
    using byte_window [of q pos] less_imp_diff_less [of 7 8 "q mod 8"] by (simp add: bit_not_iff bit_FF)
  then have "bv_bit b q = (bv_bit bits q \<or> pos \<le> q \<and> q < pos + 8)" if "q div 8 < length bits" for q
    using bq [OF that] cq [OF that] by blast
  then show ?thesis using b c by (simp add: bv_set8_def)
qed

lemma set_rest_ok:
  assumes "pc + n \<le> 8 * length bits"
  shows "\<exists>b. set_rest n pc bits = Some (pc + n, b) \<and> length b = length bits \<and>
    (\<forall>q. q div 8 < length bits \<longrightarrow> bv_bit b q = (bv_bit bits q \<or> pc \<le> q \<and> q < pc + n))"
  using assms
proof (induction n pc bits rule: set_rest.induct)
  case (1 pc bits)
  then show ?case by auto
next
  case (2 n pc bits)
  have "pc div 8 < length bits" using 2(2) by linarith
  from bv_set_ok [OF this] obtain c where c: "bv_set bits pc = Some c" "length c = length bits"
    and cq: "\<And>q. q div 8 < length bits \<Longrightarrow> bv_bit c q = (bv_bit bits q \<or> q = pc)" by blast
  have "pc + 1 + n \<le> 8 * length c" using 2(2) c by simp
  from 2(1) [OF c(1) this] c cq show ?case by auto
qed

lemma set_push_ok:
  assumes "(pc + n) div 8 < length bits"
  shows "\<exists>b. set_push n pc bits = Some (pc + n, b) \<and> length b = length bits \<and>
    (\<forall>q. q div 8 < length bits \<longrightarrow> bv_bit b q = (bv_bit bits q \<or> pc \<le> q \<and> q < pc + n))"
  using assms
proof (induction n pc bits rule: set_push.induct)
  case (1 n pc bits)
  show ?case
  proof (cases "8 \<le> n")
    case False
    moreover have "pc + n \<le> 8 * length bits" using 1(2) by linarith
    ultimately show ?thesis using set_rest_ok by (simp add: set_push.simps [of n])
  next
    case True
    have "pc div 8 + 1 \<le> (pc + n) div 8" using True div_le_mono [of "pc + 8" "pc + n" 8] by simp
    with 1(2) have "pc div 8 + 1 < length bits" by simp
    from bv_set8_ok [OF this] obtain c where c: "bv_set8 bits pc = Some c" "length c = length bits"
      and cq: "\<And>q. q div 8 < length bits \<Longrightarrow> bv_bit c q = (bv_bit bits q \<or> pc \<le> q \<and> q < pc + 8)" by blast
    have "(pc + 8 + (n - 8)) div 8 < length c" using 1(2) True c by simp
    from 1(1) [OF True c(1) this] True c cq show ?thesis by (auto simp: set_push.simps [of n])
  qed
qed

text \<open>The loop at position \<open>pc\<close>: below it the bits are those of the definition, above it they are clear.\<close>

lemma push_bits_le: "IsPush op \<Longrightarrow> push_bits op \<le> 32"
  by (auto simp: IsPush_def PUSH1_def PUSH32_def push_bits_def word_le_nat_alt unat_sub_if')

lemma is_data_push_nth:
  assumes "IsPush op" "k < length bs"
  shows "is_data 0 (op # bs) ! Suc k \<longleftrightarrow>
    (if k < push_bits op then True else is_data 0 (drop (push_bits op) bs) ! (k - push_bits op))"
  using assms by (simp add: is_data_skip [of "push_bits op" bs] nth_append)

lemma codeBitmap_loop_ok:
  assumes "length bits = length code div 8 + 5" "\<And>q. pc \<le> q \<Longrightarrow> q div 8 < length bits \<Longrightarrow> \<not> bv_bit bits q"
  shows "\<exists>b. codeBitmap_loop code pc bits = Some b \<and> length b = length bits \<and>
    (\<forall>q < length code. bv_bit b q \<longleftrightarrow>
       (if q < pc then bv_bit bits q else is_data 0 (drop pc code) ! (q - pc)))"
  using assms
proof (induction code pc bits rule: codeBitmap_loop.induct)
  case (1 code pc bits)
  have inside: "q div 8 < length bits" if "q < length code" for q
    using that 1(3) div_le_mono [of q "length code" 8] by linarith
  consider (fin) "\<not> pc < length code" | (op) "pc < length code" "\<not> IsPush (code ! pc)"
    | (push) "pc < length code" "IsPush (code ! pc)" by blast
  then show ?case
  proof cases
    case fin
    then show ?thesis by (simp add: codeBitmap_loop.simps [of code pc])
  next
    case op
    have rest: "drop pc code = code ! pc # drop (pc + 1) code" using op by (simp add: Cons_nth_drop_Suc)
    from op 1(2) [OF op 1(3)] 1(4) obtain b where b: "codeBitmap_loop code (pc + 1) bits = Some b"
        "length b = length bits"
      and bq: "\<And>q. q < length code \<Longrightarrow> bv_bit b q \<longleftrightarrow>
        (if q < pc + 1 then bv_bit bits q else is_data 0 (drop (pc + 1) code) ! (q - (pc + 1)))" by auto
    have "bv_bit b q \<longleftrightarrow> (if q < pc then bv_bit bits q else is_data 0 (drop pc code) ! (q - pc))"
      if "q < length code" for q
      using bq [OF that] 1(4) [OF _ inside [OF that]] op(2)
      by (cases "q = pc") (auto simp: rest nth_Cons' not_less_eq Suc_diff_le)
    then show ?thesis using op b by (simp add: codeBitmap_loop.simps [of code pc])
  next
    case push
    let ?n = "push_bits (code ! pc)"
    have rest: "drop pc code = code ! pc # drop (pc + 1) code" using push by (simp add: Cons_nth_drop_Suc)
    have "(pc + 1 + ?n) div 8 < length bits"
      using push push_bits_le [OF push(2)] 1(3) div_le_mono [of "pc + 1 + ?n" "length code + 32" 8] by simp
    from set_push_ok [OF this] obtain c where c: "set_push ?n (pc + 1) bits = Some (pc + 1 + ?n, c)"
        "length c = length bits"
      and cq: "\<And>q. q div 8 < length bits \<Longrightarrow> bv_bit c q = (bv_bit bits q \<or> pc + 1 \<le> q \<and> q < pc + 1 + ?n)"
      by blast
    have "length c = length code div 8 + 5" "\<And>q. pc + 1 + ?n \<le> q \<Longrightarrow> q div 8 < length c \<Longrightarrow> \<not> bv_bit c q"
      using c cq 1(3,4) by auto
    from 1(1) [OF push c(1) refl this] obtain b where b: "codeBitmap_loop code (pc + 1 + ?n) c = Some b"
        "length b = length bits"
      and bq: "\<And>q. q < length code \<Longrightarrow> bv_bit b q \<longleftrightarrow>
        (if q < pc + 1 + ?n then bv_bit c q else is_data 0 (drop (pc + 1 + ?n) code) ! (q - (pc + 1 + ?n)))"
      using c(2) by auto
    have "bv_bit b q \<longleftrightarrow> (if q < pc then bv_bit bits q else is_data 0 (drop pc code) ! (q - pc))"
      if q: "q < length code" for q
    proof (cases "q \<le> pc")
      case True
      then show ?thesis using bq [OF q] cq [OF inside [OF q]] 1(4) [OF _ inside [OF q]]
        by (auto simp: rest)
    next
      case False
      then obtain k where k: "q = pc + 1 + k" by (metis Suc_eq_plus1 Suc_leI le_iff_add not_le)
      have "is_data 0 (drop pc code) ! (q - pc) \<longleftrightarrow>
          (if k < ?n then True else is_data 0 (drop (pc + 1 + ?n) code) ! (k - ?n))"
        using is_data_push_nth [OF push(2), of k "drop (pc + 1) code"] q by (simp add: rest k add_ac)
      then show ?thesis using bq [OF q] cq [OF inside [OF q]] by (auto simp: k)
    qed
    then show ?thesis using push b c by (simp add: codeBitmap_loop.simps [of code pc])
  qed
qed

text \<open>
  C33: The analysis terminates without leaving the bit vector, and a position of the code is marked as
  code exactly when it is not an argument of a preceding PUSH: the loop that sets eight bits at a
  time agrees with reading the code byte by byte.
\<close>

theorem codeBitmap_correct:
  "\<exists>bits. codeBitmap code = Some bits \<and>
    map (codeSegment bits) [0..<length code] = map (\<lambda>d. Some (\<not> d)) (is_data 0 code)"
proof -
  let ?z = "replicate (length code div 8 + 1 + 4) (0 :: byte)"
  have "\<not> bv_bit ?z q" if "q div 8 < length ?z" for q
    using that by (simp add: bv_bit_def del: replicate.simps)
  from codeBitmap_loop_ok [of ?z code 0] this
  obtain b where b: "codeBitmap code = Some b" "length b = length ?z"
    and bq: "\<And>q. q < length code \<Longrightarrow> bv_bit b q \<longleftrightarrow> is_data 0 code ! q"
    by (auto simp: codeBitmap_def)
  have "codeSegment b q = Some (\<not> is_data 0 code ! q)" if "q < length code" for q
    using that bq [OF that] div_le_mono [of q "length code" 8] b(2) by (simp add: codeSegment_bit)
  then have "map (codeSegment b) [0..<length code] = map (\<lambda>d. Some (\<not> d)) (is_data 0 code)"
    by (intro nth_equalityI) simp_all
  with b(1) show ?thesis by blast
qed

end
