(* ===== verification/Evm_Gas.thy ===== *)
theory Evm_Gas
  imports Evm_State Jumpdest_Analysis
begin

text \<open>
  The EVM object (\<open>core/vm/evm.go\<close>), the contract of a frame (\<open>contract.go\<close>), the gas constants
  (\<open>constants.go\<close>, \<open>gas_table.go\<close>), the memory size functions (\<open>memory_table.go\<close>) and the gas functions
  (\<open>gas.go\<close>).

  Tracing (\<open>vmConfig.Debug\<close>) is not modelled. What the EVM calls and the repository does not define is
  in \<open>vm_env\<close>: the hash, the block hashes, the arithmetic of \<open>uint256\<close> that is not a plain word
  operation, and the precompiled contracts.
\<close>

section \<open>The EVM object\<close>

record vm_frame =
  f_CallerAccount :: address
  f_Account :: address
  f_Input :: bytes
  f_Gas :: u64
  f_Value :: int

record vm_contract =
  c_frame :: vm_frame
  c_code :: bytes
  c_CodeHash :: "u256 option"
  c_jumpdest_analysis :: "bitvec option"

record vm_trx =
  t_From :: address
  t_GasPrice :: int
  t_To :: "address option"
  t_Nonce :: int
  t_Value :: int
  t_Gas :: u64
  t_Input :: bytes

record vm_block =
  bl_Number :: u64
  bl_Author :: address
  bl_GasLimit :: u64
  bl_Time :: u64
  bl_Difficulty :: int

record evm =
  state :: TransitionState
  block :: vm_block
  trx :: "vm_trx option"
  depth :: u16
  mem_pool :: MemoryPool
  jumpdests :: "(u256 \<rightharpoonup> bitvec) option"
  call_gas_tmp :: u64
  read_only :: bool
  last_retval :: bytes

text \<open>A frame of the interpreter: the local variables of \<open>run\<close>.\<close>

record machine =
  pc :: u64
  contract :: vm_contract
  mem :: Memory
  stack :: Stack

text \<open>
  A precompiled contract. \<open>Run\<close> may return its input itself (\<open>dataCopy\<close> does), a slice that aliases
  the memory of the caller, and not a fresh array.
\<close>

datatype retdata = Fresh bytes | InputAlias

record precompile =
  pc_RequiredGas :: "vm_frame \<Rightarrow> evm \<Rightarrow> u64 option"
  pc_Run :: "vm_frame \<Rightarrow> evm \<Rightarrow> ((retdata \<times> vm_error option) \<times> evm) option"

type_synonym Precompiles = "nat \<rightharpoonup> precompile"

record uint256_ops =
  u_Div :: "u256 \<Rightarrow> u256 \<Rightarrow> u256"
  u_SDiv :: "u256 \<Rightarrow> u256 \<Rightarrow> u256"
  u_Mod :: "u256 \<Rightarrow> u256 \<Rightarrow> u256"
  u_SMod :: "u256 \<Rightarrow> u256 \<Rightarrow> u256"
  u_Exp :: "u256 \<Rightarrow> u256 \<Rightarrow> u256"
  u_ExtendSign :: "u256 \<Rightarrow> u256 \<Rightarrow> u256"
  u_Byte :: "u256 \<Rightarrow> u256 \<Rightarrow> u256"
  u_AddMod :: "u256 \<Rightarrow> u256 \<Rightarrow> u256 \<Rightarrow> u256"
  u_MulMod :: "u256 \<Rightarrow> u256 \<Rightarrow> u256 \<Rightarrow> u256"
  u_SRsh :: "u256 \<Rightarrow> nat \<Rightarrow> u256"

record vm_env =
  env_keccak256 :: "bytes \<Rightarrow> u256"
  env_get_hash :: "u64 \<Rightarrow> int"
  env_ChainId :: u64
  env_u256 :: uint256_ops
  env_precompiles :: Precompiles

definition upd_state :: "(TransitionState \<Rightarrow> TransitionState) \<Rightarrow> evm \<Rightarrow> evm" where
  "upd_state f e = e\<lparr>state := f (state e)\<rparr>"

definition c_Gas :: "vm_contract \<Rightarrow> u64" where
  "c_Gas c = f_Gas (c_frame c)"

definition set_Gas :: "u64 \<Rightarrow> vm_contract \<Rightarrow> vm_contract" where
  "set_Gas g c = c\<lparr>c_frame := (c_frame c)\<lparr>f_Gas := g\<rparr>\<rparr>"

definition NewContract :: "vm_frame \<Rightarrow> bytes \<Rightarrow> u256 option \<Rightarrow> vm_contract" where
  "NewContract frame code hash = \<lparr>c_frame = frame, c_code = code, c_CodeHash = hash, c_jumpdest_analysis = None\<rparr>"

definition UseGas :: "u64 \<Rightarrow> vm_contract \<Rightarrow> bool \<times> vm_contract" where
  "UseGas gas c = (if c_Gas c < gas then (False, c) else (True, set_Gas (c_Gas c - gas) c))"

definition GetOp :: "vm_contract \<Rightarrow> u64 \<Rightarrow> byte" where
  "GetOp c n = (if unat n < length (c_code c) then c_code c ! unat n else 0)"

definition analyze_jumpdests :: "bytes \<Rightarrow> u256 option \<Rightarrow> evm \<Rightarrow> ((bitvec \<times> bool) \<times> evm) option" where
  "analyze_jumpdests code hash e =
     (case hash of
        None \<Rightarrow> do { analysis \<leftarrow> codeBitmap code; Some ((analysis, False), e) }
      | Some h \<Rightarrow>
          let known = (case jumpdests e of None \<Rightarrow> Map.empty | Some m \<Rightarrow> m) in
          case known h of
            Some analysis \<Rightarrow> Some ((analysis, True), e)
          | None \<Rightarrow> do {
              analysis \<leftarrow> codeBitmap code;
              Some ((analysis, True), e\<lparr>jumpdests := Some (known(h \<mapsto> analysis))\<rparr>)
            })"

definition ValidJumpdest :: "u256 \<Rightarrow> vm_contract \<Rightarrow> evm \<Rightarrow> (bool \<times> vm_contract \<times> evm) option" where
  "ValidJumpdest dest c e =
     (let (udest, overflow) = Uint64WithOverflow dest in
      if overflow \<or> GetOp c udest \<noteq> JUMPDEST then Some (False, c, e)
      else case c_jumpdest_analysis c of
        Some analysis \<Rightarrow> do { ok \<leftarrow> codeSegment analysis (unat udest); Some (ok, c, e) }
      | None \<Rightarrow> do {
          ((analysis, cached), e) \<leftarrow> analyze_jumpdests (c_code c) (c_CodeHash c) e;
          let c = (if cached then c else c\<lparr>c_jumpdest_analysis := Some analysis\<rparr>);
          ok \<leftarrow> codeSegment analysis (unat udest);
          Some (ok, c, e)
        })"

definition Bytes20 :: "u256 \<Rightarrow> address" where
  "Bytes20 x = ucast x"

definition address_u256 :: "address \<Rightarrow> u256" where
  "address_u256 a = ucast a"

definition get_account :: "u256 \<Rightarrow> evm \<Rightarrow> address \<times> evm" where
  "get_account x e = (Bytes20 x, upd_state (GetAccountConcrete (Bytes20 x)) e)"

section \<open>Constants\<close>

definition CallValueTransferGas :: u64 where "CallValueTransferGas = 9000"
definition CallNewAccountGas :: u64 where "CallNewAccountGas = 25000"
definition TxGas :: u64 where "TxGas = 21000"
definition TxGasContractCreation :: u64 where "TxGasContractCreation = 53000"
definition TxDataZeroGas :: u64 where "TxDataZeroGas = 4"
definition TxDataNonZeroGas :: u64 where "TxDataNonZeroGas = 68"
definition QuadCoeffDiv :: u64 where "QuadCoeffDiv = 512"
definition LogDataGas :: u64 where "LogDataGas = 8"
definition CallStipend :: u64 where "CallStipend = 2300"
definition Keccak256WordGas :: u64 where "Keccak256WordGas = 6"
definition NetSstoreNoopGas :: u64 where "NetSstoreNoopGas = 200"
definition NetSstoreInitGas :: u64 where "NetSstoreInitGas = 20000"
definition NetSstoreCleanGas :: u64 where "NetSstoreCleanGas = 5000"
definition NetSstoreDirtyGas :: u64 where "NetSstoreDirtyGas = 200"
definition NetSstoreClearRefund :: u64 where "NetSstoreClearRefund = 15000"
definition NetSstoreResetRefund :: u64 where "NetSstoreResetRefund = 4800"
definition NetSstoreResetClearRefund :: u64 where "NetSstoreResetClearRefund = 19800"
definition JumpdestGas :: u64 where "JumpdestGas = 1"
definition CreateDataGas :: u64 where "CreateDataGas = 200"
definition CallCreateDepth :: u16 where "CallCreateDepth = 1024"
definition ExpGas :: u64 where "ExpGas = 10"
definition LogGas :: u64 where "LogGas = 375"
definition LogTopicGas :: u64 where "LogTopicGas = 375"
definition CopyGas :: u64 where "CopyGas = 3"
definition CreateGas :: u64 where "CreateGas = 32000"
definition Create2Gas :: u64 where "Create2Gas = 32000"
definition SuicideRefundGas :: u64 where "SuicideRefundGas = 24000"
definition MemoryGas :: u64 where "MemoryGas = 3"
definition MaxCodeSize :: nat where "MaxCodeSize = 24576"

definition GasQuickStep :: u64 where "GasQuickStep = 2"
definition GasFastestStep :: u64 where "GasFastestStep = 3"
definition GasFastStep :: u64 where "GasFastStep = 5"
definition GasMidStep :: u64 where "GasMidStep = 8"
definition GasSlowStep :: u64 where "GasSlowStep = 10"
definition GasExtStep :: u64 where "GasExtStep = 20"

text \<open>The one gas table the EVM installs, \<open>GasTableCalifornicum\<close>.\<close>

record GasTable =
  gt_ExtcodeSize :: u64
  gt_ExtcodeCopy :: u64
  gt_ExtcodeHash :: u64
  gt_Balance :: u64
  gt_SLoad :: u64
  gt_Calls :: u64
  gt_Suicide :: u64
  gt_ExpByte :: u64
  gt_CreateBySuicide :: u64
  gt_WarmStorageReadCost :: u64

definition gas_table :: GasTable where
  "gas_table = \<lparr>gt_ExtcodeSize = 700, gt_ExtcodeCopy = 700, gt_ExtcodeHash = 700, gt_Balance = 700,
     gt_SLoad = 800, gt_Calls = 700, gt_Suicide = 5000, gt_ExpByte = 50, gt_CreateBySuicide = 25000,
     gt_WarmStorageReadCost = 100\<rparr>"

section \<open>Memory sizes\<close>

definition mem_size2 :: "nat \<Rightarrow> nat \<Rightarrow> Stack \<Rightarrow> u256 option" where
  "mem_size2 i j st = do { off \<leftarrow> Back st i; l \<leftarrow> Back st j; Some (calcMemSize off l) }"

definition memoryKeccak256 :: "Stack \<Rightarrow> u256 option" where "memoryKeccak256 = mem_size2 0 1"
definition memoryCallDataCopy :: "Stack \<Rightarrow> u256 option" where "memoryCallDataCopy = mem_size2 0 2"
definition memoryReturnDataCopy :: "Stack \<Rightarrow> u256 option" where "memoryReturnDataCopy = mem_size2 0 2"
definition memoryCodeCopy :: "Stack \<Rightarrow> u256 option" where "memoryCodeCopy = mem_size2 0 2"
definition memoryExtCodeCopy :: "Stack \<Rightarrow> u256 option" where "memoryExtCodeCopy = mem_size2 1 3"
definition memoryCreate :: "Stack \<Rightarrow> u256 option" where "memoryCreate = mem_size2 1 2"
definition memoryCreate2 :: "Stack \<Rightarrow> u256 option" where "memoryCreate2 = mem_size2 1 2"
definition memoryReturn :: "Stack \<Rightarrow> u256 option" where "memoryReturn = mem_size2 0 1"
definition memoryRevert :: "Stack \<Rightarrow> u256 option" where "memoryRevert = mem_size2 0 1"
definition memoryLog :: "Stack \<Rightarrow> u256 option" where "memoryLog = mem_size2 0 1"

definition memoryMLoad :: "Stack \<Rightarrow> u256 option" where
  "memoryMLoad st = do { off \<leftarrow> Back st 0; Some (calcMemSize off 32) }"

definition memoryMStore8 :: "Stack \<Rightarrow> u256 option" where
  "memoryMStore8 st = do { off \<leftarrow> Back st 0; Some (calcMemSize off 1) }"

definition memoryMStore :: "Stack \<Rightarrow> u256 option" where
  "memoryMStore st = do { off \<leftarrow> Back st 0; Some (calcMemSize off 32) }"

definition memoryMcopy :: "Stack \<Rightarrow> u256 option" where
  "memoryMcopy st = do {
     dst \<leftarrow> Back st 0;
     src \<leftarrow> Back st 1;
     l \<leftarrow> Back st 2;
     let sz = calcMemSize (if src > dst then src else dst) l;
     Some (if IsUint64 sz then sz else 0)
   }"

definition memoryCall :: "Stack \<Rightarrow> u256 option" where
  "memoryCall st = do { x \<leftarrow> mem_size2 5 6 st; y \<leftarrow> mem_size2 3 4 st; Some (bigMax x y) }"

definition memoryDelegateCall :: "Stack \<Rightarrow> u256 option" where
  "memoryDelegateCall st = do { x \<leftarrow> mem_size2 4 5 st; y \<leftarrow> mem_size2 2 3 st; Some (bigMax x y) }"

definition memoryStaticCall :: "Stack \<Rightarrow> u256 option" where
  "memoryStaticCall st = do { x \<leftarrow> mem_size2 4 5 st; y \<leftarrow> mem_size2 2 3 st; Some (bigMax x y) }"

section \<open>Gas functions\<close>

definition count_nonzero :: "bytes \<Rightarrow> u64" where
  "count_nonzero data = foldl (\<lambda>nz byt. if byt \<noteq> 0 then nz + 1 else nz) 0 data"

definition IntrinsicGas :: "bytes \<Rightarrow> bool \<Rightarrow> vm_error + u64" where
  "IntrinsicGas data contractCreation =
     (let gas = (if contractCreation then TxGasContractCreation else TxGas) in
      if length data > 0 then
        let nz = count_nonzero data in
        if (MaxUint64 - gas) div TxDataNonZeroGas < nz then Inl ErrOutOfGas
        else
          let gas = gas + nz * TxDataNonZeroGas;
              z = word_of_nat (length data) - nz
          in if (MaxUint64 - gas) div TxDataZeroGas < z then Inl ErrOutOfGas
             else Inr (gas + z * TxDataZeroGas)
      else Inr gas)"

definition callGas :: "u64 \<Rightarrow> u64 \<Rightarrow> u256 \<Rightarrow> vm_error + u64" where
  "callGas availableGas base callCost =
     (let availableGas' = availableGas - base;
          gas = availableGas' - availableGas' div 64
      in if gt_CreateBySuicide gas_table > 0 \<and> (\<not> IsUint64 callCost \<or> gas < U256_Uint64 callCost)
         then Inr gas
         else if \<not> IsUint64 callCost then Inl errGasUintOverflow
         else Inr (U256_Uint64 callCost))"

definition memoryGasCost :: "MemoryPool \<Rightarrow> Memory \<Rightarrow> u64 \<Rightarrow> (vm_error + u64) \<times> Memory" where
  "memoryGasCost p m newMemSize =
     (if newMemSize = 0 then (Inr 0, m)
      else if newMemSize > 0xffffffffe0 then (Inl errGasUintOverflow, m)
      else
        let newMemSizeWords = toWordSize newMemSize;
            newMemSize = newMemSizeWords * 32
        in if newMemSize > Memory_Len p m then
             let square = newMemSizeWords * newMemSizeWords;
                 linCoef = newMemSizeWords * MemoryGas;
                 quadCoef = square div QuadCoeffDiv;
                 newTotalFee = linCoef + quadCoef;
                 fee = newTotalFee - lastGasCost m
             in (Inr fee, m\<lparr>lastGasCost := newTotalFee\<rparr>)
           else (Inr 0, m))"

text \<open>
  A gas function reads the frame and the EVM and returns the cost or an error; it changes the last
  memory fee, the gas for the next call, the refund counter, and loads accounts.
\<close>

type_synonym gasFunc = "machine \<Rightarrow> evm \<Rightarrow> u64 \<Rightarrow> ((vm_error + u64) \<times> machine \<times> evm) option"

definition gas_bind :: "vm_error + u64 \<Rightarrow> (u64 \<Rightarrow> vm_error + u64) \<Rightarrow> vm_error + u64" where
  "gas_bind r f = (case r of Inl err \<Rightarrow> Inl err | Inr g \<Rightarrow> f g)"

definition safe_add :: "u64 \<Rightarrow> u64 \<Rightarrow> vm_error + u64" where
  "safe_add x y = (let (g, overflow) = SafeAdd x y in if overflow then Inl errGasUintOverflow else Inr g)"

definition safe_mul :: "u64 \<Rightarrow> u64 \<Rightarrow> vm_error + u64" where
  "safe_mul x y = (let (g, overflow) = SafeMul x y in if overflow then Inl errGasUintOverflow else Inr g)"

definition to_u64 :: "u256 \<Rightarrow> vm_error + u64" where
  "to_u64 x = (let (g, overflow) = Uint64WithOverflow x in if overflow then Inl errGasUintOverflow else Inr g)"

definition constGasFunc :: "u64 \<Rightarrow> gasFunc" where
  "constGasFunc gas m e memorySize = Some (Inr gas, m, e)"

text \<open>The memory fee first, then the rest of the cost.\<close>

definition with_memory :: "(u64 \<Rightarrow> vm_error + u64) \<Rightarrow> gasFunc" where
  "with_memory f m e memorySize =
     (let (r, mm) = memoryGasCost (mem_pool e) (mem m) memorySize
      in Some (gas_bind r f, m\<lparr>mem := mm\<rparr>, e))"

definition word_gas :: "u256 \<Rightarrow> u64 \<Rightarrow> u64 \<Rightarrow> vm_error + u64" where
  "word_gas words perWord gas =
     gas_bind (to_u64 words) (\<lambda>w. gas_bind (safe_mul (toWordSize w) perWord) (safe_add gas))"

definition memoryCopierGas :: "nat \<Rightarrow> u64 \<Rightarrow> gasFunc" where
  "memoryCopierGas stackpos staticGas m e memorySize = do {
     l \<leftarrow> Back (stack m) stackpos;
     with_memory (\<lambda>gas. gas_bind (safe_add gas staticGas) (word_gas l CopyGas)) m e memorySize
   }"

definition gasCallDataCopy :: gasFunc where "gasCallDataCopy = memoryCopierGas 2 GasFastestStep"
definition gasCodeCopy :: gasFunc where "gasCodeCopy = memoryCopierGas 2 GasFastestStep"
definition gasMcopy :: gasFunc where "gasMcopy = memoryCopierGas 2 GasFastestStep"
definition gasReturnDataCopy :: gasFunc where "gasReturnDataCopy = memoryCopierGas 2 GasFastestStep"

definition gasSStore :: gasFunc where
  "gasSStore m e memorySize = do {
     y \<leftarrow> Back (stack m) 1;
     x \<leftarrow> Back (stack m) 0;
     let a = f_Account (c_frame (contract m));
     let (current, ts) = GetState (state e) a (uint x);
     if current = uint y then Some (Inr NetSstoreNoopGas, m, e\<lparr>state := ts\<rparr>)
     else do {
       let (original, ts) = GetCommittedState ts a (uint x);
       if original = current then
         if original = 0 then Some (Inr NetSstoreInitGas, m, e\<lparr>state := ts\<rparr>)
         else
           let ts = (if y = 0 then AddRefund NetSstoreClearRefund ts else ts)
           in Some (Inr NetSstoreCleanGas, m, e\<lparr>state := ts\<rparr>)
       else do {
         ts \<leftarrow> (if original \<noteq> 0 then
                  if current = 0 then SubRefund NetSstoreClearRefund ts
                  else if y = 0 then Some (AddRefund NetSstoreClearRefund ts)
                  else Some ts
                else Some ts);
         let ts = (if original = uint y then
                     if original = 0 then AddRefund NetSstoreResetClearRefund ts
                     else AddRefund NetSstoreResetRefund ts
                   else ts);
         Some (Inr NetSstoreDirtyGas, m, e\<lparr>state := ts\<rparr>)
       }
     }
   }"

definition makeGasLog :: "u64 \<Rightarrow> gasFunc" where
  "makeGasLog n m e memorySize = do {
     l \<leftarrow> Back (stack m) 1;
     case to_u64 l of
       Inl err \<Rightarrow> Some (Inl err, m, e)
     | Inr requestedSize \<Rightarrow>
         with_memory (\<lambda>gas. gas_bind (safe_add gas LogGas) (\<lambda>gas. gas_bind (safe_add gas (n * LogTopicGas))
           (\<lambda>gas. gas_bind (safe_mul requestedSize LogDataGas) (safe_add gas)))) m e memorySize
   }"

definition gasKeccak256 :: gasFunc where
  "gasKeccak256 m e memorySize = do {
     l \<leftarrow> Back (stack m) 1;
     with_memory (\<lambda>gas. gas_bind (safe_add gas Keccak256WordGas) (word_gas l Keccak256WordGas)) m e memorySize
   }"

definition gasExtCodeCopy :: gasFunc where
  "gasExtCodeCopy m e memorySize = do {
     l \<leftarrow> Back (stack m) 3;
     with_memory (\<lambda>gas. gas_bind (safe_add gas (gt_ExtcodeCopy gas_table)) (word_gas l CopyGas)) m e memorySize
   }"

definition gasExtCodeHash :: gasFunc where
  "gasExtCodeHash m e memorySize = Some (Inr (gt_ExtcodeHash gas_table), m, e)"

text \<open>These three return \<open>errGasUintOverflow\<close> for any error of \<open>memoryGasCost\<close>, the only one it has.\<close>

definition gasMLoad :: gasFunc where "gasMLoad = with_memory (\<lambda>gas. safe_add gas GasFastestStep)"
definition gasMStore8 :: gasFunc where "gasMStore8 = with_memory (\<lambda>gas. safe_add gas GasFastestStep)"
definition gasMStore :: gasFunc where "gasMStore = with_memory (\<lambda>gas. safe_add gas GasFastestStep)"
definition gasCreate :: gasFunc where "gasCreate = with_memory (\<lambda>gas. safe_add gas CreateGas)"

definition gasCreate2 :: gasFunc where
  "gasCreate2 m e memorySize = do {
     l \<leftarrow> Back (stack m) 2;
     with_memory (\<lambda>gas. gas_bind (safe_add gas Create2Gas) (word_gas l Keccak256WordGas)) m e memorySize
   }"

definition gasBalance :: gasFunc where
  "gasBalance m e memorySize = Some (Inr (gt_Balance gas_table), m, e)"

definition gasExtCodeSize :: gasFunc where
  "gasExtCodeSize m e memorySize = Some (Inr (gt_ExtcodeSize gas_table), m, e)"

definition gasSLoad :: gasFunc where
  "gasSLoad m e memorySize = Some (Inr (gt_SLoad gas_table), m, e)"

definition gasTLoad :: gasFunc where
  "gasTLoad m e memorySize = Some (Inr (gt_WarmStorageReadCost gas_table), m, e)"

definition gasExp :: gasFunc where
  "gasExp m e memorySize = do {
     x \<leftarrow> Back (stack m) 1;
     let expByteLen = word_of_nat ((bit_len (unat x) + 7) div 8);
     Some (safe_add (expByteLen * gt_ExpByte gas_table) ExpGas, m, e)
   }"

text \<open>
  The common end of the call gas functions: the gas for the callee is computed from what is left
  after the base cost, kept for the operation, and added to the cost.
\<close>

definition call_cost :: "u256 \<Rightarrow> u64 \<Rightarrow> machine \<Rightarrow> evm \<Rightarrow> (vm_error + u64) \<times> machine \<times> evm" where
  "call_cost requested gas m e =
     (case callGas (c_Gas (contract m)) gas requested of
        Inl err \<Rightarrow> (Inl err, m, e\<lparr>call_gas_tmp := 0\<rparr>)
      | Inr g \<Rightarrow> (safe_add gas g, m, e\<lparr>call_gas_tmp := g\<rparr>))"

definition with_call_memory :: "u256 \<Rightarrow> u64 \<Rightarrow> gasFunc" where
  "with_call_memory requested base m e memorySize =
     (case memoryGasCost (mem_pool e) (mem m) memorySize of
        (Inl err, mm) \<Rightarrow> Some (Inl err, m\<lparr>mem := mm\<rparr>, e)
      | (Inr memoryGas, mm) \<Rightarrow>
          (case safe_add base memoryGas of
             Inl err \<Rightarrow> Some (Inl err, m\<lparr>mem := mm\<rparr>, e)
           | Inr gas \<Rightarrow> Some (call_cost requested gas (m\<lparr>mem := mm\<rparr>) e)))"

definition gasCall :: gasFunc where
  "gasCall m e memorySize = do {
     value \<leftarrow> Back (stack m) 2;
     addr \<leftarrow> Back (stack m) 1;
     requested \<leftarrow> Back (stack m) 0;
     let transfersValue = (value \<noteq> 0);
     let (acc, e) = get_account addr e;
     let gas = gt_Calls gas_table;
     let gas = (if transfersValue \<and> IsEIP161Empty (state e) acc then gas + CallNewAccountGas else gas);
     let gas = (if transfersValue then gas + CallValueTransferGas else gas);
     with_call_memory requested gas m e memorySize
   }"

definition gasCallCode :: gasFunc where
  "gasCallCode m e memorySize = do {
     value \<leftarrow> Back (stack m) 2;
     requested \<leftarrow> Back (stack m) 0;
     let gas = gt_Calls gas_table;
     let gas = (if value \<noteq> 0 then gas + CallValueTransferGas else gas);
     with_call_memory requested gas m e memorySize
   }"

definition gasReturn :: gasFunc where "gasReturn = with_memory Inr"
definition gasRevert :: gasFunc where "gasRevert = with_memory Inr"

definition gasSuicide :: gasFunc where
  "gasSuicide m e memorySize = do {
     x \<leftarrow> Back (stack m) 0;
     let gas = gt_Suicide gas_table;
     let (new_acc, e) = get_account x e;
     let a = f_Account (c_frame (contract m));
     let gas = (if IsEIP161Empty (state e) new_acc \<and> GetBalance (state e) a \<noteq> 0
                then gas + gt_CreateBySuicide gas_table else gas);
     suicided \<leftarrow> HasSuicided (state e) a;
     let e = (if \<not> suicided then upd_state (AddRefund SuicideRefundGas) e else e);
     Some (Inr gas, m, e)
   }"

definition gasDelegateCall :: gasFunc where
  "gasDelegateCall m e memorySize = do {
     requested \<leftarrow> Back (stack m) 0;
     with_call_memory requested (gt_Calls gas_table) m e memorySize
   }"

definition gasStaticCall :: gasFunc where
  "gasStaticCall m e memorySize = do {
     requested \<leftarrow> Back (stack m) 0;
     with_call_memory requested (gt_Calls gas_table) m e memorySize
   }"

definition gasPush :: gasFunc where "gasPush m e memorySize = Some (Inr GasFastestStep, m, e)"
definition gasSwap :: gasFunc where "gasSwap m e memorySize = Some (Inr GasFastestStep, m, e)"
definition gasDup :: gasFunc where "gasDup m e memorySize = Some (Inr GasFastestStep, m, e)"

end
