(* ===== verification/Evm_Instructions.thy ===== *)
theory Evm_Instructions
  imports Evm_Gas
begin

text \<open>
  The instructions that do not call other contracts (\<open>core/vm/instructions.go\<close>, \<open>eips.go\<close>). An
  instruction takes the frame and the EVM and returns its result bytes, an error or none, and both
  changed; \<^const>\<open>None\<close> is a Go panic.
\<close>

unbundle bit_operations_syntax

type_synonym op_result = "(bytes \<times> vm_error option) \<times> machine \<times> evm"
type_synonym simple_op = "vm_env \<Rightarrow> machine \<Rightarrow> evm \<Rightarrow> op_result option"

definition ok :: "machine \<Rightarrow> evm \<Rightarrow> op_result option" where
  "ok m e = Some (([], None), m, e)"

definition fail :: "vm_error \<Rightarrow> machine \<Rightarrow> evm \<Rightarrow> op_result option" where
  "fail err m e = Some (([], Some err), m, e)"

definition set_top :: "u256 \<Rightarrow> Stack \<Rightarrow> Stack" where
  "set_top v st = v # tl st"

text \<open>The instructions that only change the stack pop their operands and overwrite the last one.\<close>

definition unop :: "(u256 \<Rightarrow> u256) \<Rightarrow> simple_op" where
  "unop f env m e = do {
     x \<leftarrow> peek (stack m);
     ok (m\<lparr>stack := set_top (f x) (stack m)\<rparr>) e
   }"

definition binop :: "(u256 \<Rightarrow> u256 \<Rightarrow> u256) \<Rightarrow> simple_op" where
  "binop f env m e = do {
     (x, st) \<leftarrow> pop (stack m);
     y \<leftarrow> peek st;
     ok (m\<lparr>stack := set_top (f x y) st\<rparr>) e
   }"

definition ternop :: "(u256 \<Rightarrow> u256 \<Rightarrow> u256 \<Rightarrow> u256) \<Rightarrow> simple_op" where
  "ternop f env m e = do {
     (x, st) \<leftarrow> pop (stack m);
     (y, st) \<leftarrow> pop st;
     z \<leftarrow> peek st;
     ok (m\<lparr>stack := set_top (f x y z) st\<rparr>) e
   }"

definition of_bool256 :: "bool \<Rightarrow> u256" where
  "of_bool256 b = (if b then 1 else 0)"

section \<open>Arithmetic, comparison and bits\<close>

definition opAdd :: simple_op where "opAdd = binop (+)"
definition opSub :: simple_op where "opSub = binop (-)"
definition opMul :: simple_op where "opMul = binop (*)"
definition opDiv :: simple_op where "opDiv env = binop (u_Div (env_u256 env)) env"
definition opSdiv :: simple_op where "opSdiv env = binop (u_SDiv (env_u256 env)) env"
definition opMod :: simple_op where "opMod env = binop (u_Mod (env_u256 env)) env"
definition opSmod :: simple_op where "opSmod env = binop (u_SMod (env_u256 env)) env"
definition opExp :: simple_op where "opExp env = binop (u_Exp (env_u256 env)) env"
definition opSignExtend :: simple_op where
  "opSignExtend env = binop (\<lambda>back num. u_ExtendSign (env_u256 env) num back) env"
definition opNot :: simple_op where "opNot = unop NOT"
definition opLt :: simple_op where "opLt = binop (\<lambda>x y. of_bool256 (x < y))"
definition opGt :: simple_op where "opGt = binop (\<lambda>x y. of_bool256 (x > y))"
definition opSlt :: simple_op where "opSlt = binop (\<lambda>x y. of_bool256 (sint x < sint y))"
definition opSgt :: simple_op where "opSgt = binop (\<lambda>x y. of_bool256 (sint x > sint y))"
definition opEq :: simple_op where "opEq = binop (\<lambda>x y. of_bool256 (x = y))"
definition opIszero :: simple_op where "opIszero = unop (\<lambda>x. of_bool256 (x = 0))"
definition opAnd :: simple_op where "opAnd = binop (AND)"
definition opOr :: simple_op where "opOr = binop (OR)"
definition opXor :: simple_op where "opXor = binop (XOR)"
definition opByte :: simple_op where
  "opByte env = binop (\<lambda>th val. u_Byte (env_u256 env) val th) env"
definition opAddmod :: simple_op where
  "opAddmod env = ternop (\<lambda>x y z. if z = 0 then 0 else u_AddMod (env_u256 env) x y z) env"
definition opMulmod :: simple_op where
  "opMulmod env = ternop (u_MulMod (env_u256 env)) env"
definition opSHL :: simple_op where
  "opSHL = binop (\<lambda>shift value. if shift < 256 then push_bit (unat shift) value else 0)"
definition opSHR :: simple_op where
  "opSHR = binop (\<lambda>shift value. if shift < 256 then drop_bit (unat shift) value else 0)"
definition opSAR :: simple_op where
  "opSAR env = binop (\<lambda>shift value.
     if shift > 256 then if sint value \<ge> 0 then 0 else - 1
     else u_SRsh (env_u256 env) value (unat shift)) env"

section \<open>Memory and stack\<close>

text \<open>\<open>int64(x.Uint64())\<close>\<close>

definition as_int64 :: "u256 \<Rightarrow> int" where
  "as_int64 x = sint (U256_Uint64 x)"

definition mem_get :: "u256 \<Rightarrow> u256 \<Rightarrow> machine \<Rightarrow> evm \<Rightarrow> bytes option" where
  "mem_get offset sz m e = GetPtr (as_int64 offset) (as_int64 sz) (mem_pool e) (mem m)"

definition mem_get_copy :: "u256 \<Rightarrow> u256 \<Rightarrow> machine \<Rightarrow> evm \<Rightarrow> bytes option" where
  "mem_get_copy offset sz m e = GetCopy (as_int64 offset) (as_int64 sz) (mem_pool e) (mem m)"

definition mem_set :: "u256 \<Rightarrow> u256 \<Rightarrow> bytes \<Rightarrow> machine \<Rightarrow> evm \<Rightarrow> (machine \<times> evm) option" where
  "mem_set offset sz value m e = do {
     (p, mm) \<leftarrow> Memory_Set (U256_Uint64 offset) (U256_Uint64 sz) value (mem_pool e) (mem m);
     Some (m\<lparr>mem := mm\<rparr>, e\<lparr>mem_pool := p\<rparr>)
   }"

definition pop3 :: "Stack \<Rightarrow> ((u256 \<times> u256 \<times> u256) \<times> Stack) option" where
  "pop3 st = do { (x, st) \<leftarrow> pop st; (y, st) \<leftarrow> pop st; (z, st) \<leftarrow> pop st; Some ((x, y, z), st) }"

definition push_op :: "(vm_env \<Rightarrow> machine \<Rightarrow> evm \<Rightarrow> u256) \<Rightarrow> simple_op" where
  "push_op f env m e = ok (m\<lparr>stack := push (f env m e) (stack m)\<rparr>) e"

definition opKeccak256 :: simple_op where
  "opKeccak256 env m e = do {
     (offset, st) \<leftarrow> pop (stack m);
     sz \<leftarrow> peek st;
     data \<leftarrow> mem_get offset sz m e;
     ok (m\<lparr>stack := set_top (env_keccak256 env data) st\<rparr>) e
   }"

definition opAddress :: simple_op where
  "opAddress = push_op (\<lambda>env m e. address_u256 (f_Account (c_frame (contract m))))"

definition opBalance :: simple_op where
  "opBalance env m e = do {
     slot \<leftarrow> peek (stack m);
     let (a, e) = get_account slot e;
     ok (m\<lparr>stack := set_top (word_of_int (GetBalance (state e) a)) (stack m)\<rparr>) e
   }"

definition opOrigin :: simple_op where
  "opOrigin env m e = do {
     t \<leftarrow> trx e;
     ok (m\<lparr>stack := push (address_u256 (t_From t)) (stack m)\<rparr>) e
   }"

definition opCaller :: simple_op where
  "opCaller = push_op (\<lambda>env m e. address_u256 (f_CallerAccount (c_frame (contract m))))"

definition opCallValue :: simple_op where
  "opCallValue = push_op (\<lambda>env m e. word_of_int (f_Value (c_frame (contract m))))"

definition opCallDataLoad :: simple_op where
  "opCallDataLoad env m e = do {
     x \<leftarrow> peek (stack m);
     let (offset, overflow) = Uint64WithOverflow x;
     v \<leftarrow> (if \<not> overflow then do {
             data \<leftarrow> getData (f_Input (c_frame (contract m))) offset 32;
             Some (Hash_SetBytes data)
           } else Some 0);
     ok (m\<lparr>stack := set_top v (stack m)\<rparr>) e
   }"

definition opCallDataSize :: simple_op where
  "opCallDataSize = push_op (\<lambda>env m e. word_of_nat (length (f_Input (c_frame (contract m)))))"

definition cap_offset :: "u256 \<Rightarrow> u64" where
  "cap_offset x = (let (off, overflow) = Uint64WithOverflow x in if overflow then 0xffffffffffffffff else off)"

definition opCallDataCopy :: simple_op where
  "opCallDataCopy env m e = do {
     ((memOffset, dataOffset, len), st) \<leftarrow> pop3 (stack m);
     data \<leftarrow> getData (f_Input (c_frame (contract m))) (cap_offset dataOffset) (U256_Uint64 len);
     (m, e) \<leftarrow> mem_set memOffset len data (m\<lparr>stack := st\<rparr>) e;
     ok m e
   }"

definition opReturnDataSize :: simple_op where
  "opReturnDataSize = push_op (\<lambda>env m e. word_of_nat (length (last_retval e)))"

definition opReturnDataCopy :: simple_op where
  "opReturnDataCopy env m e = do {
     ((memOffset, dataOffset, len), st) \<leftarrow> pop3 (stack m);
     let m = m\<lparr>stack := st\<rparr>;
     let (offset64, overflow) = Uint64WithOverflow dataOffset;
     if overflow then fail ErrReturnDataOutOfBounds m e
     else do {
       let (end64, overflow) = Uint64WithOverflow (dataOffset + len);
       if overflow \<or> word_of_nat (length (last_retval e)) < end64 then fail ErrReturnDataOutOfBounds m e
       else do {
         data \<leftarrow> go_slice (last_retval e) (uint offset64) (uint end64);
         (m, e) \<leftarrow> mem_set memOffset len data m e;
         ok m e
       }
     }
   }"

definition opExtCodeSize :: simple_op where
  "opExtCodeSize env m e = do {
     slot \<leftarrow> peek (stack m);
     let (a, e) = get_account slot e;
     ok (m\<lparr>stack := set_top (u256_of_u64 (GetCodeSize (state e) a)) (stack m)\<rparr>) e
   }"

definition opCodeSize :: simple_op where
  "opCodeSize = push_op (\<lambda>env m e. word_of_nat (length (c_code (contract m))))"

definition opCodeCopy :: simple_op where
  "opCodeCopy env m e = do {
     ((memOffset, codeOffset, len), st) \<leftarrow> pop3 (stack m);
     codeCopy \<leftarrow> getData (c_code (contract m)) (cap_offset codeOffset) (U256_Uint64 len);
     (m, e) \<leftarrow> mem_set memOffset len codeCopy (m\<lparr>stack := st\<rparr>) e;
     ok m e
   }"

definition opExtCodeCopy :: simple_op where
  "opExtCodeCopy env m e = do {
     (addr, st) \<leftarrow> pop (stack m);
     ((memOffset, codeOffset, len), st) \<leftarrow> pop3 st;
     let (a, e) = get_account addr e;
     (code, ts) \<leftarrow> GetCode (state e) a;
     codeCopy \<leftarrow> getData code (cap_offset codeOffset) (U256_Uint64 len);
     (m, e) \<leftarrow> mem_set memOffset len codeCopy (m\<lparr>stack := st\<rparr>) (e\<lparr>state := ts\<rparr>);
     ok m e
   }"

definition opExtCodeHash :: simple_op where
  "opExtCodeHash env m e = do {
     slot \<leftarrow> peek (stack m);
     let (a, e) = get_account slot e;
     v \<leftarrow> (if IsEIP161Empty (state e) a then Some 0 else GetCodeHash (env_keccak256 env) (state e) a);
     ok (m\<lparr>stack := set_top v (stack m)\<rparr>) e
   }"

definition opGasprice :: simple_op where
  "opGasprice env m e = do {
     t \<leftarrow> trx e;
     ok (m\<lparr>stack := push (word_of_int (t_GasPrice t)) (stack m)\<rparr>) e
   }"

definition opBlockhash :: simple_op where
  "opBlockhash env m e = do {
     num \<leftarrow> peek (stack m);
     let (num64, overflow) = Uint64WithOverflow num;
     let upper = bl_Number (block e);
     let lower = (if upper < 257 then 0 else upper - 256);
     let v = (if \<not> overflow \<and> num64 \<ge> lower \<and> num64 < upper
              then word_of_int (env_get_hash env num64) else 0);
     ok (m\<lparr>stack := set_top v (stack m)\<rparr>) e
   }"

definition opCoinbase :: simple_op where "opCoinbase = push_op (\<lambda>env m e. address_u256 (bl_Author (block e)))"
definition opTimestamp :: simple_op where "opTimestamp = push_op (\<lambda>env m e. u256_of_u64 (bl_Time (block e)))"
definition opNumber :: simple_op where "opNumber = push_op (\<lambda>env m e. u256_of_u64 (bl_Number (block e)))"
definition opDifficulty :: simple_op where "opDifficulty = push_op (\<lambda>env m e. word_of_int (bl_Difficulty (block e)))"
definition opGasLimit :: simple_op where "opGasLimit = push_op (\<lambda>env m e. u256_of_u64 (bl_GasLimit (block e)))"
definition opChainID :: simple_op where "opChainID = push_op (\<lambda>env m e. u256_of_u64 (env_ChainId env))"

definition opSelfBalance :: simple_op where
  "opSelfBalance env m e =
     (let a = f_Account (c_frame (contract m));
          e = upd_state (GetAccountConcrete a) e
      in ok (m\<lparr>stack := push (word_of_int (GetBalance (state e) a)) (stack m)\<rparr>) e)"

definition opPop :: simple_op where
  "opPop env m e = do { (_, st) \<leftarrow> pop (stack m); ok (m\<lparr>stack := st\<rparr>) e }"

definition opMload :: simple_op where
  "opMload env m e = do {
     v \<leftarrow> peek (stack m);
     data \<leftarrow> GetPtr (as_int64 v) 32 (mem_pool e) (mem m);
     ok (m\<lparr>stack := set_top (Hash_SetBytes data) (stack m)\<rparr>) e
   }"

definition opMstore :: simple_op where
  "opMstore env m e = do {
     (mStart, st) \<leftarrow> pop (stack m);
     (val, st) \<leftarrow> pop st;
     (p, mm) \<leftarrow> Set32 (U256_Uint64 mStart) val (mem_pool e) (mem m);
     ok (m\<lparr>stack := st, mem := mm\<rparr>) (e\<lparr>mem_pool := p\<rparr>)
   }"

definition opMstore8 :: simple_op where
  "opMstore8 env m e = do {
     (off, st) \<leftarrow> pop (stack m);
     (val, st) \<leftarrow> pop st;
     (p, mm) \<leftarrow> store_byte (U256_Uint64 off) (ucast val) (mem_pool e) (mem m);
     ok (m\<lparr>stack := st, mem := mm\<rparr>) (e\<lparr>mem_pool := p\<rparr>)
   }"

definition opMcopy :: simple_op where
  "opMcopy env m e = do {
     ((dst, src, len), st) \<leftarrow> pop3 (stack m);
     (p, mm) \<leftarrow> Memory_Copy (U256_Uint64 dst) (U256_Uint64 src) (U256_Uint64 len) (mem_pool e) (mem m);
     ok (m\<lparr>stack := st, mem := mm\<rparr>) (e\<lparr>mem_pool := p\<rparr>)
   }"

section \<open>Storage, jumps, logs\<close>

definition opSload :: simple_op where
  "opSload env m e = do {
     loc \<leftarrow> peek (stack m);
     let (v, ts) = GetState (state e) (f_Account (c_frame (contract m))) (uint loc);
     ok (m\<lparr>stack := set_top (word_of_int v) (stack m)\<rparr>) (e\<lparr>state := ts\<rparr>)
   }"

definition opSstore :: simple_op where
  "opSstore env m e = do {
     (loc, st) \<leftarrow> pop (stack m);
     (val, st) \<leftarrow> pop st;
     ok (m\<lparr>stack := st\<rparr>) (upd_state (SetState (f_Account (c_frame (contract m))) (uint loc) (uint val)) e)
   }"

definition jump_to :: "u256 \<Rightarrow> machine \<Rightarrow> evm \<Rightarrow> op_result option" where
  "jump_to pos m e = do {
     (valid, c, e) \<leftarrow> ValidJumpdest pos (contract m) e;
     let m = m\<lparr>contract := c\<rparr>;
     if \<not> valid then fail (InvalidJumpDestination (GetOp c (U256_Uint64 pos)) pos) m e
     else ok (m\<lparr>pc := U256_Uint64 pos\<rparr>) e
   }"

definition opJump :: simple_op where
  "opJump env m e = do { (pos, st) \<leftarrow> pop (stack m); jump_to pos (m\<lparr>stack := st\<rparr>) e }"

definition opJumpi :: simple_op where
  "opJumpi env m e = do {
     (pos, st) \<leftarrow> pop (stack m);
     (cond, st) \<leftarrow> pop st;
     let m = m\<lparr>stack := st\<rparr>;
     if cond \<noteq> 0 then jump_to pos m e else ok (m\<lparr>pc := pc m + 1\<rparr>) e
   }"

definition opJumpdest :: simple_op where "opJumpdest env m e = ok m e"
definition opPush0 :: simple_op where "opPush0 = push_op (\<lambda>env m e. 0)"
definition opPc :: simple_op where "opPc = push_op (\<lambda>env m e. u256_of_u64 (pc m))"
definition opMsize :: simple_op where "opMsize = push_op (\<lambda>env m e. u256_of_u64 (Memory_Len (mem_pool e) (mem m)))"
definition opGas :: simple_op where "opGas = push_op (\<lambda>env m e. u256_of_u64 (c_Gas (contract m)))"

definition opTload :: simple_op where
  "opTload env m e = do {
     loc \<leftarrow> peek (stack m);
     let (v, ts) = GetTransientState (f_Account (c_frame (contract m))) loc (state e);
     ok (m\<lparr>stack := set_top v (stack m)\<rparr>) (e\<lparr>state := ts\<rparr>)
   }"

definition opTstore :: simple_op where
  "opTstore env m e =
     (if read_only e then fail ErrWriteProtection m e
      else do {
        (loc, st) \<leftarrow> pop (stack m);
        (val, st) \<leftarrow> pop st;
        ok (m\<lparr>stack := st\<rparr>) (upd_state (SetTransientState (f_Account (c_frame (contract m))) loc val) e)
      })"

definition opReturn :: simple_op where
  "opReturn env m e = do {
     (offset, st) \<leftarrow> pop (stack m);
     (sz, st) \<leftarrow> pop st;
     ret \<leftarrow> mem_get_copy offset sz m e;
     Some ((ret, None), m\<lparr>stack := st\<rparr>, e)
   }"

definition opRevert :: simple_op where
  "opRevert env m e = do {
     (offset, st) \<leftarrow> pop (stack m);
     (sz, st) \<leftarrow> pop st;
     ret \<leftarrow> mem_get offset sz m e;
     Some ((ret, None), m\<lparr>stack := st\<rparr>, e)
   }"

definition opStop :: simple_op where "opStop env m e = ok m e"

definition opSuicide :: simple_op where
  "opSuicide env m e = do {
     (beneficiary, st) \<leftarrow> pop (stack m);
     ok (m\<lparr>stack := st\<rparr>) (upd_state (Suicide (f_Account (c_frame (contract m))) (Bytes20 beneficiary)) e)
   }"

primrec pop_topics :: "nat \<Rightarrow> Stack \<Rightarrow> (u256 list \<times> Stack) option" where
  "pop_topics 0 st = Some ([], st)"
| "pop_topics (Suc n) st = do {
     (t, st) \<leftarrow> pop st;
     (ts, st) \<leftarrow> pop_topics n st;
     Some (t # ts, st)
   }"

definition makeLog :: "nat \<Rightarrow> simple_op" where
  "makeLog sz env m e = do {
     (mStart, st) \<leftarrow> pop (stack m);
     (mSize, st) \<leftarrow> pop st;
     (topics, st) \<leftarrow> pop_topics sz st;
     data \<leftarrow> mem_get_copy mStart mSize m e;
     ok (m\<lparr>stack := st\<rparr>)
       (upd_state (AddLog \<lparr>log_Address = f_Account (c_frame (contract m)), log_Topics = topics, log_Data = data\<rparr>) e)
   }"

definition makePush :: "u64 \<Rightarrow> nat \<Rightarrow> simple_op" where
  "makePush sz pushByteSize env m e = do {
     let code = c_code (contract m);
     let codeLen = int (length code);
     let startMin = (if sint (pc m + 1) < codeLen then sint (pc m + 1) else codeLen);
     let endMin = (if startMin + int pushByteSize < codeLen then startMin + int pushByteSize else codeLen);
     data \<leftarrow> go_slice code startMin endMin;
     padded \<leftarrow> RightPadBytes data (int pushByteSize);
     ok (m\<lparr>stack := push (Hash_SetBytes padded) (stack m), pc := pc m + sz\<rparr>) e
   }"

definition makeDup :: "nat \<Rightarrow> simple_op" where
  "makeDup sz env m e = do { st \<leftarrow> dup sz (stack m); ok (m\<lparr>stack := st\<rparr>) e }"

definition makeSwap :: "nat \<Rightarrow> simple_op" where
  "makeSwap sz env m e = do { st \<leftarrow> swap (sz + 1) (stack m); ok (m\<lparr>stack := st\<rparr>) e }"

end
