(* ===== verification/Evm_Calls.thy ===== *)
theory Evm_Calls
  imports Evm_Instructions
begin

text \<open>
  Message calls and contract creation (\<open>core/vm/evm.go\<close>), the lookup of precompiled contracts
  (\<open>contracts.go\<close>) and the instructions that call and create (\<open>instructions.go\<close>).

  The interpreter loop, the calls and these instructions are mutually recursive: every definition
  here takes the function that runs a contract as an argument.
\<close>

unbundle bit_operations_syntax

type_synonym run_result = "(bytes \<times> vm_error option) \<times> vm_contract \<times> evm"
type_synonym runner = "vm_contract \<Rightarrow> bool \<Rightarrow> evm \<Rightarrow> run_result exec"
type_synonym executionFunc = "runner \<Rightarrow> vm_env \<Rightarrow> machine \<Rightarrow> evm \<Rightarrow> op_result exec"
type_synonym call_result = "(retdata \<times> u64 \<times> vm_error option) \<times> evm"
type_synonym create_result = "(bytes \<times> u64 \<times> vm_error option) \<times> evm"

datatype call_kind = KCall | KCallCode | KDelegateCall | KStaticCall

text \<open>\<open>ContractRef\<close>: the sender of a transaction, or the contract that calls.\<close>

datatype ContractRef = ContractAccWrapper address | ContractObj vm_contract

fun ref_Address :: "ContractRef \<Rightarrow> address" where
  "ref_Address (ContractAccWrapper a) = a"
| "ref_Address (ContractObj c) = f_Account (c_frame c)"

section \<open>Precompiled contracts\<close>

definition Precompiles_Get :: "Precompiles \<Rightarrow> address \<Rightarrow> precompile option" where
  "Precompiles_Get ps a =
     (let last_byte = (ucast a :: byte) in
      if last_byte = 0 then None
      else case ps (unat last_byte - 1) of
        None \<Rightarrow> None
      | Some p \<Rightarrow> if a < 256 then Some p else None)"

definition Precompiles_Put :: "address \<Rightarrow> precompile \<Rightarrow> Precompiles \<Rightarrow> Precompiles option" where
  "Precompiles_Put a p ps = do {
     assertm (a < 256);
     let last_addr_byte = (ucast a :: byte);
     assertm (last_addr_byte \<noteq> 0);
     let pos = unat last_addr_byte - 1;
     assertm (ps pos = None);
     Some (ps(pos \<mapsto> p))
   }"

section \<open>Calls\<close>

definition BalanceGTE :: "TransitionState \<Rightarrow> address \<Rightarrow> int \<Rightarrow> bool" where
  "BalanceGTE ts a val \<longleftrightarrow> val = 0 \<or> GetBalance ts a \<ge> val"

definition transfer :: "address \<Rightarrow> address \<Rightarrow> int \<Rightarrow> evm \<Rightarrow> evm" where
  "transfer from' to amount e = upd_state (\<lambda>ts. AddBalance to amount (SubBalance from' amount ts)) e"

definition call_frame :: "call_kind \<Rightarrow> ContractRef \<Rightarrow> address \<Rightarrow> bytes \<Rightarrow> u64 \<Rightarrow> int \<Rightarrow> vm_frame option" where
  "call_frame typ caller callee input gas value =
     (case typ of
        KCallCode \<Rightarrow>
          Some \<lparr>f_CallerAccount = ref_Address caller, f_Account = ref_Address caller, f_Input = input,
            f_Gas = gas, f_Value = value\<rparr>
      | KDelegateCall \<Rightarrow>
          (case caller of
             ContractObj parent \<Rightarrow>
               Some \<lparr>f_CallerAccount = f_CallerAccount (c_frame parent), f_Account = ref_Address caller,
                 f_Input = input, f_Gas = gas, f_Value = f_Value (c_frame parent)\<rparr>
           | ContractAccWrapper _ \<Rightarrow> None)
      | _ \<Rightarrow>
          Some \<lparr>f_CallerAccount = ref_Address caller, f_Account = callee, f_Input = input, f_Gas = gas,
            f_Value = value\<rparr>)"

text \<open>The part of \<open>call\<close> that executes the callee: a precompiled contract, code, or nothing.\<close>

definition call_code_of ::
    "runner \<Rightarrow> vm_env \<Rightarrow> call_kind \<Rightarrow> address \<Rightarrow> vm_frame \<Rightarrow> bytes \<Rightarrow> u64 \<Rightarrow> evm \<Rightarrow> call_result exec" where
  "call_code_of run env typ callee frame code gas e =
     (case Precompiles_Get (env_precompiles env) callee of
        Some p \<Rightarrow>
          lift_exec (do {
            gas_required \<leftarrow> pc_RequiredGas p frame e;
            if gas_required \<le> gas then do {
              ((ret, err), e) \<leftarrow> pc_Run p frame e;
              Some ((ret, gas - gas_required, err), e)
            }
            else Some ((Fresh [], gas, Some ErrOutOfGas), e)
          })
      | None \<Rightarrow>
          if length code \<noteq> 0 then
            exec_bind (run (NewContract frame code (GetCodeHash (env_keccak256 env) (state e) callee))
                (typ = KStaticCall) e)
              (\<lambda>((ret, err), c, e). Done ((Fresh ret, c_Gas c, err), e))
          else Done ((Fresh [], gas, None), e))"

text \<open>The end of \<open>call\<close>: an error undoes the changes and, but for a revert or a precompile, takes the gas.\<close>

definition call_finish :: "bool \<Rightarrow> nat \<Rightarrow> call_result \<Rightarrow> call_result exec" where
  "call_finish precompiled snapshot r =
     (case r of ((ret, gas_left, err), e) \<Rightarrow>
        if err = None then Done ((ret, gas_left, err), e)
        else
          exec_bind (lift_exec (RevertToSnapshot snapshot (state e)))
            (\<lambda>ts. Done ((ret, if err \<noteq> Some ErrExecutionReverted \<and> \<not> precompiled then 0 else gas_left, err),
                        e\<lparr>state := ts\<rparr>)))"

definition call ::
    "runner \<Rightarrow> vm_env \<Rightarrow> call_kind \<Rightarrow> ContractRef \<Rightarrow> address \<Rightarrow> bytes \<Rightarrow> u64 \<Rightarrow> int \<Rightarrow> evm \<Rightarrow> call_result exec" where
  "call run env typ caller callee input gas value e =
     (if depth e > CallCreateDepth then Done ((Fresh [], gas, Some ErrDepth), e)
      else if (typ = KCall \<or> typ = KCallCode) \<and> ref_Address caller \<noteq> 0 \<and>
              \<not> BalanceGTE (state e) (ref_Address caller) value
      then Done ((Fresh [], gas, Some ErrInsufficientBalanceForTransfer), e)
      else
        let snapshot = Snapshot (state e);
            precompiled = (Precompiles_Get (env_precompiles env) callee \<noteq> None)
        in if typ = KCall \<and> value = 0 \<and> IsNIL (state e) callee \<and> \<not> precompiled
           then Done ((Fresh [], gas, None), e)
           else
             let e = (if typ = KCall then transfer (ref_Address caller) callee value e
                      else if typ = KStaticCall then upd_state (AddBalance callee 0) e
                      else e)
             in exec_bind (lift_exec (GetCode (state e) callee)) (\<lambda>(code, ts).
                exec_bind (lift_exec (call_frame typ caller callee input gas value)) (\<lambda>frame.
                exec_bind (call_code_of run env typ callee frame code gas (e\<lparr>state := ts\<rparr>))
                  (call_finish precompiled snapshot))))"

definition vm_Call :: "runner \<Rightarrow> vm_env \<Rightarrow> ContractRef \<Rightarrow> address \<Rightarrow> bytes \<Rightarrow> u64 \<Rightarrow> int \<Rightarrow> evm \<Rightarrow> call_result exec" where
  "vm_Call run env = call run env KCall"

definition call_code :: "runner \<Rightarrow> vm_env \<Rightarrow> ContractRef \<Rightarrow> address \<Rightarrow> bytes \<Rightarrow> u64 \<Rightarrow> int \<Rightarrow> evm \<Rightarrow> call_result exec" where
  "call_code run env = call run env KCallCode"

text \<open>\<open>call_delegate\<close> passes a nil value, which the delegate call does not read.\<close>

definition call_delegate :: "runner \<Rightarrow> vm_env \<Rightarrow> ContractRef \<Rightarrow> address \<Rightarrow> bytes \<Rightarrow> u64 \<Rightarrow> evm \<Rightarrow> call_result exec" where
  "call_delegate run env caller callee input gas = call run env KDelegateCall caller callee input gas 0"

definition call_static :: "runner \<Rightarrow> vm_env \<Rightarrow> ContractRef \<Rightarrow> address \<Rightarrow> bytes \<Rightarrow> u64 \<Rightarrow> evm \<Rightarrow> call_result exec" where
  "call_static run env caller callee input gas = call run env KStaticCall caller callee input gas 0"

section \<open>Contract creation\<close>

definition address_bytes :: "address \<Rightarrow> bytes" where
  "address_bytes a = be_bytes 20 (unat a)"

text \<open>\<open>rlp.MustEncodeToBytes\<close> of the pair of an address and a number, hashed; the last 20 bytes.\<close>

definition CreateAddress :: "(bytes \<Rightarrow> u256) \<Rightarrow> address \<Rightarrow> int \<Rightarrow> address" where
  "CreateAddress keccak256 b nonce =
     ucast (keccak256 (rlp (RList [RStr (address_bytes b), RStr (big_Bytes (nat nonce))])))"

definition CreateAddress2 :: "(bytes \<Rightarrow> u256) \<Rightarrow> address \<Rightarrow> u256 \<Rightarrow> bytes \<Rightarrow> address" where
  "CreateAddress2 keccak256 b salt inithash =
     ucast (keccak256 (0xff # address_bytes b @ Hash_Bytes salt @ inithash))"

definition create_finish ::
    "vm_env \<Rightarrow> address \<Rightarrow> nat \<Rightarrow> run_result \<Rightarrow> create_result exec" where
  "create_finish env new_acc snapshot r =
     (case r of ((ret, err), c, e) \<Rightarrow>
        let err = (if err = None \<and> length ret > MaxCodeSize then Some ErrMaxCodeSizeExceeded else err);
            (err, c, e) =
              (if err = None then
                 let (paid, c) = UseGas (word_of_nat (length ret) * CreateDataGas) c
                 in if paid then (None, c, upd_state (SetCode (env_keccak256 env) new_acc ret) e)
                    else (Some ErrCodeStoreOutOfGas, c, e)
               else (err, c, e))
        in if err = None then Done ((ret, c_Gas c, None), e)
           else
             exec_bind (lift_exec (RevertToSnapshot snapshot (state e)))
               (\<lambda>ts. let c = (if err \<noteq> Some ErrExecutionReverted then snd (UseGas (c_Gas c) c) else c)
                     in Done ((ret, c_Gas c, err), e\<lparr>state := ts\<rparr>)))"

definition create ::
    "runner \<Rightarrow> vm_env \<Rightarrow> address \<Rightarrow> bytes \<Rightarrow> u256 option \<Rightarrow> u64 \<Rightarrow> int \<Rightarrow> address \<Rightarrow> evm \<Rightarrow> create_result exec" where
  "create run env caller code hash gas value address' e =
     (if depth e > CallCreateDepth then Done (([], gas, Some ErrDepth), e)
      else if caller \<noteq> 0 \<and> \<not> BalanceGTE (state e) caller value
      then Done (([], gas, Some ErrInsufficientBalanceForTransfer), e)
      else
        let e = upd_state (IncrementNonce caller) e;
            e = upd_state (GetAccountConcrete address') e
        in if GetNonce (state e) address' \<noteq> 0 \<or> GetCodeSize (state e) address' \<noteq> 0
           then Done (([], 0, Some ErrContractAddressCollision), e)
           else
             let snapshot = Snapshot (state e);
                 e = upd_state (IncrementNonce address') e;
                 e = transfer caller address' value e;
                 frame = \<lparr>f_CallerAccount = caller, f_Account = address', f_Input = [], f_Gas = gas, f_Value = value\<rparr>
             in exec_bind (run (NewContract frame code hash) False e) (create_finish env address' snapshot))"

definition create_1 ::
    "runner \<Rightarrow> vm_env \<Rightarrow> address \<Rightarrow> bytes \<Rightarrow> u64 \<Rightarrow> int \<Rightarrow> evm \<Rightarrow> ((bytes \<times> address \<times> u64 \<times> vm_error option) \<times> evm) exec" where
  "create_1 run env caller code gas value e =
     (let contractAddr = CreateAddress (env_keccak256 env) caller (GetNonce (state e) caller)
      in exec_bind (create run env caller code None gas value contractAddr e)
           (\<lambda>((ret, leftOverGas, err), e). Done ((ret, contractAddr, leftOverGas, err), e)))"

definition create_2 ::
    "runner \<Rightarrow> vm_env \<Rightarrow> address \<Rightarrow> bytes \<Rightarrow> u64 \<Rightarrow> int \<Rightarrow> u256 \<Rightarrow> evm \<Rightarrow> ((bytes \<times> address \<times> u64 \<times> vm_error option) \<times> evm) exec" where
  "create_2 run env caller code gas endowment salt e =
     (let h = env_keccak256 env code;
          contractAddr = CreateAddress2 (env_keccak256 env) caller salt (Hash_Bytes h)
      in exec_bind (create run env caller code (Some h) gas endowment contractAddr e)
           (\<lambda>((ret, leftOverGas, err), e). Done ((ret, contractAddr, leftOverGas, err), e)))"

section \<open>The instructions that call and create\<close>

definition add_Gas :: "u64 \<Rightarrow> machine \<Rightarrow> machine" where
  "add_Gas g m = m\<lparr>contract := set_Gas (c_Gas (contract m) + g) (contract m)\<rparr>"

definition use_Gas :: "u64 \<Rightarrow> machine \<Rightarrow> machine" where
  "use_Gas g m = m\<lparr>contract := snd (UseGas g (contract m))\<rparr>"

definition opCreate_finish ::
    "machine \<Rightarrow> (bytes \<times> address \<times> u64 \<times> vm_error option) \<times> evm \<Rightarrow> op_result exec" where
  "opCreate_finish m r =
     (case r of ((res, addr, returnGas, suberr), e) \<Rightarrow>
        let stackvalue = (if suberr \<noteq> None then 0 else address_u256 addr);
            m = add_Gas returnGas (m\<lparr>stack := push stackvalue (stack m)\<rparr>)
        in Done ((if suberr = Some ErrExecutionReverted then res else [], None), m, e))"

definition opCreate :: executionFunc where
  "opCreate run env m e =
     exec_bind (lift_exec (do {
         ((value, offset, sz), st) \<leftarrow> pop3 (stack m);
         input \<leftarrow> mem_get_copy offset sz m e;
         Some (value, input, st) }))
       (\<lambda>(value, input, st).
          let gas = c_Gas (contract m) - c_Gas (contract m) div 64;
              m = use_Gas gas (m\<lparr>stack := st\<rparr>)
          in exec_bind (create_1 run env (f_Account (c_frame (contract m))) input gas (uint value) e)
               (opCreate_finish m))"

definition opCreate2 :: executionFunc where
  "opCreate2 run env m e =
     exec_bind (lift_exec (do {
         ((endowment, offset, sz), st) \<leftarrow> pop3 (stack m);
         (salt, st) \<leftarrow> pop st;
         input \<leftarrow> mem_get_copy offset sz m e;
         Some (endowment, salt, input, st) }))
       (\<lambda>(endowment, salt, input, st).
          let gas = c_Gas (contract m) - c_Gas (contract m) div 64;
              m = use_Gas gas (m\<lparr>stack := st\<rparr>)
          in exec_bind (create_2 run env (f_Account (c_frame (contract m))) input gas (uint endowment) salt e)
               (opCreate_finish m))"

text \<open>
  The common end of the four call instructions. The result of the instruction is read after the
  output was written to memory, which matters when the callee returned its input.
\<close>

definition opCall_finish ::
    "u256 \<Rightarrow> u256 \<Rightarrow> bytes \<Rightarrow> u256 \<Rightarrow> u256 \<Rightarrow> machine \<Rightarrow> call_result \<Rightarrow> op_result exec" where
  "opCall_finish inOffset inSize args retOffset retSize m r =
     (case r of ((ret, returnGas, err), e) \<Rightarrow>
        let m = m\<lparr>stack := push (if err = None then 1 else 0) (stack m)\<rparr>;
            bs = (case ret of Fresh b \<Rightarrow> b | InputAlias \<Rightarrow> args)
        in lift_exec (do {
             (m, e) \<leftarrow> (if err = None \<or> err = Some ErrExecutionReverted
                        then mem_set retOffset retSize bs m e else Some (m, e));
             let m = add_Gas returnGas m;
             res \<leftarrow> (case ret of Fresh b \<Rightarrow> Some b | InputAlias \<Rightarrow> mem_get inOffset inSize m e);
             Some ((res, None), m, e)
           }))"

definition opCall_with ::
    "(runner \<Rightarrow> vm_env \<Rightarrow> ContractRef \<Rightarrow> address \<Rightarrow> bytes \<Rightarrow> u64 \<Rightarrow> int \<Rightarrow> evm \<Rightarrow> call_result exec) \<Rightarrow> executionFunc" where
  "opCall_with call' run env m e =
     exec_bind (lift_exec (do {
         ((_, addr, value), st) \<leftarrow> pop3 (stack m);
         ((inOffset, inSize, retOffset), st) \<leftarrow> pop3 st;
         (retSize, st) \<leftarrow> pop st;
         args \<leftarrow> mem_get inOffset inSize m e;
         Some (addr, value, inOffset, inSize, retOffset, retSize, args, st) }))
       (\<lambda>(addr, value, inOffset, inSize, retOffset, retSize, args, st).
          let gas = call_gas_tmp e;
              gas = (if value \<noteq> 0 then gas + CallStipend else gas);
              (callee, e) = get_account addr e
          in exec_bind (call' run env (ContractObj (contract m)) callee args gas (uint value) e)
               (opCall_finish inOffset inSize args retOffset retSize (m\<lparr>stack := st\<rparr>)))"

definition opCall :: executionFunc where
  "opCall = opCall_with vm_Call"

definition opCallCode :: executionFunc where
  "opCallCode = opCall_with call_code"

definition opCall_without_value ::
    "(runner \<Rightarrow> vm_env \<Rightarrow> ContractRef \<Rightarrow> address \<Rightarrow> bytes \<Rightarrow> u64 \<Rightarrow> evm \<Rightarrow> call_result exec) \<Rightarrow> executionFunc" where
  "opCall_without_value call' run env m e =
     exec_bind (lift_exec (do {
         ((_, addr, inOffset), st) \<leftarrow> pop3 (stack m);
         ((inSize, retOffset, retSize), st) \<leftarrow> pop3 st;
         args \<leftarrow> mem_get inOffset inSize m e;
         Some (addr, inOffset, inSize, retOffset, retSize, args, st) }))
       (\<lambda>(addr, inOffset, inSize, retOffset, retSize, args, st).
          let gas = call_gas_tmp e;
              (callee, e) = get_account addr e
          in exec_bind (call' run env (ContractObj (contract m)) callee args gas e)
               (opCall_finish inOffset inSize args retOffset retSize (m\<lparr>stack := st\<rparr>)))"

definition opDelegateCall :: executionFunc where
  "opDelegateCall = opCall_without_value call_delegate"

definition opStaticCall :: executionFunc where
  "opStaticCall = opCall_without_value call_static"

end
