(* ===== verification/Evm_Interpreter.thy ===== *)
theory Evm_Interpreter
  imports Evm_Calls
begin

text \<open>
  The instruction table (\<open>core/vm/jump_table.go\<close>), the main loop and the execution of a transaction
  (\<open>evm.go\<close>: \<open>run\<close>, \<open>Main\<close>).

  The loop has fuel: a step with fuel \<open>n + 1\<close> runs callees, and continues, with fuel \<open>n\<close>. More fuel
  than the frame has gas is always enough (\<open>Evm_Termination\<close>).
\<close>

record operation =
  execute :: executionFunc
  gasCost :: gasFunc
  validateStack :: "Stack \<Rightarrow> vm_error option"
  memorySize :: "(Stack \<Rightarrow> u256 option) option"
  op_halts :: bool
  op_jumps :: bool
  op_writes :: bool
  op_reverts :: bool
  op_returns :: bool

definition simple :: "simple_op \<Rightarrow> executionFunc" where
  "simple f run env m e = lift_exec (f env m e)"

definition mk_op :: "executionFunc \<Rightarrow> gasFunc \<Rightarrow> (Stack \<Rightarrow> vm_error option) \<Rightarrow> operation" where
  "mk_op ex gas vs = \<lparr>execute = ex, gasCost = gas, validateStack = vs, memorySize = None, op_halts = False,
     op_jumps = False, op_writes = False, op_reverts = False, op_returns = False\<rparr>"

section \<open>The instruction table\<close>

definition jt_byzantium :: "(byte \<times> operation) list" where
  "jt_byzantium = [
     (0x1b, mk_op (simple opSHL) (constGasFunc GasFastestStep) (makeStackFunc 2 1)),
     (0x1c, mk_op (simple opSHR) (constGasFunc GasFastestStep) (makeStackFunc 2 1)),
     (0x1d, mk_op (simple opSAR) (constGasFunc GasFastestStep) (makeStackFunc 2 1)),
     (0x3f, mk_op (simple opExtCodeHash) gasExtCodeHash (makeStackFunc 1 1)),
     (0xf5, (mk_op opCreate2 gasCreate2 (makeStackFunc 4 1))\<lparr>memorySize := Some memoryCreate2, op_writes := True, op_returns := True\<rparr>),
     (0xfa, (mk_op opStaticCall gasStaticCall (makeStackFunc 6 1))\<lparr>memorySize := Some memoryStaticCall, op_returns := True\<rparr>),
     (0x3d, mk_op (simple opReturnDataSize) (constGasFunc GasQuickStep) (makeStackFunc 0 1)),
     (0x3e, (mk_op (simple opReturnDataCopy) gasReturnDataCopy (makeStackFunc 3 0))\<lparr>memorySize := Some memoryReturnDataCopy\<rparr>),
     (0xfd, (mk_op (simple opRevert) gasRevert (makeStackFunc 2 0))\<lparr>memorySize := Some memoryRevert, op_reverts := True, op_returns := True\<rparr>),
     (0xf4, (mk_op opDelegateCall gasDelegateCall (makeStackFunc 6 1))\<lparr>memorySize := Some memoryDelegateCall, op_returns := True\<rparr>)]"

definition jt_arithmetic :: "(byte \<times> operation) list" where
  "jt_arithmetic = [
     (0x00, (mk_op (simple opStop) (constGasFunc 0) (makeStackFunc 0 0))\<lparr>op_halts := True\<rparr>),
     (0x01, mk_op (simple opAdd) (constGasFunc GasFastestStep) (makeStackFunc 2 1)),
     (0x02, mk_op (simple opMul) (constGasFunc GasFastStep) (makeStackFunc 2 1)),
     (0x03, mk_op (simple opSub) (constGasFunc GasFastestStep) (makeStackFunc 2 1)),
     (0x04, mk_op (simple opDiv) (constGasFunc GasFastStep) (makeStackFunc 2 1)),
     (0x05, mk_op (simple opSdiv) (constGasFunc GasFastStep) (makeStackFunc 2 1)),
     (0x06, mk_op (simple opMod) (constGasFunc GasFastStep) (makeStackFunc 2 1)),
     (0x07, mk_op (simple opSmod) (constGasFunc GasFastStep) (makeStackFunc 2 1)),
     (0x08, mk_op (simple opAddmod) (constGasFunc GasMidStep) (makeStackFunc 3 1)),
     (0x09, mk_op (simple opMulmod) (constGasFunc GasMidStep) (makeStackFunc 3 1)),
     (0x0a, mk_op (simple opExp) gasExp (makeStackFunc 2 1)),
     (0x0b, mk_op (simple opSignExtend) (constGasFunc GasFastStep) (makeStackFunc 2 1))]"

definition jt_comparison :: "(byte \<times> operation) list" where
  "jt_comparison = [
     (0x10, mk_op (simple opLt) (constGasFunc GasFastestStep) (makeStackFunc 2 1)),
     (0x11, mk_op (simple opGt) (constGasFunc GasFastestStep) (makeStackFunc 2 1)),
     (0x12, mk_op (simple opSlt) (constGasFunc GasFastestStep) (makeStackFunc 2 1)),
     (0x13, mk_op (simple opSgt) (constGasFunc GasFastestStep) (makeStackFunc 2 1)),
     (0x14, mk_op (simple opEq) (constGasFunc GasFastestStep) (makeStackFunc 2 1)),
     (0x15, mk_op (simple opIszero) (constGasFunc GasFastestStep) (makeStackFunc 1 1)),
     (0x16, mk_op (simple opAnd) (constGasFunc GasFastestStep) (makeStackFunc 2 1)),
     (0x18, mk_op (simple opXor) (constGasFunc GasFastestStep) (makeStackFunc 2 1)),
     (0x17, mk_op (simple opOr) (constGasFunc GasFastestStep) (makeStackFunc 2 1)),
     (0x19, mk_op (simple opNot) (constGasFunc GasFastestStep) (makeStackFunc 1 1)),
     (0x1a, mk_op (simple opByte) (constGasFunc GasFastestStep) (makeStackFunc 2 1)),
     (0x20, (mk_op (simple opKeccak256) gasKeccak256 (makeStackFunc 2 1))\<lparr>memorySize := Some memoryKeccak256\<rparr>)]"

definition jt_environment :: "(byte \<times> operation) list" where
  "jt_environment = [
     (0x30, mk_op (simple opAddress) (constGasFunc GasQuickStep) (makeStackFunc 0 1)),
     (0x31, mk_op (simple opBalance) gasBalance (makeStackFunc 1 1)),
     (0x32, mk_op (simple opOrigin) (constGasFunc GasQuickStep) (makeStackFunc 0 1)),
     (0x33, mk_op (simple opCaller) (constGasFunc GasQuickStep) (makeStackFunc 0 1)),
     (0x34, mk_op (simple opCallValue) (constGasFunc GasQuickStep) (makeStackFunc 0 1)),
     (0x35, mk_op (simple opCallDataLoad) (constGasFunc GasFastestStep) (makeStackFunc 1 1)),
     (0x36, mk_op (simple opCallDataSize) (constGasFunc GasQuickStep) (makeStackFunc 0 1)),
     (0x37, (mk_op (simple opCallDataCopy) gasCallDataCopy (makeStackFunc 3 0))\<lparr>memorySize := Some memoryCallDataCopy\<rparr>),
     (0x38, mk_op (simple opCodeSize) (constGasFunc GasQuickStep) (makeStackFunc 0 1)),
     (0x39, (mk_op (simple opCodeCopy) gasCodeCopy (makeStackFunc 3 0))\<lparr>memorySize := Some memoryCodeCopy\<rparr>),
     (0x3a, mk_op (simple opGasprice) (constGasFunc GasQuickStep) (makeStackFunc 0 1)),
     (0x3b, mk_op (simple opExtCodeSize) gasExtCodeSize (makeStackFunc 1 1)),
     (0x3c, (mk_op (simple opExtCodeCopy) gasExtCodeCopy (makeStackFunc 4 0))\<lparr>memorySize := Some memoryExtCodeCopy\<rparr>)]"

definition jt_block :: "(byte \<times> operation) list" where
  "jt_block = [
     (0x40, mk_op (simple opBlockhash) (constGasFunc GasExtStep) (makeStackFunc 1 1)),
     (0x41, mk_op (simple opCoinbase) (constGasFunc GasQuickStep) (makeStackFunc 0 1)),
     (0x42, mk_op (simple opTimestamp) (constGasFunc GasQuickStep) (makeStackFunc 0 1)),
     (0x43, mk_op (simple opNumber) (constGasFunc GasQuickStep) (makeStackFunc 0 1)),
     (0x44, mk_op (simple opDifficulty) (constGasFunc GasQuickStep) (makeStackFunc 0 1)),
     (0x45, mk_op (simple opGasLimit) (constGasFunc GasQuickStep) (makeStackFunc 0 1)),
     (0x46, mk_op (simple opChainID) (constGasFunc GasQuickStep) (makeStackFunc 0 1)),
     (0x47, mk_op (simple opSelfBalance) (constGasFunc GasFastStep) (makeStackFunc 0 1))]"

definition jt_flow :: "(byte \<times> operation) list" where
  "jt_flow = [
     (0x50, mk_op (simple opPop) (constGasFunc GasQuickStep) (makeStackFunc 1 0)),
     (0x51, (mk_op (simple opMload) gasMLoad (makeStackFunc 1 1))\<lparr>memorySize := Some memoryMLoad\<rparr>),
     (0x52, (mk_op (simple opMstore) gasMStore (makeStackFunc 2 0))\<lparr>memorySize := Some memoryMStore\<rparr>),
     (0x53, (mk_op (simple opMstore8) gasMStore8 (makeStackFunc 2 0))\<lparr>memorySize := Some memoryMStore8\<rparr>),
     (0x54, mk_op (simple opSload) gasSLoad (makeStackFunc 1 1)),
     (0x55, (mk_op (simple opSstore) gasSStore (makeStackFunc 2 0))\<lparr>op_writes := True\<rparr>),
     (0x56, (mk_op (simple opJump) (constGasFunc GasMidStep) (makeStackFunc 1 0))\<lparr>op_jumps := True\<rparr>),
     (0x57, (mk_op (simple opJumpi) (constGasFunc GasSlowStep) (makeStackFunc 2 0))\<lparr>op_jumps := True\<rparr>),
     (0x58, mk_op (simple opPc) (constGasFunc GasQuickStep) (makeStackFunc 0 1)),
     (0x59, mk_op (simple opMsize) (constGasFunc GasQuickStep) (makeStackFunc 0 1)),
     (0x5a, mk_op (simple opGas) (constGasFunc GasQuickStep) (makeStackFunc 0 1)),
     (0x5b, mk_op (simple opJumpdest) (constGasFunc JumpdestGas) (makeStackFunc 0 0)),
     (0x5f, mk_op (simple opPush0) (constGasFunc GasQuickStep) (makeStackFunc 0 1))]"

definition jt_push :: "(byte \<times> operation) list" where
  "jt_push = map (\<lambda>n. (word_of_nat (0x5f + n), mk_op (simple (makePush (word_of_nat n) n)) gasPush (makeStackFunc 0 1))) [1..<33]"

definition jt_dup :: "(byte \<times> operation) list" where
  "jt_dup = map (\<lambda>n. (word_of_nat (0x7f + n), mk_op (simple (makeDup n)) gasDup (makeDupStackFunc n))) [1..<17]"

definition jt_swap :: "(byte \<times> operation) list" where
  "jt_swap = map (\<lambda>n. (word_of_nat (0x8f + n), mk_op (simple (makeSwap n)) gasSwap (makeSwapStackFunc (n + 1)))) [1..<17]"

definition jt_log :: "(byte \<times> operation) list" where
  "jt_log = [
     (0xa0, (mk_op (simple (makeLog 0)) (makeGasLog 0) (makeStackFunc 2 0))\<lparr>memorySize := Some memoryLog, op_writes := True\<rparr>),
     (0xa1, (mk_op (simple (makeLog 1)) (makeGasLog 1) (makeStackFunc 3 0))\<lparr>memorySize := Some memoryLog, op_writes := True\<rparr>),
     (0xa2, (mk_op (simple (makeLog 2)) (makeGasLog 2) (makeStackFunc 4 0))\<lparr>memorySize := Some memoryLog, op_writes := True\<rparr>),
     (0xa3, (mk_op (simple (makeLog 3)) (makeGasLog 3) (makeStackFunc 5 0))\<lparr>memorySize := Some memoryLog, op_writes := True\<rparr>),
     (0xa4, (mk_op (simple (makeLog 4)) (makeGasLog 4) (makeStackFunc 6 0))\<lparr>memorySize := Some memoryLog, op_writes := True\<rparr>)]"

definition jt_system :: "(byte \<times> operation) list" where
  "jt_system = [
     (0xb3, mk_op (simple opTload) gasTLoad (makeStackFunc 1 1)),
     (0xb4, mk_op (simple opTstore) gasTLoad (makeStackFunc 2 0)),
     (0xf0, (mk_op opCreate gasCreate (makeStackFunc 3 1))\<lparr>memorySize := Some memoryCreate, op_writes := True, op_returns := True\<rparr>),
     (0xf1, (mk_op opCall gasCall (makeStackFunc 7 1))\<lparr>memorySize := Some memoryCall, op_returns := True\<rparr>),
     (0xf2, (mk_op opCallCode gasCallCode (makeStackFunc 7 1))\<lparr>memorySize := Some memoryCall, op_returns := True\<rparr>),
     (0xf3, (mk_op (simple opReturn) gasReturn (makeStackFunc 2 0))\<lparr>memorySize := Some memoryReturn, op_halts := True\<rparr>),
     (0xff, (mk_op (simple opSuicide) gasSuicide (makeStackFunc 1 0))\<lparr>op_halts := True, op_writes := True\<rparr>)]"

text \<open>\<open>enable5656\<close> (\<open>eips.go\<close>) adds MCOPY.\<close>

definition jt_mcopy :: "(byte \<times> operation) list" where
  "jt_mcopy = [(0x5e, (mk_op (simple opMcopy) gasMcopy (makeStackFunc 3 0))\<lparr>memorySize := Some memoryMcopy\<rparr>)]"

definition instruction_list :: "(byte \<times> operation) list" where
  "instruction_list = jt_byzantium @ jt_arithmetic @ jt_comparison @ jt_environment @ jt_block @ jt_flow @
     jt_push @ jt_dup @ jt_swap @ jt_log @ jt_system @ jt_mcopy"

definition eblaInstructionSet :: "byte \<Rightarrow> operation option" where
  "eblaInstructionSet = map_of instruction_list"

section \<open>The loop\<close>

definition CALL :: byte where "CALL = 0xf1"

text \<open>The size of the memory an operation needs, in bytes, rounded up to words.\<close>

definition memory_size :: "operation \<Rightarrow> Stack \<Rightarrow> (vm_error + u64) option" where
  "memory_size operation st =
     (case memorySize operation of
        None \<Rightarrow> Some (Inr 0)
      | Some f \<Rightarrow> do {
          memSize \<leftarrow> f st;
          Some (gas_bind (to_u64 memSize) (\<lambda>sz. safe_mul (toWordSize sz) 32))
        })"

text \<open>
  One iteration up to the execution: the result is the error with which \<open>run\<close> returns, or the frame
  with its gas charged and its memory grown.
\<close>

definition charge :: "operation \<Rightarrow> byte \<Rightarrow> machine \<Rightarrow> evm \<Rightarrow> (vm_error option \<times> machine \<times> evm) option" where
  "charge operation op m e =
     (case validateStack operation (stack m) of
        Some err \<Rightarrow> Some (Some err, m, e)
      | None \<Rightarrow> do {
          write \<leftarrow> (if read_only e then
                      if op_writes operation then Some True
                      else if op = CALL then map_option (\<lambda>v. v \<noteq> 0) (Back (stack m) 2)
                      else Some False
                    else Some False);
          if write then Some (Some ErrWriteProtection, m, e)
          else do {
            memorySize \<leftarrow> memory_size operation (stack m);
            case memorySize of
              Inl err \<Rightarrow> Some (Some err, m, e)
            | Inr sz \<Rightarrow> do {
                (cost, m, e) \<leftarrow> gasCost operation m e sz;
                case cost of
                  Inl err \<Rightarrow> Some (Some ErrOutOfGas, m, e)
                | Inr cost \<Rightarrow>
                    (case UseGas cost (contract m) of
                       (False, c) \<Rightarrow> Some (Some ErrOutOfGas, m, e)
                     | (True, c) \<Rightarrow> do {
                         let m = m\<lparr>contract := c\<rparr>;
                         if sz > 0 then do {
                           (p, mm) \<leftarrow> Resize sz (mem_pool e) (mem m);
                           Some (None, m\<lparr>mem := mm\<rparr>, e\<lparr>mem_pool := p\<rparr>)
                         }
                         else Some (None, m, e)
                       })
              }
          }
        })"

text \<open>After the execution: the return data, the end of the frame, or the next position.\<close>

definition after_op :: "operation \<Rightarrow> op_result \<Rightarrow> ((bytes \<times> vm_error option) option \<times> machine \<times> evm)" where
  "after_op operation r =
     (case r of ((res, err), m, e) \<Rightarrow>
        let e = (if op_returns operation then e\<lparr>last_retval := res\<rparr> else e) in
        if err \<noteq> None then (Some ([], err), m, e)
        else if op_reverts operation then (Some (res, Some ErrExecutionReverted), m, e)
        else if op_halts operation then (Some (res, None), m, e)
        else if \<not> op_jumps operation then (None, m\<lparr>pc := pc m + 1\<rparr>, e)
        else (None, m, e))"

definition step ::
    "runner \<Rightarrow> vm_env \<Rightarrow> machine \<Rightarrow> evm \<Rightarrow> ((bytes \<times> vm_error option) option \<times> machine \<times> evm) exec" where
  "step run env m e =
     (let op = GetOp (contract m) (pc m) in
      case eblaInstructionSet op of
        None \<Rightarrow> Done (Some ([], Some (InvalidOpcode op)), m, e)
      | Some operation \<Rightarrow>
          exec_bind (lift_exec (charge operation op m e)) (\<lambda>(err, m, e).
            if err \<noteq> None then Done (Some ([], err), m, e)
            else exec_bind (execute operation run env m e) (\<lambda>r. Done (after_op operation r))))"

text \<open>\<open>run\<close>: the frame around the loop, with the deferred actions at its end.\<close>

definition run_with :: "(machine \<Rightarrow> evm \<Rightarrow> ((bytes \<times> vm_error option) \<times> machine \<times> evm) exec) \<Rightarrow> runner" where
  "run_with lp c readOnly e =
     (let set_read_only = (readOnly \<and> \<not> read_only e);
          m = \<lparr>pc = 0, contract = c, mem = Memory_Init (mem_pool e), stack = newstack\<rparr>;
          e = e\<lparr>depth := depth e + 1, last_retval := [], read_only := read_only e \<or> set_read_only\<rparr>
      in exec_bind (lp m e) (\<lambda>(r, m, e).
           let e = (if set_read_only then e\<lparr>read_only := False\<rparr> else e);
               e = e\<lparr>depth := depth e - 1, mem_pool := fst (Release (mem_pool e) (mem m))\<rparr>
           in Done (r, contract m, e)))"

primrec loop :: "vm_env \<Rightarrow> nat \<Rightarrow> machine \<Rightarrow> evm \<Rightarrow> ((bytes \<times> vm_error option) \<times> machine \<times> evm) exec" where
  "loop env 0 m e = NoFuel"
| "loop env (Suc n) m e =
     exec_bind (step (run_with (loop env n)) env m e)
       (\<lambda>(r, m, e). case r of Some r \<Rightarrow> Done (r, m, e) | None \<Rightarrow> loop env n m e)"

definition run :: "nat \<Rightarrow> vm_env \<Rightarrow> runner" where
  "run n env = run_with (loop env n)"

section \<open>Transactions\<close>

record ExecutionResult =
  r_CodeRetval :: bytes
  r_NewContractAddr :: address
  r_Logs :: "vm_log list"
  r_GasUsed :: u64
  r_ExecutionErr :: "vm_error option"
  r_ConsensusErr :: "vm_error option"

definition no_result :: ExecutionResult where
  "no_result = \<lparr>r_CodeRetval = [], r_NewContractAddr = 0, r_Logs = [], r_GasUsed = 0,
     r_ExecutionErr = None, r_ConsensusErr = None\<rparr>"

definition consensusErr :: "ExecutionResult \<Rightarrow> u64 \<Rightarrow> vm_error \<Rightarrow> ExecutionResult" where
  "consensusErr result trxGas err = result\<lparr>r_GasUsed := trxGas, r_ConsensusErr := Some err\<rparr>"

definition MinU64 :: "u64 \<Rightarrow> u64 \<Rightarrow> u64" where
  "MinU64 i j = (if i < j then i else j)"

text \<open>The bytes a message call returned; at the top level the input is the one of the transaction.\<close>

definition ret_bytes :: "retdata \<Rightarrow> bytes \<Rightarrow> bytes" where
  "ret_bytes r input = (case r of Fresh b \<Rightarrow> b | InputAlias \<Rightarrow> input)"

text \<open>The end of \<open>Main\<close>, after the call or creation: refunds, the result, and the return of unused gas.\<close>

definition main_finish ::
    "vm_trx \<Rightarrow> bytes \<Rightarrow> address \<Rightarrow> u64 \<Rightarrow> vm_error option \<Rightarrow> evm \<Rightarrow> ExecutionResult \<times> evm" where
  "main_finish t retval addr gas_left err e =
     (let ret = no_result\<lparr>r_CodeRetval := retval, r_NewContractAddr := addr\<rparr> in
      if err = Some ErrInsufficientBalanceForTransfer then
        (consensusErr ret (t_Gas t) ErrInsufficientBalanceForTransfer, e)
      else
        let gas_left = gas_left + MinU64 (ts_refund (state e)) ((t_Gas t - gas_left) div 2);
            ret = ret\<lparr>r_ExecutionErr := err, r_GasUsed := t_Gas t - gas_left, r_Logs := ts_logs (state e)\<rparr>
        in (ret, upd_state (AddBalance (t_From t) (uint gas_left * t_GasPrice t)) e))"

definition main_execute :: "nat \<Rightarrow> vm_env \<Rightarrow> vm_trx \<Rightarrow> u64 \<Rightarrow> evm \<Rightarrow> (ExecutionResult \<times> evm) exec" where
  "main_execute n env t gas_left e =
     (case t_To t of
        None \<Rightarrow>
          exec_bind (lift_exec (SetNonce (t_From t) (t_Nonce t) (state e))) (\<lambda>ts.
          exec_bind (create_1 (run n env) env (t_From t) (t_Input t) gas_left (t_Value t) (e\<lparr>state := ts\<rparr>))
            (\<lambda>((ret, addr, gas_left, err), e). Done (main_finish t ret addr gas_left err e)))
      | Some to \<Rightarrow>
          exec_bind (lift_exec (SetNonce (t_From t) (t_Nonce t + 1) (GetAccountConcrete to (state e)))) (\<lambda>ts.
          exec_bind (vm_Call (run n env) env (ContractAccWrapper (t_From t)) to (t_Input t) gas_left (t_Value t)
              (e\<lparr>state := ts\<rparr>))
            (\<lambda>((ret, gas_left, err), e). Done (main_finish t (ret_bytes ret (t_Input t)) 0 gas_left err e))))"

text \<open>The checks of \<open>Main\<close> before the execution.\<close>

definition main_checks :: "nat \<Rightarrow> vm_env \<Rightarrow> vm_trx \<Rightarrow> evm \<Rightarrow> (ExecutionResult \<times> evm) exec" where
  "main_checks n env t e =
     (let from' = t_From t;
          e = upd_state (GetAccountConcrete from') e;
          sender_nonce = GetNonce (state e) from';
          gas_fee = uint (t_Gas t) * t_GasPrice t
      in if from' \<noteq> 0 \<and> \<not> BalanceGTE (state e) from' gas_fee then
           lift_exec (do {
             available_funds_gas \<leftarrow> big_Div (GetBalance (state e) from') (t_GasPrice t);
             let ts = SubBalance from' (available_funds_gas * t_GasPrice t) (state e);
             ts \<leftarrow> (if t_Nonce t \<ge> sender_nonce then SetNonce from' (t_Nonce t + 1) ts else Some ts);
             Some (consensusErr no_result (word_of_int available_funds_gas) ErrInsufficientBalanceForGas,
               e\<lparr>state := ts\<rparr>)
           })
         else
           let e = upd_state (SubBalance from' gas_fee) e in
           if t_Nonce t < sender_nonce then Done (consensusErr no_result (t_Gas t) ErrNonceTooLow, e)
           else
             case IntrinsicGas (t_Input t) (t_To t = None) of
               Inl err \<Rightarrow>
                 lift_exec (do {
                   ts \<leftarrow> SetNonce from' (t_Nonce t + 1) (state e);
                   Some (consensusErr no_result (t_Gas t) err, e\<lparr>state := ts\<rparr>)
                 })
             | Inr gas_intrinsic \<Rightarrow>
                 if t_Gas t < gas_intrinsic then
                   lift_exec (do {
                     ts \<leftarrow> SetNonce from' (t_Nonce t + 1) (state e);
                     Some (consensusErr no_result (t_Gas t) ErrIntrinsicGas, e\<lparr>state := ts\<rparr>)
                   })
                 else main_execute n env t (t_Gas t - gas_intrinsic) e)"

definition Main :: "nat \<Rightarrow> vm_env \<Rightarrow> vm_trx \<Rightarrow> evm \<Rightarrow> (ExecutionResult \<times> evm) exec" where
  "Main n env t e =
     exec_bind (main_checks n env t (e\<lparr>trx := Some t\<rparr>))
       (\<lambda>(r, e). Done (r, e\<lparr>trx := None, jumpdests := None\<rparr>))"

end
