(* ===== verification/Evm_Journal.thy ===== *)
theory Evm_Journal
  imports Evm_State
begin

text \<open>
  The journal of the transition state does what a snapshot promises. The abstract state is the
  view: for each account whether it exists, its nonce, balance, code, storage and suicide flag, as
  the interpreter reads them, together with the logs and the refund counter. It hides the caches
  (loaded accounts, code and committed slots read from the database), the counters that decide
  whether an account is flushed, the raw storage of the precompiled contracts and the transient
  storage, which the journal does not restore.

  \<open>journaled ts ts'\<close> says that the reverts registered between \<open>ts\<close> and \<open>ts'\<close> lead back to the view of
  \<open>ts\<close>. It is reflexive and transitive, every operation satisfies it, and so does a revert to a
  snapshot taken in between; so it is an invariant of whole executions with nested calls.
\<close>

section \<open>The view of a state\<close>

record acc_view =
  v_Nonce :: int
  v_Balance :: int
  v_CodeSize :: u64
  v_CodeHash :: "u256 option"
  v_Code :: "bytes option"
  v_State :: "int \<Rightarrow> int"
  v_Committed :: "int \<Rightarrow> int"
  v_suicided :: bool

definition committed_view :: "state_input \<Rightarrow> address \<Rightarrow> AccountBody \<Rightarrow> int \<Rightarrow> int" where
  "committed_view inp a b k =
     (case b_storage_origin b of
        None \<Rightarrow> if b_StorageRootHash b = None then 0 else db_slot inp a k
      | Some m \<Rightarrow> (case m k of Some v \<Rightarrow> v | None \<Rightarrow> db_slot inp a k))"

definition state_view :: "state_input \<Rightarrow> address \<Rightarrow> AccountBody \<Rightarrow> int \<Rightarrow> int" where
  "state_view inp a b k =
     (case b_StorageDirty b k of Some v \<Rightarrow> v | None \<Rightarrow> committed_view inp a b k)"

definition code_view :: "state_input \<Rightarrow> AccountBody \<Rightarrow> bytes option" where
  "code_view inp b =
     (if b_CodeSize b = 0 then Some []
      else case b_Code b of Some c \<Rightarrow> Some c | None \<Rightarrow> map_option (in_GetCode inp) (b_CodeHash b))"

definition body_view :: "state_input \<Rightarrow> address \<Rightarrow> AccountBody \<Rightarrow> acc_view" where
  "body_view inp a b =
     \<lparr>v_Nonce = b_Nonce b, v_Balance = b_Balance b, v_CodeSize = b_CodeSize b,
      v_CodeHash = (if b_CodeSize b = 0 then None else b_CodeHash b), v_Code = code_view inp b,
      v_State = state_view inp a b, v_Committed = committed_view inp a b, v_suicided = b_suicided b\<rparr>"

definition entry_of :: "TransitionState \<Rightarrow> address \<Rightarrow> acc_entry" where
  "entry_of ts a = (case accounts ts a of Some e \<Rightarrow> e | None \<Rightarrow> load_entry (ts_in ts) a)"

definition ts_view :: "TransitionState \<Rightarrow> address \<Rightarrow> acc_view option \<times> bool" where
  "ts_view ts a = (map_option (body_view (ts_in ts) a) (e_body (entry_of ts a)), e_deleted (entry_of ts a))"

definition sim :: "TransitionState \<Rightarrow> TransitionState \<Rightarrow> bool" where
  "sim ts t \<longleftrightarrow> ts_in t = ts_in ts \<and> ts_view t = ts_view ts \<and> ts_logs t = ts_logs ts \<and>
     ts_refund t = ts_refund ts \<and> dom (accounts ts) \<subseteq> dom (accounts t)"

lemma sim_refl [simp, intro]: "sim ts ts"
  by (simp add: sim_def)

lemma sim_trans [trans]: "sim a b \<Longrightarrow> sim b c \<Longrightarrow> sim a c"
  unfolding sim_def by auto

section \<open>Updates on views\<close>

lemma body_view_simps [simp]:
  "body_view inp a (b\<lparr>b_Balance := x\<rparr>) = (body_view inp a b)\<lparr>v_Balance := x\<rparr>"
  "body_view inp a (b\<lparr>b_Nonce := n\<rparr>) = (body_view inp a b)\<lparr>v_Nonce := n\<rparr>"
  "body_view inp a (b\<lparr>b_suicided := s\<rparr>) = (body_view inp a b)\<lparr>v_suicided := s\<rparr>"
  "body_view inp a (b\<lparr>b_mod_count := mc\<rparr>) = body_view inp a b"
  "body_view inp a (b\<lparr>b_times_touched := tt\<rparr>) = body_view inp a b"
  "body_view inp a (b\<lparr>b_mod_count := mc, b_StorageDirty := sd\<rparr>) = body_view inp a (b\<lparr>b_StorageDirty := sd\<rparr>)"
  "body_view inp a (b\<lparr>b_RawStorageDirty := r\<rparr>) = body_view inp a b"
  "body_view inp a (b\<lparr>b_StorageDirty := (b_StorageDirty b)(k \<mapsto> v)\<rparr>) =
     (body_view inp a b)\<lparr>v_State := (v_State (body_view inp a b))(k := v)\<rparr>"
  "body_view inp a (b\<lparr>b_CodeDirty := d, b_CodeHash := h, b_CodeSize := n', b_Code := c\<rparr>) =
     (body_view inp a b)\<lparr>v_CodeSize := n', v_CodeHash := (if n' = 0 then None else h),
       v_Code := (if n' = 0 then Some [] else case c of Some c \<Rightarrow> Some c | None \<Rightarrow> map_option (in_GetCode inp) h)\<rparr>"
  by (auto simp: body_view_def code_view_def state_view_def committed_view_def fun_eq_iff
      cong: option.case_cong)

lemma body_of_entry: "body_of ts a = Some b \<Longrightarrow> e_body (entry_of ts a) = Some b \<and> a \<in> dom (accounts ts)"
  by (auto simp: body_of_def entry_of_def elim!: bind_eq_SomeE)

lemma body_of_dom: "a \<in> dom (accounts ts) \<Longrightarrow> body_of ts a = e_body (entry_of ts a)"
  by (auto simp: body_of_def entry_of_def)

lemma upd_body_fields [simp]:
  "ts_in (upd_body a f ts) = ts_in ts" "ts_logs (upd_body a f ts) = ts_logs ts"
  "ts_refund (upd_body a f ts) = ts_refund ts" "reverts (upd_body a f ts) = reverts ts"
  "dom (accounts (upd_body a f ts)) = dom (accounts ts)"
  "transientStorage (upd_body a f ts) = transientStorage ts"
  by (auto simp: upd_body_def split: if_splits)

lemma upd_body_present [simp]:
  "(\<exists>y. accounts (upd_body a f ts) x = Some y) = (\<exists>y. accounts ts x = Some y)"
  using upd_body_fields(5) [of a f ts] by (auto simp: dom_def set_eq_iff)

lemma upd_entry_fields [simp]:
  "ts_in (upd_entry a g ts) = ts_in ts" "ts_logs (upd_entry a g ts) = ts_logs ts"
  "ts_refund (upd_entry a g ts) = ts_refund ts" "reverts (upd_entry a g ts) = reverts ts"
  "dom (accounts (upd_entry a g ts)) = dom (accounts ts)"
  "transientStorage (upd_entry a g ts) = transientStorage ts"
  by (auto simp: upd_entry_def split: if_splits)

lemma ts_view_upd_body:
  "a \<in> dom (accounts ts) \<Longrightarrow> ts_view (upd_body a f ts) =
     (ts_view ts)(a := (map_option (\<lambda>b. body_view (ts_in ts) a (f b)) (body_of ts a), snd (ts_view ts a)))"
  by (auto simp: ts_view_def upd_body_def entry_of_def fun_eq_iff body_of_def option.map_comp comp_def
      cong: option.case_cong)

lemma ts_view_upd_entry:
  "a \<in> dom (accounts ts) \<Longrightarrow> ts_view (upd_entry a g ts) =
     (ts_view ts)(a := (map_option (body_view (ts_in ts) a) (e_body (g (entry_of ts a))), e_deleted (g (entry_of ts a))))"
  by (auto simp: ts_view_def upd_entry_def entry_of_def fun_eq_iff cong: option.case_cong)

lemma body_of_reverts [simp]: "body_of (ts\<lparr>reverts := r\<rparr>) = body_of ts"
  by (simp add: body_of_def fun_eq_iff)

lemma body_of_upd_body: "body_of (upd_body a f ts) c = (if c = a then map_option f (body_of ts a) else body_of ts c)"
  by (cases "accounts ts a") (auto simp: body_of_def upd_body_def)

lemma body_of_upd_entry:
  "a \<in> dom (accounts ts) \<Longrightarrow>
     body_of (upd_entry a g ts) c = (if c = a then e_body (g (entry_of ts a)) else body_of ts c)"
  by (auto simp: body_of_def upd_entry_def entry_of_def)

lemma RegisterChange_fields [simp]:
  "ts_in (RegisterChange r ts) = ts_in ts" "ts_logs (RegisterChange r ts) = ts_logs ts"
  "ts_refund (RegisterChange r ts) = ts_refund ts" "accounts (RegisterChange r ts) = accounts ts"
  "reverts (RegisterChange r ts) = r # reverts ts" "ts_view (RegisterChange r ts) = ts_view ts"
  "body_of (RegisterChange r ts) = body_of ts"
  by (simp_all add: RegisterChange_def ts_view_def fun_eq_iff entry_of_def body_of_def cong: option.case_cong)

lemma ts_view_fields [simp]:
  "ts_view (ts\<lparr>reverts := r\<rparr>) = ts_view ts" "ts_view (ts\<lparr>ts_logs := l\<rparr>) = ts_view ts"
  "ts_view (ts\<lparr>ts_refund := g\<rparr>) = ts_view ts" "ts_view (ts\<lparr>transientStorage := tr\<rparr>) = ts_view ts"
  "ts_view (ts\<lparr>accounts_in_curr_ver := cv\<rparr>) = ts_view ts"
  by (simp_all add: ts_view_def fun_eq_iff entry_of_def cong: option.case_cong)

section \<open>Undoing a change\<close>

definition journaled :: "TransitionState \<Rightarrow> TransitionState \<Rightarrow> bool" where
  "journaled ts ts' \<longleftrightarrow>
     (\<exists>js. reverts ts' = js @ reverts ts \<and>
       (\<forall>t. sim ts' t \<longrightarrow> (\<exists>t'. run_reverts js t = Some t' \<and> sim ts t')))"

lemma run_reverts_append:
  "run_reverts (js @ ks) t = Option.bind (run_reverts js t) (run_reverts ks)"
  by (induction js arbitrary: t) (auto split: Option.bind_splits)

lemma journaled_silent: "sim ts ts' \<Longrightarrow> reverts ts' = reverts ts \<Longrightarrow> journaled ts ts'"
  unfolding journaled_def by (intro exI [of _ "[]"]) (auto intro: sim_trans)

lemma journaled_refl [simp, intro]: "journaled ts ts"
  by (simp add: journaled_silent)

lemma journaled_trans [trans]:
  assumes "journaled a b" "journaled b c" shows "journaled a c"
proof -
  from assms obtain js ks where js: "reverts b = js @ reverts a"
      "\<And>t. sim b t \<Longrightarrow> \<exists>t'. run_reverts js t = Some t' \<and> sim a t'"
    and ks: "reverts c = ks @ reverts b" "\<And>t. sim c t \<Longrightarrow> \<exists>t'. run_reverts ks t = Some t' \<and> sim b t'"
    unfolding journaled_def by blast
  have "\<exists>t'. run_reverts (ks @ js) t = Some t' \<and> sim a t'" if "sim c t" for t
    using ks(2) [OF that] js(2) by (fastforce simp: run_reverts_append)
  moreover have "reverts c = (ks @ js) @ reverts a" using js ks by simp
  ultimately show ?thesis unfolding journaled_def by blast
qed

lemma journaled_push:
  assumes "reverts ts' = r # reverts ts" "\<And>t. sim ts' t \<Longrightarrow> \<exists>t'. apply_revert r t = Some t' \<and> sim ts t'"
  shows "journaled ts ts'"
  unfolding journaled_def using assms by (intro exI [of _ "[r]"]) auto

lemma apply_revert_reverts: "apply_revert r t = Some t' \<Longrightarrow> reverts t' = reverts t"
  by (cases r) (auto simp: rev_body_def elim!: bind_eq_SomeE)

lemma run_reverts_reverts: "run_reverts js t = Some t' \<Longrightarrow> reverts t' = reverts t"
  by (induction js arbitrary: t) (auto dest: apply_revert_reverts elim!: bind_eq_SomeE)

text \<open>A revert to the snapshot restores the view, and the result is again journaled.\<close>

lemma RevertToSnapshot_ok:
  assumes "journaled ts ts'"
  shows "\<exists>t. RevertToSnapshot (Snapshot ts) ts' = Some t \<and> sim ts t \<and> reverts t = reverts ts"
proof -
  from assms obtain js where js: "reverts ts' = js @ reverts ts"
    and ok: "\<exists>t'. run_reverts js ts' = Some t' \<and> sim ts t'"
    unfolding journaled_def by blast
  from ok obtain t where t: "run_reverts js ts' = Some t" "sim ts t" by blast
  have "sim ts (t\<lparr>reverts := reverts ts\<rparr>)"
    using t(2) by (simp add: sim_def)
  then show ?thesis
    using js t(1) run_reverts_reverts [OF t(1)] by (simp add: RevertToSnapshot_def Snapshot_def)
qed

text \<open>No change of the transient storage is registered, so a revert leaves it alone.\<close>

lemma apply_revert_transient: "apply_revert r ts = Some t \<Longrightarrow> transientStorage t = transientStorage ts"
  by (cases r) (auto simp: rev_body_def upd_body_def upd_entry_def Let_def split: Option.bind_splits option.splits)

lemma run_reverts_transient: "run_reverts rs ts = Some t \<Longrightarrow> transientStorage t = transientStorage ts"
proof (induction rs arbitrary: ts)
  case (Cons r rs)
  then show ?case using apply_revert_transient by (auto split: Option.bind_splits)
qed simp

lemma RevertToSnapshot_transient: "RevertToSnapshot k ts = Some t \<Longrightarrow> transientStorage t = transientStorage ts"
  using run_reverts_transient by (auto simp: RevertToSnapshot_def Let_def split: Option.bind_splits)

section \<open>Every operation is journaled\<close>

lemma sim_body:
  assumes "sim ts t" "body_of ts a = Some b"
  obtains b' where "body_of t a = Some b'" "body_view (ts_in ts) a b' = body_view (ts_in ts) a b"
    "a \<in> dom (accounts t)"
proof -
  from body_of_entry [OF assms(2)] have e: "e_body (entry_of ts a) = Some b" and d: "a \<in> dom (accounts ts)" by simp_all
  from assms(1) d have dt: "a \<in> dom (accounts t)" by (auto simp: sim_def)
  have "ts_view t a = ts_view ts a" "ts_in t = ts_in ts" using assms(1) by (simp_all add: sim_def)
  then have "map_option (body_view (ts_in ts) a) (e_body (entry_of t a)) = Some (body_view (ts_in ts) a b)"
    using e by (simp add: ts_view_def)
  then obtain b' where "e_body (entry_of t a) = Some b'" "body_view (ts_in ts) a b' = body_view (ts_in ts) a b"
    by auto
  then show ?thesis using that body_of_dom [OF dt] dt by auto
qed

text \<open>
  The general form of a change to an existing body: \<open>f\<close> changes the view by \<open>F\<close>, the revert by \<open>G\<close>,
  and \<open>G\<close> undoes \<open>F\<close> on the view that was there.
\<close>

lemma journaled_body:
  assumes b: "body_of ts a = Some b"
    and r: "\<And>t. apply_revert r t = rev_body a g t"
    and f: "body_view (ts_in ts) a (f b) = V"
    and g: "\<And>c. body_view (ts_in ts) a c = V \<Longrightarrow> body_view (ts_in ts) a (g (c\<lparr>b_mod_count := b_mod_count c - 1\<rparr>)) = body_view (ts_in ts) a b"
    and ts': "ts_in ts' = ts_in ts" "ts_logs ts' = ts_logs ts" "ts_refund ts' = ts_refund ts"
      "reverts ts' = r # reverts ts" "dom (accounts ts') = dom (accounts ts)"
      "ts_view ts' = (ts_view ts)(a := (Some V, snd (ts_view ts a)))" "body_of ts' a = Some b2"
      "body_view (ts_in ts) a b2 = V"
  shows "journaled ts ts'"
proof (rule journaled_push [OF ts'(4)])
  fix t assume s: "sim ts' t"
  from sim_body [OF s ts'(7)] obtain c where c: "body_of t a = Some c" "a \<in> dom (accounts t)"
    "body_view (ts_in ts) a c = V"
    using ts'(1,8) by metis
  let ?h = "\<lambda>b. g (b\<lparr>b_mod_count := b_mod_count b - 1\<rparr>)"
  have ap: "apply_revert r t = Some (upd_body a ?h t)"
    using c by (simp add: r rev_body_def IsNIL_def)
  have "ts_in t = ts_in ts" using s ts' by (simp add: sim_def)
  then have v1: "ts_view (upd_body a ?h t) = (ts_view t)(a := (Some (body_view (ts_in ts) a b), snd (ts_view t a)))"
    using ts_view_upd_body [OF c(2), of ?h] c g [OF c(3)] by simp
  have v2: "ts_view t = (ts_view ts)(a := (Some V, snd (ts_view ts a)))"
    using s ts' by (simp add: sim_def)
  have v3: "ts_view ts a = (Some (body_view (ts_in ts) a b), snd (ts_view ts a))"
    using body_of_entry [OF b] by (simp add: ts_view_def)
  have "ts_view (upd_body a ?h t) = (ts_view ts)(a := ts_view ts a)"
    unfolding v1 v2 by (subst (2) v3) simp
  then have "ts_view (upd_body a ?h t) = ts_view ts" by simp
  then have "sim ts (upd_body a ?h t)" using s ts' by (simp add: sim_def)
  then show "\<exists>t'. apply_revert r t = Some t' \<and> sim ts t'" using ap by blast
qed


lemma journaled_change:
  assumes b: "body_of ts a = Some b"
    and r: "\<And>t. apply_revert r t = rev_body a g t"
    and f: "body_view (ts_in ts) a (f' b) = body_view (ts_in ts) a (f b)"
    and g: "\<And>c. body_view (ts_in ts) a c = body_view (ts_in ts) a (f b) \<Longrightarrow> body_view (ts_in ts) a (g c) = body_view (ts_in ts) a b"
    and ts': "ts' = (upd_body a f' ts)\<lparr>reverts := r # reverts ts\<rparr>"
  shows "journaled ts ts'"
proof (rule journaled_body [OF b r refl])
  have d: "a \<in> dom (accounts ts)" using body_of_entry [OF b] by simp
  show "ts_view ts' = (ts_view ts)(a := (Some (body_view (ts_in ts) a (f b)), snd (ts_view ts a)))"
    using ts_view_upd_body [OF d, of f'] b f by (simp add: ts')
  show "body_of ts' a = Some (f' b)"
    using body_of_upd_body [of a f' ts a] b by (simp add: ts' body_of_def)
qed (use f g in \<open>simp_all add: ts'\<close>)

lemma register_change_eq:
  "register_change a (Some r) ts =
     (upd_body a (\<lambda>b. b\<lparr>b_mod_count := b_mod_count b + 1\<rparr>) ts)\<lparr>reverts := r # reverts ts\<rparr>"
  by (simp add: register_change_def RegisterChange_def)

lemma upd_body_upd_body: "upd_body a f (upd_body a g ts) = upd_body a (\<lambda>b. f (g b)) ts"
  by (cases "accounts ts a") (simp_all add: upd_body_def option.map_comp comp_def)

lemma upd_body_reverts: "upd_body a f (ts\<lparr>reverts := r\<rparr>) = (upd_body a f ts)\<lparr>reverts := r\<rparr>"
  by (simp add: upd_body_def)

lemmas change_simps = register_change_eq upd_body_upd_body upd_body_reverts

lemma GetAccountConcrete_view: "sim ts (GetAccountConcrete a ts)" "reverts (GetAccountConcrete a ts) = reverts ts"
  by (auto simp: GetAccountConcrete_def Let_def sim_def ts_view_def entry_of_def fun_eq_iff
      cong: option.case_cong split: option.splits)

lemma journaled_GetAccountConcrete: "journaled ts (GetAccountConcrete a ts)"
  by (simp add: journaled_silent GetAccountConcrete_view)

lemma GetAccountConcrete_dom [simp]: "a \<in> dom (accounts (GetAccountConcrete a ts))"
  by (simp add: GetAccountConcrete_def Let_def)

lemma ensure_exists_body: "a \<in> dom (accounts ts) \<Longrightarrow> \<exists>b. body_of (ensure_exists a ts) a = Some b"
  by (auto simp: ensure_exists_def IsNIL_def change_simps Let_def body_of_def upd_entry_def upd_body_def)

lemma journaled_ensure_exists:
  assumes d: "a \<in> dom (accounts ts)"
  shows "journaled ts (ensure_exists a ts)"
proof (cases "IsNIL ts a")
  case False
  then show ?thesis by (simp add: ensure_exists_def)
next
  case True
  let ?e = "entry_of ts a"
  let ?ts' = "ensure_exists a ts"
  have nil: "e_body ?e = None" using True d by (simp add: IsNIL_def body_of_dom)
  have del: "(case accounts ts a of None \<Rightarrow> False | Some e \<Rightarrow> e_deleted e) = e_deleted ?e"
    using d by (auto simp: entry_of_def)
  let ?g = "\<lambda>e. e\<lparr>e_body := Some new_body, e_deleted := False\<rparr>"
  let ?m = "\<lambda>b. b\<lparr>b_mod_count := b_mod_count b + 1\<rparr>"
  have ts': "?ts' = (upd_body a ?m (upd_entry a ?g ts))\<lparr>reverts := RevCreate a (e_deleted ?e) # reverts ts\<rparr>"
    using True del by (simp add: ensure_exists_def Let_def change_simps)
  have d': "a \<in> dom (accounts (upd_entry a ?g ts))" using d by simp
  have body': "body_of ?ts' a = Some (?m new_body)"
    using d by (auto simp: ts' body_of_def upd_entry_def upd_body_def)
  have view': "ts_view ?ts' = (ts_view ts)(a := (Some (body_view (ts_in ts) a new_body), False))"
    using d by (simp add: ts' ts_view_upd_body [OF d'] body_of_upd_entry ts_view_upd_entry)
  show ?thesis
  proof (rule journaled_push)
    show "reverts ?ts' = RevCreate a (e_deleted ?e) # reverts ts" by (simp add: ts')
    fix t assume s: "sim ?ts' t"
    from sim_body [OF s body'] obtain c where c: "body_of t a = Some c" "a \<in> dom (accounts t)" by metis
    let ?h = "\<lambda>e. e\<lparr>e_body := None, e_deleted := e_deleted ?e\<rparr>"
    let ?n = "\<lambda>b. b\<lparr>b_mod_count := b_mod_count b - 1\<rparr>"
    have d2: "a \<in> dom (accounts (upd_body a ?n t))" using c by simp
    have v: "ts_view t = (ts_view ts)(a := (Some (body_view (ts_in ts) a new_body), False))"
      and inp: "ts_in t = ts_in ts" using s view' by (simp_all add: sim_def ts')
    have "ts_view (upd_entry a ?h (upd_body a ?n t)) = (ts_view ts)(a := (None, e_deleted ?e))"
      using c by (simp add: ts_view_upd_entry [OF d2] ts_view_upd_body v)
    also have "(None, e_deleted ?e) = ts_view ts a" using nil by (simp add: ts_view_def)
    finally have "sim ts (upd_entry a ?h (upd_body a ?n t))"
      using s by (simp add: sim_def ts')
    moreover have "apply_revert (RevCreate a (e_deleted ?e)) t = Some (upd_entry a ?h (upd_body a ?n t))"
      using c by (simp add: rev_body_def IsNIL_def)
    ultimately show "\<exists>t'. apply_revert (RevCreate a (e_deleted ?e)) t = Some t' \<and> sim ts t'" by blast
  qed
qed

lemma ensure_exists_dom [simp]: "dom (accounts (ensure_exists a ts)) = dom (accounts ts)"
  by (simp add: ensure_exists_def Let_def change_simps)

lemma ts_in_ensure_exists [simp]: "ts_in (ensure_exists a ts) = ts_in ts"
  by (simp add: ensure_exists_def Let_def change_simps)

text \<open>Reads only fill caches.\<close>

lemma sim_cache:
  assumes "\<And>b. body_of ts a = Some b \<Longrightarrow> body_view (ts_in ts) a (f b) = body_view (ts_in ts) a b"
  shows "sim ts (upd_body a f ts)"
proof (cases "body_of ts a")
  case None
  then have "upd_body a f ts = ts"
    by (cases "accounts ts a") (auto simp: upd_body_def body_of_def fun_upd_idem)
  then show ?thesis by simp
next
  case (Some b)
  note e = body_of_entry [OF Some]
  then have "ts_view (upd_body a f ts) = (ts_view ts)(a := ts_view ts a)"
    using ts_view_upd_body [of a ts f] Some assms [OF Some] by (simp add: ts_view_def)
  then show ?thesis by (simp add: sim_def)
qed

lemma get_committed_state_ok:
  assumes "get_committed_state ts a key = (v, ts')"
  shows "sim ts ts' \<and> reverts ts' = reverts ts \<and> dom (accounts ts') = dom (accounts ts) \<and>
    v = (case body_of ts a of None \<Rightarrow> 0 | Some b \<Rightarrow> committed_view (ts_in ts) a b key)"
proof (cases "body_of ts a")
  case None
  then show ?thesis using assms by (simp add: get_committed_state_def)
next
  case (Some b)
  let ?m = "case b_storage_origin b of None \<Rightarrow> Map.empty | Some m \<Rightarrow> m"
  let ?f = "\<lambda>b. b\<lparr>b_storage_origin := Some ((case b_storage_origin b of None \<Rightarrow> Map.empty | Some m \<Rightarrow> m)
    (key \<mapsto> db_slot (ts_in ts) a key))\<rparr>"
  have read: "sim ts (upd_body a ?f ts)"
    if "\<not> (b_storage_origin b = None \<and> b_StorageRootHash b = None)" "?m key = None"
  proof (rule sim_cache)
    fix b' assume "body_of ts a = Some b'"
    with Some that have "committed_view (ts_in ts) a (?f b') = committed_view (ts_in ts) a b'"
      by (auto simp: committed_view_def fun_eq_iff split: option.splits)
    then show "body_view (ts_in ts) a (?f b') = body_view (ts_in ts) a b'"
      by (simp add: body_view_def state_view_def code_view_def fun_eq_iff cong: option.case_cong)
  qed
  consider (nil) "b_storage_origin b = None" "b_StorageRootHash b = None"
    | (hit) m w where "b_storage_origin b = Some m" "m key = Some w"
    | (miss) "\<not> (b_storage_origin b = None \<and> b_StorageRootHash b = None)" "?m key = None"
    by (cases "b_storage_origin b") (auto split: option.splits)
  then show ?thesis
  proof cases
    case miss
    then have "get_committed_state ts a key = (db_slot (ts_in ts) a key, upd_body a ?f ts)"
      "committed_view (ts_in ts) a b key = db_slot (ts_in ts) a key"
      using Some by (auto simp: get_committed_state_def committed_view_def Let_def split: option.splits)
    then show ?thesis using assms Some read [OF miss] by simp
  qed (use assms Some in \<open>auto simp: get_committed_state_def committed_view_def Let_def\<close>)
qed

lemma GetState_ok:
  assumes "GetState ts a key = (v, ts')"
  shows "sim ts ts' \<and> reverts ts' = reverts ts \<and> dom (accounts ts') = dom (accounts ts) \<and>
    v = (case body_of ts a of None \<Rightarrow> 0 | Some b \<Rightarrow> state_view (ts_in ts) a b key)"
  using assms get_committed_state_ok [of ts a key v ts']
  by (auto simp: GetState_def state_view_def split: option.splits)

lemma GetCode_ok:
  assumes "GetCode ts a = Some (c, ts')"
  shows "sim ts ts' \<and> reverts ts' = reverts ts \<and> dom (accounts ts') = dom (accounts ts)"
proof (cases "body_of ts a")
  case None
  then show ?thesis using assms by (simp add: GetCode_def)
next
  case (Some b)
  have "sim ts (upd_body a (\<lambda>b. b\<lparr>b_Code := Some (in_GetCode (ts_in ts) h)\<rparr>) ts)"
    if "b_CodeHash b = Some h" "b_Code b = None" for h
    using that Some
    by (intro sim_cache)
      (auto simp: body_view_def code_view_def state_view_def committed_view_def fun_eq_iff cong: option.case_cong)
  then show ?thesis
    using assms Some unfolding GetCode_def Let_def
    by (simp split: if_splits option.splits) (metis upd_body_fields(4,5))
qed

section \<open>Changes of an account\<close>

lemma view_selectors [simp]:
  "v_Balance (body_view inp a b) = b_Balance b" "v_Nonce (body_view inp a b) = b_Nonce b"
  "v_suicided (body_view inp a b) = b_suicided b" "v_State (body_view inp a b) = state_view inp a b"
  by (simp_all add: body_view_def)

lemma view_restore [simp]:
  "(body_view inp a b)\<lparr>v_Balance := b_Balance b\<rparr> = body_view inp a b"
  "(body_view inp a b)\<lparr>v_Nonce := b_Nonce b\<rparr> = body_view inp a b"
  "(body_view inp a b)\<lparr>v_State := state_view inp a b\<rparr> = body_view inp a b"
  "(body_view inp a b)\<lparr>v_Balance := b_Balance b, v_suicided := b_suicided b\<rparr> = body_view inp a b"
  by (simp_all add: body_view_def)

lemma view_no_code:
  "b_CodeSize b = 0 \<Longrightarrow>
     (body_view inp a b)\<lparr>v_CodeSize := 0, v_CodeHash := None, v_Code := Some []\<rparr> = body_view inp a b"
  by (simp add: body_view_def code_view_def)

lemma journaled_set_balance:
  assumes b: "body_of ts a = Some b" shows "journaled ts (set_balance a x ts)"
  by (rule journaled_change [OF b, where r = "RevBalance a (b_Balance b)" and f = "\<lambda>b. b\<lparr>b_Balance := x\<rparr>"
        and g = "\<lambda>c. c\<lparr>b_Balance := b_Balance b\<rparr>"
        and f' = "\<lambda>b. b\<lparr>b_Balance := x, b_mod_count := b_mod_count b + 1\<rparr>"])
    (use b in \<open>auto simp: set_balance_def Let_def change_simps GetBalance_def\<close>)

lemma journaled_AddBalance:
  assumes d: "a \<in> dom (accounts ts)" shows "journaled ts (AddBalance a x ts)"
proof -
  let ?t = "ensure_exists a ts"
  obtain b where b: "body_of ?t a = Some b" using ensure_exists_body [OF d] by blast
  have "journaled ?t (AddBalance a x ts)"
  proof (cases "x \<noteq> 0 \<or> \<not> IsEIP161Empty ?t a")
    case True
    then show ?thesis using journaled_set_balance [OF b] by (auto simp: AddBalance_def Let_def)
  next
    case False
    let ?k = "if a = ripemd_addr then 2 else 1 :: u32"
    show ?thesis
      by (rule journaled_change [OF b, where r = "RevTouch a" and f = "\<lambda>b. b"
            and g = "\<lambda>c. c\<lparr>b_times_touched := b_times_touched c - 1\<rparr>"
            and f' = "\<lambda>b. b\<lparr>b_times_touched := b_times_touched b + 1, b_mod_count := b_mod_count b + ?k\<rparr>"])
        (use False in \<open>auto simp: AddBalance_def Let_def change_simps add.commute [of _ "2 :: u32"]\<close>)
  qed
  then show ?thesis using journaled_trans [OF journaled_ensure_exists [OF d]] by blast
qed

lemma journaled_SubBalance:
  assumes d: "a \<in> dom (accounts ts)" shows "journaled ts (SubBalance a x ts)"
proof -
  obtain b where b: "body_of (ensure_exists a ts) a = Some b" using ensure_exists_body [OF d] by blast
  have "journaled (ensure_exists a ts) (SubBalance a x ts)"
    using journaled_set_balance [OF b] by (auto simp: SubBalance_def Let_def)
  then show ?thesis using journaled_trans [OF journaled_ensure_exists [OF d]] by blast
qed

lemma journaled_nonce:
  assumes b: "body_of ts a = Some b"
  shows "journaled ts (register_change a (Some (RevNonce a (GetNonce ts a))) (upd_body a (\<lambda>b. b\<lparr>b_Nonce := h b\<rparr>) ts))"
  by (rule journaled_change [OF b, where r = "RevNonce a (b_Nonce b)" and f = "\<lambda>b. b\<lparr>b_Nonce := h b\<rparr>"
        and g = "\<lambda>c. c\<lparr>b_Nonce := b_Nonce b\<rparr>"
        and f' = "\<lambda>b. b\<lparr>b_Nonce := h b, b_mod_count := b_mod_count b + 1\<rparr>"])
    (use b in \<open>auto simp: Let_def change_simps GetNonce_def\<close>)

lemma journaled_IncrementNonce:
  assumes d: "a \<in> dom (accounts ts)" shows "journaled ts (IncrementNonce a ts)"
proof -
  obtain b where b: "body_of (ensure_exists a ts) a = Some b" using ensure_exists_body [OF d] by blast
  show ?thesis
    using journaled_trans [OF journaled_ensure_exists [OF d] journaled_nonce [OF b]]
    by (simp add: IncrementNonce_def Let_def)
qed

lemma journaled_SetNonce:
  assumes d: "a \<in> dom (accounts ts)" and n: "SetNonce a x ts = Some ts'" shows "journaled ts ts'"
proof -
  obtain b where b: "body_of (ensure_exists a ts) a = Some b" using ensure_exists_body [OF d] by blast
  show ?thesis
    using n journaled_trans [OF journaled_ensure_exists [OF d] journaled_nonce [OF b]]
    by (auto simp: SetNonce_def Let_def elim!: bind_eq_SomeE)
qed

text \<open>The revert of \<open>SetCode\<close> forgets the code, so it restores only an account that had none.\<close>

lemma journaled_SetCode:
  assumes d: "a \<in> dom (accounts ts)" and none: "GetCodeSize ts a = 0"
  shows "journaled ts (SetCode keccak a code ts)"
proof (cases "code = []")
  case True
  then show ?thesis using journaled_ensure_exists [OF d] by (simp add: SetCode_def)
next
  case False
  let ?t = "ensure_exists a ts"
  obtain b where b: "body_of ?t a = Some b" using ensure_exists_body [OF d] by blast
  have z: "b_CodeSize b = 0"
  proof (cases "body_of ts a")
    case None
    then show ?thesis using b d
      by (auto simp: ensure_exists_def IsNIL_def change_simps Let_def body_of_def upd_entry_def upd_body_def new_body_def)
  next
    case (Some b0)
    then show ?thesis using b none by (simp add: ensure_exists_def IsNIL_def GetCodeSize_def)
  qed
  let ?f = "\<lambda>b. b\<lparr>b_CodeDirty := True, b_CodeHash := Some (keccak code),
    b_CodeSize := word_of_nat (length code), b_Code := Some code\<rparr>"
  have "journaled ?t (SetCode keccak a code ts)"
  proof (rule journaled_change [OF b, where r = "RevCode a" and f = ?f
        and g = "\<lambda>b. b\<lparr>b_CodeDirty := False, b_CodeHash := None, b_CodeSize := 0, b_Code := None\<rparr>"
        and f' = "\<lambda>b. ?f (b\<lparr>b_mod_count := b_mod_count b + 1\<rparr>)"])
    fix c assume "body_view (ts_in ?t) a c = body_view (ts_in ?t) a (?f b)"
    then show "body_view (ts_in ?t) a (c\<lparr>b_CodeDirty := False, b_CodeHash := None, b_CodeSize := 0, b_Code := None\<rparr>) =
        body_view (ts_in ?t) a b"
      using z by (simp add: view_no_code)
  next
    show "body_view (ts_in ?t) a (?f (b\<lparr>b_mod_count := b_mod_count b + 1\<rparr>)) = body_view (ts_in ?t) a (?f b)"
      by simp
  qed (use False in \<open>auto simp: SetCode_def Let_def change_simps\<close>)
  then show ?thesis using journaled_trans [OF journaled_ensure_exists [OF d]] by blast
qed


lemma journaled_sim: "journaled ts ts' \<Longrightarrow> sim ts' t \<Longrightarrow> reverts t = reverts ts' \<Longrightarrow> journaled ts t"
  by (metis journaled_silent journaled_trans)

lemma journaled_SetState:
  assumes d: "a \<in> dom (accounts ts)" shows "journaled ts (SetState a key x ts)"
proof -
  let ?t = "ensure_exists a ts"
  obtain b where b: "body_of ?t a = Some b" using ensure_exists_body [OF d] by blast
  obtain prev t where g: "GetState ?t a key = (prev, t)" by fastforce
  note ok = GetState_ok [OF g]
  have "sim ?t t" "reverts t = reverts ?t" using ok by simp_all
  then have 1: "journaled ts t"
    using journaled_trans [OF journaled_ensure_exists [OF d]] journaled_silent by blast
  from sim_body [OF \<open>sim ?t t\<close> b] obtain c where c: "body_of t a = Some c"
    and view: "body_view (ts_in ts) a c = body_view (ts_in ts) a b" by auto
  have inp: "ts_in t = ts_in ts" using \<open>sim ?t t\<close> by (simp add: sim_def)
  have "state_view (ts_in ts) a c = state_view (ts_in ts) a b"
    using arg_cong [OF view, of v_State] by simp
  then have prev: "prev = state_view (ts_in ts) a c key" using ok b by simp
  have "journaled t (SetState a key x ts)"
  proof (cases "prev = x")
    case True
    then show ?thesis using g by (simp add: SetState_def)
  next
    case False
    show ?thesis
      by (rule journaled_change [OF c, where r = "RevState a key prev"
            and f = "\<lambda>b. b\<lparr>b_StorageDirty := (b_StorageDirty b)(key \<mapsto> x)\<rparr>"
            and g = "\<lambda>b. b\<lparr>b_StorageDirty := (b_StorageDirty b)(key \<mapsto> prev)\<rparr>"
            and f' = "\<lambda>b. (b\<lparr>b_mod_count := b_mod_count b + 1\<rparr>)\<lparr>b_StorageDirty := (b_StorageDirty (b\<lparr>b_mod_count := b_mod_count b + 1\<rparr>))(key \<mapsto> x)\<rparr>"])
        (use False g prev inp in \<open>auto simp del: fun_upd_apply simp: SetState_def Let_def change_simps fun_upd_idem\<close>)
  qed
  then show ?thesis using 1 journaled_trans by blast
qed

lemma journaled_SetStateRawIrreversibly:
  assumes d: "a \<in> dom (accounts ts)" shows "journaled ts (SetStateRawIrreversibly a key x ts)"
proof -
  have "sim (ensure_exists a ts) (SetStateRawIrreversibly a key x ts)"
    unfolding SetStateRawIrreversibly_def Let_def register_change_def
    by (auto intro!: sim_trans [OF sim_cache sim_cache])
  moreover have "reverts (SetStateRawIrreversibly a key x ts) = reverts (ensure_exists a ts)"
    by (simp add: SetStateRawIrreversibly_def Let_def register_change_def)
  ultimately show ?thesis by (meson journaled_ensure_exists [OF d] journaled_sim)
qed

lemma AddBalance_dom [simp]: "dom (accounts (AddBalance a x ts)) = dom (accounts ts)"
  by (simp add: AddBalance_def Let_def set_balance_def change_simps)

lemma ensure_exists_other: "c \<noteq> a \<Longrightarrow> body_of (ensure_exists a ts) c = body_of ts c"
  by (simp add: ensure_exists_def Let_def change_simps body_of_upd_body) (simp add: body_of_def upd_entry_def)

lemma AddBalance_other: "c \<noteq> a \<Longrightarrow> body_of (AddBalance a x ts) c = body_of ts c"
  by (auto simp: AddBalance_def Let_def set_balance_def change_simps body_of_upd_body ensure_exists_other)

lemma journaled_Suicide:
  assumes d: "a \<in> dom (accounts ts)" shows "journaled ts (Suicide a c ts)"
proof -
  let ?t = "GetAccountConcrete c ts"
  have dt: "a \<in> dom (accounts ?t)" "c \<in> dom (accounts ?t)"
    using d GetAccountConcrete_view(1) [of ts c] by (auto simp: sim_def)
  note load = journaled_GetAccountConcrete [of ts c]
  show ?thesis
  proof (cases "body_of ?t a")
    case None
    then show ?thesis
      using journaled_trans [OF load journaled_AddBalance [OF dt(2), of 0]] by (simp add: Suicide_def Let_def)
  next
    case (Some b)
    let ?u = "AddBalance c (b_Balance b) ?t"
    have "\<exists>b'. body_of ?u a = Some b'"
      using Some AddBalance_other [of a c "b_Balance b" ?t]
      by (cases "a = c") (auto simp: AddBalance_def Let_def set_balance_def change_simps ensure_exists_def IsNIL_def
          body_of_upd_body)
    then obtain b' where b': "body_of ?u a = Some b'" by blast
    have "journaled ?u (Suicide a c ts)"
      by (rule journaled_change [OF b', where r = "RevSuicide a (b_suicided b') (b_Balance b')"
            and f = "\<lambda>b. b\<lparr>b_suicided := True, b_Balance := 0\<rparr>"
            and g = "\<lambda>b. b\<lparr>b_suicided := b_suicided b', b_Balance := b_Balance b'\<rparr>"
            and f' = "\<lambda>b. b\<lparr>b_mod_count := b_mod_count b + 1, b_suicided := True, b_Balance := 0\<rparr>"])
        (use Some b' in \<open>auto simp: Suicide_def Let_def change_simps GetBalance_def\<close>)
    then show ?thesis using journaled_trans [OF load journaled_trans [OF journaled_AddBalance [OF dt(2)]]] by blast
  qed
qed

lemma journaled_AddLog: "journaled ts (AddLog l ts)"
  by (rule journaled_push [where r = "RevLogs (length (ts_logs ts))"])
    (auto simp: AddLog_def Let_def sim_def)

lemma journaled_AddRefund: "journaled ts (AddRefund g ts)"
  by (rule journaled_push [where r = "RevRefund (ts_refund ts)"])
    (auto simp: AddRefund_def sim_def)

lemma journaled_SubRefund:
  assumes "SubRefund g ts = Some ts'" shows "journaled ts ts'"
proof (rule journaled_push [where r = "RevRefund (ts_refund ts)"])
  have ts': "ts' = (RegisterChange (RevRefund (ts_refund ts)) ts)\<lparr>ts_refund := ts_refund ts - g\<rparr>"
    using assms by (auto simp: SubRefund_def elim!: bind_eq_SomeE)
  show "reverts ts' = RevRefund (ts_refund ts) # reverts ts" by (simp add: ts')
  show "sim ts' t \<Longrightarrow> \<exists>t'. apply_revert (RevRefund (ts_refund ts)) t = Some t' \<and> sim ts t'" for t
    by (simp add: ts' sim_def)
qed

lemma journaled_SetTransientState: "journaled ts (SetTransientState a k v ts)"
  by (rule journaled_silent)
    (auto simp: SetTransientState_def Let_def GetTransientState_def initTransientState_def
      setTransientState_def sim_def)

lemma journaled_GetTransientState: "GetTransientState a k ts = (v, ts') \<Longrightarrow> journaled ts ts'"
  by (rule journaled_silent)
    (auto simp: GetTransientState_def Let_def initTransientState_def sim_def split: if_splits)

end
