(* ===== verification/Evm_Code_Stable.thy ===== *)
theory Evm_Code_Stable
  imports Evm_Journal
begin

text \<open>
  The code of an account with a nonce is final. A contract gets its code once, when its creation
  ends; from its creation on its nonce is positive, and only accounts without nonce and code can be
  created. \<open>keeps_code\<close> says this of a step, and every operation but \<open>SetCode\<close> satisfies it. The
  revert of \<open>SetCode\<close> relies on it: it does not restore a previous code but removes the code.
\<close>

definition nonce_code :: "TransitionState \<Rightarrow> address \<Rightarrow> (int \<times> u64) option" where
  "nonce_code ts a = map_option (\<lambda>v. (v_Nonce v, v_CodeSize v)) (fst (ts_view ts a))"

definition keeps_code :: "TransitionState \<Rightarrow> TransitionState \<Rightarrow> bool" where
  "keeps_code ts ts' \<longleftrightarrow>
     (\<forall>a n sz. nonce_code ts a = Some (n, sz) \<longrightarrow> 0 < n \<longrightarrow> (\<exists>n'. nonce_code ts' a = Some (n', sz) \<and> 0 < n'))"

lemma keeps_code_refl [simp, intro]: "keeps_code ts ts"
  by (simp add: keeps_code_def)

lemma keeps_code_trans [trans]: "keeps_code a b \<Longrightarrow> keeps_code b c \<Longrightarrow> keeps_code a c"
  unfolding keeps_code_def by metis

lemma keeps_code_view: "ts_view ts' = ts_view ts \<Longrightarrow> keeps_code ts ts'"
proof -
  assume "ts_view ts' = ts_view ts"
  then have "nonce_code ts' = nonce_code ts" by (simp add: nonce_code_def fun_eq_iff)
  then show ?thesis by (auto simp: keeps_code_def)
qed

lemma keeps_code_sim: "sim ts ts' \<Longrightarrow> keeps_code ts ts'" "sim ts' ts \<Longrightarrow> keeps_code ts ts'"
  by (simp_all add: sim_def keeps_code_view)

lemma upd_body_absent: "a \<notin> dom (accounts ts) \<Longrightarrow> upd_body a f ts = ts"
  by (simp add: upd_body_def domIff fun_upd_idem)

lemma nonce_code_dom: "a \<in> dom (accounts ts) \<Longrightarrow> nonce_code ts a = map_option (\<lambda>b. (b_Nonce b, b_CodeSize b)) (body_of ts a)"
  by (simp add: nonce_code_def ts_view_def body_of_dom option.map_comp comp_def body_view_def)

lemma nonce_code_upd_body:
  "a \<in> dom (accounts ts) \<Longrightarrow> nonce_code (upd_body a f ts) c =
     (if c = a then map_option (\<lambda>b. (b_Nonce (f b), b_CodeSize (f b))) (body_of ts a) else nonce_code ts c)"
  by (simp add: nonce_code_def ts_view_upd_body option.map_comp comp_def body_view_def)

lemma keeps_code_upd_body:
  assumes "\<And>b. 0 < b_Nonce b \<Longrightarrow> 0 < b_Nonce (f b) \<and> b_CodeSize (f b) = b_CodeSize b"
  shows "keeps_code ts (upd_body a f ts)"
proof (cases "a \<in> dom (accounts ts)")
  case True
  show ?thesis
    using assms unfolding keeps_code_def nonce_code_upd_body [OF True]
    by (auto simp: nonce_code_dom [OF True])
qed (simp add: upd_body_absent)

lemma keeps_code_RegisterChange: "keeps_code ts (RegisterChange r ts)"
  by (simp add: keeps_code_view)

lemma keeps_code_register_change: "keeps_code ts (register_change a r ts)"
  using keeps_code_trans [OF keeps_code_upd_body keeps_code_RegisterChange]
  by (auto simp: register_change_def Let_def intro!: keeps_code_upd_body split: option.splits)

lemma keeps_code_ensure_exists: "keeps_code ts (ensure_exists a ts)"
proof (cases "IsNIL ts a \<and> a \<in> dom (accounts ts)")
  case True
  let ?g = "\<lambda>e. e\<lparr>e_body := Some new_body, e_deleted := False\<rparr>"
  have "nonce_code (upd_entry a ?g ts) c = (if c = a then Some (0, 0) else nonce_code ts c)" for c
    using True by (simp add: nonce_code_def ts_view_upd_entry new_body_def body_view_def del: domIff)
  then have "keeps_code ts (upd_entry a ?g ts)"
    using True nonce_code_dom [of a ts] by (simp add: keeps_code_def IsNIL_def del: domIff)
  then show ?thesis
    using True keeps_code_trans [OF _ keeps_code_register_change] by (simp add: ensure_exists_def Let_def del: domIff)
next
  case False
  then have "upd_entry a g ts = ts" if "IsNIL ts a" for g
    using that by (simp add: upd_entry_def domIff fun_upd_idem)
  then show ?thesis by (auto simp: ensure_exists_def Let_def intro: keeps_code_register_change)
qed

lemma keeps_code_set_balance: "keeps_code ts (set_balance a x ts)"
  unfolding set_balance_def Let_def
  by (rule keeps_code_trans [OF keeps_code_upd_body keeps_code_register_change]) simp

lemma keeps_code_touch:
  "keeps_code ts (upd_body a (\<lambda>b. b\<lparr>b_times_touched := n b\<rparr>) ts)" "keeps_code ts (upd_body a (\<lambda>b. b\<lparr>b_mod_count := n b\<rparr>) ts)"
  by (rule keeps_code_upd_body, simp)+

lemma keeps_code_AddBalance: "keeps_code ts (AddBalance a x ts)"
proof -
  let ?t = "ensure_exists a ts"
  let ?u = "register_change a (Some (RevTouch a)) (upd_body a (\<lambda>b. b\<lparr>b_times_touched := b_times_touched b + 1\<rparr>) ?t)"
  have u: "keeps_code ?t ?u" by (rule keeps_code_trans [OF keeps_code_touch(1) keeps_code_register_change])
  have v: "keeps_code ?t (upd_body a (\<lambda>b. b\<lparr>b_mod_count := b_mod_count b + 1\<rparr>) ?u)"
    by (rule keeps_code_trans [OF u keeps_code_touch(2)])
  have "keeps_code ?t (AddBalance a x ts)"
    using u v by (auto simp: AddBalance_def Let_def keeps_code_set_balance)
  with keeps_code_ensure_exists show ?thesis by (rule keeps_code_trans)
qed

lemma keeps_code_SubBalance: "keeps_code ts (SubBalance a x ts)"
  using keeps_code_trans [OF keeps_code_ensure_exists keeps_code_set_balance]
  by (simp add: SubBalance_def Let_def keeps_code_ensure_exists)

lemma keeps_code_IncrementNonce: "keeps_code ts (IncrementNonce a ts)"
  unfolding IncrementNonce_def Let_def
  by (rule keeps_code_trans [OF keeps_code_ensure_exists keeps_code_trans [OF keeps_code_upd_body keeps_code_register_change]])
    simp

lemma keeps_code_SetState: "keeps_code ts (SetState a k v ts)"
proof -
  obtain p t where g: "GetState (ensure_exists a ts) a k = (p, t)" by fastforce
  have s: "keeps_code ts t"
    using keeps_code_trans [OF keeps_code_ensure_exists keeps_code_sim(1)] GetState_ok [OF g] by blast
  have "keeps_code t (upd_body a (\<lambda>b. b\<lparr>b_StorageDirty := (b_StorageDirty b)(k \<mapsto> v)\<rparr>) (register_change a (Some (RevState a k p)) t))"
    by (rule keeps_code_trans [OF keeps_code_register_change keeps_code_upd_body]) simp
  then show ?thesis using s g keeps_code_trans by (auto simp: SetState_def Let_def)
qed

lemma keeps_code_Suicide: "keeps_code ts (Suicide a c ts)"
proof -
  have "keeps_code t (upd_body a (\<lambda>b. b\<lparr>b_suicided := True, b_Balance := 0\<rparr>) (register_change a r t))" for r t
    by (rule keeps_code_trans [OF keeps_code_register_change keeps_code_upd_body]) simp
  from keeps_code_trans [OF keeps_code_AddBalance this] have
    "keeps_code t (upd_body a (\<lambda>b. b\<lparr>b_suicided := True, b_Balance := 0\<rparr>) (register_change a r (AddBalance c x t)))" for r t x .
  then have "keeps_code (GetAccountConcrete c ts) (Suicide a c ts)"
    by (simp add: Suicide_def Let_def keeps_code_AddBalance split: option.split)
  with keeps_code_sim(1) [OF GetAccountConcrete_view(1)] show ?thesis by (rule keeps_code_trans)
qed

lemma keeps_code_rest:
  "keeps_code ts (AddLog l ts)" "keeps_code ts (AddRefund g ts)" "keeps_code ts (SetTransientState a k v ts)"
  "SubRefund g ts = Some ts' \<Longrightarrow> keeps_code ts ts'"
  by (auto simp: AddLog_def AddRefund_def SubRefund_def SetTransientState_def GetTransientState_def
      initTransientState_def setTransientState_def Let_def elim!: bind_eq_SomeE intro!: keeps_code_view)

text \<open>\<open>SetCode\<close> changes the code of its account only.\<close>

lemma nonce_code_other:
  assumes "c \<noteq> a"
  shows "nonce_code (upd_body a f ts) c = nonce_code ts c" "nonce_code (upd_entry a g ts) c = nonce_code ts c"
    "nonce_code (register_change a r ts) c = nonce_code ts c" "nonce_code (ensure_exists a ts) c = nonce_code ts c"
proof -
  show b: "nonce_code (upd_body a f ts) c = nonce_code ts c" for f ts
    using assms by (cases "a \<in> dom (accounts ts)") (simp_all add: nonce_code_upd_body upd_body_absent)
  show e: "nonce_code (upd_entry a g ts) c = nonce_code ts c" for g ts
    using assms by (simp add: nonce_code_def ts_view_def entry_of_def upd_entry_def cong: option.case_cong)
  show r: "nonce_code (register_change a r ts) c = nonce_code ts c" for r ts
    using b by (simp add: register_change_def Let_def nonce_code_def split: option.splits)
  show "nonce_code (ensure_exists a ts) c = nonce_code ts c" for ts
    by (simp add: ensure_exists_def Let_def r e)
qed

lemma keeps_code_SetCode:
  assumes k: "keeps_code s t" and new: "\<And>n sz. nonce_code s a = Some (n, sz) \<Longrightarrow> n \<le> 0"
  shows "keeps_code s (SetCode h a code t)"
  unfolding keeps_code_def
proof (intro allI impI)
  fix c n sz assume c: "nonce_code s c = Some (n, sz)" "0 < n"
  then have "c \<noteq> a" using new by fastforce
  then have "nonce_code (SetCode h a code t) c = nonce_code t c"
    by (simp add: SetCode_def Let_def nonce_code_other)
  then show "\<exists>n'. nonce_code (SetCode h a code t) c = Some (n', sz) \<and> 0 < n'"
    using k c by (simp add: keeps_code_def)
qed

text \<open>The account of a creation after its nonce was set.\<close>

lemma nonce_code_created:
  assumes d: "a \<in> dom (accounts ts)" and "GetNonce ts a = 0" "GetCodeSize ts a = 0"
  shows "nonce_code (IncrementNonce a ts) a = Some (1, 0)"
proof -
  obtain b where b: "body_of (ensure_exists a ts) a = Some b" using ensure_exists_body [OF d] by blast
  have "b_Nonce b = 0 \<and> b_CodeSize b = 0"
  proof (cases "body_of ts a")
    case None
    then show ?thesis using b d
      by (auto simp: ensure_exists_def IsNIL_def change_simps Let_def body_of_def upd_entry_def upd_body_def new_body_def)
  next
    case (Some b0)
    then show ?thesis using b assms by (simp add: ensure_exists_def IsNIL_def GetNonce_def GetCodeSize_def)
  qed
  then show ?thesis
    using b d by (simp add: IncrementNonce_def Let_def change_simps nonce_code_dom body_of_upd_body del: domIff)
qed

end
