(* ===== verification/Evm_Gas_Spec.thy ===== *)
theory Evm_Gas_Spec
  imports Evm_Interpreter Evm_Code_Stable
begin

text \<open>
  What the interpreter relies on in a gas function: it charges at least a fixed amount, leaves the
  frame and the view of the state alone but for the last memory fee, the gas for the next call and
  the refund counter, and rejects memory sizes that do not fit into the address space.
\<close>

section \<open>Checked arithmetic\<close>

lemma safe_add_Inr:
  assumes "safe_add x y = Inr g" shows "unat g = unat x + unat y"
proof -
  from assms have g: "g = x + y" and le: "y \<le> MaxUint64 - x"
    by (auto simp: safe_add_def SafeAdd_def split: if_splits)
  have "unat (MaxUint64 - x) = 2 ^ 64 - 1 - unat x"
    using unsigned_less [of x, where 'a = nat] by (simp add: MaxUint64_def unat_sub_if' word_le_nat_alt)
  then have "unat x + unat y < 2 ^ 64"
    using le unsigned_less [of x, where 'a = nat] by (simp add: word_le_nat_alt)
  then show ?thesis by (simp add: g unat_word_ariths)
qed

lemma gas_bind_Inr: "gas_bind r f = Inr g \<longleftrightarrow> (\<exists>x. r = Inr x \<and> f x = Inr g)"
  by (cases r) (auto simp: gas_bind_def)

lemma word_gas_Inr: "word_gas w per gas = Inr g \<Longrightarrow> unat gas \<le> unat g"
  by (auto simp: word_gas_def gas_bind_Inr dest: safe_add_Inr)

section \<open>The contract of a gas function\<close>

definition gas_frame :: "machine \<Rightarrow> evm \<Rightarrow> machine \<Rightarrow> evm \<Rightarrow> bool" where
  "gas_frame m e m' e' \<longleftrightarrow>
     m' = m\<lparr>mem := (mem m)\<lparr>lastGasCost := lastGasCost (mem m')\<rparr>\<rparr> \<and>
     e' = e\<lparr>state := state e', call_gas_tmp := call_gas_tmp e'\<rparr> \<and>
     dom (accounts (state e)) \<subseteq> dom (accounts (state e')) \<and> journaled (state e) (state e') \<and>
     keeps_code (state e) (state e')"

definition gas_ok :: "nat \<Rightarrow> gasFunc \<Rightarrow> bool" where
  "gas_ok lb g \<longleftrightarrow>
     (\<forall>m e sz r m' e'. g m e sz = Some (r, m', e') \<longrightarrow>
        gas_frame m e m' e' \<and> (\<forall>cost. r = Inr cost \<longrightarrow> lb \<le> unat cost))"

definition gas_pure :: "gasFunc \<Rightarrow> bool" where
  "gas_pure g \<longleftrightarrow>
     (\<forall>m e sz r m' e'. g m e sz = Some (r, m', e') \<longrightarrow>
        sim (state e) (state e') \<and> TransitionState.reverts (state e') = TransitionState.reverts (state e))"

definition gas_guards :: "gasFunc \<Rightarrow> bool" where
  "gas_guards g \<longleftrightarrow>
     (\<forall>m e sz cost m' e'. g m e sz = Some (Inr cost, m', e') \<longrightarrow> sz \<le> 0xffffffffe0)"

lemma gas_frame_refl [simp]: "gas_frame m e m e"
  by (simp add: gas_frame_def)

lemma memoryGasCost_mem: "memoryGasCost p m sz = (r, m') \<Longrightarrow> m' = m\<lparr>lastGasCost := lastGasCost m'\<rparr>"
  by (auto simp: memoryGasCost_def Let_def split: if_splits)

lemma memoryGasCost_guard: "memoryGasCost p m sz = (Inr g, m') \<Longrightarrow> sz \<le> 0xffffffffe0"
  by (auto simp: memoryGasCost_def split: if_splits)

lemma gas_frame_mem: "mm = (mem m)\<lparr>lastGasCost := lastGasCost mm\<rparr> \<Longrightarrow> gas_frame m e (m\<lparr>mem := mm\<rparr>) e"
  by (cases m, cases "mem m", cases mm) (auto simp: gas_frame_def)

lemma const_gas:
  "gas_ok (unat c) (constGasFunc c)" "gas_pure (constGasFunc c)"
  by (auto simp: gas_ok_def gas_pure_def constGasFunc_def)

lemma with_memory_spec:
  assumes f: "\<And>g cost. f g = Inr cost \<Longrightarrow> lb \<le> unat cost"
    and r: "with_memory f m e sz = Some (r, m', e')"
  shows "gas_frame m e m' e' \<and> e' = e \<and> (\<forall>cost. r = Inr cost \<longrightarrow> lb \<le> unat cost \<and> sz \<le> 0xffffffffe0)"
proof -
  obtain q mm where q: "memoryGasCost (mem_pool e) (mem m) sz = (q, mm)" by fastforce
  then have "m' = m\<lparr>mem := mm\<rparr>" "e' = e" "r = gas_bind q f" using r by (auto simp: with_memory_def)
  moreover from gas_frame_mem [OF memoryGasCost_mem [OF q]] have "gas_frame m e (m\<lparr>mem := mm\<rparr>) e" .
  ultimately show ?thesis using q f by (auto simp: gas_bind_Inr dest: memoryGasCost_guard)
qed

definition gas_memory :: "nat \<Rightarrow> gasFunc \<Rightarrow> bool" where
  "gas_memory lb g \<longleftrightarrow> gas_ok lb g \<and> gas_pure g \<and> gas_guards g"

lemma gas_memoryI:
  assumes "\<And>m e sz r m' e'. g m e sz = Some (r, m', e') \<Longrightarrow>
    gas_frame m e m' e' \<and> e' = e \<and> (\<forall>cost. r = Inr cost \<longrightarrow> lb \<le> unat cost \<and> sz \<le> 0xffffffffe0)"
  shows "gas_memory lb g"
  unfolding gas_memory_def gas_ok_def gas_pure_def gas_guards_def using assms by fastforce

lemma with_memory_gas:
  assumes "\<And>g cost. f g = Inr cost \<Longrightarrow> lb \<le> unat cost"
  shows "gas_memory lb (with_memory f)"
  using assms by (intro gas_memoryI with_memory_spec) auto

lemma back_with_memory_gas:
  assumes "\<And>x g cost. f x g = Inr cost \<Longrightarrow> lb \<le> unat cost"
  shows "gas_memory lb (\<lambda>m e sz. Option.bind (Back (stack m) i) (\<lambda>x. with_memory (f x) m e sz))"
proof (rule gas_memoryI)
  fix m e sz r m' e' assume "Option.bind (Back (stack m) i) (\<lambda>x. with_memory (f x) m e sz) = Some (r, m', e')"
  then obtain x where "with_memory (f x) m e sz = Some (r, m', e')" by (auto elim!: bind_eq_SomeE)
  with assms show "gas_frame m e m' e' \<and> e' = e \<and> (\<forall>cost. r = Inr cost \<longrightarrow> lb \<le> unat cost \<and> sz \<le> 0xffffffffe0)"
    by (rule with_memory_spec)
qed

lemma add_word_gas: "gas_bind (safe_add g k) (word_gas w per) = Inr cost \<Longrightarrow> unat k \<le> unat cost"
  by (auto simp: gas_bind_Inr dest!: safe_add_Inr word_gas_Inr)

lemma add_gas: "safe_add g k = Inr cost \<Longrightarrow> unat k \<le> unat cost"
  by (auto dest!: safe_add_Inr)

lemma memory_gas_functions:
  "gas_memory 3 gasCallDataCopy" "gas_memory 3 gasCodeCopy" "gas_memory 3 gasMcopy" "gas_memory 3 gasReturnDataCopy"
  "gas_memory 6 gasKeccak256" "gas_memory 700 gasExtCodeCopy" "gas_memory 3 gasMLoad" "gas_memory 3 gasMStore8"
  "gas_memory 3 gasMStore" "gas_memory 32000 gasCreate" "gas_memory 32000 gasCreate2" "gas_memory 0 gasReturn"
  "gas_memory 0 gasRevert"
  unfolding gasCallDataCopy_def gasCodeCopy_def gasMcopy_def gasReturnDataCopy_def memoryCopierGas_def [abs_def]
    gasKeccak256_def [abs_def] gasExtCodeCopy_def [abs_def] gasMLoad_def gasMStore8_def gasMStore_def gasCreate_def
    gasCreate2_def [abs_def] gasReturn_def gasRevert_def
  by (rule back_with_memory_gas with_memory_gas, (drule add_word_gas add_gas)?,
      simp add: GasFastestStep_def Keccak256WordGas_def gas_table_def CreateGas_def Create2Gas_def)+


lemma gas_memory_log: "gas_memory 375 (makeGasLog n)"
proof (rule gas_memoryI)
  fix m e sz r m' e' assume "makeGasLog n m e sz = Some (r, m', e')"
  then consider (overflow) err where "r = Inl err" "m' = m" "e' = e"
    | (log) l where "with_memory (\<lambda>gas. gas_bind (safe_add gas LogGas) (\<lambda>gas. gas_bind (safe_add gas (n * LogTopicGas))
        (\<lambda>gas. gas_bind (safe_mul l LogDataGas) (safe_add gas)))) m e sz = Some (r, m', e')"
    by (auto simp: makeGasLog_def elim!: bind_eq_SomeE split: sum.splits dest: sym)
  then show "gas_frame m e m' e' \<and> e' = e \<and> (\<forall>cost. r = Inr cost \<longrightarrow> 375 \<le> unat cost \<and> sz \<le> 0xffffffffe0)"
  proof cases
    case log
    show ?thesis
      by (rule with_memory_spec [OF _ log]) (auto simp: gas_bind_Inr LogGas_def dest!: safe_add_Inr)
  qed simp
qed

lemma constant_gas_functions:
  "gas_ok 700 gasExtCodeHash" "gas_ok 700 gasBalance" "gas_ok 700 gasExtCodeSize" "gas_ok 800 gasSLoad"
  "gas_ok 100 gasTLoad" "gas_ok 3 gasPush" "gas_ok 3 gasSwap" "gas_ok 3 gasDup" "gas_ok 10 gasExp"
  by (auto simp: gas_ok_def gasExtCodeHash_def gasBalance_def gasExtCodeSize_def gasSLoad_def gasTLoad_def
      gasPush_def gasSwap_def gasDup_def gasExp_def gas_table_def GasFastestStep_def ExpGas_def
      elim!: bind_eq_SomeE dest!: safe_add_Inr)

lemma constant_gas_pure:
  "gas_pure gasExtCodeHash" "gas_pure gasBalance" "gas_pure gasExtCodeSize" "gas_pure gasSLoad"
  "gas_pure gasTLoad" "gas_pure gasPush" "gas_pure gasSwap" "gas_pure gasDup" "gas_pure gasExp"
  by (auto simp: gas_pure_def gasExtCodeHash_def gasBalance_def gasExtCodeSize_def gasSLoad_def gasTLoad_def
      gasPush_def gasSwap_def gasDup_def gasExp_def elim!: bind_eq_SomeE)

lemma gas_frame_state:
  "dom (accounts (state e)) \<subseteq> dom (accounts ts) \<Longrightarrow> journaled (state e) ts \<Longrightarrow> keeps_code (state e) ts \<Longrightarrow>
     gas_frame m e m (e\<lparr>state := ts\<rparr>)"
  by (simp add: gas_frame_def)

lemma refund_dom [simp]:
  "accounts (AddRefund g ts) = accounts ts" "SubRefund g ts = Some ts' \<Longrightarrow> accounts ts' = accounts ts"
  by (auto simp: AddRefund_def SubRefund_def elim!: bind_eq_SomeE)

lemma gas_ok_SStore: "gas_ok 200 gasSStore"
  unfolding gas_ok_def
proof (intro allI impI)
  fix m e sz r m' e' assume g: "gasSStore m e sz = Some (r, m', e')"
  let ?a = "f_Account (c_frame (contract m))"
  obtain x y where xy: "Back (stack m) 1 = Some y" "Back (stack m) 0 = Some x"
    using g by (auto simp: gasSStore_def elim!: bind_eq_SomeE)
  obtain cur t where cur: "GetState (state e) ?a (uint x) = (cur, t)" by fastforce
  obtain orig u where orig: "get_committed_state t ?a (uint x) = (orig, u)" by fastforce
  note s1 = GetState_ok [OF cur] and s2 = get_committed_state_ok [OF orig]
  have 1: "journaled (state e) t" "dom (accounts (state e)) \<subseteq> dom (accounts t)" "keeps_code (state e) t"
    using s1 journaled_silent keeps_code_sim(1) by (auto simp del: domIff)
  have 2: "journaled (state e) u" "dom (accounts (state e)) \<subseteq> dom (accounts u)" "keeps_code (state e) u"
    using s2 1 journaled_silent journaled_trans keeps_code_sim(1) keeps_code_trans by (blast, simp, blast)
  have step: "journaled (state e) w" "dom (accounts (state e)) \<subseteq> dom (accounts w)" "keeps_code (state e) w"
    if "journaled u w" "accounts w = accounts u" "keeps_code u w" for w
    using that 2 journaled_trans keeps_code_trans by (blast, simp, blast)
  show "gas_frame m e m' e' \<and> (\<forall>cost. r = Inr cost \<longrightarrow> 200 \<le> unat cost)"
    using g xy cur orig 1 2
    by (auto simp: gasSStore_def GetCommittedState_def NetSstoreNoopGas_def NetSstoreInitGas_def
        NetSstoreCleanGas_def NetSstoreDirtyGas_def split: if_splits
        elim!: bind_eq_SomeE intro!: gas_frame_state step journaled_AddRefund
        intro: journaled_SubRefund journaled_trans [OF journaled_SubRefund journaled_AddRefund]
          journaled_trans [OF journaled_AddRefund journaled_AddRefund]
          keeps_code_rest keeps_code_trans [OF keeps_code_rest(4) keeps_code_rest(2)]
          keeps_code_trans [OF keeps_code_rest(2) keeps_code_rest(2)])
qed

lemma get_account_frame:
  "get_account x e = (a, e') \<Longrightarrow> gas_frame m e m e' \<and> a = Bytes20 x \<and> e' = e\<lparr>state := GetAccountConcrete a (state e)\<rparr> \<and>
     a \<in> dom (accounts (state e')) \<and> sim (state e) (state e') \<and>
     TransitionState.reverts (state e') = TransitionState.reverts (state e)"
proof -
  assume "get_account x e = (a, e')"
  then have "a = Bytes20 x" and e': "e' = e\<lparr>state := GetAccountConcrete a (state e)\<rparr>"
    by (auto simp: get_account_def upd_state_def)
  moreover have "sim (state e) (GetAccountConcrete a (state e))" "a \<in> dom (accounts (GetAccountConcrete a (state e)))"
    by (rule GetAccountConcrete_view(1), rule GetAccountConcrete_dom)
  ultimately show ?thesis
    using GetAccountConcrete_view(2) journaled_GetAccountConcrete keeps_code_sim(1) [OF GetAccountConcrete_view(1)]
    by (simp add: gas_frame_def sim_def del: domIff)
qed

lemma gas_ok_Suicide: "gas_ok 5000 gasSuicide"
  unfolding gas_ok_def
proof (intro allI impI)
  fix m e sz r m' e' assume g: "gasSuicide m e sz = Some (r, m', e')"
  from g obtain x suicided where x: "Back (stack m) 0 = Some x"
    by (auto simp: gasSuicide_def elim!: bind_eq_SomeE)
  obtain a e1 where a: "get_account x e = (a, e1)" by fastforce
  note load = get_account_frame [OF a, of m]
  have "e' = e1 \<or> e' = upd_state (AddRefund SuicideRefundGas) e1" "m' = m"
    using g x a by (auto simp: gasSuicide_def Let_def elim!: bind_eq_SomeE split: if_splits)
  then have "gas_frame m e m' e'"
    using load journaled_trans [OF _ journaled_AddRefund] keeps_code_trans [OF _ keeps_code_rest(2)]
    by (auto simp: gas_frame_def upd_state_def simp del: domIff)
  moreover have "5000 \<le> unat cost" if "r = Inr cost" for cost
    using that g x a by (auto simp: gasSuicide_def Let_def gas_table_def elim!: bind_eq_SomeE split: if_splits)
  ultimately show "gas_frame m e m' e' \<and> (\<forall>cost. r = Inr cost \<longrightarrow> 5000 \<le> unat cost)" by blast
qed

text \<open>A call pays for the gas it hands to the callee, beside its base cost.\<close>

lemma with_call_memory_spec:
  assumes "with_call_memory q base m e sz = Some (r, m', e')"
  shows "gas_frame m e m' e' \<and> state e' = state e \<and>
    (\<forall>cost. r = Inr cost \<longrightarrow> unat base + unat (call_gas_tmp e') \<le> unat cost \<and> sz \<le> 0xffffffffe0)"
proof -
  obtain z mm where z: "memoryGasCost (mem_pool e) (mem m) sz = (z, mm)" by fastforce
  have fr: "gas_frame m e (m\<lparr>mem := mm\<rparr>) (e\<lparr>call_gas_tmp := x\<rparr>)" for x
    using gas_frame_mem [OF memoryGasCost_mem [OF z], of e] by (simp add: gas_frame_def)
  from fr [of "call_gas_tmp e"] have fr0: "gas_frame m e (m\<lparr>mem := mm\<rparr>) e" by simp
  show ?thesis
  proof (cases z)
    case (Inl err)
    then show ?thesis using assms z fr0 by (auto simp: with_call_memory_def)
  next
    case (Inr g)
    have guard: "sz \<le> 0xffffffffe0" using memoryGasCost_guard z Inr by blast
    show ?thesis
    proof (cases "safe_add base g")
      case (Inl err)
      then show ?thesis using assms z fr0 \<open>z = Inr g\<close> by (auto simp: with_call_memory_def)
    next
      case (Inr h)
      then show ?thesis using assms z fr \<open>z = Inr g\<close> guard safe_add_Inr [OF Inr]
        by (auto simp: with_call_memory_def call_cost_def split: sum.splits dest!: safe_add_Inr)
    qed
  qed
qed

definition call_gas_ok :: "bool \<Rightarrow> gasFunc \<Rightarrow> bool" where
  "call_gas_ok has_value g \<longleftrightarrow>
     (\<forall>m e sz r m' e'. g m e sz = Some (r, m', e') \<longrightarrow>
        gas_frame m e m' e' \<and> sim (state e) (state e') \<and>
        TransitionState.reverts (state e') = TransitionState.reverts (state e) \<and>
        (\<forall>cost. r = Inr cost \<longrightarrow> sz \<le> 0xffffffffe0 \<and>
           700 + (if has_value \<and> stack m ! 2 \<noteq> 0 then 9000 else 0) + unat (call_gas_tmp e') \<le> unat cost))"

lemma call_gas_functions:
  "call_gas_ok True gasCallCode" "call_gas_ok False gasDelegateCall" "call_gas_ok False gasStaticCall"
  by (auto simp: call_gas_ok_def gasCallCode_def gasDelegateCall_def gasStaticCall_def gas_table_def
      CallValueTransferGas_def Back_def elim!: bind_eq_SomeE dest!: with_call_memory_spec split: if_splits)

lemma call_gas_Call: "call_gas_ok True gasCall"
  unfolding call_gas_ok_def
proof (intro allI impI)
  fix m e sz r m' e' assume g: "gasCall m e sz = Some (r, m', e')"
  then obtain v x q where bk: "Back (stack m) 2 = Some v" "Back (stack m) 1 = Some x" "Back (stack m) 0 = Some q"
    by (auto simp: gasCall_def elim!: bind_eq_SomeE)
  obtain a e1 where a: "get_account x e = (a, e1)" by fastforce
  note load = get_account_frame [OF a, of m]
  let ?g1 = "if v \<noteq> 0 \<and> IsEIP161Empty (state e1) a then gt_Calls gas_table + CallNewAccountGas else gt_Calls gas_table"
  let ?g = "if v \<noteq> 0 then ?g1 + CallValueTransferGas else ?g1"
  have w: "with_call_memory q ?g m e1 sz = Some (r, m', e')"
    using g bk a by (auto simp: gasCall_def Let_def)
  note spec = with_call_memory_spec [OF w]
  have base: "700 + (if stack m ! 2 \<noteq> 0 then 9000 else 0) \<le> unat ?g"
    using bk by (auto simp: Back_def gas_table_def CallNewAccountGas_def CallValueTransferGas_def split: if_splits)
  have "gas_frame m e m' e'"
    using load spec by (auto simp: gas_frame_def simp del: domIff)
  then show "gas_frame m e m' e' \<and> sim (state e) (state e') \<and>
        TransitionState.reverts (state e') = TransitionState.reverts (state e) \<and>
        (\<forall>cost. r = Inr cost \<longrightarrow> sz \<le> 0xffffffffe0 \<and>
           700 + (if True \<and> stack m ! 2 \<noteq> 0 then 9000 else 0) + unat (call_gas_tmp e') \<le> unat cost)"
    using spec base load by fastforce
qed

end
