(* ===== verification/Evm_Op_Spec.thy ===== *)
theory Evm_Op_Spec
  imports Evm_Gas_Spec
begin

text \<open>
  What the interpreter relies on in an instruction that does not call other contracts: how it
  changes the height of the stack, that it keeps the call frame, the depth and the read-only flag,
  touches the memory of its own frame only, and records every change of the state in the journal.
  An instruction that the table does not mark as writing leaves the view of the state alone.
\<close>

definition op_keeps :: "machine \<Rightarrow> evm \<Rightarrow> machine \<Rightarrow> evm \<Rightarrow> bool" where
  "op_keeps m e m' e' \<longleftrightarrow>
     c_frame (contract m') = c_frame (contract m) \<and> depth e' = depth e \<and> read_only e' = read_only e \<and>
     dom (accounts (state e)) \<subseteq> dom (accounts (state e')) \<and>
     (mem_ok (mem_pool e) (mem m) \<longrightarrow> mem_step (mem_pool e) (mem m) (mem_pool e') (mem m'))"

definition simple_ok :: "nat \<Rightarrow> nat \<Rightarrow> simple_op \<Rightarrow> bool" where
  "simple_ok pops pushes f \<longleftrightarrow>
     (\<forall>env m e res err m' e'. f env m e = Some ((res, err), m', e') \<longrightarrow>
        op_keeps m e m' e' \<and>
        (err = None \<longrightarrow> length (stack m') + pops = length (stack m) + pushes) \<and>
        keeps_code (state e) (state e') \<and>
        (f_Account (c_frame (contract m)) \<in> dom (accounts (state e)) \<longrightarrow> journaled (state e) (state e')))"

text \<open>The state as a contract sees it, with the transient storage.\<close>

definition same_view :: "TransitionState \<Rightarrow> TransitionState \<Rightarrow> bool" where
  "same_view ts t \<longleftrightarrow> sim ts t \<and> transient_map t = transient_map ts"

definition simple_pure :: "simple_op \<Rightarrow> bool" where
  "simple_pure f \<longleftrightarrow>
     (\<forall>env m e r m' e'. read_only e \<longrightarrow> f env m e = Some (r, m', e') \<longrightarrow> same_view (state e) (state e'))"

lemma same_view_refl [simp]: "same_view ts ts"
  by (simp add: same_view_def)

lemma same_view_trans [trans]: "same_view a b \<Longrightarrow> same_view b c \<Longrightarrow> same_view a c"
  unfolding same_view_def using sim_trans by metis

lemma op_keeps_stack: "op_keeps m e (m\<lparr>stack := st, pc := p\<rparr>) e" "op_keeps m e (m\<lparr>stack := st\<rparr>) e"
  "op_keeps m e (m\<lparr>pc := p\<rparr>) e" "op_keeps m e m e"
  by (simp_all add: op_keeps_def)

lemma op_keeps_state:
  "dom (accounts (state e)) \<subseteq> dom (accounts ts) \<Longrightarrow> op_keeps m e (m\<lparr>stack := st\<rparr>) (e\<lparr>state := ts\<rparr>)"
  by (simp add: op_keeps_def)

lemma simple_okI:
  assumes "\<And>env m e res err m' e'. f env m e = Some ((res, err), m', e') \<Longrightarrow> op_keeps m e m' e'"
    and "\<And>env m e res m' e'. f env m e = Some ((res, None), m', e') \<Longrightarrow>
      length (stack m') + pops = length (stack m) + pushes"
    and "\<And>env m e r m' e'. f env m e = Some (r, m', e') \<Longrightarrow> keeps_code (state e) (state e')"
    and "\<And>env m e r m' e'. f env m e = Some (r, m', e') \<Longrightarrow>
      f_Account (c_frame (contract m)) \<in> dom (accounts (state e)) \<Longrightarrow> journaled (state e) (state e')"
  shows "simple_ok pops pushes f"
  unfolding simple_ok_def by (intro allI impI conjI) (erule assms, simp add: assms(2), erule assms, erule (1) assms)

text \<open>Instructions on the stack alone.\<close>

lemma pop_Some: "pop st = Some (x, st') \<longleftrightarrow> st = x # st'"
  by (cases st) (auto simp: pop_def)

lemma peek_Some: "peek st = Some x \<longleftrightarrow> (\<exists>st'. st = x # st')"
  by (cases st) (auto simp: peek_def Back_def)

lemma pop3_Some: "pop3 st = Some ((x, y, z), st') \<longleftrightarrow> st = x # y # z # st'"
  by (auto simp: pop3_def bind_eq_Some_conv pop_Some)

lemmas stack_simps = pop_Some peek_Some pop3_Some set_top_def push_def ok_def fail_def

definition stack_only :: "nat \<Rightarrow> nat \<Rightarrow> simple_op \<Rightarrow> bool" where
  "stack_only pops pushes f \<longleftrightarrow>
     (\<forall>env m e r m' e'. f env m e = Some (r, m', e') \<longrightarrow>
        e' = e \<and> m' = m\<lparr>stack := stack m', pc := pc m'\<rparr> \<and> length (stack m') + pops = length (stack m) + pushes)"

lemma stack_only_ok: "stack_only pops pushes f \<Longrightarrow> simple_ok pops pushes f"
  unfolding stack_only_def
  by (intro simple_okI) (metis op_keeps_stack(1), blast, metis keeps_code_refl, metis journaled_refl)

lemma stack_only_pure: "stack_only pops pushes f \<Longrightarrow> simple_pure f"
  unfolding stack_only_def simple_pure_def by fastforce

lemma stack_only_combinators:
  "stack_only 1 1 (unop f)" "stack_only 2 1 (binop g)" "stack_only 3 1 (ternop h)" "stack_only 0 1 (push_op k)"
  "stack_only 2 1 (\<lambda>env. binop (g' env) env)" "stack_only 3 1 (\<lambda>env. ternop (h' env) env)"
  by (auto simp: stack_only_def unop_def binop_def ternop_def push_op_def stack_simps elim!: bind_eq_SomeE)

lemma stack_only_ops:
  "stack_only 2 1 opAdd" "stack_only 2 1 opSub" "stack_only 2 1 opMul" "stack_only 2 1 opDiv" "stack_only 2 1 opSdiv"
  "stack_only 2 1 opMod" "stack_only 2 1 opSmod" "stack_only 2 1 opExp" "stack_only 2 1 opSignExtend"
  "stack_only 1 1 opNot" "stack_only 2 1 opLt" "stack_only 2 1 opGt" "stack_only 2 1 opSlt" "stack_only 2 1 opSgt"
  "stack_only 2 1 opEq" "stack_only 1 1 opIszero" "stack_only 2 1 opAnd" "stack_only 2 1 opOr" "stack_only 2 1 opXor"
  "stack_only 2 1 opByte" "stack_only 3 1 opAddmod" "stack_only 3 1 opMulmod" "stack_only 2 1 opSHL"
  "stack_only 2 1 opSHR" "stack_only 2 1 opSAR"
  "stack_only 0 1 opAddress" "stack_only 0 1 opCaller" "stack_only 0 1 opCallValue" "stack_only 0 1 opCallDataSize"
  "stack_only 0 1 opReturnDataSize" "stack_only 0 1 opCodeSize" "stack_only 0 1 opCoinbase" "stack_only 0 1 opTimestamp"
  "stack_only 0 1 opNumber" "stack_only 0 1 opDifficulty" "stack_only 0 1 opGasLimit" "stack_only 0 1 opChainID"
  "stack_only 0 1 opPush0" "stack_only 0 1 opPc" "stack_only 0 1 opMsize" "stack_only 0 1 opGas"
  unfolding opAdd_def opSub_def opMul_def opDiv_def [abs_def] opSdiv_def [abs_def] opMod_def [abs_def] opSmod_def [abs_def]
    opExp_def [abs_def] opSignExtend_def [abs_def] opNot_def opLt_def opGt_def opSlt_def opSgt_def opEq_def
    opIszero_def opAnd_def opOr_def opXor_def opByte_def [abs_def] opAddmod_def [abs_def] opMulmod_def [abs_def]
    opSHL_def opSHR_def opSAR_def [abs_def] opAddress_def opCaller_def opCallValue_def opCallDataSize_def
    opReturnDataSize_def opCodeSize_def opCoinbase_def opTimestamp_def opNumber_def opDifficulty_def opGasLimit_def
    opChainID_def opPush0_def opPc_def opMsize_def opGas_def
  by (rule stack_only_combinators)+

lemma stack_only_rest:
  "stack_only 0 1 opOrigin" "stack_only 1 1 opCallDataLoad" "stack_only 0 1 opGasprice" "stack_only 1 1 opBlockhash"
  "stack_only 1 0 opPop" "stack_only 1 1 opMload" "stack_only 2 1 opKeccak256" "stack_only 0 0 opJumpdest"
  "stack_only 2 0 opReturn" "stack_only 2 0 opRevert" "stack_only 0 0 opStop" "stack_only 0 1 (makePush s k)"
  "stack_only 0 1 (makeDup n)" "stack_only 0 0 (makeSwap n)"
  by (auto simp: stack_only_def opOrigin_def opCallDataLoad_def opGasprice_def opBlockhash_def opPop_def opMload_def
      opKeccak256_def opJumpdest_def opReturn_def opRevert_def opStop_def makePush_def makeDup_def makeSwap_def
      dup_def swap_def Let_def stack_simps split: prod.splits if_splits elim!: bind_eq_SomeE)


section \<open>Memory\<close>

lemma op_keeps_trans: "op_keeps a b c d \<Longrightarrow> op_keeps c d x y \<Longrightarrow> op_keeps a b x y"
  unfolding op_keeps_def mem_step_def by (auto simp del: domIff intro: same_below_trans)

lemma mem_set_keeps:
  assumes "mem_set off sz v m e = Some (m', e')"
  shows "op_keeps m e m' e' \<and> stack m' = stack m \<and> state e' = state e"
  using assms Memory_Set_step [of "mem_pool e" "mem m"]
  by (auto simp: mem_set_def op_keeps_def elim!: bind_eq_SomeE)

lemma op_keeps_restack [simp]:
  "op_keeps (m\<lparr>stack := st\<rparr>) e m' e' \<longleftrightarrow> op_keeps m e m' e'"
  "op_keeps m e (m'\<lparr>stack := st\<rparr>) e' \<longleftrightarrow> op_keeps m e m' e'"
  "op_keeps m e (m'\<lparr>pc := p\<rparr>) e' \<longleftrightarrow> op_keeps m e m' e'"
  by (simp_all add: op_keeps_def)

definition memory_op :: "nat \<Rightarrow> nat \<Rightarrow> simple_op \<Rightarrow> bool" where
  "memory_op pops pushes f \<longleftrightarrow>
     (\<forall>env m e res err m' e'. f env m e = Some ((res, err), m', e') \<longrightarrow>
        op_keeps m e m' e' \<and> (err = None \<longrightarrow> length (stack m') + pops = length (stack m) + pushes) \<and>
        sim (state e) (state e') \<and> transient_map (state e') = transient_map (state e) \<and>
        TransitionState.reverts (state e') = TransitionState.reverts (state e))"

lemma memory_op_ok: "memory_op pops pushes f \<Longrightarrow> simple_ok pops pushes f"
  unfolding memory_op_def by (intro simple_okI) (blast, blast, metis keeps_code_sim(1) prod.collapse, metis journaled_silent prod.collapse)

lemma memory_op_pure: "memory_op pops pushes f \<Longrightarrow> simple_pure f"
  unfolding memory_op_def simple_pure_def same_view_def by (metis prod.collapse)

lemma memory_ops:
  "memory_op 3 0 opCallDataCopy" "memory_op 3 0 opReturnDataCopy" "memory_op 3 0 opCodeCopy"
  by (auto simp: memory_op_def opCallDataCopy_def opReturnDataCopy_def opCodeCopy_def Let_def stack_simps
      op_keeps_stack elim!: bind_eq_SomeE dest!: mem_set_keeps split: prod.splits if_splits)

lemma memory_ops_direct:
  "memory_op 2 0 opMstore" "memory_op 2 0 opMstore8" "memory_op 3 0 opMcopy"
  by (auto simp: memory_op_def opMstore_def opMstore8_def opMcopy_def stack_simps op_keeps_def
      elim!: bind_eq_SomeE intro: Set32_step store_byte_step Memory_Copy_step)

section \<open>Reading the state\<close>

lemma get_account_op:
  assumes "get_account x e = (a, e')"
  shows "(\<forall>m. op_keeps m e m e') \<and> sim (state e) (state e') \<and> transient_map (state e') = transient_map (state e) \<and>
    TransitionState.reverts (state e') = TransitionState.reverts (state e) \<and> a \<in> dom (accounts (state e'))"
proof -
  have e': "e' = e\<lparr>state := GetAccountConcrete a (state e)\<rparr>" and s: "sim (state e) (state e')"
    and r: "TransitionState.reverts (state e') = TransitionState.reverts (state e)"
    and d: "a \<in> dom (accounts (state e'))"
    using get_account_frame [OF assms] by blast+
  have "\<forall>m. op_keeps m e m e'" using s by (simp add: op_keeps_def sim_def e')
  moreover have "transient_map (state e') = transient_map (state e)"
    by (simp add: e' transient_map_def GetAccountConcrete_def Let_def)
  ultimately show ?thesis using s r d by blast
qed

lemma transient_upd_body [simp]: "transient_map (upd_body a f ts) = transient_map ts"
  by (simp add: transient_map_def)

lemma committed_transient: "get_committed_state ts a k = (v, ts') \<Longrightarrow> transient_map ts' = transient_map ts"
  by (auto simp: get_committed_state_def Let_def split: option.splits if_splits)

lemma GetState_transient: "GetState ts a k = (v, ts') \<Longrightarrow> transient_map ts' = transient_map ts"
  by (auto simp: GetState_def split: option.splits dest: committed_transient)

lemma GetCode_transient: "GetCode ts a = Some (c, ts') \<Longrightarrow> transient_map ts' = transient_map ts"
  by (auto simp: GetCode_def Let_def split: option.splits if_splits)

lemma reading_ops:
  "memory_op 1 1 opBalance" "memory_op 1 1 opExtCodeSize" "memory_op 1 1 opExtCodeHash"
  by (auto simp: memory_op_def opBalance_def opExtCodeSize_def opExtCodeHash_def stack_simps
      elim!: bind_eq_SomeE dest!: get_account_op split: prod.splits)

lemma opSelfBalance_op: "memory_op 0 1 opSelfBalance"
proof -
  have "sim ts (GetAccountConcrete a ts)" "dom (accounts ts) \<subseteq> dom (accounts (GetAccountConcrete a ts))"
    "transient_map (GetAccountConcrete a ts) = transient_map ts"
    "TransitionState.reverts (GetAccountConcrete a ts) = TransitionState.reverts ts" for ts a
    using GetAccountConcrete_view [where ts = ts and a = a]
    by (simp_all add: sim_def) (simp add: transient_map_def GetAccountConcrete_def Let_def)
  then show ?thesis
    by (simp add: memory_op_def opSelfBalance_def upd_state_def stack_simps Let_def op_keeps_def)
qed

lemma opSload_op: "memory_op 1 1 opSload"
proof -
  have "op_keeps m e (m\<lparr>stack := st\<rparr>) (e\<lparr>state := ts\<rparr>) \<and> sim (state e) ts \<and>
      transient_map ts = transient_map (state e) \<and> TransitionState.reverts ts = TransitionState.reverts (state e)"
    if "GetState (state e) a k = (v, ts)" for m e st ts a k v
    using GetState_ok [OF that] GetState_transient [OF that] by (simp add: op_keeps_def)
  then show ?thesis
    by (auto simp: memory_op_def opSload_def stack_simps elim!: bind_eq_SomeE split: prod.splits)
qed

lemma opTload_op: "memory_op 1 1 opTload"
proof -
  have "op_keeps m e (m\<lparr>stack := st\<rparr>) (e\<lparr>state := ts\<rparr>) \<and> sim (state e) ts \<and>
      transient_map ts = transient_map (state e) \<and> TransitionState.reverts ts = TransitionState.reverts (state e)"
    if "GetTransientState a k (state e) = (v, ts)" for m e st ts a k v
    using that by (auto simp: GetTransientState_def Let_def initTransientState_def op_keeps_def sim_def
        transient_map_def split: if_splits)
  then show ?thesis
    by (auto simp: memory_op_def opTload_def stack_simps elim!: bind_eq_SomeE split: prod.splits)
qed

lemma opExtCodeCopy_op: "memory_op 4 0 opExtCodeCopy"
  unfolding memory_op_def
proof (intro allI impI)
  fix env m e res err m' e' assume r: "opExtCodeCopy env m e = Some ((res, err), m', e')"
  then obtain addr off coff len st a e1 code ts data e2 m2 where s: "stack m = addr # off # coff # len # st"
    and a: "get_account addr e = (a, e1)" and c: "GetCode (state e1) a = Some (code, ts)"
    and w: "mem_set off len data (m\<lparr>stack := st\<rparr>) (e1\<lparr>state := ts\<rparr>) = Some (m', e')"
    by (auto simp: opExtCodeCopy_def stack_simps elim!: bind_eq_SomeE split: prod.splits)
  note g = get_account_op [OF a] and k = GetCode_ok [OF c] and t = GetCode_transient [OF c]
    and mm = mem_set_keeps [OF w]
  have "op_keeps m e1 m (e1\<lparr>state := ts\<rparr>)" using k by (simp add: op_keeps_def)
  moreover have "op_keeps m (e1\<lparr>state := ts\<rparr>) m' e'" using mm by simp
  ultimately have "op_keeps m e m' e'" using g op_keeps_trans by blast
  then show "op_keeps m e m' e' \<and> (err = None \<longrightarrow> length (stack m') + 4 = length (stack m) + 0) \<and>
        sim (state e) (state e') \<and> transient_map (state e') = transient_map (state e) \<and>
        TransitionState.reverts (state e') = TransitionState.reverts (state e)"
    using g k t mm s sim_trans by (simp, metis)
qed


section \<open>Jumps\<close>

lemma analyze_jumpdests_keeps:
  "analyze_jumpdests code h e = Some (r, e') \<Longrightarrow> e' = e\<lparr>jumpdests := jumpdests e'\<rparr>"
  by (auto simp: analyze_jumpdests_def Let_def elim!: bind_eq_SomeE split: option.splits)

lemma ValidJumpdest_keeps:
  assumes "ValidJumpdest d c e = Some (v, c', e')"
  shows "c_frame c' = c_frame c \<and> e' = e\<lparr>jumpdests := jumpdests e'\<rparr>"
  using assms
  by (auto simp: ValidJumpdest_def split: prod.splits option.splits if_splits elim!: bind_eq_SomeE
      dest: analyze_jumpdests_keeps)

lemma jump_to_keeps:
  assumes "jump_to pos m e = Some ((res, err), m', e')"
  shows "op_keeps m e m' e' \<and> stack m' = stack m \<and> state e' = state e"
proof -
  obtain v c e1 where j: "ValidJumpdest pos (contract m) e = Some (v, c, e1)"
    using assms by (auto simp: jump_to_def elim!: bind_eq_SomeE)
  have "e' = e1" "c_frame (contract m') = c_frame c" "stack m' = stack m" "mem m' = mem m"
    using assms j by (auto simp: jump_to_def Let_def stack_simps split: if_splits)
  moreover have "c_frame c = c_frame (contract m)" "depth e1 = depth e" "read_only e1 = read_only e"
    "state e1 = state e" "mem_pool e1 = mem_pool e"
    using ValidJumpdest_keeps [OF j] by (metis evm.select_convs evm.update_convs evm.surjective)+
  ultimately show ?thesis by (simp add: op_keeps_def)
qed

lemma jump_ops: "memory_op 1 0 opJump" "memory_op 2 0 opJumpi"
  by (auto simp: memory_op_def opJump_def opJumpi_def Let_def stack_simps op_keeps_stack
      elim!: bind_eq_SomeE dest!: jump_to_keeps split: if_splits)

section \<open>Writing the state\<close>

lemma SetState_dom: "dom (accounts (SetState a k v ts)) = dom (accounts ts)"
proof -
  obtain p t where g: "GetState (ensure_exists a ts) a k = (p, t)" by fastforce
  have "dom (accounts t) = dom (accounts ts)" using GetState_ok [OF g] by simp
  then show ?thesis using g by (simp add: SetState_def Let_def change_simps)
qed

lemma Suicide_dom: "dom (accounts ts) \<subseteq> dom (accounts (Suicide a c ts))"
proof -
  have "dom (accounts ts) \<subseteq> dom (accounts (GetAccountConcrete c ts))"
    using GetAccountConcrete_view(1) [of ts c] by (simp add: sim_def)
  then show ?thesis by (simp add: Suicide_def Let_def change_simps split: option.splits)
qed

lemma transient_dom: "accounts (SetTransientState a k v ts) = accounts ts"
  by (auto simp: SetTransientState_def GetTransientState_def initTransientState_def setTransientState_def Let_def)

lemma write_present:
  "accounts ts x = Some y \<Longrightarrow> \<exists>y. accounts (SetState a k v ts) x = Some y"
  "accounts ts x = Some y \<Longrightarrow> \<exists>y. accounts (Suicide a c ts) x = Some y"
  using SetState_dom [of a k v ts] Suicide_dom [of ts a c] by (blast, blast)

lemma upd_state_simps [simp]:
  "state (upd_state f e) = f (state e)" "mem_pool (upd_state f e) = mem_pool e" "depth (upd_state f e) = depth e"
  "read_only (upd_state f e) = read_only e"
  by (simp_all add: upd_state_def)

lemma write_ops:
  "simple_ok 2 0 opSstore" "simple_ok 2 0 opTstore" "simple_ok 1 0 opSuicide"
  by (auto simp: simple_ok_def opSstore_def opTstore_def opSuicide_def stack_simps op_keeps_def SetState_dom
      transient_dom elim!: bind_eq_SomeE split: if_splits
      intro!: journaled_SetState journaled_SetTransientState journaled_Suicide write_present
        keeps_code_SetState keeps_code_rest(3) keeps_code_Suicide)

lemma opTstore_pure: "simple_pure opTstore"
  by (simp add: simple_pure_def opTstore_def fail_def)

lemma pop_topics_length: "pop_topics n st = Some (ts, st') \<Longrightarrow> length st' + n = length st"
  by (induction n arbitrary: st ts) (fastforce simp: pop_Some elim!: bind_eq_SomeE)+

lemma AddLog_dom: "accounts (AddLog l ts) = accounts ts"
  by (simp add: AddLog_def Let_def)

lemma makeLog_ok: "simple_ok (n + 2) 0 (makeLog n)"
  by (auto simp: simple_ok_def makeLog_def stack_simps AddLog_dom op_keeps_def journaled_AddLog keeps_code_rest
      elim!: bind_eq_SomeE dest: pop_topics_length)

end
