(* ===== verification/Evm_Table_Spec.thy ===== *)
theory Evm_Table_Spec
  imports Evm_Op_Spec
begin

text \<open>
  The entries of the instruction table satisfy the contracts of the two preceding theories: an
  entry is either plain (its instruction calls nobody) or one of the six that call and create.
\<close>

definition op_plain :: "operation \<Rightarrow> bool" where
  "op_plain op \<longleftrightarrow>
     (\<exists>pops pushes f lb. execute op = simple f \<and> validateStack op = makeStackFunc pops pushes \<and>
        simple_ok pops pushes f \<and> gas_ok lb (gasCost op) \<and>
        (1 \<le> lb \<or> op_halts op \<or> op_reverts op) \<and>
        (memorySize op = None \<or> gas_guards (gasCost op)) \<and>
        (op_writes op \<or> simple_pure f \<and> gas_pure (gasCost op)))"

lemma op_plainI:
  assumes "execute op = simple f" "validateStack op = makeStackFunc p q" "simple_ok p q f" "gas_ok lb (gasCost op)"
    "1 \<le> lb \<or> op_halts op \<or> op_reverts op" "memorySize op = None \<or> gas_guards (gasCost op)"
    "op_writes op \<or> simple_pure f \<and> gas_pure (gasCost op)"
  shows "op_plain op"
  unfolding op_plain_def using assms by blast

lemma plain_const:
  assumes "simple_ok p q f" "simple_pure f" "c \<noteq> 0"
  shows "op_plain (mk_op (simple f) (constGasFunc c) (makeStackFunc p q))"
    "op_plain ((mk_op (simple f) (constGasFunc c) (makeStackFunc p q))\<lparr>op_jumps := True\<rparr>)"
  using assms const_gas [of c]
  by (auto simp: mk_op_def unat_gt_0 Suc_le_eq intro!: op_plainI [of _ f p q "unat c"])

lemma plain_gas:
  assumes "simple_ok p q f" "simple_pure f" "gas_ok lb g" "gas_pure g" "1 \<le> lb"
  shows "op_plain (mk_op (simple f) g (makeStackFunc p q))"
  using assms by (auto simp: mk_op_def intro!: op_plainI [of _ f p q lb])

lemma plain_mem:
  assumes "simple_ok p q f" "simple_pure f" "gas_memory lb g" "1 \<le> lb"
  shows "op_plain ((mk_op (simple f) g (makeStackFunc p q))\<lparr>memorySize := Some ms\<rparr>)"
  using assms by (auto simp: mk_op_def gas_memory_def intro!: op_plainI [of _ f p q lb])

lemma plain_halt:
  assumes "simple_ok p q f" "simple_pure f" "gas_memory lb g"
  shows "op_plain ((mk_op (simple f) g (makeStackFunc p q))\<lparr>memorySize := Some ms, op_halts := True\<rparr>)"
    "op_plain ((mk_op (simple f) g (makeStackFunc p q))\<lparr>memorySize := Some ms, op_reverts := True, op_returns := True\<rparr>)"
  using assms by (auto simp: mk_op_def gas_memory_def intro!: op_plainI [of _ f p q lb])

lemma plain_stop:
  assumes "simple_ok p q f" "simple_pure f"
  shows "op_plain ((mk_op (simple f) (constGasFunc c) (makeStackFunc p q))\<lparr>op_halts := True\<rparr>)"
  using assms const_gas [of c] by (auto simp: mk_op_def intro!: op_plainI [of _ f p q "unat c"])

lemma plain_write:
  assumes "simple_ok p q f" "gas_ok lb g" "1 \<le> lb"
  shows "op_plain ((mk_op (simple f) g (makeStackFunc p q))\<lparr>op_writes := True\<rparr>)"
    "op_plain ((mk_op (simple f) g (makeStackFunc p q))\<lparr>op_halts := True, op_writes := True\<rparr>)"
    "gas_guards g \<Longrightarrow>
       op_plain ((mk_op (simple f) g (makeStackFunc p q))\<lparr>memorySize := Some ms, op_writes := True\<rparr>)"
  using assms by (auto simp: mk_op_def intro!: op_plainI [of _ f p q lb])

lemma simple_ok_shift: "simple_ok p q f \<Longrightarrow> simple_ok (p + k) (q + k) f"
  by (auto simp: simple_ok_def)

lemmas simple_ok_rules =
  stack_only_ops [THEN stack_only_ok] stack_only_rest [THEN stack_only_ok]
  memory_ops [THEN memory_op_ok] memory_ops_direct [THEN memory_op_ok] reading_ops [THEN memory_op_ok]
  opSelfBalance_op [THEN memory_op_ok] opSload_op [THEN memory_op_ok] opTload_op [THEN memory_op_ok]
  opExtCodeCopy_op [THEN memory_op_ok] jump_ops [THEN memory_op_ok] write_ops

lemmas simple_pure_rules =
  stack_only_ops [THEN stack_only_pure] stack_only_rest [THEN stack_only_pure]
  memory_ops [THEN memory_op_pure] memory_ops_direct [THEN memory_op_pure] reading_ops [THEN memory_op_pure]
  opSelfBalance_op [THEN memory_op_pure] opSload_op [THEN memory_op_pure] opTload_op [THEN memory_op_pure]
  opExtCodeCopy_op [THEN memory_op_pure] jump_ops [THEN memory_op_pure] opTstore_pure

lemmas gas_consts = GasQuickStep_def GasFastestStep_def GasFastStep_def GasMidStep_def GasSlowStep_def
  GasExtStep_def JumpdestGas_def

text \<open>The six entries with calls.\<close>

definition op_call_entry :: "byte \<Rightarrow> operation \<Rightarrow> bool" where
  "op_call_entry b op \<longleftrightarrow>
     b = CALL \<and> op = (mk_op opCall gasCall (makeStackFunc 7 1))\<lparr>memorySize := Some memoryCall, op_returns := True\<rparr> \<or>
     op = (mk_op opCallCode gasCallCode (makeStackFunc 7 1))\<lparr>memorySize := Some memoryCall, op_returns := True\<rparr> \<or>
     op = (mk_op opDelegateCall gasDelegateCall (makeStackFunc 6 1))\<lparr>memorySize := Some memoryDelegateCall, op_returns := True\<rparr> \<or>
     op = (mk_op opStaticCall gasStaticCall (makeStackFunc 6 1))\<lparr>memorySize := Some memoryStaticCall, op_returns := True\<rparr> \<or>
     op = (mk_op opCreate gasCreate (makeStackFunc 3 1))\<lparr>memorySize := Some memoryCreate, op_writes := True, op_returns := True\<rparr> \<or>
     op = (mk_op opCreate2 gasCreate2 (makeStackFunc 4 1))\<lparr>memorySize := Some memoryCreate2, op_writes := True, op_returns := True\<rparr>"

definition entry_ok :: "byte \<times> operation \<Rightarrow> bool" where
  "entry_ok = (\<lambda>(b, op). op_plain op \<or> op_call_entry b op)"

lemma entry_plain: "op_plain op \<Longrightarrow> entry_ok (b, op)"
  by (simp add: entry_ok_def)

lemma plain_const_entry:
  "simple_ok p q f \<Longrightarrow> simple_pure f \<Longrightarrow> c \<noteq> 0 \<Longrightarrow>
     entry_ok (b, mk_op (simple f) (constGasFunc c) (makeStackFunc p q))"
  by (simp add: entry_plain plain_const)

lemma entries_Nil: "list_all entry_ok []" and entries_Cons: "entry_ok x \<Longrightarrow> list_all entry_ok xs \<Longrightarrow> list_all entry_ok (x # xs)"
  by simp_all

lemmas plain_entries =
  plain_const [THEN entry_plain] plain_stop [THEN entry_plain] plain_halt [THEN entry_plain]
  plain_write [THEN entry_plain] plain_gas [THEN entry_plain] plain_mem [THEN entry_plain]

lemma gas_memory_ok: "gas_memory lb g \<Longrightarrow> gas_ok lb g" "gas_memory lb g \<Longrightarrow> gas_guards g"
  by (simp_all add: gas_memory_def)

lemmas entry_rules = entries_Nil entries_Cons plain_entries simple_ok_rules simple_pure_rules
  constant_gas_functions constant_gas_pure memory_gas_functions gas_ok_SStore gas_ok_Suicide
  call_gas_functions

lemma jt_block_ok: "list_all entry_ok jt_block"
  unfolding jt_block_def by ((rule entry_rules | simp add: gas_consts)+)

lemma jt_arithmetic_ok: "list_all entry_ok jt_arithmetic"
  unfolding jt_arithmetic_def by ((rule entry_rules | simp add: gas_consts)+)

lemma jt_comparison_ok: "list_all entry_ok jt_comparison"
  unfolding jt_comparison_def by ((rule entry_rules | simp add: gas_consts)+)

lemma jt_environment_ok: "list_all entry_ok jt_environment"
  unfolding jt_environment_def by ((rule entry_rules | simp add: gas_consts)+)

lemma jt_flow_ok: "list_all entry_ok jt_flow"
  unfolding jt_flow_def by ((rule entry_rules | simp add: gas_consts)+)

lemma jt_push_ok: "list_all entry_ok jt_push"
  by (auto simp: jt_push_def list_all_iff simp del: One_nat_def intro!: entry_plain plain_gas [where lb = 3]
      stack_only_rest [THEN stack_only_ok] stack_only_rest [THEN stack_only_pure] constant_gas_functions constant_gas_pure)

lemma jt_dup_ok: "list_all entry_ok jt_dup"
  using simple_ok_shift [OF stack_only_ok [OF stack_only_rest(13)]]
  by (auto simp: jt_dup_def makeDupStackFunc_def list_all_iff intro!: entry_plain plain_gas [where lb = 3]
      stack_only_rest [THEN stack_only_pure] constant_gas_functions constant_gas_pure)

lemma jt_swap_ok: "list_all entry_ok jt_swap"
  using simple_ok_shift [OF stack_only_ok [OF stack_only_rest(14)]]
  by (auto simp: jt_swap_def makeSwapStackFunc_def list_all_iff intro!: entry_plain plain_gas [where lb = 3]
      stack_only_rest [THEN stack_only_pure] constant_gas_functions constant_gas_pure)

lemma log_entry:
  assumes "p = n + 2"
  shows "entry_ok (b, (mk_op (simple (makeLog n)) (makeGasLog k) (makeStackFunc p 0))\<lparr>memorySize := Some ms, op_writes := True\<rparr>)"
  using makeLog_ok [of n] gas_memory_log [of k] by (auto intro!: entry_plain plain_write simp: gas_memory_def assms)

lemma jt_log_ok: "list_all entry_ok jt_log"
  unfolding jt_log_def by (intro entries_Nil entries_Cons log_entry) simp_all

lemma jt_byzantium_ok: "list_all entry_ok jt_byzantium"
  unfolding jt_byzantium_def
  by ((rule entry_rules | simp add: gas_consts | simp add: entry_ok_def op_call_entry_def)+)

lemma jt_system_ok: "list_all entry_ok jt_system"
  unfolding jt_system_def
  by ((rule entry_rules | simp add: entry_ok_def op_call_entry_def CALL_def)+)

lemma jt_mcopy_ok: "list_all entry_ok jt_mcopy"
  unfolding jt_mcopy_def by ((rule entry_rules | simp)+)

lemmas jt_ok = jt_byzantium_ok jt_arithmetic_ok jt_comparison_ok jt_environment_ok jt_block_ok jt_flow_ok
  jt_push_ok jt_dup_ok jt_swap_ok jt_log_ok jt_system_ok jt_mcopy_ok

lemma instruction_entry:
  assumes "eblaInstructionSet b = Some op"
  shows "op_plain op \<or> op_call_entry b op"
proof -
  have "list_all entry_ok instruction_list"
    unfolding instruction_list_def list_all_append by (intro conjI jt_ok)
  moreover have "(b, op) \<in> set instruction_list"
    using assms by (simp add: eblaInstructionSet_def map_of_SomeD)
  ultimately show ?thesis by (auto simp: list_all_iff entry_ok_def)
qed

end
