(* ===== verification/Evm_Example.thy ===== *)
theory Evm_Example
  imports Evm_Interpreter
begin

text \<open>
  A small concrete world for examples: account 1 has funds, the contract at \<open>0x1000\<close> has the given
  code, and the memory pool is empty and has room for 64 bytes.
\<close>

definition ex_u256 :: uint256_ops where
  "ex_u256 = \<lparr>u_Div = (div), u_SDiv = (div), u_Mod = (mod), u_SMod = (mod), u_Exp = (\<lambda>x y. x ^ unat y),
     u_ExtendSign = (\<lambda>_ x. x), u_Byte = (\<lambda>_ x. x), u_AddMod = (\<lambda>x y z. (x + y) mod z),
     u_MulMod = (\<lambda>x y z. (x * y) mod z), u_SRsh = (\<lambda>x n. drop_bit n x)\<rparr>"

definition ex_env :: "Precompiles \<Rightarrow> vm_env" where
  "ex_env ps = \<lparr>env_keccak256 = (\<lambda>bs. word_of_nat (length bs)), env_get_hash = (\<lambda>_. 0), env_ChainId = 841,
     env_u256 = ex_u256, env_precompiles = ps\<rparr>"

definition ex_account :: "int \<Rightarrow> bytes \<Rightarrow> Account" where
  "ex_account funds code = \<lparr>Nonce = Some 0, Balance = Some funds, StorageRootHash = None,
     CodeHash = Some 7, CodeSize = word_of_nat (length code)\<rparr>"

definition ex_input :: "bytes \<Rightarrow> state_input" where
  "ex_input code = \<lparr>in_GetCode = (\<lambda>_. code),
     in_GetAccount = [1 \<mapsto> ex_account 1000000 [], 0x1000 \<mapsto> ex_account 0 code],
     in_GetAccountStorage = (\<lambda>_ _. None)\<rparr>"

definition ex_block :: vm_block where
  "ex_block = \<lparr>bl_Number = 1, bl_Author = 2, bl_GasLimit = 1000000, bl_Time = 0, bl_Difficulty = 0\<rparr>"

definition ex_evm :: "bytes \<Rightarrow> evm" where
  "ex_evm code = \<lparr>state = ts_Init (ex_input code), block = ex_block, trx = None, depth = 0,
     mem_pool = \<lparr>buf = replicate 64 0, reserved = 0\<rparr>, jumpdests = None, call_gas_tmp = 0,
     read_only = False, last_retval = []\<rparr>"

definition ex_trx :: "u64 \<Rightarrow> vm_trx" where
  "ex_trx gas = \<lparr>t_From = 1, t_GasPrice = 1, t_To = Some 0x1000, t_Nonce = 0, t_Value = 0, t_Gas = gas, t_Input = []\<rparr>"

text \<open>The frame of a contract with the given code and gas.\<close>

definition ex_contract :: "bytes \<Rightarrow> u64 \<Rightarrow> vm_contract" where
  "ex_contract code gas = NewContract \<lparr>f_CallerAccount = 1, f_Account = 0x1000, f_Input = [], f_Gas = gas, f_Value = 0\<rparr>
     code None"

end
