(* ===== verification/Evm_Termination.thy ===== *)
theory Evm_Termination
  imports Evm_Table_Spec Evm_Example
begin

text \<open>
  The interpreter always terminates: an instruction that does not end its frame costs gas, a call
  hands its callee less gas than the caller had, and no frame returns more gas than it was given.
  So fuel above the gas of a frame is always enough (\<open>frame_runner\<close> is the contract of the
  function that runs a callee, and the loop with fuel provides it).
\<close>

section \<open>Charging an instruction\<close>

lemma charge_cases:
  assumes c: "charge operation b m e = Some (err, m', e')" and g: "gas_ok lb (gasCost operation)"
  obtains (fails) x where "err = Some x" "gas_frame m e m' e'"
  | (pays) cost sz m1 e1 where "err = None" "gas_frame m e m1 e1" "gasCost operation m e sz = Some (Inr cost, m1, e1)"
    "cost \<le> c_Gas (contract m)" "validateStack operation (stack m) = None"
    "memorySize operation = None \<longrightarrow> sz = 0"
    "\<not> (read_only e \<and> (op_writes operation \<or> b = CALL \<and> (\<exists>v. Back (stack m) 2 = Some v \<and> v \<noteq> 0)))"
    "sz = 0 \<and> e' = e1 \<and> m' = m1\<lparr>contract := set_Gas (c_Gas (contract m) - cost) (contract m)\<rparr> \<or>
     (\<exists>p mm. Resize sz (mem_pool e) (mem m1) = Some (p, mm) \<and> e' = e1\<lparr>mem_pool := p\<rparr> \<and>
        m' = m1\<lparr>contract := set_Gas (c_Gas (contract m) - cost) (contract m), mem := mm\<rparr>)"
proof -
  have frame: "gas_frame m e m1 e1" if "gasCost operation m e sz = Some (r, m1, e1)" for sz r m1 e1
    using g that by (simp add: gas_ok_def)
  show thesis
  proof (cases "err = None")
    case False
    then obtain x where x: "err = Some x" by blast
    have "gas_frame m e m' e'"
      using c x
      by (auto simp: charge_def Let_def dest!: frame elim!: bind_eq_SomeE
          split: option.splits if_splits sum.splits prod.splits bool.splits)
    with x show thesis by (rule fails)
  next
    case True
    have vs: "validateStack operation (stack m) = None"
      using c True by (auto simp: charge_def split: option.splits)
    have ro: "\<not> (read_only e \<and> (op_writes operation \<or> b = CALL \<and> (\<exists>v. Back (stack m) 2 = Some v \<and> v \<noteq> 0)))"
      using c True vs by (auto simp: charge_def split: if_splits elim!: bind_eq_SomeE)
    obtain sz cost m1 e1 c1 where ms: "memory_size operation (stack m) = Some (Inr sz)"
      and gc: "gasCost operation m e sz = Some (Inr cost, m1, e1)"
      and use: "UseGas cost (contract m1) = (True, c1)"
      and rest: "(if sz > 0 then do { (p, mm) \<leftarrow> Resize sz (mem_pool e1) (mem m1);
           Some (None, m1\<lparr>contract := c1, mem := mm\<rparr>, e1\<lparr>mem_pool := p\<rparr>) }
         else Some (None, m1\<lparr>contract := c1\<rparr>, e1)) = Some (err, m', e')"
      using c True vs
      by (auto simp: charge_def Let_def elim!: bind_eq_SomeE split: if_splits sum.splits prod.splits bool.splits)
    note fr = frame [OF gc]
    have same: "contract m1 = contract m" "mem_pool e1 = mem_pool e"
      using fr unfolding gas_frame_def
      by (metis machine.select_convs(2) machine.surjective machine.update_convs(3), metis evm.ext_inject evm.surjective evm.update_convs(1,7))
    have "cost \<le> c_Gas (contract m)" "c1 = set_Gas (c_Gas (contract m) - cost) (contract m)"
      using use same by (auto simp: UseGas_def split: if_splits)
    moreover have "memorySize operation = None \<longrightarrow> sz = 0" using ms by (auto simp: memory_size_def)
    moreover have "sz = 0 \<and> e' = e1 \<and> m' = m1\<lparr>contract := c1\<rparr> \<or>
        (\<exists>p mm. Resize sz (mem_pool e) (mem m1) = Some (p, mm) \<and> e' = e1\<lparr>mem_pool := p\<rparr> \<and>
          m' = m1\<lparr>contract := c1, mem := mm\<rparr>)"
    proof (cases "sz = 0")
      case False
      then obtain p mm where "Resize sz (mem_pool e) (mem m1) = Some (p, mm)" "e' = e1\<lparr>mem_pool := p\<rparr>"
        "m' = m1\<lparr>contract := c1, mem := mm\<rparr>"
        using rest same by (auto simp: word_gt_0 elim!: bind_eq_SomeE)
      then show ?thesis by blast
    qed (use rest in simp)
    ultimately show thesis by (intro pays [OF True fr gc _ vs _ ro]) simp_all
  qed
qed

lemma gas_frame_keeps:
  assumes "gas_frame m e m' e'"
  shows "contract m' = contract m" "stack m' = stack m" "pc m' = pc m" "mem_pool e' = mem_pool e"
    "depth e' = depth e" "read_only e' = read_only e" "last_retval e' = last_retval e"
    "dom (accounts (state e)) \<subseteq> dom (accounts (state e'))" "journaled (state e) (state e')"
    "pool_offset (mem m') = pool_offset (mem m)" "mem_ok p (mem m') = mem_ok p (mem m)"
proof -
  have m: "m' = m\<lparr>mem := (mem m)\<lparr>lastGasCost := lastGasCost (mem m')\<rparr>\<rparr>"
    and e: "e' = e\<lparr>state := state e', call_gas_tmp := call_gas_tmp e'\<rparr>"
    and j: "dom (accounts (state e)) \<subseteq> dom (accounts (state e'))" "journaled (state e) (state e')"
    using assms by (auto simp: gas_frame_def simp del: domIff)
  show "contract m' = contract m" "stack m' = stack m" "pc m' = pc m"
    "pool_offset (mem m') = pool_offset (mem m)" "mem_ok p (mem m') = mem_ok p (mem m)"
    by (subst m, simp add: mem_ok_def mem_store_def)+
  show "mem_pool e' = mem_pool e" "depth e' = depth e" "read_only e' = read_only e" "last_retval e' = last_retval e"
    by (subst e, simp)+
  show "dom (accounts (state e)) \<subseteq> dom (accounts (state e'))" "journaled (state e) (state e')" by fact+
qed


lemma charge_gas:
  assumes "charge operation b m e = Some (err, m', e')" "gas_ok lb (gasCost operation)"
  shows "err \<noteq> None \<Longrightarrow> contract m' = contract m"
    "err = None \<Longrightarrow> lb + unat (c_Gas (contract m')) \<le> unat (c_Gas (contract m))"
    "stack m' = stack m"
proof -
  show "err \<noteq> None \<Longrightarrow> contract m' = contract m"
    using assms by (cases rule: charge_cases) (simp_all add: gas_frame_keeps)
  show "err = None \<Longrightarrow> lb + unat (c_Gas (contract m')) \<le> unat (c_Gas (contract m))"
    using assms
  proof (cases rule: charge_cases)
    case (pays cost sz m1 e1)
    then have "lb \<le> unat cost" using assms(2) by (auto simp: gas_ok_def)
    moreover have "c_Gas (contract m') = c_Gas (contract m) - cost" using pays(8) by (auto simp: set_Gas_def c_Gas_def)
    ultimately show ?thesis using pays(4) by (simp add: unat_sub word_le_nat_alt)
  qed simp
  show "stack m' = stack m"
    using assms by (cases rule: charge_cases) (auto simp: gas_frame_keeps)
qed

lemma call_gas_ok_gas: "call_gas_ok v g \<Longrightarrow> gas_ok 700 g"
proof -
  assume g: "call_gas_ok v g"
  have "gas_frame m e m' e' \<and> (\<forall>cost. r = Inr cost \<longrightarrow> 700 \<le> unat cost)" if "g m e sz = Some (r, m', e')" for m e sz r m' e'
  proof -
    have "gas_frame m e m' e'" "\<forall>cost. r = Inr cost \<longrightarrow> 700 + (if v \<and> stack m ! 2 \<noteq> 0 then 9000 else 0) + unat (call_gas_tmp e') \<le> unat cost"
      using g that unfolding call_gas_ok_def by blast+
    then show ?thesis by auto
  qed
  then show "gas_ok 700 g" by (simp add: gas_ok_def)
qed

lemma gas_ok_0: "gas_ok lb g \<Longrightarrow> gas_ok 0 g"
  by (simp add: gas_ok_def)

lemma entry_gas_ok: "op_plain op \<or> op_call_entry b op \<Longrightarrow> gas_ok 0 (gasCost op)"
  unfolding op_plain_def op_call_entry_def
  by (elim disjE exE conjE)
    (auto simp: mk_op_def intro: gas_ok_0 call_gas_ok_gas [THEN gas_ok_0] call_gas_functions call_gas_Call
      memory_gas_functions [THEN gas_memory_ok(1), THEN gas_ok_0])

lemma charge_call:
  assumes c: "charge operation b m e = Some (None, m', e')" and g: "call_gas_ok v (gasCost operation)"
  shows "unat (c_Gas (contract m')) + unat (call_gas_tmp e') + 700 + (if v \<and> stack m' ! 2 \<noteq> 0 then 9000 else 0)
    \<le> unat (c_Gas (contract m))"
  using c call_gas_ok_gas [OF g]
proof (cases rule: charge_cases)
  case (pays cost sz m1 e1)
  then have "700 + (if v \<and> stack m ! 2 \<noteq> 0 then 9000 else 0) + unat (call_gas_tmp e1) \<le> unat cost"
    using g by (simp add: call_gas_ok_def)
  moreover have "c_Gas (contract m') = c_Gas (contract m) - cost" "call_gas_tmp e' = call_gas_tmp e1" "stack m' = stack m"
    using pays(2,8) by (auto simp: set_Gas_def c_Gas_def gas_frame_keeps)
  ultimately show ?thesis using pays(4) by (simp add: unat_sub word_le_nat_alt)
qed simp

lemma after_op_cases:
  assumes "after_op operation ((res, err), m, e) = (out, m', e')"
  shows "contract m' = contract m" "stack m' = stack m" "mem m' = mem m"
    "e' = e\<lparr>last_retval := last_retval e'\<rparr>"
    "out = None \<Longrightarrow> err = None \<and> \<not> op_halts operation \<and> \<not> op_reverts operation"
  using assms by (auto simp: after_op_def Let_def split: if_splits)

section \<open>Calls\<close>

lemma UseGas_le: "UseGas g c = (paid, c') \<Longrightarrow> c_Gas c' \<le> c_Gas c"
  by (auto simp: UseGas_def set_Gas_def c_Gas_def word_sub_le split: if_splits)

lemma c_Gas_simps [simp]:
  "c_Gas (NewContract frame code h) = f_Gas frame" "c_Gas (set_Gas g c) = g"
  by (simp_all add: c_Gas_def NewContract_def set_Gas_def)

lemma UseGas_all [simp]: "UseGas (c_Gas c) c = (True, set_Gas 0 c)"
  by (simp add: UseGas_def)

lemma call_frame_gas: "call_frame typ caller callee input gas value = Some frame \<Longrightarrow> f_Gas frame = gas"
  by (auto simp: call_frame_def split: call_kind.splits ContractRef.splits)

definition call_budget :: "machine \<Rightarrow> evm \<Rightarrow> nat \<Rightarrow> bool" where
  "call_budget m e before \<longleftrightarrow> before < 2 ^ 64 \<and>
     unat (c_Gas (contract m)) + unat (call_gas_tmp e) + 700 + (if stack m ! 2 \<noteq> 0 then 9000 else 0) \<le> before"

lemma callee_gas:
  assumes "call_budget m e before"
    and "gas = (if stack m ! 2 \<noteq> 0 then call_gas_tmp e + CallStipend else call_gas_tmp e)"
  shows "unat (c_Gas (contract m)) + unat gas < before" "before < 2 ^ 64"
proof -
  have "unat (call_gas_tmp e + CallStipend) \<le> unat (call_gas_tmp e) + 2300"
    by (simp add: CallStipend_def unat_word_ariths order_trans [OF mod_less_eq_dividend])
  then show "unat (c_Gas (contract m)) + unat gas < before" "before < 2 ^ 64"
    using assms by (auto simp: call_budget_def split: if_splits)
qed

lemma returned_gas:
  assumes "unat (a :: u64) + unat g < before" "before < 2 ^ 64" "left \<le> g"
  shows "unat (a + left) < before"
  using assms by (simp add: word_le_nat_alt unat_word_ariths order_le_less_trans [OF mod_less_eq_dividend])

text \<open>What a call instruction does when it does not panic on its arguments.\<close>

lemma opCall_with_cases:
  obtains (panics) "opCall_with call' rn env m e = Panic"
  | (calls) q addr v io isz ro rs st args where "stack m = q # addr # v # io # isz # ro # rs # st"
    "mem_get io isz m e = Some args"
    "opCall_with call' rn env m e =
       exec_bind (call' rn env (ContractObj (contract m)) (Bytes20 addr) args
           (if v \<noteq> 0 then call_gas_tmp e + CallStipend else call_gas_tmp e) (uint v) (snd (get_account addr e)))
         (opCall_finish io isz args ro rs (m\<lparr>stack := st\<rparr>))"
proof (cases "\<exists>q addr v io isz ro rs st. stack m = q # addr # v # io # isz # ro # rs # st")
  case True
  then obtain q addr v io isz ro rs st where s: "stack m = q # addr # v # io # isz # ro # rs # st" by blast
  then show thesis
    using panics calls [OF s]
    by (cases "mem_get io isz m e") (simp_all add: opCall_with_def pop3_def pop_def Let_def get_account_def)
next
  case False
  then have "opCall_with call' rn env m e = Panic"
    by (auto simp: opCall_with_def pop3_def pop_def split: list.splits option.splits)
  then show thesis by (rule panics)
qed

lemma opCall_without_value_cases:
  obtains (panics) "opCall_without_value call' rn env m e = Panic"
  | (calls) q addr io isz ro rs st args where "stack m = q # addr # io # isz # ro # rs # st"
    "mem_get io isz m e = Some args"
    "opCall_without_value call' rn env m e =
       exec_bind (call' rn env (ContractObj (contract m)) (Bytes20 addr) args (call_gas_tmp e)
           (snd (get_account addr e)))
         (opCall_finish io isz args ro rs (m\<lparr>stack := st\<rparr>))"
proof (cases "\<exists>q addr io isz ro rs st. stack m = q # addr # io # isz # ro # rs # st")
  case True
  then obtain q addr io isz ro rs st where s: "stack m = q # addr # io # isz # ro # rs # st" by blast
  then show thesis
    using panics calls [OF s]
    by (cases "mem_get io isz m e") (simp_all add: opCall_without_value_def pop3_def pop_def Let_def get_account_def)
next
  case False
  then have "opCall_without_value call' rn env m e = Panic"
    by (auto simp: opCall_without_value_def pop3_def pop_def split: list.splits option.splits)
  then show thesis by (rule panics)
qed

lemma create_finish_gas:
  "create_finish env a snapshot ((ret, err), c, e) = Done ((ret', left, err'), e') \<Longrightarrow> left \<le> c_Gas c"
  by (auto simp: create_finish_def Let_def exec_bind_eq_Done dest: UseGas_le split: prod.splits if_splits)

lemma opCall_finish_gas:
  assumes "opCall_finish io isz args ro rs m ((ret, left, err), e) = Done (r, m', e')"
  shows "c_Gas (contract m') = c_Gas (contract m) + left"
  using assms
  by (auto simp: opCall_finish_def Let_def add_Gas_def mem_set_def elim!: bind_eq_SomeE split: if_splits)

lemma opCall_finish_total [simp]: "opCall_finish io isz args ro rs m x \<noteq> NoFuel"
  by (auto simp: opCall_finish_def Let_def split: prod.splits)

lemma after_call:
  assumes "exec_bind res (opCall_finish io isz args ro rs (m\<lparr>stack := st\<rparr>)) = Done (r, m', e')"
    and "unat (c_Gas (contract m)) + unat gas < before" "before < 2 ^ 64"
    and "\<And>ret left err e2. res = Done ((ret, left, err), e2) \<Longrightarrow> left \<le> gas"
  shows "unat (c_Gas (contract m')) < before"
  using assms returned_gas [OF assms(2,3)]
  by (cases res) (auto dest: opCall_finish_gas)

lemma create_op_gas:
  assumes "m1 = use_Gas (c_Gas (contract m) - c_Gas (contract m) div 64) (m\<lparr>stack := st\<rparr>)"
    and "left \<le> c_Gas (contract m) - c_Gas (contract m) div 64"
    and "opCreate_finish m1 ((res, a, left, err), e1) = Done (r, m', e')"
  shows "c_Gas (contract m') \<le> c_Gas (contract m)"
proof -
  let ?g = "c_Gas (contract m)"
  have le: "?g div 64 \<le> ?g" by (simp add: word_le_nat_alt unat_div)
  then have "c_Gas (contract m1) = ?g div 64"
    using assms(1) word_sub_le [OF le] by (simp add: use_Gas_def UseGas_def leD)
  moreover have "c_Gas (contract m') = c_Gas (contract m1) + left"
    using assms(3) by (auto simp: opCreate_finish_def Let_def add_Gas_def)
  moreover have "?g div 64 + left \<le> ?g"
    using assms(2) le by (simp add: word_le_nat_alt unat_sub unat_word_ariths order_trans [OF mod_less_eq_dividend])
  ultimately show ?thesis by simp
qed

lemmas call_ops = opCall_def opCallCode_def vm_Call_def [abs_def] call_code_def [abs_def]
  opDelegateCall_def opStaticCall_def call_delegate_def [abs_def] call_static_def [abs_def]

text \<open>The three kinds of entries with calls, and what they are charged.\<close>

lemma call_entry_cases:
  assumes "op_call_entry b operation"
  obtains (valued) k where "k = KCall \<or> k = KCallCode" "execute operation = opCall_with (\<lambda>rn env. call rn env k)"
      "call_gas_ok True (gasCost operation)" "validateStack operation = makeStackFunc 7 1"
  | (plain) k where "k = KDelegateCall \<or> k = KStaticCall" "execute operation =
      opCall_without_value (\<lambda>rn env caller callee input gas. call rn env k caller callee input gas 0)"
      "call_gas_ok False (gasCost operation)" "validateStack operation = makeStackFunc 6 1"
  | (creates) "execute operation = opCreate \<or> execute operation = opCreate2" "gas_ok 32000 (gasCost operation)"
      "execute operation = opCreate \<and> validateStack operation = makeStackFunc 3 1 \<or>
       execute operation = opCreate2 \<and> validateStack operation = makeStackFunc 4 1"
  using assms unfolding op_call_entry_def
  by (elim disjE)
    (auto simp: mk_op_def call_ops call_gas_functions call_gas_Call memory_gas_functions [THEN gas_memory_ok(1)])

section \<open>No frame returns more gas than it was given\<close>

locale gas_runner =
  fixes rn :: runner
  assumes run_gas: "rn c ro e = Done (r, c', e') \<Longrightarrow> c_Gas c' \<le> c_Gas c"
begin

lemma call_code_of_gas:
  assumes "call_code_of rn env typ callee frame code gas e = Done ((ret, left, err), e')" "f_Gas frame = gas"
  shows "left \<le> gas"
  using assms
  by (auto simp: call_code_of_def exec_bind_eq_Done word_sub_le dest!: run_gas
      split: option.splits if_splits elim!: bind_eq_SomeE)

lemma call_gas:
  assumes "call rn env typ caller callee input gas v e = Done ((ret, left, err), e')"
  shows "left \<le> gas"
  using assms
  by (auto simp: call_def Let_def exec_bind_eq_Done call_finish_def split: prod.splits if_splits
      dest: call_code_of_gas call_frame_gas)

lemma create_gas:
  assumes "create rn env caller code h gas v a e = Done ((ret, left, err), e')"
  shows "left \<le> gas"
proof -
  have "left \<le> gas" if "rn (NewContract (frame\<lparr>f_Gas := gas\<rparr>) code h) False e1 = Done (r, c, e2)"
    "create_finish env a s (r, c, e2) = Done ((ret, left, err), e')" for frame e1 r c e2 s
    using run_gas [OF that(1)] create_finish_gas [of env a s "fst r" "snd r" c e2] that(2) order_trans by fastforce
  note fin = this [of "\<lparr>f_CallerAccount = caller, f_Account = a, f_Input = [], f_Gas = gas, f_Value = v\<rparr>", simplified]
  show ?thesis
    using assms by (auto simp: create_def Let_def exec_bind_eq_Done intro: fin split: if_splits)
qed

lemma create_op_le:
  "opCreate rn env m e = Done (r, m', e') \<Longrightarrow> c_Gas (contract m') \<le> c_Gas (contract m)"
  "opCreate2 rn env m e = Done (r, m', e') \<Longrightarrow> c_Gas (contract m') \<le> c_Gas (contract m)"
  by (auto simp: opCreate_def opCreate2_def create_1_def create_2_def Let_def exec_bind_eq_Done
      elim!: bind_eq_SomeE dest!: create_gas intro: create_op_gas)

lemma call_entry_gas:
  assumes op: "op_call_entry b operation" and c: "charge operation b m e = Some (None, m1, e1)"
    and x: "execute operation rn env m1 e1 = Done (r, m', e')"
  shows "c_Gas (contract m') < c_Gas (contract m)"
  using op
proof (cases rule: call_entry_cases)
  case (valued k)
  have lt: "unat (c_Gas (contract m)) < 2 ^ 64" using unsigned_less [of "c_Gas (contract m)", where 'a = nat] by simp
  have budget: "call_budget m1 e1 (unat (c_Gas (contract m)))"
    using charge_call [OF c valued(3)] lt by (simp add: call_budget_def)
  from x valued(2) show ?thesis
  proof (cases rule: opCall_with_cases [of "\<lambda>rn env. call rn env k" rn env m1 e1])
    case (calls q addr v io isz ro rs st args)
    let ?gas = "if v \<noteq> 0 then call_gas_tmp e1 + CallStipend else call_gas_tmp e1"
    have g: "unat (c_Gas (contract m1)) + unat ?gas < unat (c_Gas (contract m))"
      using callee_gas(1) [OF budget, of ?gas] calls(1) by simp
    show ?thesis
      using after_call [OF trans [OF calls(3) [symmetric] x [unfolded valued(2)]] g lt] call_gas
      by (simp add: word_less_nat_alt)
  qed simp
next
  case (plain k)
  have lt: "unat (c_Gas (contract m)) < 2 ^ 64" using unsigned_less [of "c_Gas (contract m)", where 'a = nat] by simp
  have g: "unat (c_Gas (contract m1)) + unat (call_gas_tmp e1) < unat (c_Gas (contract m))"
    using charge_call [OF c plain(3)] by simp
  from x plain(2) show ?thesis
  proof (cases rule: opCall_without_value_cases [of "\<lambda>rn env caller callee input gas. call rn env k caller callee input gas 0" rn env m1 e1])
    case (calls q addr io isz ro rs st args)
    show ?thesis
      using after_call [OF trans [OF calls(3) [symmetric] x [unfolded plain(2)]] g lt] call_gas
      by (simp add: word_less_nat_alt)
  qed simp
next
  case creates
  then have "c_Gas (contract m') \<le> c_Gas (contract m1)" using x by (auto intro: create_op_le)
  then show ?thesis using charge_gas(2) [OF c creates(2)] by (simp add: word_less_nat_alt word_le_nat_alt)
qed

lemma plain_entry_gas:
  assumes op: "op_plain operation" and c: "charge operation b m e = Some (None, m1, e1)"
    and x: "execute operation rn env m1 e1 = Done ((res, err), m2, e2)"
  shows "c_Gas (contract m2) \<le> c_Gas (contract m)"
    "\<not> op_halts operation \<Longrightarrow> \<not> op_reverts operation \<Longrightarrow> c_Gas (contract m2) < c_Gas (contract m)"
proof -
  obtain p q f lb where f: "execute operation = simple f" "simple_ok p q f" "gas_ok lb (gasCost operation)"
    "1 \<le> lb \<or> op_halts operation \<or> op_reverts operation"
    using op unfolding op_plain_def by blast
  have "op_keeps m1 e1 m2 e2" using x f(1,2) by (auto simp: simple_def simple_ok_def)
  then have "lb + unat (c_Gas (contract m2)) \<le> unat (c_Gas (contract m))"
    using charge_gas(2) [OF c f(3)] by (simp add: op_keeps_def c_Gas_def)
  then show "c_Gas (contract m2) \<le> c_Gas (contract m)"
    "\<not> op_halts operation \<Longrightarrow> \<not> op_reverts operation \<Longrightarrow> c_Gas (contract m2) < c_Gas (contract m)"
    using f(4) by (auto simp: word_le_nat_alt word_less_nat_alt)
qed

lemma step_gas:
  assumes "step rn env m e = Done (out, m', e')"
  shows "c_Gas (contract m') \<le> c_Gas (contract m) \<and> (out = None \<longrightarrow> c_Gas (contract m') < c_Gas (contract m))"
proof (cases "eblaInstructionSet (GetOp (contract m) (pc m))")
  case None
  then show ?thesis using assms by (auto simp: step_def Let_def)
next
  case (Some operation)
  let ?b = "GetOp (contract m) (pc m)"
  note entry = instruction_entry [OF Some]
  from assms Some obtain err m1 e1 where c: "charge operation ?b m e = Some (err, m1, e1)"
    by (auto simp: step_def Let_def exec_bind_eq_Done)
  show ?thesis
  proof (cases err)
    case None
    then obtain res er m2 e2 where x: "execute operation rn env m1 e1 = Done ((res, er), m2, e2)"
      and a: "after_op operation ((res, er), m2, e2) = (out, m', e')"
      using assms Some c by (auto simp: step_def Let_def exec_bind_eq_Done)
    show ?thesis
      using entry call_entry_gas [OF _ c [unfolded None] x] plain_entry_gas [OF _ c [unfolded None] x]
        after_op_cases(1,5) [OF a] by (auto simp: less_imp_le)
  next
    case (Some er)
    then show ?thesis
      using assms c \<open>eblaInstructionSet ?b = _\<close> charge_gas(1) [OF c entry_gas_ok [OF entry]] by (auto simp: step_def Let_def)
  qed
qed

end

section \<open>Termination\<close>

locale frame_runner = gas_runner +
  fixes bound :: nat
  assumes run_total: "unat (c_Gas c) < bound \<Longrightarrow> rn c ro e \<noteq> NoFuel"
begin

lemma call_code_of_total:
  "unat gas < bound \<Longrightarrow> f_Gas frame = gas \<Longrightarrow> call_code_of rn env typ callee frame code gas e \<noteq> NoFuel"
  by (auto simp: call_code_of_def exec_bind_eq_NoFuel run_total split: option.splits)

lemma call_total: "unat gas < bound \<Longrightarrow> call rn env typ caller callee input gas v e \<noteq> NoFuel"
  by (auto simp: call_def Let_def exec_bind_eq_NoFuel call_finish_def call_frame_gas call_code_of_total
      split: prod.splits if_splits)

lemma create_total: "unat gas < bound \<Longrightarrow> create rn env caller code h gas v a e \<noteq> NoFuel"
  by (auto simp: create_def Let_def exec_bind_eq_NoFuel create_finish_def run_total split: prod.splits if_splits)

lemma create_op_total:
  assumes "unat (c_Gas (contract m)) < bound"
  shows "opCreate rn env m e \<noteq> NoFuel" "opCreate2 rn env m e \<noteq> NoFuel"
proof -
  let ?gas = "c_Gas (contract m) - c_Gas (contract m) div 64"
  have "?gas \<le> c_Gas (contract m)" by (intro word_sub_le) (simp add: word_le_nat_alt unat_div)
  then have "unat ?gas < bound" using assms by (simp add: word_le_nat_alt)
  then have "create rn env caller code h ?gas v a e \<noteq> NoFuel" for caller code h v a e
    by (rule create_total)
  then show "opCreate rn env m e \<noteq> NoFuel" "opCreate2 rn env m e \<noteq> NoFuel"
    by (auto simp: opCreate_def opCreate2_def create_1_def create_2_def Let_def exec_bind_eq_NoFuel opCreate_finish_def
        split: prod.splits)
qed

lemma call_entry_total:
  assumes op: "op_call_entry b operation" and c: "charge operation b m e = Some (None, m1, e1)"
    and bd: "unat (c_Gas (contract m)) \<le> bound"
  shows "execute operation rn env m1 e1 \<noteq> NoFuel"
  using op
proof (cases rule: call_entry_cases)
  case (valued k)
  have "call_budget m1 e1 (unat (c_Gas (contract m)))"
    using charge_call [OF c valued(3)] unsigned_less [of "c_Gas (contract m)", where 'a = nat]
    by (simp add: call_budget_def)
  note g = callee_gas(1) [OF this refl]
  show ?thesis
  proof (cases rule: opCall_with_cases [of "\<lambda>rn env. call rn env k" rn env m1 e1])
    case (calls q addr v io isz ro rs st args)
    then have "unat (if v \<noteq> 0 then call_gas_tmp e1 + CallStipend else call_gas_tmp e1) < bound"
      using g bd by simp
    then show ?thesis unfolding valued(2) calls(3) by (simp add: exec_bind_eq_NoFuel call_total)
  qed (simp add: valued(2))
next
  case (plain k)
  show ?thesis
  proof (cases rule: opCall_without_value_cases [of "\<lambda>rn env caller callee input gas. call rn env k caller callee input gas 0" rn env m1 e1])
    case (calls q addr io isz ro rs st args)
    have "unat (call_gas_tmp e1) < bound" using charge_call [OF c plain(3)] bd by simp
    then show ?thesis unfolding plain(2) calls(3) by (simp add: exec_bind_eq_NoFuel call_total)
  qed (simp add: plain(2))
next
  case creates
  have "unat (c_Gas (contract m1)) < bound" using charge_gas(2) [OF c creates(2)] bd by simp
  then show ?thesis using creates(1) create_op_total by auto
qed

lemma step_total:
  assumes "unat (c_Gas (contract m)) \<le> bound"
  shows "step rn env m e \<noteq> NoFuel"
proof (cases "eblaInstructionSet (GetOp (contract m) (pc m))")
  case None
  then show ?thesis by (simp add: step_def)
next
  case (Some operation)
  have "execute operation rn env m1 e1 \<noteq> NoFuel"
    if c: "charge operation (GetOp (contract m) (pc m)) m e = Some (None, m1, e1)" for m1 e1
    using instruction_entry [OF Some] call_entry_total [OF _ c assms] by (auto simp: op_plain_def simple_def)
  then show ?thesis using Some by (auto simp: step_def Let_def exec_bind_eq_NoFuel)
qed

end

lemma run_with_gas:
  assumes "\<And>m e r m' e'. lp m e = Done (r, m', e') \<Longrightarrow> c_Gas (contract m') \<le> c_Gas (contract m)"
  shows "gas_runner (run_with lp)"
  by unfold_locales (fastforce simp: run_with_def Let_def exec_bind_eq_Done dest!: assms)

lemma run_with_total:
  assumes "\<And>m e. unat (c_Gas (contract m)) < n \<Longrightarrow> lp m e \<noteq> NoFuel"
  shows "unat (c_Gas c) < n \<Longrightarrow> run_with lp c ro e \<noteq> NoFuel"
  using assms by (auto simp: run_with_def Let_def exec_bind_eq_NoFuel)

lemma loop_gas: "loop env n m e = Done (r, m', e') \<Longrightarrow> c_Gas (contract m') \<le> c_Gas (contract m)"
proof (induction n arbitrary: m e r m' e')
  case (Suc n)
  then have g: "gas_runner (run_with (loop env n))" by (intro run_with_gas) blast
  from Suc.prems obtain out m1 e1 where s: "step (run_with (loop env n)) env m e = Done (out, m1, e1)"
    and rest: "(case out of Some r \<Rightarrow> Done (r, m1, e1) | None \<Rightarrow> loop env n m1 e1) = Done (r, m', e')"
    by (auto simp: exec_bind_eq_Done)
  show ?case
    using gas_runner.step_gas [OF g s] rest Suc.IH [of m1 e1] by (auto split: option.splits)
qed simp

interpretation evm_run: gas_runner "run n env" for n env
  unfolding run_def by (rule run_with_gas) (rule loop_gas)

lemma loop_total: "unat (c_Gas (contract m)) < n \<Longrightarrow> loop env n m e \<noteq> NoFuel"
proof (induction n arbitrary: m e)
  case (Suc n)
  have f: "frame_runner (run_with (loop env n)) n"
    using evm_run.gas_runner_axioms [of n env] run_with_total [OF Suc.IH]
    by (simp add: frame_runner_def frame_runner_axioms_def run_def)
  have "step (run_with (loop env n)) env m e \<noteq> NoFuel"
    using frame_runner.step_total [OF f] Suc.prems by simp
  moreover have "loop env n m1 e1 \<noteq> NoFuel" if "step (run_with (loop env n)) env m e = Done (None, m1, e1)" for m1 e1
    using gas_runner.step_gas [OF evm_run.gas_runner_axioms [of n env, unfolded run_def] that] Suc
    by (simp add: word_less_nat_alt)
  ultimately show ?case by (auto simp: exec_bind_eq_NoFuel split: option.splits)
qed simp

interpretation evm_run: frame_runner "run n env" n for n env
  by (rule frame_runner.intro [OF evm_run.gas_runner_axioms])
    (simp add: frame_runner_axioms_def run_def run_with_total [OF loop_total])

section \<open>The result does not depend on the fuel\<close>

text \<open>\<open>fuel_le\<close>: the second computation is the first one with more fuel.\<close>

definition fuel_le :: "'a exec \<Rightarrow> 'a exec \<Rightarrow> bool" where
  "fuel_le r s \<longleftrightarrow> r = NoFuel \<or> r = s"

lemma fuel_le_refl [simp, intro]: "fuel_le r r" "fuel_le NoFuel r"
  by (simp_all add: fuel_le_def)

lemma fuel_le_bind: "fuel_le r s \<Longrightarrow> (\<And>x. fuel_le (f x) (g x)) \<Longrightarrow> fuel_le (exec_bind r f) (exec_bind s g)"
  by (cases r) (auto simp: fuel_le_def, metis)

definition runner_le :: "runner \<Rightarrow> runner \<Rightarrow> bool" where
  "runner_le rn rn' \<longleftrightarrow> (\<forall>c ro e. fuel_le (rn c ro e) (rn' c ro e))"

lemma call_mono:
  assumes "runner_le rn rn'"
  shows "fuel_le (call rn env typ caller callee input gas v e) (call rn' env typ caller callee input gas v e)"
proof -
  have "fuel_le (call_code_of rn env typ callee frame code gas e) (call_code_of rn' env typ callee frame code gas e)"
    for frame code e
    using assms by (auto simp: call_code_of_def runner_le_def intro: fuel_le_bind split: option.splits)
  then show ?thesis by (auto simp: call_def Let_def intro!: fuel_le_bind split: prod.splits)
qed

lemma create_mono:
  assumes "runner_le rn rn'"
  shows "fuel_le (create rn env caller code h gas v a e) (create rn' env caller code h gas v a e)"
  using assms by (auto simp: create_def Let_def runner_le_def intro: fuel_le_bind)

lemma execute_mono:
  assumes op: "op_plain operation \<or> op_call_entry b operation" and le: "runner_le rn rn'"
  shows "fuel_le (execute operation rn env m e) (execute operation rn' env m e)"
proof -
  note [intro] = fuel_le_bind call_mono [OF le] create_mono [OF le]
  have "fuel_le (opCall_with (\<lambda>rn env. call rn env k) rn env m e) (opCall_with (\<lambda>rn env. call rn env k) rn' env m e)"
    "fuel_le (opCall_without_value (\<lambda>rn env caller callee input gas. call rn env k caller callee input gas 0) rn env m e)
      (opCall_without_value (\<lambda>rn env caller callee input gas. call rn env k caller callee input gas 0) rn' env m e)" for k
    by (auto simp: opCall_with_def opCall_without_value_def Let_def intro!: fuel_le_bind split: prod.splits)
  moreover have "fuel_le (opCreate rn env m e) (opCreate rn' env m e)" "fuel_le (opCreate2 rn env m e) (opCreate2 rn' env m e)"
    by (auto simp: opCreate_def opCreate2_def create_1_def create_2_def Let_def intro!: fuel_le_bind split: prod.splits)
  ultimately show ?thesis
    using op by (auto simp: op_plain_def simple_def elim: call_entry_cases)
qed

lemma step_mono:
  assumes "runner_le rn rn'"
  shows "fuel_le (step rn env m e) (step rn' env m e)"
  using assms
  by (auto simp: step_def Let_def intro!: fuel_le_bind execute_mono [OF instruction_entry] split: option.splits)

lemma run_with_mono:
  assumes "\<And>m e. fuel_le (lp m e) (lp' m e)"
  shows "runner_le (run_with lp) (run_with lp')"
  using assms by (auto simp: runner_le_def run_with_def Let_def intro!: fuel_le_bind)

lemma loop_mono: "n \<le> k \<Longrightarrow> fuel_le (loop env n m e) (loop env k m e)"
proof (induction n arbitrary: k m e)
  case (Suc n)
  then obtain j where k: "k = Suc j" "n \<le> j" by (cases k) auto
  with Suc.IH have "runner_le (run_with (loop env n)) (run_with (loop env j))" by (intro run_with_mono) blast
  from step_mono [OF this] show ?case
    unfolding k loop.simps using Suc.IH [OF k(2)] by (intro fuel_le_bind) (auto split: prod.splits option.splits)
qed simp

lemma run_mono: "n \<le> k \<Longrightarrow> runner_le (run n env) (run k env)"
  unfolding run_def by (intro run_with_mono loop_mono)

section \<open>Transactions\<close>

lemma main_execute_total: "unat gas < n \<Longrightarrow> main_execute n env t gas e \<noteq> NoFuel"
  by (auto simp: main_execute_def create_1_def vm_Call_def Let_def exec_bind_eq_NoFuel evm_run.call_total
      evm_run.create_total split: option.splits prod.splits)

lemma main_execute_gas:
  assumes "main_execute n env t gas e = Done (r, e')"
  obtains ret a left err e1 where "left \<le> gas" "main_finish t ret a left err e1 = (r, e')"
  using assms
  by (auto simp: main_execute_def create_1_def vm_Call_def Let_def exec_bind_eq_Done
      split: option.splits prod.splits dest!: evm_run.call_gas evm_run.create_gas)

lemma main_finish_gas:
  assumes f: "main_finish t ret a left err e = (r, e')" and le: "left \<le> t_Gas t - g" "g \<le> t_Gas t"
  shows "r_GasUsed r \<le> t_Gas t \<and> (unat g \<le> 2 * unat (r_GasUsed r))"
proof (cases "err = Some ErrInsufficientBalanceForTransfer")
  case True
  then show ?thesis using f le by (auto simp: main_finish_def consensusErr_def Let_def word_le_nat_alt)
next
  case False
  let ?refund = "MinU64 (ts_refund (state e)) ((t_Gas t - left) div 2)"
  have l: "unat left \<le> unat (t_Gas t) - unat g" "unat g \<le> unat (t_Gas t)"
    using le by (simp_all add: word_le_nat_alt unat_sub)
  then have "left \<le> t_Gas t" by (simp add: word_le_nat_alt)
  then have "unat ?refund \<le> (unat (t_Gas t) - unat left) div 2"
    by (auto simp: MinU64_def unat_div unat_sub word_less_nat_alt not_less)
  then have r: "unat ?refund \<le> (unat (t_Gas t) - unat left) div 2" "unat left + unat ?refund \<le> unat (t_Gas t)"
    using l by linarith+
  then have u: "unat (left + ?refund) = unat left + unat ?refund"
    using unsigned_less [of "t_Gas t", where 'a = nat] by (simp add: unat_word_ariths)
  have used: "r_GasUsed r = t_Gas t - (left + ?refund)" using f False by (auto simp: main_finish_def Let_def)
  have "unat (r_GasUsed r) = unat (t_Gas t) - (unat left + unat ?refund)"
    unfolding used using r u by (simp add: unat_sub word_le_nat_alt)
  then show ?thesis using r l by (simp add: word_le_nat_alt)
qed

lemma available_gas:
  assumes "0 \<le> b" "0 \<le> p" "b < uint (g :: u64) * p"
  shows "word_of_int (b div p) \<le> g"
proof -
  have p: "0 < p" using assms by (cases "p = 0") auto
  have "b div p \<le> uint g" using zdiv_mono1 [of b "uint g * p" p] assms(3) p by simp
  moreover have "0 \<le> b div p" using assms(1) p by (simp add: pos_imp_zdiv_nonneg_iff)
  ultimately show ?thesis
    by (simp add: word_le_def uint_word_of_int mod_pos_pos_trivial order_le_less_trans [OF _ uint_lt2p [of g, simplified]])
qed

lemma main_checks_gas:
  assumes r: "main_checks n env t e = Done (r, e')" and price: "0 \<le> t_GasPrice t"
    and funds: "0 \<le> GetBalance (GetAccountConcrete (t_From t) (state e)) (t_From t)"
  shows "r_GasUsed r \<le> t_Gas t \<and> (r_ConsensusErr r = None \<longrightarrow>
    (\<exists>g. IntrinsicGas (t_Input t) (t_To t = None) = Inr g \<and> unat g \<le> 2 * unat (r_GasUsed r)))"
proof -
  let ?s = "GetAccountConcrete (t_From t) (state e)" and ?fee = "uint (t_Gas t) * t_GasPrice t"
  show ?thesis
  proof (cases "t_From t \<noteq> 0 \<and> \<not> BalanceGTE ?s (t_From t) ?fee")
    case True
    then have "GetBalance ?s (t_From t) < ?fee" by (auto simp: BalanceGTE_def)
    from available_gas [OF funds price this] this price
    show ?thesis
      using r True funds
      by (cases "t_GasPrice t = 0") (auto simp: main_checks_def Let_def consensusErr_def big_Div_def elim!: bind_eq_SomeE)
  next
    case False
    note c = r [unfolded main_checks_def Let_def upd_state_simps if_not_P [OF False]]
    show ?thesis
    proof (cases "\<exists>e1 g. IntrinsicGas (t_Input t) (t_To t = None) = Inr g \<and> g \<le> t_Gas t \<and>
        main_execute n env t (t_Gas t - g) e1 = Done (r, e')")
      case True
      then obtain e1 g where g: "IntrinsicGas (t_Input t) (t_To t = None) = Inr g" "g \<le> t_Gas t"
        "main_execute n env t (t_Gas t - g) e1 = Done (r, e')" by blast
      from g(3) obtain ret a left err e2 where f: "left \<le> t_Gas t - g" "main_finish t ret a left err e2 = (r, e')"
        by (rule main_execute_gas)
      from main_finish_gas [OF f(2,1) g(2)] show ?thesis using g(1) by blast
    next
      case False
      then have "r_GasUsed r = t_Gas t \<and> r_ConsensusErr r \<noteq> None"
        using c by (auto simp: consensusErr_def elim!: bind_eq_SomeE split: if_splits sum.splits)
      then show ?thesis by auto
    qed
  qed
qed

text \<open>
  C31: Every run of a frame ends: with fuel above the gas of the frame the interpreter does not run
  out of fuel, whatever the code, the state and the precompiled contracts are; more fuel does not
  change the result, and the frame is left with at most the gas it was given.
\<close>

theorem run_terminates:
  assumes "unat (c_Gas c) < n"
  shows "run n env c ro e \<noteq> NoFuel \<and> (n \<le> k \<longrightarrow> run k env c ro e = run n env c ro e) \<and>
    (run n env c ro e = Done (r, c', e') \<longrightarrow> c_Gas c' \<le> c_Gas c)"
  using evm_run.run_total [OF assms, of env ro e] run_mono [of n k env] evm_run.run_gas [of n env c ro e]
  by (simp add: runner_le_def fuel_le_def) metis

theorem run_terminates_witness:
  "run 4 (ex_env Map.empty) (ex_contract [0x5b, 0x00] 3) False (ex_evm []) \<noteq> NoFuel"
  by (rule run_terminates [THEN conjunct1]) (simp add: ex_contract_def)

text \<open>
  C32: A transaction with a non-negative gas price from a sender with a non-negative balance ends, in a
  result or in a panic: it never needs more fuel than its gas limit. A result reports at most the gas
  limit as used, and unless it is a consensus error at least half of the intrinsic gas: the refunds never
  exceed half of what was used.
\<close>

theorem Main_gas:
  assumes "unat (t_Gas t) < n" "0 \<le> t_GasPrice t" "0 \<le> GetBalance (GetAccountConcrete (t_From t) (state e)) (t_From t)"
  shows "Main n env t e \<noteq> NoFuel \<and>
    (Main n env t e = Done (r, e') \<longrightarrow> r_GasUsed r \<le> t_Gas t \<and>
      (r_ConsensusErr r = None \<longrightarrow>
        (\<exists>g. IntrinsicGas (t_Input t) (t_To t = None) = Inr g \<and> unat g \<le> 2 * unat (r_GasUsed r))))"
proof
  have "unat (t_Gas t - g) < n" if "g \<le> t_Gas t" for g
    using that assms(1) by (simp add: unat_sub)
  then show "Main n env t e \<noteq> NoFuel"
    by (auto simp: Main_def main_checks_def Let_def exec_bind_eq_NoFuel main_execute_total not_less split: sum.splits)
  show "Main n env t e = Done (r, e') \<longrightarrow> r_GasUsed r \<le> t_Gas t \<and>
      (r_ConsensusErr r = None \<longrightarrow>
        (\<exists>g. IntrinsicGas (t_Input t) (t_To t = None) = Inr g \<and> unat g \<le> 2 * unat (r_GasUsed r)))"
    using main_checks_gas [OF _ assms(2), of n env "e\<lparr>trx := Some t\<rparr>"] assms(3)
    by (auto simp: Main_def exec_bind_eq_Done)
qed

text \<open>A call of a contract with the code \<open>JUMPDEST\<close>.\<close>

lemma ex_Main: "case Main 30001 (ex_env Map.empty) (ex_trx 30000) (ex_evm [0x5b]) of
    Done (r, e') \<Rightarrow> r_ConsensusErr r = None \<and> IntrinsicGas [] False = Inr 21000 | _ \<Rightarrow> False"
  by code_simp

theorem Main_gas_witness:
  "\<exists>r e'. Main 30001 (ex_env Map.empty) (ex_trx 30000) (ex_evm [0x5b]) = Done (r, e') \<and> r_ConsensusErr r = None \<and>
    10500 \<le> unat (r_GasUsed r) \<and> r_GasUsed r \<le> 30000"
proof -
  have "unat (t_Gas (ex_trx 30000)) < 30001" "0 \<le> t_GasPrice (ex_trx 30000)"
    "0 \<le> GetBalance (GetAccountConcrete (t_From (ex_trx 30000)) (state (ex_evm [0x5b]))) (t_From (ex_trx 30000))"
    by (simp_all add: ex_trx_def ex_evm_def GetBalance_def body_of_def GetAccountConcrete_def ts_Init_def load_entry_def
      ex_input_def ex_account_def new_entry_def body_of_db_def Let_def)
  note g = Main_gas [OF this, of "ex_env Map.empty"]
  obtain r e' where r: "Main 30001 (ex_env Map.empty) (ex_trx 30000) (ex_evm [0x5b]) = Done (r, e')"
    "r_ConsensusErr r = None" "IntrinsicGas [] False = Inr 21000"
    using ex_Main by (auto split: exec.splits)
  have "IntrinsicGas (t_Input (ex_trx 30000)) (t_To (ex_trx 30000) = None) = Inr 21000" "t_Gas (ex_trx 30000) = 30000"
    using r(3) by (simp_all add: ex_trx_def)
  then have "unat (21000 :: u64) \<le> 2 * unat (r_GasUsed r)" "r_GasUsed r \<le> 30000" using g r(1,2) by auto
  then show ?thesis using r(1,2) by (intro exI [of _ r] exI [of _ e']) simp
qed

end
