(* ===== verification/Evm_Safety.thy ===== *)
theory Evm_Safety
  imports Evm_Termination
begin

text \<open>
  What a frame keeps of its caller: the depth, the read-only flag and the memory pool are restored,
  every change of the state can be undone, and a call that fails undoes them. The contract of the
  function that runs a callee is the locale \<open>safe_runner\<close>; the interpreter provides it, by induction
  over its fuel. The precompiled contracts are a parameter; what the interpreter relies on in them
  is \<open>precompile_safe\<close>.
\<close>

section \<open>What a call keeps\<close>

definition pool_ok :: "MemoryPool \<Rightarrow> bool" where
  "pool_ok p \<longleftrightarrow> reserved p \<le> length (buf p) \<and> drop (reserved p) (buf p) = replicate (length (buf p) - reserved p) 0"

definition evm_keeps :: "evm \<Rightarrow> evm \<Rightarrow> bool" where
  "evm_keeps e e' \<longleftrightarrow>
     depth e' = depth e \<and> read_only e' = read_only e \<and> mem_pool e' = mem_pool e \<and>
     dom (accounts (state e)) \<subseteq> dom (accounts (state e')) \<and> journaled (state e) (state e') \<and>
     keeps_code (state e) (state e')"

definition precompile_safe :: "precompile \<Rightarrow> bool" where
  "precompile_safe p \<longleftrightarrow>
     (\<forall>frame e r e'. pc_Run p frame e = Some (r, e') \<longrightarrow>
        f_Account frame \<in> dom (accounts (state e)) \<longrightarrow> evm_keeps e e')"

definition precompiles_safe :: "Precompiles \<Rightarrow> bool" where
  "precompiles_safe ps \<longleftrightarrow> (\<forall>i p. ps i = Some p \<longrightarrow> precompile_safe p)"

lemma evm_keeps_refl [simp]: "evm_keeps e e"
  by (simp add: evm_keeps_def)

lemma evm_keeps_trans [trans]:
  assumes "evm_keeps a b" "evm_keeps b c" shows "evm_keeps a c"
proof -
  have "journaled (state a) (state c)" "keeps_code (state a) (state c)"
    using assms unfolding evm_keeps_def by (blast intro: journaled_trans keeps_code_trans)+
  moreover have "dom (accounts (state a)) \<subseteq> dom (accounts (state c))"
    using assms unfolding evm_keeps_def by blast
  ultimately show ?thesis using assms by (simp add: evm_keeps_def)
qed

lemma evm_keeps_dom: "evm_keeps e e' \<Longrightarrow> a \<in> dom (accounts (state e)) \<Longrightarrow> a \<in> dom (accounts (state e'))"
  unfolding evm_keeps_def by blast

lemma evm_keeps_upd_state:
  assumes "journaled (state e) (f (state e))" "keeps_code (state e) (f (state e))"
    "dom (accounts (state e)) \<subseteq> dom (accounts (f (state e)))"
  shows "evm_keeps e (upd_state f e)"
  using assms by (simp add: evm_keeps_def)

lemma evm_keeps_sim:
  assumes "sim (state e) ts" "TransitionState.reverts ts = TransitionState.reverts (state e)"
  shows "evm_keeps e (e\<lparr>state := ts\<rparr>)"
  using assms journaled_silent keeps_code_sim(1) by (simp add: evm_keeps_def sim_def)

lemma SubBalance_dom [simp]: "dom (accounts (SubBalance a x ts)) = dom (accounts ts)"
  by (simp add: SubBalance_def Let_def set_balance_def change_simps)

lemma IncrementNonce_dom [simp]: "dom (accounts (IncrementNonce a ts)) = dom (accounts ts)"
  by (simp add: IncrementNonce_def Let_def change_simps)

lemma SetCode_dom [simp]: "dom (accounts (SetCode h a code ts)) = dom (accounts ts)"
  by (simp add: SetCode_def Let_def change_simps)

lemma evm_keeps_balance:
  "a \<in> dom (accounts (state e)) \<Longrightarrow> evm_keeps e (upd_state (AddBalance a x) e)"
  "a \<in> dom (accounts (state e)) \<Longrightarrow> evm_keeps e (upd_state (SubBalance a x) e)"
  "a \<in> dom (accounts (state e)) \<Longrightarrow> evm_keeps e (upd_state (IncrementNonce a) e)"
  "evm_keeps e (upd_state (GetAccountConcrete a) e)"
  using GetAccountConcrete_view [where ts = "state e" and a = a]
  by (simp_all add: evm_keeps_def journaled_AddBalance journaled_SubBalance journaled_IncrementNonce
      keeps_code_AddBalance keeps_code_SubBalance keeps_code_IncrementNonce journaled_GetAccountConcrete
      keeps_code_sim(1) del: domIff) (simp add: sim_def)

lemma transfer_keeps:
  assumes "a \<in> dom (accounts (state e))" "b \<in> dom (accounts (state e))"
  shows "evm_keeps e (transfer a b v e)"
proof -
  have t: "transfer a b v e = upd_state (AddBalance b v) (upd_state (SubBalance a v) e)"
    by (simp add: transfer_def upd_state_def)
  have "evm_keeps e (upd_state (SubBalance a v) e)" using assms(1) by (rule evm_keeps_balance(2))
  also have "evm_keeps \<dots> (transfer a b v e)"
    unfolding t using assms(2) by (intro evm_keeps_balance(1)) (simp del: domIff)
  finally show ?thesis .
qed

lemma GetCode_keeps: "GetCode (state e) a = Some (code, ts) \<Longrightarrow> evm_keeps e (e\<lparr>state := ts\<rparr>)"
  by (rule evm_keeps_sim) (use GetCode_ok in auto)

text \<open>Reverting to a snapshot taken before changes that are all in the journal.\<close>

lemma revert_keeps:
  assumes k: "evm_keeps e e'" and r: "RevertToSnapshot (Snapshot (state e)) (state e') = Some ts"
  shows "evm_keeps e (e'\<lparr>state := ts\<rparr>) \<and> sim (state e) ts"
proof -
  have "sim (state e) ts" "TransitionState.reverts ts = TransitionState.reverts (state e)"
    using k r RevertToSnapshot_ok [of "state e" "state e'"] by (auto simp: evm_keeps_def)
  then show ?thesis
    using k evm_keeps_sim [of e ts] by (simp add: evm_keeps_def)
qed


section \<open>Frames\<close>

text \<open>The invariant of the running frame, and what every instruction keeps.\<close>

definition frame_ok :: "machine \<Rightarrow> evm \<Rightarrow> bool" where
  "frame_ok m e \<longleftrightarrow> mem_ok (mem_pool e) (mem m) \<and> f_Account (c_frame (contract m)) \<in> dom (accounts (state e))"

definition frame_step :: "machine \<Rightarrow> evm \<Rightarrow> machine \<Rightarrow> evm \<Rightarrow> bool" where
  "frame_step m e m' e' \<longleftrightarrow>
     f_Account (c_frame (contract m')) = f_Account (c_frame (contract m)) \<and>
     mem_step (mem_pool e) (mem m) (mem_pool e') (mem m') \<and>
     depth e' = depth e \<and> read_only e' = read_only e \<and>
     dom (accounts (state e)) \<subseteq> dom (accounts (state e')) \<and> journaled (state e) (state e') \<and>
     keeps_code (state e) (state e')"

lemma frame_step_refl: "frame_ok m e \<Longrightarrow> frame_step m e m e"
  by (simp add: frame_ok_def frame_step_def)

lemma frame_step_trans [trans]:
  assumes "frame_step a b c d" "frame_step c d x y" shows "frame_step a b x y"
proof -
  have "journaled (state b) (state y)" "keeps_code (state b) (state y)"
    using assms unfolding frame_step_def by (blast intro: journaled_trans keeps_code_trans)+
  moreover have "dom (accounts (state b)) \<subseteq> dom (accounts (state y))"
    using assms unfolding frame_step_def by blast
  ultimately show ?thesis using assms unfolding frame_step_def by (metis mem_step_trans)
qed

lemma frame_step_ok: "frame_ok m e \<Longrightarrow> frame_step m e m' e' \<Longrightarrow> frame_ok m' e'"
  unfolding frame_ok_def frame_step_def mem_step_def by (simp add: subset_iff del: domIff)

lemma frame_ok_pool: "frame_ok m e \<Longrightarrow> pool_ok (mem_pool e)"
  unfolding frame_ok_def mem_ok_def pool_ok_def by blast

lemma frame_step_call:
  assumes "frame_ok m e" "evm_keeps e e'" shows "frame_step m e m e'"
  using assms by (simp add: frame_ok_def frame_step_def evm_keeps_def)

lemma frame_step_same:
  assumes "frame_step m e m' e'" "mem n = mem m'" "f_Account (c_frame (contract n)) = f_Account (c_frame (contract m'))"
    "state e2 = state e'" "depth e2 = depth e'" "read_only e2 = read_only e'" "mem_pool e2 = mem_pool e'"
  shows "frame_step m e n e2"
  using assms by (simp add: frame_step_def)

lemma frame_step_op:
  assumes "frame_ok m e" "op_keeps m e m' e'" "journaled (state e) (state e')" "keeps_code (state e) (state e')"
  shows "frame_step m e m' e'"
  using assms by (simp add: frame_ok_def frame_step_def op_keeps_def)

lemma gas_frame_step: "gas_frame m e m' e' \<Longrightarrow> frame_ok m e \<Longrightarrow> frame_step m e m' e'"
  using gas_frame_keeps [of m e m' e'] unfolding gas_frame_def frame_ok_def frame_step_def mem_step_def by simp

lemma call_gas_guards: "call_gas_ok v g \<Longrightarrow> gas_guards g"
  unfolding call_gas_ok_def gas_guards_def by blast

lemma entry_guards: "op_plain op \<or> op_call_entry b op \<Longrightarrow> memorySize op = None \<or> gas_guards (gasCost op)"
  unfolding op_plain_def op_call_entry_def
  by (elim disjE exE conjE)
    (auto simp: mk_op_def intro: call_gas_guards call_gas_functions call_gas_Call
      memory_gas_functions [THEN gas_memory_ok(2)])

lemma charge_safe:
  assumes c: "charge operation b m e = Some (err, m', e')" and op: "op_plain operation \<or> op_call_entry b operation"
    and ok: "frame_ok m e"
  shows "frame_step m e m' e' \<and> stack m' = stack m"
  using c entry_gas_ok [OF op]
proof (cases rule: charge_cases)
  case (fails x)
  then show ?thesis using gas_frame_step [OF _ ok] gas_frame_keeps(2) by blast
next
  case (pays cost sz m1 e1)
  note st = gas_frame_step [OF pays(2) ok]
  have stack: "stack m1 = stack m" "mem_pool e1 = mem_pool e" "contract m1 = contract m"
    using gas_frame_keeps [OF pays(2)] by simp_all
  from pays(8) show ?thesis
  proof (elim disjE exE conjE)
    assume "e' = e1" "m' = m1\<lparr>contract := set_Gas (c_Gas (contract m) - cost) (contract m)\<rparr>"
    then show ?thesis using st stack by (auto simp: set_Gas_def intro: frame_step_same [OF st])
  next
    fix p mm assume r: "Resize sz (mem_pool e) (mem m1) = Some (p, mm)" and e': "e' = e1\<lparr>mem_pool := p\<rparr>"
      and m': "m' = m1\<lparr>contract := set_Gas (c_Gas (contract m) - cost) (contract m), mem := mm\<rparr>"
    have "sz = 0 \<or> sz \<le> 0xffffffffe0"
      using entry_guards [OF op] pays(3,6) unfolding gas_guards_def by blast
    then have "unat sz < 2 ^ 63" by (auto simp: word_le_nat_alt)
    then have "mem_step (mem_pool e1) (mem m1) p mm"
      using Resize_step [of "mem_pool e" "mem m1"] r frame_step_ok [OF ok st] stack by (simp add: frame_ok_def)
    then show ?thesis
      using st stack mem_step_trans by (auto simp: e' m' frame_step_def set_Gas_def simp del: domIff)
  qed
qed

section \<open>Calls and creations\<close>

lemma frame_NewContract [simp]: "c_frame (NewContract frame code h) = frame"
  by (simp add: NewContract_def)

lemma Precompiles_Get_safe:
  "precompiles_safe ps \<Longrightarrow> Precompiles_Get ps a = Some p \<Longrightarrow> precompile_safe p"
  by (auto simp: Precompiles_Get_def precompiles_safe_def Let_def split: option.splits if_splits)

lemma call_frame_account:
  "call_frame typ caller callee input gas v = Some frame \<Longrightarrow>
     f_Account frame = callee \<or> f_Account frame = ref_Address caller"
  by (auto simp: call_frame_def split: call_kind.splits ContractRef.splits)

lemma after_op_evm:
  assumes "after_op operation ((res, err), m, e) = (out, m', e')"
  shows "state e' = state e" "depth e' = depth e" "read_only e' = read_only e" "mem_pool e' = mem_pool e"
  using assms by (auto simp: after_op_def Let_def split: if_splits)

lemma use_Gas_account [simp]: "f_Account (c_frame (contract (use_Gas g m))) = f_Account (c_frame (contract m))"
  by (simp add: use_Gas_def UseGas_def set_Gas_def)

lemma opCreate_Done:
  assumes "opCreate rn env m e = Done (r, m', e')"
  shows "\<exists>v off sz st code a gas ret left er e1. stack m = v # off # sz # st \<and>
    create rn env (f_Account (c_frame (contract m))) code None gas (uint v) a e = Done ((ret, left, er), e1) \<and>
    opCreate_finish (use_Gas gas (m\<lparr>stack := st\<rparr>)) ((ret, a, left, er), e1) = Done (r, m', e')"
  using assms
  by (auto simp: opCreate_def create_1_def Let_def exec_bind_eq_Done pop3_Some elim!: bind_eq_SomeE) blast

lemma opCreate2_Done:
  assumes "opCreate2 rn env m e = Done (r, m', e')"
  shows "\<exists>v off sz salt st code h a gas ret left er e1. stack m = v # off # sz # salt # st \<and>
    create rn env (f_Account (c_frame (contract m))) code (Some h) gas (uint v) a e = Done ((ret, left, er), e1) \<and>
    opCreate_finish (use_Gas gas (m\<lparr>stack := st\<rparr>)) ((ret, a, left, er), e1) = Done (r, m', e')"
  using assms
  by (auto simp: opCreate2_def create_2_def Let_def exec_bind_eq_Done pop3_Some pop_Some elim!: bind_eq_SomeE) blast

locale safe_runner =
  fixes rn :: runner and env :: vm_env
  assumes run_safe: "rn c ro e = Done (r, c', e') \<Longrightarrow> pool_ok (mem_pool e) \<Longrightarrow>
      f_Account (c_frame c) \<in> dom (accounts (state e)) \<Longrightarrow> evm_keeps e e'"
    and safe_precompiles: "precompiles_safe (env_precompiles env)"
begin

lemma call_code_of_safe:
  assumes "call_code_of rn env typ callee frame code gas e = Done ((ret, left, err), e')" "pool_ok (mem_pool e)"
    "f_Account frame \<in> dom (accounts (state e))"
  shows "evm_keeps e e'"
proof (cases "Precompiles_Get (env_precompiles env) callee")
  case None
  then consider "e' = e" | (runs) r c where
    "rn (NewContract frame code (GetCodeHash (env_keccak256 env) (state e) callee)) (typ = KStaticCall) e = Done (r, c, e')"
    using assms(1) by (auto simp: call_code_of_def exec_bind_eq_Done split: if_splits)
  then show ?thesis
  proof cases
    case runs
    from run_safe [OF this assms(2)] assms(3) show ?thesis by simp
  qed simp
next
  case (Some p)
  then have "precompile_safe p" using Precompiles_Get_safe safe_precompiles by blast
  then have safe: "evm_keeps e e''" if "pc_Run p frame e = Some (r, e'')" for r e''
    using that assms(3) unfolding precompile_safe_def by blast
  consider "e' = e" | r where "pc_Run p frame e = Some (r, e')"
    using Some assms(1) by (auto simp: call_code_of_def split: if_splits elim!: bind_eq_SomeE)
  then show ?thesis by cases (simp, rule safe)
qed

lemma call_finish_safe:
  assumes k: "evm_keeps e e1" and f: "call_finish pre (Snapshot (state e)) ((ret1, left1, err1), e1) = Done ((ret, left, err), e')"
  shows "evm_keeps e e' \<and> (err \<noteq> None \<longrightarrow> sim (state e) (state e'))"
proof (cases err1)
  case None
  then show ?thesis using k f by (simp add: call_finish_def)
next
  case (Some x)
  then obtain ts where "RevertToSnapshot (Snapshot (state e)) (state e1) = Some ts" "e' = e1\<lparr>state := ts\<rparr>"
    using f by (auto simp: call_finish_def exec_bind_eq_Done)
  then show ?thesis using revert_keeps [OF k] by simp
qed

lemma call_safe:
  assumes c: "call rn env typ caller callee input gas v e = Done ((ret, left, err), e')" and p: "pool_ok (mem_pool e)"
    and d: "callee \<in> dom (accounts (state e))" "ref_Address caller \<in> dom (accounts (state e))"
  shows "evm_keeps e e' \<and> (err \<noteq> None \<longrightarrow> sim (state e) (state e'))"
proof -
  let ?e = "if typ = KCall then transfer (ref_Address caller) callee v e
            else if typ = KStaticCall then upd_state (AddBalance callee 0) e else e"
  have k1: "evm_keeps e ?e" using d transfer_keeps evm_keeps_balance(1) by (simp del: domIff)
  consider "e' = e" | (runs) code ts frame ret1 left1 err1 e1 where "GetCode (state ?e) callee = Some (code, ts)"
    "call_frame typ caller callee input gas v = Some frame"
    "call_code_of rn env typ callee frame code gas (?e\<lparr>state := ts\<rparr>) = Done ((ret1, left1, err1), e1)"
    "call_finish (Precompiles_Get (env_precompiles env) callee \<noteq> None) (Snapshot (state e)) ((ret1, left1, err1), e1)
      = Done ((ret, left, err), e')"
    using c unfolding call_def Let_def
    by (auto simp: exec_bind_eq_Done split: if_splits prod.splits)
  then show ?thesis
  proof cases
    case runs
    note k2 = evm_keeps_trans [OF k1 GetCode_keeps [OF runs(1)]]
    have "f_Account frame \<in> dom (accounts (state (?e\<lparr>state := ts\<rparr>)))"
      using call_frame_account [OF runs(2)] evm_keeps_dom [OF k2] d by metis
    moreover have "pool_ok (mem_pool (?e\<lparr>state := ts\<rparr>))" using k2 p by (simp add: evm_keeps_def)
    ultimately have "evm_keeps (?e\<lparr>state := ts\<rparr>) e1" using call_code_of_safe [OF runs(3)] by blast
    from call_finish_safe [OF evm_keeps_trans [OF k2 this] runs(4)] show ?thesis .
  qed simp
qed

lemma create_finish_safe:
  assumes k: "evm_keeps e e1" and new: "nonce_code (state e) a = None \<or> (\<exists>n sz. nonce_code (state e) a = Some (n, sz) \<and> n \<le> 0)"
    and d: "a \<in> dom (accounts (state e1))" and z: "GetCodeSize (state e1) a = 0"
    and f: "create_finish env a (Snapshot (state e)) ((ret1, err1), c, e1) = Done ((ret, left, err), e')"
  shows "evm_keeps e e' \<and> (err \<noteq> None \<longrightarrow> sim (state e) (state e'))"
proof (cases err)
  case None
  then have e': "e' = upd_state (SetCode (env_keccak256 env) a ret1) e1"
    using f by (auto simp: create_finish_def Let_def exec_bind_eq_Done split: prod.splits if_splits)
  have "journaled (state e) (state e')"
    using k journaled_trans journaled_SetCode [OF d z] by (auto simp: evm_keeps_def e')
  moreover have "keeps_code (state e) (state e')"
    unfolding e' upd_state_simps by (rule keeps_code_SetCode) (use k new in \<open>auto simp: evm_keeps_def\<close>)
  ultimately show ?thesis using k None by (simp add: evm_keeps_def e')
next
  case (Some x)
  then obtain ts where "RevertToSnapshot (Snapshot (state e)) (state e1) = Some ts" "e' = e1\<lparr>state := ts\<rparr>"
    using f by (auto simp: create_finish_def Let_def exec_bind_eq_Done split: prod.splits if_splits)
  then show ?thesis using revert_keeps [OF k] by simp
qed

lemma create_safe:
  assumes c: "create rn env caller code h gas v a e = Done ((ret, left, err), e')" and p: "pool_ok (mem_pool e)"
    and d: "caller \<in> dom (accounts (state e))"
  shows "evm_keeps e e'"
proof -
  let ?e = "upd_state (GetAccountConcrete a) (upd_state (IncrementNonce caller) e)"
  let ?f = "transfer caller a v (upd_state (IncrementNonce a) ?e)"
  let ?frame = "\<lparr>f_CallerAccount = caller, f_Account = a, f_Input = [], f_Gas = gas, f_Value = v\<rparr>"
  have k: "evm_keeps e ?e"
    using evm_keeps_trans [OF evm_keeps_balance(3) [OF d] evm_keeps_balance(4)] .
  have da: "a \<in> dom (accounts (state ?e))" by (simp del: domIff)
  consider "e' = e" | "e' = ?e" | (runs) r1 c1 e1 where "GetNonce (state ?e) a = 0" "GetCodeSize (state ?e) a = 0"
    "rn (NewContract ?frame code h) False ?f = Done (r1, c1, e1)"
    "create_finish env a (Snapshot (state ?e)) (r1, c1, e1) = Done ((ret, left, err), e')"
    using c unfolding create_def Let_def by (auto simp: exec_bind_eq_Done split: if_splits)
  then show ?thesis
  proof cases
    case runs
    have k1: "evm_keeps ?e (upd_state (IncrementNonce a) ?e)" by (rule evm_keeps_balance(3) [OF da])
    have k2: "evm_keeps (upd_state (IncrementNonce a) ?e) ?f"
      by (rule transfer_keeps) (use d evm_keeps_dom [OF evm_keeps_trans [OF k k1]] evm_keeps_dom [OF k1 da] in blast)+
    have "pool_ok (mem_pool ?f)" "f_Account (c_frame (NewContract ?frame code h)) \<in> dom (accounts (state ?f))"
      using p evm_keeps_trans [OF k1 k2] k evm_keeps_dom [OF evm_keeps_trans [OF k1 k2] da]
      by (simp_all add: evm_keeps_def del: domIff)
    note k3 = run_safe [OF runs(3) this]
    have "nonce_code (state (upd_state (IncrementNonce a) ?e)) a = Some (1, 0)"
      using nonce_code_created [OF da runs(1,2)] by simp
    moreover have "keeps_code (state (upd_state (IncrementNonce a) ?e)) (state e1)"
      using evm_keeps_trans [OF k2 k3] unfolding evm_keeps_def by blast
    ultimately obtain n where "nonce_code (state e1) a = Some (n, 0)"
      unfolding keeps_code_def by (meson zero_less_one)
    moreover note k4 = evm_keeps_trans [OF evm_keeps_trans [OF k1 k2] k3]
    moreover note d1 = evm_keeps_dom [OF k4 da]
    ultimately have z: "GetCodeSize (state e1) a = 0"
      using nonce_code_dom [OF d1] by (auto simp: GetCodeSize_def)
    have "nonce_code (state ?e) a = None \<or> (\<exists>n sz. nonce_code (state ?e) a = Some (n, sz) \<and> n \<le> 0)"
      using nonce_code_dom [OF da] runs(1) by (auto simp: GetNonce_def split: option.splits)
    then have "evm_keeps ?e e'"
      using create_finish_safe [OF k4 _ d1 z, of "fst r1" "snd r1" c1] runs(4) by auto
    with k show ?thesis by (rule evm_keeps_trans)
  qed (use k in auto)
qed

text \<open>The instructions.\<close>

lemma opCall_finish_safe:
  assumes ok: "frame_ok m e" and f: "opCall_finish io isz args ro rs m ((ret, left, err), e) = Done (r, m', e')"
  shows "frame_step m e m' e' \<and> length (stack m') = Suc (length (stack m))"
proof -
  let ?m = "m\<lparr>stack := push (if err = None then 1 else 0) (stack m)\<rparr>"
  have ok': "frame_ok ?m e" using ok by (simp add: frame_ok_def)
  obtain m1 e1 where m1: "(if err = None \<or> err = Some ErrExecutionReverted
      then mem_set ro rs (case ret of Fresh b \<Rightarrow> b | InputAlias \<Rightarrow> args) ?m e else Some (?m, e)) = Some (m1, e1)"
    and m': "m' = add_Gas left m1" "e' = e1"
    using f by (auto simp: opCall_finish_def Let_def elim!: bind_eq_SomeE)
  have "op_keeps ?m e m1 e1 \<and> stack m1 = stack ?m \<and> state e1 = state e"
  proof (cases "err = None \<or> err = Some ErrExecutionReverted")
    case True
    then show ?thesis using m1 by (auto dest: mem_set_keeps)
  next
    case False
    then show ?thesis using m1 by (auto simp: op_keeps_stack)
  qed
  then show ?thesis
    using ok by (simp add: m' frame_ok_def frame_step_def op_keeps_def add_Gas_def set_Gas_def push_def)
qed

lemma call_op_safe:
  assumes ok: "frame_ok m e" and x: "exec_bind (call rn env k (ContractObj (contract m)) (Bytes20 addr) args gas v
      (snd (get_account addr e))) (opCall_finish io isz args ro rs (m\<lparr>stack := st\<rparr>)) = Done (r, m', e')"
  shows "frame_step m e m' e' \<and> length (stack m') = Suc (length st)"
proof -
  let ?e = "snd (get_account addr e)"
  obtain ret left err e2 where c: "call rn env k (ContractObj (contract m)) (Bytes20 addr) args gas v ?e = Done ((ret, left, err), e2)"
    and f: "opCall_finish io isz args ro rs (m\<lparr>stack := st\<rparr>) ((ret, left, err), e2) = Done (r, m', e')"
    using x by (auto simp: exec_bind_eq_Done)
  have k: "evm_keeps e ?e" using evm_keeps_balance(4) [of e "Bytes20 addr"] by (simp add: get_account_def)
  have "f_Account (c_frame (contract m)) \<in> dom (accounts (state ?e))"
    using evm_keeps_dom [OF k] ok by (simp add: frame_ok_def del: domIff)
  moreover have "pool_ok (mem_pool ?e)" using k frame_ok_pool [OF ok] by (simp add: evm_keeps_def)
  moreover have "Bytes20 addr \<in> dom (accounts (state ?e))" by (simp add: get_account_def del: domIff)
  ultimately have k2: "evm_keeps e e2" using call_safe [OF c] evm_keeps_trans [OF k] by simp
  have ok1: "frame_ok (m\<lparr>stack := st\<rparr>) e" using ok by (simp add: frame_ok_def)
  note s = frame_step_call [OF ok1 k2]
  note ok2 = frame_step_ok [OF ok1 s]
  have "frame_step (m\<lparr>stack := st\<rparr>) e m' e'" "length (stack m') = Suc (length st)"
    using frame_step_trans [OF s] opCall_finish_safe [OF ok2 f] by auto
  then show ?thesis by (simp add: frame_step_def)
qed

lemma create_op_safe:
  assumes ok: "frame_ok m e" and c: "create rn env (f_Account (c_frame (contract m))) code h gas v a e = Done ((ret, left, err), e1)"
    and f: "opCreate_finish (use_Gas g (m\<lparr>stack := st\<rparr>)) ((ret, a, left, err), e1) = Done (r, m', e')"
  shows "frame_step m e m' e' \<and> length (stack m') = Suc (length st)"
proof -
  have "evm_keeps e e1"
    using create_safe [OF c frame_ok_pool [OF ok]] ok by (simp add: frame_ok_def del: domIff)
  then have "frame_step m e m e1" by (rule frame_step_call [OF ok])
  moreover have "e' = e1" "mem m' = mem m" "length (stack m') = Suc (length st)"
    "f_Account (c_frame (contract m')) = f_Account (c_frame (contract m))"
    using f by (auto simp: opCreate_finish_def Let_def add_Gas_def use_Gas_def UseGas_def set_Gas_def push_def)
  ultimately show ?thesis by (simp add: frame_step_def)
qed

lemma call_entry_safe:
  assumes op: "op_call_entry b operation" and ok: "frame_ok m e" and vs: "validateStack operation (stack m) = None"
    and x: "execute operation rn env m e = Done ((res, err), m', e')"
  shows "frame_step m e m' e' \<and> length (stack m') \<le> StackLimit"
  using op
proof (cases rule: call_entry_cases)
  case (valued k)
  show ?thesis
  proof (cases rule: opCall_with_cases [of "\<lambda>rn env. call rn env k" rn env m e])
    case (calls q addr v io isz ro rs st args)
    note r = call_op_safe [OF ok trans [OF calls(3) [symmetric] x [unfolded valued(2)]]]
    then show ?thesis using calls(1) vs valued(4) by (simp add: makeStackFunc_None)
  qed (use x valued(2) in simp)
next
  case (plain k)
  show ?thesis
  proof (cases rule: opCall_without_value_cases [of "\<lambda>rn env caller callee input gas. call rn env k caller callee input gas 0" rn env m e])
    case (calls q addr io isz ro rs st args)
    note r = call_op_safe [OF ok trans [OF calls(3) [symmetric] x [unfolded plain(2)]]]
    then show ?thesis using calls(1) vs plain(4) by (simp add: makeStackFunc_None)
  qed (use x plain(2) in simp)
next
  case creates
  from creates(3) show ?thesis
  proof (elim disjE conjE)
    assume "execute operation = opCreate" and v: "validateStack operation = makeStackFunc 3 1"
    with x have "opCreate rn env m e = Done ((res, err), m', e')" by simp
    from opCreate_Done [OF this] show ?thesis
      using create_op_safe [OF ok] vs v by (fastforce simp: makeStackFunc_None)
  next
    assume "execute operation = opCreate2" and v: "validateStack operation = makeStackFunc 4 1"
    with x have "opCreate2 rn env m e = Done ((res, err), m', e')" by simp
    from opCreate2_Done [OF this] show ?thesis
      using create_op_safe [OF ok] vs v by (fastforce simp: makeStackFunc_None)
  qed
qed

lemma plain_entry_safe:
  assumes op: "op_plain operation" and ok: "frame_ok m e" and vs: "validateStack operation (stack m) = None"
    and x: "execute operation rn env m e = Done ((res, err), m', e')"
  shows "frame_step m e m' e' \<and> (err = None \<longrightarrow> length (stack m') \<le> StackLimit)"
proof -
  obtain p q f where f: "execute operation = simple f" "validateStack operation = makeStackFunc p q" "simple_ok p q f"
    using op unfolding op_plain_def by blast
  have s: "f env m e = Some ((res, err), m', e')" using x f(1) by (simp add: simple_def)
  have k: "op_keeps m e m' e'" "keeps_code (state e) (state e')" "err = None \<longrightarrow> length (stack m') + p = length (stack m) + q"
    "f_Account (c_frame (contract m)) \<in> dom (accounts (state e)) \<longrightarrow> journaled (state e) (state e')"
    using f(3) s unfolding simple_ok_def by blast+
  have "journaled (state e) (state e')" using k(4) ok unfolding frame_ok_def by blast
  from frame_step_op [OF ok k(1) this k(2)] k(3) vs f(2) show ?thesis
    by (auto simp: makeStackFunc_None)
qed

lemma step_safe:
  assumes s: "step rn env m e = Done (out, m', e')" and ok: "frame_ok m e"
  shows "frame_step m e m' e' \<and> (out = None \<longrightarrow> length (stack m') \<le> StackLimit)"
proof (cases "eblaInstructionSet (GetOp (contract m) (pc m))")
  case None
  then show ?thesis using s frame_step_refl [OF ok] by (auto simp: step_def Let_def)
next
  case (Some operation)
  let ?b = "GetOp (contract m) (pc m)"
  note entry = instruction_entry [OF Some]
  from s Some obtain err m1 e1 where c: "charge operation ?b m e = Some (err, m1, e1)"
    by (auto simp: step_def Let_def exec_bind_eq_Done)
  note ch = charge_safe [OF c entry ok]
  show ?thesis
  proof (cases err)
    case None
    obtain res er m2 e2 where x: "execute operation rn env m1 e1 = Done ((res, er), m2, e2)"
      and a: "after_op operation ((res, er), m2, e2) = (out, m', e')"
      using s Some c None by (auto simp: step_def Let_def exec_bind_eq_Done)
    have "validateStack operation (stack m) = None"
      using c None by (auto simp: charge_def split: option.splits)
    then have vs: "validateStack operation (stack m1) = None" using ch by simp
    have ok1: "frame_ok m1 e1" using frame_step_ok [OF ok] ch by blast
    have x2: "frame_step m1 e1 m2 e2 \<and> (er = None \<longrightarrow> length (stack m2) \<le> StackLimit)"
      using entry plain_entry_safe [OF _ ok1 vs x] call_entry_safe [OF _ ok1 vs x] by blast
    have "frame_step m e m2 e2" using frame_step_trans ch x2 by blast
    then have "frame_step m e m' e'"
      by (rule frame_step_same) (use after_op_cases(1,3) [OF a] after_op_evm [OF a] in simp_all)
    then show ?thesis using x2 after_op_cases(2,5) [OF a] by simp
  next
    case (Some er)
    then show ?thesis
      using s c \<open>eblaInstructionSet ?b = _\<close> ch by (auto simp: step_def Let_def)
  qed
qed

end

section \<open>The interpreter\<close>

lemma run_with_safe:
  assumes lp: "\<And>m e r m' e'. lp m e = Done (r, m', e') \<Longrightarrow> frame_ok m e \<Longrightarrow> frame_step m e m' e'"
    and r: "run_with lp c ro e = Done (r, c', e')" and p: "pool_ok (mem_pool e)"
    and d: "f_Account (c_frame c) \<in> dom (accounts (state e))"
  shows "evm_keeps e e'"
proof -
  let ?m = "\<lparr>pc = 0, contract = c, mem = Memory_Init (mem_pool e), stack = newstack\<rparr>"
  let ?e = "e\<lparr>depth := depth e + 1, last_retval := [], read_only := read_only e \<or> ro \<and> \<not> read_only e\<rparr>"
  obtain m1 e1 where l: "lp ?m ?e = Done (r, m1, e1)" and e': "e' = (let e = (if ro \<and> \<not> read_only e then e1\<lparr>read_only := False\<rparr> else e1)
      in e\<lparr>depth := depth e - 1, mem_pool := fst (Release (mem_pool e) (mem m1))\<rparr>)"
    using r by (auto simp: run_with_def Let_def exec_bind_eq_Done)
  have "frame_ok ?m ?e"
    using Memory_Init_ok(1) [of "mem_pool e"] p d by (simp add: frame_ok_def pool_ok_def)
  from lp [OF l this] have st: "frame_step ?m ?e m1 e1" .
  then have "fst (Release (mem_pool e1) (mem m1)) = mem_pool e"
    using p by (intro Release_restores) (simp_all add: frame_step_def pool_ok_def)
  then show ?thesis using st by (auto simp: e' Let_def evm_keeps_def frame_step_def)
qed

lemma loop_safe:
  assumes "precompiles_safe (env_precompiles env)"
  shows "loop env n m e = Done (r, m', e') \<Longrightarrow> frame_ok m e \<Longrightarrow> frame_step m e m' e'"
proof (induction n arbitrary: m e r m' e')
  case (Suc n)
  have sr: "safe_runner (run_with (loop env n)) env"
    by unfold_locales (rule run_with_safe [OF Suc.IH], assumption+, fact assms)
  from Suc.prems(1) obtain out m1 e1 where s: "step (run_with (loop env n)) env m e = Done (out, m1, e1)"
    and rest: "(case out of Some r \<Rightarrow> Done (r, m1, e1) | None \<Rightarrow> loop env n m1 e1) = Done (r, m', e')"
    by (auto simp: exec_bind_eq_Done)
  have st: "frame_step m e m1 e1" using safe_runner.step_safe [OF sr s Suc.prems(2)] by blast
  show ?case
  proof (cases out)
    case None
    with rest have "loop env n m1 e1 = Done (r, m', e')" by simp
    from Suc.IH [OF this frame_step_ok [OF Suc.prems(2) st]] st show ?thesis using frame_step_trans by blast
  qed (use rest st in simp)
qed simp

lemma run_safe_runner: "precompiles_safe (env_precompiles env) \<Longrightarrow> safe_runner (run n env) env"
  unfolding run_def by unfold_locales (rule run_with_safe [OF loop_safe], assumption+)

end
