(* ===== verification/Evm_Precompiles.thy ===== *)
theory Evm_Precompiles
  imports Evm_Safety
begin

text \<open>
  The precompiled contracts (\<open>core/vm/contracts.go\<close>): the price and the execution of each, and the
  table \<open>PrecompiledContractsEbla\<close> that the EVM is created with.

  None of them uses anything of its call frame but the input, and none touches the EVM object, so each
  is a function of the input; \<open>Inl\<close> is the error of \<open>Run\<close>. The cryptography is a parameter: the hash
  functions, the recovery of a public key, the curve \<open>bn256\<close> and the library \<open>gnark-crypto\<close> for
  BLS12-381 are the fields of \<open>vm_crypto\<close>, over types of points and field elements that stay abstract.
  The parsing, the validation, the padding, the prices and the order of the checks are the model's.
\<close>

section \<open>Prices\<close>

definition EcrecoverGas :: u64 where "EcrecoverGas = 3000"
definition Sha256BaseGas :: u64 where "Sha256BaseGas = 60"
definition Sha256PerWordGas :: u64 where "Sha256PerWordGas = 12"
definition Ripemd160BaseGas :: u64 where "Ripemd160BaseGas = 600"
definition Ripemd160PerWordGas :: u64 where "Ripemd160PerWordGas = 120"
definition IdentityBaseGas :: u64 where "IdentityBaseGas = 15"
definition IdentityPerWordGas :: u64 where "IdentityPerWordGas = 3"
definition ModExpQuadCoeffDiv :: nat where "ModExpQuadCoeffDiv = 20"
definition Bn256AddGas :: u64 where "Bn256AddGas = 500"
definition Bn256ScalarMulGas :: u64 where "Bn256ScalarMulGas = 40000"
definition Bn256PairingBaseGas :: u64 where "Bn256PairingBaseGas = 100000"
definition Bn256PairingPerPointGas :: u64 where "Bn256PairingPerPointGas = 80000"
definition Bls12381G1AddGas :: u64 where "Bls12381G1AddGas = 600"
definition Bls12381G1MulGas :: u64 where "Bls12381G1MulGas = 12000"
definition Bls12381G2AddGas :: u64 where "Bls12381G2AddGas = 4500"
definition Bls12381G2MulGas :: u64 where "Bls12381G2MulGas = 55000"
definition Bls12381PairingBaseGas :: u64 where "Bls12381PairingBaseGas = 115000"
definition Bls12381PairingPerPairGas :: u64 where "Bls12381PairingPerPairGas = 23000"
definition Bls12381MapG1Gas :: u64 where "Bls12381MapG1Gas = 5500"
definition Bls12381MapG2Gas :: u64 where "Bls12381MapG2Gas = 110000"

definition Bls12381MultiExpDiscountTable :: "u64 list" where
  "Bls12381MultiExpDiscountTable =
     [1200, 888, 764, 641, 594, 547, 500, 453, 438, 423, 408, 394, 379, 364, 349, 334, 330, 326, 322, 318,
      314, 310, 306, 302, 298, 294, 289, 285, 281, 277, 273, 269, 268, 266, 265, 263, 262, 260, 259, 257,
      256, 254, 253, 251, 250, 248, 247, 245, 244, 242, 241, 239, 238, 236, 235, 233, 232, 231, 229, 228,
      226, 225, 223, 222, 221, 220, 219, 219, 218, 217, 216, 216, 215, 214, 213, 213, 212, 211, 211, 210,
      209, 208, 208, 207, 206, 205, 205, 204, 203, 202, 202, 201, 200, 199, 199, 198, 197, 196, 196, 195,
      194, 193, 193, 192, 191, 191, 190, 189, 188, 188, 187, 186, 185, 185, 184, 183, 182, 182, 181, 180,
      179, 179, 178, 177, 176, 176, 175, 174]"

section \<open>The cryptography the contracts call\<close>

record 'f G1Affine =
  g1_X :: 'f
  g1_Y :: 'f

record 'f E2 =
  e2_A0 :: 'f
  e2_A1 :: 'f

record 'f G2Affine =
  g2_X :: "'f E2"
  g2_Y :: "'f E2"

record ('p, 'q, 'f, 'r) vm_crypto =
  cr_keccak256 :: "bytes \<Rightarrow> bytes"
  cr_sha256 :: "bytes \<Rightarrow> bytes"
  cr_ripemd160 :: "bytes \<Rightarrow> bytes"
  cr_Ecrecover :: "bytes \<Rightarrow> bytes \<Rightarrow> bytes option"
  bn_G1_Unmarshal :: "bytes \<Rightarrow> string + 'p"
  bn_G1_Marshal :: "'p \<Rightarrow> bytes"
  bn_G1_Add :: "'p \<Rightarrow> 'p \<Rightarrow> 'p"
  bn_G1_ScalarMult :: "'p \<Rightarrow> nat \<Rightarrow> 'p"
  bn_G2_Unmarshal :: "bytes \<Rightarrow> string + 'q"
  bn_PairingCheck :: "'p list \<Rightarrow> 'q list \<Rightarrow> bool"
  blake2b_F :: "u64 list \<Rightarrow> u64 list \<Rightarrow> u64 list \<Rightarrow> bool \<Rightarrow> u32 \<Rightarrow> u64 list"
  fp_Element :: "bytes \<Rightarrow> string + 'f"
  fp_PutElement :: "'f \<Rightarrow> bytes"
  fr_SetBytes :: "bytes \<Rightarrow> 'r"
  g1_IsOnCurve :: "'f G1Affine \<Rightarrow> bool"
  g1_IsInSubGroup :: "'f G1Affine \<Rightarrow> bool"
  g1_Add :: "'f G1Affine \<Rightarrow> 'f G1Affine \<Rightarrow> 'f G1Affine"
  g1_ScalarMultiplication :: "'f G1Affine \<Rightarrow> nat \<Rightarrow> 'f G1Affine"
  g1_MultiExp :: "'f G1Affine list \<Rightarrow> 'r list \<Rightarrow> 'f G1Affine"
  g2_IsOnCurve :: "'f G2Affine \<Rightarrow> bool"
  g2_IsInSubGroup :: "'f G2Affine \<Rightarrow> bool"
  g2_Add :: "'f G2Affine \<Rightarrow> 'f G2Affine \<Rightarrow> 'f G2Affine"
  g2_ScalarMultiplication :: "'f G2Affine \<Rightarrow> nat \<Rightarrow> 'f G2Affine"
  g2_MultiExp :: "'f G2Affine list \<Rightarrow> 'r list \<Rightarrow> 'f G2Affine"
  bls_PairingCheck :: "'f G1Affine list \<Rightarrow> 'f G2Affine list \<Rightarrow> bool option"
  bls_MapToG1 :: "'f \<Rightarrow> 'f G1Affine"
  bls_MapToG2 :: "'f E2 \<Rightarrow> 'f G2Affine"

text \<open>The slice \<open>a[lo:hi]\<close> where the bounds are known to be in range.\<close>

definition sub :: "bytes \<Rightarrow> nat \<Rightarrow> nat \<Rightarrow> bytes" where
  "sub a lo hi = take (hi - lo) (drop lo a)"

text \<open>\<open>uint64(len(input)+31)/32*perWord + base\<close>.\<close>

definition word_price :: "u64 \<Rightarrow> u64 \<Rightarrow> bytes \<Rightarrow> u64" where
  "word_price perWord base input = word_of_nat (length input + 31) div 32 * perWord + base"

section \<open>Hashes and signatures\<close>

definition secp256k1N :: nat where
  "secp256k1N = 0xfffffffffffffffffffffffffffffffebaaedce6af48a03bbfd25e8cd0364141"

definition secp256k1halfN :: nat where
  "secp256k1halfN = secp256k1N div 2"

definition ValidateSignatureValues :: "byte \<Rightarrow> nat \<Rightarrow> nat \<Rightarrow> bool \<Rightarrow> bool" where
  "ValidateSignatureValues v r s homestead =
     (if r < 1 \<or> s < 1 then False
      else if homestead \<and> s > secp256k1halfN then False
      else r < secp256k1N \<and> s < secp256k1N \<and> (v = 0 \<or> v = 1))"

definition ecrecover_RequiredGas :: "bytes \<Rightarrow> u64" where
  "ecrecover_RequiredGas input = EcrecoverGas"

definition ecrecover_Run :: "('p, 'q, 'f, 'r) vm_crypto \<Rightarrow> bytes \<Rightarrow> (string + bytes) option" where
  "ecrecover_Run cr inp = do {
     input \<leftarrow> RightPadBytes inp 128;
     let r = big_SetBytes (sub input 64 96);
     let s = big_SetBytes (sub input 96 128);
     let v = input ! 63 - 27;
     if \<not> allZero (sub input 32 63) \<or> \<not> ValidateSignatureValues v r s False then Some (Inr [])
     else let sig = sub input 64 128 @ [v] in
       case cr_Ecrecover cr (take 32 input) sig of
         None \<Rightarrow> Some (Inr [])
       | Some pubKey \<Rightarrow> map_option Inr (LeftPadBytes (drop 12 (cr_keccak256 cr (drop 1 pubKey))) 32)
   }"

definition sha256hash_RequiredGas :: "bytes \<Rightarrow> u64" where
  "sha256hash_RequiredGas input = word_price Sha256PerWordGas Sha256BaseGas input"

definition sha256hash_Run :: "('p, 'q, 'f, 'r) vm_crypto \<Rightarrow> bytes \<Rightarrow> string + bytes" where
  "sha256hash_Run cr input = Inr (cr_sha256 cr input)"

definition ripemd160hash_RequiredGas :: "bytes \<Rightarrow> u64" where
  "ripemd160hash_RequiredGas input = word_price Ripemd160PerWordGas Ripemd160BaseGas input"

definition ripemd160hash_Run :: "('p, 'q, 'f, 'r) vm_crypto \<Rightarrow> bytes \<Rightarrow> (string + bytes) option" where
  "ripemd160hash_Run cr input = map_option Inr (LeftPadBytes (cr_ripemd160 cr input) 32)"

definition dataCopy_RequiredGas :: "bytes \<Rightarrow> u64" where
  "dataCopy_RequiredGas input = word_price IdentityPerWordGas IdentityBaseGas input"

section \<open>Modular exponentiation\<close>

text \<open>\<open>x.Exp(x, y, m)\<close> of \<open>math/big\<close> for a positive modulus.\<close>

definition big_Exp :: "nat \<Rightarrow> nat \<Rightarrow> nat \<Rightarrow> nat" where
  "big_Exp x y m = x ^ y mod m"

definition getBig :: "bytes \<Rightarrow> u64 \<Rightarrow> u64 \<Rightarrow> nat option" where
  "getBig input start sz = map_option big_SetBytes (getData input start sz)"

definition bigModExp_multiplication :: "nat \<Rightarrow> nat" where
  "bigModExp_multiplication x =
     (if x \<le> 64 then x * x
      else if x \<le> 1024 then x * x div 4 + (96 * x - 3072)
      else x * x div 16 + (480 * x - 199680))"

definition bigModExp_RequiredGas :: "bytes \<Rightarrow> u64 option" where
  "bigModExp_RequiredGas inp = do {
     baseLen \<leftarrow> getBig inp 0 32;
     expLen \<leftarrow> getBig inp 32 32;
     modLen \<leftarrow> getBig inp 64 32;
     let input = (if length inp > 96 then drop 96 inp else []);
     expHead \<leftarrow> (if length input \<le> baseLen then Some 0
                 else if expLen > 32 then getBig input (word_of_nat baseLen) 32
                 else getBig input (word_of_nat baseLen) (word_of_nat expLen));
     let bitlen = bit_len expHead;
     let msb = (if bitlen > 0 then bitlen - 1 else 0);
     let adjExpLen = (if expLen > 32 then 8 * (expLen - 32) else 0) + msb;
     let gas = bigModExp_multiplication (max modLen baseLen);
     let gas = gas * max adjExpLen 1;
     let gas = gas div ModExpQuadCoeffDiv;
     Some (if bit_len gas > 64 then MaxUint64 else word_of_nat gas)
   }"

definition bigModExp_Run :: "bytes \<Rightarrow> bytes option" where
  "bigModExp_Run inp = do {
     baseLen \<leftarrow> map_option word_of_nat (getBig inp 0 32);
     expLen \<leftarrow> map_option word_of_nat (getBig inp 32 32);
     modLen \<leftarrow> map_option word_of_nat (getBig inp 64 32);
     let input = (if length inp > 96 then drop 96 inp else []);
     if baseLen = (0 :: u64) \<and> modLen = (0 :: u64) then Some []
     else do {
       base \<leftarrow> getBig input 0 baseLen;
       exp \<leftarrow> getBig input baseLen expLen;
       md \<leftarrow> getBig input (baseLen + expLen) modLen;
       if md = 0 then LeftPadBytes [] (sint modLen)
       else LeftPadBytes (big_Bytes (big_Exp base exp md)) (sint modLen)
     }
   }"

section \<open>The curve bn256\<close>

definition newCurvePoint :: "('p, 'q, 'f, 'r) vm_crypto \<Rightarrow> bytes \<Rightarrow> string + 'p" where
  "newCurvePoint cr blob = (case bn_G1_Unmarshal cr blob of Inl err \<Rightarrow> Inl err | Inr p \<Rightarrow> Inr p)"

definition newTwistPoint :: "('p, 'q, 'f, 'r) vm_crypto \<Rightarrow> bytes \<Rightarrow> string + 'q" where
  "newTwistPoint cr blob = (case bn_G2_Unmarshal cr blob of Inl err \<Rightarrow> Inl err | Inr p \<Rightarrow> Inr p)"

definition bn256Add_RequiredGas :: "bytes \<Rightarrow> u64" where
  "bn256Add_RequiredGas input = Bn256AddGas"

definition bn256Add_Run :: "('p, 'q, 'f, 'r) vm_crypto \<Rightarrow> bytes \<Rightarrow> (string + bytes) option" where
  "bn256Add_Run cr input = do {
     xb \<leftarrow> getData input 0 64;
     yb \<leftarrow> getData input 64 64;
     Some (case newCurvePoint cr xb of
             Inl err \<Rightarrow> Inl err
           | Inr x \<Rightarrow> (case newCurvePoint cr yb of
               Inl err \<Rightarrow> Inl err
             | Inr y \<Rightarrow> Inr (bn_G1_Marshal cr (bn_G1_Add cr x y))))
   }"

definition bn256ScalarMul_RequiredGas :: "bytes \<Rightarrow> u64" where
  "bn256ScalarMul_RequiredGas input = Bn256ScalarMulGas"

definition bn256ScalarMul_Run :: "('p, 'q, 'f, 'r) vm_crypto \<Rightarrow> bytes \<Rightarrow> (string + bytes) option" where
  "bn256ScalarMul_Run cr input = do {
     pb \<leftarrow> getData input 0 64;
     k \<leftarrow> getBig input 64 32;
     Some (case newCurvePoint cr pb of
             Inl err \<Rightarrow> Inl err
           | Inr p \<Rightarrow> Inr (bn_G1_Marshal cr (bn_G1_ScalarMult cr p k)))
   }"

definition true32Byte :: bytes where "true32Byte = replicate 31 0 @ [1]"
definition false32Byte :: bytes where "false32Byte = replicate 32 0"
definition errBadPairingInput :: string where "errBadPairingInput = ''bad elliptic curve pairing size''"

definition bn256Pairing_RequiredGas :: "bytes \<Rightarrow> u64" where
  "bn256Pairing_RequiredGas input = Bn256PairingBaseGas + word_of_nat (length input div 192) * Bn256PairingPerPointGas"

text \<open>The loop over the input, \<open>n\<close> iterations from the offset \<open>i\<close> on.\<close>

fun bn256Pairing_decode :: "('p, 'q, 'f, 'r) vm_crypto \<Rightarrow> bytes \<Rightarrow> nat \<Rightarrow> nat \<Rightarrow> string + ('p list \<times> 'q list)" where
  "bn256Pairing_decode cr input 0 i = Inr ([], [])"
| "bn256Pairing_decode cr input (Suc n) i =
     (case newCurvePoint cr (sub input i (i + 64)) of
        Inl err \<Rightarrow> Inl err
      | Inr c \<Rightarrow> (case newTwistPoint cr (sub input (i + 64) (i + 192)) of
          Inl err \<Rightarrow> Inl err
        | Inr t \<Rightarrow> (case bn256Pairing_decode cr input n (i + 192) of
            Inl err \<Rightarrow> Inl err
          | Inr (cs, ts) \<Rightarrow> Inr (c # cs, t # ts))))"

definition bn256Pairing_Run :: "('p, 'q, 'f, 'r) vm_crypto \<Rightarrow> bytes \<Rightarrow> string + bytes" where
  "bn256Pairing_Run cr input =
     (if length input mod 192 > 0 then Inl errBadPairingInput
      else case bn256Pairing_decode cr input (length input div 192) 0 of
        Inl err \<Rightarrow> Inl err
      | Inr (cs, ts) \<Rightarrow> Inr (if bn_PairingCheck cr cs ts then true32Byte else false32Byte))"

section \<open>The compression function of BLAKE2b\<close>

definition blake2FInputLength :: nat where "blake2FInputLength = 213"
definition blake2FFinalBlockBytes :: byte where "blake2FFinalBlockBytes = 1"
definition blake2FNonFinalBlockBytes :: byte where "blake2FNonFinalBlockBytes = 0"
definition errBlake2FInvalidInputLength :: string where "errBlake2FInvalidInputLength = ''invalid input length''"
definition errBlake2FInvalidFinalFlag :: string where "errBlake2FInvalidFinalFlag = ''invalid final flag''"

text \<open>\<open>binary.BigEndian.Uint32\<close> of a slice of four bytes; \<open>binary.LittleEndian.Uint64\<close> is \<open>BytesToUint64\<close>.\<close>

definition BigEndian_Uint32 :: "bytes \<Rightarrow> u32" where
  "BigEndian_Uint32 bs = word_of_nat (big_SetBytes (take 4 bs))"

definition blake2F_RequiredGas :: "bytes \<Rightarrow> u64" where
  "blake2F_RequiredGas input =
     (if length input \<noteq> blake2FInputLength then 0 else ucast (BigEndian_Uint32 (sub input 0 4)))"

text \<open>The little-endian words at \<open>offset\<close>, \<open>offset + 8\<close>, \<dots>\<close>

definition le_words :: "bytes \<Rightarrow> nat \<Rightarrow> nat \<Rightarrow> u64 list option" where
  "le_words input offset n = those (map (\<lambda>i. BytesToUint64 (sub input (offset + i * 8) (offset + i * 8 + 8))) [0..<n])"

definition blake2F_Run :: "('p, 'q, 'f, 'r) vm_crypto \<Rightarrow> bytes \<Rightarrow> (string + bytes) option" where
  "blake2F_Run cr input =
     (if length input \<noteq> blake2FInputLength then Some (Inl errBlake2FInvalidInputLength)
      else if input ! 212 \<noteq> blake2FNonFinalBlockBytes \<and> input ! 212 \<noteq> blake2FFinalBlockBytes
      then Some (Inl errBlake2FInvalidFinalFlag)
      else do {
        let rounds = BigEndian_Uint32 (sub input 0 4);
        let final = (input ! 212 = blake2FFinalBlockBytes);
        h \<leftarrow> le_words input 4 8;
        m \<leftarrow> le_words input 68 16;
        t \<leftarrow> le_words input 196 2;
        let h = blake2b_F cr h m t final rounds;
        Some (Inr (concat (map Uint64ToBytes h)))
      })"

section \<open>The curve BLS12-381\<close>

definition errBLS12381InvalidInputLength :: string where
  "errBLS12381InvalidInputLength = ''invalid input length''"
definition errBLS12381InvalidFieldElementTopBytes :: string where
  "errBLS12381InvalidFieldElementTopBytes = ''invalid field element top bytes''"
definition errBLS12381G1PointSubgroup :: string where
  "errBLS12381G1PointSubgroup = ''g1 point is not on correct subgroup''"
definition errBLS12381G2PointSubgroup :: string where
  "errBLS12381G2PointSubgroup = ''g2 point is not on correct subgroup''"

definition decodeBLS12381FieldElement :: "('p, 'q, 'f, 'r) vm_crypto \<Rightarrow> bytes \<Rightarrow> string + 'f" where
  "decodeBLS12381FieldElement cr inp =
     (if length inp \<noteq> 64 then Inl ''invalid field element length''
      else if \<exists>i<16. inp ! i \<noteq> 0 then Inl errBLS12381InvalidFieldElementTopBytes
      else fp_Element cr (drop 16 inp))"

definition decodePointG1 :: "('p, 'q, 'f, 'r) vm_crypto \<Rightarrow> bytes \<Rightarrow> string + 'f G1Affine" where
  "decodePointG1 cr inp =
     (if length inp \<noteq> 128 then Inl ''invalid g1 point length''
      else case decodeBLS12381FieldElement cr (sub inp 0 64) of
        Inl err \<Rightarrow> Inl err
      | Inr x \<Rightarrow> (case decodeBLS12381FieldElement cr (drop 64 inp) of
          Inl err \<Rightarrow> Inl err
        | Inr y \<Rightarrow>
            let elem = \<lparr>g1_X = x, g1_Y = y\<rparr> in
            if \<not> g1_IsOnCurve cr elem then Inl ''invalid point: not on curve'' else Inr elem))"

definition decodePointG2 :: "('p, 'q, 'f, 'r) vm_crypto \<Rightarrow> bytes \<Rightarrow> string + 'f G2Affine" where
  "decodePointG2 cr inp =
     (if length inp \<noteq> 256 then Inl ''invalid g2 point length''
      else case decodeBLS12381FieldElement cr (sub inp 0 64) of
        Inl err \<Rightarrow> Inl err
      | Inr x0 \<Rightarrow> (case decodeBLS12381FieldElement cr (sub inp 64 128) of
          Inl err \<Rightarrow> Inl err
        | Inr x1 \<Rightarrow> (case decodeBLS12381FieldElement cr (sub inp 128 192) of
            Inl err \<Rightarrow> Inl err
          | Inr y0 \<Rightarrow> (case decodeBLS12381FieldElement cr (drop 192 inp) of
              Inl err \<Rightarrow> Inl err
            | Inr y1 \<Rightarrow>
                let p = \<lparr>g2_X = \<lparr>e2_A0 = x0, e2_A1 = x1\<rparr>, g2_Y = \<lparr>e2_A0 = y0, e2_A1 = y1\<rparr>\<rparr> in
                if \<not> g2_IsOnCurve cr p then Inl ''invalid point: not on curve'' else Inr p))))"

text \<open>\<open>PutElement\<close> writes the 48 bytes of an element after 16 bytes of zeros.\<close>

definition encodeElement :: "('p, 'q, 'f, 'r) vm_crypto \<Rightarrow> 'f \<Rightarrow> bytes" where
  "encodeElement cr x = replicate 16 0 @ fp_PutElement cr x"

definition encodePointG1 :: "('p, 'q, 'f, 'r) vm_crypto \<Rightarrow> 'f G1Affine \<Rightarrow> bytes" where
  "encodePointG1 cr p = encodeElement cr (g1_X p) @ encodeElement cr (g1_Y p)"

definition encodePointG2 :: "('p, 'q, 'f, 'r) vm_crypto \<Rightarrow> 'f G2Affine \<Rightarrow> bytes" where
  "encodePointG2 cr p =
     encodeElement cr (e2_A0 (g2_X p)) @ encodeElement cr (e2_A1 (g2_X p)) @
     encodeElement cr (e2_A0 (g2_Y p)) @ encodeElement cr (e2_A1 (g2_Y p))"

definition bls12381G1Add_RequiredGas :: "bytes \<Rightarrow> u64" where
  "bls12381G1Add_RequiredGas input = Bls12381G1AddGas"

definition bls12381G1Add_Run :: "('p, 'q, 'f, 'r) vm_crypto \<Rightarrow> bytes \<Rightarrow> string + bytes" where
  "bls12381G1Add_Run cr input =
     (if length input \<noteq> 256 then Inl errBLS12381InvalidInputLength
      else case decodePointG1 cr (sub input 0 128) of
        Inl err \<Rightarrow> Inl err
      | Inr p0 \<Rightarrow> (case decodePointG1 cr (drop 128 input) of
          Inl err \<Rightarrow> Inl err
        | Inr p1 \<Rightarrow> Inr (encodePointG1 cr (g1_Add cr p0 p1))))"

definition bls12381G1Mul_RequiredGas :: "bytes \<Rightarrow> u64" where
  "bls12381G1Mul_RequiredGas input = Bls12381G1MulGas"

definition bls12381G1Mul_Run :: "('p, 'q, 'f, 'r) vm_crypto \<Rightarrow> bytes \<Rightarrow> string + bytes" where
  "bls12381G1Mul_Run cr input =
     (if length input \<noteq> 160 then Inl errBLS12381InvalidInputLength
      else case decodePointG1 cr (sub input 0 128) of
        Inl err \<Rightarrow> Inl err
      | Inr p0 \<Rightarrow>
          let e = big_SetBytes (drop 128 input)
          in Inr (encodePointG1 cr (g1_ScalarMultiplication cr p0 e)))"

definition bls12381G1MultiExp_RequiredGas :: "bytes \<Rightarrow> u64" where
  "bls12381G1MultiExp_RequiredGas input =
     (let k = length input div 160 in
      if k = 0 then 0
      else let maxDiscountLen = length Bls12381MultiExpDiscountTable;
               k = (if k > maxDiscountLen then maxDiscountLen else k);
               discount = Bls12381MultiExpDiscountTable ! (k - 1)
           in (word_of_nat k * Bls12381G1MulGas * discount) div 1000)"

text \<open>The loop over the pairs, \<open>n\<close> iterations from the index \<open>i\<close> on.\<close>

fun g1_decode_pairs :: "('p, 'q, 'f, 'r) vm_crypto \<Rightarrow> bytes \<Rightarrow> nat \<Rightarrow> nat \<Rightarrow> string + ('f G1Affine list \<times> 'r list)" where
  "g1_decode_pairs cr input 0 i = Inr ([], [])"
| "g1_decode_pairs cr input (Suc n) i =
     (let off = 160 * i; t0 = off; t1 = off + 128; t2 = off + 160 in
      case decodePointG1 cr (sub input t0 t1) of
        Inl err \<Rightarrow> Inl err
      | Inr p \<Rightarrow> (case g1_decode_pairs cr input n (i + 1) of
          Inl err \<Rightarrow> Inl err
        | Inr (points, scalars) \<Rightarrow> Inr (p # points, fr_SetBytes cr (sub input t1 t2) # scalars)))"

definition bls12381G1MultiExp_Run :: "('p, 'q, 'f, 'r) vm_crypto \<Rightarrow> bytes \<Rightarrow> string + bytes" where
  "bls12381G1MultiExp_Run cr input =
     (let k = length input div 160 in
      if length input = 0 \<or> length input mod 160 \<noteq> 0 then Inl errBLS12381InvalidInputLength
      else case g1_decode_pairs cr input k 0 of
        Inl err \<Rightarrow> Inl err
      | Inr (points, scalars) \<Rightarrow> Inr (encodePointG1 cr (g1_MultiExp cr points scalars)))"

definition bls12381G2Add_RequiredGas :: "bytes \<Rightarrow> u64" where
  "bls12381G2Add_RequiredGas input = Bls12381G2AddGas"

definition bls12381G2Add_Run :: "('p, 'q, 'f, 'r) vm_crypto \<Rightarrow> bytes \<Rightarrow> string + bytes" where
  "bls12381G2Add_Run cr input =
     (if length input \<noteq> 512 then Inl errBLS12381InvalidInputLength
      else case decodePointG2 cr (sub input 0 256) of
        Inl err \<Rightarrow> Inl err
      | Inr p0 \<Rightarrow> (case decodePointG2 cr (drop 256 input) of
          Inl err \<Rightarrow> Inl err
        | Inr p1 \<Rightarrow> Inr (encodePointG2 cr (g2_Add cr p0 p1))))"

definition bls12381G2Mul_RequiredGas :: "bytes \<Rightarrow> u64" where
  "bls12381G2Mul_RequiredGas input = Bls12381G2MulGas"

definition bls12381G2Mul_Run :: "('p, 'q, 'f, 'r) vm_crypto \<Rightarrow> bytes \<Rightarrow> string + bytes" where
  "bls12381G2Mul_Run cr input =
     (if length input \<noteq> 288 then Inl errBLS12381InvalidInputLength
      else case decodePointG2 cr (sub input 0 256) of
        Inl err \<Rightarrow> Inl err
      | Inr p0 \<Rightarrow>
          let e = big_SetBytes (drop 256 input)
          in Inr (encodePointG2 cr (g2_ScalarMultiplication cr p0 e)))"

definition bls12381G2MultiExp_RequiredGas :: "bytes \<Rightarrow> u64" where
  "bls12381G2MultiExp_RequiredGas input =
     (let k = length input div 288 in
      if k = 0 then 0
      else let maxDiscountLen = length Bls12381MultiExpDiscountTable;
               k = (if k > maxDiscountLen then maxDiscountLen else k);
               discount = Bls12381MultiExpDiscountTable ! (k - 1)
           in (word_of_nat k * Bls12381G2MulGas * discount) div 1000)"

fun g2_decode_pairs :: "('p, 'q, 'f, 'r) vm_crypto \<Rightarrow> bytes \<Rightarrow> nat \<Rightarrow> nat \<Rightarrow> string + ('f G2Affine list \<times> 'r list)" where
  "g2_decode_pairs cr input 0 i = Inr ([], [])"
| "g2_decode_pairs cr input (Suc n) i =
     (let off = 288 * i; t0 = off; t1 = off + 256; t2 = off + 288 in
      case decodePointG2 cr (sub input t0 t1) of
        Inl err \<Rightarrow> Inl err
      | Inr p \<Rightarrow> (case g2_decode_pairs cr input n (i + 1) of
          Inl err \<Rightarrow> Inl err
        | Inr (points, scalars) \<Rightarrow> Inr (p # points, fr_SetBytes cr (sub input t1 t2) # scalars)))"

definition bls12381G2MultiExp_Run :: "('p, 'q, 'f, 'r) vm_crypto \<Rightarrow> bytes \<Rightarrow> string + bytes" where
  "bls12381G2MultiExp_Run cr input =
     (let k = length input div 288 in
      if length input = 0 \<or> length input mod 288 \<noteq> 0 then Inl errBLS12381InvalidInputLength
      else case g2_decode_pairs cr input k 0 of
        Inl err \<Rightarrow> Inl err
      | Inr (points, scalars) \<Rightarrow> Inr (encodePointG2 cr (g2_MultiExp cr points scalars)))"

definition bls12381Pairing_RequiredGas :: "bytes \<Rightarrow> u64" where
  "bls12381Pairing_RequiredGas input =
     Bls12381PairingBaseGas + word_of_nat (length input div 384) * Bls12381PairingPerPairGas"

fun bls12381Pairing_decode ::
  "('p, 'q, 'f, 'r) vm_crypto \<Rightarrow> bytes \<Rightarrow> nat \<Rightarrow> nat \<Rightarrow> string + ('f G1Affine list \<times> 'f G2Affine list)" where
  "bls12381Pairing_decode cr input 0 i = Inr ([], [])"
| "bls12381Pairing_decode cr input (Suc n) i =
     (let off = 384 * i; t0 = off; t1 = off + 128; t2 = off + 384 in
      case decodePointG1 cr (sub input t0 t1) of
        Inl err \<Rightarrow> Inl err
      | Inr p1 \<Rightarrow> (case decodePointG2 cr (sub input t1 t2) of
          Inl err \<Rightarrow> Inl err
        | Inr p2 \<Rightarrow>
            if \<not> g1_IsInSubGroup cr p1 then Inl errBLS12381G1PointSubgroup
            else if \<not> g2_IsInSubGroup cr p2 then Inl errBLS12381G2PointSubgroup
            else (case bls12381Pairing_decode cr input n (i + 1) of
                Inl err \<Rightarrow> Inl err
              | Inr (p, q) \<Rightarrow> Inr (p1 # p, p2 # q))))"

definition bls12381Pairing_Run :: "('p, 'q, 'f, 'r) vm_crypto \<Rightarrow> bytes \<Rightarrow> string + bytes" where
  "bls12381Pairing_Run cr input =
     (let k = length input div 384 in
      if length input = 0 \<or> length input mod 384 \<noteq> 0 then Inl errBLS12381InvalidInputLength
      else case bls12381Pairing_decode cr input k 0 of
        Inl err \<Rightarrow> Inl err
      | Inr (p, q) \<Rightarrow> Inr (replicate 31 0 @ [if bls_PairingCheck cr p q = Some True then 1 else 0]))"

definition bls12381MapG1_RequiredGas :: "bytes \<Rightarrow> u64" where
  "bls12381MapG1_RequiredGas input = Bls12381MapG1Gas"

definition bls12381MapG1_Run :: "('p, 'q, 'f, 'r) vm_crypto \<Rightarrow> bytes \<Rightarrow> string + bytes" where
  "bls12381MapG1_Run cr input =
     (if length input \<noteq> 64 then Inl errBLS12381InvalidInputLength
      else case decodeBLS12381FieldElement cr input of
        Inl err \<Rightarrow> Inl err
      | Inr fe \<Rightarrow> Inr (encodePointG1 cr (bls_MapToG1 cr fe)))"

definition bls12381MapG2_RequiredGas :: "bytes \<Rightarrow> u64" where
  "bls12381MapG2_RequiredGas input = Bls12381MapG2Gas"

definition bls12381MapG2_Run :: "('p, 'q, 'f, 'r) vm_crypto \<Rightarrow> bytes \<Rightarrow> string + bytes" where
  "bls12381MapG2_Run cr input =
     (if length input \<noteq> 128 then Inl errBLS12381InvalidInputLength
      else case decodeBLS12381FieldElement cr (sub input 0 64) of
        Inl err \<Rightarrow> Inl err
      | Inr c0 \<Rightarrow> (case decodeBLS12381FieldElement cr (drop 64 input) of
          Inl err \<Rightarrow> Inl err
        | Inr c1 \<Rightarrow> Inr (encodePointG2 cr (bls_MapToG2 cr \<lparr>e2_A0 = c0, e2_A1 = c1\<rparr>))))"

section \<open>The table\<close>

text \<open>
  A contract of the table from its price and its execution on the input. The result is a slice of its
  own, and an error carries no data; \<open>dataCopy\<close> alone returns its input.
\<close>

definition native_with :: "(bytes \<Rightarrow> u64 option) \<Rightarrow> (bytes \<Rightarrow> (string + bytes) option) \<Rightarrow> precompile" where
  "native_with price go = \<lparr>pc_RequiredGas = (\<lambda>ctx e. price (f_Input ctx)),
     pc_Run = (\<lambda>ctx e. map_option (\<lambda>r. (case r of
         Inl err \<Rightarrow> (Fresh [], Some (PrecompileError err))
       | Inr ret \<Rightarrow> (Fresh ret, None), e)) (go (f_Input ctx)))\<rparr>"

definition native :: "(bytes \<Rightarrow> u64) \<Rightarrow> (bytes \<Rightarrow> string + bytes) \<Rightarrow> precompile" where
  "native price go = native_with (Some \<circ> price) (Some \<circ> go)"

definition dataCopy :: precompile where
  "dataCopy = \<lparr>pc_RequiredGas = (\<lambda>ctx e. Some (dataCopy_RequiredGas (f_Input ctx))),
     pc_Run = (\<lambda>ctx e. Some ((InputAlias, None), e))\<rparr>"

definition table :: "precompile option list \<Rightarrow> Precompiles" where
  "table ps i = (if i < length ps then ps ! i else None)"

definition PrecompiledContractsCalifornicum :: "('p, 'q, 'f, 'r) vm_crypto \<Rightarrow> Precompiles" where
  "PrecompiledContractsCalifornicum cr = table (map Some [
     native_with (Some \<circ> ecrecover_RequiredGas) (ecrecover_Run cr),
     native sha256hash_RequiredGas (sha256hash_Run cr),
     native_with (Some \<circ> ripemd160hash_RequiredGas) (ripemd160hash_Run cr),
     dataCopy,
     native_with bigModExp_RequiredGas (map_option Inr \<circ> bigModExp_Run),
     native_with (Some \<circ> bn256Add_RequiredGas) (bn256Add_Run cr),
     native_with (Some \<circ> bn256ScalarMul_RequiredGas) (bn256ScalarMul_Run cr),
     native bn256Pairing_RequiredGas (bn256Pairing_Run cr)])"

definition PrecompiledContractsEbla :: "('p, 'q, 'f, 'r) vm_crypto \<Rightarrow> Precompiles" where
  "PrecompiledContractsEbla cr = table [
     Some (native_with (Some \<circ> ecrecover_RequiredGas) (ecrecover_Run cr)),
     Some (native sha256hash_RequiredGas (sha256hash_Run cr)),
     Some (native_with (Some \<circ> ripemd160hash_RequiredGas) (ripemd160hash_Run cr)),
     Some dataCopy,
     Some (native_with bigModExp_RequiredGas (map_option Inr \<circ> bigModExp_Run)),
     Some (native_with (Some \<circ> bn256Add_RequiredGas) (bn256Add_Run cr)),
     Some (native_with (Some \<circ> bn256ScalarMul_RequiredGas) (bn256ScalarMul_Run cr)),
     Some (native bn256Pairing_RequiredGas (bn256Pairing_Run cr)),
     Some (native_with (Some \<circ> blake2F_RequiredGas) (blake2F_Run cr)),
     None,
     Some (native bls12381G1Add_RequiredGas (bls12381G1Add_Run cr)),
     Some (native bls12381G1Mul_RequiredGas (bls12381G1Mul_Run cr)),
     Some (native bls12381G1MultiExp_RequiredGas (bls12381G1MultiExp_Run cr)),
     Some (native bls12381G2Add_RequiredGas (bls12381G2Add_Run cr)),
     Some (native bls12381G2Mul_RequiredGas (bls12381G2Mul_Run cr)),
     Some (native bls12381G2MultiExp_RequiredGas (bls12381G2MultiExp_Run cr)),
     Some (native bls12381Pairing_RequiredGas (bls12381Pairing_Run cr)),
     Some (native bls12381MapG1_RequiredGas (bls12381MapG1_Run cr)),
     Some (native bls12381MapG2_RequiredGas (bls12381MapG2_Run cr))]"

section \<open>The contracts leave the EVM as it is\<close>

lemma native_with_safe [simp]: "precompile_safe (native_with price go)"
  by (auto simp: precompile_safe_def native_with_def)

lemma native_safe [simp]: "precompile_safe (native price go)"
  by (simp add: native_def)

lemma dataCopy_safe [simp]: "precompile_safe dataCopy"
  by (auto simp: precompile_safe_def dataCopy_def)

lemma table_safe: "\<forall>p \<in> set ps. pred_option precompile_safe p \<Longrightarrow> precompiles_safe (table ps)"
  unfolding precompiles_safe_def table_def by (metis nth_mem option.pred_inject(2) option.simps(3))

lemma PrecompiledContractsEbla_safe [simp]: "precompiles_safe (PrecompiledContractsEbla cr)"
  unfolding PrecompiledContractsEbla_def by (rule table_safe) simp

lemma PrecompiledContractsCalifornicum_safe [simp]: "precompiles_safe (PrecompiledContractsCalifornicum cr)"
  unfolding PrecompiledContractsCalifornicum_def by (rule table_safe) simp

end
