(* ===== verification/Precompile_Spec.thy ===== *)
theory Precompile_Spec
  imports Evm_Precompiles
begin

text \<open>
  What the precompiled contracts compute: the modular exponentiation is the mathematical one and cannot
  panic at a price that can be paid, and the points of BLS12-381 survive a round through their encoding.
\<close>

section \<open>Slices of the input\<close>

lemma unat_length: "length (xs :: bytes) < 2 ^ 63 \<Longrightarrow> unat (word_of_nat (length xs) :: u64) = length xs"
  by (simp add: unat_of_nat)

lemma RightPadBytes_Some:
  assumes "l \<le> max_alloc" shows "RightPadBytes bs l = Some (bs @ replicate (nat l - length bs) 0)"
  using assms by (auto simp: RightPadBytes_def make_bytes_def)

lemma LeftPadBytes_Some:
  assumes "l \<le> max_alloc" shows "LeftPadBytes bs l = Some (replicate (nat l - length bs) 0 @ bs)"
  using assms by (auto simp: LeftPadBytes_def make_bytes_def min_def)

lemma sint_max_alloc:
  assumes "unat (sz :: u64) \<le> 2 ^ 48" shows "sint sz \<le> max_alloc"
proof -
  have "int (unat sz) \<le> int (2 ^ 48)" using assms by (simp only: of_nat_le_iff)
  moreover have "sint sz = int (unat sz)" using assms by (simp add: sint_u64_small)
  ultimately show ?thesis by (simp only: max_alloc_def) simp
qed

text \<open>\<open>getData\<close> panics only when the end of the range wraps around or the range is too long to be allocated.\<close>

lemma getData_Some:
  assumes len: "length d < 2 ^ 63" and fits: "unat sz \<le> 2 ^ 48"
  shows "getData d s sz = Some (take (unat sz) (drop (unat s) d) @ replicate (unat sz - length (take (unat sz) (drop (unat s) d))) 0)"
proof -
  let ?len = "word_of_nat (length d) :: u64"
  let ?s = "if s > ?len then ?len else s"
  let ?h = "if ?s + sz > ?len then ?len else ?s + sz"
  have s: "unat ?s = min (unat s) (length d)" using unat_length [OF len] by (auto simp: word_less_nat_alt)
  have "unat ?s + unat sz < 2 ^ 64" using len fits s by simp
  then have "unat (?s + sz) = unat ?s + unat sz" by (simp add: unat_plus_if_size word_size)
  then have h: "unat ?h = min (unat ?s + unat sz) (length d)"
    using unat_length [OF len] by (auto simp: word_less_nat_alt)
  have "go_slice d (uint ?s) (uint ?h) = Some (take (unat ?h - unat ?s) (drop (unat ?s) d))"
    unfolding go_slice_eq_Some unat_eq_nat_uint
    using s h by (simp add: nat_diff_distrib uint_nat)
  moreover have "take (unat ?h - unat ?s) (drop (unat ?s) d) = take (unat sz) (drop (unat s) d)"
    unfolding h by (simp add: s min_def)
  moreover have "nat (sint sz) = unat sz" using fits by (simp add: sint_u64_small)
  ultimately show ?thesis
    unfolding getData_def Let_def using RightPadBytes_Some [OF sint_max_alloc [OF fits]] by simp
qed

lemma getBig_None: "length d < 2 ^ 63 \<Longrightarrow> getBig d s sz = None \<Longrightarrow> 2 ^ 48 < unat sz"
  unfolding getBig_def option.map_disc_iff by (metis getData_Some not_le option.distinct(1))

lemma getBig_small: "length d < 2 ^ 63 \<Longrightarrow> unat sz \<le> 2 ^ 48 \<Longrightarrow> \<exists>n. getBig d s sz = Some n"
  by (metis getBig_None not_le option.exhaust)

section \<open>Modular exponentiation\<close>

lemma less_bit_len: "n < 2 ^ bit_len n"
proof (induction n rule: bit_len.induct)
  case (1 n)
  show ?case
  proof (cases "n = 0")
    case False
    with 1 have "n div 2 < 2 ^ bit_len (n div 2)" by simp
    moreover have "bit_len n = Suc (bit_len (n div 2))" using False by (subst bit_len.simps) simp
    ultimately show ?thesis by simp
  qed simp
qed

lemma multiplication_ge:
  "1 \<le> x \<Longrightarrow> 1 \<le> bigModExp_multiplication x" "2 ^ 48 \<le> x \<Longrightarrow> 2 ^ 92 \<le> bigModExp_multiplication x"
proof -
  assume "1 \<le> x"
  then show "1 \<le> bigModExp_multiplication x" by (auto simp: bigModExp_multiplication_def)
next
  assume x: "2 ^ 48 \<le> x"
  then have "2 ^ 48 * 2 ^ 48 \<le> x * x" by (intro mult_le_mono)
  then have "2 ^ 48 * 2 ^ 48 div 16 \<le> x * x div 16" by (rule div_le_mono)
  then show "2 ^ 92 \<le> bigModExp_multiplication x" using x by (simp add: bigModExp_multiplication_def)
qed

lemma clamp_ge:
  assumes "2 ^ 46 \<le> g" shows "2 ^ 46 \<le> (if bit_len g > 64 then MaxUint64 else word_of_nat g :: u64)"
proof (cases "bit_len g > 64")
  case False
  then have "2 ^ bit_len g \<le> (2 :: nat) ^ 64" by (intro power_increasing) simp_all
  then have "g < 2 ^ 64" using less_bit_len [of g] by linarith
  then have "unat (word_of_nat g :: u64) = g" by (simp add: unat_of_nat)
  then show ?thesis using False assms by (simp add: word_le_nat_alt)
qed (simp add: MaxUint64_def word_le_nat_alt)

lemma exponent_price:
  assumes "1 \<le> m" "2 ^ 48 < expLen" shows "2 ^ 46 \<le> m * max ((if expLen > 32 then 8 * (expLen - 32) else 0) + msb) 1 div (20 :: nat)"
proof -
  have "2 ^ 46 * 20 \<le> 1 * (8 * (expLen - 32))" using assms(2) by simp
  also have "\<dots> \<le> m * max ((if expLen > 32 then 8 * (expLen - 32) else 0) + msb) 1"
    using assms by (intro mult_le_mono) auto
  finally show ?thesis by (simp add: less_eq_div_iff_mult_less_eq)
qed

lemma operand_price:
  assumes "2 ^ 92 \<le> m" shows "2 ^ 46 \<le> m * max k 1 div (20 :: nat)"
proof -
  have "2 ^ 46 * 20 \<le> m * 1" using assms by simp
  also have "\<dots> \<le> m * max k 1" by (intro mult_le_mono) auto
  finally show ?thesis by (simp add: less_eq_div_iff_mult_less_eq)
qed

text \<open>
  The price is always defined; the execution panics only for an operand whose length alone costs more
  than \<open>2 ^ 46\<close>.
\<close>

lemma bigModExp_prices:
  assumes len: "length inp < 2 ^ 63"
  obtains baseLen expLen modLen msb where
    "getBig inp 0 32 = Some baseLen" "getBig inp 32 32 = Some expLen" "getBig inp 64 32 = Some modLen"
    "bigModExp_RequiredGas inp = Some (let g = bigModExp_multiplication (max modLen baseLen) *
       max ((if expLen > 32 then 8 * (expLen - 32) else 0) + msb) 1 div 20
       in if bit_len g > 64 then MaxUint64 else word_of_nat g)"
proof -
  have sm: "unat (32 :: u64) \<le> 2 ^ 48" by simp
  obtain b e m where l: "getBig inp 0 32 = Some b" "getBig inp 32 32 = Some e" "getBig inp 64 32 = Some m"
    using getBig_small [OF len sm] by metis
  let ?i = "if length inp > 96 then drop 96 inp else []"
  have i: "length ?i < 2 ^ 63" using len by auto
  have "unat (word_of_nat e :: u64) \<le> 2 ^ 48" if "e \<le> 32" using that by (simp add: unat_of_nat)
  then obtain h where "(if length ?i \<le> b then Some 0
      else if e > 32 then getBig ?i (word_of_nat b) 32 else getBig ?i (word_of_nat b) (word_of_nat e)) = Some h"
    using getBig_small [OF i] sm by (metis not_le)
  with l show ?thesis by (intro that) (auto simp: bigModExp_RequiredGas_def Let_def ModExpQuadCoeffDiv_def)
qed

lemma bigModExp_panics:
  assumes len: "length inp < 2 ^ 63" and panic: "bigModExp_Run inp = None"
    and l: "getBig inp 0 32 = Some baseLen" "getBig inp 32 32 = Some expLen" "getBig inp 64 32 = Some modLen"
  shows "1 \<le> max modLen baseLen \<and> 2 ^ 48 < expLen \<or> 2 ^ 48 < max modLen baseLen"
proof (rule ccontr)
  let ?i = "if length inp > 96 then drop 96 inp else []"
  let ?b = "word_of_nat baseLen :: u64" and ?e = "word_of_nat expLen :: u64" and ?m = "word_of_nat modLen :: u64"
  assume small: "\<not> ?thesis"
  have i: "length ?i < 2 ^ 63" using len by auto
  have nz: "\<not> (?b = 0 \<and> ?m = 0)" using panic l by (auto simp: bigModExp_Run_def Let_def)
  then have "1 \<le> max modLen baseLen" by (auto simp: Suc_le_eq intro!: Nat.gr0I)
  moreover have "unat ?b \<le> baseLen" "unat ?e \<le> expLen" "unat ?m \<le> modLen" by (simp_all add: unat_of_nat)
  ultimately have u: "unat ?b \<le> 2 ^ 48" "unat ?e \<le> 2 ^ 48" "unat ?m \<le> 2 ^ 48" using small by linarith+
  obtain b e m where "getBig ?i 0 ?b = Some b" "getBig ?i ?b ?e = Some e" "getBig ?i (?b + ?e) ?m = Some m"
    using getBig_small [OF i] u by metis
  moreover note LeftPadBytes_Some [OF sint_max_alloc [OF u(3)]]
  ultimately show False using panic l nz by (simp add: bigModExp_Run_def Let_def split: if_splits)
qed

text \<open>
  C37: The modular exponentiation cannot be made to panic by a call that pays less than \<open>2 ^ 46\<close> gas for
  it. The lengths in the input are arbitrary 256-bit numbers, cut to 64 bits by the execution; a range of
  the input whose end wraps around or that is longer than the runtime can allocate makes \<open>getData\<close> or the
  padding of the result panic. The price, computed from the uncut lengths, is defined for every input and
  is at least \<open>2 ^ 46\<close> for each of those.
\<close>

theorem bigModExp_no_panic:
  assumes len: "length inp < 2 ^ 63"
  shows "\<exists>g. bigModExp_RequiredGas inp = Some g \<and> (g < 2 ^ 46 \<longrightarrow> bigModExp_Run inp \<noteq> None)"
proof -
  obtain b e m msb where l: "getBig inp 0 32 = Some b" "getBig inp 32 32 = Some e" "getBig inp 64 32 = Some m"
    and g: "bigModExp_RequiredGas inp = Some (let g = bigModExp_multiplication (max m b) *
       max ((if e > 32 then 8 * (e - 32) else 0) + msb) 1 div 20
       in if bit_len g > 64 then MaxUint64 else word_of_nat g)"
    by (rule bigModExp_prices [OF len])
  let ?g = "bigModExp_multiplication (max m b) * max ((if e > 32 then 8 * (e - 32) else 0) + msb) 1 div 20"
  have "2 ^ 46 \<le> ?g" if "bigModExp_Run inp = None"
    using bigModExp_panics [OF len that l]
  proof (elim disjE conjE)
    assume "1 \<le> max m b" "2 ^ 48 < e"
    then show ?thesis by (intro exponent_price multiplication_ge)
  next
    assume "2 ^ 48 < max m b"
    then show ?thesis by (intro operand_price multiplication_ge) simp
  qed
  then have "\<not> (if bit_len ?g > 64 then MaxUint64 else word_of_nat ?g) < (2 ^ 46 :: u64)" if "bigModExp_Run inp = None"
    using clamp_ge that not_le by blast
  then show ?thesis unfolding g Let_def by blast
qed

theorem bigModExp_no_panic_witness:
  "bigModExp_Run (replicate 31 0 @ [1] @ replicate 31 0 @ [1] @ replicate 31 0 @ [1] @ [3, 5, 7]) \<noteq> None"
proof -
  let ?inp = "replicate 31 0 @ [1] @ replicate 31 0 @ [1] @ replicate 31 0 @ [1] @ [3, 5, 7] :: bytes"
  have "bigModExp_RequiredGas ?inp = Some 0" by code_simp
  then show ?thesis using bigModExp_no_panic [of ?inp] by auto
qed

text \<open>The operands of an input that is laid out as the contract expects.\<close>

lemma getBig_at:
  assumes "length (xs @ d @ ys) \<le> 2 ^ 48" "unat s = length xs" "unat sz = length d"
  shows "getBig (xs @ d @ ys) s sz = Some (big_SetBytes d)"
proof -
  have "length (xs @ d @ ys) < 2 ^ 63" "unat sz \<le> 2 ^ 48" using assms by simp_all
  then show ?thesis
    using getData_Some [of "xs @ d @ ys" sz s] assms(2,3) by (simp add: getBig_def)
qed

lemma big_SetBytes_zeros: "big_SetBytes (replicate n 0 @ bs) = big_SetBytes bs"
  by (induction n) (simp_all add: big_SetBytes_def)

lemma length_big_Bytes: "n < 256 ^ k \<Longrightarrow> length (big_Bytes n) \<le> k"
proof (induction k arbitrary: n)
  case 0
  then show ?case by (simp add: big_Bytes.simps)
next
  case (Suc k)
  then have "n div 256 < 256 ^ k" by (simp add: div_less_iff_less_mult mult.commute)
  then show ?case using Suc.IH by (subst big_Bytes.simps) auto
qed

lemma LeftPadBytes_value:
  assumes "length bs \<le> k" "k \<le> 2 ^ 48"
  shows "\<exists>out. LeftPadBytes bs (int k) = Some out \<and> length out = k \<and> big_SetBytes out = big_SetBytes bs"
proof -
  have "int k \<le> int (2 ^ 48)" using assms(2) by (simp only: of_nat_le_iff)
  then have "int k \<le> max_alloc" by (simp add: max_alloc_def)
  then show ?thesis using assms(1) LeftPadBytes_Some [of "int k" bs] by (simp add: big_SetBytes_zeros)
qed

text \<open>
  C38: The modular exponentiation is the mathematical one. On three lengths of 32 bytes followed by the
  base, the exponent and the modulus of those lengths, it returns a string as long as the modulus whose
  value is the power modulo the modulus, and zero for the modulus zero. (No slice is longer than \<open>2 ^ 48\<close>.)
\<close>

theorem bigModExp_correct:
  assumes h: "length hb = 32" "length he = 32" "length hm = 32"
    and v: "big_SetBytes hb = length b" "big_SetBytes he = length e" "big_SetBytes hm = length m"
    and len: "length (hb @ he @ hm @ b @ e @ m) \<le> 2 ^ 48"
  shows "\<exists>out. bigModExp_Run (hb @ he @ hm @ b @ e @ m) = Some out \<and> length out = length m \<and>
    big_SetBytes out = (if big_SetBytes m = 0 then 0 else big_SetBytes b ^ big_SetBytes e mod big_SetBytes m)"
proof -
  let ?inp = "hb @ he @ hm @ b @ e @ m" and ?d = "b @ e @ m"
  let ?w = "\<lambda>xs :: bytes. word_of_nat (length xs) :: u64"
  have w: "unat (?w b) = length b" "unat (?w e) = length e" "unat (?w m) = length m" "unat (?w b + ?w e) = length b + length e"
    "sint (?w m) = int (length m)"
    using len by (simp_all add: unat_of_nat sint_u64_small unat_word_ariths)
  have heads: "getBig ?inp 0 32 = Some (length b)" "getBig ?inp 32 32 = Some (length e)" "getBig ?inp 64 32 = Some (length m)"
    using getBig_at [of "[]" hb "he @ hm @ ?d" 0 32] getBig_at [of hb he "hm @ ?d" 32 32]
      getBig_at [of "hb @ he" hm ?d 64 32] h v len by simp_all
  have ops: "getBig ?d 0 (?w b) = Some (big_SetBytes b)" "getBig ?d (?w b) (?w e) = Some (big_SetBytes e)"
    "getBig ?d (?w b + ?w e) (?w m) = Some (big_SetBytes m)"
    using getBig_at [of "[]" b "e @ m" 0 "?w b"] getBig_at [of b e m "?w b" "?w e"]
      getBig_at [of "b @ e" m "[]" "?w b + ?w e" "?w m"] w len by simp_all
  have d: "(if length ?inp > 96 then drop 96 ?inp else []) = ?d" using h by simp
  show ?thesis
  proof (cases "b = [] \<and> m = []")
    case True
    then show ?thesis using heads by (simp add: bigModExp_Run_def big_SetBytes_def)
  next
    case False
    then have nz: "\<not> (?w b = 0 \<and> ?w m = 0)" using w(1,3) by auto
    let ?r = "if big_SetBytes m = 0 then [] else big_Bytes (big_Exp (big_SetBytes b) (big_SetBytes e) (big_SetBytes m))"
    have "bigModExp_Run ?inp = LeftPadBytes ?r (int (length m))"
      unfolding bigModExp_Run_def Let_def d using nz heads ops w(5) by (auto simp del: append_assoc)
    moreover have "length ?r \<le> length m"
      using big_SetBytes_less [of m] by (auto simp: big_Exp_def intro!: length_big_Bytes elim: less_trans [rotated])
    moreover have "big_SetBytes ?r = (if big_SetBytes m = 0 then 0 else big_SetBytes b ^ big_SetBytes e mod big_SetBytes m)"
      by (simp add: big_Exp_def) (simp add: big_SetBytes_def)
    ultimately show ?thesis using LeftPadBytes_value [of ?r "length m"] len by auto
  qed
qed

theorem bigModExp_correct_witness:
  "\<exists>out. bigModExp_Run ((replicate 31 0 @ [1]) @ (replicate 31 0 @ [1]) @ (replicate 31 0 @ [1]) @ [3] @ [5] @ [7]) = Some out \<and>
    length out = 1 \<and> big_SetBytes out = 5"
  using bigModExp_correct [of "replicate 31 0 @ [1]" "replicate 31 0 @ [1]" "replicate 31 0 @ [1]" "[3]" "[5]" "[7]"]
  by (simp add: big_SetBytes_zeros) (simp add: big_SetBytes_def)

section \<open>Points of BLS12-381\<close>

text \<open>
  What the contracts rely on in \<open>fp.BigEndian\<close>: an element is written in 48 bytes, and of the strings of
  48 bytes exactly the one written for an element is read as that element (\<open>Element\<close> refuses a number
  that is not below the modulus).
\<close>

definition fp_lawful :: "('p, 'q, 'f, 'r) vm_crypto \<Rightarrow> bool" where
  "fp_lawful cr \<longleftrightarrow> (\<forall>x. length (fp_PutElement cr x) = 48) \<and>
     (\<forall>bs x. length bs = 48 \<longrightarrow> (fp_Element cr bs = Inr x \<longleftrightarrow> bs = fp_PutElement cr x))"

lemma length_encodeElement: "fp_lawful cr \<Longrightarrow> length (encodeElement cr x) = 64"
  by (simp add: fp_lawful_def encodeElement_def)

lemma decode_element_iff:
  assumes "fp_lawful cr"
  shows "decodeBLS12381FieldElement cr bs = Inr x \<longleftrightarrow> bs = encodeElement cr x"
proof
  assume d: "decodeBLS12381FieldElement cr bs = Inr x"
  then have l: "length bs = 64" and z: "\<forall>i<16. bs ! i = 0" and e: "fp_Element cr (drop 16 bs) = Inr x"
    by (auto simp: decodeBLS12381FieldElement_def split: if_splits)
  have "take 16 bs = replicate 16 0" using l z by (intro nth_equalityI) auto
  moreover have "drop 16 bs = fp_PutElement cr x" using assms e l by (simp add: fp_lawful_def)
  ultimately show "bs = encodeElement cr x" unfolding encodeElement_def by (metis append_take_drop_id)
next
  assume bs: "bs = encodeElement cr x"
  have "fp_Element cr (fp_PutElement cr x) = Inr x" using assms by (simp add: fp_lawful_def)
  then show "decodeBLS12381FieldElement cr bs = Inr x"
    using length_encodeElement [OF assms, of x]
    by (auto simp: bs decodeBLS12381FieldElement_def encodeElement_def nth_append)
qed

lemma sub_append:
  "length a = hi \<Longrightarrow> sub (a @ b) 0 hi = a"
  "length a = lo \<Longrightarrow> sub (a @ b) lo hi = take (hi - lo) b"
  by (simp_all add: sub_def)

lemma sub_drop: "lo \<le> hi \<Longrightarrow> sub bs lo hi @ drop hi bs = drop lo bs"
  using append_take_drop_id [of "hi - lo" "drop lo bs"] by (simp add: sub_def)

lemma decode_G1_iff:
  assumes "fp_lawful cr"
  shows "decodePointG1 cr bs = Inr p \<longleftrightarrow> bs = encodePointG1 cr p \<and> g1_IsOnCurve cr p"
proof
  assume "decodePointG1 cr bs = Inr p"
  then obtain x y where e: "length bs = 128" "decodeBLS12381FieldElement cr (sub bs 0 64) = Inr x"
    "decodeBLS12381FieldElement cr (drop 64 bs) = Inr y" "p = \<lparr>g1_X = x, g1_Y = y\<rparr>" "g1_IsOnCurve cr p"
    by (auto simp: decodePointG1_def Let_def split: if_splits sum.splits)
  have "bs = sub bs 0 64 @ drop 64 bs" by (simp add: sub_def)
  also have "\<dots> = encodePointG1 cr p"
    using e(2,3) by (simp add: decode_element_iff [OF assms] encodePointG1_def e(4))
  finally show "bs = encodePointG1 cr p \<and> g1_IsOnCurve cr p" using e(5) by blast
next
  assume p: "bs = encodePointG1 cr p \<and> g1_IsOnCurve cr p"
  have "decodeBLS12381FieldElement cr (encodeElement cr x) = Inr x" for x
    using decode_element_iff [OF assms] by blast
  then show "decodePointG1 cr bs = Inr p"
    using p length_encodeElement [OF assms]
    by (cases p) (simp add: decodePointG1_def encodePointG1_def sub_append)
qed

lemma decode_G2_iff:
  assumes "fp_lawful cr"
  shows "decodePointG2 cr bs = Inr p \<longleftrightarrow> bs = encodePointG2 cr p \<and> g2_IsOnCurve cr p"
proof
  assume "decodePointG2 cr bs = Inr p"
  then obtain x0 x1 y0 y1 where e: "length bs = 256" "decodeBLS12381FieldElement cr (sub bs 0 64) = Inr x0"
    "decodeBLS12381FieldElement cr (sub bs 64 128) = Inr x1" "decodeBLS12381FieldElement cr (sub bs 128 192) = Inr y0"
    "decodeBLS12381FieldElement cr (drop 192 bs) = Inr y1"
    "p = \<lparr>g2_X = \<lparr>e2_A0 = x0, e2_A1 = x1\<rparr>, g2_Y = \<lparr>e2_A0 = y0, e2_A1 = y1\<rparr>\<rparr>" "g2_IsOnCurve cr p"
    by (auto simp: decodePointG2_def Let_def split: if_splits sum.splits)
  have "bs = sub bs 0 64 @ sub bs 64 128 @ sub bs 128 192 @ drop 192 bs"
    by (simp add: sub_drop)
  also have "\<dots> = encodePointG2 cr p"
    using e(2-5) by (simp add: decode_element_iff [OF assms] encodePointG2_def e(6))
  finally show "bs = encodePointG2 cr p \<and> g2_IsOnCurve cr p" using e(7) by blast
next
  assume p: "bs = encodePointG2 cr p \<and> g2_IsOnCurve cr p"
  have "decodeBLS12381FieldElement cr (encodeElement cr x) = Inr x" for x
    using decode_element_iff [OF assms] by blast
  then show "decodePointG2 cr bs = Inr p"
    using p length_encodeElement [OF assms]
    by (cases p, cases "g2_X p", cases "g2_Y p") (simp add: decodePointG2_def encodePointG2_def sub_def)
qed

text \<open>
  C39: Points of BLS12-381 have one encoding. Under the laws of the field library, \<open>decodePointG1\<close> and
  \<open>decodePointG2\<close> accept exactly the strings that \<open>encodePointG1\<close> and \<open>encodePointG2\<close> write for a point
  on the curve, and return that point; in particular what one contract returns another one reads back.
\<close>

theorem point_roundtrip:
  assumes "fp_lawful cr"
  shows "(decodePointG1 cr bs = Inr p \<longleftrightarrow> bs = encodePointG1 cr p \<and> g1_IsOnCurve cr p) \<and>
    (decodePointG2 cr bs = Inr q \<longleftrightarrow> bs = encodePointG2 cr q \<and> g2_IsOnCurve cr q)"
  using decode_G1_iff [OF assms] decode_G2_iff [OF assms] by blast

text \<open>A stand-in for the cryptography, over single bytes.\<close>

definition ex_curves :: "(nat, nat, byte, nat) vm_crypto" where
  "ex_curves = \<lparr>cr_keccak256 = (\<lambda>bs. replicate 32 1), cr_sha256 = (\<lambda>bs. replicate 32 2),
     cr_ripemd160 = (\<lambda>bs. replicate 20 3), cr_Ecrecover = (\<lambda>h s. Some (replicate 65 4)),
     bn_G1_Unmarshal = (\<lambda>bs. Inr (big_SetBytes bs)), bn_G1_Marshal = big_Bytes, bn_G1_Add = (+),
     bn_G1_ScalarMult = (*), bn_G2_Unmarshal = (\<lambda>bs. Inr (big_SetBytes bs)), bn_PairingCheck = (\<lambda>cs ts. cs = ts),
     blake2b_F = (\<lambda>h m t f r. h),
     fp_Element = (\<lambda>bs. if butlast bs = replicate 47 0 then Inr (last bs) else Inl ''invalid fp.Element encoding''),
     fp_PutElement = (\<lambda>x. replicate 47 0 @ [x]), fr_SetBytes = big_SetBytes,
     g1_IsOnCurve = (\<lambda>p. g1_X p = g1_Y p), g1_IsInSubGroup = (\<lambda>p. True),
     g1_Add = (\<lambda>p q. \<lparr>g1_X = g1_X p + g1_X q, g1_Y = g1_Y p + g1_Y q\<rparr>),
     g1_ScalarMultiplication = (\<lambda>p n. p), g1_MultiExp = (\<lambda>ps ns. hd ps),
     g2_IsOnCurve = (\<lambda>p. g2_X p = g2_Y p), g2_IsInSubGroup = (\<lambda>p. True), g2_Add = (\<lambda>p q. p),
     g2_ScalarMultiplication = (\<lambda>p n. p), g2_MultiExp = (\<lambda>ps ns. hd ps),
     bls_PairingCheck = (\<lambda>ps qs. Some True), bls_MapToG1 = (\<lambda>x. \<lparr>g1_X = x, g1_Y = x\<rparr>),
     bls_MapToG2 = (\<lambda>x. \<lparr>g2_X = x, g2_Y = x\<rparr>)\<rparr>"


lemma ex_curves_lawful: "fp_lawful ex_curves"
  by (auto simp: fp_lawful_def ex_curves_def) (metis append_butlast_last_id length_0_conv zero_neq_numeral)

theorem point_roundtrip_witness:
  "decodePointG1 ex_curves (replicate 63 0 @ [5] @ replicate 63 0 @ [5]) = Inr \<lparr>g1_X = 5, g1_Y = 5\<rparr>"
proof -
  have "replicate 63 0 @ [5] @ replicate 63 0 @ [5] = encodePointG1 ex_curves \<lparr>g1_X = 5, g1_Y = 5\<rparr>"
    "g1_IsOnCurve ex_curves \<lparr>g1_X = 5, g1_Y = 5\<rparr>"
    by (simp_all add: encodePointG1_def encodeElement_def ex_curves_def replicate_append_same eval_nat_numeral)
  then show ?thesis using point_roundtrip [OF ex_curves_lawful] by blast
qed

end
