(* ===== verification/Evm_Steps.thy ===== *)
theory Evm_Steps
  imports Precompile_Spec Evm_Example
begin

text \<open>
  The interpreter as a state machine. A state is the frame that runs and the EVM object; a transition is
  one iteration of the loop of \<open>run\<close> (\<open>evm.go\<close>), nested calls included. The theorems relate the fuelled
  interpreter to the step relation and give the invariant of the reachable states; what a nested call
  keeps comes from the locale \<open>safe_runner\<close>, interpreted here on the interpreter with the precompiled
  contracts of \<open>PrecompiledContractsEbla\<close>.
\<close>

section \<open>The step relation\<close>

type_synonym vm_config = "machine \<times> evm"

definition run_start :: "vm_contract \<Rightarrow> bool \<Rightarrow> evm \<Rightarrow> vm_config" where
  "run_start c readOnly e =
     (\<lparr>pc = 0, contract = c, mem = Memory_Init (mem_pool e), stack = newstack\<rparr>,
      e\<lparr>depth := depth e + 1, last_retval := [], read_only := read_only e \<or> (readOnly \<and> \<not> read_only e)\<rparr>)"

definition run_end :: "bool \<Rightarrow> evm \<Rightarrow> vm_config \<Rightarrow> vm_contract \<times> evm" where
  "run_end readOnly e0 s =
     (let (m, e) = s;
          e = (if readOnly \<and> \<not> read_only e0 then e\<lparr>read_only := False\<rparr> else e)
      in (contract m, e\<lparr>depth := depth e - 1, mem_pool := fst (Release (mem_pool e) (mem m))\<rparr>))"

inductive vm_step :: "vm_env \<Rightarrow> vm_config \<Rightarrow> vm_config \<Rightarrow> bool" for env where
  vm_stepI: "step (run n env) env m e = Done (None, s') \<Longrightarrow> vm_step env (m, e) s'"

inductive vm_halts :: "vm_env \<Rightarrow> vm_config \<Rightarrow> bytes \<times> vm_error option \<Rightarrow> vm_config \<Rightarrow> bool" for env where
  vm_haltsI: "step (run n env) env m e = Done (Some r, s') \<Longrightarrow> vm_halts env (m, e) r s'"

inductive_simps vm_step_simps: "vm_step env (m, e) s'"
inductive_simps vm_halts_simps: "vm_halts env (m, e) r s'"
inductive_cases vm_stepE: "vm_step env s s'"
inductive_cases vm_haltsE: "vm_halts env s r s'"

text \<open>More fuel does not change what an iteration does, so the machine is deterministic.\<close>

lemma step_more_fuel:
  assumes "step (run n env) env m e = Done x" "n \<le> k"
  shows "step (run k env) env m e = Done x"
  using step_mono [OF run_mono [OF assms(2)], of env env m e] assms(1) by (simp add: fuel_le_def)

lemma step_agrees:
  assumes "step (run n env) env m e = Done x" "step (run k env) env m e = Done y"
  shows "x = y"
  using step_more_fuel [OF assms(1), of "max n k"] step_more_fuel [OF assms(2), of "max n k"] by simp

lemma vm_step_deterministic: "vm_step env s t \<Longrightarrow> vm_step env s u \<Longrightarrow> t = u"
  by (auto elim!: vm_stepE dest: step_agrees)

lemma vm_halts_deterministic: "vm_halts env s r t \<Longrightarrow> vm_halts env s q u \<Longrightarrow> r = q \<and> t = u"
  by (auto elim!: vm_haltsE dest: step_agrees)

lemma vm_halts_no_step: "vm_halts env s r t \<Longrightarrow> \<not> vm_step env s u"
  by (auto elim!: vm_haltsE vm_stepE dest: step_agrees)

section \<open>The interpreter follows the steps\<close>

lemma loop_steps:
  "loop env n m e = Done (r, s') \<Longrightarrow> \<exists>s. (vm_step env)\<^sup>*\<^sup>* (m, e) s \<and> vm_halts env s r s'"
proof (induction n arbitrary: m e)
  case (Suc n)
  then obtain out m1 e1 where s: "step (run n env) env m e = Done (out, m1, e1)"
    and rest: "(case out of Some r \<Rightarrow> Done (r, m1, e1) | None \<Rightarrow> loop env n m1 e1) = Done (r, s')"
    by (auto simp: exec_bind_eq_Done run_def)
  show ?case
  proof (cases out)
    case None
    with rest have "loop env n m1 e1 = Done (r, s')" by simp
    from Suc.IH [OF this] obtain t where "(vm_step env)\<^sup>*\<^sup>* (m1, e1) t" "vm_halts env t r s'" by blast
    moreover have "vm_step env (m, e) (m1, e1)" using s None by (auto intro: vm_stepI)
    ultimately show ?thesis by (blast intro: converse_rtranclp_into_rtranclp)
  next
    case (Some q)
    with s rest show ?thesis by (auto intro: vm_haltsI)
  qed
qed simp

lemma steps_loop:
  assumes "(vm_step env)\<^sup>*\<^sup>* s t" "vm_halts env t r s'"
  shows "\<exists>n. loop env n (fst s) (snd s) = Done (r, s')"
  using assms
proof (induction rule: converse_rtranclp_induct)
  case base
  then obtain m e n where "t = (m, e)" "step (run n env) env m e = Done (Some r, s')" by (auto elim!: vm_haltsE)
  then show ?case by (intro exI [of _ "Suc n"]) (cases s', simp add: run_def)
next
  case (step s s1)
  then obtain m e n m1 e1 where s: "s = (m, e)" "s1 = (m1, e1)" "Evm_Interpreter.step (run n env) env m e = Done (None, m1, e1)"
    by (cases s1) (auto elim!: vm_stepE)
  from step obtain k where k: "loop env k m1 e1 = Done (r, s')" using s(2) by auto
  let ?k = "max n k"
  have "loop env ?k m1 e1 = Done (r, s')"
    using loop_mono [of k ?k env m1 e1] k by (simp add: fuel_le_def)
  moreover have "Evm_Interpreter.step (run ?k env) env m e = Done (None, m1, e1)" using step_more_fuel [OF s(3)] by simp
  ultimately show ?case by (intro exI [of _ "Suc ?k"]) (simp add: s(1) run_def)
qed

lemma run_as_loop:
  "run n env c ro e = exec_bind (loop env n (fst (run_start c ro e)) (snd (run_start c ro e)))
     (\<lambda>(r, s). Done (r, run_end ro e s))"
  unfolding run_def run_with_def run_start_def run_end_def Let_def
  by (intro arg_cong2 [where f = exec_bind]) (auto simp: fun_eq_iff)

lemma run_eq_loop:
  "run n env c ro e = Done (r, c', e') \<longleftrightarrow>
     (\<exists>s. loop env n (fst (run_start c ro e)) (snd (run_start c ro e)) = Done (r, s) \<and> (c', e') = run_end ro e s)"
  unfolding run_as_loop by (cases r) (auto simp: exec_bind_eq_Done)

text \<open>
  The interpreter refines its step relation, and the step relation is all it does: with some fuel
  \<open>run\<close> returns a result, a contract and an EVM object exactly when the machine goes in finitely many
  steps from the start of the frame to a state that halts with this result, and what is returned is the
  end of the frame at that state. So a fact proved about the reachable states is one about \<open>run\<close>.
\<close>

theorem run_iff_steps:
  "(\<exists>n. run n env c ro e = Done (r, c', e')) \<longleftrightarrow>
   (\<exists>s s'. (vm_step env)\<^sup>*\<^sup>* (run_start c ro e) s \<and> vm_halts env s r s' \<and> (c', e') = run_end ro e s')"
  unfolding run_eq_loop using loop_steps [of env _ "fst (run_start c ro e)" "snd (run_start c ro e)" r] steps_loop
  by (metis prod.collapse)

section \<open>The interpreter with the native contracts\<close>

definition ebla_env :: "('p, 'q, 'f, 'r) vm_crypto \<Rightarrow> vm_env \<Rightarrow> vm_env" where
  "ebla_env cr env = env\<lparr>env_precompiles := PrecompiledContractsEbla cr\<rparr>"

lemma ebla_env_precompiles [simp]: "env_precompiles (ebla_env cr env) = PrecompiledContractsEbla cr"
  by (simp add: ebla_env_def)

interpretation ebla: safe_runner "run n (ebla_env cr env)" "ebla_env cr env" for n cr env
  by (rule run_safe_runner) simp

lemma run_start_ok:
  assumes "pool_ok (mem_pool e)" "f_Account (c_frame c) \<in> dom (accounts (state e))"
  shows "frame_ok (fst (run_start c ro e)) (snd (run_start c ro e))"
  using assms Memory_Init_ok(1) [of "mem_pool e"] by (simp add: frame_ok_def pool_ok_def run_start_def)

lemma vm_steps_safe:
  assumes "(vm_step (ebla_env cr env))\<^sup>*\<^sup>* (run_start c ro e) s" "pool_ok (mem_pool e)"
    "f_Account (c_frame c) \<in> dom (accounts (state e))"
  shows "frame_step (fst (run_start c ro e)) (snd (run_start c ro e)) (fst s) (snd s) \<and>
    frame_ok (fst s) (snd s) \<and> length (stack (fst s)) \<le> StackLimit"
  using assms(1)
proof (induction rule: rtranclp_induct)
  case base
  have "length (stack (fst (run_start c ro e))) \<le> StackLimit" by (simp add: run_start_def newstack_def)
  with run_start_ok [OF assms(2,3)] frame_step_refl show ?case by blast
next
  case (step s t)
  then obtain n m1 e1 m2 e2 where s: "s = (m1, e1)" "t = (m2, e2)"
    "Evm_Interpreter.step (run n (ebla_env cr env)) (ebla_env cr env) m1 e1 = Done (None, m2, e2)"
    by (cases t) (auto elim!: vm_stepE)
  have st: "frame_step m1 e1 m2 e2" "length (stack m2) \<le> StackLimit"
    using ebla.step_safe [OF s(3)] step.IH by (auto simp: s)
  then show ?case using step.IH frame_step_ok frame_step_trans by (simp add: s) blast
qed

text \<open>
  C34: Type safety of the machine. Every state that a frame reaches is well formed: the slice of the
  frame's memory lies where the shared pool reserves it and all of the pool beyond it is zero, the
  frame's account is in the state, the stack has at most 1024 words, the depth is one more than the
  caller's, and the frame is read-only exactly when its caller was or the call asked for it.
\<close>

theorem reachable_well_formed:
  assumes "(vm_step (ebla_env cr env))\<^sup>*\<^sup>* (run_start c ro e) (m, e')" "pool_ok (mem_pool e)"
    "f_Account (c_frame c) \<in> dom (accounts (state e))"
  shows "frame_ok m e' \<and> length (stack m) \<le> 1024 \<and> depth e' = depth e + 1 \<and>
    read_only e' = (read_only e \<or> ro)"
  using vm_steps_safe [OF assms]
  by (auto simp: frame_step_def run_start_def StackLimit_def)

text \<open>
  C35: A call that fails leaves no trace. When \<open>CALL\<close>, \<open>CALLCODE\<close>, \<open>DELEGATECALL\<close> or \<open>STATICCALL\<close>
  returns an error, whatever the callee and the frames below it did, every account has the balance, the
  nonce, the code, the storage and the suicide mark it had, the logs and the refund counter are as they
  were, and so are the depth, the read-only flag and every byte of the shared memory pool.
\<close>

theorem failed_call_restores:
  assumes "call (run n (ebla_env cr env)) (ebla_env cr env) typ caller callee input gas v e
      = Done ((ret, left, Some err), e')"
    "pool_ok (mem_pool e)" "callee \<in> dom (accounts (state e))" "ref_Address caller \<in> dom (accounts (state e))"
  shows "ts_view (state e') = ts_view (state e) \<and> ts_logs (state e') = ts_logs (state e) \<and>
    ts_refund (state e') = ts_refund (state e) \<and> mem_pool e' = mem_pool e \<and> depth e' = depth e \<and>
    read_only e' = read_only e"
  using ebla.call_safe [OF assms] by (simp add: evm_keeps_def sim_def)

text \<open>
  C36: What a frame does to the accounts, the logs and the refund counter can be undone, and what it does to
  the transient storage cannot. After \<open>run\<close>, successful or not, the memory pool, the depth and the
  read-only flag are the caller's again; an account that had a nonce keeps one and the size of its code;
  and \<open>RevertToSnapshot\<close> with the snapshot from before the frame returns, with the balance, nonce, code and
  storage of every account, the logs and the refund counter as they were, and the transient storage as the
  frame has left it. The frame may call the native contracts.
\<close>

theorem run_undoable:
  assumes "run n (ebla_env cr env) c ro e = Done (r, c', e')" "pool_ok (mem_pool e)"
    "f_Account (c_frame c) \<in> dom (accounts (state e))"
  shows "mem_pool e' = mem_pool e \<and> depth e' = depth e \<and> read_only e' = read_only e \<and>
    keeps_code (state e) (state e') \<and>
    (\<exists>ts. RevertToSnapshot (Snapshot (state e)) (state e') = Some ts \<and> ts_view ts = ts_view (state e) \<and>
      ts_logs ts = ts_logs (state e) \<and> ts_refund ts = ts_refund (state e) \<and>
      transientStorage ts = transientStorage (state e'))"
proof -
  have k: "evm_keeps e e'" using ebla.run_safe [OF assms] .
  then obtain ts where "RevertToSnapshot (Snapshot (state e)) (state e') = Some ts" "sim (state e) ts"
    using RevertToSnapshot_ok [of "state e" "state e'"] by (auto simp: evm_keeps_def)
  with k RevertToSnapshot_transient show ?thesis by (auto simp: evm_keeps_def sim_def)
qed

section \<open>Examples\<close>

definition ex_ebla :: vm_env where
  "ex_ebla = ebla_env ex_curves (ex_env Map.empty)"

text \<open>The example's world with the accounts that the examples use loaded.\<close>

definition ex_loaded :: evm where
  "ex_loaded = upd_state (GetAccountConcrete 9) (upd_state (GetAccountConcrete 0x1000) (upd_state (GetAccountConcrete 1) (ex_evm [])))"

lemma ex_loaded_ok:
  "pool_ok (mem_pool ex_loaded)" "1 \<in> dom (accounts (state ex_loaded))"
  "0x1000 \<in> dom (accounts (state ex_loaded))" "9 \<in> dom (accounts (state ex_loaded))"
proof -
  let ?a = "upd_state (GetAccountConcrete 1) (ex_evm [])" and ?b = "\<lambda>e. upd_state (GetAccountConcrete 0x1000) e"
  show "pool_ok (mem_pool ex_loaded)" by (simp add: ex_loaded_def ex_evm_def pool_ok_def)
  show "9 \<in> dom (accounts (state ex_loaded))" by (simp add: ex_loaded_def del: domIff)
  have k: "evm_keeps (?b ?a) ex_loaded" "evm_keeps ?a (?b ?a)"
    unfolding ex_loaded_def by (rule evm_keeps_balance)+
  show "1 \<in> dom (accounts (state ex_loaded))"
    using evm_keeps_dom [OF evm_keeps_trans [OF k(2,1)], of 1] by (simp del: domIff)
  show "0x1000 \<in> dom (accounts (state ex_loaded))"
    using evm_keeps_dom [OF k(1), of "0x1000"] by (simp del: domIff)
qed

text \<open>Evaluation of a computation that returns.\<close>

definition returns :: "'a exec \<Rightarrow> ('a \<Rightarrow> bool) \<Rightarrow> bool" where
  "returns r P = (case r of Done x \<Rightarrow> P x | _ \<Rightarrow> False)"

lemma returnsE:
  assumes "returns r P" obtains x where "r = Done x" "P x"
  using assms by (cases r) (auto simp: returns_def)

definition ex_start :: vm_config where
  "ex_start = run_start (ex_contract [0x5b, 0x00] 3) False ex_loaded"

lemma ex_call: "returns (call (run 1 ex_ebla) ex_ebla KCall (ContractAccWrapper 1) 9 [] 5 1 ex_loaded)
   (\<lambda>((ret, left, err), e). err \<noteq> None)"
  by code_simp

text \<open>A frame that writes 5 to the slot 1 of its storage and of its transient storage.\<close>

definition ex_writes :: bytes where
  "ex_writes = [0x60, 5, 0x60, 1, 0x55, 0x60, 5, 0x60, 1, 0xb4, 0x00]"

lemma ex_run: "returns (run 8 ex_ebla (ex_contract ex_writes 30000) False ex_loaded)
    (\<lambda>(r, c, e). fst (GetState (state e) 0x1000 1) = 5 \<and> fst (GetState (state ex_loaded) 0x1000 1) = 0 \<and>
       TransientStorage_Get (transient_map (state e)) 0x1000 1 = 5)"
  by code_simp

lemma ex_step: "returns (step (run 0 ex_ebla) ex_ebla (fst ex_start) (snd ex_start)) (\<lambda>(r, s). r = None)"
  by code_simp

theorem reachable_well_formed_witness:
  "\<exists>m e'. vm_step ex_ebla ex_start (m, e') \<and> frame_ok m e' \<and> length (stack m) \<le> 1024 \<and> depth e' = 1"
proof -
  from ex_step obtain m e' where s: "vm_step ex_ebla ex_start (m, e')"
    by (elim returnsE) (metis (mono_tags, lifting) case_prodE prod.collapse vm_stepI)
  have d: "f_Account (c_frame (ex_contract [0x5b, 0x00] 3)) \<in> dom (accounts (state ex_loaded))"
    using ex_loaded_ok(3) by (simp add: ex_contract_def NewContract_def del: domIff)
  have "depth ex_loaded = 0" by (simp add: ex_loaded_def ex_evm_def)
  then show ?thesis
    using reachable_well_formed [OF _ ex_loaded_ok(1) d, of ex_curves "ex_env Map.empty" False m e'] s
    unfolding ex_ebla_def ex_start_def by (auto simp del: domIff)
qed

theorem failed_call_restores_witness:
  "\<exists>r e'. call (run 1 ex_ebla) ex_ebla KCall (ContractAccWrapper 1) 9 [] 5 1 ex_loaded = Done (r, e') \<and>
    ts_view (state e') = ts_view (state ex_loaded)"
proof -
  from ex_call obtain ret left err e' where
    c: "call (run 1 ex_ebla) ex_ebla KCall (ContractAccWrapper 1) 9 [] 5 1 ex_loaded = Done ((ret, left, Some err), e')"
    by (elim returnsE) (auto split: prod.splits)
  have "ref_Address (ContractAccWrapper 1) \<in> dom (accounts (state ex_loaded))" using ex_loaded_ok(2) by simp
  from failed_call_restores [OF c [unfolded ex_ebla_def] ex_loaded_ok(1,4) this] c show ?thesis by blast
qed

theorem run_undoable_witness:
  "\<exists>r c' e' ts. run 8 ex_ebla (ex_contract ex_writes 30000) False ex_loaded = Done (r, c', e') \<and>
    fst (GetState (state e') 0x1000 1) = 5 \<and> RevertToSnapshot (Snapshot (state ex_loaded)) (state e') = Some ts \<and>
    ts_view ts = ts_view (state ex_loaded) \<and> TransientStorage_Get (transient_map ts) 0x1000 1 = 5"
proof -
  from ex_run obtain r c' e' where s: "run 8 ex_ebla (ex_contract ex_writes 30000) False ex_loaded = Done (r, c', e')"
    and e': "fst (GetState (state e') 0x1000 1) = 5" "TransientStorage_Get (transient_map (state e')) 0x1000 1 = 5"
    by (elim returnsE) auto
  have d: "f_Account (c_frame (ex_contract ex_writes 30000)) \<in> dom (accounts (state ex_loaded))"
    using ex_loaded_ok(3) by (simp add: ex_contract_def NewContract_def del: domIff)
  from run_undoable [OF s [unfolded ex_ebla_def] ex_loaded_ok(1) d] s e' show ?thesis
    by (auto simp: transient_map_def)
qed

end
