(* ===== verification/Evm_Panics.thy ===== *)
theory Evm_Panics
  imports Evm_Steps
begin

text \<open>
  Where a contract makes the interpreter panic: \<open>calcMemSize\<close> (\<open>core/vm/common.go\<close>) adds the offset and
  the length in 256 bits without a check for the carry, so that an offset just below \<open>2 ^ 256\<close> needs,
  and pays for, almost no memory.
\<close>

lemma MSTORE_entry: "eblaInstructionSet 0x52 =
    Some ((mk_op (simple opMstore) gasMStore (makeStackFunc 2 0))\<lparr>memorySize := Some memoryMStore\<rparr>)"
  by (simp add: eblaInstructionSet_def instruction_list_def jt_byzantium_def jt_arithmetic_def jt_comparison_def
      jt_environment_def jt_block_def jt_flow_def)

lemma Set32_wraps: "Set32 (-1) val p m = None"
proof -
  have "uint (-1 :: u64) = 18446744073709551615" "uint (-1 + 32 :: u64) = 31" by code_simp+
  then have "go_slice xs (uint (-1 :: u64)) (uint (-1 + 32 :: u64)) = None" for xs
    by (simp add: go_slice_def)
  then show ?thesis by (simp add: Set32_def Let_def)
qed

lemma mstore_memory: "memory_size ((mk_op x g v)\<lparr>memorySize := Some memoryMStore\<rparr>) (-1 # val # st) = Some (Inr 32)"
proof -
  have "gas_bind (to_u64 (calcMemSize (-1) 32)) (\<lambda>sz. safe_mul (toWordSize sz) 32) = Inr 32" by code_simp
  then show ?thesis by (simp add: memory_size_def memoryMStore_def Back_def mk_op_def)
qed

lemma mstore_price:
  assumes "mem m = Memory_Init (mem_pool e)"
  shows "gasMStore m e 32 = Some (Inr 6, m\<lparr>mem := (mem m)\<lparr>lastGasCost := 3\<rparr>\<rparr>, e)"
proof -
  have "memoryGasCost p (Memory_Init p) 32 = (Inr 3, (Memory_Init p)\<lparr>lastGasCost := 3\<rparr>)" for p
    by (simp add: memoryGasCost_def Memory_Init_def Memory_Len_def mem_store_def toWordSize_def MaxUint64_def
        MemoryGas_def QuadCoeffDiv_def)
  moreover have "safe_add 3 GasFastestStep = Inr 6" by code_simp
  ultimately show ?thesis by (simp add: gasMStore_def with_memory_def assms gas_bind_def)
qed

text \<open>
  C40: Storing a word at the offset \<open>2 ^ 256 - 1\<close> panics. From a frame that has not used its memory yet,
  with the offset and any value on the stack and six units of gas, whatever the environment: the size of
  the memory is computed as 31 bytes, three units of gas are charged for one word, and the slice
  expression of \<open>Set32\<close> panics, where the frame should have run out of gas.
\<close>

theorem mstore_wraps_panics:
  assumes "GetOp (contract m) (pc m) = 0x52" "stack m = -1 # val # st" "length (stack m) \<le> StackLimit"
    "mem m = Memory_Init (mem_pool e)" "6 \<le> c_Gas (contract m)"
  shows "step rn env m e = Panic"
proof -
  let ?op = "(mk_op (simple opMstore) gasMStore (makeStackFunc 2 0))\<lparr>memorySize := Some memoryMStore\<rparr>"
  have v: "validateStack ?op (stack m) = None" "memory_size ?op (stack m) = Some (Inr 32)"
    using assms(2,3) mstore_memory by (simp_all add: mk_op_def makeStackFunc_None)
  have "c_Gas (contract m) < 6 \<longleftrightarrow> False" using assms(5) by (simp add: not_less)
  note c = v mstore_price [OF assms(4)] this assms(2)
  have off: "U256_Uint64 (-1) = -1" by code_simp
  have panics: "opMstore env m' e' = None" if "stack m' = -1 # val # st" for m' e'
    using that Set32_wraps by (simp add: opMstore_def pop_def off)
  have "charge ?op 0x52 m e = None \<or> (\<exists>m' e'. charge ?op 0x52 m e = Some (None, m', e') \<and> stack m' = -1 # val # st)"
    using c by (auto simp: charge_def mk_op_def UseGas_def CALL_def split: Option.bind_splits)
  then show ?thesis
    using assms(1) MSTORE_entry panics by (auto simp: step_def Let_def simple_def mk_op_def)
qed

theorem mstore_wraps_panics_witness:
  "step (run 1 ex_ebla) ex_ebla
     \<lparr>pc = 0, contract = ex_contract [0x52] 6, mem = Memory_Init (mem_pool ex_loaded), stack = [-1, 0]\<rparr> ex_loaded = Panic"
  by (rule mstore_wraps_panics [where val = 0 and st = "[]"])
    (simp_all add: GetOp_def ex_contract_def NewContract_def StackLimit_def c_Gas_def)

end
