(* ===== verification/Trie_Encoding.thy ===== *)
theory Trie_Encoding
  imports Account_Codec
begin

text \<open>
  The encodings of trie keys (\<open>ebla/trie/encoding.go\<close>): a key of 32 bytes is handled as 64 nibbles followed by
  the terminator 16, and a part of a key is stored in the compact form, whose first byte has flags for the
  terminator and for an odd number of nibbles.
\<close>

unbundle bit_operations_syntax

section \<open>Operations\<close>

definition MaxDepth :: nat where "MaxDepth = 64"
definition HexKeyLen :: nat where "HexKeyLen = 65"
definition HexKeyCompactLen :: nat where "HexKeyCompactLen = 33"

definition hasTerm :: "bytes \<Rightarrow> bool" where
  "hasTerm s \<longleftrightarrow> s \<noteq> [] \<and> last s = 16"

fun decodeNibbles :: "bytes \<Rightarrow> bytes option" where
  "decodeNibbles [] = Some []"
| "decodeNibbles [x] = None"
| "decodeNibbles (x # y # nibbles) = map_option ((#) (push_bit 4 x OR y)) (decodeNibbles nibbles)"

text \<open>The buffer of \<open>hex_to_compact\<close> has room for 33 bytes; a longer key makes the slice expression panic.\<close>

definition hex_to_compact :: "bytes \<Rightarrow> bytes option" where
  "hex_to_compact inp = do {
     let terminator = (if hasTerm inp then 1 else 0 :: byte);
     let inp = (if hasTerm inp then butlast inp else inp);
     assertm (length inp div 2 + 1 \<le> HexKeyCompactLen);
     let flag = push_bit 5 terminator;
     let (flag, inp) = (if odd (length inp) then (flag OR push_bit 4 1 OR hd inp, tl inp) else (flag, inp));
     map_option ((#) flag) (decodeNibbles inp)
   }"

definition keybytesToHex :: "bytes \<Rightarrow> bytes" where
  "keybytesToHex str = concat (map (\<lambda>b. [b div 16, b mod 16]) str) @ [16]"

definition compact_to_hex :: "bytes \<Rightarrow> bytes option" where
  "compact_to_hex compact = do {
     let ret = keybytesToHex compact;
     let first = hd ret;
     let ret = (if first < 2 then butlast ret else ret);
     let chop = 2 - unat (first AND 1);
     assertm (chop \<le> length ret);
     Some (drop chop ret)
   }"

text \<open>\<open>hex_to_keybytes\<close> fills a key of 32 bytes from the left.\<close>

definition hex_to_keybytes :: "bytes \<Rightarrow> u256 option" where
  "hex_to_keybytes inp = do {
     let inp = (if hasTerm inp then butlast inp else inp);
     assertm (even (length inp));
     out \<leftarrow> decodeNibbles inp;
     assertm (length out \<le> 32);
     Some (Hash_SetBytes (out @ replicate (32 - length out) 0))
   }"

fun prefixLen :: "bytes \<Rightarrow> bytes \<Rightarrow> nat" where
  "prefixLen (x # xs) (y # ys) = (if x = y then Suc (prefixLen xs ys) else 0)"
| "prefixLen _ _ = 0"

text \<open>The key of 65 nibbles in the buffer of the writer.\<close>

definition hex_key :: "u256 \<Rightarrow> bytes" where
  "hex_key k = keybytesToHex (Hash_Bytes k)"

section \<open>Nibbles\<close>

definition nibbles :: "bytes \<Rightarrow> bool" where
  "nibbles xs \<longleftrightarrow> (\<forall>x \<in> set xs. x < 16)"

lemma nibbles_simps [simp]:
  "nibbles []" "nibbles (x # xs) \<longleftrightarrow> x < 16 \<and> nibbles xs" "nibbles (xs @ ys) \<longleftrightarrow> nibbles xs \<and> nibbles ys"
  by (auto simp: nibbles_def)

lemma nibbles_hasTerm: "nibbles xs \<Longrightarrow> \<not> hasTerm xs"
  unfolding nibbles_def hasTerm_def by (metis last_in_set less_irrefl)

lemma hasTerm_snoc [simp]: "hasTerm (xs @ [x]) \<longleftrightarrow> x = 16"
  by (simp add: hasTerm_def)

lemma small_byte: "(x :: byte) < 16 \<Longrightarrow> x \<in> set (map word_of_nat [0..<16])"
proof -
  assume "x < 16"
  then have "unat x < 16" by (simp add: word_less_nat_alt)
  then have "unat x \<in> set [0..<16]" by simp
  moreover have "x = word_of_nat (unat x)" by simp
  ultimately show ?thesis unfolding set_map by blast
qed

lemma nibble_pair:
  assumes "x < 16" "(y :: byte) < 16"
  shows "(push_bit 4 x OR y) div 16 = x" "(push_bit 4 x OR y) mod 16 = y"
proof -
  have "\<forall>x \<in> set (map word_of_nat [0..<16]). \<forall>y \<in> set (map word_of_nat [0..<16]).
      (push_bit 4 x OR y :: byte) div 16 = x \<and> (push_bit 4 x OR y) mod 16 = y"
    by code_simp
  with small_byte [OF assms(1)] small_byte [OF assms(2)]
  show "(push_bit 4 x OR y) div 16 = x" "(push_bit 4 x OR y) mod 16 = y" by blast+
qed

lemma byte_nibbles:
  "b div 16 < (16 :: byte)" "b mod 16 < (16 :: byte)" "push_bit 4 (b div 16) OR (b mod 16) = (b :: byte)"
proof -
  have "b \<in> set (map word_of_nat [0..<256])"
  proof -
    have "unat b \<in> set [0..<256]" using unsigned_less [of b] by simp
    moreover have "b = word_of_nat (unat b)" by simp
    ultimately show ?thesis unfolding set_map by blast
  qed
  moreover have "\<forall>b \<in> set (map word_of_nat [0..<256]). b div 16 < (16 :: byte) \<and> b mod 16 < (16 :: byte) \<and>
      push_bit 4 (b div 16) OR (b mod 16) = (b :: byte)"
    by code_simp
  ultimately show "b div 16 < (16 :: byte)" "b mod 16 < (16 :: byte)" "push_bit 4 (b div 16) OR (b mod 16) = (b :: byte)"
    by blast+
qed

lemma decodeNibbles_pairs: "decodeNibbles (concat (map (\<lambda>b. [b div 16, b mod 16]) bs)) = Some bs"
  by (induction bs) (simp_all add: byte_nibbles(3))

lemma pairs_decodeNibbles:
  assumes "nibbles xs" "even (length xs)"
  obtains bs where "decodeNibbles xs = Some bs" "concat (map (\<lambda>b. [b div 16, b mod 16]) bs) = xs"
  using assms
proof (induction xs arbitrary: thesis rule: decodeNibbles.induct)
  case (3 x y xs)
  then obtain bs where "decodeNibbles xs = Some bs" "concat (map (\<lambda>b. [b div 16, b mod 16]) bs) = xs" by auto
  with 3 show ?case using nibble_pair by auto
qed simp_all

lemma nibbles_pairs: "nibbles (concat (map (\<lambda>b. [b div 16, b mod 16]) bs))"
  by (induction bs) (simp_all add: byte_nibbles)

section \<open>Keys\<close>

lemma length_pairs: "length (concat (map (\<lambda>b. [b div 16, b mod (16 :: byte)]) bs)) = 2 * length bs"
  by (induction bs) simp_all

lemma hex_key_parts:
  obtains xs where "hex_key k = xs @ [16]" "nibbles xs" "length xs = 64"
  unfolding hex_key_def keybytesToHex_def using nibbles_pairs length_pairs
  by (metis length_Hash_Bytes mult_numeral_1_right numeral_times_numeral semiring_norm(12) semiring_norm(13))

lemma length_hex_key [simp]: "length (hex_key k) = 65"
  by (rule hex_key_parts [of k]) simp

text \<open>A key can be read back from its nibbles, so different keys have different nibbles.\<close>

lemma hex_to_keybytes_hex_key [simp]: "hex_to_keybytes (hex_key k) = Some k"
  by (simp add: hex_to_keybytes_def hex_key_def keybytesToHex_def length_pairs decodeNibbles_pairs Let_def)

lemma hex_key_inject [simp]: "hex_key k = hex_key k' \<longleftrightarrow> k = k'"
  by (metis hex_to_keybytes_hex_key option.inject)

section \<open>The compact form\<close>

text \<open>A part of a key: nibbles, with the terminator at most at the end.\<close>

definition is_key_part :: "bytes \<Rightarrow> bool" where
  "is_key_part xs \<longleftrightarrow> nibbles xs \<or> (\<exists>ys. xs = ys @ [16] \<and> nibbles ys)"

text \<open>The first byte of the compact form, without and with a nibble in it.\<close>

definition compact_flag :: "bool \<Rightarrow> byte" where
  "compact_flag b = push_bit 5 (if b then 1 else 0)"

lemma compact_flag_even:
  "compact_flag b div 16 = (if b then 2 else 0)" "compact_flag b mod 16 = 0"
  by (cases b; simp add: compact_flag_def)+

lemma compact_flag_odd:
  assumes "x < 16"
  shows "(compact_flag b OR push_bit 4 1 OR x) div 16 = (if b then 3 else 1)" "(compact_flag b OR push_bit 4 1 OR x) mod 16 = x"
proof -
  have "\<forall>b \<in> set [False, True]. \<forall>x \<in> set (map word_of_nat [0..<16]).
      (compact_flag b OR push_bit 4 1 OR x) div 16 = (if b then 3 else 1) \<and> (compact_flag b OR push_bit 4 1 OR x) mod 16 = x"
    by code_simp
  moreover have "b \<in> set [False, True]" by (cases b) simp_all
  ultimately show "(compact_flag b OR push_bit 4 1 OR x) div 16 = (if b then 3 else 1)"
    "(compact_flag b OR push_bit 4 1 OR x) mod 16 = x" using small_byte [OF assms] by blast+
qed

lemma compact_roundtrip_even:
  assumes "nibbles ys" "even (length ys)" "length ys \<le> 64"
  shows "\<exists>c. hex_to_compact (ys @ (if b then [16] else [])) = Some c \<and> compact_to_hex c = Some (ys @ (if b then [16] else []))"
proof -
  obtain bs where bs: "decodeNibbles ys = Some bs" "concat (map (\<lambda>b. [b div 16, b mod 16]) bs) = ys"
    by (rule pairs_decodeNibbles [OF assms(1,2)])
  have half: "length ys div 2 \<le> 32" using assms(3) by simp
  have c: "hex_to_compact (ys @ (if b then [16] else [])) = Some (compact_flag b # bs)"
    using assms bs(1) nibbles_hasTerm [OF assms(1)]
    by (cases b) (simp_all add: hex_to_compact_def Let_def HexKeyCompactLen_def compact_flag_def half)
  have "compact_to_hex (compact_flag b # bs) = Some (ys @ (if b then [16] else []))"
    using compact_flag_even [of b] bs(2)
    by (cases b) (simp_all add: compact_to_hex_def keybytesToHex_def Let_def butlast_append)
  with c show ?thesis by blast
qed

lemma compact_roundtrip_odd:
  assumes "nibbles (x # ys)" "even (length ys)" "length ys \<le> 63"
  shows "\<exists>c. hex_to_compact (x # ys @ (if b then [16] else [])) = Some c \<and>
    compact_to_hex c = Some (x # ys @ (if b then [16] else []))"
proof -
  obtain bs where bs: "decodeNibbles ys = Some bs" "concat (map (\<lambda>b. [b div 16, b mod 16]) bs) = ys"
    using pairs_decodeNibbles [of ys] assms by auto
  have t: "hasTerm (x # ys @ (if b then [16] else [])) \<longleftrightarrow> b"
    using nibbles_hasTerm [OF assms(1)] by (cases b) (simp_all add: hasTerm_def)
  have half: "length ys div 2 \<le> 32" using assms(3) by simp
  have c: "hex_to_compact (x # ys @ (if b then [16] else [])) = Some ((compact_flag b OR push_bit 4 1 OR x) # bs)"
    unfolding hex_to_compact_def t Let_def using assms bs(1)
    by (cases b) (simp_all add: HexKeyCompactLen_def compact_flag_def butlast_append half)
  have "compact_to_hex ((compact_flag b OR push_bit 4 1 OR x) # bs) = Some (x # ys @ (if b then [16] else []))"
    using compact_flag_odd [of x b] assms(1) bs(2)
    by (cases b) (simp_all add: compact_to_hex_def keybytesToHex_def Let_def butlast_append)
  with c show ?thesis by blast
qed

text \<open>The compact form of a part of a key can be written, and reading it returns the part.\<close>

lemma compact_roundtrip:
  assumes "is_key_part xs" "length xs \<le> 65" "hasTerm xs \<or> length xs \<le> 64"
  shows "\<exists>c. hex_to_compact xs = Some c \<and> compact_to_hex c = Some xs"
proof -
  have "\<exists>ys b. xs = ys @ (if b then [16] else []) \<and> nibbles ys \<and> length ys \<le> 64"
  proof (cases "nibbles xs")
    case True
    with assms(3) nibbles_hasTerm show ?thesis by (intro exI [of _ xs] exI [of _ False]) auto
  next
    case False
    with assms(1) obtain ys where "xs = ys @ [16]" "nibbles ys" by (auto simp: is_key_part_def)
    with assms(2) show ?thesis by (intro exI [of _ ys] exI [of _ True]) auto
  qed
  then obtain ys b where xs: "xs = ys @ (if b then [16] else [])" and n: "nibbles ys" and l: "length ys \<le> 64" by blast
  show ?thesis
  proof (cases "even (length ys)")
    case True
    with compact_roundtrip_even [OF n True l] show ?thesis unfolding xs by blast
  next
    case False
    then obtain z zs where ys: "ys = z # zs" by (cases ys) auto
    from compact_roundtrip_odd [of z zs b] n False l show ?thesis unfolding xs ys by auto
  qed
qed

end
