(* ===== verification/Trie_Nodes.thy ===== *)
theory Trie_Nodes
  imports Trie_Encoding
begin

text \<open>
  The Merkle trie (\<open>ebla/trie\<close>): nodes (\<open>layout.go\<close>), reading them from the database (\<open>reader.go\<close>), and the writer
  that inserts and deletes (\<open>writer.go\<close>).

  A node is a value; the writer owns its tree, so a change in place is a new tree. \<open>nil_val_node\<close>, the value
  that has not been loaded, is \<open>ValueNode None\<close>. What the trie reads is in \<open>trie_env\<close>: the hash function, the
  schema and the database; what it writes is a list of \<open>trie_out\<close>. A deletion of a key that is not there
  ends in the panic \<open>mpt_del_not_found\<close>, which \<open>write\<close> recovers from: the result \<open>NotFound\<close> carries the tree as
  it was left, with the hashes on the way cleared.
\<close>

section \<open>Nodes\<close>

datatype trie_value = Internal bytes bytes | Foreign bytes bytes

fun value_encodings :: "trie_value \<Rightarrow> bytes \<times> bytes" where
  "value_encodings (Internal s h) = (s, h)"
| "value_encodings (Foreign s h) = (s, h)"

datatype tnode =
    NilNode
  | ShortNode bytes tnode "u256 option"
  | FullNode "tnode list" "u256 option"
  | HashNode u256
  | ValueNode "trie_value option"

definition full_node_child_cnt :: nat where "full_node_child_cnt = 16"

record trie_env =
  te_keccak256 :: "bytes \<Rightarrow> u256"
  te_ValueStorageToHashEncoding :: "bytes \<Rightarrow> bytes option"
  te_MaxValueSizeToStoreInTrie :: nat
  te_GetValue :: "u256 \<Rightarrow> bytes option"
  te_GetNode :: "u256 \<Rightarrow> bytes option"

datatype trie_out = PutValue u256 bytes | PutNode u256 bytes

fun node_get_hash :: "tnode \<Rightarrow> u256 option option" where
  "node_get_hash (ShortNode k v h) = Some h"
| "node_get_hash (FullNode cs h) = Some h"
| "node_get_hash (HashNode h) = Some (Some h)"
| "node_get_hash (ValueNode v) = None"
| "node_get_hash NilNode = None"

section \<open>The reader\<close>

definition resolve_val_n :: "trie_env \<Rightarrow> u256 \<Rightarrow> tnode option" where
  "resolve_val_n env key = do {
     enc_storage \<leftarrow> te_GetValue env key;
     enc_hash \<leftarrow> te_ValueStorageToHashEncoding env enc_storage;
     Some (ValueNode (Some (Internal enc_storage enc_hash)))
   }"

definition resolve_val_n_by_hex_k :: "trie_env \<Rightarrow> bytes \<Rightarrow> tnode option" where
  "resolve_val_n_by_hex_k env hk = Option.bind (hex_to_keybytes hk) (resolve_val_n env)"

text \<open>\<open>dec_node\<close> has fuel, one unit for each level of nesting; \<open>dec\<close> is the recursive call.\<close>

type_synonym node_dec = "bytes \<Rightarrow> u256 option \<Rightarrow> bytes \<Rightarrow> (tnode \<times> bytes) option"

definition dec_short :: "trie_env \<Rightarrow> node_dec \<Rightarrow> bytes \<Rightarrow> u256 option \<Rightarrow> bytes \<Rightarrow> nat \<Rightarrow> tnode option" where
  "dec_short env dec key_prefix db_hash buf payload_start = do {
     (key_ext, content) \<leftarrow> must (SplitString (drop payload_start buf));
     key_ext \<leftarrow> compact_to_hex key_ext;
     if hasTerm key_ext then
       if content = [] then do {
         val \<leftarrow> resolve_val_n_by_hex_k env (key_prefix @ key_ext);
         Some (ShortNode key_ext val db_hash)
       }
       else do {
         (content, _) \<leftarrow> must (SplitString content);
         if length content = 32
         then Some (ShortNode key_ext (ValueNode None) (Some (Hash_SetBytes content)))
         else do {
           assertm (0 < length content \<and> length content \<le> te_MaxValueSizeToStoreInTrie env);
           enc_hash \<leftarrow> te_ValueStorageToHashEncoding env content;
           Some (ShortNode key_ext (ValueNode (Some (Internal content enc_hash))) db_hash)
         }
       }
     else do {
       (val, _) \<leftarrow> dec (key_prefix @ key_ext) None content;
       let hash = (case val of
           HashNode _ \<Rightarrow> if db_hash = None then Some (te_keccak256 env buf) else db_hash
         | _ \<Rightarrow> db_hash);
       Some (ShortNode key_ext val hash)
     }
   }"

text \<open>The loop of \<open>dec_full\<close>: \<open>k\<close> children from the index \<open>i\<close> on.\<close>

fun dec_children :: "node_dec \<Rightarrow> bytes \<Rightarrow> nat \<Rightarrow> nat \<Rightarrow> bytes \<Rightarrow> tnode list option" where
  "dec_children dec key_prefix i 0 enc = Some []"
| "dec_children dec key_prefix i (Suc k) enc = do {
     (c, enc) \<leftarrow> dec (key_prefix @ [word_of_nat i]) None enc;
     cs \<leftarrow> dec_children dec key_prefix (i + 1) k enc;
     Some (c # cs)
   }"

definition dec_full :: "node_dec \<Rightarrow> bytes \<Rightarrow> u256 option \<Rightarrow> bytes \<Rightarrow> tnode option" where
  "dec_full dec key_prefix db_hash enc =
     map_option (\<lambda>cs. FullNode cs db_hash) (dec_children dec key_prefix 0 full_node_child_cnt enc)"

primrec dec_node :: "trie_env \<Rightarrow> nat \<Rightarrow> node_dec" where
  "dec_node env 0 = (\<lambda>key_prefix db_hash buf. None)"
| "dec_node env (Suc n) = (\<lambda>key_prefix db_hash buf. do {
     (kind, tagsize, total_size) \<leftarrow> must (ReadKind buf);
     let tagsize = unat tagsize;
     let total_size = unat total_size;
     payload \<leftarrow> slice buf tagsize total_size;
     let rest = drop total_size buf;
     case kind of
       KList \<Rightarrow> do {
         r \<leftarrow> CountValues payload;
         size \<leftarrow> must r;
         if size = 1 \<or> size = 2
         then map_option (\<lambda>n. (n, rest))
           (dec_short env (dec_node env n) key_prefix db_hash (take total_size buf) tagsize)
         else if size = full_node_child_cnt
         then map_option (\<lambda>n. (n, rest)) (dec_full (dec_node env n) key_prefix db_hash payload)
         else None
       }
     | KString \<Rightarrow>
         if length payload = 0 then Some (NilNode, rest)
         else if length payload = 32 then Some (HashNode (Hash_SetBytes payload), rest)
         else None
     | KByte \<Rightarrow> None
   })"

definition resolve :: "trie_env \<Rightarrow> u256 \<Rightarrow> bytes \<Rightarrow> tnode option" where
  "resolve env hash key_prefix = do {
     bytes \<leftarrow> te_GetNode env hash;
     (ret, _) \<leftarrow> dec_node env (Suc (length bytes)) key_prefix (Some hash) bytes;
     assertm (ret \<noteq> NilNode);
     Some ret
   }"

text \<open>
  \<open>ForEach\<close> calls back with the keys in order; the result is the list of the calls. The fuel is two units for
  each level of the trie, one for the node and one for its hash.
\<close>

primrec for_each :: "trie_env \<Rightarrow> nat \<Rightarrow> bool \<Rightarrow> bytes \<Rightarrow> tnode \<Rightarrow> (u256 \<times> trie_value option) list option" where
  "for_each env 0 = (\<lambda>with_values prefix n. None)"
| "for_each env (Suc fuel) = (\<lambda>with_values prefix n. case n of
       HashNode h \<Rightarrow> Option.bind (resolve env h prefix) (for_each env fuel with_values prefix)
     | ShortNode key_part val h \<Rightarrow>
         let key_extended = prefix @ key_part in
         (case val of
            ValueNode v \<Rightarrow> do {
              key \<leftarrow> hex_to_keybytes key_extended;
              val_n \<leftarrow> (if v = None \<and> with_values then resolve_val_n env key else Some val);
              case val_n of ValueNode v \<Rightarrow> Some [(key, v)] | _ \<Rightarrow> None
            }
          | _ \<Rightarrow> for_each env fuel with_values key_extended val)
     | FullNode cs h \<Rightarrow>
         map_option concat (those (map (\<lambda>(i, c).
           if c = NilNode then Some [] else for_each env fuel with_values (prefix @ [word_of_nat i]) c)
           (zip [0..<full_node_child_cnt] cs)))
     | _ \<Rightarrow> None)"

definition ForEach_fuel :: nat where "ForEach_fuel = 2 * HexKeyLen + 1"

definition ForEach :: "trie_env \<Rightarrow> u256 \<Rightarrow> bool \<Rightarrow> (u256 \<times> trie_value option) list option" where
  "ForEach env root_hash with_values = for_each env ForEach_fuel with_values [] (HashNode root_hash)"

primrec for_each_node_hash :: "trie_env \<Rightarrow> nat \<Rightarrow> bytes \<Rightarrow> tnode \<Rightarrow> (u256 \<times> bytes) list option" where
  "for_each_node_hash env 0 = (\<lambda>prefix n. None)"
| "for_each_node_hash env (Suc fuel) = (\<lambda>prefix n. case n of
       HashNode h \<Rightarrow> do {
         ret_node \<leftarrow> resolve env h prefix;
         ret_bytes \<leftarrow> te_GetNode env h;
         rest \<leftarrow> for_each_node_hash env fuel prefix ret_node;
         Some ((h, ret_bytes) # rest)
       }
     | ShortNode key_part val h \<Rightarrow>
         (case val of ValueNode v \<Rightarrow> Some [] | _ \<Rightarrow> for_each_node_hash env fuel (prefix @ key_part) val)
     | FullNode cs h \<Rightarrow>
         map_option concat (those (map (\<lambda>(i, c).
           if c = NilNode then Some [] else for_each_node_hash env fuel (prefix @ [word_of_nat i]) c)
           (zip [0..<full_node_child_cnt] cs)))
     | _ \<Rightarrow> None)"

definition ForEachNodeHash :: "trie_env \<Rightarrow> u256 \<Rightarrow> (u256 \<times> bytes) list option" where
  "ForEachNodeHash env root_hash = for_each_node_hash env ForEach_fuel [] (HashNode root_hash)"

section \<open>Insertion\<close>

text \<open>\<open>shift\<close> moves a short node one level down (into a junction) or up (out of one that collapses).\<close>

definition shift :: "trie_env \<Rightarrow> tnode \<Rightarrow> u256 option \<Rightarrow> bytes \<Rightarrow> byte \<Rightarrow> bytes \<Rightarrow> bool \<Rightarrow> tnode option" where
  "shift env val hash new_prefix pivot new_suffix up = do {
     val \<leftarrow> (if val = ValueNode None then resolve_val_n_by_hex_k env (new_prefix @ [pivot] @ new_suffix) else Some val);
     Some (if up then ShortNode (pivot # new_suffix) val hash
           else if new_suffix = [] then val
           else ShortNode new_suffix val hash)
   }"

partial_function (option) mpt_insert :: "trie_env \<Rightarrow> bytes \<Rightarrow> tnode \<Rightarrow> nat \<Rightarrow> tnode \<Rightarrow> tnode option" where
  "mpt_insert env kbuf n keypos val =
     (case n of
        ShortNode key_part v h \<Rightarrow>
          let matchlen = prefixLen (drop keypos kbuf) key_part;
              keypos_after_match = keypos + matchlen
          in if keypos_after_match = HexKeyLen then Some (ShortNode key_part val None)
             else if matchlen = length key_part then do {
               v \<leftarrow> mpt_insert env kbuf v keypos_after_match val;
               Some (ShortNode key_part v None)
             }
             else do {
               let new_pivot = key_part ! matchlen;
               c \<leftarrow> shift env v None (take keypos_after_match kbuf) new_pivot (drop (matchlen + 1) key_part) False;
               let nibble = kbuf ! keypos_after_match;
               assertm (unat new_pivot < full_node_child_cnt \<and> unat nibble < full_node_child_cnt);
               let junction = FullNode ((replicate full_node_child_cnt NilNode)
                 [unat new_pivot := c, unat nibble := ShortNode (drop (keypos_after_match + 1) kbuf) val None]) None;
               Some (if matchlen = 0 then junction
                     else ShortNode (take matchlen (drop keypos kbuf)) junction None)
             }
      | FullNode cs h \<Rightarrow> do {
          assertm (keypos < HexKeyLen);
          let i = unat (kbuf ! keypos);
          assertm (i < length cs);
          c \<leftarrow> mpt_insert env kbuf (cs ! i) (keypos + 1) val;
          Some (FullNode (cs[i := c]) None)
        }
      | HashNode h \<Rightarrow> do {
          n \<leftarrow> resolve env h (take keypos kbuf);
          mpt_insert env kbuf n keypos val
        }
      | NilNode \<Rightarrow> Some (ShortNode (drop keypos kbuf) val None)
      | ValueNode v \<Rightarrow> None)"

section \<open>Deletion\<close>

datatype del_result = Deleted tnode | NotFound tnode

text \<open>The child that is left in a full node when the one at \<open>del\<close> goes, if it is the only one.\<close>

definition only_child_nibble :: "tnode list \<Rightarrow> nat \<Rightarrow> nat option" where
  "only_child_nibble cs del =
     (case filter (\<lambda>i. cs ! i \<noteq> NilNode \<and> i \<noteq> del) [0..<full_node_child_cnt] of [i] \<Rightarrow> Some i | _ \<Rightarrow> None)"

definition del_short :: "bytes \<Rightarrow> tnode \<Rightarrow> tnode" where
  "del_short key_part child =
     (case child of
        ShortNode k v h \<Rightarrow> ShortNode (key_part @ k) v None
      | _ \<Rightarrow> ShortNode key_part child None)"

definition del_full :: "trie_env \<Rightarrow> bytes \<Rightarrow> nat \<Rightarrow> tnode list \<Rightarrow> nat \<Rightarrow> tnode \<Rightarrow> tnode option" where
  "del_full env kbuf keypos cs deletion_nibble deletion_child =
     (case (if deletion_child = NilNode then only_child_nibble cs deletion_nibble else None) of
        None \<Rightarrow> Some (FullNode (cs[deletion_nibble := deletion_child]) None)
      | Some i \<Rightarrow> do {
          only_child \<leftarrow> (case cs ! i of
              HashNode h \<Rightarrow> resolve env h (take keypos kbuf @ [word_of_nat i])
            | c \<Rightarrow> Some c);
          case only_child of
            ShortNode k v h \<Rightarrow> shift env v None (take keypos kbuf) (word_of_nat i) k True
          | _ \<Rightarrow> Some (ShortNode [word_of_nat i] only_child None)
        })"

partial_function (option) mpt_del :: "trie_env \<Rightarrow> bytes \<Rightarrow> tnode \<Rightarrow> nat \<Rightarrow> del_result option" where
  "mpt_del env kbuf n keypos =
     (case n of
        ShortNode key_part v h \<Rightarrow>
          let matchlen = prefixLen (drop keypos kbuf) key_part in
          if matchlen \<noteq> length key_part then Some (NotFound n)
          else if keypos + matchlen = HexKeyLen then Some (Deleted NilNode)
          else do {
            r \<leftarrow> mpt_del env kbuf v (keypos + matchlen);
            Some (case r of
                NotFound c \<Rightarrow> NotFound (ShortNode key_part c None)
              | Deleted c \<Rightarrow> Deleted (del_short key_part c))
          }
      | FullNode cs h \<Rightarrow> do {
          assertm (keypos < HexKeyLen);
          let deletion_nibble = unat (kbuf ! keypos);
          assertm (deletion_nibble < length cs);
          r \<leftarrow> mpt_del env kbuf (cs ! deletion_nibble) (keypos + 1);
          case r of
            NotFound c \<Rightarrow> Some (NotFound (FullNode (cs[deletion_nibble := c]) h))
          | Deleted c \<Rightarrow> map_option Deleted (del_full env kbuf keypos cs deletion_nibble c)
        }
      | HashNode h \<Rightarrow> do {
          n' \<leftarrow> resolve env h (take keypos kbuf);
          r \<leftarrow> mpt_del env kbuf n' keypos;
          Some (case r of NotFound c \<Rightarrow> NotFound (HashNode h) | Deleted c \<Rightarrow> Deleted c)
        }
      | NilNode \<Rightarrow> Some (NotFound NilNode)
      | ValueNode v \<Rightarrow> None)"

section \<open>Writing\<close>

definition trie_Put :: "trie_env \<Rightarrow> u256 \<Rightarrow> trie_value \<Rightarrow> tnode \<Rightarrow> tnode option" where
  "trie_Put env k v root = mpt_insert env (hex_key k) root 0 (ValueNode (Some v))"

definition trie_Delete :: "trie_env \<Rightarrow> u256 \<Rightarrow> tnode \<Rightarrow> (tnode \<times> trie_out list) option" where
  "trie_Delete env k root = do {
     r \<leftarrow> mpt_del env (hex_key k) root 0;
     Some (case r of
         Deleted n \<Rightarrow> (n, [PutValue k []])
       | NotFound n \<Rightarrow> (n, []))
   }"

end
