(* ===== verification/Trie_Node_Codec.thy ===== *)
theory Trie_Node_Codec
  imports Trie_Nodes
begin

text \<open>Reading nodes from the encodings of RLP items: what \<open>dec_node\<close> returns on strings and lists.\<close>

section \<open>Headers\<close>

lemma length_rlps_less: "length (rlp (RList xs) @ r) < 2 ^ 64 \<Longrightarrow> length (rlps xs) < 2 ^ 64"
  by (simp add: Let_def)

lemma ReadKind_list_rlp:
  assumes "length (rlp (RList xs) @ r) < 2 ^ 64"
  obtains tag total where "ReadKind (rlp (RList xs) @ r) = Inr (KList, tag, total)" "unat total = length (rlp (RList xs))"
    "unat tag + length (rlps xs) = unat total" "drop (unat tag) (rlp (RList xs)) = rlps xs"
proof -
  let ?b = "rlps xs"
  let ?h = "rlp_head 0xC0 0xF7 (length ?b)"
  have e: "rlp (RList xs) = ?h @ ?b" by (simp add: Let_def)
  have l: "length (?h @ ?b @ r) < 2 ^ 64" using assms unfolding e by simp
  have "length ?h < 256" using rlp_head_length_le [of "length ?b" "0xC0" "0xF7"] l by simp
  then have h: "unat (word_of_nat (length ?h) :: byte) = length ?h" by (rule byte_of_small)
  have t: "unat (word_of_nat (length ?h + length ?b) :: u64) = length ?h + length ?b"
    using l by (simp add: unat_of_nat del: of_nat_add)
  have "ReadKind (?h @ ?b @ r) = Inr (KList, of_nat (length ?h), of_nat (length ?h + length ?b))"
    using ReadKind_list_head [of "length ?b" "?b @ r"] l by simp
  then show thesis using that [of "of_nat (length ?h)" "of_nat (length ?h + length ?b)"] h t unfolding e
    by (simp del: of_nat_add)
qed

lemma ReadKind_string_rlp:
  assumes "length (rlp (RStr s) @ r) < 2 ^ 64" "length s \<noteq> 1"
  obtains tag total where "ReadKind (rlp (RStr s) @ r) = Inr (KString, tag, total)" "unat total = length (rlp (RStr s))"
    "unat tag + length s = unat total" "drop (unat tag) (rlp (RStr s)) = s"
proof -
  let ?h = "rlp_head 0x80 0xB7 (length s)"
  have e: "rlp (RStr s) = ?h @ s" using assms(2) by simp
  have l: "length (?h @ s @ r) < 2 ^ 64" using assms(1) unfolding e by simp
  have "length ?h < 256" using rlp_head_length_le [of "length s" "0x80" "0xB7"] l by simp
  then have h: "unat (word_of_nat (length ?h) :: byte) = length ?h" by (rule byte_of_small)
  have t: "unat (word_of_nat (length ?h + length s) :: u64) = length ?h + length s"
    using l by (simp add: unat_of_nat del: of_nat_add)
  have "ReadKind (?h @ s @ r) = Inr (KString, of_nat (length ?h), of_nat (length ?h + length s))"
    using ReadKind_string_head [of "length s" "s @ r"] l assms(2) by simp
  then show thesis using that [of "of_nat (length ?h)" "of_nat (length ?h + length s)"] h t unfolding e
    by (simp del: of_nat_add)
qed

lemma CountValues_rlps:
  assumes "length (rlps xs) < 2 ^ 64" shows "CountValues (rlps xs) = Some (Inr (length xs))"
proof -
  have "is_values (map rlp xs)" by (induction xs) (auto simp del: is_value.simps intro: item_is_value)
  then show ?thesis using CountValues_loop_values [of "map rlp xs" 0] assms by (simp add: CountValues_def)
qed

section \<open>Nodes\<close>

lemma dec_node_string:
  assumes "length (rlp (RStr s) @ r) < 2 ^ 64" "length s = 0 \<or> length s = 32"
  shows "dec_node env (Suc n) q h (rlp (RStr s) @ r) = Some (if s = [] then NilNode else HashNode (Hash_SetBytes s), r)"
proof -
  have "length s \<noteq> 1" using assms(2) by auto
  then obtain tag total where t: "ReadKind (rlp (RStr s) @ r) = Inr (KString, tag, total)" "unat total = length (rlp (RStr s))"
    "unat tag + length s = unat total" "drop (unat tag) (rlp (RStr s)) = s"
    using ReadKind_string_rlp [OF assms(1)] by metis
  have p: "slice (rlp (RStr s) @ r) (unat tag) (unat total) = Some s"
    using t(2-4) by (simp add: slice_def del: rlp.simps)
  show ?thesis using assms(2) t(1,2) p by (auto simp: must_def Let_def simp del: rlp.simps)
qed

lemma dec_node_list:
  assumes "length (rlp (RList xs) @ r) < 2 ^ 64"
  obtains tag where "dec_node env (Suc n) q h (rlp (RList xs) @ r) =
     (if length xs = 1 \<or> length xs = 2
      then map_option (\<lambda>m. (m, r)) (dec_short env (dec_node env n) q h (rlp (RList xs)) tag)
      else if length xs = full_node_child_cnt then map_option (\<lambda>m. (m, r)) (dec_full (dec_node env n) q h (rlps xs))
      else None)" "drop tag (rlp (RList xs)) = rlps xs"
proof -
  obtain tag total where t: "ReadKind (rlp (RList xs) @ r) = Inr (KList, tag, total)" "unat total = length (rlp (RList xs))"
    "unat tag + length (rlps xs) = unat total" "drop (unat tag) (rlp (RList xs)) = rlps xs"
    using ReadKind_list_rlp [OF assms] by metis
  have p: "slice (rlp (RList xs) @ r) (unat tag) (unat total) = Some (rlps xs)"
    using t(2-4) by (simp add: slice_def del: rlp.simps)
  have c: "CountValues (rlps xs) = Some (Inr (length xs))" by (rule CountValues_rlps [OF length_rlps_less [OF assms]])
  show thesis
    by (rule that [OF _ t(4)]) (use t(1,2) p c in \<open>simp add: must_def Let_def del: rlp.simps\<close>)
qed

text \<open>A leaf: with its value or its hash in the node, or with its value only under its key.\<close>

lemma dec_leaf_value:
  assumes "length (rlp (RList [RStr ck, RStr c]) @ r) < 2 ^ 64" "compact_to_hex ck = Some kp" "hasTerm kp"
    "0 < length c" "length c \<noteq> 32" "length c \<le> te_MaxValueSizeToStoreInTrie env" "te_ValueStorageToHashEncoding env c = Some eh"
  shows "dec_node env (Suc n) q h (rlp (RList [RStr ck, RStr c]) @ r) = Some (ShortNode kp (ValueNode (Some (Internal c eh))) h, r)"
proof -
  let ?xs = "[RStr ck, RStr c]"
  have l: "length (rlps ?xs) < 2 ^ 64" by (rule length_rlps_less [OF assms(1)])
  have s1: "SplitString (rlps ?xs) = Inr (ck, rlps [RStr c])" by (rule SplitString_items [OF l])
  have s2: "SplitString (rlps [RStr c]) = Inr (c, rlps [])" using l by (intro SplitString_items) simp
  have ne: "rlps [RStr c] \<noteq> []" using assms(4) by auto
  obtain tag where "dec_node env (Suc n) q h (rlp (RList ?xs) @ r) =
      map_option (\<lambda>m. (m, r)) (dec_short env (dec_node env n) q h (rlp (RList ?xs)) tag)"
    "drop tag (rlp (RList ?xs)) = rlps ?xs" using dec_node_list [OF assms(1), of env n q h] by (metis One_nat_def length_Cons list.size(3) Suc_1)
  then show ?thesis using s1 s2 ne assms(2-) by (simp add: dec_short_def must_def del: rlp.simps list.map concat.simps)
qed

end
