(* ===== verification/Trie_Model.thy ===== *)
theory Trie_Model
  imports Trie_Encoding
begin

text \<open>
  The abstract trie: leaves, extensions and branches without hashes, caches and a database. \<open>pwf\<close> is the shape
  that the writer keeps (no extension over anything but a branch, at least two children in a branch), and a trie of
  this shape is determined by its contents, whatever the order of the changes that led to it. \<open>pins\<close> and \<open>pdel\<close>
  are insertion and deletion; \<open>Trie_Writer\<close> shows that the code implements them.
\<close>

section \<open>Abstract tries\<close>

type_synonym enc_value = "bytes \<times> bytes"

datatype ptrie =
    PLeaf bytes enc_value
  | PExt bytes ptrie
  | PBranch "nat \<Rightarrow> ptrie option"

lemma ptrie_induct [case_names PLeaf PExt PBranch]:
  assumes "\<And>kp v. P (PLeaf kp v)" "\<And>kp t. P t \<Longrightarrow> P (PExt kp t)" "\<And>f. (\<And>i t. f i = Some t \<Longrightarrow> P t) \<Longrightarrow> P (PBranch f)"
  shows "P t"
proof (induction t)
  case (PBranch f)
  show ?case
  proof (rule assms(3))
    fix i t
    assume "f i = Some t"
    then show "P t" using PBranch.IH [of "f i" t] by (metis option.set_intros rangeI)
  qed
qed (use assms in auto)

fun is_branch :: "ptrie \<Rightarrow> bool" where
  "is_branch (PBranch f) = True"
| "is_branch _ = False"

primrec plookup :: "ptrie \<Rightarrow> bytes \<rightharpoonup> enc_value" where
  "plookup (PLeaf kp v) = (\<lambda>k. if k = kp then Some v else None)"
| "plookup (PExt kp t) = (\<lambda>k. if take (length kp) k = kp then plookup t (drop (length kp) k) else None)"
| "plookup (PBranch f) = (\<lambda>k. case k of [] \<Rightarrow> None
     | x # k \<Rightarrow> (case (map_option plookup \<circ> f) (unat x) of None \<Rightarrow> None | Some g \<Rightarrow> g k))"

text \<open>Keys of \<open>d\<close> nibbles, the terminator included.\<close>

definition hexkey :: "nat \<Rightarrow> bytes \<Rightarrow> bool" where
  "hexkey d k \<longleftrightarrow> (\<exists>xs. k = xs @ [16] \<and> nibbles xs \<and> length k = d)"

primrec pwf :: "ptrie \<Rightarrow> nat \<Rightarrow> bool" where
  "pwf (PLeaf kp v) = (\<lambda>d. hexkey d kp)"
| "pwf (PExt kp t) = (\<lambda>d. kp \<noteq> [] \<and> nibbles kp \<and> length kp < d \<and> is_branch t \<and> pwf t (d - length kp))"
| "pwf (PBranch f) = (\<lambda>d. 2 \<le> d \<and> (\<forall>i \<ge> 16. f i = None) \<and> (\<exists>i j. i \<noteq> j \<and> f i \<noteq> None \<and> f j \<noteq> None) \<and>
     (\<forall>i. pred_option (\<lambda>p. p (d - 1)) ((map_option pwf \<circ> f) i)))"

lemma plookup_branch [simp]:
  "plookup (PBranch f) [] = None"
  "plookup (PBranch f) (x # k) = (case f (unat x) of None \<Rightarrow> None | Some t \<Rightarrow> plookup t k)"
  by (simp_all split: option.splits)

lemma plookup_ext_append [simp]: "plookup (PExt kp t) (kp @ k) = plookup t k"
  by simp

declare plookup.simps(2,3) [simp del]

lemma pwf_branch: "pwf (PBranch f) d \<longleftrightarrow> 2 \<le> d \<and> (\<forall>i \<ge> 16. f i = None) \<and>
    (\<exists>i j. i \<noteq> j \<and> f i \<noteq> None \<and> f j \<noteq> None) \<and> (\<forall>i t. f i = Some t \<longrightarrow> pwf t (d - 1))"
  by (auto simp: option.pred_set)

declare pwf.simps(3) [simp del]

section \<open>Keys\<close>

lemma hexkey_Cons: "hexkey d (x # k) \<longleftrightarrow> (x = 16 \<and> k = [] \<and> d = 1 \<or> x < 16 \<and> hexkey (d - 1) k \<and> 2 \<le> d)"
proof (cases k rule: rev_cases)
  case Nil
  then show ?thesis by (auto simp: hexkey_def)
next
  case (snoc ys y)
  then show ?thesis by (auto simp: hexkey_def)
qed

lemma hexkey_not_Nil [simp]: "\<not> hexkey d []"
  by (simp add: hexkey_def)

lemma hexkey_length: "hexkey d k \<Longrightarrow> length k = d"
  by (auto simp: hexkey_def)

lemma hexkey_append: "nibbles kp \<Longrightarrow> hexkey d (kp @ k) \<longleftrightarrow> length kp < d \<and> hexkey (d - length kp) k"
proof (induction kp arbitrary: d)
  case Nil
  have "0 < d" if "hexkey d k" using hexkey_length [OF that] that by (cases k) auto
  then show ?case by auto
next
  case (Cons x kp)
  then have x: "x < 16" "x \<noteq> 16" "nibbles kp" by auto
  have "hexkey d (x # kp @ k) \<longleftrightarrow> 2 \<le> d \<and> length kp < d - 1 \<and> hexkey (d - 1 - length kp) k"
    using Cons.IH [OF x(3), of "d - 1"] x by (simp add: hexkey_Cons) blast
  also have "\<dots> \<longleftrightarrow> length (x # kp) < d \<and> hexkey (d - length (x # kp)) k" by auto
  finally show ?case by simp
qed

lemma plookup_hexkey: "pwf t d \<Longrightarrow> plookup t k = Some v \<Longrightarrow> hexkey d k"
proof (induction t arbitrary: d k v rule: ptrie_induct)
  case (PLeaf kp w)
  then show ?case by (simp split: if_splits)
next
  case (PExt kp t)
  then have l: "take (length kp) k = kp" "plookup t (drop (length kp) k) = Some v" "nibbles kp" "length kp < d"
    "pwf t (d - length kp)"
    by (simp_all add: plookup.simps split: if_splits)
  then have "hexkey d (kp @ drop (length kp) k)" using PExt.IH by (simp add: hexkey_append)
  then show ?case using l(1) by (metis append_take_drop_id)
next
  case (PBranch f)
  then obtain x k' t where k: "k = x # k'" "f (unat x) = Some t" "plookup t k' = Some v"
    by (cases k) (auto split: option.splits)
  with PBranch.prems(1) have t: "pwf t (d - 1)" "2 \<le> d" "\<not> 16 \<le> unat x" by (auto simp: pwf_branch)
  have "hexkey (d - 1) k'" using PBranch.IH [OF k(2) t(1) k(3)] .
  then show ?case using k(1) t by (simp add: hexkey_Cons word_less_nat_alt)
qed

lemma pwf_nonempty: "pwf t d \<Longrightarrow> \<exists>k v. plookup t k = Some v"
proof (induction t arbitrary: d rule: ptrie_induct)
  case (PLeaf kp v)
  then show ?case by auto
next
  case (PExt kp t)
  then have "\<exists>k v. plookup t k = Some v" by auto
  then obtain k v where "plookup t k = Some v" by blast
  then have "plookup (PExt kp t) (kp @ k) = Some v" by simp
  then show ?case by blast
next
  case (PBranch f)
  then obtain i t where i: "f i = Some t" "i < 16" "pwf t (d - 1)" unfolding pwf_branch by (metis not_le option.exhaust)
  have "\<exists>k v. plookup t k = Some v" using PBranch.IH [OF i(1,3)] .
  then obtain k v where "plookup t k = Some v" by blast
  moreover have "unat (word_of_nat i :: byte) = i" using i(2) by (simp add: unat_of_nat)
  ultimately have "plookup (PBranch f) (word_of_nat i # k) = Some v" using i(1) by simp
  then show ?case by blast
qed

text \<open>The keys of a branch fork at once.\<close>

lemma branch_child:
  assumes "pwf (PBranch f) d" "f i = Some t"
  obtains x k where "unat x = i" "x < 16" "plookup (PBranch f) (x # k) \<noteq> None"
proof -
  have i: "i < 16" "pwf t (d - 1)" using assms unfolding pwf_branch by (metis not_le option.distinct(1))+
  then obtain k where k: "plookup t k \<noteq> None" using pwf_nonempty by fastforce
  have u: "unat (word_of_nat i :: byte) = i" using i(1) by (simp add: unat_of_nat)
  moreover have "(word_of_nat i :: byte) < 16" using i(1) u by (simp add: word_less_nat_alt)
  ultimately show thesis using that [of "word_of_nat i" k] k assms(2) by simp
qed

lemma branch_forks:
  assumes "pwf t d" "is_branch t"
  obtains x a y b where "x \<noteq> y" "plookup t (x # a) \<noteq> None" "plookup t (y # b) \<noteq> None"
proof -
  obtain f where t: "t = PBranch f" using assms(2) by (cases t) auto
  then obtain i j u w where "i \<noteq> j" "f i = Some u" "f j = Some w" using assms(1) by (auto simp: pwf_branch)
  then show thesis using branch_child [OF assms(1) [unfolded t]] that unfolding t by metis
qed

section \<open>The contents determine the trie\<close>

lemma ext_prefix: "plookup (PExt kp t) k \<noteq> None \<Longrightarrow> \<exists>k'. k = kp @ k' \<and> plookup t k' \<noteq> None"
  by (metis append_take_drop_id plookup.simps(2))

lemma ext_keys_agree:
  assumes "pwf t d" "is_branch t" "pwf t' d'" "is_branch t'" "plookup (PExt kp t) = plookup (PExt kp' t')"
  shows "length kp' \<le> length kp"
proof (rule ccontr)
  assume longer: "\<not> length kp' \<le> length kp"
  obtain x a y b where f: "x \<noteq> y" "plookup t (x # a) \<noteq> None" "plookup t (y # b) \<noteq> None"
    by (rule branch_forks [OF assms(1,2)])
  then have "plookup (PExt kp' t') (kp @ x # a) \<noteq> None" "plookup (PExt kp' t') (kp @ y # b) \<noteq> None"
    unfolding assms(5) [symmetric] by simp_all
  then obtain p q where "kp @ x # a = kp' @ p" "kp @ y # b = kp' @ q" using ext_prefix by metis
  then have "(kp @ x # a) ! length kp = (kp @ y # b) ! length kp"
    using longer by (simp only: nth_append) (simp add: not_le)
  then show False using f(1) by simp
qed

lemma ext_not_branch:
  assumes "pwf (PExt kp t) d" "pwf t' d'" "is_branch t'" shows "plookup (PExt kp t) \<noteq> plookup t'"
proof
  assume eq: "plookup (PExt kp t) = plookup t'"
  obtain x a y b where f: "x \<noteq> y" "plookup t' (x # a) \<noteq> None" "plookup t' (y # b) \<noteq> None"
    by (rule branch_forks [OF assms(2,3)])
  then obtain p q where "x # a = kp @ p" "y # b = kp @ q" using ext_prefix unfolding eq [symmetric] by metis
  then show False using f(1) assms(1) by (cases kp) auto
qed

lemma leaf_not_fork:
  assumes "pwf t d" "\<nexists>kp v. t = PLeaf kp v" shows "plookup t \<noteq> plookup (PLeaf kp v)"
proof
  assume eq: "plookup t = plookup (PLeaf kp v)"
  have one: "k = kp" if "plookup t k \<noteq> None" for k using that unfolding eq by (simp split: if_splits)
  show False
  proof (cases t)
    case (PExt q u)
    then have u: "pwf u (d - length q)" "is_branch u" using assms(1) by auto
    obtain x a y b where "x \<noteq> y" "plookup u (x # a) \<noteq> None" "plookup u (y # b) \<noteq> None"
      by (rule branch_forks [OF u])
    then show False using one [of "q @ x # a"] one [of "q @ y # b"] PExt by auto
  next
    case (PBranch f)
    then show False using branch_forks [OF assms(1)] one by (metis is_branch.simps(1) list.inject)
  qed (use assms(2) in blast)
qed

lemma same_children:
  assumes "pwf (PBranch f) d" "f i = Some u" "plookup (PBranch f) = plookup (PBranch f')" shows "f' i \<noteq> None"
proof (rule branch_child [OF assms(1,2)])
  fix x k
  assume "unat x = i" "plookup (PBranch f) (x # k) \<noteq> None"
  then have "plookup (PBranch f') (x # k) \<noteq> None" using assms(3) by simp
  then show ?thesis using \<open>unat x = i\<close> by (auto split: option.splits)
qed

lemma pwf_unique:
  "pwf t d \<Longrightarrow> pwf t' d \<Longrightarrow> plookup t = plookup t' \<Longrightarrow> t = t'"
proof (induction t arbitrary: t' d rule: ptrie_induct)
  case (PLeaf kp v)
  then obtain kp' v' where t': "t' = PLeaf kp' v'" using leaf_not_fork by metis
  with PLeaf.prems(3) have "plookup (PLeaf kp v) kp = plookup (PLeaf kp' v') kp" by simp
  then show ?case unfolding t' by (simp split: if_splits)
next
  case (PExt kp t)
  show ?case
  proof (cases t')
    case (PLeaf k v)
    then show ?thesis using leaf_not_fork [OF PExt.prems(1), of k v] PExt.prems(3) by blast
  next
    case (PBranch f)
    then show ?thesis using ext_not_branch [OF PExt.prems(1,2)] PExt.prems(3) by simp
  next
    case t': (PExt kp' u)
    note w = PExt.prems(1,2) [unfolded t', simplified]
    have "length kp = length kp'"
      using ext_keys_agree [of t "d - length kp" u "d - length kp'" kp kp'] w PExt.prems(3) [unfolded t']
        ext_keys_agree [of u "d - length kp'" t "d - length kp" kp' kp] by (metis le_antisym)
    moreover obtain k where k: "plookup t k \<noteq> None" using w pwf_nonempty by fastforce
    ultimately have kp: "kp = kp'"
      using PExt.prems(3) ext_prefix [of kp' u "kp @ k"] unfolding t' by (metis append_eq_append_conv plookup_ext_append)
    have "plookup t k = plookup u k" for k
      using fun_cong [OF PExt.prems(3), of "kp @ k"] unfolding t' kp by simp
    then show ?thesis using PExt.IH [of "d - length kp" u] w kp t' by auto
  qed
next
  case (PBranch f)
  show ?case
  proof (cases t')
    case (PLeaf k v)
    then show ?thesis using leaf_not_fork [OF PBranch.prems(1), of k v] PBranch.prems(3) by blast
  next
    case (PExt k u)
    then show ?thesis using ext_not_branch [of k u d "PBranch f" d] PBranch.prems by simp
  next
    case t': (PBranch f')
    have sub: "plookup (PBranch f) (x # k) = plookup (PBranch f') (x # k)" for x k
      using PBranch.prems(3) unfolding t' by simp
    have "f i = f' i" for i
    proof (cases "i < 16")
      case False
      then show ?thesis using PBranch.prems(1,2) unfolding t' pwf_branch by simp
    next
      case True
      then have u: "unat (word_of_nat i :: byte) = i" by (simp add: unat_of_nat)
      show ?thesis
      proof (cases "f i")
        case None
        then have "f' i = None"
          using same_children [OF PBranch.prems(2) [unfolded t'] _ PBranch.prems(3) [unfolded t', symmetric], of i]
          by (cases "f' i") auto
        with None show ?thesis by simp
      next
        case (Some t)
        then obtain u' where u': "f' i = Some u'"
          using same_children [OF PBranch.prems(1) Some PBranch.prems(3) [unfolded t']] by blast
        have "plookup t k = plookup u' k" for k using sub [of "word_of_nat i" k] Some u' u by simp
        moreover have "pwf t (d - 1)" "pwf u' (d - 1)" using PBranch.prems(1,2) Some u' unfolding t' pwf_branch by blast+
        ultimately have "t = u'" using PBranch.IH [OF Some] by blast
        then show ?thesis using Some u' by simp
      qed
    qed
    then show ?thesis unfolding t' by auto
  qed
qed

section \<open>Insertion\<close>

fun mkext :: "bytes \<Rightarrow> ptrie \<Rightarrow> ptrie" where
  "mkext [] t = t"
| "mkext kp t = PExt kp t"

definition pfork :: "byte \<Rightarrow> ptrie \<Rightarrow> byte \<Rightarrow> ptrie \<Rightarrow> ptrie" where
  "pfork x t y u = PBranch ((\<lambda>_. None)(unat x := Some t, unat y := Some u))"

primrec pins :: "enc_value \<Rightarrow> ptrie \<Rightarrow> bytes \<Rightarrow> ptrie" where
  "pins v (PLeaf kp w) = (\<lambda>k.
     if k = kp then PLeaf kp v
     else let n = prefixLen k kp in
       mkext (take n kp) (pfork (kp ! n) (PLeaf (drop (n + 1) kp) w) (k ! n) (PLeaf (drop (n + 1) k) v)))"
| "pins v (PExt kp t) = (\<lambda>k.
     let n = prefixLen k kp in
     if n = length kp then PExt kp (pins v t (drop n k))
     else mkext (take n kp) (pfork (kp ! n) (mkext (drop (n + 1) kp) t) (k ! n) (PLeaf (drop (n + 1) k) v)))"
| "pins v (PBranch f) = (\<lambda>k. PBranch (f(unat (hd k) :=
     Some (case (map_option (pins v) \<circ> f) (unat (hd k)) of None \<Rightarrow> PLeaf (tl k) v | Some g \<Rightarrow> g (tl k)))))"

lemma pins_branch: "pins v (PBranch f) k = PBranch (f(unat (hd k) :=
    Some (case f (unat (hd k)) of None \<Rightarrow> PLeaf (tl k) v | Some t \<Rightarrow> pins v t (tl k))))"
  by (simp split: option.splits)

declare pins.simps(3) [simp del]

lemma prefixLen_le: "prefixLen a b \<le> length a" "prefixLen a b \<le> length b"
  by (induction a b rule: prefixLen.induct) auto

lemma prefixLen_take: "take (prefixLen a b) a = take (prefixLen a b) b"
  by (induction a b rule: prefixLen.induct) auto

lemma prefixLen_differs: "prefixLen a b < length a \<Longrightarrow> prefixLen a b < length b \<Longrightarrow> a ! prefixLen a b \<noteq> b ! prefixLen a b"
  by (induction a b rule: prefixLen.induct) auto

text \<open>The parts of two strings around the place where they differ.\<close>

lemma prefixLen_parts:
  assumes "prefixLen a b < length a" "prefixLen a b < length b"
  obtains p x r y s where "a = p @ x # r" "b = p @ y # s" "x \<noteq> y" "prefixLen a b = length p"
    "take (prefixLen a b) b = p" "a ! prefixLen a b = x" "b ! prefixLen a b = y"
    "drop (prefixLen a b + 1) a = r" "drop (prefixLen a b + 1) b = s"
proof -
  let ?n = "prefixLen a b"
  have "a = take ?n b @ a ! ?n # drop (Suc ?n) a" using prefixLen_take [of a b] assms(1) by (metis id_take_nth_drop)
  moreover have "b = take ?n b @ b ! ?n # drop (Suc ?n) b" using assms(2) by (metis id_take_nth_drop)
  ultimately show thesis using that [of "take ?n b" "a ! ?n" "drop (Suc ?n) a" "b ! ?n" "drop (Suc ?n) b"]
    prefixLen_differs [OF assms] assms by auto
qed

lemma prefixLen_full: "prefixLen k kp = length kp \<Longrightarrow> k = kp @ drop (length kp) k"
  by (metis append_take_drop_id prefixLen_take take_all order_refl)

lemma prefixLen_self: "prefixLen (kp @ k) kp = length kp"
  by (induction kp) auto

lemma hexkey_equal_prefix:
  assumes "hexkey d k" "hexkey d kp" "k \<noteq> kp" shows "prefixLen k kp < d"
proof (rule ccontr)
  assume "\<not> prefixLen k kp < d"
  then have "prefixLen k kp = length k" "prefixLen k kp = length kp"
    using hexkey_length assms prefixLen_le [of k kp] by fastforce+
  then show False using prefixLen_take [of k kp] assms(3) by simp
qed

lemma pwf_mkext:
  assumes "nibbles kp" "length kp < d" "is_branch t" "pwf t (d - length kp)" shows "pwf (mkext kp t) d"
  using assms by (cases kp) auto

lemma plookup_mkext: "plookup (mkext kp t) (kp @ k) = plookup t k"
  by (cases kp) (simp_all add: plookup.simps)

lemma plookup_mkext_None: "\<nexists>k'. k = kp @ k' \<Longrightarrow> plookup (mkext kp t) k = None"
proof (cases kp)
  case (Cons x xs)
  assume n: "\<nexists>k'. k = kp @ k'"
  then have "take (length kp) k \<noteq> kp" by (metis append_take_drop_id)
  then show ?thesis using Cons by (simp add: plookup.simps)
qed simp

lemma pwf_pfork:
  assumes "x \<noteq> y" "x < 16" "y < 16" "pwf t (d - 1)" "pwf u (d - 1)" "2 \<le> d" shows "pwf (pfork x t y u) d"
proof -
  have "unat x < 16" "unat y < 16" "unat x \<noteq> unat y" using assms(1-3) by (simp_all add: word_less_nat_alt word_unat_eq_iff)
  then show ?thesis unfolding pfork_def pwf_branch using assms(4-6) by (auto intro!: exI [of _ "unat x"] exI [of _ "unat y"])
qed

lemma plookup_pfork:
  "x \<noteq> y \<Longrightarrow> plookup (pfork x t y u) (z # k) = (if z = x then plookup t k else if z = y then plookup u k else None)"
  by (auto simp: pfork_def word_unat_eq_iff)

lemma is_branch_pfork [simp]: "is_branch (pfork x t y u)"
  by (simp add: pfork_def)

lemma pfork_insert:
  assumes "x \<noteq> y" and t: "\<And>c. plookup t0 (p @ x # c) = plookup t c" and n: "\<And>q. \<nexists>c. q = p @ x # c \<Longrightarrow> plookup t0 q = None"
  shows "plookup (mkext p (pfork x t y (PLeaf b v))) = (plookup t0)(p @ y # b \<mapsto> v)"
proof
  fix q
  consider z c where "q = p @ z # c" | "q = p" | "\<nexists>c. q = p @ c" by (metis append_Nil2 neq_Nil_conv)
  then show "plookup (mkext p (pfork x t y (PLeaf b v))) q = ((plookup t0)(p @ y # b \<mapsto> v)) q"
  proof cases
    case (1 z c)
    then show ?thesis
      using assms(1) t [of c] n [of q] by (simp add: plookup_mkext plookup_pfork)
  next
    case 2
    then have "plookup t0 q = None" by (intro n) auto
    moreover have "plookup (pfork x t y (PLeaf b v)) [] = None" by (simp add: pfork_def)
    ultimately show ?thesis using 2 plookup_mkext [of p "pfork x t y (PLeaf b v)" "[]"] by simp
  next
    case 3
    then have "plookup t0 q = None" by (intro n) auto
    moreover have "q \<noteq> p @ y # b" using 3 by blast
    ultimately show ?thesis using plookup_mkext_None [OF 3] by simp
  qed
qed

lemma hexkey_part:
  assumes "hexkey d (p @ x # r)" "r \<noteq> []"
  shows "nibbles p" "x < 16" "length p < d" "2 \<le> d - length p" "hexkey (d - length p - 1) r"
proof -
  have "p @ x # r = butlast (p @ x # r) @ [16]" "nibbles (butlast (p @ x # r))" using assms(1) by (auto simp: hexkey_def)
  then show n: "nibbles p" and x: "x < 16" using assms(2) by (auto simp: butlast_append)
  have "length p < d \<and> hexkey (d - length p) (x # r)" using assms(1) hexkey_append [OF n] by simp
  then show "length p < d" "2 \<le> d - length p" "hexkey (d - length p - 1) r" using assms(2) by (auto simp: hexkey_Cons)
qed

lemma hexkey_differ:
  assumes "hexkey d (p @ x # r)" "hexkey d (p @ y # s)" "x \<noteq> y" shows "r \<noteq> []"
proof
  assume r: "r = []"
  have "length (p @ x # r) = length (p @ y # s)" using hexkey_length [OF assms(1)] hexkey_length [OF assms(2)] by simp
  then have "s = []" using r by simp
  moreover have "last (p @ x # r) = 16" "last (p @ y # s) = 16" using assms(1,2) unfolding hexkey_def by force+
  ultimately show False using r assms(3) by simp
qed

lemma pwf_branch_upd:
  assumes "pwf (PBranch f) d" "pwf u (d - 1)" "i < 16" shows "pwf (PBranch (f(i := Some u))) d"
proof -
  obtain j where j: "f j \<noteq> None" "j \<noteq> i" using assms(1) unfolding pwf_branch by metis
  then have "\<exists>i' j. i' \<noteq> j \<and> (f(i := Some u)) i' \<noteq> None \<and> (f(i := Some u)) j \<noteq> None"
    by (intro exI [of _ i] exI [of _ j]) auto
  then show ?thesis using assms unfolding pwf_branch by auto
qed

lemma pins_ok:
  "pwf t d \<Longrightarrow> hexkey d k \<Longrightarrow> pwf (pins v t k) d \<and> plookup (pins v t k) = (plookup t)(k \<mapsto> v) \<and>
    (is_branch t \<longrightarrow> is_branch (pins v t k))"
proof (induction t arbitrary: d k rule: ptrie_induct)
  case (PLeaf kp w)
  show ?case
  proof (cases "k = kp")
    case False
    have l: "length k = d" "length kp = d" using PLeaf.prems hexkey_length by auto
    have "prefixLen k kp < d" using hexkey_equal_prefix PLeaf.prems False by simp
    then obtain p y b x a where s: "k = p @ y # b" "kp = p @ x # a" "y \<noteq> x" and e:
      "take (prefixLen k kp) kp = p" "k ! prefixLen k kp = y" "kp ! prefixLen k kp = x"
      "drop (prefixLen k kp + 1) k = b" "drop (prefixLen k kp + 1) kp = a"
      using prefixLen_parts [of k kp] l by metis
    have ins: "pins v (PLeaf kp w) k = mkext p (pfork x (PLeaf a w) y (PLeaf b v))"
      unfolding pins.simps Let_def e using False by simp
    have ne: "b \<noteq> []" "a \<noteq> []" using hexkey_differ PLeaf.prems s by auto
    note hb = hexkey_part [OF PLeaf.prems(2) [unfolded s(1)] ne(1)]
    have ha: "x < 16" "hexkey (d - length p - 1) a" using hexkey_part [of d p x a] PLeaf.prems(1) s(2) ne(2) by auto
    have "pwf (pfork x (PLeaf a w) y (PLeaf b v)) (d - length p)" by (rule pwf_pfork) (use s(3) ha hb in auto)
    then have "pwf (pins v (PLeaf kp w) k) d" unfolding ins using hb by (intro pwf_mkext) auto
    moreover have "plookup (pins v (PLeaf kp w) k) = (plookup (PLeaf kp w))(k \<mapsto> v)"
      unfolding ins by (subst s(1), rule pfork_insert) (use s in auto)
    ultimately show ?thesis by simp
  qed (use PLeaf in auto)
next
  case (PExt kp t)
  show ?case
  proof (cases "prefixLen k kp = length kp")
    case True
    let ?k = "drop (length kp) k"
    have k: "k = kp @ ?k" by (rule prefixLen_full [OF True])
    have "hexkey (d - length kp) ?k" using PExt.prems k hexkey_append by (metis pwf.simps(2))
    then have i: "pwf (pins v t ?k) (d - length kp)" "plookup (pins v t ?k) = (plookup t)(?k \<mapsto> v)" "is_branch (pins v t ?k)"
      using PExt.IH PExt.prems by auto
    have "plookup (PExt kp (pins v t ?k)) = (plookup (PExt kp t))(k \<mapsto> v)"
    proof
      fix q
      show "plookup (PExt kp (pins v t ?k)) q = ((plookup (PExt kp t))(k \<mapsto> v)) q"
      proof (cases "\<exists>c. q = kp @ c")
        case True
        then obtain c where "q = kp @ c" by blast
        moreover have "kp @ c = k \<longleftrightarrow> c = ?k" for c by (metis k same_append_eq)
        ultimately show ?thesis using i(2) by simp
      next
        case False
        then have "q \<noteq> k" "take (length kp) q \<noteq> kp" using k by (metis append_take_drop_id)+
        then show ?thesis by (simp add: plookup.simps)
      qed
    qed
    then show ?thesis using i PExt.prems True by simp
  next
    case False
    have l: "length k = d" "length kp < d" using PExt.prems hexkey_length by auto
    have "prefixLen k kp < length kp" "prefixLen k kp < length k" using prefixLen_le [of k kp] False l by linarith+
    then obtain p y b x a where s: "k = p @ y # b" "kp = p @ x # a" "y \<noteq> x" and e:
      "take (prefixLen k kp) kp = p" "k ! prefixLen k kp = y" "kp ! prefixLen k kp = x"
      "drop (prefixLen k kp + 1) k = b" "drop (prefixLen k kp + 1) kp = a"
      using prefixLen_parts [of k kp] by metis
    have ins: "pins v (PExt kp t) k = mkext p (pfork x (mkext a t) y (PLeaf b v))"
      unfolding pins.simps Let_def e using False by simp
    have "length b \<noteq> 0" using l s by auto
    then have ne: "b \<noteq> []" by auto
    note hb = hexkey_part [OF PExt.prems(2) [unfolded s(1)] ne]
    have ha: "x < 16" "nibbles a" "length a < d - length p - 1" "is_branch t" "pwf t (d - length p - 1 - length a)"
      using PExt.prems(1) s(2) by (auto simp: algebra_simps)
    have "pwf (mkext a t) (d - length p - 1)" by (rule pwf_mkext) (use ha in auto)
    then have "pwf (pfork x (mkext a t) y (PLeaf b v)) (d - length p)" by (intro pwf_pfork) (use s(3) ha hb in auto)
    then have "pwf (pins v (PExt kp t) k) d" unfolding ins using hb by (intro pwf_mkext) auto
    moreover have "plookup (pins v (PExt kp t) k) = (plookup (PExt kp t))(k \<mapsto> v)"
      unfolding ins
    proof (subst s(1), rule pfork_insert)
      show "plookup (PExt kp t) (p @ x # c) = plookup (mkext a t) c" for c
      proof (cases "\<exists>c'. c = a @ c'")
        case True
        then obtain c' where "p @ x # c = kp @ c'" "c = a @ c'" using s(2) by auto
        then show ?thesis by (metis plookup_ext_append plookup_mkext)
      next
        case False
        then have "plookup (PExt kp t) (p @ x # c) = None" using ext_prefix [of kp t "p @ x # c"] s(2) by fastforce
        with False show ?thesis by (simp add: plookup_mkext_None)
      qed
      show "plookup (PExt kp t) q = None" if "\<nexists>c. q = p @ x # c" for q
        using that ext_prefix [of kp t q] s(2) by fastforce
    qed (use s in simp)
    ultimately show ?thesis by simp
  qed
next
  case (PBranch f)
  then obtain x k' where k: "k = x # k'" by (cases k) auto
  have d: "2 \<le> d" "\<forall>i\<ge>16. f i = None" using PBranch.prems(1) by (auto simp: pwf_branch)
  have x: "x < 16" "hexkey (d - 1) k'" using PBranch.prems(2) d(1) by (auto simp: k hexkey_Cons)
  let ?c = "case f (unat x) of None \<Rightarrow> PLeaf k' v | Some t \<Rightarrow> pins v t k'"
  have c: "pwf ?c (d - 1) \<and> plookup ?c = (case f (unat x) of None \<Rightarrow> Map.empty | Some t \<Rightarrow> plookup t)(k' \<mapsto> v)"
  proof (cases "f (unat x)")
    case (Some t)
    have "pwf t (d - 1)" using PBranch.prems(1) Some unfolding pwf_branch by blast
    from PBranch.IH [OF Some this x(2)] Some show ?thesis by (simp add: fun_upd_def)
  qed (use x(2) in auto)
  have "pwf (PBranch (f(unat x := Some ?c))) d"
    by (rule pwf_branch_upd) (use PBranch.prems(1) c x(1) in \<open>auto simp: word_less_nat_alt\<close>)
  moreover have "plookup (PBranch (f(unat x := Some ?c))) = (plookup (PBranch f))(k \<mapsto> v)"
  proof
    fix q
    show "plookup (PBranch (f(unat x := Some ?c))) q = ((plookup (PBranch f))(k \<mapsto> v)) q"
      using c by (cases q) (auto simp: k word_unat_eq_iff split: option.splits)
  qed
  moreover have "pins v (PBranch f) k = PBranch (f(unat x := Some ?c))"
    by (simp add: pins_branch k split: option.split)
  ultimately show ?case by (simp only: is_branch.simps simp_thms)
qed

section \<open>Deletion\<close>

fun pjoin :: "bytes \<Rightarrow> ptrie \<Rightarrow> ptrie" where
  "pjoin kp (PLeaf k v) = PLeaf (kp @ k) v"
| "pjoin kp (PExt k t) = PExt (kp @ k) t"
| "pjoin kp (PBranch f) = PExt kp (PBranch f)"

definition ponly :: "(nat \<Rightarrow> ptrie option) \<Rightarrow> nat \<Rightarrow> nat option" where
  "ponly f i = (case filter (\<lambda>j. f j \<noteq> None \<and> j \<noteq> i) [0..<16] of [j] \<Rightarrow> Some j | _ \<Rightarrow> None)"

definition pshrink :: "(nat \<Rightarrow> ptrie option) \<Rightarrow> nat \<Rightarrow> ptrie" where
  "pshrink f i = (case ponly f i of Some j \<Rightarrow> pjoin [word_of_nat j] (the (f j)) | None \<Rightarrow> PBranch (f(i := None)))"

text \<open>Deletion of a key that is there; \<open>None\<close> is the empty trie.\<close>

primrec pdel :: "ptrie \<Rightarrow> bytes \<Rightarrow> ptrie option" where
  "pdel (PLeaf kp v) = (\<lambda>k. None)"
| "pdel (PExt kp t) = (\<lambda>k. map_option (pjoin kp) (pdel t (drop (length kp) k)))"
| "pdel (PBranch f) = (\<lambda>k. let i = unat (hd k) in
     (case (map_option pdel \<circ> f) i of
        None \<Rightarrow> None
      | Some g \<Rightarrow> Some (case g (tl k) of Some t \<Rightarrow> PBranch (f(i := Some t)) | None \<Rightarrow> pshrink f i)))"

lemma pdel_branch:
  "f (unat x) = Some t \<Longrightarrow> pdel (PBranch f) (x # k) =
    Some (case pdel t k of Some u \<Rightarrow> PBranch (f(unat x := Some u)) | None \<Rightarrow> pshrink f (unat x))"
  by (simp add: Let_def split: option.splits)

declare pdel.simps(3) [simp del]

lemma pwf_pjoin:
  assumes "nibbles kp" "kp \<noteq> []" "length kp < d" "pwf t (d - length kp)" shows "pwf (pjoin kp t) d"
  using assms by (cases t) (auto simp: hexkey_append algebra_simps)

lemma take_prefix: "take (length p) k = p \<longleftrightarrow> (\<exists>c. k = p @ c)" "take (length p + length q) k = p @ q \<longleftrightarrow> (\<exists>c. k = p @ q @ c)"
  by (metis append_eq_conv_conj append_take_drop_id, metis append_assoc append_eq_conv_conj append_take_drop_id length_append)

lemma plookup_pjoin: "plookup (pjoin kp t) = plookup (PExt kp t)"
proof (cases t)
  case (PExt q u)
  have "plookup (PExt (kp @ q) u) k = plookup (PExt kp (PExt q u)) k" for k
    by (cases "\<exists>c. k = kp @ c") (auto simp: plookup.simps take_prefix)
  then show ?thesis using PExt by (auto simp: fun_eq_iff)
next
  case (PLeaf q v)
  have "plookup (PLeaf (kp @ q) v) k = plookup (PExt kp (PLeaf q v)) k" for k
    by (auto simp: plookup.simps) (metis append_take_drop_id)
  then show ?thesis using PLeaf by (auto simp: fun_eq_iff)
qed simp

lemma ponly_Some:
  assumes "ponly f i = Some j" "\<forall>k\<ge>16. f k = None"
  shows "j < 16" "j \<noteq> i" "f j \<noteq> None" "\<And>k. k \<noteq> i \<Longrightarrow> k \<noteq> j \<Longrightarrow> f k = None"
proof -
  have l: "filter (\<lambda>j. f j \<noteq> None \<and> j \<noteq> i) [0..<16] = [j]"
    using assms(1) by (auto simp: ponly_def split: list.splits)
  then have "set (filter (\<lambda>j. f j \<noteq> None \<and> j \<noteq> i) [0..<16]) = {j}" by simp
  then have s: "{k. k < 16 \<and> f k \<noteq> None \<and> k \<noteq> i} = {j}" by auto
  then show "j < 16" "j \<noteq> i" "f j \<noteq> None" by blast+
  show "f k = None" if "k \<noteq> i" "k \<noteq> j" for k
  proof (rule ccontr)
    assume "f k \<noteq> None"
    then have "k < 16" using assms(2) by (metis not_le)
    then show False using s that \<open>f k \<noteq> None\<close> by blast
  qed
qed

lemma ponly_None:
  assumes "ponly f i = None" "\<forall>k\<ge>16. f k = None" "f j \<noteq> None" "j \<noteq> i"
  shows "\<exists>k l. k \<noteq> l \<and> k \<noteq> i \<and> l \<noteq> i \<and> f k \<noteq> None \<and> f l \<noteq> None"
proof -
  let ?l = "filter (\<lambda>j. f j \<noteq> None \<and> j \<noteq> i) [0..<16]"
  have "j < 16" using assms(2,3) by (metis not_le)
  then have j: "j \<in> set ?l" using assms(3,4) by simp
  obtain a b r where l: "?l = a # b # r"
  proof (cases ?l)
    case (Cons a as)
    then show thesis using that assms(1) by (cases as) (auto simp: ponly_def)
  qed (use j in simp)
  have "distinct ?l" by simp
  then have "a \<noteq> b" unfolding l by simp
  moreover have "a \<in> set ?l" "b \<in> set ?l" unfolding l by simp_all
  ultimately show ?thesis by auto
qed

lemma pshrink_ok:
  assumes "pwf (PBranch f) d" "f i = Some t"
  shows "pwf (pshrink f i) d \<and> plookup (pshrink f i) = plookup (PBranch (f(i := None)))"
proof (cases "ponly f i")
  case None
  have w: "2 \<le> d" "\<forall>k\<ge>16. f k = None" "\<forall>j t. f j = Some t \<longrightarrow> pwf t (d - 1)" using assms(1) by (auto simp: pwf_branch)
  obtain j where "f j \<noteq> None" "j \<noteq> i" using assms(1) unfolding pwf_branch by metis
  from ponly_None [OF None w(2) this] have "pwf (PBranch (f(i := None))) d" using w unfolding pwf_branch by auto
  with None show ?thesis by (simp add: pshrink_def)
next
  case (Some j)
  have w: "2 \<le> d" "\<forall>k\<ge>16. f k = None" "\<forall>j t. f j = Some t \<longrightarrow> pwf t (d - 1)" using assms(1) by (auto simp: pwf_branch)
  note o = ponly_Some [OF Some w(2)]
  then obtain u where u: "f j = Some u" by blast
  have j: "unat (word_of_nat j :: byte) = j" using o(1) by (simp add: unat_of_nat)
  then have "(word_of_nat j :: byte) < 16" using o(1) by (simp add: word_less_nat_alt)
  then have "pwf (pjoin [word_of_nat j] u) d" using w u by (intro pwf_pjoin) auto
  moreover have "plookup (PExt [word_of_nat j] u) q = plookup (PBranch (f(i := None))) q" for q
  proof (cases q)
    case (Cons x c)
    have "unat x = j \<longleftrightarrow> x = word_of_nat j" using j by (metis word_unat_eq_iff)
    then show ?thesis using Cons o(2) o(4) [of "unat x"] u by (auto simp: plookup.simps split: option.splits)
  qed (simp add: plookup.simps)
  ultimately show ?thesis using Some u by (auto simp: pshrink_def plookup_pjoin)
qed

lemma pdel_ok:
  "pwf t d \<Longrightarrow> plookup t k \<noteq> None \<Longrightarrow> (is_branch t \<longrightarrow> pdel t k \<noteq> None) \<and>
     (case pdel t k of None \<Rightarrow> (plookup t)(k := None) = Map.empty
      | Some u \<Rightarrow> pwf u d \<and> plookup u = (plookup t)(k := None))"
proof (induction t arbitrary: d k rule: ptrie_induct)
  case (PLeaf kp v)
  then show ?case by (auto split: if_splits)
next
  case (PExt kp t)
  then obtain c where k: "k = kp @ c" "plookup t c \<noteq> None" using ext_prefix by blast
  have w: "nibbles kp" "kp \<noteq> []" "length kp < d" "is_branch t" "pwf t (d - length kp)" using PExt.prems(1) by auto
  from PExt.IH [OF w(5) k(2)] w(4) obtain u where u: "pdel t c = Some u" "pwf u (d - length kp)" "plookup u = (plookup t)(c := None)"
    by auto
  have "pwf (pjoin kp u) d" using w u by (intro pwf_pjoin)
  moreover have "plookup (PExt kp u) q = ((plookup (PExt kp t))(k := None)) q" for q
    by (cases "\<exists>r. q = kp @ r") (auto simp: u(3) k(1) plookup.simps take_prefix)
  ultimately show ?case using u(1) k(1) by (auto simp: plookup_pjoin)
next
  case (PBranch f)
  then obtain x c t where k: "k = x # c" "f (unat x) = Some t" "plookup t c \<noteq> None"
    by (cases k) (auto split: option.splits)
  have t: "pwf t (d - 1)" using PBranch.prems(1) k(2) by (auto simp: pwf_branch)
  note ih = PBranch.IH [OF k(2) t k(3)]
  have upd: "plookup (PBranch (f(unat x := u))) = (plookup (PBranch f))(k := None)"
    if "(case u of None \<Rightarrow> Map.empty | Some u \<Rightarrow> plookup u) = (plookup t)(c := None)" for u
  proof
    fix q
    show "plookup (PBranch (f(unat x := u))) q = ((plookup (PBranch f))(k := None)) q"
    proof (cases q)
      case (Cons y r)
      have "unat y = unat x \<longleftrightarrow> y = x" by (simp add: word_unat_eq_iff)
      then show ?thesis using fun_cong [OF that, of r] k(2) by (cases u) (auto simp: k(1) Cons)
    qed (simp add: k(1))
  qed
  show ?case
  proof (cases "pdel t c")
    case None
    then show ?thesis
      using pshrink_ok [OF PBranch.prems(1) k(2)] upd [of None] ih pdel_branch [of f x t c] k(1,2) by simp
  next
    case (Some u)
    then have u: "pwf u (d - 1)" "plookup u = (plookup t)(c := None)" using ih by auto
    have "unat x < 16" using PBranch.prems(1) k(2) unfolding pwf_branch by (metis not_le option.distinct(1))
    then have "pwf (PBranch (f(unat x := Some u))) d" by (rule pwf_branch_upd [OF PBranch.prems(1) u(1)])
    then show ?thesis using Some u(2) upd [of "Some u"] pdel_branch [of f x t c] k(1,2) by simp
  qed
qed

end
