(* ===== verification/Trie_Writer.thy ===== *)
theory Trie_Writer
  imports Trie_Node_Codec Trie_Model
begin

text \<open>
  The writer implements the abstract trie. \<open>rep env prefix n t\<close> says that the node \<open>n\<close>, found below the nibbles
  \<open>prefix\<close>, stands for the abstract trie \<open>t\<close>: a hash stands for what the database has under it, and a leaf whose
  value has not been loaded for the value the database has under its key. \<open>mpt_insert\<close> and \<open>mpt_del\<close> are
  related to \<open>pins\<close> and \<open>pdel\<close> by rule induction over \<open>rep\<close>.
\<close>

section \<open>What a node stands for\<close>

definition leaf_val :: "trie_env \<Rightarrow> bytes \<Rightarrow> tnode \<Rightarrow> enc_value \<Rightarrow> bool" where
  "leaf_val env hk n v \<longleftrightarrow>
     (\<exists>x. n = ValueNode (Some x) \<and> value_encodings x = v) \<or>
     n = ValueNode None \<and> resolve_val_n_by_hex_k env hk = Some (ValueNode (Some (Internal (fst v) (snd v))))"

inductive rep :: "trie_env \<Rightarrow> bytes \<Rightarrow> tnode \<Rightarrow> ptrie \<Rightarrow> bool" for env where
  rep_leaf: "leaf_val env (q @ kp) n v \<Longrightarrow> rep env q (ShortNode kp n h) (PLeaf kp v)"
| rep_ext: "rep env (q @ kp) n t \<Longrightarrow> is_branch t \<Longrightarrow> rep env q (ShortNode kp n h) (PExt kp t)"
| rep_full: "length cs = 16 \<Longrightarrow> (\<And>i. i < 16 \<Longrightarrow> f i = None \<Longrightarrow> cs ! i = NilNode) \<Longrightarrow>
    (\<And>i t. i < 16 \<Longrightarrow> f i = Some t \<Longrightarrow> rep env (q @ [word_of_nat i]) (cs ! i) t) \<Longrightarrow>
    rep env q (FullNode cs h) (PBranch f)"
| rep_hash: "resolve env h q = Some n \<Longrightarrow> (\<And>h'. n \<noteq> HashNode h') \<Longrightarrow> rep env q n t \<Longrightarrow> rep env q (HashNode h) t"

inductive_cases rep_ShortE: "rep env q (ShortNode kp n h) t"
inductive_cases rep_FullE: "rep env q (FullNode cs h) t"
inductive_cases rep_HashE: "rep env q (HashNode h) t"
inductive_cases rep_NilE: "rep env q NilNode t"
inductive_cases rep_ValueE: "rep env q (ValueNode v) t"

lemma rep_proper: "rep env q n t \<Longrightarrow> n \<noteq> NilNode \<and> n \<noteq> ValueNode v"
  by (auto elim: rep_NilE rep_ValueE)

lemma rep_branch_node:
  assumes "rep env q n t" "is_branch t" obtains cs h where "n = FullNode cs h" | h where "n = HashNode h"
  using assms by (cases rule: rep.cases) auto

lemma leaf_val_fresh [simp]: "value_encodings x = v \<Longrightarrow> leaf_val env hk (ValueNode (Some x)) v"
  by (simp add: leaf_val_def)

text \<open>A value that is loaded because its leaf moves is the value of the leaf.\<close>

lemma leaf_val_load:
  assumes "leaf_val env hk n v"
  shows "\<exists>n'. (if n = ValueNode None then resolve_val_n_by_hex_k env hk else Some n) = Some n' \<and> (\<forall>hk'. leaf_val env hk' n' v)"
  using assms by (auto simp: leaf_val_def)

lemma rep_mkext:
  assumes "rep env (q @ p) n t" "is_branch t"
  shows "rep env q (if p = [] then n else ShortNode p n None) (mkext p t)"
  using assms by (cases p) (auto intro: rep_ext)

lemma rep_junction:
  assumes "rep env (q @ [x]) n t" "rep env (q @ [y]) m u" "x \<noteq> y" "x < 16" "y < 16"
  shows "rep env q (FullNode ((replicate full_node_child_cnt NilNode)[unat x := n, unat y := m]) None) (pfork x t y u)"
proof -
  have i: "unat x < 16" "unat y < 16" "unat x \<noteq> unat y" using assms(3-5) by (simp_all add: word_less_nat_alt word_unat_eq_iff)
  then show ?thesis
    unfolding pfork_def using assms(1,2)
    by (intro rep_full) (auto simp: full_node_child_cnt_def nth_list_update split: if_splits)
qed

section \<open>Insertion\<close>

lemma insert_split:
  assumes k: "k = p @ y # b" and kp: "kp = p @ x # a" and xy: "y \<noteq> x" and x: "x < 16" and y: "y < 16"
    and n: "prefixLen k kp = length p" and len: "length (q @ k) = 65"
    and c: "shift env v None (q @ p) x a False = Some c" "rep env (q @ p @ [x]) c t"
    and val: "value_encodings val = w"
  shows "\<exists>n'. mpt_insert env (q @ k) (ShortNode kp v h) (length q) (ValueNode (Some val)) = Some n' \<and>
    rep env q n' (mkext p (pfork x t y (PLeaf b w)))"
proof -
  let ?leaf = "ShortNode b (ValueNode (Some val)) None"
  let ?j = "FullNode ((replicate full_node_child_cnt NilNode)[unat x := c, unat y := ?leaf]) None"
  have "rep env (q @ p @ [y]) ?leaf (PLeaf b w)" using val by (intro rep_leaf) simp
  then have "rep env (q @ p) ?j (pfork x t y (PLeaf b w))" using rep_junction [of env "q @ p" x c t y] c(2) xy x y by simp
  then have r: "rep env q (if p = [] then ?j else ShortNode p ?j None) (mkext p (pfork x t y (PLeaf b w)))"
    by (rule rep_mkext) simp
  have lt: "length q + length p \<noteq> 65" using len k by simp
  have nib: "unat x < 16" "unat y < 16" using x y by (simp_all add: word_less_nat_alt)
  have tk: "take (length p) k = p" "k ! length p = y" "drop (Suc (length p)) k = b" "kp ! length p = x"
    "drop (Suc (length p)) kp = a" "length p \<noteq> length kp" by (simp_all add: k kp)
  have "mpt_insert env (q @ k) (ShortNode kp v h) (length q) (ValueNode (Some val)) = Some (if p = [] then ?j else ShortNode p ?j None)"
    using lt nib c(1) tk n
    by (subst mpt_insert.simps) (simp add: Let_def HexKeyLen_def full_node_child_cnt_def nth_append)
  with r show ?thesis by blast
qed

lemma insert_leaf:
  assumes "leaf_val env (q @ kp) n v" "hexkey d kp" "hexkey d k" "length q + d = 65" "value_encodings val = w"
  shows "\<exists>n'. mpt_insert env (q @ k) (ShortNode kp n h) (length q) (ValueNode (Some val)) = Some n' \<and>
    rep env q n' (pins w (PLeaf kp v) k)"
proof (cases "k = kp")
  case True
  have "prefixLen k kp = d" using prefixLen_self [of kp "[]"] True hexkey_length [OF assms(2)] by simp
  then have "mpt_insert env (q @ k) (ShortNode kp n h) (length q) (ValueNode (Some val)) = Some (ShortNode kp (ValueNode (Some val)) None)"
    using assms(4) by (subst mpt_insert.simps) (simp add: Let_def HexKeyLen_def)
  then show ?thesis using True assms(5) by (auto intro: rep_leaf)
next
  case False
  have l: "length k = d" "length kp = d" using assms(2,3) hexkey_length by auto
  have "prefixLen k kp < d" using hexkey_equal_prefix [OF assms(3,2) False] .
  then obtain p y b x a where s: "k = p @ y # b" "kp = p @ x # a" "y \<noteq> x" and e: "prefixLen k kp = length p"
    "take (prefixLen k kp) kp = p" "k ! prefixLen k kp = y" "kp ! prefixLen k kp = x"
    "drop (prefixLen k kp + 1) k = b" "drop (prefixLen k kp + 1) kp = a"
    using prefixLen_parts [of k kp] l by metis
  have ins: "pins w (PLeaf kp v) k = mkext p (pfork x (PLeaf a v) y (PLeaf b w))"
    unfolding pins.simps Let_def e(2-) using False by simp
  have ne: "b \<noteq> []" "a \<noteq> []" using hexkey_differ assms(2,3) s by auto
  have "y < 16" "x < 16" using hexkey_part(2) [OF assms(3) [unfolded s(1)] ne(1)] hexkey_part(2) [OF assms(2) [unfolded s(2)] ne(2)] by auto
  moreover obtain n' where n': "(if n = ValueNode None then resolve_val_n_by_hex_k env (q @ kp) else Some n) = Some n'"
    "\<And>hk. leaf_val env hk n' v"
    using leaf_val_load [OF assms(1)] by blast
  moreover have "shift env n None (q @ p) x a False = Some (ShortNode a n' None)"
    using n'(1) [unfolded s(2)] ne(2) by (auto simp: shift_def split: if_splits)
  moreover have "rep env (q @ p @ [x]) (ShortNode a n' None) (PLeaf a v)" using n'(2) by (intro rep_leaf) simp
  ultimately show ?thesis
    unfolding ins using insert_split [of k p y b kp x a q env n "ShortNode a n' None" "PLeaf a v" val w h] s e(1) l assms(4,5) by simp
qed

lemma insert_ext:
  assumes r: "rep env (q @ kp) n t" and w: "pwf (PExt kp t) d" and k: "hexkey d k" "length q + d = 65" "value_encodings val = w"
    and ne: "prefixLen k kp \<noteq> length kp"
  shows "\<exists>n'. mpt_insert env (q @ k) (ShortNode kp n h) (length q) (ValueNode (Some val)) = Some n' \<and>
    rep env q n' (pins w (PExt kp t) k)"
proof -
  have l: "length k = d" "length kp < d" "is_branch t" "nibbles kp" using w hexkey_length [OF k(1)] by auto
  have "prefixLen k kp < length kp" "prefixLen k kp < length k" using prefixLen_le [of k kp] ne l by linarith+
  then obtain p y b x a where s: "k = p @ y # b" "kp = p @ x # a" "y \<noteq> x" and e: "prefixLen k kp = length p"
    "take (prefixLen k kp) kp = p" "k ! prefixLen k kp = y" "kp ! prefixLen k kp = x"
    "drop (prefixLen k kp + 1) k = b" "drop (prefixLen k kp + 1) kp = a"
    using prefixLen_parts [of k kp] by metis
  have ins: "pins w (PExt kp t) k = mkext p (pfork x (mkext a t) y (PLeaf b w))"
    unfolding pins.simps Let_def e(2-) using ne by simp
  have "b \<noteq> []" using l(1,2) s by auto
  then have "y < 16" "x < 16" using hexkey_part(2) [OF k(1) [unfolded s(1)]] l(4) s(2) by auto
  moreover have "shift env n None (q @ p) x a False = Some (if a = [] then n else ShortNode a n None)"
    using rep_branch_node [OF r l(3)] by (auto simp: shift_def)
  moreover have "rep env (q @ p @ [x]) (if a = [] then n else ShortNode a n None) (mkext a t)"
    using rep_mkext [of env "q @ p @ [x]" a n t] r l(3) s(2) by simp
  ultimately show ?thesis
    unfolding ins using insert_split [of k p y b kp x a q env n "if a = [] then n else ShortNode a n None" "mkext a t" val w h]
      s e(1) l(1) k(2,3) by simp
qed

lemma insert_nil:
  assumes "value_encodings val = w"
  shows "\<exists>n'. mpt_insert env (q @ k) NilNode (length q) (ValueNode (Some val)) = Some n' \<and> rep env q n' (PLeaf k w)"
  using assms by (subst mpt_insert.simps) (auto intro: rep_leaf)

lemma mpt_insert_rep:
  assumes "rep env q n t" "pwf t d" "hexkey d k" "length q + d = 65" "value_encodings val = w"
  shows "\<exists>n'. mpt_insert env (q @ k) n (length q) (ValueNode (Some val)) = Some n' \<and> rep env q n' (pins w t k)"
  using assms(1-4)
proof (induction arbitrary: d k rule: rep.induct)
  case (rep_leaf q kp n v h)
  then show ?case using insert_leaf [of env q kp n v d k val w h] assms(5) by simp
next
  case (rep_ext q kp n t h)
  show ?case
  proof (cases "prefixLen k kp = length kp")
    case True
    let ?k = "drop (length kp) k"
    have k: "k = kp @ ?k" by (rule prefixLen_full [OF True])
    have w: "nibbles kp" "length kp < d" "pwf t (d - length kp)" using rep_ext.prems(1) by auto
    have "hexkey (d - length kp) ?k" using rep_ext.prems(2) k hexkey_append [OF w(1)] by metis
    then obtain n' where n': "mpt_insert env ((q @ kp) @ ?k) n (length (q @ kp)) (ValueNode (Some val)) = Some n'"
      "rep env (q @ kp) n' (pins w t ?k)"
      using rep_ext.IH [OF w(3)] rep_ext.prems(3) w(2) by auto
    have "is_branch (pins w t ?k)" using pins_ok [OF w(3) \<open>hexkey (d - length kp) ?k\<close>] rep_ext.hyps(2) by blast
    then have r: "rep env q (ShortNode kp n' None) (pins w (PExt kp t) k)"
      using n'(2) True by (simp add: rep.rep_ext)
    have "(q @ kp) @ ?k = q @ k" using k by (metis append_assoc)
    then have "mpt_insert env (q @ k) n (length q + length kp) (ValueNode (Some val)) = Some n'" using n'(1) by simp
    then have "mpt_insert env (q @ k) (ShortNode kp n h) (length q) (ValueNode (Some val)) = Some (ShortNode kp n' None)"
      using True w(2) rep_ext.prems(3) by (subst mpt_insert.simps) (simp add: Let_def HexKeyLen_def)
    with r show ?thesis by blast
  qed (use insert_ext [OF rep_ext.hyps(1) rep_ext.prems assms(5)] in blast)
next
  case (rep_full cs f q h)
  obtain x k' where k: "k = x # k'" using rep_full.prems(2) by (cases k) auto
  have d: "2 \<le> d" using rep_full.prems(1) by (simp add: pwf_branch)
  have x: "x < 16" "hexkey (d - 1) k'" using rep_full.prems(2) d by (auto simp: k hexkey_Cons)
  let ?i = "unat x" and ?c = "case f (unat x) of None \<Rightarrow> PLeaf k' w | Some t \<Rightarrow> pins w t k'"
  have i: "?i < 16" "word_of_nat ?i = x" using x(1) by (simp_all add: word_less_nat_alt)
  have "\<exists>n'. mpt_insert env ((q @ [x]) @ k') (cs ! ?i) (length (q @ [x])) (ValueNode (Some val)) = Some n' \<and> rep env (q @ [x]) n' ?c"
  proof (cases "f ?i")
    case None
    then show ?thesis using insert_nil [OF assms(5), of env "q @ [x]" k'] rep_full.hyps(2) [OF i(1)] by simp
  next
    case (Some t)
    have "pwf t (d - 1)" using rep_full.prems(1) Some unfolding pwf_branch by blast
    from rep_full.IH [OF i(1) Some this x(2)] Some i(2) rep_full.prems(3) d show ?thesis by simp
  qed
  then obtain n' where n': "mpt_insert env (q @ k) (cs ! ?i) (length q + 1) (ValueNode (Some val)) = Some n'" "rep env (q @ [x]) n' ?c"
    by (auto simp: k)
  have "mpt_insert env (q @ k) (FullNode cs h) (length q) (ValueNode (Some val)) = Some (FullNode (cs[?i := n']) None)"
    using n'(1) i(1) d rep_full.prems(3) rep_full.hyps(1) k by (subst mpt_insert.simps) (simp add: HexKeyLen_def)
  moreover have "rep env q (FullNode (cs[?i := n']) None) (PBranch (f(?i := Some ?c)))"
    by (rule rep.rep_full) (use n'(2) i rep_full.hyps in \<open>auto simp: nth_list_update split: if_splits\<close>)
  moreover have "pins w (PBranch f) k = PBranch (f(?i := Some ?c))" by (simp add: pins_branch k split: option.split)
  ultimately show ?case by simp
next
  case (rep_hash h q n t)
  then show ?case by (subst mpt_insert.simps) simp
qed

section \<open>Deletion\<close>

definition del_spec :: "trie_env \<Rightarrow> bytes \<Rightarrow> ptrie \<Rightarrow> bytes \<Rightarrow> del_result option \<Rightarrow> bool" where
  "del_spec env q t k r \<longleftrightarrow>
     (case r of
        None \<Rightarrow> False
      | Some (NotFound n) \<Rightarrow> plookup t k = None \<and> rep env q n t
      | Some (Deleted n) \<Rightarrow> plookup t k \<noteq> None \<and> (\<forall>h. n \<noteq> HashNode h) \<and>
          (case pdel t k of None \<Rightarrow> n = NilNode | Some u \<Rightarrow> rep env q n u))"

lemma del_spec_cases:
  assumes "del_spec env q t k r"
  obtains (absent) n where "r = Some (NotFound n)" "plookup t k = None" "rep env q n t"
  | (emptied) "r = Some (Deleted NilNode)" "plookup t k \<noteq> None" "pdel t k = None"
  | (shrunk) n u where "r = Some (Deleted n)" "plookup t k \<noteq> None" "pdel t k = Some u" "rep env q n u" "\<And>h. n \<noteq> HashNode h"
  using assms by (auto simp: del_spec_def split: option.splits del_result.splits)

text \<open>A node that is joined with the part of the key above it.\<close>

lemma del_short_rep:
  assumes "rep env (q @ kp) c u" "\<And>h. c \<noteq> HashNode h" shows "rep env q (del_short kp c) (pjoin kp u)"
  using assms(1)
proof (cases rule: rep.cases)
  case (rep_leaf k n v h)
  then show ?thesis by (auto simp: del_short_def intro: rep.rep_leaf)
next
  case (rep_ext k n t h)
  then show ?thesis by (auto simp: del_short_def intro: rep.rep_ext)
next
  case (rep_full cs f h)
  then show ?thesis using assms(1) by (auto simp: del_short_def intro!: rep.rep_ext)
qed (use assms(2) in blast)

lemma only_child_eq:
  assumes "\<And>i. i < 16 \<Longrightarrow> f i = None \<Longrightarrow> cs ! i = NilNode" "\<And>i t. i < 16 \<Longrightarrow> f i = Some t \<Longrightarrow> rep env (q @ [word_of_nat i]) (cs ! i) t"
  shows "only_child_nibble cs i = ponly f i"
proof -
  have "cs ! j \<noteq> NilNode \<longleftrightarrow> f j \<noteq> None" if "j < 16" for j
    using assms(1) [OF that] assms(2) [OF that] rep_proper by (cases "f j") auto
  then have "filter (\<lambda>j. cs ! j \<noteq> NilNode \<and> j \<noteq> i) [0..<16] = filter (\<lambda>j. f j \<noteq> None \<and> j \<noteq> i) [0..<16]"
    by (intro filter_cong) auto
  then show ?thesis unfolding only_child_nibble_def ponly_def full_node_child_cnt_def by simp
qed

lemma shift_up_rep:
  assumes "rep env (q @ [x]) (ShortNode k v h) u"
  shows "\<exists>n. shift env v None q x k True = Some n \<and> (\<forall>h. n \<noteq> HashNode h) \<and> rep env q n (pjoin [x] u)"
proof -
  consider w where "u = PLeaf k w" "leaf_val env ((q @ [x]) @ k) v w"
    | t where "u = PExt k t" "rep env ((q @ [x]) @ k) v t" "is_branch t"
    using assms by (auto elim: rep_ShortE)
  then show ?thesis
  proof cases
    case (1 w)
    obtain v' where v': "(if v = ValueNode None then resolve_val_n_by_hex_k env ((q @ [x]) @ k) else Some v) = Some v'" "\<And>hk. leaf_val env hk v' w"
      using leaf_val_load [OF 1(2)] by blast
    then have "shift env v None q x k True = Some (ShortNode (x # k) v' None)" by (auto simp: shift_def split: if_splits)
    then show ?thesis using 1(1) v'(2) by (auto intro: rep_leaf)
  next
    case (2 t)
    then have "shift env v None q x k True = Some (ShortNode (x # k) v None)"
      using rep_branch_node [OF 2(2,3)] by (auto simp: shift_def)
    then show ?thesis using 2 by (auto intro: rep_ext)
  qed
qed

lemma del_full_rep:
  assumes "length cs = 16" "\<And>i. i < 16 \<Longrightarrow> f i = None \<Longrightarrow> cs ! i = NilNode"
    "\<And>i t. i < 16 \<Longrightarrow> f i = Some t \<Longrightarrow> rep env (q @ [word_of_nat i]) (cs ! i) t" "i < 16" "\<forall>k\<ge>16. f k = None"
  shows "\<exists>n. del_full env (q @ k) (length q) cs i NilNode = Some n \<and> (\<forall>h. n \<noteq> HashNode h) \<and> rep env q n (pshrink f i)"
proof (cases "ponly f i")
  case None
  then have "del_full env (q @ k) (length q) cs i NilNode = Some (FullNode (cs[i := NilNode]) None)"
    using only_child_eq [OF assms(2,3)] by (simp add: del_full_def)
  moreover have "rep env q (FullNode (cs[i := NilNode]) None) (pshrink f i)"
    unfolding pshrink_def None using assms by (auto intro!: rep_full simp: nth_list_update split: if_splits)
  ultimately show ?thesis by auto
next
  case (Some j)
  note o = ponly_Some [OF Some assms(5)]
  then obtain u where u: "f j = Some u" by blast
  have rj: "rep env (q @ [word_of_nat j]) (cs ! j) u" using assms(3) [OF o(1) u] .
  let ?load = "case cs ! j of HashNode h \<Rightarrow> resolve env h (take (length q) (q @ k) @ [word_of_nat j]) | c \<Rightarrow> Some c"
  have "\<exists>c. ?load = Some c \<and> rep env (q @ [word_of_nat j]) c u \<and> (\<forall>h. c \<noteq> HashNode h)"
  proof (cases "\<exists>h. cs ! j = HashNode h")
    case True
    then show ?thesis using rj by (auto elim!: rep_HashE)
  next
    case False
    then show ?thesis using rj by (cases "cs ! j") auto
  qed
  then obtain c where c: "?load = Some c" "rep env (q @ [word_of_nat j]) c u" "\<And>h. c \<noteq> HashNode h" by blast
  have del: "del_full env (q @ k) (length q) cs i NilNode = (case c of
      ShortNode k v h \<Rightarrow> shift env v None q (word_of_nat j) k True | _ \<Rightarrow> Some (ShortNode [word_of_nat j] c None))"
  proof -
    have "only_child_nibble cs i = ponly f i" by (rule only_child_eq) (fact assms(2,3))+
    then have oc: "only_child_nibble cs i = Some j" using Some by simp
    show ?thesis unfolding del_full_def oc if_P [OF refl] option.case c(1) by (cases c) simp_all
  qed
  have sh: "pshrink f i = pjoin [word_of_nat j] u" using Some u by (simp add: pshrink_def)
  show ?thesis
  proof (cases "\<exists>k v h. c = ShortNode k v h")
    case True
    then show ?thesis using shift_up_rep c(2) unfolding sh del by fastforce
  next
    case False
    then obtain cs' h where "c = FullNode cs' h" using c rep_proper [OF c(2)] by (cases c) auto
    then show ?thesis using del_short_rep [OF c(2,3)] unfolding sh del by (auto simp: del_short_def)
  qed
qed

lemma del_spec_hash:
  assumes "resolve env h q = Some n" "\<And>h'. n \<noteq> HashNode h'" "rep env q n t" "del_spec env q t k (mpt_del env (q @ k) n (length q))"
  shows "del_spec env q t k (mpt_del env (q @ k) (HashNode h) (length q))"
  using assms(4)
proof (cases rule: del_spec_cases)
  case (absent m)
  then show ?thesis using assms(1-3) by (subst mpt_del.simps) (auto simp: del_spec_def intro: rep_hash)
next
  case emptied
  then show ?thesis using assms(1) by (subst mpt_del.simps) (auto simp: del_spec_def)
next
  case (shrunk m u)
  then show ?thesis using assms(1) by (subst mpt_del.simps) (auto simp: del_spec_def)
qed

lemma del_leaf:
  assumes "leaf_val env (q @ kp) n v" "hexkey d kp" "hexkey d k" "length q + d = 65"
  shows "del_spec env q (PLeaf kp v) k (mpt_del env (q @ k) (ShortNode kp n h) (length q))"
proof (cases "k = kp")
  case True
  have "prefixLen k kp = length kp" "length kp = d" using prefixLen_self [of kp "[]"] True hexkey_length [OF assms(2)] by simp_all
  then show ?thesis using True assms(4) by (subst mpt_del.simps) (simp add: Let_def HexKeyLen_def del_spec_def)
next
  case False
  have "prefixLen k kp \<noteq> length kp" using hexkey_equal_prefix [OF assms(3,2) False] hexkey_length [OF assms(2)] by simp
  then show ?thesis
    using False assms(1) by (subst mpt_del.simps) (auto simp: Let_def del_spec_def intro: rep_leaf)
qed

lemma del_branch:
  assumes cs: "length cs = 16" "\<And>i. i < 16 \<Longrightarrow> f i = None \<Longrightarrow> cs ! i = NilNode"
    "\<And>i t. i < 16 \<Longrightarrow> f i = Some t \<Longrightarrow> rep env (q @ [word_of_nat i]) (cs ! i) t"
    and w: "\<forall>i\<ge>16. f i = None" "x < 16" "length q < 65"
    and ih: "\<And>t. f (unat x) = Some t \<Longrightarrow> del_spec env (q @ [x]) t k (mpt_del env (q @ x # k) (cs ! unat x) (length q + 1))"
  shows "del_spec env q (PBranch f) (x # k) (mpt_del env (q @ x # k) (FullNode cs h) (length q))"
proof -
  let ?i = "unat x"
  have i: "?i < 16" "word_of_nat ?i = x" using w(2) by (simp_all add: word_less_nat_alt)
  have step: "mpt_del env (q @ x # k) (FullNode cs h) (length q) = Option.bind (mpt_del env (q @ x # k) (cs ! ?i) (length q + 1))
      (\<lambda>r. case r of NotFound c \<Rightarrow> Some (NotFound (FullNode (cs[?i := c]) h))
         | Deleted c \<Rightarrow> map_option Deleted (del_full env (q @ x # k) (length q) cs ?i c))"
    using i(1) w(3) cs(1) by (subst mpt_del.simps) (simp add: HexKeyLen_def Let_def)
  have upd: "rep env q (FullNode (cs[?i := c]) g) (PBranch (f(?i := Some u)))" if "rep env (q @ [x]) c u" for c g u
    by (rule rep_full) (use that i cs in \<open>auto simp: nth_list_update split: if_splits\<close>)
  show ?thesis
  proof (cases "f ?i")
    case None
    then have nil: "cs ! ?i = NilNode" using cs(2) i(1) by blast
    have "rep env q (FullNode cs h) (PBranch f)" using cs by (intro rep_full)
    moreover have "cs[?i := NilNode] = cs" using nil by (metis list_update_id)
    moreover have "mpt_del env (q @ x # k) NilNode (length q + 1) = Some (NotFound NilNode)" by (subst mpt_del.simps) simp
    ultimately show ?thesis unfolding step using None nil by (simp add: del_spec_def)
  next
    case (Some t)
    note pd = pdel_branch [of f x t k, OF Some]
    have "del_spec env (q @ [x]) t k (mpt_del env (q @ x # k) (cs ! ?i) (length q + 1))" by (rule ih [OF Some])
    then show ?thesis
    proof (cases rule: del_spec_cases)
      case (absent m)
      then have "rep env q (FullNode (cs[?i := m]) h) (PBranch f)" using upd [of m t h] Some by (metis fun_upd_triv)
      then show ?thesis unfolding step using absent Some by (simp add: del_spec_def)
    next
      case emptied
      obtain n where "del_full env (q @ x # k) (length q) cs ?i NilNode = Some n" "\<forall>h. n \<noteq> HashNode h" "rep env q n (pshrink f ?i)"
        using del_full_rep [of cs f env q ?i "x # k"] cs i(1) w(1) by blast
      then show ?thesis unfolding step using emptied Some pd by (simp add: del_spec_def)
    next
      case (shrunk m u)
      then have "del_full env (q @ x # k) (length q) cs ?i m = Some (FullNode (cs[?i := m]) None)"
        using rep_proper [OF shrunk(4)] by (simp add: del_full_def)
      then show ?thesis unfolding step using shrunk Some pd upd [OF shrunk(4), of None] by (simp add: del_spec_def)
    qed
  qed
qed

lemma mpt_del_rep:
  assumes "rep env q n t" "pwf t d" "hexkey d k" "length q + d = 65"
  shows "del_spec env q t k (mpt_del env (q @ k) n (length q))"
  using assms
proof (induction arbitrary: d k rule: rep.induct)
  case (rep_leaf q kp n v h)
  then show ?case using del_leaf [of env q kp n v d k h] by simp
next
  case (rep_ext q kp n t h)
  show ?case
  proof (cases "prefixLen k kp = length kp")
    case False
    then have "k \<noteq> kp @ c" for c using prefixLen_self by metis
    then have "plookup (PExt kp t) k = None" using ext_prefix by blast
    moreover have "rep env q (ShortNode kp n h) (PExt kp t)" using rep_ext.hyps by (rule rep.rep_ext)
    ultimately show ?thesis using False by (subst mpt_del.simps) (simp add: Let_def del_spec_def)
  next
    case True
    let ?k = "drop (length kp) k"
    have k: "k = kp @ ?k" by (rule prefixLen_full [OF True])
    have w: "nibbles kp" "length kp < d" "pwf t (d - length kp)" using rep_ext.prems(1) by auto
    have hk: "hexkey (d - length kp) ?k" using rep_ext.prems(2) k hexkey_append [OF w(1)] by metis
    have look: "plookup (PExt kp t) k = plookup t ?k" using k by (metis plookup_ext_append)
    have kb: "(q @ kp) @ ?k = q @ k" using k by (metis append_assoc)
    have "del_spec env (q @ kp) t ?k (mpt_del env ((q @ kp) @ ?k) n (length (q @ kp)))"
      using rep_ext.IH [OF w(3) hk] rep_ext.prems(3) w(2) by simp
    then have ih: "del_spec env (q @ kp) t ?k (mpt_del env (q @ k) n (length q + length kp))" by (simp only: kb length_append)
    have step: "mpt_del env (q @ k) (ShortNode kp n h) (length q) = Option.bind (mpt_del env (q @ k) n (length q + length kp))
        (\<lambda>r. Some (case r of NotFound c \<Rightarrow> NotFound (ShortNode kp c None) | Deleted c \<Rightarrow> Deleted (del_short kp c)))"
      using True w(2) rep_ext.prems(3) by (subst mpt_del.simps) (simp add: Let_def HexKeyLen_def)
    show ?thesis
      using ih
    proof (cases rule: del_spec_cases)
      case (absent m)
      then show ?thesis using rep.rep_ext rep_ext.hyps(2) unfolding step by (simp add: del_spec_def look)
    next
      case emptied
      then show ?thesis using pdel_ok [OF w(3), of ?k] rep_ext.hyps(2) by simp
    next
      case (shrunk m u)
      then have "\<forall>h. del_short kp m \<noteq> HashNode h" by (simp add: del_short_def split: tnode.split)
      then show ?thesis using shrunk del_short_rep [OF shrunk(4,5)] unfolding step by (simp add: del_spec_def look)
    qed
  qed
next
  case (rep_full cs f q h)
  obtain x k' where k: "k = x # k'" using rep_full.prems(2) by (cases k) auto
  have d: "2 \<le> d" using rep_full.prems(1) by (simp add: pwf_branch)
  have x: "x < 16" "hexkey (d - 1) k'" using rep_full.prems(2) d by (auto simp: k hexkey_Cons)
  then have i: "unat x < 16" "word_of_nat (unat x) = x" by (simp_all add: word_less_nat_alt)
  have "del_spec env (q @ [x]) t k' (mpt_del env (q @ x # k') (cs ! unat x) (length q + 1))" if "f (unat x) = Some t" for t
  proof -
    have "pwf t (d - 1)" using rep_full.prems(1) that unfolding pwf_branch by blast
    from rep_full.IH [OF i(1) that this x(2)] i(2) rep_full.prems(3) d show ?thesis by simp
  qed
  then show ?case
    unfolding k by (intro del_branch [OF rep_full.hyps(1,2) rep_full.hyps(3)]) (use rep_full.prems x d in \<open>auto simp: pwf_branch\<close>)
next
  case (rep_hash h q n t)
  then show ?case using del_spec_hash by metis
qed

section \<open>Keys of the trie\<close>

lemma hexkey_hex_key [simp]: "hexkey 65 (hex_key k)"
  by (rule hex_key_parts [of k]) (simp add: hexkey_def)

lemma Hash_Bytes_SetBytes:
  assumes "length bs = 32" shows "Hash_Bytes (Hash_SetBytes bs) = bs"
proof -
  have "big_SetBytes bs < 256 ^ length bs \<and> be_bytes (length bs) (big_SetBytes bs) = bs" for bs
  proof (induction bs rule: rev_induct)
    case (snoc b bs)
    have b: "unat b < 256" using unsigned_less [of b] by simp
    then have "256 * big_SetBytes bs + unat b < 256 * 256 ^ length bs" using snoc by auto
    moreover have "(256 * big_SetBytes bs + unat b) div 256 = big_SetBytes bs" "(256 * big_SetBytes bs + unat b) mod 256 = unat b"
      using b by simp_all
    moreover have "word_of_nat (256 * big_SetBytes bs + unat b) = b"
    proof -
      have "(256 :: byte) = 0" by code_simp
      then have "(256 :: byte) * w = 0" for w by (metis mult_zero_left)
      then show ?thesis by simp
    qed
    ultimately show ?case using snoc by (simp add: big_SetBytes_snoc be_bytes_Suc)
  qed (simp add: big_SetBytes_def be_bytes_def)
  from this [of bs] assms have l: "big_SetBytes bs < 256 ^ 32" "be_bytes 32 (big_SetBytes bs) = bs" by auto
  have "unat (word_of_nat (big_SetBytes bs) :: u256) = big_SetBytes bs"
    using l(1) by (simp add: unat_of_nat)
  then show ?thesis using l(2) by (simp add: Hash_Bytes_def Hash_SetBytes_def)
qed

lemma hex_key_surj:
  assumes "hexkey 65 q" obtains k where "q = hex_key k"
proof -
  obtain xs where xs: "q = xs @ [16]" "nibbles xs" "length xs = 64" using assms by (auto simp: hexkey_def)
  obtain bs where bs: "concat (map (\<lambda>b. [b div 16, b mod 16]) bs) = xs" using pairs_decodeNibbles [OF xs(2)] xs(3) by auto
  then have "length bs = 32" using length_pairs [of bs] xs(3) by simp
  then show thesis using that [of "Hash_SetBytes bs"] bs xs(1) by (simp add: hex_key_def keybytesToHex_def Hash_Bytes_SetBytes)
qed

section \<open>The contents of a trie\<close>

definition trie_rep :: "trie_env \<Rightarrow> tnode \<Rightarrow> (u256 \<rightharpoonup> enc_value) \<Rightarrow> bool" where
  "trie_rep env root m \<longleftrightarrow>
     root = NilNode \<and> m = Map.empty \<or> (\<exists>t. rep env [] root t \<and> pwf t 65 \<and> m = (\<lambda>k. plookup t (hex_key k)))"

lemma trie_rep_Nil [simp]: "trie_rep env NilNode m \<longleftrightarrow> m = Map.empty"
  by (auto simp: trie_rep_def elim: rep_NilE)

lemma trie_repI: "rep env [] n t \<Longrightarrow> pwf t 65 \<Longrightarrow> (\<And>k. m k = plookup t (hex_key k)) \<Longrightarrow> trie_rep env n m"
  by (auto simp: trie_rep_def)

lemma trie_rep_cases:
  assumes "trie_rep env root m"
  obtains (empty) "root = NilNode" "m = Map.empty"
  | (tree) t where "rep env [] root t" "pwf t 65" "m = (\<lambda>k. plookup t (hex_key k))"
  using assms by (auto simp: trie_rep_def)

lemma trie_Put_rep:
  assumes "trie_rep env root m"
  shows "\<exists>root'. trie_Put env k v root = Some root' \<and> trie_rep env root' (m(k \<mapsto> value_encodings v))"
  using assms
proof (cases rule: trie_rep_cases)
  case e: empty
  obtain n where n: "mpt_insert env (hex_key k) NilNode 0 (ValueNode (Some v)) = Some n" "rep env [] n (PLeaf (hex_key k) (value_encodings v))"
    using insert_nil [OF refl, of env "[]" "hex_key k" v] by auto
  have "trie_rep env n [k \<mapsto> value_encodings v]" by (rule trie_repI [OF n(2)]) auto
  then show ?thesis using n(1) e by (simp add: trie_Put_def)
next
  case (tree t)
  note t = tree(1,2) and m = tree(3)
  let ?t = "pins (value_encodings v) t (hex_key k)"
  obtain n where n: "mpt_insert env (hex_key k) root 0 (ValueNode (Some v)) = Some n" "rep env [] n ?t"
    using mpt_insert_rep [OF t(1,2) hexkey_hex_key [of k], of v] by auto
  have "pwf ?t 65" "plookup ?t = (plookup t)(hex_key k \<mapsto> value_encodings v)"
    using pins_ok [OF t(2) hexkey_hex_key [of k]] by blast+
  then have "trie_rep env n (m(k \<mapsto> value_encodings v))" by (intro trie_repI [OF n(2)]) (simp_all add: m)
  then show ?thesis using n(1) by (simp add: trie_Put_def)
qed

lemma trie_Delete_rep:
  assumes "trie_rep env root m"
  shows "\<exists>root'. trie_Delete env k root = Some (root', if m k = None then [] else [PutValue k []]) \<and> trie_rep env root' (m(k := None))"
  using assms
proof (cases rule: trie_rep_cases)
  case empty
  moreover have "mpt_del env (hex_key k) NilNode 0 = Some (NotFound NilNode)" by (subst mpt_del.simps) simp
  ultimately show ?thesis by (simp add: trie_Delete_def fun_upd_def)
next
  case (tree t)
  note t = tree(1,2) and m = tree(3)
  have "del_spec env [] t (hex_key k) (mpt_del env (hex_key k) root 0)"
    using mpt_del_rep [OF t hexkey_hex_key [of k]] by simp
  then show ?thesis
  proof (cases rule: del_spec_cases)
    case (absent n)
    then have "m(k := None) = m" by (auto simp: m)
    moreover have "trie_rep env n m" using absent(3) t(2) by (rule trie_repI) (simp add: m)
    ultimately show ?thesis using absent by (simp add: trie_Delete_def m)
  next
    case emptied
    then have "(plookup t)(hex_key k := None) = Map.empty" using pdel_ok [OF t(2) emptied(2)] by simp
    then have "m(k := None) = Map.empty" unfolding m fun_eq_iff by (metis fun_upd_apply hex_key_inject)
    then show ?thesis using emptied by (auto simp: trie_Delete_def m)
  next
    case (shrunk n u)
    then have "pwf u 65" "plookup u = (plookup t)(hex_key k := None)" using pdel_ok [OF t(2) shrunk(2)] by simp_all
    then have "trie_rep env n (m(k := None))" by (intro trie_repI [OF shrunk(4)]) (simp_all add: m)
    then show ?thesis using shrunk by (auto simp: trie_Delete_def m)
  qed
qed

section \<open>Histories\<close>

text \<open>Operations one after the other; where each refines an operation on abstract states, so do the sequences.\<close>

fun run_ops :: "('op \<Rightarrow> 's \<Rightarrow> 's option) \<Rightarrow> 'op list \<Rightarrow> 's \<Rightarrow> 's option" where
  "run_ops step [] s = Some s"
| "run_ops step (op # ops) s = Option.bind (step op s) (run_ops step ops)"

locale refined_ops =
  fixes step :: "'op \<Rightarrow> 's \<Rightarrow> 's option" and stands_for :: "'s \<Rightarrow> 'a \<Rightarrow> bool" and spec :: "'op \<Rightarrow> 'a \<Rightarrow> 'a"
  assumes step_refines: "stands_for s a \<Longrightarrow> \<exists>s'. step op s = Some s' \<and> stands_for s' (spec op a)"
begin

lemma run_refines: "stands_for s a \<Longrightarrow> \<exists>s'. run_ops step ops s = Some s' \<and> stands_for s' (fold spec ops a)"
proof (induction ops arbitrary: s a)
  case (Cons op ops)
  obtain s' where "step op s = Some s'" "stands_for s' (spec op a)" using step_refines [OF Cons.prems] by blast
  then show ?case using Cons.IH by simp
qed simp

end

datatype trie_op = OpPut u256 trie_value | OpDelete u256

fun run_op :: "trie_env \<Rightarrow> trie_op \<Rightarrow> tnode \<Rightarrow> tnode option" where
  "run_op env (OpPut k v) root = trie_Put env k v root"
| "run_op env (OpDelete k) root = map_option fst (trie_Delete env k root)"

fun map_op :: "trie_op \<Rightarrow> (u256 \<rightharpoonup> enc_value) \<Rightarrow> (u256 \<rightharpoonup> enc_value)" where
  "map_op (OpPut k v) m = m(k \<mapsto> value_encodings v)"
| "map_op (OpDelete k) m = m(k := None)"

lemma run_op_rep: "trie_rep env root m \<Longrightarrow> \<exists>root'. run_op env op root = Some root' \<and> trie_rep env root' (map_op op m)"
  using trie_Put_rep trie_Delete_rep by (cases op) fastforce+

interpretation trie: refined_ops "run_op env" "trie_rep env" map_op for env
  by unfold_locales (rule run_op_rep)

section \<open>The shape of a trie\<close>

text \<open>
  The abstract trie as a tree of nodes without hashes, and a tree of nodes without its hashes. A tree that was built
  without a database has no hash in the place of a node and no value that has not been loaded, so the abstract
  trie determines it.
\<close>

primrec tree_of :: "ptrie \<Rightarrow> tnode" where
  "tree_of (PLeaf kp v) = ShortNode kp (ValueNode (Some (Internal (fst v) (snd v)))) None"
| "tree_of (PExt kp t) = ShortNode kp (tree_of t) None"
| "tree_of (PBranch f) = FullNode (map (\<lambda>i. case (map_option tree_of \<circ> f) i of None \<Rightarrow> NilNode | Some n \<Rightarrow> n) [0..<16]) None"

fun erase :: "tnode \<Rightarrow> tnode" where
  "erase NilNode = NilNode"
| "erase (ShortNode kp n h) = ShortNode kp (erase n) None"
| "erase (FullNode cs h) = FullNode (map erase cs) None"
| "erase (HashNode h) = HashNode h"
| "erase (ValueNode v) = ValueNode (map_option (\<lambda>x. Internal (fst (value_encodings x)) (snd (value_encodings x))) v)"

definition no_database :: "trie_env \<Rightarrow> bool" where
  "no_database env \<longleftrightarrow> te_GetNode env = Map.empty \<and> te_GetValue env = Map.empty"

lemma no_database_resolve:
  assumes "no_database env" shows "resolve env h q = None" "resolve_val_n_by_hex_k env q = None"
  using assms by (simp_all add: no_database_def resolve_def resolve_val_n_by_hex_k_def resolve_val_n_def split: Option.bind_split)

lemma rep_erase: "rep env q n t \<Longrightarrow> no_database env \<Longrightarrow> erase n = tree_of t"
proof (induction rule: rep.induct)
  case (rep_leaf q kp n v h)
  then show ?case by (auto simp: leaf_val_def no_database_resolve)
next
  case (rep_full cs f q h)
  have "map erase cs = map (\<lambda>i. case (map_option tree_of \<circ> f) i of None \<Rightarrow> NilNode | Some n \<Rightarrow> n) [0..<16]"
    by (rule nth_equalityI) (use rep_full in \<open>auto split: option.split\<close>)
  then show ?case by simp
qed (auto simp: no_database_resolve)

text \<open>The contents determine the shape: keys of 65 nibbles are all there is in a trie.\<close>

lemma trie_rep_unique:
  assumes "rep env [] n t" "pwf t 65" "rep env [] n' t'" "pwf t' 65" "\<And>k. plookup t (hex_key k) = plookup t' (hex_key k)"
  shows "t = t'"
proof (rule pwf_unique [OF assms(2,4)], rule ext)
  fix q
  show "plookup t q = plookup t' q"
  proof (cases "hexkey 65 q")
    case True
    then show ?thesis using assms(5) by (metis hex_key_surj)
  next
    case False
    then show ?thesis using plookup_hexkey assms(2,4) by (metis not_None_eq)
  qed
qed

lemma trie_rep_nonempty: "rep env [] n t \<Longrightarrow> pwf t 65 \<Longrightarrow> \<exists>k. plookup t (hex_key k) \<noteq> None"
  by (metis pwf_nonempty plookup_hexkey hex_key_surj option.distinct(1))

lemma trie_rep_empty:
  assumes "trie_rep env n Map.empty" shows "n = NilNode"
  using assms
proof (cases rule: trie_rep_cases)
  case (tree t)
  then show ?thesis using trie_rep_nonempty [OF tree(1,2)] by metis
qed

lemma trie_rep_erase:
  assumes "trie_rep env r m" "trie_rep env r' m" "no_database env" shows "erase r = erase r'"
  using assms(1)
proof (cases rule: trie_rep_cases)
  case empty
  then show ?thesis using trie_rep_empty assms(2) by metis
next
  case t: (tree t)
  show ?thesis
    using assms(2)
  proof (cases rule: trie_rep_cases)
    case empty
    then show ?thesis using trie_rep_empty assms(1) by metis
  next
    case (tree t')
    then have "t = t'" using t by (intro trie_rep_unique [OF t(1,2) tree(1,2)]) metis
    then show ?thesis using rep_erase assms(3) t(1) tree(1) by metis
  qed
qed

section \<open>Properties\<close>

text \<open>A database with one node, a leaf with the key 0 and the value 5, under the hash 7.\<close>

definition ex_node :: bytes where
  "ex_node = [0xE3, 0xA1, 0x20] @ replicate 32 0 @ [5]"

definition ex_trie_env :: trie_env where
  "ex_trie_env = \<lparr>te_keccak256 = (\<lambda>_. 0), te_ValueStorageToHashEncoding = Some, te_MaxValueSizeToStoreInTrie = 8,
     te_GetValue = Map.empty, te_GetNode = [7 \<mapsto> ex_node]\<rparr>"

definition ex_leaf :: tnode where
  "ex_leaf = ShortNode (hex_key 0) (ValueNode (Some (Internal [5] [5]))) (Some 7)"

lemma ex_resolve: "resolve ex_trie_env 7 [] = Some ex_leaf"
proof -
  let ?ck = "0x20 # replicate 32 0 :: bytes"
  have node: "ex_node = rlp (RList [RStr ?ck, RStr [5]])" unfolding ex_node_def by code_simp
  have zero: "Hash_Bytes 0 = replicate 32 0" by (simp add: Hash_Bytes_def be_bytes_def map_replicate_const)
  have key: "compact_to_hex ?ck = Some (hex_key 0)"
    unfolding hex_key_def zero by (simp add: compact_to_hex_def keybytesToHex_def Let_def)
  have "hasTerm (hex_key k)" for k by (rule hex_key_parts [of k]) simp
  moreover have "te_GetNode ex_trie_env 7 = Some ex_node" by (simp add: ex_trie_env_def)
  moreover have "dec_node ex_trie_env (Suc (length ex_node)) [] (Some 7) ex_node = Some (ex_leaf, [])"
    using dec_leaf_value [of ?ck "[5]" "[]" "hex_key 0" ex_trie_env "[5]" "length ex_node" "[]" "Some 7"] key \<open>\<And>k. hasTerm (hex_key k)\<close>
    unfolding node [symmetric] by (simp add: ex_trie_env_def ex_node_def ex_leaf_def)
  ultimately show ?thesis by (simp only: resolve_def bind.bind_lunit prod.case) (simp add: ex_leaf_def)
qed

lemma ex_trie_rep: "trie_rep ex_trie_env (HashNode 7) [0 \<mapsto> ([5], [5])]"
proof (rule trie_repI)
  have "rep ex_trie_env [] ex_leaf (PLeaf (hex_key 0) ([5], [5]))" unfolding ex_leaf_def by (rule rep_leaf) simp
  then show "rep ex_trie_env [] (HashNode 7) (PLeaf (hex_key 0) ([5], [5]))"
    by (rule rep_hash [OF ex_resolve, rotated]) (simp add: ex_leaf_def)
qed auto

text \<open>
  C12: on a writer whose tree stands for the map \<open>m\<close> (over nodes in memory and nodes that are still in the
  database) \<open>Put\<close> returns a tree that stands for \<open>m\<close> with the new value at the key; \<open>Delete\<close> returns a tree that
  stands for \<open>m\<close> without the key, and erases the value under the key in the database just when the key was there.
\<close>

theorem Put_Delete_refine:
  assumes "trie_rep env root m"
  shows "(\<exists>root'. trie_Put env k v root = Some root' \<and> trie_rep env root' (m(k \<mapsto> value_encodings v))) \<and>
    (\<exists>root'. trie_Delete env k root = Some (root', if m k = None then [] else [PutValue k []]) \<and>
       trie_rep env root' (m(k := None)))"
  using trie_Put_rep [OF assms, of k v] trie_Delete_rep [OF assms, of k] by (rule conjI)

theorem Put_Delete_refine_witness:
  "(\<exists>root'. trie_Put ex_trie_env 0 (Foreign [9] [8]) (HashNode 7) = Some root' \<and>
      trie_rep ex_trie_env root' [0 \<mapsto> ([9], [8])]) \<and>
   (\<exists>root'. trie_Delete ex_trie_env 0 (HashNode 7) = Some (root', [PutValue 0 []]) \<and> trie_rep ex_trie_env root' Map.empty)"
proof -
  have "[0 \<mapsto> ([5], [5])](0 := None) = (Map.empty :: u256 \<rightharpoonup> enc_value)" by auto
  then show ?thesis using Put_Delete_refine [OF ex_trie_rep, of 0 "Foreign [9] [8]"] by (simp only: fun_upd_same) simp
qed

text \<open>
  C13: the tree of a writer depends on its contents only, not on the order of the changes: two sequences of \<open>Put\<close>
  and \<open>Delete\<close> that leave the same map leave the same tree (without its cached hashes), starting from nothing.
\<close>

theorem history_independent:
  assumes "no_database env" "fold map_op ops Map.empty = fold map_op ops' Map.empty"
  shows "\<exists>r r'. run_ops (run_op env) ops NilNode = Some r \<and> run_ops (run_op env) ops' NilNode = Some r' \<and> erase r = erase r'"
proof -
  obtain r where r: "run_ops (run_op env) ops NilNode = Some r" "trie_rep env r (fold map_op ops Map.empty)"
    using trie.run_refines [of env NilNode Map.empty ops] by auto
  obtain r' where r': "run_ops (run_op env) ops' NilNode = Some r'" "trie_rep env r' (fold map_op ops' Map.empty)"
    using trie.run_refines [of env NilNode Map.empty ops'] by auto
  show ?thesis using r r' assms trie_rep_erase by metis
qed

definition ex_no_db :: trie_env where
  "ex_no_db = ex_trie_env\<lparr>te_GetNode := Map.empty\<rparr>"

theorem history_independent_witness:
  "\<exists>r r'. run_ops (run_op ex_no_db) [OpPut 1 (Foreign [9] [8]), OpPut 2 (Foreign [7] [6]), OpDelete 1] NilNode = Some r \<and>
    run_ops (run_op ex_no_db) [OpPut 2 (Foreign [7] [6])] NilNode = Some r' \<and> erase r = erase r'"
proof -
  have "no_database ex_no_db" by (simp add: no_database_def ex_no_db_def ex_trie_env_def)
  moreover have "fold map_op [OpPut 1 (Foreign [9] [8]), OpPut 2 (Foreign [7] [6]), OpDelete 1] Map.empty =
      fold map_op [OpPut 2 (Foreign [7] [6])] Map.empty" by (auto simp: fun_eq_iff)
  ultimately show ?thesis by (rule history_independent)
qed

end
