(* ===== verification/Trie_Traversal.thy ===== *)
theory Trie_Traversal
  imports Trie_Writer
begin

text \<open>
  \<open>ForEach\<close> of the reader visits every key of a trie once and in increasing order, with its value. The
  traversal of the nodes is related to the traversal of the abstract trie, and the order of the nibbles to the order of
  the keys as numbers.
\<close>

section \<open>The traversal of an abstract trie\<close>

primrec pentries :: "ptrie \<Rightarrow> bytes \<Rightarrow> (bytes \<times> enc_value) list" where
  "pentries (PLeaf kp v) = (\<lambda>q. [(q @ kp, v)])"
| "pentries (PExt kp t) = (\<lambda>q. pentries t (q @ kp))"
| "pentries (PBranch f) = (\<lambda>q. concat (map (\<lambda>i. case (map_option pentries \<circ> f) i of None \<Rightarrow> [] | Some g \<Rightarrow> g (q @ [word_of_nat i])) [0..<16]))"

lemma pentries_branch: "pentries (PBranch f) q =
    concat (map (\<lambda>i. case f i of None \<Rightarrow> [] | Some t \<Rightarrow> pentries t (q @ [word_of_nat i])) [0..<16])"
  by (auto intro!: arg_cong [of _ _ concat] split: option.split)

declare pentries.simps(3) [simp del]

lemma set_pentries: "pwf t d \<Longrightarrow> set (pentries t q) = {(q @ k, v) |k v. plookup t k = Some v}"
proof (induction t arbitrary: d q rule: ptrie_induct)
  case (PLeaf kp v)
  then show ?case by auto
next
  case (PExt kp t)
  then have "pwf t (d - length kp)" by simp
  from PExt.IH [OF this] show ?case by (auto simp: plookup.simps take_prefix split: if_splits) force+
next
  case (PBranch f)
  have w: "\<forall>i\<ge>16. f i = None" "\<And>i t. f i = Some t \<Longrightarrow> pwf t (d - 1)" using PBranch.prems by (auto simp: pwf_branch)
  have "(hk, v) \<in> set (pentries (PBranch f) q) \<longleftrightarrow> (\<exists>k. hk = q @ k \<and> plookup (PBranch f) k = Some v)" for hk v
  proof
    assume "(hk, v) \<in> set (pentries (PBranch f) q)"
    then obtain i t where i: "i < 16" "f i = Some t" "(hk, v) \<in> set (pentries t (q @ [word_of_nat i]))"
      by (auto simp: pentries_branch split: option.splits) metis
    then obtain k where "hk = q @ word_of_nat i # k" "plookup t k = Some v" using PBranch.IH [OF i(2) w(2) [OF i(2)]] by auto
    moreover have "unat (word_of_nat i :: byte) = i" using i(1) by (simp add: unat_of_nat)
    ultimately show "\<exists>k. hk = q @ k \<and> plookup (PBranch f) k = Some v" using i(2) by (intro exI [of _ "word_of_nat i # k"]) simp
  next
    assume "\<exists>k. hk = q @ k \<and> plookup (PBranch f) k = Some v"
    then obtain x k t where k: "hk = q @ x # k" "f (unat x) = Some t" "plookup t k = Some v"
      by (metis (no_types, lifting) neq_Nil_conv option.case_eq_if option.collapse option.distinct(1) plookup_branch)
    then have "(hk, v) \<in> set (pentries t (q @ [word_of_nat (unat x)]))" using PBranch.IH [OF k(2) w(2) [OF k(2)]] by auto
    moreover have "unat x < 16" using w(1) k(2) by (metis not_le option.distinct(1))
    ultimately show "(hk, v) \<in> set (pentries (PBranch f) q)" using k(2) by (force simp: pentries_branch)
  qed
  then show ?case by auto
qed

section \<open>The order of the keys\<close>

definition nib_val :: "bytes \<Rightarrow> nat" where
  "nib_val xs = foldl (\<lambda>r x. 16 * r + unat x) 0 xs"

lemma nib_val_snoc [simp]: "nib_val (xs @ [x]) = 16 * nib_val xs + unat x"
  by (simp add: nib_val_def)

lemma nib_val_append: "nib_val (xs @ ys) = nib_val xs * 16 ^ length ys + nib_val ys"
proof (induction ys rule: rev_induct)
  case (snoc y ys)
  have "nib_val (xs @ ys @ [y]) = nib_val ((xs @ ys) @ [y])" by simp
  also have "\<dots> = 16 * nib_val (xs @ ys) + unat y" by (rule nib_val_snoc)
  finally show ?case using snoc by simp
qed (simp add: nib_val_def)

lemma nib_val_less: "nibbles xs \<Longrightarrow> nib_val xs < 16 ^ length xs"
proof (induction xs rule: rev_induct)
  case (snoc x xs)
  then have "nib_val xs < 16 ^ length xs" "unat x < 16" by (simp_all add: word_less_nat_alt)
  then show ?case by simp
qed (simp add: nib_val_def)

lemma nib_val_pairs: "nib_val (concat (map (\<lambda>b. [b div 16, b mod 16]) bs)) = big_SetBytes bs"
proof (induction bs rule: rev_induct)
  case (snoc b bs)
  have "unat b = 16 * unat (b div 16) + unat (b mod 16)" by (simp add: unat_div unat_mod)
  with snoc show ?case by (simp add: nib_val_append big_SetBytes_snoc nib_val_def)
qed (simp add: nib_val_def big_SetBytes_def)

lemma nib_val_hex_key: "nib_val (butlast (hex_key k)) = unat k"
proof -
  have "unat k < 256 ^ 32" by (rule less_le_trans [OF unsigned_less]) simp
  then show ?thesis
    by (simp only: hex_key_def keybytesToHex_def butlast_snoc nib_val_pairs Hash_Bytes_def big_SetBytes_be_bytes mod_less)
qed

lemma nib_val_bounds:
  assumes "hexkey d k" shows "nib_val q * 16 ^ (d - 1) \<le> nib_val (butlast (q @ k))" "nib_val (butlast (q @ k)) < (nib_val q + 1) * 16 ^ (d - 1)"
proof -
  obtain xs where xs: "k = xs @ [16]" "nibbles xs" "length xs = d - 1" using assms by (auto simp: hexkey_def)
  then have "butlast (q @ k) = q @ xs" by (simp add: butlast_append)
  then show "nib_val q * 16 ^ (d - 1) \<le> nib_val (butlast (q @ k))" "nib_val (butlast (q @ k)) < (nib_val q + 1) * 16 ^ (d - 1)"
    using nib_val_less [OF xs(2)] xs(3) by (simp_all add: nib_val_append)
qed

lemma sorted_wrt_concat:
  "sorted_wrt (\<lambda>xs ys. \<forall>x \<in> set xs. \<forall>y \<in> set ys. R x y) xss \<Longrightarrow> (\<And>xs. xs \<in> set xss \<Longrightarrow> sorted_wrt R xs) \<Longrightarrow> sorted_wrt R (concat xss)"
  by (induction xss) (auto simp: sorted_wrt_append)

definition before :: "bytes \<times> enc_value \<Rightarrow> bytes \<times> enc_value \<Rightarrow> bool" where
  "before a b \<longleftrightarrow> nib_val (butlast (fst a)) < nib_val (butlast (fst b))"

lemma pentries_sorted: "pwf t d \<Longrightarrow> sorted_wrt before (pentries t q)"
proof (induction t arbitrary: d q rule: ptrie_induct)
  case (PBranch f)
  have w: "2 \<le> d" "\<And>i t. f i = Some t \<Longrightarrow> pwf t (d - 1)" using PBranch.prems by (auto simp: pwf_branch)
  let ?g = "\<lambda>i. case f i of None \<Rightarrow> [] | Some t \<Rightarrow> pentries t (q @ [word_of_nat i])"
  have bounds: "(16 * nib_val q + i) * 16 ^ (d - 2) \<le> nib_val (butlast (fst e)) \<and> nib_val (butlast (fst e)) < (16 * nib_val q + i + 1) * 16 ^ (d - 2)"
    if i: "i < 16" and e: "e \<in> set (?g i)" for i e
  proof -
    obtain t where t: "f i = Some t" "e \<in> set (pentries t (q @ [word_of_nat i]))" using e by (cases "f i") auto
    then obtain k where k: "fst e = (q @ [word_of_nat i]) @ k" "hexkey (d - 1) k"
      using set_pentries [OF w(2) [OF t(1)]] plookup_hexkey [OF w(2) [OF t(1)]] by auto
    have "unat (word_of_nat i :: byte) = i" using i by (simp add: unat_of_nat)
    then have "nib_val (q @ [word_of_nat i]) = 16 * nib_val q + i" "d - 1 - 1 = d - 2" by simp_all
    then show ?thesis using nib_val_bounds [OF k(2), of "q @ [word_of_nat i]"] unfolding k(1) by metis
  qed
  have "before a b" if "i < j" "j < 16" "a \<in> set (?g i)" "b \<in> set (?g j)" for i j a b
  proof -
    have "nib_val (butlast (fst a)) < (16 * nib_val q + i + 1) * 16 ^ (d - 2)" using bounds [of i a] that by simp
    also have "\<dots> \<le> (16 * nib_val q + j) * 16 ^ (d - 2)" using that(1) by (intro mult_right_mono) auto
    also have "\<dots> \<le> nib_val (butlast (fst b))" using bounds [of j b] that by simp
    finally show ?thesis by (simp add: before_def)
  qed
  then have "sorted_wrt (\<lambda>xs ys. \<forall>x \<in> set xs. \<forall>y \<in> set ys. before x y) (map ?g [0..<16])"
    by (auto simp: sorted_wrt_iff_nth_less)
  moreover have "sorted_wrt before xs" if xs: "xs \<in> set (map ?g [0..<16])" for xs
  proof -
    obtain i where "xs = ?g i" using xs by auto
    then show ?thesis using PBranch.IH w(2) by (cases "f i") fastforce+
  qed
  ultimately show ?case unfolding pentries_branch by (rule sorted_wrt_concat)
qed auto

section \<open>The traversal of the nodes\<close>

definition entry_of :: "bytes \<times> enc_value \<Rightarrow> u256 \<times> enc_value option" where
  "entry_of e = (the (hex_to_keybytes (fst e)), Some (snd e))"

definition seen :: "u256 \<times> trie_value option \<Rightarrow> u256 \<times> enc_value option" where
  "seen e = (fst e, map_option value_encodings (snd e))"

definition visits :: "(u256 \<times> trie_value option) list option \<Rightarrow> (bytes \<times> enc_value) list \<Rightarrow> bool" where
  "visits r es \<longleftrightarrow> (\<exists>l. r = Some l \<and> map seen l = map entry_of es)"

lemma visits_concat:
  assumes "\<And>x. x \<in> set xs \<Longrightarrow> visits (f x) (g x)"
  shows "visits (map_option concat (those (map f xs))) (concat (map g xs))"
  using assms
proof (induction xs)
  case (Cons x xs)
  obtain l where "f x = Some l" "map seen l = map entry_of (g x)" using Cons.prems [of x] by (auto simp: visits_def)
  moreover obtain ls where "those (map f xs) = Some ls" "map seen (concat ls) = map entry_of (concat (map g xs))"
    using Cons.IH Cons.prems by (auto simp: visits_def)
  ultimately show ?case by (simp add: visits_def)
qed (simp add: visits_def)

lemma hexkey_keybytes:
  assumes "hexkey 65 hk" obtains k where "hex_to_keybytes hk = Some k" "hk = hex_key k"
  using assms by (metis hex_key_surj hex_to_keybytes_hex_key)

lemma for_each_leaf:
  assumes "leaf_val env (q @ kp) n v" "hexkey 65 (q @ kp)"
  shows "visits (for_each env (Suc fuel) True q (ShortNode kp n h)) [(q @ kp, v)]"
proof -
  obtain k where k: "hex_to_keybytes (q @ kp) = Some k" using hexkey_keybytes [OF assms(2)] by blast
  from assms(1) consider x where "n = ValueNode (Some x)" "value_encodings x = v"
    | "n = ValueNode None" "resolve_val_n env k = Some (ValueNode (Some (Internal (fst v) (snd v))))"
    using k by (auto simp: leaf_val_def resolve_val_n_by_hex_k_def)
  then show ?thesis using k by cases (auto simp: visits_def seen_def entry_of_def)
qed

definition enough :: "tnode \<Rightarrow> nat \<Rightarrow> nat" where
  "enough n d = (case n of HashNode h \<Rightarrow> 2 * d | _ \<Rightarrow> 2 * d - 1)"

lemma enough_le: "enough n d \<le> 2 * d"
  by (simp add: enough_def split: tnode.split)

lemma for_each_rep:
  assumes "rep env q n t" "pwf t d" "nibbles q" "length q + d = 65" "enough n d \<le> fuel"
  shows "visits (for_each env fuel True q n) (pentries t q)"
  using assms
proof (induction arbitrary: d fuel rule: rep.induct)
  case (rep_leaf q kp n v h)
  then have kp: "hexkey d kp" by simp
  have "0 < d" using kp hexkey_length [OF kp] by (cases kp) auto
  moreover from this have "length q < 65" "65 - length q = d" using rep_leaf.prems(3) by auto
  ultimately have "0 < d" and q: "hexkey 65 (q @ kp)" using kp hexkey_append [OF rep_leaf.prems(2)] by auto
  then obtain fuel' where "fuel = Suc fuel'" using rep_leaf.prems(4) by (cases fuel) (auto simp: enough_def)
  then show ?case using for_each_leaf [OF rep_leaf.hyps q] by simp
next
  case (rep_ext q kp n t h)
  have w: "kp \<noteq> []" "nibbles kp" "length kp < d" "pwf t (d - length kp)" using rep_ext.prems(1) by auto
  have e: "enough n (d - length kp) \<le> 2 * (d - length kp)" by (rule enough_le)
  have "1 \<le> length kp" using w(1) by (cases kp) auto
  then have "2 * (d - length kp) < 2 * d - 1" using w(3) by simp
  moreover obtain fuel' where fuel: "fuel = Suc fuel'" using rep_ext.prems(4) w(3) by (cases fuel) (auto simp: enough_def)
  ultimately have "enough n (d - length kp) \<le> fuel'" using e rep_ext.prems(4) by (simp add: enough_def)
  then have "visits (for_each env fuel' True (q @ kp) n) (pentries t (q @ kp))"
    using rep_ext.IH [of "d - length kp" fuel'] w rep_ext.prems(2,3) by simp
  then show ?case by (cases rule: rep_branch_node [OF rep_ext.hyps]) (simp_all add: fuel)
next
  case (rep_full cs f q h)
  have d: "2 \<le> d" using rep_full.prems(1) by (simp add: pwf_branch)
  then obtain fuel' where fuel: "fuel = Suc fuel'" using rep_full.prems(4) by (cases fuel) (auto simp: enough_def)
  let ?f = "\<lambda>(i, c). if c = NilNode then Some [] else for_each env fuel' True (q @ [word_of_nat i]) c"
  let ?g = "\<lambda>i. case f i of None \<Rightarrow> [] | Some t \<Rightarrow> pentries t (q @ [word_of_nat i])"
  have "visits (?f (i, cs ! i)) (?g i)" if i: "i < 16" for i
  proof (cases "f i")
    case None
    then show ?thesis using rep_full.hyps(2) [OF i] by (simp add: visits_def)
  next
    case (Some t)
    have t: "pwf t (d - 1)" using rep_full.prems(1) Some unfolding pwf_branch by blast
    have "unat (word_of_nat i :: byte) = i" using i by (simp add: unat_of_nat)
    then have q: "nibbles (q @ [word_of_nat i])" using rep_full.prems(2) i by (simp add: word_less_nat_alt)
    have "2 * d - 1 \<le> Suc fuel'" using rep_full.prems(4) by (simp add: enough_def fuel)
    then have "enough (cs ! i) (d - 1) \<le> fuel'" using enough_le [of "cs ! i" "d - 1"] d by linarith
    then have "visits (for_each env fuel' True (q @ [word_of_nat i]) (cs ! i)) (pentries t (q @ [word_of_nat i]))"
      using rep_full.IH [OF i Some t q] rep_full.prems(3) d by simp
    then show ?thesis using Some rep_proper [OF rep_full.hyps(3) [OF i Some]] by simp
  qed
  then have "visits (map_option concat (those (map (\<lambda>i. ?f (i, cs ! i)) [0..<16]))) (concat (map ?g [0..<16]))"
    by (intro visits_concat) simp
  moreover have "map ?f (zip [0..<16] cs) = map (\<lambda>i. ?f (i, cs ! i)) [0..<16]"
    by (rule nth_equalityI) (simp_all add: rep_full.hyps(1))
  ultimately show ?case unfolding pentries_branch fuel for_each.simps tnode.case full_node_child_cnt_def by metis
next
  case (rep_hash h q n t)
  have "0 < d" using pwf_nonempty [OF rep_hash.prems(1)] plookup_hexkey [OF rep_hash.prems(1)] hexkey_length
    by (metis hexkey_not_Nil length_0_conv not_gr0)
  then obtain fuel' where fuel: "fuel = Suc fuel'" using rep_hash.prems(4) by (cases fuel) (auto simp: enough_def)
  have "enough n d \<le> fuel'" using rep_hash.prems(4) rep_hash.hyps(2) \<open>0 < d\<close> by (cases n) (auto simp: enough_def fuel)
  then show ?case using rep_hash.IH rep_hash.prems rep_hash.hyps(1) by (simp add: fuel)
qed

section \<open>ForEach\<close>

lemma sorted_keys_map:
  assumes "sorted_wrt before es" "\<And>e. e \<in> set es \<Longrightarrow> hexkey 65 (fst e)"
  shows "sorted_wrt (<) (map (fst \<circ> entry_of) es)"
  using assms
proof (induction es)
  case (Cons e es)
  have "the (hex_to_keybytes (fst a)) < the (hex_to_keybytes (fst b))"
    if ab: "before a b" and a: "hexkey 65 (fst a)" and b: "hexkey 65 (fst b)" for a b
  proof -
    obtain x where x: "hex_to_keybytes (fst a) = Some x" "fst a = hex_key x" using hexkey_keybytes [OF a] by blast
    obtain y where y: "hex_to_keybytes (fst b) = Some y" "fst b = hex_key y" using hexkey_keybytes [OF b] by blast
    show ?thesis using ab x y by (simp add: before_def nib_val_hex_key word_less_nat_alt)
  qed
  with Cons show ?case by (simp add: entry_of_def)
qed simp

lemma seen_keys: "map fst (map seen l) = map fst l"
  by (simp add: seen_def)

text \<open>What \<open>ForEach\<close> has called back with: the keys in increasing order, each with its value.\<close>

definition lists_contents :: "(u256 \<times> trie_value option) list \<Rightarrow> (u256 \<rightharpoonup> enc_value) \<Rightarrow> bool" where
  "lists_contents l m \<longleftrightarrow> sorted_wrt (<) (map fst l) \<and> set (map seen l) = {(k, Some v) |k v. m k = Some v}"

lemma for_each_contents:
  assumes "rep env [] n t" "pwf t 65" "130 \<le> fuel"
  shows "\<exists>l. for_each env fuel True [] n = Some l \<and> lists_contents l (\<lambda>k. plookup t (hex_key k))"
proof -
  have "enough n 65 \<le> fuel" using enough_le [of n 65] assms(3) by linarith
  then have "visits (for_each env fuel True [] n) (pentries t [])" using for_each_rep [OF assms(1,2)] by simp
  then obtain l where l: "for_each env fuel True [] n = Some l" "map seen l = map entry_of (pentries t [])" by (auto simp: visits_def)
  have s: "set (pentries t []) = {(k, v). plookup t k = Some v}" using set_pentries [OF assms(2), of "[]"] by auto
  then have hex: "hexkey 65 (fst e)" if "e \<in> set (pentries t [])" for e using that plookup_hexkey [OF assms(2)] by auto
  have "sorted_wrt (<) (map (fst \<circ> entry_of) (pentries t []))" by (rule sorted_keys_map [OF pentries_sorted [OF assms(2)] hex])
  then have "sorted_wrt (<) (map fst l)" using seen_keys [of l] l(2) by (metis map_map)
  moreover have "set (map seen l) = {(k, Some v) |k v. plookup t (hex_key k) = Some v}"
  proof -
    have "(k, w) \<in> entry_of ` {(k, v). plookup t k = Some v} \<longleftrightarrow> (\<exists>v. w = Some v \<and> plookup t (hex_key k) = Some v)" for k w
    proof
      assume "(k, w) \<in> entry_of ` {(k, v). plookup t k = Some v}"
      then obtain hk v where e: "plookup t hk = Some v" "k = the (hex_to_keybytes hk)" "w = Some v" by (auto simp: entry_of_def)
      moreover obtain k' where "hk = hex_key k'" using plookup_hexkey [OF assms(2) e(1)] by (rule hex_key_surj)
      ultimately show "\<exists>v. w = Some v \<and> plookup t (hex_key k) = Some v" by simp
    next
      assume "\<exists>v. w = Some v \<and> plookup t (hex_key k) = Some v"
      then show "(k, w) \<in> entry_of ` {(k, v). plookup t k = Some v}" by (force simp: entry_of_def)
    qed
    then have "x \<in> entry_of ` {(k, v). plookup t k = Some v} \<longleftrightarrow> (\<exists>k v. x = (k, Some v) \<and> plookup t (hex_key k) = Some v)" for x
      by (cases x) simp
    then show ?thesis unfolding l(2) set_map s by blast
  qed
  ultimately show ?thesis using l(1) by (auto simp: lists_contents_def)
qed

text \<open>
  C14: \<open>ForEach\<close> of the reader on the root hash of a trie calls back with every key of the trie, once, in increasing
  order, and with the value that the trie has for it, whether the value is stored in the node or under its key.
\<close>

theorem ForEach_correct:
  assumes "trie_rep env (HashNode h) m"
  shows "\<exists>l. ForEach env h True = Some l \<and> sorted_wrt (<) (map fst l) \<and>
    (\<forall>k v. (k, Some v) \<in> set (map (\<lambda>(k, x). (k, map_option value_encodings x)) l) \<longleftrightarrow> m k = Some v) \<and> None \<notin> snd ` set l"
  using assms
proof (cases rule: trie_rep_cases)
  case (tree t)
  obtain l where l: "ForEach env h True = Some l" "lists_contents l m"
    using for_each_contents [OF tree(1,2), of "2 * 65 + 1"] unfolding ForEach_def tree(3) ForEach_fuel_def HexKeyLen_def by auto
  have s: "set (map seen l) = {(k, Some v) |k v. m k = Some v}" using l(2) by (simp add: lists_contents_def)
  moreover have "None \<notin> snd ` set l"
  proof
    assume "None \<in> snd ` set l"
    then obtain k where "(k, None) \<in> set l" by auto
    then have "(k, None) \<in> set (map seen l)" by (force simp: seen_def)
    then show False unfolding s by simp
  qed
  moreover have "map (\<lambda>(k, x). (k, map_option value_encodings x)) l = map seen l" by (auto simp: seen_def)
  ultimately show ?thesis using l by (auto simp: lists_contents_def)
qed simp

theorem ForEach_correct_witness:
  "\<exists>l. ForEach ex_trie_env 7 True = Some l \<and> sorted_wrt (<) (map fst l) \<and>
    (\<forall>k v. (k, Some v) \<in> set (map (\<lambda>(k, x). (k, map_option value_encodings x)) l) \<longleftrightarrow> [0 \<mapsto> ([5], [5])] k = Some v) \<and> None \<notin> snd ` set l"
  by (rule ForEach_correct [OF ex_trie_rep])

end
