(* ===== verification/Spec2Isabelle.thy ===== *)
theory Spec2Isabelle
  imports Dpos_Delegation Dpos_Claims Storage_Layout Account_Codec Slashing Dpos_Paging Evm_Panics Trie_Traversal
begin

text \<open>
  \<^bold>\<open>Verification of the EBLA EVM.\<close> The repository (\<open>src/\<close>) is the execution layer of the EBLA network in Go: an
  Ethereum virtual machine derived from go-ethereum (\<open>src/core/vm\<close>), the state it runs on
  (\<open>src/ebla/state/state_evm\<close>), two contracts written in Go that the EVM calls like precompiled ones, the
  delegated proof of stake contract and the slashing contract (\<open>src/ebla/state/contracts\<close>), and the RLP codec
  that everything stored or hashed goes through (\<open>src/rlp\<close>). The node drives it block by block: transactions go
  through \<open>EVM.Main\<close>, calls to the address of the DPoS contract end in \<open>Contract.Run\<close>, the contracts keep their data
  in the storage of their account, and at the end of a block rewards are distributed and readers of a
  delayed state answer the consensus layer who may vote.

  \<^bold>\<open>Conventions.\<close> \<open>Prelude\<close> names the machine types. Go's fixed-width integers and \<open>uint256.Int\<close> are words,
  \<open>big.Int\<close> is \<^typ>\<open>int\<close> or \<^typ>\<open>nat\<close>, an address is a 160-bit word, a byte slice a list of 8-bit words. A panic is
  \<^const>\<open>None\<close> (or \<^const>\<open>Panic\<close> in the interpreter, which also has \<^const>\<open>NoFuel\<close>); an error is a value returned beside the
  state, because the code does not undo what it did before it returned one. State is passed explicitly in
  records that have the fields of the Go structs. Definitions have the names of the Go functions; where a name
  is taken a suffix or the receiver's name is added. All definitions are executable but for a few predicates
  of the specifications.

  \<^bold>\<open>Parts.\<close>

  \<^item> \<^emph>\<open>Encodings and storage.\<close> \<open>Bin_Codec\<close>: integers as bytes (\<open>util/bin\<close>, \<open>big.Int.Bytes\<close>); locale \<open>codec\<close>.
    \<open>Contract_Storage\<close>: the storage wrapper of a contract (\<open>contracts/storage/storage.go\<close>). \<open>Iterable_Map\<close> and
    \<open>Typed_IMap\<close>: the iterable map in storage slots (\<open>iterable_map.go\<close>, \<open>addresses_imap.go\<close>, \<open>ids_imap.go\<close>), refined
    to a duplicate-free list. \<open>Storage_Layout\<close>: no two slots of the DPoS contract hash the same bytes, which is
    what justifies keeping each kind of slot in a map of its own in the theories that follow.

  \<^item> \<^emph>\<open>Proof of stake\<close> (\<open>contracts/dpos/precompiled\<close>). \<open>Chain_Config\<close>, \<open>Yield_Curve\<close>: configuration, statistics of a
    block and the reward schedule. \<open>Validators_Store\<close>, \<open>Delegations_Store\<close>, \<open>Undelegations_Store\<close>: the three
    stores. \<open>Dpos_State\<close>: the contract record, balances, votes and reward states with their reference counts.
    \<open>Dpos_Contract\<close>: the methods (\<open>delegate\<close>, \<open>undelegate\<close>, \<open>confirmUndelegate\<close>, \<open>cancelUndelegate\<close>, \<open>redelegate\<close>,
    \<open>claimRewards\<close>, \<dots>). \<open>Dpos_Rewards\<close>: \<open>DistributeRewards\<close>, penalties, genesis. \<open>Dpos_Queries\<close>: the read-only
    methods, \<open>RequiredGas\<close> and the dispatch in \<open>Run\<close>. \<open>Dpos_Reader\<close>: the delayed readers and the API.
    \<open>Dpos_Accounting\<close> and \<open>Dpos_Invariant\<close> state the invariant: stores well formed, every total the sum it stands
    for, reward references counted, and the balance of the contract at least everything it owes. \<open>Dpos_Steps\<close>,
    \<open>Dpos_Handlers\<close>, \<open>Dpos_Delegation\<close> and \<open>Dpos_Claims\<close> show that the methods do not panic in a state that
    satisfies it, leave the state alone when they return an error, and keep it, and what a claim pays; the
    places where this fails are theorems over all states of the invariant too (\<open>cancelUndelegate_late_check\<close>, \<open>redelegate_loses_state\<close>). \<open>Dpos_Paging\<close>: the pages and
    prices of the queries. \<open>Dpos_Example\<close>: a concrete contract for the witnesses.

  \<^item> \<^emph>\<open>Slashing\<close> (\<open>contracts/slashing/precompiled\<close>). \<open>Slashing\<close>: proofs of double voting, jailing, the reader.

  \<^item> \<^emph>\<open>RLP and accounts.\<close> \<open>Rlp_Encoder\<close>, \<open>Rlp_Raw\<close>, \<open>Rlp_Stream\<close>, \<open>Rlp_Types\<close>: the encoder buffer, splitting, the
    streaming decoder and the typed writers and decoders (\<open>encode.go\<close>, \<open>raw.go\<close>, \<open>decode.go\<close>, \<open>typecache.go\<close>).
    \<open>Rlp_Roundtrip\<close> relates both directions to one specification of RLP. \<open>Account_Codec\<close>: accounts as trie values
    (\<open>state_db/main_trie.go\<close>, \<open>account_trie.go\<close>).

  \<^item> \<^emph>\<open>The Merkle trie\<close> (\<open>ebla/trie\<close>). \<open>Trie_Encoding\<close>: keys as nibbles and their compact form, with the round trips.
    \<open>Trie_Nodes\<close>: nodes, reading them from the database, iteration, insertion and deletion. \<open>Trie_Model\<close> states what
    they mean: a tree of nibbles without hashes, in the one shape that a map of 256-bit keys has. \<open>Trie_Node_Codec\<close>
    relates the bytes of a node in the database to it. \<open>Trie_Writer\<close> (locale \<open>refined_ops\<close>, interpreted on the
    writer): \<open>Put\<close> and \<open>Delete\<close> implement the updates of the map, whatever part of the tree is still in the
    database, and the tree depends on the contents only. \<open>Trie_Traversal\<close>: \<open>ForEach\<close> enumerates the contents.

  \<^item> \<^emph>\<open>The EVM.\<close> \<open>Evm_State\<close>: accounts, journal, transient storage and commit (\<open>state_evm\<close>). \<open>Evm_Machine\<close>: stack,
    pooled memory, checked arithmetic. \<open>Jumpdest_Analysis\<close>: the bit vector of \<open>analysis.go\<close>. \<open>Evm_Gas\<close>: the EVM
    object and the gas functions. \<open>Evm_Instructions\<close>, \<open>Evm_Calls\<close>: the instructions, calls and creation.
    \<open>Evm_Interpreter\<close>: the instruction table, the loop \<open>run\<close> and the transaction \<open>Main\<close>. \<open>Evm_Precompiles\<close>: the
    native contracts of \<open>contracts.go\<close> over a record of cryptographic functions.
    \<open>Evm_Journal\<close> shows that reverting a journal restores what can be seen of the state; \<open>Evm_Code_Stable\<close> that
    code is final; \<open>Evm_Gas_Spec\<close>, \<open>Evm_Op_Spec\<close> and \<open>Evm_Table_Spec\<close> state the contract of a gas function and of
    an instruction and prove it of every entry of the table. On these rest \<open>Evm_Termination\<close> (locales
    \<open>gas_runner\<close> and \<open>frame_runner\<close>), \<open>Evm_Safety\<close> (locale \<open>safe_runner\<close>) and \<open>Evm_Steps\<close>, in which the loop is a
    step relation. The locales state what a frame may rely on in the function that runs its callees; the
    interpreter is their interpretation, by induction over the fuel. \<open>Precompile_Spec\<close>: what the native
    contracts compute. \<open>Evm_Panics\<close>: an offset that makes the interpreter panic.

  \<^bold>\<open>Fuel and bounds.\<close> \<open>run n\<close> spends one unit of fuel per instruction of the deepest frame; \<open>run_terminates\<close> proves
  that fuel above the gas of the frame is always enough, for all code, because every instruction that does
  not end its frame costs gas and a callee gets less gas than its caller has. The loops over storage and input
  take the number of remaining items as fuel and are shown to return. The RLP decoder has fuel since one of its
  loops really diverges (\<open>byte_array_zero_diverges\<close>); for the encodings of the specification the length of the
  input is enough. Lengths of slices are assumed below \<open>2 ^ 63\<close> where a theorem says so, as Go guarantees; a slice
  that the code makes with a length taken from the input (\<open>make_bytes\<close>) panics above \<open>2 ^ 48\<close> bytes, the largest
  allocation of the runtime on a 64-bit machine. The iteration of the trie has fuel for twice the length of a key.

  \<^bold>\<open>Parameters.\<close> The hash function, public key recovery, the curves, the block hashes, the operations of
  \<open>uint256\<close> that are not plain word arithmetic, the ABI codec and what the database returns are arguments of the
  definitions that use them; hypotheses about them are named in the theorems (\<open>fp_lawful\<close>, \<open>precompiles_safe\<close>).

  \<^bold>\<open>Not modelled.\<close> The ABI codec (\<open>src/accounts/abi\<close>, reflection inherited from go-ethereum), the curves and hashes
  themselves (\<open>src/crypto\<close>), tracing and loggers, the C interface, RocksDB, \<open>Commit\<close> of the Merkle trie and the
  goroutines that feed it, the state transition that wires the parts together, the dry runners, text formats, and the test and benchmark programs. The raw storage writes of the
  DPoS and slashing contracts are not journaled by the code; the theorems about reverting are stated for the
  native contracts of \<open>PrecompiledContractsEbla\<close>, and the DPoS theorems for the contract called on its own.
\<close>

end
